(* ===== verification/Durable_Prelude.thy ===== *)
theory Durable_Prelude
  imports Main "HOL-Library.Product_Lexorder"
begin

text \<open>
  The shared vocabulary of the development.

  \<^item> Machine integers: the engine stores \<open>i32\<close> and \<open>i64\<close> columns and combines them
    with \<open>checked_add\<close>, \<open>saturating_add\<close> and \<open>try_from\<close> only. They are \<open>int\<close> here, with
    the width written out in those operations.
  \<^item> Text: a Rust \<open>String\<close> is its UTF-8 bytes, a \<open>string\<close> here, so \<open>len()\<close> is
    \<open>length\<close>; character boundaries, character counts and \<open>trim\<close> are defined on bytes.
  \<^item> Transactions: a database transaction is a function from the state to an error or
    a result with the new state. An error carries no state: the transaction rolled
    back. \<open>tx_bind\<close> is the \<open>?\<close> operator between two statements.
  \<^item> Tables: a table is the list of its rows; \<open>update_where\<close> is an SQL \<open>UPDATE\<close> and
    returns the number of rows it changed, which is what a fence tests.
  \<^item> Two locales state what a table owes its clients: \<open>table_lens\<close> (reading back what
    was written) and \<open>row_guarantee\<close> (a reflexive and transitive relation between the
    old and the new version of each row, which every statement on the table then keeps);
    \<open>guarantee\<close> lifts such a relation from statements to transactions.
\<close>

named_theorems tx_simps \<open>a statement returned: what its result and its state are\<close>
named_theorems keeps_intros \<open>a statement keeps an invariant\<close>
named_theorems ends_intros \<open>a statement does not outrun its bound\<close>
named_theorems guar_intros \<open>a statement relates its states\<close>

section \<open>Machine integers\<close>

type_synonym i32 = int
type_synonym i64 = int
type_synonym u32 = int
type_synonym u64 = int

definition in_signed :: "nat \<Rightarrow> int \<Rightarrow> bool" where
  "in_signed w x \<longleftrightarrow> - (2 ^ (w - 1)) \<le> x \<and> x < 2 ^ (w - 1)"

definition in_unsigned :: "nat \<Rightarrow> int \<Rightarrow> bool" where
  "in_unsigned w x \<longleftrightarrow> 0 \<le> x \<and> x < 2 ^ w"

definition max_signed :: "nat \<Rightarrow> int" where
  "max_signed w = 2 ^ (w - 1) - 1"

definition min_signed :: "nat \<Rightarrow> int" where
  "min_signed w = - (2 ^ (w - 1))"

definition clamp_signed :: "nat \<Rightarrow> int \<Rightarrow> int" where
  "clamp_signed w x = max (min_signed w) (min (max_signed w) x)"

text \<open>Rust's \<open>checked_add\<close>, \<open>saturating_add\<close> and \<open>saturating_sub\<close> on a signed type.\<close>

definition checked_add :: "nat \<Rightarrow> int \<Rightarrow> int \<Rightarrow> int option" where
  "checked_add w a b = (if in_signed w (a + b) then Some (a + b) else None)"

definition saturating_add :: "nat \<Rightarrow> int \<Rightarrow> int \<Rightarrow> int" where
  "saturating_add w a b = clamp_signed w (a + b)"

definition saturating_sub :: "nat \<Rightarrow> int \<Rightarrow> int \<Rightarrow> int" where
  "saturating_sub w a b = clamp_signed w (a - b)"

definition max_u32 :: u32 where
  "max_u32 = 2 ^ 32 - 1"

text \<open>\<open>u32::try_from\<close> and \<open>i32::try_from\<close>: \<open>None\<close> when the value does not fit.\<close>

definition u32_try_from :: "int \<Rightarrow> u32 option" where
  "u32_try_from x = (if in_unsigned 32 x then Some x else None)"

definition i32_try_from :: "int \<Rightarrow> i32 option" where
  "i32_try_from x = (if in_signed 32 x then Some x else None)"

definition i64_try_from :: "int \<Rightarrow> i64 option" where
  "i64_try_from x = (if in_signed 64 x then Some x else None)"

definition u64_try_from :: "int \<Rightarrow> u64 option" where
  "u64_try_from x = (if in_unsigned 64 x then Some x else None)"

lemma in_signed_bounds: "in_signed w x \<longleftrightarrow> min_signed w \<le> x \<and> x \<le> max_signed w"
  by (auto simp: in_signed_def min_signed_def max_signed_def)

lemma clamp_signed_id: "in_signed w x \<Longrightarrow> clamp_signed w x = x"
  by (auto simp: in_signed_bounds clamp_signed_def)

lemma clamp_signed_in: "in_signed w (clamp_signed w x)"
proof -
  have "min_signed w \<le> max_signed w"
    by (simp add: min_signed_def max_signed_def)
  then show ?thesis
    by (auto simp: in_signed_bounds clamp_signed_def)
qed

lemma checked_add_Some: "checked_add w a b = Some c \<longleftrightarrow> c = a + b \<and> in_signed w (a + b)"
  by (auto simp: checked_add_def)

lemma u32_try_from_Some: "u32_try_from x = Some y \<longleftrightarrow> y = x \<and> in_unsigned 32 x"
  by (auto simp: u32_try_from_def)

lemma saturating_add_le: "0 \<le> b \<Longrightarrow> in_signed w a \<Longrightarrow> a \<le> saturating_add w a b"
  by (auto simp: saturating_add_def clamp_signed_def in_signed_bounds)

lemma saturating_add_upper: "in_signed w a \<Longrightarrow> 0 \<le> b \<Longrightarrow> saturating_add w a b \<le> a + b"
  by (auto simp: saturating_add_def clamp_signed_def in_signed_bounds)

section \<open>Text\<close>

fun dec_nat :: "nat \<Rightarrow> string" where
  "dec_nat n = (if n < 10 then [char_of (48 + n)] else dec_nat (n div 10) @ [char_of (48 + n mod 10)])"

declare dec_nat.simps [simp del]

text \<open>\<open>Display\<close> of an integer.\<close>

definition dec_int :: "int \<Rightarrow> string" where
  "dec_int i = (if i < 0 then ''-'' @ dec_nat (nat (- i)) else dec_nat (nat i))"

lemma digit_inj:
  assumes "m < 10" "n < 10" "(char_of (48 + m) :: char) = char_of (48 + n)"
  shows "m = (n :: nat)"
proof -
  from assms(3) have "of_char (char_of (48 + m) :: char) = (of_char (char_of (48 + n) :: char) :: nat)"
    by (rule arg_cong)
  with assms(1,2) show ?thesis by simp
qed

lemma dec_nat_nonempty [simp]: "dec_nat n \<noteq> []"
  by (cases "n < 10") (simp_all add: dec_nat.simps [of n])

lemma dec_nat_nonempty' [simp]: "[] \<noteq> dec_nat n"
  using dec_nat_nonempty [of n] by metis

lemma dec_nat_inj: "dec_nat m = dec_nat n \<Longrightarrow> m = n"
proof (induction m arbitrary: n rule: dec_nat.induct)
  case (1 m)
  show ?case
  proof (cases "m < 10")
    case True
    have "n < 10"
    proof (rule ccontr)
      assume "\<not> n < 10"
      with True "1.prems" have "[char_of (48 + m)] = dec_nat (n div 10) @ [char_of (48 + n mod 10)]"
        by (simp add: dec_nat.simps [of m] dec_nat.simps [of n])
      then show False by simp
    qed
    with True "1.prems" have "(char_of (48 + m) :: char) = char_of (48 + n)"
      by (simp add: dec_nat.simps [of m] dec_nat.simps [of n])
    with True \<open>n < 10\<close> show ?thesis by (blast intro: digit_inj)
  next
    case False
    then have m: "dec_nat m = dec_nat (m div 10) @ [char_of (48 + m mod 10)]"
      by (simp add: dec_nat.simps [of m])
    have "\<not> n < 10"
    proof
      assume "n < 10"
      with m "1.prems" have "dec_nat (m div 10) @ [char_of (48 + m mod 10)] = [char_of (48 + n)]"
        by (simp add: dec_nat.simps [of n])
      then show False by simp
    qed
    then have n: "dec_nat n = dec_nat (n div 10) @ [char_of (48 + n mod 10)]"
      by (simp add: dec_nat.simps [of n])
    from m n "1.prems" have "dec_nat (m div 10) = dec_nat (n div 10)"
      and last: "(char_of (48 + m mod 10) :: char) = char_of (48 + n mod 10)"
      by simp_all
    with "1.IH" False have "m div 10 = n div 10" by blast
    moreover from last have "m mod 10 = n mod 10"
      by (rule digit_inj [rotated 2]) simp_all
    ultimately show ?thesis by (metis div_mult_mod_eq)
  qed
qed

lemma dec_nat_digits: "c \<in> set (dec_nat n) \<Longrightarrow> \<exists>k < 10. c = char_of (48 + k :: nat)"
proof (induction n rule: dec_nat.induct)
  case (1 n)
  show ?case
  proof (cases "n < 10")
    case True
    with "1.prems" show ?thesis by (auto simp: dec_nat.simps [of n])
  next
    case False
    with "1.prems" have "c \<in> set (dec_nat (n div 10)) \<or> c = char_of (48 + n mod 10)"
      by (auto simp: dec_nat.simps [of n])
    with "1.IH" False show ?thesis by (auto intro: exI [of _ "n mod 10"])
  qed
qed

lemma dec_nat_no_sep: "c \<in> {CHR '':'', CHR ''-''} \<Longrightarrow> c \<notin> set (dec_nat n)"
proof
  assume c: "c \<in> {CHR '':'', CHR ''-''}" and "c \<in> set (dec_nat n)"
  then obtain k where k: "k < 10" "c = char_of (48 + k :: nat)"
    using dec_nat_digits by blast
  then have "of_char c = (48 + k :: nat)" by simp
  moreover from c have "of_char c = (58 :: nat) \<or> of_char c = (45 :: nat)" by auto
  ultimately show False using k(1) by auto
qed

lemma dec_int_no_colon: "CHR '':'' \<notin> set (dec_int i)"
  by (auto simp: dec_int_def dec_nat_no_sep)

lemma dec_int_inj: "dec_int i = dec_int j \<longleftrightarrow> i = j"
proof
  assume eq: "dec_int i = dec_int j"
  have "hd (dec_nat n) \<noteq> CHR ''-''" for n
    using dec_nat_no_sep [of "CHR ''-''" n] hd_in_set [OF dec_nat_nonempty [of n]]
    by (metis insertI1 insertI2)
  then have neg: "hd (dec_int k) = CHR ''-'' \<longleftrightarrow> k < 0" for k
    by (simp add: dec_int_def)
  from eq neg [of i] neg [of j] have "i < 0 \<longleftrightarrow> j < 0" by simp
  with eq have "nat \<bar>i\<bar> = nat \<bar>j\<bar>"
    by (auto simp: dec_int_def dest!: dec_nat_inj split: if_splits)
  with \<open>i < 0 \<longleftrightarrow> j < 0\<close> show "i = j" by auto
qed simp

text \<open>Two texts joined by a separator that occurs in neither first part are split uniquely.\<close>

lemma sep_split_unique:
  assumes "a @ c # b = a' @ c # b'" and "c \<notin> set a" and "c \<notin> set a'"
  shows "a = a' \<and> b = b'"
  using assms
proof (induction a arbitrary: a')
  case Nil
  then show ?case by (cases a') auto
next
  case (Cons x a)
  then show ?case by (cases a') auto
qed

subsection \<open>UTF-8\<close>

text \<open>
  A continuation byte is \<open>10xxxxxx\<close>. \<open>chars().count()\<close> counts the bytes that are not
  one; \<open>is_char_boundary\<close> holds at 0, at the end, and before a byte that is not one.
\<close>

definition is_continuation :: "char \<Rightarrow> bool" where
  "is_continuation c \<longleftrightarrow> 128 \<le> (of_char c :: nat) \<and> (of_char c :: nat) < 192"

definition chars_count :: "string \<Rightarrow> nat" where
  "chars_count s = length (filter (\<lambda>c. \<not> is_continuation c) s)"

definition is_char_boundary :: "string \<Rightarrow> nat \<Rightarrow> bool" where
  "is_char_boundary s i \<longleftrightarrow>
     i = 0 \<or> i = length s \<or> (i < length s \<and> \<not> is_continuation (s ! i))"

text \<open>
  The byte length of the White\_Space character a text starts with, 0 if it starts
  with none; \<open>trim\<close> removes such characters from both ends.
\<close>

fun ws_start :: "nat list \<Rightarrow> nat" where
  "ws_start (a # b # c # _) =
     (if 9 \<le> a \<and> a \<le> 13 \<or> a = 32 then 1
      else if a = 194 \<and> (b = 133 \<or> b = 160) then 2
      else if a = 225 \<and> b = 154 \<and> c = 128 then 3
      else if a = 226 \<and> b = 128 \<and> (128 \<le> c \<and> c \<le> 138 \<or> c = 168 \<or> c = 169 \<or> c = 175) then 3
      else if a = 226 \<and> b = 129 \<and> c = 159 then 3
      else if a = 227 \<and> b = 128 \<and> c = 128 then 3
      else 0)"
| "ws_start [a, b] =
     (if 9 \<le> a \<and> a \<le> 13 \<or> a = 32 then 1
      else if a = 194 \<and> (b = 133 \<or> b = 160) then 2
      else 0)"
| "ws_start [a] = (if 9 \<le> a \<and> a \<le> 13 \<or> a = 32 then 1 else 0)"
| "ws_start [] = 0"

definition ws_len :: "string \<Rightarrow> nat" where
  "ws_len s = ws_start (map of_char s)"

function trim_start :: "string \<Rightarrow> string" where
  "trim_start s = (if ws_len s = 0 \<or> s = [] then s else trim_start (drop (ws_len s) s))"
  by pat_completeness auto
termination
  by (relation "measure length") auto

text \<open>The byte length of the White\_Space character a text ends with.\<close>

definition ws_end :: "string \<Rightarrow> nat" where
  "ws_end s =
     (let n = length s in
      if 1 \<le> n \<and> ws_len (drop (n - 1) s) = 1 then 1
      else if 2 \<le> n \<and> ws_len (drop (n - 2) s) = 2 then 2
      else if 3 \<le> n \<and> ws_len (drop (n - 3) s) = 3 then 3
      else 0)"

function trim_end :: "string \<Rightarrow> string" where
  "trim_end s = (if ws_end s = 0 then s else trim_end (take (length s - ws_end s) s))"
  by pat_completeness auto
termination
  by (relation "measure length") (auto simp: ws_end_def Let_def split: if_splits)

declare trim_start.simps [simp del] trim_end.simps [simp del]

definition trim :: "string \<Rightarrow> string" where
  "trim s = trim_end (trim_start s)"

section \<open>Transactions\<close>

text \<open>
  A transaction either fails, and then its writes are rolled back, or returns a value
  and the new state. Errors of the engine are \<open>Err\<close>; \<open>Diverges\<close> marks a loop that
  outran the bound the model gives it, so that a loop that does not end is visible in
  the result and its absence is a theorem.
\<close>

datatype 'e fault = Err 'e | Diverges

type_synonym ('e, 's, 'a) tx = "'s \<Rightarrow> 'e fault + ('a \<times> 's)"

definition tx_return :: "'a \<Rightarrow> ('e, 's, 'a) tx" where
  "tx_return a = (\<lambda>s. Inr (a, s))"

definition tx_fail :: "'e \<Rightarrow> ('e, 's, 'a) tx" where
  "tx_fail e = (\<lambda>s. Inl (Err e))"

definition tx_diverge :: "('e, 's, 'a) tx" where
  "tx_diverge = (\<lambda>s. Inl Diverges)"

definition tx_bind :: "('e, 's, 'a) tx \<Rightarrow> ('a \<Rightarrow> ('e, 's, 'b) tx) \<Rightarrow> ('e, 's, 'b) tx" where
  "tx_bind m k = (\<lambda>s. case m s of Inl e \<Rightarrow> Inl e | Inr (a, s') \<Rightarrow> k a s')"

definition tx_seq :: "('e, 's, 'a) tx \<Rightarrow> ('e, 's, 'b) tx \<Rightarrow> ('e, 's, 'b) tx" where
  "tx_seq m k = tx_bind m (\<lambda>_. k)"

text \<open>A read: the result is computed from the state, which does not change.\<close>

definition tx_query :: "('s \<Rightarrow> 'a) \<Rightarrow> ('e, 's, 'a) tx" where
  "tx_query f = (\<lambda>s. Inr (f s, s))"

text \<open>A pure computation that may fail: \<open>expression?\<close>.\<close>

definition tx_lift :: "'e + 'a \<Rightarrow> ('e, 's, 'a) tx" where
  "tx_lift r = (\<lambda>s. case r of Inl e \<Rightarrow> Inl (Err e) | Inr a \<Rightarrow> Inr (a, s))"

text \<open>\<open>option.ok\_or(error)?\<close> and an early \<open>return Err(error)\<close>.\<close>

definition tx_some :: "'e \<Rightarrow> 'a option \<Rightarrow> ('e, 's, 'a) tx" where
  "tx_some e x = (\<lambda>s. case x of None \<Rightarrow> Inl (Err e) | Some a \<Rightarrow> Inr (a, s))"

definition tx_require :: "bool \<Rightarrow> 'e \<Rightarrow> ('e, 's, unit) tx" where
  "tx_require b e = (\<lambda>s. if b then Inr ((), s) else Inl (Err e))"

text \<open>A loop over rows that were loaded before it.\<close>

primrec tx_each :: "('x \<Rightarrow> ('e, 's, unit) tx) \<Rightarrow> 'x list \<Rightarrow> ('e, 's, unit) tx" where
  "tx_each f [] = tx_return ()"
| "tx_each f (x # xs) = tx_seq (f x) (tx_each f xs)"

text \<open>
  A library transaction commits the new state or rolls back: the state every later
  transaction sees.
\<close>

definition tx_commit :: "('e, 's, 'a) tx \<Rightarrow> 's \<Rightarrow> 's" where
  "tx_commit m s = (case m s of Inl _ \<Rightarrow> s | Inr (_, s') \<Rightarrow> s')"

lemma tx_return_Inr [tx_simps]: "tx_return a s = Inr (b, s') \<longleftrightarrow> b = a \<and> s' = s"
  by (auto simp: tx_return_def)

lemma tx_fail_Inr [tx_simps]: "tx_fail e s = Inr x \<longleftrightarrow> False"
  by (simp add: tx_fail_def)

lemma tx_diverge_Inr [tx_simps]: "tx_diverge s = Inr x \<longleftrightarrow> False"
  by (simp add: tx_diverge_def)

lemma tx_bind_Inr [tx_simps]:
  "tx_bind m k s = Inr (b, s') \<longleftrightarrow> (\<exists>a s1. m s = Inr (a, s1) \<and> k a s1 = Inr (b, s'))"
  by (auto simp: tx_bind_def split: sum.splits)

lemma tx_seq_Inr [tx_simps]:
  "tx_seq m k s = Inr (b, s') \<longleftrightarrow> (\<exists>a s1. m s = Inr (a, s1) \<and> k s1 = Inr (b, s'))"
  by (auto simp: tx_seq_def tx_bind_Inr)

lemma tx_query_Inr [tx_simps]: "tx_query f s = Inr (a, s') \<longleftrightarrow> a = f s \<and> s' = s"
  by (auto simp: tx_query_def)

lemma tx_lift_Inr [tx_simps]: "tx_lift r s = Inr (a, s') \<longleftrightarrow> r = Inr a \<and> s' = s"
  by (auto simp: tx_lift_def split: sum.splits)

lemma tx_some_Inr [tx_simps]: "tx_some e x s = Inr (a, s') \<longleftrightarrow> x = Some a \<and> s' = s"
  by (auto simp: tx_some_def split: option.splits)

lemma tx_require_Inr [tx_simps]: "tx_require b e s = Inr (a, s') \<longleftrightarrow> b \<and> s' = s"
  by (auto simp: tx_require_def)

lemma tx_commit_Inr: "m s = Inr (a, s') \<Longrightarrow> tx_commit m s = s'"
  by (simp add: tx_commit_def)

lemma tx_commit_Inl: "m s = Inl e \<Longrightarrow> tx_commit m s = s"
  by (simp add: tx_commit_def)

text \<open>Evaluating a transaction forwards, for concrete inputs.\<close>

lemmas tx_eval = tx_return_def tx_fail_def tx_diverge_def tx_bind_def tx_seq_def tx_query_def
  tx_lift_def tx_some_def tx_require_def tx_commit_def

subsection \<open>Invariants of transactions\<close>

definition keeps :: "('s \<Rightarrow> bool) \<Rightarrow> ('e, 's, 'a) tx \<Rightarrow> bool" where
  "keeps I m \<longleftrightarrow> (\<forall>s a s'. I s \<longrightarrow> m s = Inr (a, s') \<longrightarrow> I s')"

lemma keepsI: "(\<And>s a s'. I s \<Longrightarrow> m s = Inr (a, s') \<Longrightarrow> I s') \<Longrightarrow> keeps I m"
  by (simp add: keeps_def)

lemma keepsD: "keeps I m \<Longrightarrow> I s \<Longrightarrow> m s = Inr (a, s') \<Longrightarrow> I s'"
  by (auto simp: keeps_def)

lemma keeps_commit: "keeps I m \<Longrightarrow> I s \<Longrightarrow> I (tx_commit m s)"
  by (auto simp: tx_commit_def keeps_def split: sum.splits)

lemma keeps_pure [keeps_intros]:
  "keeps I (tx_return a)" "keeps I (tx_fail e)" "keeps I tx_diverge" "keeps I (tx_query f)"
  "keeps I (tx_lift r)" "keeps I (tx_some e x)" "keeps I (tx_require b e)"
  by (auto simp: keeps_def tx_simps)

text \<open>The rules hand on what is known: the guard of a branch, the result of a statement.\<close>

lemma keeps_bind [keeps_intros]:
  assumes "keeps I m" and "\<And>s a s'. I s \<Longrightarrow> m s = Inr (a, s') \<Longrightarrow> keeps I (k a)"
  shows "keeps I (tx_bind m k)"
proof (rule keepsI)
  fix s b s' assume "I s" and "tx_bind m k s = Inr (b, s')"
  then obtain a s1 where m: "m s = Inr (a, s1)" and k: "k a s1 = Inr (b, s')"
    by (auto simp: tx_bind_Inr)
  from assms(1) \<open>I s\<close> m have "I s1" by (rule keepsD)
  with assms(2) [OF \<open>I s\<close> m] k show "I s'" by (blast dest: keepsD)
qed

lemma keeps_seq [keeps_intros]:
  "keeps I m \<Longrightarrow> (\<And>s a s'. I s \<Longrightarrow> m s = Inr (a, s') \<Longrightarrow> keeps I k) \<Longrightarrow> keeps I (tx_seq m k)"
  unfolding tx_seq_def by (rule keeps_bind)

lemma keeps_if [keeps_intros]:
  "(b \<Longrightarrow> keeps I m) \<Longrightarrow> (\<not> b \<Longrightarrow> keeps I k) \<Longrightarrow> keeps I (if b then m else k)"
  by simp

lemma keeps_option [keeps_intros]:
  "(q = None \<Longrightarrow> keeps I m) \<Longrightarrow> (\<And>x. q = Some x \<Longrightarrow> keeps I (k x)) \<Longrightarrow>
   keeps I (case q of None \<Rightarrow> m | Some x \<Rightarrow> k x)"
  by (cases q) auto

lemma keeps_sum [keeps_intros]:
  "(\<And>x. q = Inl x \<Longrightarrow> keeps I (m x)) \<Longrightarrow> (\<And>x. q = Inr x \<Longrightarrow> keeps I (k x)) \<Longrightarrow>
   keeps I (case q of Inl x \<Rightarrow> m x | Inr x \<Rightarrow> k x)"
  by (cases q) auto

lemma keeps_prod [keeps_intros]:
  "(\<And>x y. p = (x, y) \<Longrightarrow> keeps I (m x y)) \<Longrightarrow> keeps I (case p of (x, y) \<Rightarrow> m x y)"
  by (cases p) auto

lemma keeps_each [keeps_intros]:
  "(\<And>x. x \<in> set xs \<Longrightarrow> keeps I (f x)) \<Longrightarrow> keeps I (tx_each f xs)"
  by (induction xs) (auto intro!: keeps_intros)

text \<open>
  A guarantee relates the states before and after. When the relation is reflexive and
  transitive, a transaction has it as soon as each of its statements does.
\<close>

definition guarantees :: "('s \<Rightarrow> 's \<Rightarrow> bool) \<Rightarrow> ('e, 's, 'a) tx \<Rightarrow> bool" where
  "guarantees R m \<longleftrightarrow> (\<forall>s a s'. m s = Inr (a, s') \<longrightarrow> R s s')"

lemma guaranteesI: "(\<And>s a s'. m s = Inr (a, s') \<Longrightarrow> R s s') \<Longrightarrow> guarantees R m"
  by (simp add: guarantees_def)

lemma guaranteesD: "guarantees R m \<Longrightarrow> m s = Inr (a, s') \<Longrightarrow> R s s'"
  by (auto simp: guarantees_def)

lemma guarantees_if [guar_intros]:
  "(b \<Longrightarrow> guarantees R m) \<Longrightarrow> (\<not> b \<Longrightarrow> guarantees R k) \<Longrightarrow> guarantees R (if b then m else k)"
  by simp

lemma guarantees_option [guar_intros]:
  "(q = None \<Longrightarrow> guarantees R m) \<Longrightarrow> (\<And>x. q = Some x \<Longrightarrow> guarantees R (k x)) \<Longrightarrow>
   guarantees R (case q of None \<Rightarrow> m | Some x \<Rightarrow> k x)"
  by (cases q) auto

lemma guarantees_sum [guar_intros]:
  "(\<And>x. q = Inl x \<Longrightarrow> guarantees R (m x)) \<Longrightarrow> (\<And>x. q = Inr x \<Longrightarrow> guarantees R (k x)) \<Longrightarrow>
   guarantees R (case q of Inl x \<Rightarrow> m x | Inr x \<Rightarrow> k x)"
  by (cases q) auto

lemma guarantees_prod [guar_intros]:
  "(\<And>x y. p = (x, y) \<Longrightarrow> guarantees R (m x y)) \<Longrightarrow> guarantees R (case p of (x, y) \<Rightarrow> m x y)"
  by (cases p) auto

locale guarantee =
  fixes R :: "'s \<Rightarrow> 's \<Rightarrow> bool"
  assumes refl: "R s s"
    and trans: "R s t \<Longrightarrow> R t u \<Longrightarrow> R s u"
begin

lemma pure [guar_intros]:
  "guarantees R (tx_return a)" "guarantees R (tx_fail e)" "guarantees R tx_diverge"
  "guarantees R (tx_query f)" "guarantees R (tx_lift r)" "guarantees R (tx_some e x)"
  "guarantees R (tx_require b e)"
  by (auto simp: guarantees_def tx_simps refl)

lemma bind [guar_intros]:
  assumes "guarantees R m" and "\<And>s a s'. m s = Inr (a, s') \<Longrightarrow> guarantees R (k a)"
  shows "guarantees R (tx_bind m k)"
proof (rule guaranteesI)
  fix s b s' assume "tx_bind m k s = Inr (b, s')"
  then obtain a s1 where m: "m s = Inr (a, s1)" and k: "k a s1 = Inr (b, s')"
    by (auto simp: tx_bind_Inr)
  from assms(1) m have "R s s1" by (rule guaranteesD)
  moreover from assms(2) [OF m] k have "R s1 s'" by (rule guaranteesD)
  ultimately show "R s s'" by (rule trans)
qed

lemma seq [guar_intros]:
  "guarantees R m \<Longrightarrow> (\<And>s a s'. m s = Inr (a, s') \<Longrightarrow> guarantees R k) \<Longrightarrow>
   guarantees R (tx_seq m k)"
  unfolding tx_seq_def by (rule bind)

lemma each [guar_intros]:
  "(\<And>x. x \<in> set xs \<Longrightarrow> guarantees R (f x)) \<Longrightarrow> guarantees R (tx_each f xs)"
  by (induction xs) (auto intro: pure seq)

lemma commit: "guarantees R m \<Longrightarrow> R s (tx_commit m s)"
  by (auto simp: tx_commit_def guarantees_def refl split: sum.splits)

text \<open>A transaction that keeps every property of the state only reads it.\<close>

lemma read:
  assumes "\<And>I. keeps I m"
  shows "guarantees R m"
proof (rule guaranteesI)
  fix s a s' assume "m s = Inr (a, s')"
  with keepsD [OF assms [of "(=) s"]] have "s' = s" by auto
  then show "R s s'" by (simp add: refl)
qed

end

subsection \<open>Transactions that end\<close>

text \<open>
  Under \<open>I\<close> no loop of the transaction outruns its bound: it returns, or it fails with an
  error of the engine.
\<close>

definition ends :: "('s \<Rightarrow> bool) \<Rightarrow> ('e, 's, 'a) tx \<Rightarrow> bool" where
  "ends I m \<longleftrightarrow> (\<forall>s. I s \<longrightarrow> m s \<noteq> Inl Diverges)"

lemma endsI: "(\<And>s. I s \<Longrightarrow> m s \<noteq> Inl Diverges) \<Longrightarrow> ends I m"
  by (simp add: ends_def)

lemma endsD: "ends I m \<Longrightarrow> I s \<Longrightarrow> m s \<noteq> Inl Diverges"
  by (simp add: ends_def)

lemma ends_pure [ends_intros]:
  "ends I (tx_return a)" "ends I (tx_fail e)" "ends I (tx_query f)" "ends I (tx_lift r)"
  "ends I (tx_some e x)" "ends I (tx_require b e)"
  by (auto simp: ends_def tx_eval split: sum.splits option.splits)

lemma ends_bind [ends_intros]:
  assumes "ends I m" "keeps I m" and "\<And>s a s'. I s \<Longrightarrow> m s = Inr (a, s') \<Longrightarrow> ends I (k a)"
  shows "ends I (tx_bind m k)"
proof (rule endsI)
  fix s assume s: "I s"
  show "tx_bind m k s \<noteq> Inl Diverges"
  proof (cases "m s")
    case (Inl e)
    with endsD [OF assms(1) s] show ?thesis by (simp add: tx_bind_def)
  next
    case (Inr x)
    then obtain a s1 where m: "m s = Inr (a, s1)" by (cases x) auto
    from keepsD [OF assms(2) s m] endsD [OF assms(3) [OF s m]] m show ?thesis
      by (simp add: tx_bind_def)
  qed
qed

lemma ends_seq [ends_intros]:
  "ends I m \<Longrightarrow> keeps I m \<Longrightarrow> (\<And>s a s'. I s \<Longrightarrow> m s = Inr (a, s') \<Longrightarrow> ends I k) \<Longrightarrow> ends I (tx_seq m k)"
  unfolding tx_seq_def by (rule ends_bind)

lemma ends_if [ends_intros]:
  "(b \<Longrightarrow> ends I m) \<Longrightarrow> (\<not> b \<Longrightarrow> ends I k) \<Longrightarrow> ends I (if b then m else k)"
  by simp

lemma ends_option [ends_intros]:
  "(q = None \<Longrightarrow> ends I m) \<Longrightarrow> (\<And>x. q = Some x \<Longrightarrow> ends I (k x)) \<Longrightarrow>
   ends I (case q of None \<Rightarrow> m | Some x \<Rightarrow> k x)"
  by (cases q) auto

lemma ends_prod [ends_intros]:
  "(\<And>x y. p = (x, y) \<Longrightarrow> ends I (m x y)) \<Longrightarrow> ends I (case p of (x, y) \<Rightarrow> m x y)"
  by (cases p) auto

lemma ends_each [ends_intros]:
  assumes "\<And>x. x \<in> set xs \<Longrightarrow> ends I (f x)" and "\<And>x. x \<in> set xs \<Longrightarrow> keeps I (f x)"
  shows "ends I (tx_each f xs)"
  using assms by (induction xs) (auto intro!: ends_intros)

text \<open>A guarantee that implies that an invariant is handed on gives the invariant.\<close>

lemma guarantees_keeps:
  "guarantees R m \<Longrightarrow> (\<And>s s'. R s s' \<Longrightarrow> I s \<Longrightarrow> I s') \<Longrightarrow> keeps I m"
  unfolding guarantees_def keeps_def by blast

lemma guarantees_mono:
  "guarantees R m \<Longrightarrow> (\<And>s s'. R s s' \<Longrightarrow> Q s s') \<Longrightarrow> guarantees Q m"
  unfolding guarantees_def by blast

lemma guarantees_conj:
  "guarantees R m \<Longrightarrow> guarantees Q m \<Longrightarrow> guarantees (\<lambda>s s'. R s s' \<and> Q s s') m"
  by (auto simp: guarantees_def)

text \<open>A transaction that starts under \<open>I\<close> and returns leaves a state with \<open>Q\<close>.\<close>

definition establishes :: "('s \<Rightarrow> bool) \<Rightarrow> ('s \<Rightarrow> bool) \<Rightarrow> ('e, 's, 'a) tx \<Rightarrow> bool" where
  "establishes I Q m \<longleftrightarrow> (\<forall>s a s'. I s \<longrightarrow> m s = Inr (a, s') \<longrightarrow> Q s')"

lemma establishesD: "establishes I Q m \<Longrightarrow> I s \<Longrightarrow> m s = Inr (a, s') \<Longrightarrow> Q s'"
  by (auto simp: establishes_def)

lemma establishes_bind:
  "keeps I m \<Longrightarrow> (\<And>s a s'. m s = Inr (a, s') \<Longrightarrow> establishes I Q (k a)) \<Longrightarrow>
   establishes I Q (tx_bind m k)"
  unfolding establishes_def keeps_def tx_bind_Inr by blast

lemma establishes_first: "establishes I Q m \<Longrightarrow> keeps Q k \<Longrightarrow> establishes I Q (tx_seq m k)"
  unfolding establishes_def keeps_def tx_seq_Inr by blast

lemma establishes_second: "keeps I m \<Longrightarrow> establishes I Q k \<Longrightarrow> establishes I Q (tx_seq m k)"
  unfolding establishes_def keeps_def tx_seq_Inr by blast

lemma establishes_fail: "establishes I Q (tx_fail e)"
  by (simp add: establishes_def tx_simps)

lemma bind_query: "tx_bind (tx_query f) k s = k (f s) s"
  by (simp add: tx_bind_def tx_query_def)

section \<open>Tables\<close>

text \<open>
  \<open>UPDATE t SET f WHERE P\<close>: the number of changed rows and the new table. Comparisons
  with a \<open>NULL\<close> column are never true.
\<close>

definition update_where :: "('r \<Rightarrow> bool) \<Rightarrow> ('r \<Rightarrow> 'r) \<Rightarrow> 'r list \<Rightarrow> nat \<times> 'r list" where
  "update_where P f t = (length (filter P t), map (\<lambda>r. if P r then f r else r) t)"

definition sql_eq :: "'a option \<Rightarrow> 'a option \<Rightarrow> bool" where
  "sql_eq a b \<longleftrightarrow> a \<noteq> None \<and> a = b"

definition sql_le :: "int option \<Rightarrow> int \<Rightarrow> bool" where
  "sql_le a b \<longleftrightarrow> (case a of None \<Rightarrow> False | Some x \<Rightarrow> x \<le> b)"

definition sql_gt :: "int option \<Rightarrow> int \<Rightarrow> bool" where
  "sql_gt a b \<longleftrightarrow> (case a of None \<Rightarrow> False | Some x \<Rightarrow> b < x)"

lemma sql_eq_Some [simp]: "sql_eq a (Some x) \<longleftrightarrow> a = Some x" "sql_eq (Some x) a \<longleftrightarrow> a = Some x"
  by (auto simp: sql_eq_def)

lemma sql_eq_None [simp]: "\<not> sql_eq None a" "\<not> sql_eq a None"
  by (auto simp: sql_eq_def)

text \<open>Rows selected by a key that is distinct in the table.\<close>

lemma find_key_mem: "find (\<lambda>r. key r = k) t = Some r \<Longrightarrow> r \<in> set t \<and> key r = k"
  by (auto simp: find_Some_iff)

lemma find_key_distinct:
  "distinct (map key t) \<Longrightarrow> r \<in> set t \<Longrightarrow> find (\<lambda>x. key x = key r) t = Some r"
  by (induction t) (auto simp: image_iff)

lemma find_mem: "find P t = Some r \<Longrightarrow> r \<in> set t \<and> P r"
  by (auto simp: find_Some_iff)

lemma find_None: "find P t = None \<longleftrightarrow> (\<forall>r \<in> set t. \<not> P r)"
  by (auto simp: find_None_iff)

lemma distinct_filter_key:
  "distinct (map key t) \<Longrightarrow> length (filter (\<lambda>r. key r = k \<and> P r) t) \<le> 1"
proof (induction t)
  case (Cons x t)
  then have "filter (\<lambda>r. key r = k \<and> P r) t = []" if "key x = k"
    using that by (auto simp: filter_empty_conv image_iff)
  with Cons show ?case by auto
qed simp

lemma distinct_filter_key_one:
  "distinct (map key t) \<Longrightarrow> r \<in> set t \<Longrightarrow> P r \<Longrightarrow>
   length (filter (\<lambda>x. key x = key r \<and> P x) t) = 1"
proof (induction t)
  case (Cons x t)
  show ?case
  proof (cases "x = r")
    case True
    with Cons.prems(1) have "filter (\<lambda>y. key y = key r \<and> P y) t = []"
      by (auto simp: filter_empty_conv image_iff)
    with True Cons.prems(3) show ?thesis by simp
  next
    case False
    with Cons.prems have "key x \<noteq> key r" "r \<in> set t" by auto
    with Cons show ?thesis by auto
  qed
qed simp

text \<open>
  A table of the state: reading it back after a write gives what was written, writing
  twice is writing once.
\<close>

locale table_lens =
  fixes get :: "'s \<Rightarrow> 'r list"
    and put :: "'r list \<Rightarrow> 's \<Rightarrow> 's"
  assumes get_put [simp]: "get (put t s) = t"
    and put_get [simp]: "put (get s) s = s"
    and put_put [simp]: "put t (put u s) = put t s"
begin

lemma all_update:
  assumes "list_all ok (get s)" and "\<And>r. P r \<Longrightarrow> ok r \<Longrightarrow> ok (f r)"
  shows "list_all ok (get (put (snd (update_where P f (get s))) s))"
  using assms by (auto simp: update_where_def list_all_iff)

lemma all_insert:
  assumes "list_all ok (get s)" and "ok r"
  shows "list_all ok (get (put (get s @ [r]) s))"
  using assms by simp

end

text \<open>
  Rows are never deleted or reordered, and every version of a row relates to the next one
  by \<open>\<rho>\<close>: the rows of the old table are a prefix of the new one up to \<open>\<rho>\<close>.
\<close>

definition rows_evolve :: "('r \<Rightarrow> 'r \<Rightarrow> bool) \<Rightarrow> 'r list \<Rightarrow> 'r list \<Rightarrow> bool" where
  "rows_evolve \<rho> t t' \<longleftrightarrow> length t \<le> length t' \<and> (\<forall>i < length t. \<rho> (t ! i) (t' ! i))"

lemma rows_evolve_mem:
  assumes "rows_evolve \<rho> t t'" and "r \<in> set t"
  shows "\<exists>r' \<in> set t'. \<rho> r r'"
proof -
  from assms(2) obtain i where "i < length t" "t ! i = r"
    by (auto simp: in_set_conv_nth)
  with assms(1) have "\<rho> r (t' ! i)" "i < length t'"
    by (auto simp: rows_evolve_def)
  then show ?thesis using nth_mem by blast
qed

locale row_guarantee =
  fixes \<rho> :: "'r \<Rightarrow> 'r \<Rightarrow> bool"
  assumes \<rho>_refl: "\<rho> r r"
    and \<rho>_trans: "\<rho> r s \<Longrightarrow> \<rho> s t \<Longrightarrow> \<rho> r t"
begin

lemma evolve_refl: "rows_evolve \<rho> t t"
  by (simp add: rows_evolve_def \<rho>_refl)

lemma evolve_trans:
  assumes "rows_evolve \<rho> t u" and "rows_evolve \<rho> u v"
  shows "rows_evolve \<rho> t v"
  unfolding rows_evolve_def
proof (intro conjI allI impI)
  show "length t \<le> length v"
    using assms by (simp add: rows_evolve_def)
next
  fix i assume "i < length t"
  with assms have "\<rho> (t ! i) (u ! i)" "\<rho> (u ! i) (v ! i)"
    by (simp_all add: rows_evolve_def)
  then show "\<rho> (t ! i) (v ! i)" by (rule \<rho>_trans)
qed

lemma evolve_update:
  "(\<And>r. P r \<Longrightarrow> \<rho> r (f r)) \<Longrightarrow> rows_evolve \<rho> t (map (\<lambda>r. if P r then f r else r) t)"
  by (simp add: rows_evolve_def \<rho>_refl)

lemma evolve_insert: "rows_evolve \<rho> t (t @ [r])"
  by (simp add: rows_evolve_def nth_append \<rho>_refl)

end

end
