(* ===== verification/Errors.thy ===== *)
theory Errors
  imports Durable_Prelude
begin

text \<open>
  The error type of the engine and its classification (\<open>src/error.rs\<close>,
  \<open>src/dialect/postgres.rs\<close>), the checked identifiers (\<open>src/ids.rs\<close>) and the database
  clock (\<open>src/clock.rs\<close>).

  The error types of the database driver are the ones the classification matches on;
  what it does not distinguish is one constructor (\<open>OtherQueryError\<close>,
  \<open>OtherConnectionError\<close>). The boxed sources of \<open>Migration\<close> and \<open>Serialization\<close> are never
  inspected and are left out.
\<close>

section \<open>Driver errors\<close>

datatype database_error_kind =
  UniqueViolation | ForeignKeyViolation | UnableToSendCommand | SerializationFailure
| ReadOnlyTransaction | NotNullViolation | CheckViolation | ClosedConnection | UnknownKind

datatype query_error =
  DatabaseError database_error_kind string
| RollbackErrorOnCommit query_error query_error  \<comment> \<open>rollback error, commit error\<close>
| RowNotFound
| OtherQueryError

datatype connection_error =
  BadConnection string | CouldntSetupConfiguration query_error | OtherConnectionError

datatype pool_error = QueryError query_error | ConnectionError connection_error

datatype run_error = TimedOut | User pool_error

section \<open>Errors of the engine\<close>

type_synonym definition_key = "string \<times> int"

datatype durable_error =
  Database query_error
| Pool pool_error
| PoolCheckout run_error
| Migration
| Serialization
| InvalidPayload string string
| InvalidDefinition string
| MissingDefinition string int
| MissingCurrentDefinition string
| MissingDefinitions "definition_key list" "definition_key list" "string list"
| DuplicateDefinition string int
| InvalidState string
| FencedWrite
| InvalidId int
| NotFound string string
| Conflict string
| InvalidCursor string
| PayloadTooLarge string int int
| DefinitionMismatch string int string int

datatype transience = RolledBack | Unavailable

definition starts_with :: "string \<Rightarrow> string \<Rightarrow> bool" where
  "starts_with message prefix \<longleftrightarrow> take (length prefix) message = prefix"

definition client_unavailable_prefixes :: "string list" where
  "client_unavailable_prefixes =
     [''error communicating with the server'', ''connection closed'',
      ''error connecting to server'', ''timeout waiting for server'']"

definition server_unavailable_prefixes :: "string list" where
  "server_unavailable_prefixes =
     [''terminating connection due to administrator command'',
      ''terminating connection because of crash of another server process'',
      ''the database system is'', ''sorry, too many clients already'',
      ''remaining connection slots are reserved'']"

definition database_error_transience :: "database_error_kind \<Rightarrow> string \<Rightarrow> transience option" where
  "database_error_transience kind message =
     (case kind of
        SerializationFailure \<Rightarrow> Some RolledBack
      | ClosedConnection \<Rightarrow> Some Unavailable
      | ReadOnlyTransaction \<Rightarrow> Some Unavailable
      | UnableToSendCommand \<Rightarrow>
          (if list_ex (starts_with message) client_unavailable_prefixes
           then Some Unavailable else None)
      | _ \<Rightarrow>
          (if message = ''deadlock detected'' \<or>
              message = ''canceling statement due to lock timeout''
           then Some RolledBack
           else if list_ex (starts_with message) server_unavailable_prefixes
           then Some Unavailable else None))"

fun query_error_transience :: "query_error \<Rightarrow> transience option" where
  "query_error_transience (DatabaseError kind message) = database_error_transience kind message"
| "query_error_transience (RollbackErrorOnCommit rollback commit) =
     map_option (\<lambda>_. Unavailable) (query_error_transience commit)"
| "query_error_transience _ = None"

fun pool_error_transience :: "pool_error \<Rightarrow> transience option" where
  "pool_error_transience (QueryError e) = query_error_transience e"
| "pool_error_transience (ConnectionError (BadConnection m)) = Some Unavailable"
| "pool_error_transience (ConnectionError (CouldntSetupConfiguration e)) =
     map_option (\<lambda>_. Unavailable) (query_error_transience e)"
| "pool_error_transience (ConnectionError OtherConnectionError) = None"

fun transience_of :: "durable_error \<Rightarrow> transience option" where
  "transience_of (Database e) = query_error_transience e"
| "transience_of (Pool e) = pool_error_transience e"
| "transience_of (PoolCheckout TimedOut) = Some Unavailable"
| "transience_of (PoolCheckout (User e)) = pool_error_transience e"
| "transience_of _ = None"

definition is_transient :: "durable_error \<Rightarrow> bool" where
  "is_transient e \<longleftrightarrow> transience_of e = Some RolledBack"

section \<open>Sizes\<close>

definition MAX_INPUT_STATE_PAYLOAD_BYTES :: int where
  "MAX_INPUT_STATE_PAYLOAD_BYTES = 256 * 1024"

definition MAX_OUTPUT_BYTES :: int where
  "MAX_OUTPUT_BYTES = 64 * 1024"

definition MAX_EVENT_METADATA_BYTES :: int where
  "MAX_EVENT_METADATA_BYTES = 16 * 1024"

definition MAX_ERROR_REASON_BYTES :: nat where
  "MAX_ERROR_REASON_BYTES = 2 * 1024"

definition ensure_size :: "string \<Rightarrow> string \<Rightarrow> int \<Rightarrow> durable_error + unit" where
  "ensure_size field value max_bytes =
     (if int (length value) > max_bytes
      then Inl (PayloadTooLarge field (int (length value)) max_bytes)
      else Inr ())"

text \<open>The loop of \<open>truncate_utf8\<close>: step back to the nearest character boundary.\<close>

fun boundary_back :: "string \<Rightarrow> nat \<Rightarrow> nat" where
  "boundary_back s 0 = 0"
| "boundary_back s (Suc b) = (if is_char_boundary s (Suc b) then Suc b else boundary_back s b)"

definition truncate_utf8 :: "string \<Rightarrow> nat \<Rightarrow> string" where
  "truncate_utf8 s max_bytes =
     (if length s \<le> max_bytes then s else take (boundary_back s max_bytes) s)"

record workflow_error =
  we_category :: string
  we_message :: string

definition WorkflowError_new :: "string \<Rightarrow> string \<Rightarrow> workflow_error" where
  "WorkflowError_new category message =
     \<lparr>we_category = truncate_utf8 category 64,
      we_message = truncate_utf8 message MAX_ERROR_REASON_BYTES\<rparr>"

datatype activity_error = Retryable string string | Permanent string string

definition ActivityError_retryable :: "string \<Rightarrow> string \<Rightarrow> activity_error" where
  "ActivityError_retryable category message =
     Retryable (truncate_utf8 category 64) (truncate_utf8 message MAX_ERROR_REASON_BYTES)"

definition ActivityError_permanent :: "string \<Rightarrow> string \<Rightarrow> activity_error" where
  "ActivityError_permanent category message =
     Permanent (truncate_utf8 category 64) (truncate_utf8 message MAX_ERROR_REASON_BYTES)"

section \<open>Identifiers\<close>

text \<open>\<open>WorkflowId\<close>, \<open>ActivityId\<close>, \<open>ApprovalId\<close> and \<open>ScheduleRunId\<close>: a positive \<open>i64\<close>.\<close>

definition id_new :: "i64 \<Rightarrow> durable_error + i64" where
  "id_new value = (if value \<le> 0 then Inl (InvalidId value) else Inr value)"

section \<open>The database clock\<close>

text \<open>Epoch milliseconds on the database clock, and a duration in milliseconds.\<close>

type_synonym db_millis = i64

definition checked_plus_millis :: "db_millis \<Rightarrow> i64 \<Rightarrow> db_millis option" where
  "checked_plus_millis t millis = checked_add 64 t millis"

definition plus_millis :: "db_millis \<Rightarrow> i64 \<Rightarrow> durable_error + db_millis" where
  "plus_millis t millis =
     (case checked_plus_millis t millis of
        None \<Rightarrow> Inl (InvalidDefinition ''database timestamp overflow'')
      | Some later \<Rightarrow> Inr later)"

definition saturating_plus_millis :: "db_millis \<Rightarrow> i64 \<Rightarrow> db_millis" where
  "saturating_plus_millis t millis = saturating_add 64 t millis"

definition saturating_minus_millis :: "db_millis \<Rightarrow> i64 \<Rightarrow> db_millis" where
  "saturating_minus_millis t millis = saturating_sub 64 t millis"

definition millis_since :: "db_millis \<Rightarrow> db_millis \<Rightarrow> i64" where
  "millis_since t earlier = saturating_sub 64 t earlier"

text \<open>
  A \<open>Duration\<close> is its whole milliseconds (\<open>as_millis\<close>); \<open>duration_millis\<close> moves it into
  the database range, \<open>duration_from_millis\<close> reads a stored one.
\<close>

type_synonym duration = int

definition duration_millis :: "duration \<Rightarrow> durable_error + i64" where
  "duration_millis d =
     (case i64_try_from d of
        None \<Rightarrow> Inl (InvalidDefinition ''duration exceeds the database range'')
      | Some m \<Rightarrow> Inr m)"

definition duration_from_millis :: "i64 \<Rightarrow> durable_error + duration" where
  "duration_from_millis millis =
     (case u64_try_from millis of
        None \<Rightarrow> Inl (InvalidState ''stored duration cannot be negative'')
      | Some m \<Rightarrow> Inr m)"

section \<open>Facts\<close>

lemma boundary_back_le: "boundary_back s b \<le> b"
  by (induction b) auto

lemma boundary_back_boundary: "is_char_boundary s (boundary_back s b)"
  by (induction b) (auto simp: is_char_boundary_def)

lemma boundary_back_maximal: "boundary_back s b < i \<Longrightarrow> i \<le> b \<Longrightarrow> \<not> is_char_boundary s i"
proof (induction b)
  case (Suc b)
  then show ?case by (cases "i = Suc b") (auto split: if_splits)
qed simp

lemma truncate_utf8_length: "length (truncate_utf8 s n) \<le> n"
  using boundary_back_le [of s n] by (auto simp: truncate_utf8_def)

lemma truncate_utf8_short [simp]: "length s \<le> n \<Longrightarrow> truncate_utf8 s n = s"
  by (simp add: truncate_utf8_def)

lemma id_new_Inr [simp]: "id_new v = Inr i \<longleftrightarrow> i = v \<and> 0 < v"
  by (auto simp: id_new_def)

lemma duration_millis_Inr [simp]: "duration_millis d = Inr m \<longleftrightarrow> m = d \<and> in_signed 64 d"
  by (auto simp: duration_millis_def i64_try_from_def split: if_splits)

lemma commit_failure_not_rolled_back:
  "query_error_transience (RollbackErrorOnCommit r c) \<noteq> Some RolledBack"
  by (cases "query_error_transience c") auto

section \<open>Properties\<close>

text \<open>
  \<open>truncate_utf8\<close> returns the longest prefix that fits the byte limit and ends on a
  character boundary: the result is a prefix, it fits, its end is a boundary, no later
  boundary fits, and a text within the limit is returned unchanged.
\<close>

lemma truncate_utf8_longest_prefix:
  "(\<exists>rest. s = truncate_utf8 s n @ rest) \<and>
   length (truncate_utf8 s n) \<le> n \<and>
   is_char_boundary s (length (truncate_utf8 s n)) \<and>
   (\<forall>i. length (truncate_utf8 s n) < i \<and> i \<le> n \<and> i \<le> length s \<longrightarrow> \<not> is_char_boundary s i)"
proof (cases "length s \<le> n")
  case True
  then show ?thesis by (auto simp: is_char_boundary_def)
next
  case False
  let ?b = "boundary_back s n"
  have len: "length (truncate_utf8 s n) = ?b"
    using False boundary_back_le [of s n] by (simp add: truncate_utf8_def)
  have "s = truncate_utf8 s n @ drop ?b s"
    using False by (simp add: truncate_utf8_def)
  then show ?thesis
    unfolding len using boundary_back_le boundary_back_boundary boundary_back_maximal by blast
qed

text \<open>
  \<open>is_transient\<close>, which licenses a retry of a whole transaction, never holds for an
  error after which the transaction may have committed: not for a commit whose rollback
  failed too, not for a lost connection, a pool timeout or a refused connect. Those are
  \<open>Unavailable\<close> at most.
\<close>

lemma retry_only_after_rollback:
  "\<not> is_transient (Database (RollbackErrorOnCommit r c)) \<and>
   \<not> is_transient (Database (DatabaseError ClosedConnection m)) \<and>
   \<not> is_transient (Database (DatabaseError UnableToSendCommand m)) \<and>
   \<not> is_transient (PoolCheckout TimedOut) \<and>
   \<not> is_transient (Pool (ConnectionError ce)) \<and>
   \<not> is_transient (PoolCheckout (User (ConnectionError ce))) \<and>
   \<not> is_transient FencedWrite"
proof -
  have conn: "pool_error_transience (ConnectionError ce) \<noteq> Some RolledBack"
    by (cases ce) auto
  show ?thesis
    using commit_failure_not_rolled_back [of r c] conn
    by (auto simp: is_transient_def database_error_transience_def)
qed

end
