(* ===== verification/Status.thy ===== *)
theory Status
  imports Errors
begin

text \<open>
  The persisted status enums and their status sets (\<open>src/persistence/mod.rs\<close>). The macro
  \<open>string_status!\<close> generates, for each enum, the list of its variants, its text, and the
  parser; \<open>status_try_from\<close> is the generated parser, over the list and the text function
  of the enum. The locale \<open>status_codec\<close> is what the rest of the engine relies on when a
  status goes to the database and comes back; it is interpreted on all six enums.
\<close>

section \<open>The enums\<close>

datatype workflow_status =
  WS_Ready
| WS_Running
| WS_WaitingActivity
| WS_WaitingChild
| WS_Sleeping
| WS_WaitingApproval
| WS_Paused
| WS_Blocked
| WS_Succeeded
| WS_Failed
| WS_Cancelled

datatype activity_status =
  AS_Pending
| AS_Running
| AS_Cancelling
| AS_Succeeded
| AS_DeadLettered
| AS_Cancelled

datatype wait_kind =
  WK_Timer
| WK_Activity
| WK_Child
| WK_Approval

datatype approval_status =
  AP_Pending
| AP_Resolved
| AP_Expired
| AP_Cancelled

datatype schedule_run_status =
  SR_Queued
| SR_Materializing
| SR_Started
| SR_Skipped
| SR_Coalesced

datatype attempt_outcome =
  AO_Succeeded
| AO_RetryableFailure
| AO_DeadLettered
| AO_LeaseExpired
| AO_OperatorCancelled
| AO_ApplicationCancelled
| AO_OperatorPaused

text \<open>The generated parser: the variant whose text it is, or \<open>InvalidState\<close>.\<close>

definition status_try_from ::
    "string \<Rightarrow> 'a list \<Rightarrow> ('a \<Rightarrow> string) \<Rightarrow> string \<Rightarrow> durable_error + 'a" where
  "status_try_from name variants as_str value =
     (case find (\<lambda>v. as_str v = value) variants of
        Some v \<Rightarrow> Inr v
      | None \<Rightarrow> Inl (InvalidState (''unknown '' @ name @ '' status '' @ value)))"

definition workflow_status_ALL :: "workflow_status list" where
  "workflow_status_ALL = [WS_Ready, WS_Running, WS_WaitingActivity, WS_WaitingChild, WS_Sleeping, WS_WaitingApproval, WS_Paused, WS_Blocked, WS_Succeeded, WS_Failed, WS_Cancelled]"

fun workflow_status_as_str :: "workflow_status \<Rightarrow> string" where
  "workflow_status_as_str WS_Ready = ''ready''"
| "workflow_status_as_str WS_Running = ''running''"
| "workflow_status_as_str WS_WaitingActivity = ''waiting_activity''"
| "workflow_status_as_str WS_WaitingChild = ''waiting_child''"
| "workflow_status_as_str WS_Sleeping = ''sleeping''"
| "workflow_status_as_str WS_WaitingApproval = ''waiting_approval''"
| "workflow_status_as_str WS_Paused = ''paused''"
| "workflow_status_as_str WS_Blocked = ''blocked''"
| "workflow_status_as_str WS_Succeeded = ''succeeded''"
| "workflow_status_as_str WS_Failed = ''failed''"
| "workflow_status_as_str WS_Cancelled = ''cancelled''"

definition workflow_status_try_from :: "string \<Rightarrow> durable_error + workflow_status" where
  "workflow_status_try_from = status_try_from ''WorkflowStatus'' workflow_status_ALL workflow_status_as_str"

definition activity_status_ALL :: "activity_status list" where
  "activity_status_ALL = [AS_Pending, AS_Running, AS_Cancelling, AS_Succeeded, AS_DeadLettered, AS_Cancelled]"

fun activity_status_as_str :: "activity_status \<Rightarrow> string" where
  "activity_status_as_str AS_Pending = ''pending''"
| "activity_status_as_str AS_Running = ''running''"
| "activity_status_as_str AS_Cancelling = ''cancelling''"
| "activity_status_as_str AS_Succeeded = ''succeeded''"
| "activity_status_as_str AS_DeadLettered = ''dead_lettered''"
| "activity_status_as_str AS_Cancelled = ''cancelled''"

definition activity_status_try_from :: "string \<Rightarrow> durable_error + activity_status" where
  "activity_status_try_from = status_try_from ''ActivityStatus'' activity_status_ALL activity_status_as_str"

definition wait_kind_ALL :: "wait_kind list" where
  "wait_kind_ALL = [WK_Timer, WK_Activity, WK_Child, WK_Approval]"

fun wait_kind_as_str :: "wait_kind \<Rightarrow> string" where
  "wait_kind_as_str WK_Timer = ''timer''"
| "wait_kind_as_str WK_Activity = ''activity''"
| "wait_kind_as_str WK_Child = ''child''"
| "wait_kind_as_str WK_Approval = ''approval''"

definition wait_kind_try_from :: "string \<Rightarrow> durable_error + wait_kind" where
  "wait_kind_try_from = status_try_from ''WaitKind'' wait_kind_ALL wait_kind_as_str"

definition approval_status_ALL :: "approval_status list" where
  "approval_status_ALL = [AP_Pending, AP_Resolved, AP_Expired, AP_Cancelled]"

fun approval_status_as_str :: "approval_status \<Rightarrow> string" where
  "approval_status_as_str AP_Pending = ''pending''"
| "approval_status_as_str AP_Resolved = ''resolved''"
| "approval_status_as_str AP_Expired = ''expired''"
| "approval_status_as_str AP_Cancelled = ''cancelled''"

definition approval_status_try_from :: "string \<Rightarrow> durable_error + approval_status" where
  "approval_status_try_from = status_try_from ''ApprovalStatus'' approval_status_ALL approval_status_as_str"

definition schedule_run_status_ALL :: "schedule_run_status list" where
  "schedule_run_status_ALL = [SR_Queued, SR_Materializing, SR_Started, SR_Skipped, SR_Coalesced]"

fun schedule_run_status_as_str :: "schedule_run_status \<Rightarrow> string" where
  "schedule_run_status_as_str SR_Queued = ''queued''"
| "schedule_run_status_as_str SR_Materializing = ''materializing''"
| "schedule_run_status_as_str SR_Started = ''started''"
| "schedule_run_status_as_str SR_Skipped = ''skipped''"
| "schedule_run_status_as_str SR_Coalesced = ''coalesced''"

definition schedule_run_status_try_from :: "string \<Rightarrow> durable_error + schedule_run_status" where
  "schedule_run_status_try_from = status_try_from ''ScheduleRunStatus'' schedule_run_status_ALL schedule_run_status_as_str"

definition attempt_outcome_ALL :: "attempt_outcome list" where
  "attempt_outcome_ALL = [AO_Succeeded, AO_RetryableFailure, AO_DeadLettered, AO_LeaseExpired, AO_OperatorCancelled, AO_ApplicationCancelled, AO_OperatorPaused]"

fun attempt_outcome_as_str :: "attempt_outcome \<Rightarrow> string" where
  "attempt_outcome_as_str AO_Succeeded = ''succeeded''"
| "attempt_outcome_as_str AO_RetryableFailure = ''retryable_failure''"
| "attempt_outcome_as_str AO_DeadLettered = ''dead_lettered''"
| "attempt_outcome_as_str AO_LeaseExpired = ''lease_expired''"
| "attempt_outcome_as_str AO_OperatorCancelled = ''operator_cancelled''"
| "attempt_outcome_as_str AO_ApplicationCancelled = ''application_cancelled''"
| "attempt_outcome_as_str AO_OperatorPaused = ''operator_paused''"

definition attempt_outcome_try_from :: "string \<Rightarrow> durable_error + attempt_outcome" where
  "attempt_outcome_try_from = status_try_from ''AttemptOutcome'' attempt_outcome_ALL attempt_outcome_as_str"

section \<open>Status sets and predicates\<close>

definition TERMINAL :: "workflow_status list" where
  "TERMINAL = [WS_Succeeded, WS_Failed, WS_Cancelled]"

definition CHILD_WAITERS :: "workflow_status list" where
  "CHILD_WAITERS = [WS_WaitingChild, WS_Paused]"

definition APPROVAL_WAITERS :: "workflow_status list" where
  "APPROVAL_WAITERS = [WS_WaitingApproval, WS_Paused]"

definition DEAD_LETTER_WAITERS :: "workflow_status list" where
  "DEAD_LETTER_WAITERS = [WS_Blocked, WS_Paused]"

fun ws_is_terminal :: "workflow_status \<Rightarrow> bool" where
  "ws_is_terminal WS_Succeeded = True"
| "ws_is_terminal WS_Failed = True"
| "ws_is_terminal WS_Cancelled = True"
| "ws_is_terminal _ = False"

fun awaits_child :: "workflow_status \<Rightarrow> bool" where
  "awaits_child WS_WaitingChild = True"
| "awaits_child WS_Paused = True"
| "awaits_child _ = False"

fun awaits_approval :: "workflow_status \<Rightarrow> bool" where
  "awaits_approval WS_WaitingApproval = True"
| "awaits_approval WS_Paused = True"
| "awaits_approval _ = False"

fun awaits_dead_letter :: "workflow_status \<Rightarrow> bool" where
  "awaits_dead_letter WS_Blocked = True"
| "awaits_dead_letter WS_Paused = True"
| "awaits_dead_letter _ = False"

fun is_restartable :: "workflow_status \<Rightarrow> bool" where
  "is_restartable WS_Succeeded = True"
| "is_restartable WS_Failed = True"
| "is_restartable WS_Cancelled = True"
| "is_restartable WS_Paused = True"
| "is_restartable WS_Blocked = True"
| "is_restartable _ = False"

fun is_start_recoverable :: "workflow_status \<Rightarrow> bool" where
  "is_start_recoverable WS_Failed = True"
| "is_start_recoverable WS_Blocked = True"
| "is_start_recoverable _ = False"

definition SLOT_HOLDERS :: "activity_status list" where
  "SLOT_HOLDERS = [AS_Running, AS_Cancelling]"

definition LEASE_HOLDERS :: "activity_status list" where
  "LEASE_HOLDERS = [AS_Running, AS_Cancelling]"

definition NON_TERMINAL :: "activity_status list" where
  "NON_TERMINAL = [AS_Pending, AS_Running, AS_Cancelling]"

fun holds_slot :: "activity_status \<Rightarrow> bool" where
  "holds_slot AS_Running = True"
| "holds_slot AS_Cancelling = True"
| "holds_slot _ = False"

fun holds_lease :: "activity_status \<Rightarrow> bool" where
  "holds_lease AS_Running = True"
| "holds_lease AS_Cancelling = True"
| "holds_lease _ = False"

fun as_is_terminal :: "activity_status \<Rightarrow> bool" where
  "as_is_terminal AS_Succeeded = True"
| "as_is_terminal AS_DeadLettered = True"
| "as_is_terminal AS_Cancelled = True"
| "as_is_terminal _ = False"

section \<open>The codec interface\<close>

locale status_codec =
  fixes name :: string
    and variants :: "'a list"
    and as_str :: "'a \<Rightarrow> string"
  assumes complete: "v \<in> set variants"
    and texts_distinct: "distinct (map as_str variants)"
begin

lemma as_str_inj: "as_str v = as_str w \<longleftrightarrow> v = w"
  using texts_distinct complete by (auto simp: distinct_map dest: inj_onD)

lemma parse_text: "status_try_from name variants as_str (as_str v) = Inr v"
proof -
  have "find (\<lambda>w. as_str w = as_str v) variants = Some v"
    using find_key_distinct [OF texts_distinct complete] .
  then show ?thesis by (simp add: status_try_from_def)
qed

lemma parse_Inr: "status_try_from name variants as_str t = Inr v \<longleftrightarrow> t = as_str v"
proof
  assume "status_try_from name variants as_str t = Inr v"
  then show "t = as_str v"
    by (auto simp: status_try_from_def dest: find_mem split: option.splits)
next
  assume "t = as_str v"
  then show "status_try_from name variants as_str t = Inr v" by (simp add: parse_text)
qed

lemma parse_Inl:
  "(\<exists>e. status_try_from name variants as_str t = Inl e) \<longleftrightarrow> t \<notin> range as_str"
proof (cases "status_try_from name variants as_str t")
  case (Inl e)
  then show ?thesis using parse_text by auto
next
  case (Inr v)
  then show ?thesis using parse_Inr [of t v] by auto
qed

end

interpretation workflow_status: status_codec "''WorkflowStatus''" workflow_status_ALL workflow_status_as_str
proof
  show "v \<in> set workflow_status_ALL" for v :: workflow_status by (cases v) (simp_all add: workflow_status_ALL_def)
  show "distinct (map workflow_status_as_str workflow_status_ALL)" by (simp add: workflow_status_ALL_def)
qed

interpretation activity_status: status_codec "''ActivityStatus''" activity_status_ALL activity_status_as_str
proof
  show "v \<in> set activity_status_ALL" for v :: activity_status by (cases v) (simp_all add: activity_status_ALL_def)
  show "distinct (map activity_status_as_str activity_status_ALL)" by (simp add: activity_status_ALL_def)
qed

interpretation wait_kind: status_codec "''WaitKind''" wait_kind_ALL wait_kind_as_str
proof
  show "v \<in> set wait_kind_ALL" for v :: wait_kind by (cases v) (simp_all add: wait_kind_ALL_def)
  show "distinct (map wait_kind_as_str wait_kind_ALL)" by (simp add: wait_kind_ALL_def)
qed

interpretation approval_status: status_codec "''ApprovalStatus''" approval_status_ALL approval_status_as_str
proof
  show "v \<in> set approval_status_ALL" for v :: approval_status by (cases v) (simp_all add: approval_status_ALL_def)
  show "distinct (map approval_status_as_str approval_status_ALL)" by (simp add: approval_status_ALL_def)
qed

interpretation schedule_run_status: status_codec "''ScheduleRunStatus''" schedule_run_status_ALL schedule_run_status_as_str
proof
  show "v \<in> set schedule_run_status_ALL" for v :: schedule_run_status by (cases v) (simp_all add: schedule_run_status_ALL_def)
  show "distinct (map schedule_run_status_as_str schedule_run_status_ALL)" by (simp add: schedule_run_status_ALL_def)
qed

interpretation attempt_outcome: status_codec "''AttemptOutcome''" attempt_outcome_ALL attempt_outcome_as_str
proof
  show "v \<in> set attempt_outcome_ALL" for v :: attempt_outcome by (cases v) (simp_all add: attempt_outcome_ALL_def)
  show "distinct (map attempt_outcome_as_str attempt_outcome_ALL)" by (simp add: attempt_outcome_ALL_def)
qed

lemma ws_is_terminal_iff: "ws_is_terminal s \<longleftrightarrow> s \<in> {WS_Succeeded, WS_Failed, WS_Cancelled}"
  by (cases s) auto

lemma awaits_child_iff: "awaits_child s \<longleftrightarrow> s \<in> {WS_WaitingChild, WS_Paused}"
  by (cases s) auto

lemma awaits_approval_iff: "awaits_approval s \<longleftrightarrow> s \<in> {WS_WaitingApproval, WS_Paused}"
  by (cases s) auto

lemma holds_lease_iff: "holds_lease s \<longleftrightarrow> s \<in> {AS_Running, AS_Cancelling}"
  by (cases s) auto

lemma is_restartable_iff:
  "is_restartable s \<longleftrightarrow> ws_is_terminal s \<or> s \<in> {WS_Paused, WS_Blocked}"
  by (cases s) auto

section \<open>Properties\<close>

text \<open>
  Every status enum survives the round trip through its text column, and the parser
  accepts nothing else: a text parses to a variant exactly when it is that variant's text.
\<close>

lemma status_columns_round_trip:
  "(workflow_status_try_from t = Inr ws \<longleftrightarrow> t = workflow_status_as_str ws) \<and>
   (activity_status_try_from t = Inr acs \<longleftrightarrow> t = activity_status_as_str acs) \<and>
   (wait_kind_try_from t = Inr wk \<longleftrightarrow> t = wait_kind_as_str wk) \<and>
   (approval_status_try_from t = Inr aps \<longleftrightarrow> t = approval_status_as_str aps) \<and>
   (schedule_run_status_try_from t = Inr sr \<longleftrightarrow> t = schedule_run_status_as_str sr) \<and>
   (attempt_outcome_try_from t = Inr ao \<longleftrightarrow> t = attempt_outcome_as_str ao)"
  unfolding workflow_status_try_from_def activity_status_try_from_def wait_kind_try_from_def
    approval_status_try_from_def schedule_run_status_try_from_def attempt_outcome_try_from_def
  by (intro conjI workflow_status.parse_Inr activity_status.parse_Inr wait_kind.parse_Inr
      approval_status.parse_Inr schedule_run_status.parse_Inr attempt_outcome.parse_Inr)

text \<open>
  Each status-set constant used in a query lists exactly the statuses of its
  predicate, a status that waits is not terminal, an operator restart accepts exactly the
  terminal, paused and blocked statuses, and a recoverable start is a restartable one.
\<close>

lemma status_sets_match_predicates:
  "(ws \<in> set TERMINAL \<longleftrightarrow> ws_is_terminal ws) \<and>
   (ws \<in> set CHILD_WAITERS \<longleftrightarrow> awaits_child ws) \<and>
   (ws \<in> set APPROVAL_WAITERS \<longleftrightarrow> awaits_approval ws) \<and>
   (ws \<in> set DEAD_LETTER_WAITERS \<longleftrightarrow> awaits_dead_letter ws) \<and>
   (acs \<in> set SLOT_HOLDERS \<longleftrightarrow> holds_slot acs) \<and>
   (acs \<in> set LEASE_HOLDERS \<longleftrightarrow> holds_lease acs) \<and>
   (acs \<in> set NON_TERMINAL \<longleftrightarrow> \<not> as_is_terminal acs) \<and>
   (awaits_child ws \<or> awaits_approval ws \<or> awaits_dead_letter ws \<longrightarrow> \<not> ws_is_terminal ws) \<and>
   (is_restartable ws \<longleftrightarrow> ws_is_terminal ws \<or> ws = WS_Paused \<or> ws = WS_Blocked) \<and>
   (is_start_recoverable ws \<longrightarrow> is_restartable ws)"
  by (cases ws; cases acs)
    (simp_all add: TERMINAL_def CHILD_WAITERS_def APPROVAL_WAITERS_def DEAD_LETTER_WAITERS_def
      SLOT_HOLDERS_def LEASE_HOLDERS_def NON_TERMINAL_def)

end
