(* ===== verification/Policy.thy ===== *)
theory Policy
  imports Errors
begin

text \<open>
  Retry policies (\<open>src/policy.rs\<close>): the bounds every policy is checked against, the
  backoff with jitter, and the deterministic jitter percentile. Delays are in whole
  seconds in the policy and a \<open>duration\<close> in milliseconds once computed.

  SHA-256 is a library; the code uses the first two bytes of the digest, so the
  parameter \<open>sha256_head\<close> gives those two bytes for a seed.
\<close>

section \<open>Definitions\<close>

definition deterministic_jitter_percentile :: "(string \<Rightarrow> char \<times> char) \<Rightarrow> string \<Rightarrow> int" where
  "deterministic_jitter_percentile sha256_head seed =
     (let (b0, b1) = sha256_head seed
      in (of_char b0 + 256 * of_char b1) mod 101)"

definition MAX_RETRY_DELAY_SECS :: u64 where
  "MAX_RETRY_DELAY_SECS = max_signed 64 div 2000"

definition max_u64 :: u64 where
  "max_u64 = 2 ^ 64 - 1"

datatype backoff_policy =
  Fixed u64
| Exponential u64 u64 int  \<comment> \<open>initial seconds, maximal seconds, jitter percent\<close>

datatype bound_violation =
  FixedZero | FixedTooLong | InitialZero | MaxBelowInitial | MaxTooLong | JitterOver100

fun bound_check :: "backoff_policy \<Rightarrow> bound_violation + backoff_policy" where
  "bound_check (Fixed delay_secs) =
     (if delay_secs = 0 then Inl FixedZero
      else if delay_secs > MAX_RETRY_DELAY_SECS then Inl FixedTooLong
      else Inr (Fixed delay_secs))"
| "bound_check (Exponential initial_secs max_secs jitter_percent) =
     (if initial_secs = 0 then Inl InitialZero
      else if max_secs < initial_secs then Inl MaxBelowInitial
      else if max_secs > MAX_RETRY_DELAY_SECS then Inl MaxTooLong
      else if jitter_percent > 100 then Inl JitterOver100
      else Inr (Exponential initial_secs max_secs jitter_percent))"

fun bound_violation_error :: "bound_violation \<Rightarrow> durable_error" where
  "bound_violation_error FixedTooLong =
     InvalidDefinition (''fixed retry delay cannot exceed '' @ dec_int MAX_RETRY_DELAY_SECS @ '' seconds'')"
| "bound_violation_error MaxTooLong =
     InvalidDefinition (''exponential max delay cannot exceed '' @ dec_int MAX_RETRY_DELAY_SECS @ '' seconds'')"
| "bound_violation_error FixedZero =
     InvalidDefinition ''fixed retry delay must be greater than zero''"
| "bound_violation_error InitialZero =
     InvalidDefinition ''exponential initial delay must be greater than zero''"
| "bound_violation_error MaxBelowInitial =
     InvalidDefinition ''exponential max delay must be at least the initial delay''"
| "bound_violation_error JitterOver100 =
     InvalidDefinition ''retry jitter_percent cannot exceed 100''"

record retry_policy =
  backoff :: backoff_policy

definition RetryPolicy_validated :: "backoff_policy \<Rightarrow> durable_error + retry_policy" where
  "RetryPolicy_validated b =
     (case bound_check b of
        Inl violation \<Rightarrow> Inl (bound_violation_error violation)
      | Inr b' \<Rightarrow> Inr \<lparr>backoff = b'\<rparr>)"

definition RetryPolicy_fixed :: "u64 \<Rightarrow> durable_error + retry_policy" where
  "RetryPolicy_fixed delay_secs = RetryPolicy_validated (Fixed delay_secs)"

definition RetryPolicy_exponential :: "u64 \<Rightarrow> u64 \<Rightarrow> int \<Rightarrow> durable_error + retry_policy" where
  "RetryPolicy_exponential initial_secs max_secs jitter_percent =
     RetryPolicy_validated (Exponential initial_secs max_secs jitter_percent)"

text \<open>Integer division that truncates towards zero, as \<open>i128\<close> division does.\<close>

definition trunc_div :: "int \<Rightarrow> int \<Rightarrow> int" where
  "trunc_div a b = sgn a * sgn b * (\<bar>a\<bar> div \<bar>b\<bar>)"

definition apply_jitter :: "u64 \<Rightarrow> int \<Rightarrow> int \<Rightarrow> u64" where
  "apply_jitter base jitter_percent percentile =
     (let spread = base * jitter_percent div 100;
          centered_percentile = percentile * 2 - 100;
          delta = trunc_div (spread * centered_percentile) 100
      in max 0 (min max_u64 (base + delta)))"

definition exponential_base :: "u64 \<Rightarrow> u64 \<Rightarrow> u32 \<Rightarrow> u64" where
  "exponential_base initial_secs max_secs attempt =
     (let exponent = min (max 0 (attempt - 1)) 63;
          multiplier = 2 ^ nat exponent
      in min (min max_u64 (initial_secs * multiplier)) max_secs)"

definition delay_for_attempt :: "retry_policy \<Rightarrow> u32 \<Rightarrow> int \<Rightarrow> durable_error + duration" where
  "delay_for_attempt p attempt jitter_percentile =
     (if attempt = 0 then Inl (InvalidDefinition ''attempt numbers are one-based'')
      else if jitter_percentile > 100
      then Inl (InvalidDefinition ''jitter percentile cannot exceed 100'')
      else Inr (1000 *
        (case backoff p of
           Fixed delay_secs \<Rightarrow> delay_secs
         | Exponential initial_secs max_secs jitter_percent \<Rightarrow>
             apply_jitter (exponential_base initial_secs max_secs attempt) jitter_percent
               jitter_percentile)))"

text \<open>The values the Rust types admit: \<open>u64\<close> delays and a \<open>u8\<close> percentage.\<close>

fun backoff_typed :: "backoff_policy \<Rightarrow> bool" where
  "backoff_typed (Fixed d) \<longleftrightarrow> in_unsigned 64 d"
| "backoff_typed (Exponential i m j) \<longleftrightarrow> in_unsigned 64 i \<and> in_unsigned 64 m \<and> in_unsigned 8 j"

section \<open>Facts\<close>

lemma jitter_percentile_range:
  "0 \<le> deterministic_jitter_percentile h seed \<and> deterministic_jitter_percentile h seed \<le> 100"
proof -
  have "(x :: int) mod 101 \<le> 100" for x by (simp add: int_one_le_iff_zero_less flip: zle_add1_eq_le)
  then show ?thesis by (simp add: deterministic_jitter_percentile_def split: prod.split)
qed

lemma validated_Inr:
  "RetryPolicy_validated b = Inr p \<longleftrightarrow> p = \<lparr>backoff = b\<rparr> \<and> bound_check b = Inr b"
proof (cases b)
  case (Fixed d)
  then show ?thesis by (auto simp: RetryPolicy_validated_def)
next
  case (Exponential i m j)
  then show ?thesis by (auto simp: RetryPolicy_validated_def)
qed

lemma trunc_div_bound:
  assumes "0 \<le> s" and "\<bar>c\<bar> \<le> 100"
  shows "\<bar>trunc_div (s * c) 100\<bar> \<le> s"
proof -
  have "\<bar>s * c\<bar> \<le> s * 100"
    using assms by (simp add: abs_mult mult_left_mono)
  then have "\<bar>s * c\<bar> div 100 \<le> s"
    by linarith
  moreover have "\<bar>trunc_div (s * c) 100\<bar> \<le> \<bar>s * c\<bar> div 100"
    by (auto simp: trunc_div_def abs_mult abs_sgn_eq pos_imp_zdiv_nonneg_iff)
  ultimately show ?thesis by linarith
qed

lemma le_div_100: "k \<le> x div 100 \<Longrightarrow> 100 * k \<le> (x :: int)"
  by linarith

lemma apply_jitter_distance:
  assumes "0 \<le> base" "base \<le> max_u64" "0 \<le> j" "j \<le> 100" "0 \<le> p" "p \<le> 100"
  shows "\<bar>apply_jitter base j p - base\<bar> \<le> base * j div 100"
proof -
  let ?s = "base * j div 100"
  have s: "0 \<le> ?s" using assms by (simp add: pos_imp_zdiv_nonneg_iff)
  have "\<bar>trunc_div (?s * (p * 2 - 100)) 100\<bar> \<le> ?s"
    using s assms by (intro trunc_div_bound) auto
  moreover have "base * j \<le> base * 100"
    using assms by (simp add: mult_left_mono)
  ultimately show ?thesis
    using assms by (auto simp: apply_jitter_def Let_def)
qed

lemma apply_jitter_midpoint: "0 \<le> base \<Longrightarrow> base \<le> max_u64 \<Longrightarrow> apply_jitter base j 50 = base"
  by (simp add: apply_jitter_def trunc_div_def)

lemma exponential_base_range:
  assumes "0 < i" "i \<le> m" "m \<le> max_u64"
  shows "0 < exponential_base i m a" "exponential_base i m a \<le> m"
  using assms by (auto simp: exponential_base_def Let_def max_u64_def min_def)

text \<open>The saturating product and the capped shift change nothing below the bound.\<close>

lemma exponential_base_exact:
  assumes "0 < i" "i \<le> m" "m \<le> MAX_RETRY_DELAY_SECS" "1 \<le> a"
  shows "exponential_base i m a = min (i * 2 ^ nat (a - 1)) m"
proof (cases "a - 1 \<le> 63")
  case True
  with assms show ?thesis
    by (auto simp: exponential_base_def Let_def max_u64_def MAX_RETRY_DELAY_SECS_def
        max_signed_def min_def max_def)
next
  case False
  then have "(2::int) ^ 63 \<le> 2 ^ nat (a - 1)" by (intro power_increasing) auto
  moreover have "1 * 2 ^ nat (a - 1) \<le> i * 2 ^ nat (a - 1)"
    using assms(1) by (intro mult_right_mono) auto
  ultimately have "2 ^ 63 \<le> i * 2 ^ nat (a - 1)" by linarith
  moreover have "m < 2 ^ 63" "i * 2 ^ 63 \<ge> 2 ^ 63"
    using assms by (simp_all add: MAX_RETRY_DELAY_SECS_def max_signed_def)
  ultimately show ?thesis
    using False assms
    by (auto simp: exponential_base_def Let_def max_u64_def MAX_RETRY_DELAY_SECS_def
        max_signed_def min_def)
qed

lemma delay_for_attempt_ok:
  assumes "RetryPolicy_validated b = Inr p" "backoff_typed b" "1 \<le> a" "0 \<le> q" "q \<le> 100"
  shows "\<exists>d. delay_for_attempt p a q = Inr d \<and> 0 \<le> d \<and> in_signed 64 d"
proof (cases b)
  case (Fixed s)
  with assms show ?thesis
    by (auto simp: validated_Inr delay_for_attempt_def MAX_RETRY_DELAY_SECS_def in_signed_def
        in_unsigned_def max_signed_def split: if_splits)
next
  case (Exponential i m j)
  with assms have bounds: "0 < i" "i \<le> m" "m \<le> MAX_RETRY_DELAY_SECS" "j \<le> 100" "0 \<le> j"
    and p: "backoff p = Exponential i m j"
    by (auto simp: validated_Inr in_unsigned_def split: if_splits)
  let ?base = "exponential_base i m a"
  have small: "MAX_RETRY_DELAY_SECS \<le> max_u64"
    by (simp add: MAX_RETRY_DELAY_SECS_def max_u64_def max_signed_def)
  with bounds have base: "0 < ?base" "?base \<le> m" "?base \<le> max_u64"
    using exponential_base_range [of i m a] by auto
  then have dist: "\<bar>apply_jitter ?base j q - ?base\<bar> \<le> ?base * j div 100"
    using bounds assms by (intro apply_jitter_distance) auto
  have "?base * j \<le> ?base * 100" using base bounds by (simp add: mult_left_mono)
  with dist have "0 \<le> apply_jitter ?base j q \<and> apply_jitter ?base j q \<le> 2 * ?base"
    by linarith
  with base bounds have "0 \<le> 1000 * apply_jitter ?base j q \<and>
      1000 * apply_jitter ?base j q \<le> 2000 * MAX_RETRY_DELAY_SECS"
    by linarith
  then show ?thesis
    using assms p
    by (auto simp: delay_for_attempt_def MAX_RETRY_DELAY_SECS_def in_signed_def max_signed_def)
qed

section \<open>Properties\<close>

text \<open>
  A policy that passed the bound check gives, for every attempt number of at least 1
  and every percentile up to 100, a delay that is not negative and fits the database's
  millisecond range, so scheduling a retry never overflows on the delay.
\<close>

lemma retry_delay_fits_database:
  assumes "RetryPolicy_validated b = Inr p" "backoff_typed b"
    and "1 \<le> attempt" "0 \<le> percentile" "percentile \<le> 100"
  shows "\<exists>d. delay_for_attempt p attempt percentile = Inr d \<and> 0 \<le> d \<and> in_signed 64 d"
  using assms by (rule delay_for_attempt_ok)

text \<open>
  The optimised backoff is the doubling it stands for. At the midpoint percentile an
  exponential policy waits exactly \<open>min (initial * 2 ^ (attempt - 1)) max\<close> seconds (the
  code computes it with a capped shift and a saturating product), and jitter moves the
  delay by at most \<open>jitter_percent\<close> percent of it.
\<close>

lemma exponential_backoff_exact_and_bounded:
  assumes "RetryPolicy_validated (Exponential i m j) = Inr p" "backoff_typed (Exponential i m j)"
    and "1 \<le> attempt" "0 \<le> percentile" "percentile \<le> 100"
  shows "delay_for_attempt p attempt 50 = Inr (1000 * min (i * 2 ^ nat (attempt - 1)) m) \<and>
    (\<exists>d. delay_for_attempt p attempt percentile = Inr (1000 * d) \<and>
         100 * \<bar>d - min (i * 2 ^ nat (attempt - 1)) m\<bar> \<le> min (i * 2 ^ nat (attempt - 1)) m * j)"
proof -
  let ?e = "min (i * 2 ^ nat (attempt - 1)) m"
  from assms have b: "0 < i" "i \<le> m" "m \<le> MAX_RETRY_DELAY_SECS" "j \<le> 100" "0 \<le> j"
    and p: "backoff p = Exponential i m j"
    by (auto simp: validated_Inr in_unsigned_def split: if_splits)
  have small: "MAX_RETRY_DELAY_SECS \<le> max_u64"
    by (simp add: MAX_RETRY_DELAY_SECS_def max_u64_def max_signed_def)
  have e: "exponential_base i m attempt = ?e"
    using b assms(3) by (intro exponential_base_exact) auto
  then have range: "0 \<le> ?e" "?e \<le> max_u64"
    using exponential_base_range [of i m attempt] b small by auto
  from range have mid: "apply_jitter ?e j 50 = ?e" by (rule apply_jitter_midpoint)
  have "\<bar>apply_jitter ?e j percentile - ?e\<bar> \<le> ?e * j div 100"
    using range b assms by (intro apply_jitter_distance) auto
  then have "100 * \<bar>apply_jitter ?e j percentile - ?e\<bar> \<le> ?e * j" by (rule le_div_100)
  with mid show ?thesis
    using assms p e by (auto simp: delay_for_attempt_def)
qed

end
