(* ===== verification/Transition.thy ===== *)
theory Transition
  imports Policy
begin

text \<open>
  What a workflow step produces and consumes (\<open>src/transition.rs\<close>, \<open>src/registry.rs\<close>):
  activity and child commands with their validation, results, delivered events, and the
  stored transitions the coordinator commits.

  A user definition (\<open>DurableActivity\<close>, \<open>WorkflowHandler\<close>) is its constants. Serialization
  is a library: the serialized form of a value, \<open>None\<close> when it fails, is an argument.
\<close>

section \<open>Commands\<close>

definition MAX_OPERATION_KEY_CHARS :: nat where
  "MAX_OPERATION_KEY_CHARS = 191"

definition CONTINUATION_READY_AT_MILLIS :: i64 where
  "CONTINUATION_READY_AT_MILLIS = 0"

text \<open>The constants of a \<open>DurableActivity\<close>; durations are in milliseconds.\<close>

record activity_definition =
  ad_kind :: string
  ad_version :: i32
  ad_topic :: string
  ad_max_attempts :: u32
  ad_timeout :: duration
  ad_lease_duration :: duration
  ad_retry_policy :: retry_policy

record activity_command =
  ac_kind :: string
  ac_version :: i32
  ac_topic :: string
  ac_payload_json :: string
  ac_operation_key :: "string option"
  ac_max_attempts :: u32
  ac_timeout_millis :: u64
  ac_lease_duration_millis :: u64
  ac_retry_policy :: retry_policy
  ac_continuation_priority :: bool

text \<open>\<open>duration_millis\<close> of \<open>src/transition.rs\<close>: into \<open>u64\<close>.\<close>

definition duration_millis_u64 :: "duration \<Rightarrow> durable_error + u64" where
  "duration_millis_u64 d =
     (case u64_try_from d of
        None \<Rightarrow> Inl (InvalidDefinition ''duration exceeds the durable storage range'')
      | Some m \<Rightarrow> Inr m)"

definition operation_key_ok :: "string option \<Rightarrow> bool" where
  "operation_key_ok key =
     (case key of
        None \<Rightarrow> True
      | Some k \<Rightarrow> chars_count k \<noteq> 0 \<and> chars_count k \<le> MAX_OPERATION_KEY_CHARS)"

definition ActivityCommand_new ::
    "activity_definition \<Rightarrow> string option \<Rightarrow> string option \<Rightarrow> durable_error + activity_command" where
  "ActivityCommand_new A serialized operation_key =
     (case serialized of
        None \<Rightarrow> Inl Serialization
      | Some payload_json \<Rightarrow>
     (case ensure_size ''activity payload'' payload_json MAX_INPUT_STATE_PAYLOAD_BYTES of
        Inl e \<Rightarrow> Inl e
      | Inr _ \<Rightarrow>
     (case duration_millis_u64 (ad_timeout A) of
        Inl e \<Rightarrow> Inl e
      | Inr timeout_millis \<Rightarrow>
     (case duration_millis_u64 (ad_lease_duration A) of
        Inl e \<Rightarrow> Inl e
      | Inr lease_duration_millis \<Rightarrow>
     (if lease_duration_millis \<le> timeout_millis
      then Inl (InvalidDefinition ''activity lease duration must be greater than its timeout'')
      else if ad_max_attempts A = 0
      then Inl (InvalidDefinition ''activity max attempts must be greater than zero'')
      else if \<not> operation_key_ok operation_key
      then Inl (InvalidDefinition ''activity operation key must contain 1 to 191 characters'')
      else Inr \<lparr>ac_kind = ad_kind A, ac_version = ad_version A, ac_topic = ad_topic A,
                ac_payload_json = payload_json, ac_operation_key = operation_key,
                ac_max_attempts = ad_max_attempts A, ac_timeout_millis = timeout_millis,
                ac_lease_duration_millis = lease_duration_millis,
                ac_retry_policy = ad_retry_policy A, ac_continuation_priority = False\<rparr>)))))"

definition with_continuation_priority :: "bool \<Rightarrow> activity_command \<Rightarrow> activity_command" where
  "with_continuation_priority enabled c = c\<lparr>ac_continuation_priority := enabled\<rparr>"

record child_workflow_command =
  cc_kind :: string
  cc_version :: i32
  cc_input_json :: string
  cc_state_json :: string
  cc_deduplication_key :: "string option"

definition ChildWorkflowCommand_new ::
    "string \<Rightarrow> i32 \<Rightarrow> string option \<Rightarrow> string option \<Rightarrow> durable_error + child_workflow_command" where
  "ChildWorkflowCommand_new kind version input_serialized state_serialized =
     (if kind = [] \<or> version \<le> 0
      then Inl (InvalidDefinition
        ''child workflow kind must be non-empty and version must be positive'')
      else case input_serialized of
        None \<Rightarrow> Inl Serialization
      | Some input_json \<Rightarrow>
     (case ensure_size ''child workflow input'' input_json MAX_INPUT_STATE_PAYLOAD_BYTES of
        Inl e \<Rightarrow> Inl e
      | Inr _ \<Rightarrow>
     (case state_serialized of
        None \<Rightarrow> Inl Serialization
      | Some state_json \<Rightarrow>
     (case ensure_size ''child workflow state'' state_json MAX_INPUT_STATE_PAYLOAD_BYTES of
        Inl e \<Rightarrow> Inl e
      | Inr _ \<Rightarrow>
        Inr \<lparr>cc_kind = kind, cc_version = version, cc_input_json = input_json,
             cc_state_json = state_json, cc_deduplication_key = None\<rparr>))))"

definition with_deduplication_key :: "string \<Rightarrow> child_workflow_command \<Rightarrow> child_workflow_command" where
  "with_deduplication_key key c = c\<lparr>cc_deduplication_key := Some key\<rparr>"

section \<open>Results and events\<close>

text \<open>\<open>ActivityResult\<close> and \<open>ChildResult\<close>: kind, version, output.\<close>

record step_result =
  sr_kind :: string
  sr_version :: i32
  sr_output_json :: string

definition ActivityResult_new :: "string \<Rightarrow> i32 \<Rightarrow> string \<Rightarrow> durable_error + step_result" where
  "ActivityResult_new kind version output_json =
     (case ensure_size ''activity output'' output_json MAX_OUTPUT_BYTES of
        Inl e \<Rightarrow> Inl e
      | Inr _ \<Rightarrow> Inr \<lparr>sr_kind = kind, sr_version = version, sr_output_json = output_json\<rparr>)"

definition ChildResult_new :: "string \<Rightarrow> i32 \<Rightarrow> string \<Rightarrow> durable_error + step_result" where
  "ChildResult_new kind version output_json =
     (case ensure_size ''child workflow output'' output_json MAX_OUTPUT_BYTES of
        Inl e \<Rightarrow> Inl e
      | Inr _ \<Rightarrow> Inr \<lparr>sr_kind = kind, sr_version = version, sr_output_json = output_json\<rparr>)"

datatype workflow_event =
  Started
| ActivitySucceeded u32 step_result
| ChildSucceeded u32 step_result
| ChildFailed u32 string i32 string string  \<comment> \<open>sequence, kind, version, category, message\<close>
| TimerFired u32
| ApprovalResolved u32 string i32 string    \<comment> \<open>sequence, kind, version, payload\<close>
| ApprovalExpired u32
| Continued

text \<open>The command sequence an event answers; \<open>Started\<close> and \<open>Continued\<close> answer none.\<close>

fun event_command_sequence :: "workflow_event \<Rightarrow> u32 option" where
  "event_command_sequence (ActivitySucceeded c _) = Some c"
| "event_command_sequence (ChildSucceeded c _) = Some c"
| "event_command_sequence (ChildFailed c _ _ _ _) = Some c"
| "event_command_sequence (TimerFired c) = Some c"
| "event_command_sequence (ApprovalResolved c _ _ _) = Some c"
| "event_command_sequence (ApprovalExpired c) = Some c"
| "event_command_sequence _ = None"

section \<open>Transitions\<close>

text \<open>\<open>StoredTransition\<close>: a transition with its state, approval and output serialized.\<close>

datatype stored_transition =
  RunActivity string activity_command
| RunChild string child_workflow_command
| SleepUntil string i64
| WaitForApproval string string "i64 option"
| Continue string
| Complete string

section \<open>Properties\<close>

text \<open>
  An activity command exists only within its bounds: its lease outlives its timeout,
  it has at least one attempt, its payload fits the limit, its operation key (if any) has
  1 to 191 characters, and it copies its definition's kind, version and topic.
\<close>

lemma activity_command_within_bounds:
  assumes "ActivityCommand_new A serialized operation_key = Inr c"
  shows "ac_timeout_millis c < ac_lease_duration_millis c \<and> ac_max_attempts c \<noteq> 0 \<and>
    serialized = Some (ac_payload_json c) \<and>
    int (length (ac_payload_json c)) \<le> MAX_INPUT_STATE_PAYLOAD_BYTES \<and>
    (\<forall>k. ac_operation_key c = Some k \<longrightarrow> 1 \<le> chars_count k \<and> chars_count k \<le> 191) \<and>
    ac_kind c = ad_kind A \<and> ac_version c = ad_version A \<and> ac_topic c = ad_topic A"
  using assms
  by (auto simp: ActivityCommand_new_def ensure_size_def operation_key_ok_def
      MAX_OPERATION_KEY_CHARS_def split: option.splits sum.splits if_splits)

end
