(* ===== verification/Rows.thy ===== *)
theory Rows
  imports Status Transition
begin

text \<open>
  The rows of the \<open>durable_*\<close> tables (\<open>src/persistence/models.rs\<close>,
  \<open>migrations/postgres\<close>) and the database state: every table, the identity counters and
  the clock. The clock gives each reading its own value: nothing is assumed about how
  the readings relate unless a theorem says so.

  \<open>externals\<close> collects what the engine takes from libraries: the JSON form of events and
  retry policies, the text of an error, and the first two bytes of a SHA-256 digest.
\<close>

section \<open>Rows\<close>

record workflow_row =
  wf_id :: i64
  wf_kind :: string
  wf_version :: i32
  wf_input_json :: string
  wf_state_json :: string
  wf_state_version :: i32
  wf_status :: workflow_status
  wf_result_json :: "string option"
  wf_error_category :: "string option"
  wf_error_message :: "string option"
  wf_wait_kind :: "wait_kind option"
  wf_wait_reference_id :: "i64 option"
  wf_available_at :: db_millis
  wf_activation_attempts :: i32
  wf_max_activation_attempts :: i32
  wf_consecutive_continuations :: i32
  wf_lease_owner :: "string option"
  wf_lease_token :: "string option"
  wf_lease_expires_at :: "db_millis option"
  wf_deduplication_key :: "string option"
  wf_schedule_run_id :: "i64 option"
  wf_root_workflow_id :: "i64 option"
  wf_restarted_from_workflow_id :: "i64 option"
  wf_parent_workflow_id :: "i64 option"
  wf_parent_command_sequence :: "i32 option"
  wf_command_sequence :: i32
  wf_delivered_event_sequence :: i32
  wf_created_at :: db_millis
  wf_updated_at :: db_millis
  wf_completed_at :: "db_millis option"

record workflow_event_row =
  ev_id :: i64
  ev_workflow_id :: i64
  ev_sequence :: i32
  ev_delivery_sequence :: "i32 option"
  ev_event_type :: string
  ev_metadata_json :: "string option"
  ev_actor_type :: "string option"
  ev_actor_id :: "string option"
  ev_reason :: "string option"
  ev_created_at :: db_millis

record activity_row =
  act_id :: i64
  act_workflow_id :: i64
  act_command_sequence :: i32
  act_replacement_number :: i32
  act_kind :: string
  act_version :: i32
  act_topic :: string
  act_payload_json :: string
  act_status :: activity_status
  act_available_at :: db_millis
  act_max_attempts :: i32
  act_attempt_count :: i32
  act_timeout_millis :: i64
  act_lease_duration_millis :: i64
  act_retry_policy_json :: string
  act_operation_key :: "string option"
  act_provider_result_json :: "string option"
  act_last_error_category :: "string option"
  act_last_error_message :: "string option"
  act_lease_owner :: "string option"
  act_lease_token :: "string option"
  act_lease_expires_at :: "db_millis option"
  act_root_activity_id :: "i64 option"
  act_replaces_activity_id :: "i64 option"
  act_created_at :: db_millis
  act_updated_at :: db_millis
  act_completed_at :: "db_millis option"

record activity_attempt_row =
  att_activity_id :: i64
  att_attempt_number :: i32
  att_worker_id :: string
  att_lease_token :: string
  att_started_at :: db_millis
  att_heartbeat_at :: db_millis
  att_finished_at :: "db_millis option"
  att_outcome :: "attempt_outcome option"
  att_error_category :: "string option"
  att_error_message :: "string option"
  att_provider_result_json :: "string option"

record progress_event_row =
  prg_activity_id :: i64
  prg_attempt_number :: i32
  prg_sequence :: i32
  prg_code :: string
  prg_description :: string
  prg_description_bytes :: i32
  prg_completed_units :: "i64 option"
  prg_total_units :: "i64 option"
  prg_severity :: string
  prg_metadata_json :: "string option"
  prg_created_at :: db_millis

record approval_row =
  apr_id :: i64
  apr_workflow_id :: i64
  apr_command_sequence :: i32
  apr_kind :: string
  apr_version :: i32
  apr_prompt_metadata_json :: string
  apr_validation_schema_json :: string
  apr_validation_version :: i32
  apr_status :: approval_status
  apr_requested_at :: db_millis
  apr_expires_at :: "db_millis option"
  apr_decision_payload_json :: "string option"
  apr_decided_by :: "i32 option"
  apr_operator_reason :: "string option"
  apr_resolved_at :: "db_millis option"

record schedule_run_row =
  run_id :: i64
  run_schedule_key :: string
  run_local_occurrence :: string
  run_scheduled_for :: db_millis
  run_materialized_at :: db_millis
  run_status :: schedule_run_status
  run_reason :: "string option"
  run_actor_id :: "i32 option"
  run_workflow_id :: "i64 option"
  run_created_at :: db_millis

record schedule_state_row =
  sch_schedule_key :: string
  sch_definition_fingerprint :: string
  sch_definition_version :: i32
  sch_next_local_occurrence :: string
  sch_next_occurrence_at :: db_millis
  sch_last_materialized_at :: "db_millis option"
  sch_paused_at :: "db_millis option"
  sch_paused_by :: "i32 option"
  sch_pause_reason :: "string option"
  sch_created_at :: db_millis
  sch_updated_at :: db_millis

record topic_lock_row =
  tl_topic :: string
  tl_max_concurrency :: i32
  tl_updated_at :: db_millis

section \<open>The database\<close>

record db =
  workflows :: "workflow_row list"
  events :: "workflow_event_row list"
  activities :: "activity_row list"
  attempts :: "activity_attempt_row list"
  approvals :: "approval_row list"
  schedule_states :: "schedule_state_row list"
  schedule_runs :: "schedule_run_row list"
  topic_locks :: "topic_lock_row list"
  progress_events :: "progress_event_row list"
  next_workflow_id :: i64
  next_event_id :: i64
  next_activity_id :: i64
  next_approval_id :: i64
  next_schedule_run_id :: i64
  clock :: "nat \<Rightarrow> db_millis"
  clock_reads :: nat

type_synonym 'a dtx = "(durable_error, db, 'a) tx"

record externals =
  event_to_json :: "workflow_event \<Rightarrow> string option"
  event_of_json :: "string \<Rightarrow> workflow_event option"
  policy_to_json :: "retry_policy \<Rightarrow> string option"
  backoff_of_json :: "string \<Rightarrow> string + backoff_policy"
  error_text :: "durable_error \<Rightarrow> string"
  sha256_head :: "string \<Rightarrow> char \<times> char"

text \<open>Deserializing a stored policy runs the bound check (\<open>serde(try_from)\<close>).\<close>

definition policy_of_json :: "externals \<Rightarrow> string \<Rightarrow> string + retry_policy" where
  "policy_of_json E json =
     (case backoff_of_json E json of
        Inl message \<Rightarrow> Inl message
      | Inr b \<Rightarrow>
        (case RetryPolicy_validated b of
           Inl e \<Rightarrow> Inl (error_text E e)
         | Inr p \<Rightarrow> Inr p))"

interpretation workflow_table: table_lens workflows "\<lambda>t. workflows_update (\<lambda>_. t)"
  by unfold_locales simp_all

interpretation event_table: table_lens events "\<lambda>t. events_update (\<lambda>_. t)"
  by unfold_locales simp_all

interpretation activity_table: table_lens activities "\<lambda>t. activities_update (\<lambda>_. t)"
  by unfold_locales simp_all

interpretation attempt_table: table_lens attempts "\<lambda>t. attempts_update (\<lambda>_. t)"
  by unfold_locales simp_all

interpretation approval_table: table_lens approvals "\<lambda>t. approvals_update (\<lambda>_. t)"
  by unfold_locales simp_all

interpretation schedule_state_table: table_lens schedule_states "\<lambda>t. schedule_states_update (\<lambda>_. t)"
  by unfold_locales simp_all

interpretation schedule_run_table: table_lens schedule_runs "\<lambda>t. schedule_runs_update (\<lambda>_. t)"
  by unfold_locales simp_all

section \<open>Statements\<close>

definition database_now_millis :: "db_millis dtx" where
  "database_now_millis = (\<lambda>s. Inr (clock s (clock_reads s), s\<lparr>clock_reads := Suc (clock_reads s)\<rparr>))"

definition workflow_update :: "(workflow_row \<Rightarrow> bool) \<Rightarrow> (workflow_row \<Rightarrow> workflow_row) \<Rightarrow> nat dtx" where
  "workflow_update P f = (\<lambda>s. case update_where P f (workflows s) of
     (n, t) \<Rightarrow> Inr (n, s\<lparr>workflows := t\<rparr>))"

definition activity_update :: "(activity_row \<Rightarrow> bool) \<Rightarrow> (activity_row \<Rightarrow> activity_row) \<Rightarrow> nat dtx" where
  "activity_update P f = (\<lambda>s. case update_where P f (activities s) of
     (n, t) \<Rightarrow> Inr (n, s\<lparr>activities := t\<rparr>))"

definition attempt_update ::
    "(activity_attempt_row \<Rightarrow> bool) \<Rightarrow> (activity_attempt_row \<Rightarrow> activity_attempt_row) \<Rightarrow> nat dtx" where
  "attempt_update P f = (\<lambda>s. case update_where P f (attempts s) of
     (n, t) \<Rightarrow> Inr (n, s\<lparr>attempts := t\<rparr>))"

definition approval_update :: "(approval_row \<Rightarrow> bool) \<Rightarrow> (approval_row \<Rightarrow> approval_row) \<Rightarrow> nat dtx" where
  "approval_update P f = (\<lambda>s. case update_where P f (approvals s) of
     (n, t) \<Rightarrow> Inr (n, s\<lparr>approvals := t\<rparr>))"

definition schedule_run_update ::
    "(schedule_run_row \<Rightarrow> bool) \<Rightarrow> (schedule_run_row \<Rightarrow> schedule_run_row) \<Rightarrow> nat dtx" where
  "schedule_run_update P f = (\<lambda>s. case update_where P f (schedule_runs s) of
     (n, t) \<Rightarrow> Inr (n, s\<lparr>schedule_runs := t\<rparr>))"

definition schedule_state_update ::
    "(schedule_state_row \<Rightarrow> bool) \<Rightarrow> (schedule_state_row \<Rightarrow> schedule_state_row) \<Rightarrow> nat dtx" where
  "schedule_state_update P f = (\<lambda>s. case update_where P f (schedule_states s) of
     (n, t) \<Rightarrow> Inr (n, s\<lparr>schedule_states := t\<rparr>))"

text \<open>
  A fence: exactly one row must have changed. \<open>ensure_fenced\<close>, \<open>ensure_single_change\<close>,
  \<open>ensure_cancel_changed\<close> and \<open>ensure_changed\<close> of the source are this function.
\<close>

definition ensure_fenced :: "nat \<Rightarrow> durable_error + unit" where
  "ensure_fenced changed = (if changed = 1 then Inr () else Inl FencedWrite)"

definition fenced :: "nat dtx \<Rightarrow> unit dtx" where
  "fenced statement = tx_bind statement (\<lambda>changed. tx_lift (ensure_fenced changed))"

definition unique_violation :: "string \<Rightarrow> durable_error" where
  "unique_violation key = Database (DatabaseError UniqueViolation key)"

definition foreign_key_violation :: "string \<Rightarrow> durable_error" where
  "foreign_key_violation key = Database (DatabaseError ForeignKeyViolation key)"

definition check_violation :: "string \<Rightarrow> durable_error" where
  "check_violation key = Database (DatabaseError CheckViolation key)"

section \<open>What a statement that returned has done\<close>

lemma database_now_millis_Inr [tx_simps]:
  "database_now_millis s = Inr (a, s') \<longleftrightarrow>
   a = clock s (clock_reads s) \<and> s' = s\<lparr>clock_reads := Suc (clock_reads s)\<rparr>"
  by (auto simp: database_now_millis_def)

lemma workflow_update_Inr [tx_simps]:
  "workflow_update P f s = Inr (n, s') \<longleftrightarrow>
   n = length (filter P (workflows s)) \<and>
   s' = s\<lparr>workflows := map (\<lambda>r. if P r then f r else r) (workflows s)\<rparr>"
  by (auto simp: workflow_update_def update_where_def)

lemma activity_update_Inr [tx_simps]:
  "activity_update P f s = Inr (n, s') \<longleftrightarrow>
   n = length (filter P (activities s)) \<and>
   s' = s\<lparr>activities := map (\<lambda>r. if P r then f r else r) (activities s)\<rparr>"
  by (auto simp: activity_update_def update_where_def)

lemma attempt_update_Inr [tx_simps]:
  "attempt_update P f s = Inr (n, s') \<longleftrightarrow>
   n = length (filter P (attempts s)) \<and>
   s' = s\<lparr>attempts := map (\<lambda>r. if P r then f r else r) (attempts s)\<rparr>"
  by (auto simp: attempt_update_def update_where_def)

lemma approval_update_Inr [tx_simps]:
  "approval_update P f s = Inr (n, s') \<longleftrightarrow>
   n = length (filter P (approvals s)) \<and>
   s' = s\<lparr>approvals := map (\<lambda>r. if P r then f r else r) (approvals s)\<rparr>"
  by (auto simp: approval_update_def update_where_def)

lemma schedule_run_update_Inr [tx_simps]:
  "schedule_run_update P f s = Inr (n, s') \<longleftrightarrow>
   n = length (filter P (schedule_runs s)) \<and>
   s' = s\<lparr>schedule_runs := map (\<lambda>r. if P r then f r else r) (schedule_runs s)\<rparr>"
  by (auto simp: schedule_run_update_def update_where_def)

lemma schedule_state_update_Inr [tx_simps]:
  "schedule_state_update P f s = Inr (n, s') \<longleftrightarrow>
   n = length (filter P (schedule_states s)) \<and>
   s' = s\<lparr>schedule_states := map (\<lambda>r. if P r then f r else r) (schedule_states s)\<rparr>"
  by (auto simp: schedule_state_update_def update_where_def)

lemma ensure_fenced_Inr [simp]: "ensure_fenced n = Inr u \<longleftrightarrow> n = 1"
  by (simp add: ensure_fenced_def)

lemma fenced_Inr [tx_simps]: "fenced st s = Inr (u, s') \<longleftrightarrow> st s = Inr (1, s')"
  by (auto simp: fenced_def tx_simps)

text \<open>Invariants of statements: what a fenced change of each table has to keep.\<close>

lemma keeps_fenced [keeps_intros]: "keeps I st \<Longrightarrow> keeps I (fenced st)"
  unfolding fenced_def by (intro keeps_intros)

lemma keeps_now [keeps_intros]:
  "(\<And>s n. I s \<Longrightarrow> I (s\<lparr>clock_reads := n\<rparr>)) \<Longrightarrow> keeps I database_now_millis"
  by (auto simp: keeps_def tx_simps)

text \<open>
  The invariant of every row of a table: kept by a statement on another table, and by an
  update whose change keeps it on the rows its \<open>WHERE\<close> clause selects.
\<close>

definition all_workflows :: "(workflow_row \<Rightarrow> bool) \<Rightarrow> db \<Rightarrow> bool" where
  "all_workflows ok s \<longleftrightarrow> list_all ok (workflows s)"

definition all_activities :: "(activity_row \<Rightarrow> bool) \<Rightarrow> db \<Rightarrow> bool" where
  "all_activities ok s \<longleftrightarrow> list_all ok (activities s)"

lemma all_workflows_update:
  "(\<And>r. P r \<Longrightarrow> ok r \<Longrightarrow> ok (f r)) \<Longrightarrow> keeps (all_workflows ok) (workflow_update P f)"
  by (auto simp: keeps_def tx_simps all_workflows_def list_all_iff)

lemma all_workflows_frame [keeps_intros]:
  "keeps (all_workflows ok) database_now_millis"
  "keeps (all_workflows ok) (activity_update P f)"
  "keeps (all_workflows ok) (attempt_update P2 f2)"
  "keeps (all_workflows ok) (approval_update P3 f3)"
  "keeps (all_workflows ok) (schedule_run_update P4 f4)"
  "keeps (all_workflows ok) (schedule_state_update P5 f5)"
  by (auto simp: keeps_def tx_simps all_workflows_def)

lemma all_activities_update:
  "(\<And>r. P r \<Longrightarrow> ok r \<Longrightarrow> ok (f r)) \<Longrightarrow> keeps (all_activities ok) (activity_update P f)"
  by (auto simp: keeps_def tx_simps all_activities_def list_all_iff)

lemma all_activities_frame [keeps_intros]:
  "keeps (all_activities ok) database_now_millis"
  "keeps (all_activities ok) (workflow_update P f)"
  "keeps (all_activities ok) (attempt_update P2 f2)"
  "keeps (all_activities ok) (approval_update P3 f3)"
  "keeps (all_activities ok) (schedule_run_update P4 f4)"
  "keeps (all_activities ok) (schedule_state_update P5 f5)"
  by (auto simp: keeps_def tx_simps all_activities_def)

end
