(* ===== verification/Persistence.thy ===== *)
theory Persistence
  imports Rows
begin

text \<open>
  The persistence operations every component shares: the wait columns
  (\<open>src/persistence/wait.rs\<close>), the event log (\<open>src/persistence/events.rs\<close>), the insert of a
  workflow with its first event, and the delivery of a child's outcome to the parents that
  wait for it (\<open>src/persistence/workflows.rs\<close>); and the inserts of \<open>src/dialect/postgres.rs\<close>
  with the constraints of \<open>migrations/postgres\<close> (keys, foreign keys, checks).

  \<open>FOR UPDATE\<close> reads return the row itself: a transaction is atomic here, so a row that
  was locked keeps its value until the transaction writes it.
\<close>

section \<open>Waits\<close>

datatype wait = Wait_Timer u32 | Wait_Activity i64 | Wait_Child i64 | Wait_Approval i64

definition Wait_parse ::
    "i64 \<Rightarrow> wait_kind option \<Rightarrow> i64 option \<Rightarrow> durable_error + wait option" where
  "Wait_parse workflow_id kind reference =
     (case (kind, reference) of
        (None, None) \<Rightarrow> Inr None
      | (Some k, None) \<Rightarrow>
          Inl (InvalidState (''workflow '' @ dec_int workflow_id @ '' '' @ wait_kind_as_str k @
            '' wait has no reference''))
      | (None, Some r) \<Rightarrow>
          Inl (InvalidState (''workflow '' @ dec_int workflow_id @ '' wait reference '' @ dec_int r @
            '' has no wait kind''))
      | (Some k, Some r) \<Rightarrow>
          (case k of
             WK_Timer \<Rightarrow>
               (case u32_try_from r of
                  None \<Rightarrow> Inl (InvalidState (''workflow '' @ dec_int workflow_id @
                    '' timer reference '' @ dec_int r @ '' is not a command sequence''))
                | Some c \<Rightarrow> Inr (Some (Wait_Timer c)))
           | WK_Activity \<Rightarrow> map_sum id (\<lambda>i. Some (Wait_Activity i)) (id_new r)
           | WK_Child \<Rightarrow> map_sum id (\<lambda>i. Some (Wait_Child i)) (id_new r)
           | WK_Approval \<Rightarrow> map_sum id (\<lambda>i. Some (Wait_Approval i)) (id_new r)))"

fun Wait_kind :: "wait \<Rightarrow> wait_kind" where
  "Wait_kind (Wait_Timer _) = WK_Timer"
| "Wait_kind (Wait_Activity _) = WK_Activity"
| "Wait_kind (Wait_Child _) = WK_Child"
| "Wait_kind (Wait_Approval _) = WK_Approval"

fun Wait_reference_id :: "wait \<Rightarrow> i64" where
  "Wait_reference_id (Wait_Timer c) = c"
| "Wait_reference_id (Wait_Activity i) = i"
| "Wait_reference_id (Wait_Child i) = i"
| "Wait_reference_id (Wait_Approval i) = i"

definition workflow_wait :: "workflow_row \<Rightarrow> durable_error + wait option" where
  "workflow_wait r = Wait_parse (wf_id r) (wf_wait_kind r) (wf_wait_reference_id r)"

text \<open>The changeset fragments \<open>WaitColumns::on\<close> and \<open>WaitColumns::cleared\<close>.\<close>

definition wait_on :: "wait \<Rightarrow> workflow_row \<Rightarrow> workflow_row" where
  "wait_on w r = r\<lparr>wf_wait_kind := Some (Wait_kind w),
                  wf_wait_reference_id := Some (Wait_reference_id w)\<rparr>"

definition wait_cleared :: "workflow_row \<Rightarrow> workflow_row" where
  "wait_cleared r = r\<lparr>wf_wait_kind := None, wf_wait_reference_id := None\<rparr>"

text \<open>The three lease columns of a workflow set to \<open>NULL\<close>; of an activity, \<open>LeaseCleared\<close>.\<close>

definition workflow_lease_cleared :: "workflow_row \<Rightarrow> workflow_row" where
  "workflow_lease_cleared r =
     r\<lparr>wf_lease_owner := None, wf_lease_token := None, wf_lease_expires_at := None\<rparr>"

definition activity_lease_cleared :: "activity_row \<Rightarrow> activity_row" where
  "activity_lease_cleared r =
     r\<lparr>act_lease_owner := None, act_lease_token := None, act_lease_expires_at := None\<rparr>"

section \<open>Reads by key\<close>

definition workflow_by_id :: "db \<Rightarrow> i64 \<Rightarrow> workflow_row option" where
  "workflow_by_id s i = find (\<lambda>r. wf_id r = i) (workflows s)"

definition activity_by_id :: "db \<Rightarrow> i64 \<Rightarrow> activity_row option" where
  "activity_by_id s i = find (\<lambda>r. act_id r = i) (activities s)"

definition approval_by_id :: "db \<Rightarrow> i64 \<Rightarrow> approval_row option" where
  "approval_by_id s i = find (\<lambda>r. apr_id r = i) (approvals s)"

text \<open>\<open>find_workflow_by_id\<close>, \<open>lock_workflow_by_id\<close> and \<open>find_activity_by_id\<close>: a missing row is
  the driver's \<open>NotFound\<close>.\<close>

definition find_workflow_by_id :: "i64 \<Rightarrow> workflow_row dtx" where
  "find_workflow_by_id i =
     tx_bind (tx_query (\<lambda>s. workflow_by_id s i)) (tx_some (Database RowNotFound))"

definition lock_workflow_by_id :: "i64 \<Rightarrow> workflow_row dtx" where
  "lock_workflow_by_id i =
     tx_bind (tx_query (\<lambda>s. workflow_by_id s i)) (tx_some (Database RowNotFound))"

definition find_activity_by_id :: "i64 \<Rightarrow> activity_row dtx" where
  "find_activity_by_id i =
     tx_bind (tx_query (\<lambda>s. activity_by_id s i)) (tx_some (Database RowNotFound))"

definition find_by_deduplication_key :: "string \<Rightarrow> string \<Rightarrow> workflow_row option dtx" where
  "find_by_deduplication_key kind key =
     tx_query (\<lambda>s. find (\<lambda>r. wf_kind r = kind \<and> wf_deduplication_key r = Some key) (workflows s))"

section \<open>The event log\<close>

text \<open>\<open>MAX\<close> of a column: \<open>NULL\<close> over no row.\<close>

fun sql_max :: "int list \<Rightarrow> int option" where
  "sql_max [] = None"
| "sql_max (x # xs) = Some (fold max xs x)"

definition next_delivery_event :: "i64 \<Rightarrow> i32 \<Rightarrow> db \<Rightarrow> workflow_event_row option" where
  "next_delivery_event workflow_id delivered_sequence s =
     (case sort_key (\<lambda>e. the (ev_delivery_sequence e))
        (filter (\<lambda>e. ev_workflow_id e = workflow_id \<and>
                     sql_gt (ev_delivery_sequence e) delivered_sequence) (events s)) of
        [] \<Rightarrow> None
      | e # _ \<Rightarrow> Some e)"

definition next_event_sequence :: "i64 \<Rightarrow> i32 dtx" where
  "next_event_sequence workflow_id =
     tx_bind (tx_query (\<lambda>s. sql_max (map ev_sequence
       (filter (\<lambda>e. ev_workflow_id e = workflow_id) (events s)))))
     (\<lambda>current. tx_some (InvalidState ''workflow event sequence overflow'')
       (checked_add 32 (case current of None \<Rightarrow> 0 | Some m \<Rightarrow> m) 1))"

text \<open>
  Inserting an event: both unique keys (\<open>(workflow, sequence)\<close> and
  \<open>(workflow, delivery sequence)\<close>, where \<open>NULL\<close> never collides) and the foreign key.
\<close>

definition append_event :: "workflow_event_row \<Rightarrow> unit dtx" where
  "append_event e = (\<lambda>s.
     if \<exists>x \<in> set (events s). ev_workflow_id x = ev_workflow_id e \<and> ev_sequence x = ev_sequence e
     then Inl (Err (unique_violation ''uq_durable_workflow_event_sequence''))
     else if \<exists>x \<in> set (events s). ev_workflow_id x = ev_workflow_id e \<and>
               sql_eq (ev_delivery_sequence x) (ev_delivery_sequence e)
     then Inl (Err (unique_violation ''uq_durable_workflow_event_delivery''))
     else if workflow_by_id s (ev_workflow_id e) = None
     then Inl (Err (foreign_key_violation ''fk_durable_workflow_event_workflow''))
     else Inr ((), s\<lparr>events := events s @ [e\<lparr>ev_id := next_event_id s\<rparr>],
                    next_event_id := next_event_id s + 1\<rparr>))"

text \<open>An event row; the identity column is filled by the insert.\<close>

definition system_event ::
    "i64 \<Rightarrow> i32 \<Rightarrow> i32 option \<Rightarrow> string \<Rightarrow> string option \<Rightarrow> string option \<Rightarrow> db_millis \<Rightarrow> workflow_event_row" where
  "system_event workflow_id sequence delivery event_type metadata reason created_at =
     \<lparr>ev_id = 0, ev_workflow_id = workflow_id, ev_sequence = sequence,
      ev_delivery_sequence = delivery, ev_event_type = event_type, ev_metadata_json = metadata,
      ev_actor_type = Some ''system'', ev_actor_id = None, ev_reason = reason,
      ev_created_at = created_at\<rparr>"

section \<open>Inserts\<close>

datatype workflow_insert = Inserted i64 | DeduplicationConflict

definition restart_conflict :: "i64 option \<Rightarrow> durable_error" where
  "restart_conflict restarted_from =
     (case restarted_from of
        Some i \<Rightarrow> Conflict (''workflow '' @ dec_int i @ '' already has a successor'')
      | None \<Rightarrow> Conflict ''workflow insert conflicted without a deduplication or restart key'')"

text \<open>A foreign key to \<open>durable_workflow\<close>: \<open>NULL\<close> or the id of a row.\<close>

definition workflow_reference_ok :: "db \<Rightarrow> i64 option \<Rightarrow> bool" where
  "workflow_reference_ok s reference =
     (case reference of None \<Rightarrow> True | Some i \<Rightarrow> workflow_by_id s i \<noteq> None)"

definition insert_workflow :: "workflow_row \<Rightarrow> workflow_insert dtx" where
  "insert_workflow row = (\<lambda>s.
     if wf_version row \<le> 0 \<or> wf_state_version row \<le> 0
     then Inl (Err (check_violation ''durable_workflow''))
     else if \<exists>r \<in> set (workflows s). wf_kind r = wf_kind row \<and>
               sql_eq (wf_deduplication_key r) (wf_deduplication_key row)
     then Inr (DeduplicationConflict, s)
     else if \<exists>r \<in> set (workflows s).
               sql_eq (wf_restarted_from_workflow_id r) (wf_restarted_from_workflow_id row)
     then Inl (Err (restart_conflict (wf_restarted_from_workflow_id row)))
     else if \<not> (workflow_reference_ok s (wf_root_workflow_id row) \<and>
                workflow_reference_ok s (wf_restarted_from_workflow_id row) \<and>
                workflow_reference_ok s (wf_parent_workflow_id row))
     then Inl (Err (foreign_key_violation ''durable_workflow''))
     else Inr (Inserted (next_workflow_id s),
               s\<lparr>workflows := workflows s @ [row\<lparr>wf_id := next_workflow_id s\<rparr>],
                 next_workflow_id := next_workflow_id s + 1\<rparr>))"

definition activity_reference_ok :: "db \<Rightarrow> i64 option \<Rightarrow> bool" where
  "activity_reference_ok s reference =
     (case reference of None \<Rightarrow> True | Some i \<Rightarrow> activity_by_id s i \<noteq> None)"

definition insert_activity :: "activity_row \<Rightarrow> i64 dtx" where
  "insert_activity row = (\<lambda>s.
     if act_version row \<le> 0 \<or> act_max_attempts row \<le> 0
     then Inl (Err (check_violation ''durable_activity''))
     else if \<exists>a \<in> set (activities s). act_workflow_id a = act_workflow_id row \<and>
               act_command_sequence a = act_command_sequence row \<and>
               act_replacement_number a = act_replacement_number row
     then Inl (Err (unique_violation ''uq_durable_activity_command''))
     else if workflow_by_id s (act_workflow_id row) = None
     then Inl (Err (foreign_key_violation ''fk_durable_activity_workflow''))
     else if \<not> (activity_reference_ok s (act_root_activity_id row) \<and>
                activity_reference_ok s (act_replaces_activity_id row))
     then Inl (Err (foreign_key_violation ''durable_activity''))
     else Inr (next_activity_id s,
               s\<lparr>activities := activities s @ [row\<lparr>act_id := next_activity_id s\<rparr>],
                 next_activity_id := next_activity_id s + 1\<rparr>))"

definition insert_approval :: "approval_row \<Rightarrow> i64 dtx" where
  "insert_approval row = (\<lambda>s.
     if apr_version row \<le> 0 \<or> apr_validation_version row \<le> 0
     then Inl (Err (check_violation ''durable_approval''))
     else if \<exists>a \<in> set (approvals s). apr_workflow_id a = apr_workflow_id row \<and>
               apr_command_sequence a = apr_command_sequence row
     then Inl (Err (unique_violation ''uq_durable_approval_command''))
     else if workflow_by_id s (apr_workflow_id row) = None
     then Inl (Err (foreign_key_violation ''fk_durable_approval_workflow''))
     else Inr (next_approval_id s,
               s\<lparr>approvals := approvals s @ [row\<lparr>apr_id := next_approval_id s\<rparr>],
                 next_approval_id := next_approval_id s + 1\<rparr>))"

definition insert_attempt :: "activity_attempt_row \<Rightarrow> unit dtx" where
  "insert_attempt row = (\<lambda>s.
     if att_attempt_number row \<le> 0
     then Inl (Err (check_violation ''durable_activity_attempt''))
     else if \<exists>a \<in> set (attempts s). att_activity_id a = att_activity_id row \<and>
               att_attempt_number a = att_attempt_number row
     then Inl (Err (unique_violation ''durable_activity_attempt_pkey''))
     else if activity_by_id s (att_activity_id row) = None
     then Inl (Err (foreign_key_violation ''fk_durable_activity_attempt_activity''))
     else Inr ((), s\<lparr>attempts := attempts s @ [row]\<rparr>))"

definition schedule_state_by_key :: "db \<Rightarrow> string \<Rightarrow> schedule_state_row option" where
  "schedule_state_by_key s key = find (\<lambda>r. sch_schedule_key r = key) (schedule_states s)"

definition insert_schedule_run :: "schedule_run_row \<Rightarrow> i64 dtx" where
  "insert_schedule_run row = (\<lambda>s.
     if \<exists>r \<in> set (schedule_runs s). run_schedule_key r = run_schedule_key row \<and>
          run_local_occurrence r = run_local_occurrence row
     then Inl (Err (unique_violation ''uq_durable_schedule_run_occurrence''))
     else if schedule_state_by_key s (run_schedule_key row) = None
     then Inl (Err (foreign_key_violation ''fk_durable_schedule_run_state''))
     else if \<not> workflow_reference_ok s (run_workflow_id row)
     then Inl (Err (foreign_key_violation ''fk_durable_schedule_run_workflow''))
     else Inr (next_schedule_run_id s,
               s\<lparr>schedule_runs := schedule_runs s @ [row\<lparr>run_id := next_schedule_run_id s\<rparr>],
                 next_schedule_run_id := next_schedule_run_id s + 1\<rparr>))"

definition insert_schedule_state_if_absent :: "schedule_state_row \<Rightarrow> bool dtx" where
  "insert_schedule_state_if_absent row = (\<lambda>s.
     if sch_definition_version row \<le> 0
     then Inl (Err (check_violation ''durable_schedule_state''))
     else if schedule_state_by_key s (sch_schedule_key row) \<noteq> None then Inr (False, s)
     else Inr (True, s\<lparr>schedule_states := schedule_states s @ [row]\<rparr>))"

text \<open>
  An update that writes \<open>workflow_id\<close> of schedule runs, with its foreign key.
\<close>

definition link_schedule_run ::
    "(schedule_run_row \<Rightarrow> bool) \<Rightarrow> i64 \<Rightarrow> (schedule_run_row \<Rightarrow> schedule_run_row) \<Rightarrow> nat dtx" where
  "link_schedule_run P workflow_id f = (\<lambda>s.
     if list_ex P (schedule_runs s) \<and> workflow_by_id s workflow_id = None
     then Inl (Err (foreign_key_violation ''fk_durable_schedule_run_workflow''))
     else schedule_run_update P (\<lambda>r. (f r)\<lparr>run_workflow_id := Some workflow_id\<rparr>) s)"

section \<open>Starting a workflow row\<close>

datatype started_insert = Started_Inserted i64 | Started_Existing workflow_row

definition insert_started :: "workflow_row \<Rightarrow> started_insert dtx" where
  "insert_started row =
     tx_bind (insert_workflow row) (\<lambda>outcome.
       case outcome of
         Inserted i \<Rightarrow>
           tx_bind database_now_millis (\<lambda>now.
           tx_seq (append_event (system_event i 1 (Some 1) ''started'' None None now))
             (tx_return (Started_Inserted i)))
       | DeduplicationConflict \<Rightarrow>
           tx_bind (tx_some (InvalidState
               ''workflow deduplication conflict without a deduplication key'')
             (wf_deduplication_key row)) (\<lambda>key.
           tx_bind (find_by_deduplication_key (wf_kind row) key) (\<lambda>existing.
             case existing of
               Some r \<Rightarrow> tx_return (Started_Existing r)
             | None \<Rightarrow> tx_fail (Conflict
                 ''duplicate start raced with an uncommitted insert outside READ COMMITTED; retry''))))"

section \<open>Waking the parents of a child\<close>

text \<open>A child's outcome: its output, or the category and message of its failure.\<close>

type_synonym child_outcome = "(string \<times> string) + string"

definition child_event ::
    "u32 \<Rightarrow> string \<Rightarrow> i32 \<Rightarrow> child_outcome \<Rightarrow> durable_error + (string \<times> workflow_event)" where
  "child_event command_sequence kind version outcome =
     (case outcome of
        Inr output_json \<Rightarrow>
          (case ChildResult_new kind version output_json of
             Inl e \<Rightarrow> Inl e
           | Inr result \<Rightarrow> Inr (''child_succeeded'', ChildSucceeded command_sequence result))
      | Inl (category, message) \<Rightarrow>
          Inr (''child_failed'', ChildFailed command_sequence kind version category message))"

definition wake_loaded_parent_on_child_terminal ::
    "externals \<Rightarrow> workflow_row \<Rightarrow> i64 \<Rightarrow> string \<Rightarrow> i32 \<Rightarrow> child_outcome \<Rightarrow> db_millis \<Rightarrow> unit dtx" where
  "wake_loaded_parent_on_child_terminal E parent child_workflow_id child_kind child_version outcome now =
     (if \<not> awaits_child (wf_status parent) then tx_return ()
      else tx_bind (tx_lift (workflow_wait parent)) (\<lambda>w.
        if w \<noteq> Some (Wait_Child child_workflow_id) then tx_return ()
        else
          tx_bind (tx_some (InvalidState (''workflow '' @ dec_int (wf_id parent) @
              '' has a negative command sequence''))
            (u32_try_from (wf_command_sequence parent))) (\<lambda>command_sequence.
          tx_bind (tx_lift (child_event command_sequence child_kind child_version outcome)) (\<lambda>(event_type, event).
          tx_bind (tx_some (InvalidState ''workflow delivery sequence overflow'')
            (checked_add 32 (wf_delivered_event_sequence parent) 1)) (\<lambda>delivery_sequence.
          tx_bind (next_event_sequence (wf_id parent)) (\<lambda>sequence.
          tx_bind (tx_some Serialization (event_to_json E event)) (\<lambda>metadata.
          tx_seq (append_event (system_event (wf_id parent) sequence (Some delivery_sequence)
              event_type (Some metadata) None now))
            (fenced (workflow_update
              (\<lambda>r. wf_id r = wf_id parent \<and> wf_status r = wf_status parent \<and>
                   sql_eq (wf_wait_kind r) (wf_wait_kind parent) \<and>
                   sql_eq (wf_wait_reference_id r) (wf_wait_reference_id parent))
              (\<lambda>r. wait_cleared (r\<lparr>wf_status := (if wf_status parent = WS_Paused
                                               then WS_Paused else WS_Ready),
                                  wf_available_at := now, wf_updated_at := now\<rparr>)))))))))))"

definition waiting_parents :: "i64 \<Rightarrow> db \<Rightarrow> workflow_row list" where
  "waiting_parents child_id s =
     filter (\<lambda>r. wf_wait_kind r = Some WK_Child \<and> wf_wait_reference_id r = Some child_id \<and>
                 wf_status r \<in> set CHILD_WAITERS) (workflows s)"

definition wake_waiting_parents_on_child_terminal ::
    "externals \<Rightarrow> workflow_row \<Rightarrow> child_outcome \<Rightarrow> db_millis \<Rightarrow> unit dtx" where
  "wake_waiting_parents_on_child_terminal E child outcome now =
     tx_bind (tx_query (waiting_parents (wf_id child))) (\<lambda>parents.
       tx_each (\<lambda>parent. wake_loaded_parent_on_child_terminal E parent (wf_id child)
         (wf_kind child) (wf_version child) outcome now) parents)"

section \<open>Facts\<close>

text \<open>The values the Rust type admits: a \<open>u32\<close> command sequence, positive ids.\<close>

fun wait_typed :: "wait \<Rightarrow> bool" where
  "wait_typed (Wait_Timer c) \<longleftrightarrow> in_unsigned 32 c"
| "wait_typed (Wait_Activity i) \<longleftrightarrow> 0 < i"
| "wait_typed (Wait_Child i) \<longleftrightarrow> 0 < i"
| "wait_typed (Wait_Approval i) \<longleftrightarrow> 0 < i"

lemma id_new_map_sum [simp]:
  "map_sum id f (id_new v) = Inr x \<longleftrightarrow> 0 < v \<and> x = f v"
  by (cases "id_new v") (auto simp: id_new_def split: if_splits)

lemma Wait_parse_Inr:
  "Wait_parse i kind reference = Inr (Some w) \<longleftrightarrow>
   kind = Some (Wait_kind w) \<and> reference = Some (Wait_reference_id w) \<and> wait_typed w"
proof (cases kind)
  case (Some k)
  then show ?thesis
    by (cases k; cases w; cases reference)
      (auto simp: Wait_parse_def u32_try_from_def split: option.splits)
qed (cases reference; simp add: Wait_parse_def)

lemma Wait_parse_None [simp]:
  "Wait_parse i kind reference = Inr None \<longleftrightarrow> kind = None \<and> reference = None"
  by (auto simp: Wait_parse_def u32_try_from_def split: option.splits wait_kind.splits)

text \<open>
  C40: the two wait columns round-trip. Every wait the engine writes parses back to
  itself and cleared columns to no wait; conversely a pair of columns that parses is the
  one the engine would have written, so half a wait, a timer reference outside \<open>u32\<close> and a
  non-positive id are all rejected.
\<close>

theorem wait_columns_round_trip:
  "workflow_wait (wait_cleared r) = Inr None \<and>
   (workflow_wait (wait_on w r) = Inr (Some w) \<longleftrightarrow> wait_typed w) \<and>
   (workflow_wait r = Inr (Some w) \<longleftrightarrow> wait_on w r = r \<and> wait_typed w) \<and>
   (workflow_wait r = Inr None \<longleftrightarrow> wait_cleared r = r)"
proof -
  have "wait_on w r = r \<longleftrightarrow>
      wf_wait_kind r = Some (Wait_kind w) \<and> wf_wait_reference_id r = Some (Wait_reference_id w)"
    by (cases r) (auto simp: wait_on_def)
  moreover have "wait_cleared r = r \<longleftrightarrow> wf_wait_kind r = None \<and> wf_wait_reference_id r = None"
    by (cases r) (auto simp: wait_cleared_def)
  ultimately show ?thesis
    by (auto simp: workflow_wait_def Wait_parse_Inr wait_on_def wait_cleared_def)
qed

end
