(* ===== verification/Guarantees.thy ===== *)
theory Guarantees
  imports Persistence
begin

text \<open>
  What every transaction of the engine promises about the database as a whole.

  \<^item> \<open>db_evolves\<close>: rows are never deleted; a terminal workflow never changes again; the
    columns that identify a workflow or an activity never change; the attempt counter and
    the attempt limit of an activity never go down; a finished attempt, a decided approval
    and an event of the log never change.
  \<^item> \<open>workflow_row_ok\<close>, \<open>activity_row_ok\<close>: the lease columns of a row agree with its status,
    a waiting workflow names what it waits for, and an activity never counts more
    attempts than it is allowed.

  The rules for single statements are stated here once; each component proves its
  transactions from them.
\<close>

section \<open>Evolution of rows\<close>

definition workflow_identity where
  "workflow_identity r =
     (wf_id r, wf_kind r, wf_version r, wf_input_json r, wf_max_activation_attempts r,
      wf_deduplication_key r, wf_schedule_run_id r, wf_root_workflow_id r,
      wf_restarted_from_workflow_id r, wf_parent_workflow_id r, wf_parent_command_sequence r,
      wf_created_at r)"

definition workflow_evolves :: "workflow_row \<Rightarrow> workflow_row \<Rightarrow> bool" where
  "workflow_evolves r r' \<longleftrightarrow>
     workflow_identity r' = workflow_identity r \<and> (ws_is_terminal (wf_status r) \<longrightarrow> r' = r)"

definition activity_identity where
  "activity_identity a =
     (act_id a, act_workflow_id a, act_command_sequence a, act_replacement_number a, act_kind a,
      act_version a, act_topic a, act_payload_json a, act_timeout_millis a,
      act_lease_duration_millis a, act_retry_policy_json a, act_operation_key a,
      act_root_activity_id a, act_replaces_activity_id a, act_created_at a)"

definition activity_evolves :: "activity_row \<Rightarrow> activity_row \<Rightarrow> bool" where
  "activity_evolves a a' \<longleftrightarrow>
     activity_identity a' = activity_identity a \<and>
     act_attempt_count a \<le> act_attempt_count a' \<and> act_max_attempts a \<le> act_max_attempts a' \<and>
     (act_status a \<in> {AS_Succeeded, AS_Cancelled} \<longrightarrow> a' = a) \<and>
     (act_status a = AS_DeadLettered \<longrightarrow> a' = a \<or> act_status a' = AS_Cancelled)"

definition attempt_evolves :: "activity_attempt_row \<Rightarrow> activity_attempt_row \<Rightarrow> bool" where
  "attempt_evolves t t' \<longleftrightarrow>
     att_activity_id t' = att_activity_id t \<and> att_attempt_number t' = att_attempt_number t \<and>
     att_lease_token t' = att_lease_token t \<and>
     (att_finished_at t \<noteq> None \<longrightarrow> t' = t)"

definition approval_evolves :: "approval_row \<Rightarrow> approval_row \<Rightarrow> bool" where
  "approval_evolves p p' \<longleftrightarrow>
     apr_id p' = apr_id p \<and> apr_workflow_id p' = apr_workflow_id p \<and>
     apr_command_sequence p' = apr_command_sequence p \<and>
     (apr_status p \<noteq> AP_Pending \<longrightarrow> p' = p)"

text \<open>
  The occurrence a schedule run stands for never changes, nor does a decided status; a
  schedule keeps its key and its time of creation.
\<close>

definition run_identity where
  "run_identity r =
     (run_id r, run_schedule_key r, run_local_occurrence r, run_scheduled_for r,
      run_materialized_at r, run_actor_id r, run_created_at r)"

definition run_evolves :: "schedule_run_row \<Rightarrow> schedule_run_row \<Rightarrow> bool" where
  "run_evolves r r' \<longleftrightarrow>
     run_identity r' = run_identity r \<and>
     (run_status r \<in> {SR_Started, SR_Skipped, SR_Coalesced} \<longrightarrow> run_status r' = run_status r)"

definition state_evolves :: "schedule_state_row \<Rightarrow> schedule_state_row \<Rightarrow> bool" where
  "state_evolves r r' \<longleftrightarrow>
     sch_schedule_key r' = sch_schedule_key r \<and> sch_created_at r' = sch_created_at r"

text \<open>
  The keys of the tables: primary keys below the identity counter, the unique keys of
  \<open>migrations/postgres\<close>, and links that point at a row inserted earlier. The inserts check
  them, and updates leave the key columns alone.
\<close>

definition workflow_keys_ok :: "workflow_row list \<Rightarrow> i64 \<Rightarrow> bool" where
  "workflow_keys_ok t next_id \<longleftrightarrow>
     distinct (map wf_id t) \<and> (\<forall>r \<in> set t. wf_id r < next_id) \<and>
     (\<forall>r \<in> set t. \<forall>j. wf_restarted_from_workflow_id r = Some j \<longrightarrow> j < wf_id r) \<and>
     (\<forall>r \<in> set t. \<forall>j. wf_parent_workflow_id r = Some j \<longrightarrow> j < wf_id r) \<and>
     (\<forall>r \<in> set t. \<forall>q \<in> set t.
        sql_eq (wf_restarted_from_workflow_id r) (wf_restarted_from_workflow_id q) \<longrightarrow> wf_id r = wf_id q) \<and>
     (\<forall>r \<in> set t. \<forall>q \<in> set t. wf_kind r = wf_kind q \<longrightarrow>
        sql_eq (wf_deduplication_key r) (wf_deduplication_key q) \<longrightarrow> wf_id r = wf_id q)"

definition activity_keys_ok :: "activity_row list \<Rightarrow> i64 \<Rightarrow> bool" where
  "activity_keys_ok t next_id \<longleftrightarrow>
     distinct (map act_id t) \<and> (\<forall>a \<in> set t. act_id a < next_id) \<and>
     distinct (map (\<lambda>a. (act_workflow_id a, act_command_sequence a, act_replacement_number a)) t)"

definition approval_keys_ok :: "approval_row list \<Rightarrow> i64 \<Rightarrow> bool" where
  "approval_keys_ok t next_id \<longleftrightarrow>
     distinct (map apr_id t) \<and> (\<forall>p \<in> set t. apr_id p < next_id) \<and>
     distinct (map (\<lambda>p. (apr_workflow_id p, apr_command_sequence p)) t)"

definition attempt_keys_ok :: "activity_attempt_row list \<Rightarrow> bool" where
  "attempt_keys_ok t \<longleftrightarrow> distinct (map (\<lambda>x. (att_activity_id x, att_attempt_number x)) t)"

definition event_keys_ok :: "workflow_event_row list \<Rightarrow> bool" where
  "event_keys_ok t \<longleftrightarrow>
     distinct (map (\<lambda>e. (ev_workflow_id e, ev_sequence e)) t) \<and>
     distinct (map (\<lambda>e. (ev_workflow_id e, ev_delivery_sequence e))
       (filter (\<lambda>e. ev_delivery_sequence e \<noteq> None) t))"

definition run_keys_ok :: "schedule_run_row list \<Rightarrow> i64 \<Rightarrow> bool" where
  "run_keys_ok t next_id \<longleftrightarrow>
     distinct (map run_id t) \<and> (\<forall>r \<in> set t. run_id r < next_id) \<and>
     distinct (map (\<lambda>r. (run_schedule_key r, run_local_occurrence r)) t)"

definition state_keys_ok :: "schedule_state_row list \<Rightarrow> bool" where
  "state_keys_ok t \<longleftrightarrow> distinct (map sch_schedule_key t)"

definition keys_ok :: "db \<Rightarrow> bool" where
  "keys_ok s \<longleftrightarrow>
     workflow_keys_ok (workflows s) (next_workflow_id s) \<and>
     activity_keys_ok (activities s) (next_activity_id s) \<and>
     approval_keys_ok (approvals s) (next_approval_id s) \<and>
     attempt_keys_ok (attempts s) \<and> event_keys_ok (events s) \<and>
     run_keys_ok (schedule_runs s) (next_schedule_run_id s) \<and> state_keys_ok (schedule_states s)"

lemmas keys_defs = keys_ok_def workflow_keys_ok_def activity_keys_ok_def approval_keys_ok_def
  attempt_keys_ok_def event_keys_ok_def run_keys_ok_def state_keys_ok_def

definition db_evolves :: "db \<Rightarrow> db \<Rightarrow> bool" where
  "db_evolves s s' \<longleftrightarrow>
     rows_evolve workflow_evolves (workflows s) (workflows s') \<and>
     rows_evolve activity_evolves (activities s) (activities s') \<and>
     rows_evolve attempt_evolves (attempts s) (attempts s') \<and>
     rows_evolve approval_evolves (approvals s) (approvals s') \<and>
     rows_evolve (=) (events s) (events s') \<and>
     rows_evolve run_evolves (schedule_runs s) (schedule_runs s') \<and>
     rows_evolve state_evolves (schedule_states s) (schedule_states s') \<and>
     (keys_ok s \<longrightarrow> keys_ok s')"

text \<open>Updates that keep the identity of every row keep the keys.\<close>

lemma workflow_keys_map:
  assumes "\<And>r. workflow_identity (g r) = workflow_identity r"
  shows "workflow_keys_ok (map g t) n = workflow_keys_ok t n"
proof -
  have g: "wf_id (g r) = wf_id r" "wf_restarted_from_workflow_id (g r) = wf_restarted_from_workflow_id r"
    "wf_parent_workflow_id (g r) = wf_parent_workflow_id r" "wf_kind (g r) = wf_kind r"
    "wf_deduplication_key (g r) = wf_deduplication_key r" for r
    using assms [of r] by (simp_all add: workflow_identity_def)
  show ?thesis by (simp add: workflow_keys_ok_def g comp_def)
qed

lemma activity_keys_map:
  assumes "\<And>a. activity_identity (g a) = activity_identity a"
  shows "activity_keys_ok (map g t) n = activity_keys_ok t n"
proof -
  have g: "act_id (g a) = act_id a" "act_workflow_id (g a) = act_workflow_id a"
    "act_command_sequence (g a) = act_command_sequence a"
    "act_replacement_number (g a) = act_replacement_number a" for a
    using assms [of a] by (simp_all add: activity_identity_def)
  show ?thesis by (simp add: activity_keys_ok_def g comp_def)
qed

lemma approval_keys_map:
  assumes "\<And>p. apr_id (g p) = apr_id p \<and> apr_workflow_id (g p) = apr_workflow_id p \<and>
                apr_command_sequence (g p) = apr_command_sequence p"
  shows "approval_keys_ok (map g t) n = approval_keys_ok t n"
  using assms by (simp add: approval_keys_ok_def comp_def)

lemma attempt_keys_map:
  assumes "\<And>x. att_activity_id (g x) = att_activity_id x \<and> att_attempt_number (g x) = att_attempt_number x"
  shows "attempt_keys_ok (map g t) = attempt_keys_ok t"
  using assms by (simp add: attempt_keys_ok_def comp_def)

lemma run_keys_map:
  assumes "\<And>r. run_identity (g r) = run_identity r"
  shows "run_keys_ok (map g t) n = run_keys_ok t n"
proof -
  have g: "run_id (g r) = run_id r" "run_schedule_key (g r) = run_schedule_key r"
    "run_local_occurrence (g r) = run_local_occurrence r" for r
    using assms [of r] by (simp_all add: run_identity_def)
  show ?thesis by (simp add: run_keys_ok_def g comp_def)
qed

lemma state_keys_map:
  "(\<And>r. sch_schedule_key (g r) = sch_schedule_key r) \<Longrightarrow> state_keys_ok (map g t) = state_keys_ok t"
  by (simp add: state_keys_ok_def comp_def)

interpretation wf_rows: row_guarantee workflow_evolves
  by unfold_locales (auto simp: workflow_evolves_def)

interpretation act_rows: row_guarantee activity_evolves
  by unfold_locales (auto simp: activity_evolves_def)

interpretation att_rows: row_guarantee attempt_evolves
  by unfold_locales (auto simp: attempt_evolves_def)

interpretation apr_rows: row_guarantee approval_evolves
  by unfold_locales (auto simp: approval_evolves_def)

interpretation ev_rows: row_guarantee "(=) :: workflow_event_row \<Rightarrow> _"
  by unfold_locales auto

interpretation run_rows: row_guarantee run_evolves
  by unfold_locales (auto simp: run_evolves_def)

interpretation state_rows: row_guarantee state_evolves
  by unfold_locales (auto simp: state_evolves_def)

lemmas evolve_refls = wf_rows.evolve_refl act_rows.evolve_refl att_rows.evolve_refl
  apr_rows.evolve_refl ev_rows.evolve_refl run_rows.evolve_refl state_rows.evolve_refl

interpretation evolution: guarantee db_evolves
proof unfold_locales
  fix s show "db_evolves s s" by (simp add: db_evolves_def evolve_refls)
next
  fix s t u assume "db_evolves s t" "db_evolves t u"
  then show "db_evolves s u"
    unfolding db_evolves_def
    by (blast intro: wf_rows.evolve_trans act_rows.evolve_trans att_rows.evolve_trans
          apr_rows.evolve_trans ev_rows.evolve_trans run_rows.evolve_trans state_rows.evolve_trans)
qed

section \<open>Statements\<close>

lemmas evolves_statement_simps =
  guarantees_def tx_simps db_evolves_def evolve_refls keys_ok_def

lemma evolves_now [guar_intros]: "guarantees db_evolves database_now_millis"
  by (auto simp: evolves_statement_simps)

lemma evolves_workflow_update:
  assumes "\<And>r. P r \<Longrightarrow> workflow_evolves r (f r)"
  shows "guarantees db_evolves (workflow_update P f)"
proof -
  have "workflow_identity (if P r then f r else r) = workflow_identity r" for r
    using assms by (simp add: workflow_evolves_def)
  then show ?thesis
    using assms by (auto simp: evolves_statement_simps workflow_keys_map intro!: wf_rows.evolve_update)
qed

lemma evolves_activity_update:
  assumes "\<And>a. P a \<Longrightarrow> activity_evolves a (f a)"
  shows "guarantees db_evolves (activity_update P f)"
proof -
  have "activity_identity (if P a then f a else a) = activity_identity a" for a
    using assms by (simp add: activity_evolves_def)
  then show ?thesis
    using assms by (auto simp: evolves_statement_simps activity_keys_map intro!: act_rows.evolve_update)
qed

lemma evolves_attempt_update:
  assumes "\<And>x. P x \<Longrightarrow> attempt_evolves x (f x)"
  shows "guarantees db_evolves (attempt_update P f)"
  using assms
  by (auto simp: evolves_statement_simps attempt_keys_map attempt_evolves_def
      intro!: att_rows.evolve_update)

lemma evolves_approval_update:
  assumes "\<And>p. P p \<Longrightarrow> approval_evolves p (f p)"
  shows "guarantees db_evolves (approval_update P f)"
  using assms
  by (auto simp: evolves_statement_simps approval_keys_map approval_evolves_def
      intro!: apr_rows.evolve_update)

lemma evolves_schedule_run_update:
  assumes "\<And>r. P r \<Longrightarrow> run_evolves r (f r)"
  shows "guarantees db_evolves (schedule_run_update P f)"
proof -
  have "run_identity (if P r then f r else r) = run_identity r" for r
    using assms by (simp add: run_evolves_def)
  then show ?thesis
    using assms by (auto simp: evolves_statement_simps run_keys_map intro!: run_rows.evolve_update)
qed

lemma evolves_schedule_state_update:
  assumes "\<And>r. P r \<Longrightarrow> state_evolves r (f r)"
  shows "guarantees db_evolves (schedule_state_update P f)"
proof -
  have "sch_schedule_key (if P r then f r else r) = sch_schedule_key r" for r
    using assms by (simp add: state_evolves_def)
  then show ?thesis
    using assms by (auto simp: evolves_statement_simps state_keys_map intro!: state_rows.evolve_update)
qed

lemma evolves_link_schedule_run:
  assumes "\<And>r. P r \<Longrightarrow> run_evolves r ((f r)\<lparr>run_workflow_id := Some i\<rparr>)"
  shows "guarantees db_evolves (link_schedule_run P i f)"
  using guaranteesD [OF evolves_schedule_run_update, OF assms]
  by (auto simp: link_schedule_run_def guarantees_def split: if_splits)

lemma guarantees_fenced [guar_intros]:
  "guarantees db_evolves m \<Longrightarrow> guarantees db_evolves (fenced m)"
  unfolding fenced_def by (intro guar_intros)

text \<open>What an insert did, when it returned.\<close>

lemma append_event_Inr:
  "append_event e s = Inr (u, s') \<longleftrightarrow>
   (\<forall>x \<in> set (events s). ev_workflow_id x = ev_workflow_id e \<longrightarrow>
      ev_sequence x \<noteq> ev_sequence e \<and>
      \<not> sql_eq (ev_delivery_sequence x) (ev_delivery_sequence e)) \<and>
   workflow_by_id s (ev_workflow_id e) \<noteq> None \<and>
   s' = s\<lparr>events := events s @ [e\<lparr>ev_id := next_event_id s\<rparr>], next_event_id := next_event_id s + 1\<rparr>"
  by (auto simp: append_event_def)

lemma insert_workflow_Inserted:
  assumes "insert_workflow row s = Inr (Inserted i, s')"
  shows "i = next_workflow_id s"
    and "s' = s\<lparr>workflows := workflows s @ [row\<lparr>wf_id := i\<rparr>], next_workflow_id := i + 1\<rparr>"
    and "\<forall>r \<in> set (workflows s). wf_kind r = wf_kind row \<longrightarrow>
           \<not> sql_eq (wf_deduplication_key r) (wf_deduplication_key row)"
    and "\<forall>r \<in> set (workflows s).
           \<not> sql_eq (wf_restarted_from_workflow_id r) (wf_restarted_from_workflow_id row)"
    and "workflow_reference_ok s (wf_restarted_from_workflow_id row)"
    and "workflow_reference_ok s (wf_parent_workflow_id row)"
  using assms by (auto simp: insert_workflow_def split: if_splits)

lemma insert_workflow_Conflict:
  "insert_workflow row s = Inr (DeduplicationConflict, s') \<Longrightarrow> s' = s"
  by (auto simp: insert_workflow_def split: if_splits)

lemma insert_activity_Inr:
  "insert_activity row s = Inr (i, s') \<Longrightarrow>
   i = next_activity_id s \<and> 0 < act_max_attempts row \<and>
   s' = s\<lparr>activities := activities s @ [row\<lparr>act_id := i\<rparr>], next_activity_id := i + 1\<rparr> \<and>
   (\<forall>a \<in> set (activities s). (act_workflow_id a, act_command_sequence a, act_replacement_number a) \<noteq>
      (act_workflow_id row, act_command_sequence row, act_replacement_number row))"
  by (auto simp: insert_activity_def split: if_splits)

lemma insert_approval_Inr:
  "insert_approval row s = Inr (i, s') \<Longrightarrow>
   i = next_approval_id s \<and>
   s' = s\<lparr>approvals := approvals s @ [row\<lparr>apr_id := i\<rparr>], next_approval_id := i + 1\<rparr> \<and>
   (\<forall>p \<in> set (approvals s). (apr_workflow_id p, apr_command_sequence p) \<noteq>
      (apr_workflow_id row, apr_command_sequence row))"
  by (auto simp: insert_approval_def split: if_splits)

lemma insert_attempt_Inr:
  "insert_attempt row s = Inr (u, s') \<Longrightarrow>
   s' = s\<lparr>attempts := attempts s @ [row]\<rparr> \<and> 0 < att_attempt_number row \<and>
   (\<forall>t \<in> set (attempts s). (att_activity_id t, att_attempt_number t) \<noteq>
      (att_activity_id row, att_attempt_number row))"
  by (auto simp: insert_attempt_def split: if_splits)

lemma insert_schedule_run_Inr:
  "insert_schedule_run row s = Inr (i, s') \<Longrightarrow>
   i = next_schedule_run_id s \<and>
   s' = s\<lparr>schedule_runs := schedule_runs s @ [row\<lparr>run_id := i\<rparr>], next_schedule_run_id := i + 1\<rparr> \<and>
   (\<forall>r \<in> set (schedule_runs s). (run_schedule_key r, run_local_occurrence r) \<noteq>
      (run_schedule_key row, run_local_occurrence row))"
  by (auto simp: insert_schedule_run_def split: if_splits)

lemma insert_schedule_state_Inr:
  "insert_schedule_state_if_absent row s = Inr (b, s') \<longleftrightarrow> 0 < sch_definition_version row \<and>
   b = (schedule_state_by_key s (sch_schedule_key row) = None) \<and>
   s' = (if b then s\<lparr>schedule_states := schedule_states s @ [row]\<rparr> else s)"
  by (auto simp: insert_schedule_state_if_absent_def)

lemma sql_eq_commute: "sql_eq a b = sql_eq b a"
  by (auto simp: sql_eq_def)

lemma reference_below:
  assumes "workflow_keys_ok (workflows s) (next_workflow_id s)" and "workflow_reference_ok s (Some j)"
  shows "j < next_workflow_id s"
  using assms
  by (auto simp: workflow_reference_ok_def workflow_by_id_def workflow_keys_ok_def dest: find_key_mem)

lemma workflow_keys_snoc:
  assumes t: "workflow_keys_ok t i" and id: "wf_id r = i"
    and link: "\<And>j. wf_restarted_from_workflow_id r = Some j \<Longrightarrow> j < i"
    and parent: "\<And>j. wf_parent_workflow_id r = Some j \<Longrightarrow> j < i"
    and restart: "\<And>q. q \<in> set t \<Longrightarrow>
      \<not> sql_eq (wf_restarted_from_workflow_id q) (wf_restarted_from_workflow_id r)"
    and key: "\<And>q. q \<in> set t \<Longrightarrow> wf_kind q = wf_kind r \<Longrightarrow>
      \<not> sql_eq (wf_deduplication_key q) (wf_deduplication_key r)"
  shows "workflow_keys_ok (t @ [r]) (i + 1)"
proof -
  have restart': "\<not> sql_eq (wf_restarted_from_workflow_id r) (wf_restarted_from_workflow_id q)"
    if "q \<in> set t" for q
    using restart [OF that] sql_eq_commute by metis
  have key': "\<not> sql_eq (wf_deduplication_key r) (wf_deduplication_key q)"
    if "q \<in> set t" "wf_kind r = wf_kind q" for q
    using key [of q] that sql_eq_commute by metis
  note facts = t [unfolded workflow_keys_ok_def]
  have below: "wf_id q < i" if "q \<in> set t" for q
    using facts that by blast
  have new: "wf_id r \<notin> wf_id ` set t"
    using below id by fastforce
  show ?thesis
    unfolding workflow_keys_ok_def set_append list.set Un_insert_right Un_empty_right ball_simps
  proof (intro conjI)
    show "distinct (map wf_id (t @ [r]))"
      using facts new by simp
    show "wf_id r < i + 1" using id by simp
    show "\<forall>q \<in> set t. wf_id q < i + 1" using below by (simp add: less_imp_le)
  qed (use facts link parent restart restart' key key' id in \<open>blast+\<close>)
qed

lemma keys_insert_workflow:
  assumes "insert_workflow row s = Inr (Inserted i, s')" and "keys_ok s"
  shows "keys_ok s'"
proof -
  note ins = insert_workflow_Inserted [OF assms(1)]
  from assms(2) have k: "workflow_keys_ok (workflows s) i"
    using ins(1) by (simp add: keys_ok_def)
  have "workflow_keys_ok (workflows s @ [row\<lparr>wf_id := i\<rparr>]) (i + 1)"
  proof (rule workflow_keys_snoc [OF k])
    show "j < i" if "wf_restarted_from_workflow_id (row\<lparr>wf_id := i\<rparr>) = Some j" for j
      using reference_below [of s j] k ins(1,5) that by simp
    show "j < i" if "wf_parent_workflow_id (row\<lparr>wf_id := i\<rparr>) = Some j" for j
      using reference_below [of s j] k ins(1,6) that by simp
  qed (use ins(3,4) in auto)
  with assms(2) ins(2) show ?thesis by (simp add: keys_ok_def)
qed

lemma evolves_append_event [guar_intros]: "guarantees db_evolves (append_event e)"
proof (rule guaranteesI)
  fix s u s' assume "append_event e s = Inr (u, s')"
  then have s': "s' = s\<lparr>events := events s @ [e\<lparr>ev_id := next_event_id s\<rparr>],
                        next_event_id := next_event_id s + 1\<rparr>"
    and fresh: "\<forall>x \<in> set (events s). ev_workflow_id x = ev_workflow_id e \<longrightarrow>
      ev_sequence x \<noteq> ev_sequence e \<and>
      \<not> sql_eq (ev_delivery_sequence x) (ev_delivery_sequence e)"
    by (auto simp: append_event_Inr)
  have "event_keys_ok (events s) \<Longrightarrow> event_keys_ok (events s')"
    using fresh by (auto simp: event_keys_ok_def s' image_iff sql_eq_def)
  then show "db_evolves s s'"
    by (auto simp: db_evolves_def evolve_refls ev_rows.evolve_insert keys_ok_def s')
qed

lemma evolves_insert_workflow [guar_intros]: "guarantees db_evolves (insert_workflow row)"
proof (rule guaranteesI)
  fix s a s' assume i: "insert_workflow row s = Inr (a, s')"
  then show "db_evolves s s'"
  proof (cases a)
    case (Inserted k)
    with i have "s' = s\<lparr>workflows := workflows s @ [row\<lparr>wf_id := k\<rparr>], next_workflow_id := k + 1\<rparr>"
      by (simp add: insert_workflow_Inserted(2))
    with i Inserted show ?thesis
      by (auto simp: db_evolves_def evolve_refls wf_rows.evolve_insert intro: keys_insert_workflow)
  next
    case DeduplicationConflict
    with i have "s' = s" by (simp add: insert_workflow_Conflict)
    then show ?thesis by (simp add: evolution.refl)
  qed
qed

lemma evolves_insert_activity [guar_intros]: "guarantees db_evolves (insert_activity row)"
  by (fastforce simp: guarantees_def db_evolves_def evolve_refls act_rows.evolve_insert keys_ok_def
        activity_keys_ok_def dest!: insert_activity_Inr)

lemma evolves_insert_approval [guar_intros]: "guarantees db_evolves (insert_approval row)"
  by (fastforce simp: guarantees_def db_evolves_def evolve_refls apr_rows.evolve_insert keys_ok_def
        approval_keys_ok_def dest!: insert_approval_Inr)

lemma evolves_insert_attempt [guar_intros]: "guarantees db_evolves (insert_attempt row)"
  by (fastforce simp: guarantees_def db_evolves_def evolve_refls att_rows.evolve_insert keys_ok_def
        attempt_keys_ok_def dest!: insert_attempt_Inr)

lemma evolves_insert_schedule_run [guar_intros]: "guarantees db_evolves (insert_schedule_run row)"
  by (fastforce simp: guarantees_def db_evolves_def evolve_refls run_rows.evolve_insert keys_ok_def
        run_keys_ok_def dest!: insert_schedule_run_Inr)

lemma evolves_insert_schedule_state [guar_intros]:
  "guarantees db_evolves (insert_schedule_state_if_absent row)"
  by (auto simp: guarantees_def db_evolves_def evolve_refls state_rows.evolve_insert keys_ok_def
        state_keys_ok_def insert_schedule_state_Inr schedule_state_by_key_def find_None_iff
        split: if_splits)

lemma guarantees_workflow_insert [guar_intros]:
  "(\<And>i. q = Inserted i \<Longrightarrow> guarantees R (m i)) \<Longrightarrow> (q = DeduplicationConflict \<Longrightarrow> guarantees R k) \<Longrightarrow>
   guarantees R (case q of Inserted i \<Rightarrow> m i | DeduplicationConflict \<Rightarrow> k)"
  by (cases q) auto

lemma guarantees_started [guar_intros]:
  "(\<And>i. q = Started_Inserted i \<Longrightarrow> guarantees R (m i)) \<Longrightarrow>
   (\<And>r. q = Started_Existing r \<Longrightarrow> guarantees R (k r)) \<Longrightarrow>
   guarantees R (case q of Started_Inserted i \<Rightarrow> m i | Started_Existing r \<Rightarrow> k r)"
  by (cases q) auto

text \<open>A change of a live workflow that leaves its identity alone.\<close>

lemma workflow_evolves_live:
  "\<not> ws_is_terminal (wf_status r) \<Longrightarrow> workflow_identity r' = workflow_identity r \<Longrightarrow>
   workflow_evolves r r'"
  by (simp add: workflow_evolves_def)

section \<open>The shared operations\<close>

lemmas changes = wait_cleared_def wait_on_def workflow_lease_cleared_def activity_lease_cleared_def

lemma evolves_next_event_sequence [guar_intros]: "guarantees db_evolves (next_event_sequence i)"
  unfolding next_event_sequence_def by (intro guar_intros)

lemma evolves_reads [guar_intros]:
  "guarantees db_evolves (find_workflow_by_id i)"
  "guarantees db_evolves (lock_workflow_by_id i)"
  "guarantees db_evolves (find_activity_by_id i)"
  "guarantees db_evolves (find_by_deduplication_key kind key)"
  unfolding find_workflow_by_id_def lock_workflow_by_id_def find_activity_by_id_def
    find_by_deduplication_key_def
  by (intro guar_intros)+

lemma evolves_insert_started [guar_intros]: "guarantees db_evolves (insert_started row)"
  unfolding insert_started_def by (intro guar_intros)

lemma awaits_child_live: "awaits_child x \<Longrightarrow> \<not> ws_is_terminal x"
  by (cases x) auto

lemma awaits_approval_live: "awaits_approval x \<Longrightarrow> \<not> ws_is_terminal x"
  by (cases x) auto

lemma evolves_wake_loaded_parent [guar_intros]:
  "guarantees db_evolves (wake_loaded_parent_on_child_terminal E parent i kind version outcome now)"
  unfolding wake_loaded_parent_on_child_terminal_def
  by (intro guar_intros evolves_workflow_update)
    (auto simp: workflow_identity_def changes dest: awaits_child_live intro!: workflow_evolves_live)

lemma evolves_wake_waiting_parents [guar_intros]:
  "guarantees db_evolves (wake_waiting_parents_on_child_terminal E child outcome now)"
  unfolding wake_waiting_parents_on_child_terminal_def by (intro guar_intros)

section \<open>Row invariants\<close>

text \<open>The lease columns are set together, exactly while the status holds a lease (S1, S9).\<close>

definition lease_columns_ok :: "bool \<Rightarrow> 'a option \<Rightarrow> 'b option \<Rightarrow> 'c option \<Rightarrow> bool" where
  "lease_columns_ok held owner token expires \<longleftrightarrow>
     (owner \<noteq> None \<longleftrightarrow> held) \<and> (token \<noteq> None \<longleftrightarrow> held) \<and> (expires \<noteq> None \<longleftrightarrow> held)"

text \<open>The wait kind a status demands (S7); the other statuses demand none.\<close>

fun status_wait_kind :: "workflow_status \<Rightarrow> wait_kind option" where
  "status_wait_kind WS_WaitingActivity = Some WK_Activity"
| "status_wait_kind WS_Blocked = Some WK_Activity"
| "status_wait_kind WS_WaitingChild = Some WK_Child"
| "status_wait_kind WS_Sleeping = Some WK_Timer"
| "status_wait_kind WS_WaitingApproval = Some WK_Approval"
| "status_wait_kind _ = None"

definition workflow_row_ok :: "workflow_row \<Rightarrow> bool" where
  "workflow_row_ok r \<longleftrightarrow>
     lease_columns_ok (wf_status r = WS_Running) (wf_lease_owner r) (wf_lease_token r)
       (wf_lease_expires_at r) \<and>
     (wf_wait_kind r = None \<longleftrightarrow> wf_wait_reference_id r = None) \<and>
     (\<forall>k. status_wait_kind (wf_status r) = Some k \<longrightarrow> wf_wait_kind r = Some k)"

text \<open>The attempt counter stays within the limit and counts the attempt in progress (S12).\<close>

definition activity_row_ok :: "activity_row \<Rightarrow> bool" where
  "activity_row_ok a \<longleftrightarrow>
     lease_columns_ok (holds_lease (act_status a)) (act_lease_owner a) (act_lease_token a)
       (act_lease_expires_at a) \<and>
     0 \<le> act_attempt_count a \<and> act_attempt_count a \<le> act_max_attempts a \<and>
     (holds_lease (act_status a) \<longrightarrow> 1 \<le> act_attempt_count a)"

definition rows_ok :: "db \<Rightarrow> bool" where
  "rows_ok s \<longleftrightarrow> all_workflows workflow_row_ok s \<and> all_activities activity_row_ok s"

lemma rows_ok_workflow: "rows_ok s \<Longrightarrow> workflow_by_id s i = Some r \<Longrightarrow> workflow_row_ok r"
  by (auto simp: rows_ok_def all_workflows_def workflow_by_id_def list_all_iff dest: find_mem)

lemma rows_ok_activity: "rows_ok s \<Longrightarrow> activity_by_id s i = Some a \<Longrightarrow> activity_row_ok a"
  by (auto simp: rows_ok_def all_activities_def activity_by_id_def list_all_iff dest: find_mem)

lemma keeps_conj: "keeps I m \<Longrightarrow> keeps J m \<Longrightarrow> keeps (\<lambda>s. I s \<and> J s) m"
  by (auto simp: keeps_def)

lemma rows_ok_frame [keeps_intros]:
  "keeps rows_ok database_now_millis"
  "keeps rows_ok (attempt_update P2 f2)"
  "keeps rows_ok (approval_update P3 f3)"
  "keeps rows_ok (schedule_run_update P4 f4)"
  "keeps rows_ok (schedule_state_update P5 f5)"
  "keeps rows_ok (link_schedule_run P6 i f6)"
  by (auto simp: keeps_def tx_simps rows_ok_def all_workflows_def all_activities_def
      link_schedule_run_def split: if_splits)

lemma rows_ok_workflow_update:
  "(\<And>r. P r \<Longrightarrow> workflow_row_ok r \<Longrightarrow> workflow_row_ok (f r)) \<Longrightarrow> keeps rows_ok (workflow_update P f)"
  by (auto simp: keeps_def tx_simps rows_ok_def all_workflows_def all_activities_def list_all_iff)

lemma rows_ok_activity_update:
  "(\<And>a. P a \<Longrightarrow> activity_row_ok a \<Longrightarrow> activity_row_ok (f a)) \<Longrightarrow> keeps rows_ok (activity_update P f)"
  by (auto simp: keeps_def tx_simps rows_ok_def all_workflows_def all_activities_def list_all_iff)

lemma rows_ok_append_event [keeps_intros]: "keeps rows_ok (append_event e)"
  by (auto simp: keeps_def append_event_Inr rows_ok_def all_workflows_def all_activities_def)

lemma workflow_row_ok_id [simp]: "workflow_row_ok (r\<lparr>wf_id := i\<rparr>) = workflow_row_ok r"
  by (simp add: workflow_row_ok_def)

lemma activity_row_ok_id [simp]: "activity_row_ok (a\<lparr>act_id := i\<rparr>) = activity_row_ok a"
  by (simp add: activity_row_ok_def)

lemma rows_ok_insert_workflow:
  assumes "workflow_row_ok row"
  shows "keeps rows_ok (insert_workflow row)"
proof (rule keepsI)
  fix s a s' assume "rows_ok s" and i: "insert_workflow row s = Inr (a, s')"
  then show "rows_ok s'"
  proof (cases a)
    case (Inserted k)
    with i have "s' = s\<lparr>workflows := workflows s @ [row\<lparr>wf_id := k\<rparr>], next_workflow_id := k + 1\<rparr>"
      by (simp add: insert_workflow_Inserted(2))
    with \<open>rows_ok s\<close> assms show ?thesis
      by (simp add: rows_ok_def all_workflows_def all_activities_def)
  next
    case DeduplicationConflict
    with i have "s' = s" by (simp add: insert_workflow_Conflict)
    with \<open>rows_ok s\<close> show ?thesis by simp
  qed
qed

lemma rows_ok_insert_activity:
  "(0 < act_max_attempts row \<Longrightarrow> activity_row_ok row) \<Longrightarrow> keeps rows_ok (insert_activity row)"
  by (auto simp: keeps_def rows_ok_def all_workflows_def all_activities_def
        dest!: insert_activity_Inr)

lemma rows_ok_insert_approval [keeps_intros]: "keeps rows_ok (insert_approval row)"
  by (auto simp: keeps_def rows_ok_def all_workflows_def all_activities_def
        dest!: insert_approval_Inr)

lemma rows_ok_insert_attempt [keeps_intros]: "keeps rows_ok (insert_attempt row)"
  by (auto simp: keeps_def rows_ok_def all_workflows_def all_activities_def
        dest!: insert_attempt_Inr)

lemma rows_ok_insert_schedule [keeps_intros]:
  "keeps rows_ok (insert_schedule_run run)"
  "keeps rows_ok (insert_schedule_state_if_absent row)"
  by (auto simp: keeps_def rows_ok_def all_workflows_def all_activities_def insert_schedule_state_Inr
        dest!: insert_schedule_run_Inr)

lemma keeps_workflow_insert [keeps_intros]:
  "(\<And>i. q = Inserted i \<Longrightarrow> keeps I (m i)) \<Longrightarrow> (q = DeduplicationConflict \<Longrightarrow> keeps I k) \<Longrightarrow>
   keeps I (case q of Inserted i \<Rightarrow> m i | DeduplicationConflict \<Rightarrow> k)"
  by (cases q) auto

lemma keeps_started [keeps_intros]:
  "(\<And>i. q = Started_Inserted i \<Longrightarrow> keeps I (m i)) \<Longrightarrow>
   (\<And>r. q = Started_Existing r \<Longrightarrow> keeps I (k r)) \<Longrightarrow>
   keeps I (case q of Started_Inserted i \<Rightarrow> m i | Started_Existing r \<Rightarrow> k r)"
  by (cases q) auto

lemma keeps_reads [keeps_intros]:
  "keeps I (find_workflow_by_id i)" "keeps I (lock_workflow_by_id i)"
  "keeps I (find_activity_by_id i)" "keeps I (find_by_deduplication_key kind key)"
  "keeps I (next_event_sequence i)"
  unfolding find_workflow_by_id_def lock_workflow_by_id_def find_activity_by_id_def
    find_by_deduplication_key_def next_event_sequence_def
  by (intro keeps_intros)+

lemma rows_ok_insert_started:
  "workflow_row_ok row \<Longrightarrow> keeps rows_ok (insert_started row)"
  unfolding insert_started_def by (intro keeps_intros rows_ok_insert_workflow)

lemmas row_ok_defs = workflow_row_ok_def activity_row_ok_def lease_columns_ok_def

lemma rows_ok_wake_loaded_parent [keeps_intros]:
  "keeps rows_ok (wake_loaded_parent_on_child_terminal E parent i kind version outcome now)"
  unfolding wake_loaded_parent_on_child_terminal_def
  by (intro keeps_intros rows_ok_workflow_update) (auto simp: row_ok_defs changes split: if_splits)

lemma rows_ok_wake_waiting_parents [keeps_intros]:
  "keeps rows_ok (wake_waiting_parents_on_child_terminal E child outcome now)"
  unfolding wake_waiting_parents_on_child_terminal_def by (intro keeps_intros)

section \<open>Transactions that cannot return\<close>

text \<open>\<open>rejects I m\<close>: from a state with \<open>I\<close> the transaction never commits.\<close>

definition rejects :: "('s \<Rightarrow> bool) \<Rightarrow> ('e, 's, 'a) tx \<Rightarrow> bool" where
  "rejects I m \<longleftrightarrow> (\<forall>s x. I s \<longrightarrow> m s \<noteq> Inr x)"

lemma rejectsI: "(\<And>s x. I s \<Longrightarrow> m s = Inr x \<Longrightarrow> False) \<Longrightarrow> rejects I m"
  by (auto simp: rejects_def)

lemma rejectsD: "rejects I m \<Longrightarrow> I s \<Longrightarrow> m s \<noteq> Inr x"
  unfolding rejects_def by blast

lemma rejects_commit: "rejects I m \<Longrightarrow> I s \<Longrightarrow> tx_commit m s = s"
  by (auto simp: rejects_def tx_commit_def split: sum.split)

lemma rejects_fail: "rejects I (tx_fail e)" "rejects I tx_diverge"
  by (auto simp: rejects_def tx_eval)

lemma rejects_first:
  "rejects I m \<Longrightarrow> rejects I (tx_bind m k)" "rejects I m \<Longrightarrow> rejects I (tx_seq m k')"
  by (auto simp: rejects_def tx_eval split: sum.splits)

lemma rejects_then:
  "keeps I m \<Longrightarrow> (\<And>a. rejects I (k a)) \<Longrightarrow> rejects I (tx_bind m k)"
  "keeps I m \<Longrightarrow> rejects I k' \<Longrightarrow> rejects I (tx_seq m k')"
  by (auto simp: rejects_def keeps_def tx_simps)

lemma rejects_if: "(b \<Longrightarrow> rejects I m) \<Longrightarrow> (\<not> b \<Longrightarrow> rejects I k) \<Longrightarrow> rejects I (if b then m else k)"
  by simp

end
