(* ===== verification/Samples.thy ===== *)
theory Samples
  imports Store
begin

text \<open>
  Concrete databases and library functions on which the theorems of the other theories are
  applied: a parent workflow waiting for a child it owns, with the child's activity.
\<close>

definition sample_externals :: externals where
  "sample_externals =
     \<lparr>event_to_json = (\<lambda>_. Some ''{}''), event_of_json = (\<lambda>_. Some Started),
      policy_to_json = (\<lambda>_. Some ''{}''), backoff_of_json = (\<lambda>_. Inr (Fixed 5)),
      error_text = (\<lambda>_. ''error''), sha256_head = (\<lambda>_. (CHR ''a'', CHR ''b''))\<rparr>"

definition sample_parent :: workflow_row where
  "sample_parent =
     (new_workflow_row ''order'' 1 ''{}'' ''{}'' 10 (Some ''k'') None None None None None 10)
       \<lparr>wf_id := 1, wf_status := WS_WaitingChild, wf_wait_kind := Some WK_Child,
        wf_wait_reference_id := Some 2, wf_command_sequence := 1, wf_delivered_event_sequence := 1\<rparr>"

definition sample_child :: workflow_row where
  "sample_child =
     (new_workflow_row ''pay'' 1 ''{}'' ''{}'' 10 (Some (child_key 1 1)) None (Some 1) None
        (Some 1) (Some 1) 10)
       \<lparr>wf_id := 2, wf_status := WS_WaitingActivity, wf_wait_kind := Some WK_Activity,
        wf_wait_reference_id := Some 1, wf_command_sequence := 1, wf_delivered_event_sequence := 1\<rparr>"

definition sample_activity :: activity_row where
  "sample_activity =
     \<lparr>act_id = 1, act_workflow_id = 2, act_command_sequence = 1, act_replacement_number = 0,
      act_kind = ''charge'', act_version = 1, act_topic = ''t'', act_payload_json = ''{}'',
      act_status = AS_Pending, act_available_at = 10, act_max_attempts = 3, act_attempt_count = 0,
      act_timeout_millis = 1000, act_lease_duration_millis = 5000, act_retry_policy_json = ''{}'',
      act_operation_key = None, act_provider_result_json = None, act_last_error_category = None,
      act_last_error_message = None, act_lease_owner = None, act_lease_token = None,
      act_lease_expires_at = None, act_root_activity_id = None, act_replaces_activity_id = None,
      act_created_at = 10, act_updated_at = 10, act_completed_at = None\<rparr>"

definition sample_db :: db where
  "sample_db =
     \<lparr>workflows = [sample_parent, sample_child],
      events = [(system_event 1 1 (Some 1) ''started'' None None 10)\<lparr>ev_id := 1\<rparr>,
                (system_event 2 1 (Some 1) ''started'' None None 10)\<lparr>ev_id := 2\<rparr>],
      activities = [sample_activity], attempts = [], approvals = [], schedule_states = [], schedule_runs = [],
      topic_locks = [\<lparr>tl_topic = ''t'', tl_max_concurrency = 1, tl_updated_at = 0\<rparr>],
      progress_events = [],
      next_workflow_id = 3, next_event_id = 3, next_activity_id = 2, next_approval_id = 1,
      next_schedule_run_id = 1,
      clock = (\<lambda>n. 100 + int n), clock_reads = 0\<rparr>"

lemmas sample_defs = sample_db_def sample_parent_def sample_child_def sample_activity_def
  new_workflow_row_def system_event_def

lemma sample_keys_ok: "keys_ok sample_db"
  by (auto simp: keys_defs sample_defs child_key_def)

lemma sample_rows_ok: "rows_ok sample_db"
  by (simp add: rows_ok_def all_workflows_def all_activities_def row_ok_defs sample_defs)

text \<open>A transaction that returned, with its result and state read off.\<close>

lemma returned: "\<not> isl x \<Longrightarrow> x = Inr (fst (projr x), snd (projr x))"
  by (cases x) auto

end
