(* ===== verification/Cascade.thy ===== *)
theory Cascade
  imports Samples
begin

text \<open>
  The loops of \<open>src/store.rs\<close> end. The walk along a restart chain ends because a successor
  has a larger id; the cancel cascade ends because each entry of its work list stands for
  a workflow it has just made terminal.
\<close>

section \<open>Transactions that insert no workflow\<close>

definition same_workflows :: "db \<Rightarrow> db \<Rightarrow> bool" where
  "same_workflows s s' \<longleftrightarrow> db_evolves s s' \<and> length (workflows s') = length (workflows s)"

interpretation no_insert: guarantee same_workflows
  by unfold_locales (auto simp: same_workflows_def evolution.refl intro: evolution.trans)

lemma same_workflows_statement:
  assumes "guarantees db_evolves m" and "\<And>s a s'. m s = Inr (a, s') \<Longrightarrow> length (workflows s') = length (workflows s)"
  shows "guarantees same_workflows m"
  using assms by (auto simp: guarantees_def same_workflows_def)

lemma same_workflows_statements [guar_intros]:
  "guarantees same_workflows database_now_millis"
  "guarantees same_workflows (append_event e)"
  "guarantees same_workflows (next_event_sequence i)"
  "guarantees same_workflows (lock_workflow_by_id i)"
  by (rule same_workflows_statement, intro guar_intros,
      auto simp: tx_simps append_event_Inr next_event_sequence_def lock_workflow_by_id_def)+

lemma same_workflows_fenced [guar_intros]:
  "guarantees same_workflows m \<Longrightarrow> guarantees same_workflows (fenced m)"
  unfolding fenced_def by (intro guar_intros)

lemma same_workflows_updates:
  "(\<And>r. P r \<Longrightarrow> workflow_evolves r (f r)) \<Longrightarrow> guarantees same_workflows (workflow_update P f)"
  "(\<And>a. P2 a \<Longrightarrow> activity_evolves a (f2 a)) \<Longrightarrow> guarantees same_workflows (activity_update P2 f2)"
  "(\<And>p. P3 p \<Longrightarrow> approval_evolves p (f3 p)) \<Longrightarrow> guarantees same_workflows (approval_update P3 f3)"
  by (rule same_workflows_statement, auto simp: tx_simps
      intro!: evolves_workflow_update evolves_activity_update evolves_approval_update)+

lemma same_workflows_cancel_activities [guar_intros]:
  "guarantees same_workflows (cancel_activities i reason outcome now)"
  unfolding cancel_activities_def
proof (intro guar_intros)
  fix a
  show "guarantees same_workflows (cancel_activity reason outcome now a)"
    unfolding cancel_activity_def
    by (cases "act_status a")
      (auto intro!: guar_intros same_workflows_updates simp: activity_evolves_def
         activity_identity_def changes)
qed

lemma same_workflows_cancel_approvals [guar_intros]:
  "guarantees same_workflows (cancel_approvals i reason now)"
  unfolding cancel_approvals_def cancel_approval_def
  by (intro guar_intros same_workflows_updates) (simp add: approval_evolves_def)

lemma same_workflows_wake [guar_intros]:
  "guarantees same_workflows (wake_waiting_parents_on_child_terminal E child outcome now)"
  unfolding wake_waiting_parents_on_child_terminal_def wake_loaded_parent_on_child_terminal_def
  by (intro guar_intros same_workflows_updates)
    (auto simp: workflow_identity_def changes dest: awaits_child_live intro!: workflow_evolves_live)

lemma same_workflows_cancel_one:
  "\<not> ws_is_terminal (wf_status w) \<Longrightarrow>
   guarantees same_workflows (cancel_one_workflow E w reason who now)"
  unfolding cancel_one_workflow_def
  by (intro guar_intros same_workflows_updates)
    (auto simp: workflow_identity_def changes intro!: workflow_evolves_live)

text \<open>Such a transaction keeps every id and every link, and can only end workflows.\<close>

definition live_count :: "db \<Rightarrow> nat" where
  "live_count s = length (filter (\<lambda>r. \<not> ws_is_terminal (wf_status r)) (workflows s))"

lemma same_workflows_nth:
  assumes "same_workflows s s'" and "i < length (workflows s)"
  shows "workflow_evolves (workflows s ! i) (workflows s' ! i)"
  using assms by (auto simp: same_workflows_def db_evolves_def rows_evolve_def)

lemma same_workflows_identity:
  assumes "same_workflows s s'"
  shows "map workflow_identity (workflows s') = map workflow_identity (workflows s)"
  using assms same_workflows_nth [OF assms]
  by (intro nth_equalityI) (auto simp: same_workflows_def workflow_evolves_def)

lemma filter_length_mono:
  "length t' = length t \<Longrightarrow> (\<And>i. i < length t \<Longrightarrow> P (t' ! i) \<Longrightarrow> P (t ! i)) \<Longrightarrow>
   length (filter P t') \<le> length (filter P t)"
proof (induction t' t rule: list_induct2)
  case (Cons x xs y ys)
  have "P x \<Longrightarrow> P y" using Cons.prems [of 0] by simp
  moreover have "length (filter P xs) \<le> length (filter P ys)"
    using Cons.prems [of "Suc i" for i] by (intro Cons.IH) auto
  ultimately show ?case by auto
qed simp

lemma live_count_mono:
  assumes "same_workflows s s'"
  shows "live_count s' \<le> live_count s"
  unfolding live_count_def
proof (rule filter_length_mono)
  show "length (workflows s') = length (workflows s)"
    using assms by (simp add: same_workflows_def)
next
  fix i assume "i < length (workflows s)" and "\<not> ws_is_terminal (wf_status (workflows s' ! i))"
  with same_workflows_nth [OF assms] show "\<not> ws_is_terminal (wf_status (workflows s ! i))"
    by (metis workflow_evolves_def)
qed

section \<open>Operations without loops\<close>

lemma keeps_True [keeps_intros]: "keeps (\<lambda>_. True) m"
  by (simp add: keeps_def)

lemma ends_statements [ends_intros]:
  "ends I database_now_millis" "ends I (workflow_update P f)" "ends I (activity_update P2 f2)"
  "ends I (attempt_update P3 f3)" "ends I (approval_update P4 f4)" "ends I (append_event e)"
  "ends I (insert_workflow row)"
  by (auto simp: ends_def database_now_millis_def workflow_update_def activity_update_def
      attempt_update_def approval_update_def append_event_def insert_workflow_def
      split: prod.split)

lemma ends_fenced [ends_intros]: "ends (\<lambda>_. True) m \<Longrightarrow> ends (\<lambda>_. True) (fenced m)"
  unfolding fenced_def by (intro ends_intros keeps_True)

lemma ends_reads [ends_intros]:
  "ends (\<lambda>_. True) (next_event_sequence i)" "ends (\<lambda>_. True) (lock_workflow_by_id i)"
  "ends (\<lambda>_. True) (find_by_deduplication_key kind key)"
  unfolding next_event_sequence_def lock_workflow_by_id_def find_by_deduplication_key_def
  by (intro ends_intros keeps_True)+

lemma ends_wake [ends_intros]:
  "ends (\<lambda>_. True) (wake_waiting_parents_on_child_terminal E child outcome now)"
  unfolding wake_waiting_parents_on_child_terminal_def wake_loaded_parent_on_child_terminal_def
  by (intro ends_intros keeps_True)

lemma ends_cancel_activities [ends_intros]:
  "ends (\<lambda>_. True) (cancel_activities i reason outcome now)"
proof -
  have "ends (\<lambda>_. True) (cancel_activity reason outcome now a)" for a
    unfolding cancel_activity_def
    by (cases "act_status a") (auto intro!: ends_intros keeps_True)
  then show ?thesis
    unfolding cancel_activities_def by (intro ends_intros keeps_True)
qed

lemma ends_cancel_approvals [ends_intros]: "ends (\<lambda>_. True) (cancel_approvals i reason now)"
  unfolding cancel_approvals_def cancel_approval_def by (intro ends_intros keeps_True)

lemma ends_cancel_one [ends_intros]: "ends (\<lambda>_. True) (cancel_one_workflow E w reason who now)"
  unfolding cancel_one_workflow_def by (intro ends_intros keeps_True)

section \<open>The restart chain\<close>

definition newer_count :: "db \<Rightarrow> i64 \<Rightarrow> nat" where
  "newer_count s i = length (filter (\<lambda>r. i < wf_id r) (workflows s))"

lemma newer_count_le: "newer_count s i \<le> length (workflows s)"
  by (simp add: newer_count_def)

lemma same_workflows_newer_count:
  assumes "same_workflows s s'"
  shows "newer_count s' i = newer_count s i"
proof -
  have "map wf_id (workflows s) = map fst (map workflow_identity (workflows s))" for s
    by (simp add: workflow_identity_def)
  then have "map wf_id (workflows s') = map wf_id (workflows s)"
    using same_workflows_identity [OF assms] by metis
  moreover have "newer_count s i = length (filter (\<lambda>k. i < k) (map wf_id (workflows s)))" for s
    by (simp add: newer_count_def filter_map comp_def)
  ultimately show ?thesis by metis
qed

lemma same_workflows_keys: "same_workflows s s' \<Longrightarrow> keys_ok s \<Longrightarrow> keys_ok s'"
  by (simp add: same_workflows_def db_evolves_def)

lemma successor_newer:
  assumes "keys_ok s" and "successor_of s i = Some r"
  shows "i < wf_id r" and "r \<in> set (workflows s)" and "newer_count s (wf_id r) < newer_count s i"
proof -
  from assms(2) have r: "r \<in> set (workflows s)" "wf_restarted_from_workflow_id r = Some i"
    by (auto simp: successor_of_def dest: find_mem)
  with assms(1) show less: "i < wf_id r"
    unfolding keys_ok_def workflow_keys_ok_def by blast
  show "r \<in> set (workflows s)" by (rule r(1))
  have "filter (\<lambda>x. wf_id r < wf_id x) (workflows s)
      = filter (\<lambda>x. wf_id r < wf_id x) (filter (\<lambda>x. i < wf_id x) (workflows s))"
    using less by (auto intro!: filter_cong)
  also have "length \<dots> < length (filter (\<lambda>x. i < wf_id x) (workflows s))"
    using r(1) less by (intro length_filter_less [of r]) auto
  finally show "newer_count s (wf_id r) < newer_count s i"
    by (simp add: newer_count_def)
qed

text \<open>A row reached from another along the restart links.\<close>

inductive generation_of :: "db \<Rightarrow> i64 \<Rightarrow> i64 \<Rightarrow> bool" for s where
  generation_refl: "generation_of s i i"
| generation_next: "generation_of s i j \<Longrightarrow> r \<in> set (workflows s) \<Longrightarrow>
    wf_restarted_from_workflow_id r = Some j \<Longrightarrow> generation_of s i (wf_id r)"

inductive_simps generation_of_iff: "generation_of s i k"

lemma generation_of_prepend:
  "generation_of s (wf_id r) k \<Longrightarrow> r \<in> set (workflows s) \<Longrightarrow>
   wf_restarted_from_workflow_id r = Some i \<Longrightarrow> generation_of s i k"
  by (induction "wf_id r" k rule: generation_of.induct) (auto intro: generation_of.intros)

lemma newest_generation_loop_total:
  assumes "keys_ok s" and "newer_count s (wf_id r) < fuel"
  shows "\<exists>n. newest_generation_loop fuel r s = Inr (n, s) \<and>
           generation_of s (wf_id r) (wf_id n) \<and> successor_of s (wf_id n) = None \<and>
           (n = r \<or> n \<in> set (workflows s))"
  using assms(2)
proof (induction fuel arbitrary: r)
  case (Suc fuel)
  show ?case
  proof (cases "successor_of s (wf_id r)")
    case None
    then show ?thesis
      by (auto simp: tx_eval lock_successor_def intro: generation_of.intros)
  next
    case (Some q)
    note newer = successor_newer [OF assms(1) Some]
    from Some have link: "wf_restarted_from_workflow_id q = Some (wf_id r)"
      by (auto simp: successor_of_def dest: find_mem)
    from newer(3) Suc.prems have "newer_count s (wf_id q) < fuel" by simp
    with Suc.IH [of q] newer(2) Some link show ?thesis
      by (auto simp: tx_eval lock_successor_def intro: generation_of_prepend)
  qed
qed simp

lemma lock_newest_generation_total:
  assumes "keys_ok s"
  shows "\<exists>n. lock_newest_generation r s = Inr (n, s) \<and>
           generation_of s (wf_id r) (wf_id n) \<and> successor_of s (wf_id n) = None \<and>
           (n = r \<or> n \<in> set (workflows s))"
proof -
  have "newer_count s (wf_id r) < Suc (length (workflows s))"
    using newer_count_le [of s "wf_id r"] by simp
  from newest_generation_loop_total [OF assms this] show ?thesis
    by (auto simp: lock_newest_generation_def tx_eval)
qed

section \<open>The cascade\<close>

lemma filter_length_strict:
  assumes "length t' = length t" and "\<And>i. i < length t \<Longrightarrow> P (t' ! i) \<Longrightarrow> P (t ! i)"
    and "k < length t" "P (t ! k)" "\<not> P (t' ! k)"
  shows "length (filter P t') < length (filter P t)"
  using assms
proof (induction t' t arbitrary: k rule: list_induct2)
  case (Cons x xs y ys)
  have imp: "P x \<Longrightarrow> P y" using Cons.prems(1) [of 0] by simp
  have tail: "\<And>i. i < length ys \<Longrightarrow> P (xs ! i) \<Longrightarrow> P (ys ! i)"
    using Cons.prems(1) [of "Suc i" for i] by auto
  show ?case
  proof (cases k)
    case 0
    with Cons.prems have "P y" "\<not> P x" by auto
    with filter_length_mono [of xs ys P] Cons.hyps tail show ?thesis by (simp add: less_Suc_eq_le)
  next
    case (Suc k')
    with Cons.prems have "length (filter P xs) < length (filter P ys)"
      by (intro Cons.IH [OF tail]) auto
    with imp show ?thesis by auto
  qed
qed simp

text \<open>Cancelling a live workflow lowers the number of live workflows.\<close>

lemma cancel_update_strict:
  assumes "fenced (workflow_update (\<lambda>r. wf_id r = i \<and> wf_status r = st)
      (\<lambda>r. workflow_lease_cleared (wait_cleared (r\<lparr>wf_status := WS_Cancelled,
              wf_updated_at := now, wf_completed_at := Some now\<rparr>)))) s = Inr (u, s')"
    and "\<not> ws_is_terminal st"
  shows "live_count s' < live_count s"
proof -
  let ?P = "\<lambda>r. wf_id r = i \<and> wf_status r = st"
  from assms(1) have one: "length (filter ?P (workflows s)) = 1"
    and s': "workflows s' = map (\<lambda>r. if ?P r then workflow_lease_cleared (wait_cleared
        (r\<lparr>wf_status := WS_Cancelled, wf_updated_at := now, wf_completed_at := Some now\<rparr>)) else r)
        (workflows s)"
    by (auto simp: tx_simps)
  from one have "filter ?P (workflows s) \<noteq> []" by (metis length_0_conv zero_neq_one)
  then obtain r where "r \<in> set (workflows s)" "?P r"
    by (auto simp: filter_empty_conv)
  then obtain k where k: "k < length (workflows s)" "?P (workflows s ! k)"
    by (auto simp: in_set_conv_nth)
  show ?thesis
    unfolding live_count_def s'
    by (rule filter_length_strict [OF _ _ k(1)]) (use k assms(2) in \<open>auto simp: changes split: if_splits\<close>)
qed

definition ends_one :: "db \<Rightarrow> db \<Rightarrow> bool" where
  "ends_one s s' \<longleftrightarrow> live_count s' < live_count s"

lemma ends_one_later:
  "guarantees same_workflows m \<Longrightarrow> guarantees ends_one k \<Longrightarrow> guarantees ends_one (tx_seq m k)"
  unfolding guarantees_def tx_seq_Inr ends_one_def
  by (meson live_count_mono order_less_le_trans)

lemma ends_one_now:
  "guarantees ends_one m \<Longrightarrow> guarantees same_workflows k \<Longrightarrow> guarantees ends_one (tx_seq m k)"
  unfolding guarantees_def tx_seq_Inr ends_one_def
  by (meson live_count_mono order_le_less_trans)

lemma cancel_one_strict:
  assumes "\<not> ws_is_terminal (wf_status w)"
  shows "guarantees ends_one (cancel_one_workflow E w reason who now)"
proof -
  have "guarantees ends_one (fenced (workflow_update (\<lambda>r. wf_id r = wf_id w \<and> wf_status r = wf_status w)
        (\<lambda>r. workflow_lease_cleared (wait_cleared (r\<lparr>wf_status := WS_Cancelled,
              wf_updated_at := now, wf_completed_at := Some now\<rparr>)))))"
    by (rule guaranteesI) (use assms cancel_update_strict in \<open>auto simp: ends_one_def\<close>)
  then show ?thesis
    unfolding cancel_one_workflow_def
    by (intro ends_one_later ends_one_now guar_intros)
qed

text \<open>
  One child: every generation it cancels is pushed on the work list, so the live workflows
  and the length of the list together do not grow.
\<close>

definition cascade_measure :: "db \<Rightarrow> (i64 \<times> string) list \<Rightarrow> nat" where
  "cascade_measure s parents = live_count s + length parents"

lemma cancel_generation_step:
  assumes "(if \<not> ws_is_terminal (wf_status g)
            then tx_seq (cancel_one_workflow E g reason who now) (tx_return ((wf_id g, reason) # ps))
            else tx_return ps) s = Inr (ps', s')"
  shows "same_workflows s s' \<and> cascade_measure s' ps' \<le> cascade_measure s ps"
proof (cases "ws_is_terminal (wf_status g)")
  case True
  with assms show ?thesis by (simp add: tx_simps no_insert.refl)
next
  case False
  with assms have "cancel_one_workflow E g reason who now s = Inr ((), s')"
    and ps': "ps' = (wf_id g, reason) # ps"
    by (auto simp: tx_simps)
  with False have "same_workflows s s'" "ends_one s s'"
    by (blast dest: guaranteesD [OF same_workflows_cancel_one] guaranteesD [OF cancel_one_strict])+
  with ps' show ?thesis by (simp add: cascade_measure_def ends_one_def)
qed

lemma cancel_generations_ends:
  assumes "keys_ok s" and "newer_count s (wf_id g) < fuel"
  shows "cancel_generations E reason who now fuel g ps s \<noteq> Inl Diverges \<and>
    (\<forall>ps' s'. cancel_generations E reason who now fuel g ps s = Inr (ps', s') \<longrightarrow>
       same_workflows s s' \<and> cascade_measure s' ps' \<le> cascade_measure s ps)"
  using assms
proof (induction fuel arbitrary: g ps s)
  case (Suc fuel)
  let ?m = "if \<not> ws_is_terminal (wf_status g)
            then tx_seq (cancel_one_workflow E g reason who now) (tx_return ((wf_id g, reason) # ps))
            else tx_return ps"
  show ?case
  proof (cases "?m s")
    case (Inl e)
    have "ends (\<lambda>_. True) ?m" by (intro ends_intros keeps_True)
    with Inl have "e \<noteq> Diverges" by (auto dest: endsD)
    with Inl show ?thesis by (simp add: tx_bind_def)
  next
    case (Inr x)
    obtain ps1 s1 where m: "?m s = Inr (ps1, s1)" using Inr by (cases x) auto
    note step = cancel_generation_step [OF m]
    then have keys: "keys_ok s1" using Suc.prems(1) by (blast intro: same_workflows_keys)
    have count: "newer_count s1 (wf_id g) < Suc fuel"
      using step Suc.prems(2) same_workflows_newer_count [of s s1 "wf_id g"] by simp
    show ?thesis
    proof (cases "successor_of s1 (wf_id g)")
      case None
      with m step show ?thesis by (simp add: tx_bind_def tx_eval lock_successor_def)
    next
      case (Some q)
      with successor_newer(3) [OF keys Some] count have "newer_count s1 (wf_id q) < fuel" by simp
      note ih = Suc.IH [OF keys this, of ps1]
      have eq: "cancel_generations E reason who now (Suc fuel) g ps s =
          cancel_generations E reason who now fuel q ps1 s1"
        using m Some by (simp add: tx_bind_def tx_query_def lock_successor_def)
      show ?thesis
        unfolding eq using ih step by (blast intro: no_insert.trans order_trans)
    qed
  qed
qed simp

lemma cancel_children_ends:
  assumes "keys_ok s" and "length (workflows s) < fuel"
  shows "cancel_children E reason who now fuel ids ps s \<noteq> Inl Diverges \<and>
    (\<forall>ps' s'. cancel_children E reason who now fuel ids ps s = Inr (ps', s') \<longrightarrow>
       same_workflows s s' \<and> cascade_measure s' ps' \<le> cascade_measure s ps)"
  using assms
proof (induction ids arbitrary: ps s)
  case Nil
  then show ?case by (simp add: tx_eval no_insert.refl)
next
  case (Cons i ids)
  show ?case
  proof (cases "workflow_by_id s i")
    case None
    then show ?thesis by (simp add: tx_eval lock_workflow_by_id_def)
  next
    case (Some g)
    have "newer_count s (wf_id g) < fuel"
      using newer_count_le [of s "wf_id g"] Cons.prems(2) by simp
    note gens = cancel_generations_ends [OF Cons.prems(1) this, of E reason who now ps]
    have eq: "cancel_children E reason who now fuel (i # ids) ps s =
        tx_bind (cancel_generations E reason who now fuel g ps)
          (cancel_children E reason who now fuel ids) s"
      using Some by (simp add: tx_eval lock_workflow_by_id_def)
    show ?thesis
    proof (cases "cancel_generations E reason who now fuel g ps s")
      case (Inl e)
      with gens show ?thesis unfolding eq by (simp add: tx_bind_def)
    next
      case (Inr x)
      then obtain ps1 s1 where m: "cancel_generations E reason who now fuel g ps s = Inr (ps1, s1)"
        by (cases x) auto
      with gens have step: "same_workflows s s1" "cascade_measure s1 ps1 \<le> cascade_measure s ps"
        by auto
      then have "keys_ok s1" "length (workflows s1) < fuel"
        using Cons.prems by (auto intro: same_workflows_keys simp: same_workflows_def)
      note ih = Cons.IH [OF this, of ps1]
      show ?thesis
        unfolding eq using m ih step
        by (simp add: tx_bind_def) (blast intro: no_insert.trans order_trans)
    qed
  qed
qed

lemma cancel_cascade_ends:
  assumes "keys_ok s" and "length (workflows s) < chain" and "cascade_measure s ps \<le> fuel"
  shows "cancel_cascade E who now chain fuel ps s \<noteq> Inl Diverges"
  using assms
proof (induction fuel arbitrary: ps s)
  case 0
  then show ?case by (simp add: cascade_measure_def tx_eval)
next
  case (Suc fuel)
  show ?case
  proof (cases ps)
    case Nil
    then show ?thesis by (simp add: tx_eval)
  next
    case (Cons p rest)
    obtain i reason where p: "p = (i, reason)" by (cases p)
    let ?m = "cancel_children E (cascade_reason i reason) who now chain (owned_children i s) rest"
    note children = cancel_children_ends [OF Suc.prems(1,2),
        of E "cascade_reason i reason" who now "owned_children i s" rest]
    have eq: "cancel_cascade E who now chain (Suc fuel) ps s =
        tx_bind ?m (cancel_cascade E who now chain fuel) s"
      using Cons p by (simp add: tx_bind_def tx_query_def)
    show ?thesis
    proof (cases "?m s")
      case (Inl e)
      with children show ?thesis unfolding eq by (simp add: tx_bind_def)
    next
      case (Inr x)
      then obtain ps1 s1 where m: "?m s = Inr (ps1, s1)" by (cases x) auto
      with children have step: "same_workflows s s1" "cascade_measure s1 ps1 \<le> cascade_measure s rest"
        by auto
      then have "keys_ok s1" "length (workflows s1) < chain"
        using Suc.prems by (auto intro: same_workflows_keys simp: same_workflows_def)
      moreover have "cascade_measure s1 ps1 \<le> fuel"
        using step(2) Suc.prems(3) Cons by (simp add: cascade_measure_def)
      ultimately show ?thesis unfolding eq using m Suc.IH by (simp add: tx_bind_def)
    qed
  qed
qed

text \<open>
  One more than the number of workflow rows is enough fuel for both loops: the chain is
  shorter than the table, and at most every other workflow enters the work list.
\<close>

lemma cancel_owned_descendants_ends:
  assumes "keys_ok s"
  shows "cancel_owned_descendants E w reason who now s \<noteq> Inl Diverges"
proof -
  let ?fuel = "Suc (length (workflows s))"
  have "live_count s \<le> length (workflows s)" by (simp add: live_count_def)
  then have "cancel_cascade E who now ?fuel ?fuel [(wf_id w, reason)] s \<noteq> Inl Diverges"
    by (intro cancel_cascade_ends [OF assms]) (simp_all add: cascade_measure_def)
  then show ?thesis
    unfolding cancel_owned_descendants_def tx_bind_def tx_query_def by simp
qed

lemma ends_cancel_owned_descendants [ends_intros]:
  "ends keys_ok (cancel_owned_descendants E w reason who now)"
  by (rule endsI) (rule cancel_owned_descendants_ends)

lemma ends_keys: "ends (\<lambda>_. True) m \<Longrightarrow> ends keys_ok m"
  by (simp add: ends_def)

lemma evolves_keys: "guarantees db_evolves m \<Longrightarrow> keeps keys_ok m"
  by (auto intro: guarantees_keeps simp: db_evolves_def)

lemma ends_lock_newest_generation [ends_intros]: "ends keys_ok (lock_newest_generation r)"
proof (rule endsI)
  fix s assume "keys_ok s"
  from lock_newest_generation_total [OF this, of r] show "lock_newest_generation r s \<noteq> Inl Diverges"
    by auto
qed

lemma ends_started [ends_intros]:
  "(\<And>i. q = Started_Inserted i \<Longrightarrow> ends I (m i)) \<Longrightarrow>
   (\<And>r. q = Started_Existing r \<Longrightarrow> ends I (k r)) \<Longrightarrow>
   ends I (case q of Started_Inserted i \<Rightarrow> m i | Started_Existing r \<Rightarrow> k r)"
  by (cases q) auto

lemma ends_workflow_insert [ends_intros]:
  "(\<And>i. q = Inserted i \<Longrightarrow> ends I (m i)) \<Longrightarrow> (q = DeduplicationConflict \<Longrightarrow> ends I k) \<Longrightarrow>
   ends I (case q of Inserted i \<Rightarrow> m i | DeduplicationConflict \<Rightarrow> k)"
  by (cases q) auto

lemma ends_insert_started [ends_intros]: "ends (\<lambda>_. True) (insert_started row)"
  unfolding insert_started_def by (intro ends_intros keeps_True)

lemma ends_insert_prepared [ends_intros]:
  "ends (\<lambda>_. True) (insert_prepared_untraced k v i st p)"
  "ends (\<lambda>_. True) (prepare_start k v i' st' p)"
  unfolding insert_prepared_untraced_def prepare_start_def by (intro ends_intros keeps_True)+

lemma ends_hand_waiting_parents [ends_intros]:
  "ends (\<lambda>_. True) (hand_waiting_parents_to_successor E w i v now)"
  unfolding hand_waiting_parents_to_successor_def reattach_parent_def
  by (intro ends_intros keeps_True)

lemma ends_cancel_with_conn: "ends keys_ok (cancel_with_conn E i reason)"
  unfolding cancel_with_conn_def Let_def cancel_locked_workflow_def
  by (intro ends_intros ends_keys [OF ends_cancel_one] evolves_keys guar_intros
      evolves_cancel_one_workflow)

lemma ends_insert_child: "ends keys_ok (insert_child c key p n root)"
  unfolding insert_child_def insert_new_child_def
  by (intro ends_intros ends_keys [OF ends_reads(2)] ends_keys [OF ends_reads(3)]
      ends_keys [OF ends_insert_started] evolves_keys guar_intros)

lemma ends_supersede_blocked: "ends keys_ok (supersede_blocked E w i v now)"
  unfolding supersede_blocked_def
  by (intro ends_intros ends_keys [OF ends_fenced] ends_keys [OF ends_reads(1)]
      ends_keys [OF ends_hand_waiting_parents] evolves_keys guar_intros evolves_workflow_update)
    (auto simp: workflow_identity_def changes intro!: workflow_evolves_live)

lemma ends_recoverable_start: "ends keys_ok (start_or_restart_recoverable E k v i st p)"
  unfolding start_or_restart_recoverable_def recoverable_start_in_def
  by (intro ends_intros ends_keys [OF ends_insert_prepared(1)] ends_keys [OF ends_insert_prepared(2)]
      ends_keys [OF ends_reads(3)] ends_supersede_blocked evolves_keys guar_intros
      evolves_activity_update)
    (auto simp: activity_evolves_def activity_identity_def changes)

text \<open>
  C10: on tables whose keys are consistent, cancellation, the recoverable start and the
  insert of a child end: they return or fail with an error of the engine, and the walks
  along restart chains and the cascade's work list never run on.
\<close>

theorem store_loops_end:
  assumes "keys_ok s"
  shows "cancel_with_conn E i reason s \<noteq> Inl Diverges \<and>
    start_or_restart_recoverable E kind version input state options s \<noteq> Inl Diverges \<and>
    insert_child child key parent command root s \<noteq> Inl Diverges"
  using endsD [OF ends_cancel_with_conn assms] endsD [OF ends_recoverable_start assms]
    endsD [OF ends_insert_child assms] by blast

theorem store_loops_end_witness:
  "cancel_with_conn sample_externals 1 ''stop'' sample_db \<noteq> Inl Diverges \<and>
   start_or_restart_recoverable sample_externals ''order'' 1 (Some ''{}'') (Some ''{}'')
     (start_with_deduplication_key StartOptions_default ''k'') sample_db \<noteq> Inl Diverges"
  using store_loops_end [OF sample_keys_ok] by blast

section \<open>The cascade reaches every owned generation\<close>

text \<open>
  \<open>dead s k\<close>: the workflow \<open>k\<close> is terminal. \<open>settled s p\<close>: so is every generation of every
  child that \<open>p\<close> owns.
\<close>

definition dead :: "db \<Rightarrow> i64 \<Rightarrow> bool" where
  "dead s k \<longleftrightarrow> (\<forall>r \<in> set (workflows s). wf_id r = k \<longrightarrow> ws_is_terminal (wf_status r))"

definition settled :: "db \<Rightarrow> i64 \<Rightarrow> bool" where
  "settled s p \<longleftrightarrow> (\<forall>c k. c \<in> set (owned_children p s) \<longrightarrow> generation_of s c k \<longrightarrow> dead s k)"

lemma same_workflows_rows:
  assumes "same_workflows s s'"
  shows "r \<in> set (workflows s) \<Longrightarrow> \<exists>r' \<in> set (workflows s'). workflow_evolves r r'"
    and "r' \<in> set (workflows s') \<Longrightarrow> \<exists>r \<in> set (workflows s). workflow_evolves r r'"
  using same_workflows_nth [OF assms] assms
  by (auto simp: in_set_conv_nth same_workflows_def) (metis nth_mem)+

lemma same_workflows_dead:
  assumes "same_workflows s s'" and "dead s k"
  shows "dead s' k"
  unfolding dead_def
proof (intro ballI impI)
  fix r' assume "r' \<in> set (workflows s')" "wf_id r' = k"
  with same_workflows_rows(2) [OF assms(1)] obtain r where
    "r \<in> set (workflows s)" "workflow_evolves r r'" by blast
  with assms(2) \<open>wf_id r' = k\<close> show "ws_is_terminal (wf_status r')"
    by (auto simp: dead_def workflow_evolves_def workflow_identity_def)
qed

lemma same_workflows_generation:
  assumes "same_workflows s s'"
  shows "generation_of s' i k \<Longrightarrow> generation_of s i k"
proof (induction rule: generation_of.induct)
  case (generation_next i j r')
  from same_workflows_rows(2) [OF assms generation_next(2)] obtain r where
    "r \<in> set (workflows s)" "workflow_identity r = workflow_identity r'"
    by (auto simp: workflow_evolves_def)
  with generation_next show ?case
    using generation_of.generation_next [of s i j r] by (auto simp: workflow_identity_def)
qed (rule generation_of.intros)

lemma same_workflows_generation_fwd:
  assumes "same_workflows s s'"
  shows "generation_of s i k \<Longrightarrow> generation_of s' i k"
proof (induction rule: generation_of.induct)
  case (generation_next i j r)
  from same_workflows_rows(1) [OF assms generation_next(2)] obtain r' where
    "r' \<in> set (workflows s')" "workflow_identity r' = workflow_identity r"
    by (auto simp: workflow_evolves_def)
  with generation_next generation_of.generation_next [of s' i j r'] show ?case
    by (auto simp: workflow_identity_def)
qed (rule generation_of.intros)

lemma same_workflows_owned:
  assumes "same_workflows s s'"
  shows "set (owned_children p s') = set (owned_children p s)"
proof -
  have ident: "owned_child p r = owned_child p r' \<and> wf_id r = wf_id r'"
    if "workflow_evolves r r'" for r r'
    using that by (auto simp: workflow_evolves_def workflow_identity_def owned_child_def
        cong: option.case_cong)
  have "wf_id r' \<in> wf_id ` {r \<in> set (workflows s). owned_child p r}"
    if "r' \<in> set (workflows s')" "owned_child p r'" for r'
    using same_workflows_rows(2) [OF assms that(1)] ident that(2) by (metis (mono_tags, lifting) image_eqI mem_Collect_eq)
  moreover have "wf_id r \<in> wf_id ` {r' \<in> set (workflows s'). owned_child p r'}"
    if "r \<in> set (workflows s)" "owned_child p r" for r
    using same_workflows_rows(1) [OF assms that(1)] ident that(2) by (metis (mono_tags, lifting) image_eqI mem_Collect_eq)
  ultimately show ?thesis by (auto simp: owned_children_def)
qed

lemma same_workflows_settled:
  "same_workflows s s' \<Longrightarrow> settled s p \<Longrightarrow> settled s' p"
  unfolding settled_def
  using same_workflows_owned same_workflows_generation same_workflows_dead by blast

text \<open>Cancelling one workflow makes it terminal and no other.\<close>

definition ends_only :: "i64 \<Rightarrow> db \<Rightarrow> db \<Rightarrow> bool" where
  "ends_only i s s' \<longleftrightarrow> same_workflows s s' \<and>
     (\<forall>k < length (workflows s). ws_is_terminal (wf_status (workflows s' ! k)) \<longrightarrow>
        ws_is_terminal (wf_status (workflows s ! k)) \<or> wf_id (workflows s ! k) = i)"

interpretation only: guarantee "ends_only i" for i
proof unfold_locales
  fix s show "ends_only i s s" by (simp add: ends_only_def no_insert.refl)
next
  fix s t u assume st: "ends_only i s t" and tu: "ends_only i t u"
  have "wf_id (workflows t ! k) = wf_id (workflows s ! k)" if "k < length (workflows s)" for k
    using same_workflows_nth [of s t k] st that
    by (simp add: ends_only_def workflow_evolves_def workflow_identity_def)
  with st tu show "ends_only i s u"
    by (auto simp: ends_only_def same_workflows_def intro: no_insert.trans
          dest: evolution.trans)
qed

lemma ends_only_dead:
  assumes "ends_only i s s'" and "\<not> dead s k" and "dead s' k"
  shows "k = i"
proof -
  from assms(2) obtain n where n: "n < length (workflows s)" "wf_id (workflows s ! n) = k"
    "\<not> ws_is_terminal (wf_status (workflows s ! n))"
    by (auto simp: dead_def in_set_conv_nth)
  from assms(1) have same: "same_workflows s s'" by (simp add: ends_only_def)
  from same_workflows_nth [OF same n(1)] n(2) have "wf_id (workflows s' ! n) = k"
    by (simp add: workflow_evolves_def workflow_identity_def)
  moreover have "workflows s' ! n \<in> set (workflows s')"
    using n(1) same by (simp add: same_workflows_def)
  ultimately have "ws_is_terminal (wf_status (workflows s' ! n))"
    using assms(3) by (simp add: dead_def)
  with assms(1) n show ?thesis by (auto simp: ends_only_def)
qed

text \<open>Statements on the other tables.\<close>

definition workflows_kept :: "db \<Rightarrow> db \<Rightarrow> bool" where
  "workflows_kept s s' \<longleftrightarrow> workflows s' = workflows s"

interpretation kept: guarantee workflows_kept
  by unfold_locales (auto simp: workflows_kept_def)

lemma kept_statements [guar_intros]:
  "guarantees workflows_kept (append_event e)" "guarantees workflows_kept database_now_millis"
  "guarantees workflows_kept (activity_update P f)" "guarantees workflows_kept (attempt_update P2 f2)"
  "guarantees workflows_kept (approval_update P3 f3)"
  by (auto simp: guarantees_def workflows_kept_def tx_simps append_event_Inr)

lemma kept_fenced [guar_intros]: "guarantees workflows_kept m \<Longrightarrow> guarantees workflows_kept (fenced m)"
  unfolding fenced_def by (intro guar_intros)

lemma kept_operations [guar_intros]:
  "guarantees workflows_kept (next_event_sequence k)"
  "guarantees workflows_kept (cancel_activity reason outcome now a)"
  "guarantees workflows_kept (cancel_approval reason now p)"
  unfolding next_event_sequence_def cancel_approval_def
  by (intro guar_intros | cases "act_status a"; auto simp: cancel_activity_def intro!: guar_intros)+

lemma kept_cancel [guar_intros]:
  "guarantees workflows_kept (cancel_activities j reason outcome now)"
  "guarantees workflows_kept (cancel_approvals j reason now)"
  unfolding cancel_activities_def cancel_approvals_def by (intro guar_intros)+

lemma ends_only_lift:
  "guarantees db_evolves m \<Longrightarrow> guarantees workflows_kept m \<Longrightarrow> guarantees (ends_only i) m"
  by (auto simp: guarantees_def ends_only_def workflows_kept_def same_workflows_def)

lemma ends_only_statements [guar_intros]:
  "guarantees (ends_only i) (append_event e)"
  "guarantees (ends_only i) (next_event_sequence k)"
  "guarantees (ends_only i) (cancel_activities j reason outcome now)"
  "guarantees (ends_only i) (cancel_approvals j reason now)"
  by (rule ends_only_lift; intro guar_intros)+

lemma ends_only_workflow_update:
  assumes "\<And>r. P r \<Longrightarrow> workflow_evolves r (f r)"
    and "\<And>r. P r \<Longrightarrow> ws_is_terminal (wf_status (f r)) \<Longrightarrow> wf_id r = i"
  shows "guarantees (ends_only i) (fenced (workflow_update P f))"
proof -
  have "guarantees same_workflows (fenced (workflow_update P f))"
    by (intro guar_intros same_workflows_updates) (rule assms)
  with assms(2) show ?thesis
    by (auto simp: guarantees_def ends_only_def tx_simps)
qed

lemma ends_only_wake [guar_intros]:
  "guarantees (ends_only i) (wake_waiting_parents_on_child_terminal E child outcome now)"
  unfolding wake_waiting_parents_on_child_terminal_def wake_loaded_parent_on_child_terminal_def
  by (intro guar_intros ends_only_workflow_update)
    (auto simp: workflow_identity_def changes dest: awaits_child_live
       intro!: workflow_evolves_live split: if_splits)

lemma ends_only_cancel_one:
  "\<not> ws_is_terminal (wf_status w) \<Longrightarrow>
   guarantees (ends_only (wf_id w)) (cancel_one_workflow E w reason who now)"
  unfolding cancel_one_workflow_def
  by (intro guar_intros ends_only_workflow_update)
    (auto simp: workflow_identity_def changes intro!: workflow_evolves_live)

lemma cancel_update_dead:
  assumes "fenced (workflow_update (\<lambda>r. wf_id r = i \<and> wf_status r = st)
      (\<lambda>r. workflow_lease_cleared (wait_cleared (r\<lparr>wf_status := WS_Cancelled,
              wf_updated_at := now, wf_completed_at := Some now\<rparr>)))) s = Inr (u, s')"
    and "keys_ok s"
  shows "dead s' i"
proof -
  let ?P = "\<lambda>r. wf_id r = i \<and> wf_status r = st"
  from assms(1) have "length (filter ?P (workflows s)) = 1"
    and s': "workflows s' = map (\<lambda>r. if ?P r then workflow_lease_cleared (wait_cleared
        (r\<lparr>wf_status := WS_Cancelled, wf_updated_at := now, wf_completed_at := Some now\<rparr>)) else r)
        (workflows s)"
    by (auto simp: tx_simps)
  then have "filter ?P (workflows s) \<noteq> []" by (metis length_0_conv zero_neq_one)
  then obtain w where w: "w \<in> set (workflows s)" "?P w"
    by (auto simp: filter_empty_conv)
  have "distinct (map wf_id (workflows s))"
    using assms(2) by (simp add: keys_ok_def workflow_keys_ok_def)
  then have "r = w" if "r \<in> set (workflows s)" "wf_id r = i" for r
    using that w by (auto simp: distinct_map inj_on_def)
  with w(2) show ?thesis by (auto simp: dead_def s' changes)
qed

text \<open>\<open>ends_in i\<close>: whatever else happened, the workflow \<open>i\<close> is terminal afterwards.\<close>

definition ends_in :: "i64 \<Rightarrow> db \<Rightarrow> db \<Rightarrow> bool" where
  "ends_in i s s' \<longleftrightarrow> (keys_ok s \<longrightarrow> dead s' i)"

lemma ends_in_later:
  "guarantees same_workflows m \<Longrightarrow> guarantees (ends_in i) k \<Longrightarrow> guarantees (ends_in i) (tx_seq m k)"
  unfolding guarantees_def tx_seq_Inr ends_in_def by (meson same_workflows_keys)

lemma ends_in_now:
  "guarantees (ends_in i) m \<Longrightarrow> guarantees same_workflows k \<Longrightarrow> guarantees (ends_in i) (tx_seq m k)"
  unfolding guarantees_def tx_seq_Inr ends_in_def by (meson same_workflows_dead)

lemma ends_in_cancel_one:
  assumes "\<not> ws_is_terminal (wf_status w)"
  shows "guarantees (ends_in (wf_id w)) (cancel_one_workflow E w reason who now)"
proof -
  have "guarantees (ends_in (wf_id w))
      (fenced (workflow_update (\<lambda>r. wf_id r = wf_id w \<and> wf_status r = wf_status w)
        (\<lambda>r. workflow_lease_cleared (wait_cleared (r\<lparr>wf_status := WS_Cancelled,
              wf_updated_at := now, wf_completed_at := Some now\<rparr>)))))"
    by (rule guaranteesI) (use cancel_update_dead in \<open>auto simp: ends_in_def\<close>)
  then show ?thesis
    unfolding cancel_one_workflow_def
    by (intro ends_in_later ends_in_now guar_intros)
qed

text \<open>
  What a part of the cascade has done when it returns: \<open>cascaded ps ps' s s'\<close> says that the
  work list grew from \<open>ps\<close> to \<open>ps'\<close> and holds every workflow that became terminal.
\<close>

definition cascaded :: "(i64 \<times> string) list \<Rightarrow> (i64 \<times> string) list \<Rightarrow> db \<Rightarrow> db \<Rightarrow> bool" where
  "cascaded ps ps' s s' \<longleftrightarrow> same_workflows s s' \<and> set ps \<subseteq> set ps' \<and>
     (\<forall>k. \<not> dead s k \<longrightarrow> dead s' k \<longrightarrow> k \<in> fst ` set ps')"

lemma cascaded_refl: "cascaded ps ps s s"
  by (simp add: cascaded_def no_insert.refl)

lemma cascaded_trans:
  assumes "cascaded ps qs s t" "cascaded qs rs t u"
  shows "cascaded ps rs s u"
  using assms unfolding cascaded_def by (blast intro: no_insert.trans)

lemma cancel_generation_cascaded:
  assumes "(if \<not> ws_is_terminal (wf_status g)
            then tx_seq (cancel_one_workflow E g reason who now) (tx_return ((wf_id g, reason) # ps))
            else tx_return ps) s = Inr (ps', s')"
    and "keys_ok s" and "g \<in> set (workflows s)"
  shows "cascaded ps ps' s s' \<and> dead s' (wf_id g)"
proof (cases "ws_is_terminal (wf_status g)")
  case True
  have "distinct (map wf_id (workflows s))"
    using assms(2) by (simp add: keys_ok_def workflow_keys_ok_def)
  then have "r = g" if "r \<in> set (workflows s)" "wf_id r = wf_id g" for r
    using that assms(3) by (auto simp: distinct_map inj_on_def)
  with True assms(1) show ?thesis by (auto simp: tx_simps cascaded_refl dead_def)
next
  case False
  with assms(1) have m: "cancel_one_workflow E g reason who now s = Inr ((), s')"
    and ps': "ps' = (wf_id g, reason) # ps"
    by (auto simp: tx_simps)
  have "ends_only (wf_id g) s s'" "ends_in (wf_id g) s s'"
    using guaranteesD [OF ends_only_cancel_one m] guaranteesD [OF ends_in_cancel_one m] False
    by blast+
  then have "same_workflows s s'" and "\<And>k. \<not> dead s k \<Longrightarrow> dead s' k \<Longrightarrow> k = wf_id g"
      and "dead s' (wf_id g)"
    using assms(2) ends_only_dead [of "wf_id g" s s'] by (auto simp: ends_in_def ends_only_def)
  with ps' show ?thesis by (auto simp: cascaded_def)
qed

lemma generation_successor:
  assumes "keys_ok s" and "generation_of s i k"
  shows "k = i \<or> (\<exists>r. successor_of s i = Some r \<and> generation_of s (wf_id r) k)"
  using assms(2)
proof (induction rule: generation_of.induct)
  case (generation_next i j q)
  from generation_next.IH show ?case
  proof
    assume "j = i"
    with generation_next have q: "q \<in> set (workflows s)" "wf_restarted_from_workflow_id q = Some i"
      by simp_all
    then obtain r where r: "successor_of s i = Some r"
      unfolding successor_of_def by (cases "find (\<lambda>r. wf_restarted_from_workflow_id r = Some i) (workflows s)")
        (auto simp: find_None)
    then have "r \<in> set (workflows s)" "wf_restarted_from_workflow_id r = Some i"
      by (auto simp: successor_of_def dest: find_mem)
    with q assms(1) have "wf_id r = wf_id q"
      unfolding keys_ok_def workflow_keys_ok_def by (metis sql_eq_Some(1))
    with r show ?thesis by (auto intro: generation_of.intros)
  qed (use generation_next in \<open>auto intro: generation_of.intros\<close>)
qed simp

lemma cancel_generations_cascaded:
  assumes "cancel_generations E reason who now fuel g ps s = Inr (ps', s')"
    and "keys_ok s" and "g \<in> set (workflows s)"
  shows "cascaded ps ps' s s' \<and> (\<forall>k. generation_of s (wf_id g) k \<longrightarrow> dead s' k)"
  using assms
proof (induction fuel arbitrary: g ps s)
  case 0
  then show ?case by (simp add: tx_simps)
next
  case (Suc fuel)
  from Suc.prems(1) obtain ps1 s1 where m: "(if \<not> ws_is_terminal (wf_status g)
            then tx_seq (cancel_one_workflow E g reason who now) (tx_return ((wf_id g, reason) # ps))
            else tx_return ps) s = Inr (ps1, s1)"
    and rest: "(case successor_of s1 (wf_id g) of
         Some q \<Rightarrow> cancel_generations E reason who now fuel q ps1
       | None \<Rightarrow> tx_return ps1) s1 = Inr (ps', s')"
    by (auto simp: tx_simps lock_successor_def)
  note step = cancel_generation_cascaded [OF m Suc.prems(2,3)]
  then have same: "same_workflows s s1" by (simp add: cascaded_def)
  then have keys: "keys_ok s1" using Suc.prems(2) by (rule same_workflows_keys)
  show ?case
  proof (cases "successor_of s1 (wf_id g)")
    case None
    with rest have "ps' = ps1" "s' = s1" by (auto simp: tx_simps)
    moreover have "k = wf_id g" if "generation_of s (wf_id g) k" for k
      using generation_successor [OF keys same_workflows_generation_fwd [OF same that]] None by auto
    ultimately show ?thesis using step by blast
  next
    case (Some q)
    with rest have "cancel_generations E reason who now fuel q ps1 s1 = Inr (ps', s')" by simp
    from Suc.IH [OF this keys successor_newer(2) [OF keys Some]]
    have ih: "cascaded ps1 ps' s1 s'" "\<forall>k. generation_of s1 (wf_id q) k \<longrightarrow> dead s' k" by auto
    have "dead s' k" if "generation_of s (wf_id g) k" for k
      using generation_successor [OF keys same_workflows_generation_fwd [OF same that]] Some ih step
      by (auto simp: cascaded_def intro: same_workflows_dead)
    with ih(1) step show ?thesis by (blast intro: cascaded_trans)
  qed
qed

lemma cancel_children_cascaded:
  assumes "cancel_children E reason who now fuel ids ps s = Inr (ps', s')" and "keys_ok s"
  shows "cascaded ps ps' s s' \<and>
    (\<forall>c \<in> set ids. \<forall>k. generation_of s' c k \<longrightarrow> dead s' k)"
  using assms
proof (induction ids arbitrary: ps s)
  case Nil
  then show ?case by (simp add: tx_simps cascaded_refl)
next
  case (Cons c ids)
  from Cons.prems(1) obtain g ps1 s1 where g: "workflow_by_id s c = Some g"
    and m: "cancel_generations E reason who now fuel g ps s = Inr (ps1, s1)"
    and rest: "cancel_children E reason who now fuel ids ps1 s1 = Inr (ps', s')"
    by (auto simp: tx_simps lock_workflow_by_id_def)
  from g have mem: "g \<in> set (workflows s)" "wf_id g = c"
    by (auto simp: workflow_by_id_def dest: find_key_mem)
  note step = cancel_generations_cascaded [OF m Cons.prems(2) mem(1)]
  then have same: "same_workflows s s1" by (simp add: cascaded_def)
  note ih = Cons.IH [OF rest same_workflows_keys [OF same Cons.prems(2)]]
  then have same': "same_workflows s1 s'" by (simp add: cascaded_def)
  have "dead s' k" if "generation_of s' c k" for k
    using step mem(2) same_workflows_generation [OF same same_workflows_generation [OF same' that]]
      same_workflows_dead [OF same'] by blast
  with ih step show ?case by (auto intro: cascaded_trans)
qed

lemma cancel_cascade_settled:
  assumes "cancel_cascade E who now chain fuel ps s = Inr (u, s')" and "keys_ok s"
  shows "same_workflows s s' \<and> (\<forall>p \<in> fst ` set ps. settled s' p) \<and>
    (\<forall>k. \<not> dead s k \<longrightarrow> dead s' k \<longrightarrow> settled s' k)"
  using assms
proof (induction fuel arbitrary: ps s)
  case 0
  then show ?case by (cases ps) (auto simp: tx_simps no_insert.refl)
next
  case (Suc fuel)
  show ?case
  proof (cases ps)
    case Nil
    with Suc.prems show ?thesis by (auto simp: tx_simps no_insert.refl)
  next
    case (Cons p rest)
    obtain i reason where p: "p = (i, reason)" by (cases p)
    from Suc.prems(1) Cons p obtain ps1 s1 where
        m: "cancel_children E (cascade_reason i reason) who now chain (owned_children i s) rest s
          = Inr (ps1, s1)"
      and after: "cancel_cascade E who now chain fuel ps1 s1 = Inr (u, s')"
      by (auto simp: tx_simps)
    note step = cancel_children_cascaded [OF m Suc.prems(2)]
    then have same: "same_workflows s s1" by (simp add: cascaded_def)
    note ih = Suc.IH [OF after same_workflows_keys [OF same Suc.prems(2)]]
    have "settled s1 i"
      using step same_workflows_owned [OF same] by (auto simp: settled_def)
    then have "settled s' i" using ih by (blast intro: same_workflows_settled)
    moreover have "settled s' q" if "q \<in> fst ` set rest" for q
      using that step ih unfolding cascaded_def by blast
    moreover have "settled s' k" if "\<not> dead s k" "dead s' k" for k
    proof (cases "dead s1 k")
      case True
      with that step have "k \<in> fst ` set ps1" by (simp add: cascaded_def)
      with ih show ?thesis by blast
    next
      case False
      with that ih show ?thesis by blast
    qed
    ultimately show ?thesis using Cons p same ih by (auto intro: no_insert.trans)
  qed
qed

section \<open>Properties\<close>

lemma cancel_locked_settled:
  assumes "cancel_locked_workflow E w reason who now s = Inr (u, s')" and "keys_ok s"
    and "\<not> ws_is_terminal (wf_status w)"
  shows "dead s' (wf_id w) \<and> settled s' (wf_id w) \<and>
    (\<forall>k. \<not> dead s k \<longrightarrow> dead s' k \<longrightarrow> settled s' k)"
proof -
  from assms(1) obtain v s1 where one: "cancel_one_workflow E w reason who now s = Inr (v, s1)"
    and rest: "cancel_owned_descendants E w reason who now s1 = Inr (u, s')"
    by (auto simp: cancel_locked_workflow_def tx_simps)
  have only: "ends_only (wf_id w) s s1" and "ends_in (wf_id w) s s1"
    using guaranteesD [OF ends_only_cancel_one one] guaranteesD [OF ends_in_cancel_one one] assms(3)
    by blast+
  then have same: "same_workflows s s1" and dead: "dead s1 (wf_id w)"
    using assms(2) by (simp_all add: ends_only_def ends_in_def)
  from rest have "cancel_cascade E who now (Suc (length (workflows s1))) (Suc (length (workflows s1)))
      [(wf_id w, reason)] s1 = Inr (u, s')"
    unfolding cancel_owned_descendants_def tx_bind_def tx_query_def by simp
  note casc = cancel_cascade_settled [OF this same_workflows_keys [OF same assms(2)]]
  have "settled s' k" if "\<not> dead s k" "dead s' k" for k
    using casc that ends_only_dead [OF only that(1)] by (cases "dead s1 k") auto
  with casc dead show ?thesis by (auto intro: same_workflows_dead)
qed

text \<open>
  C7: cancelling a live workflow makes it terminal and reaches every generation of every
  child it owns; the same holds for every workflow the cancellation ended on the way, so
  no live generation of an owned descendant is left behind (G11).
\<close>

theorem cancel_reaches_every_owned_generation:
  assumes "cancel_with_conn E i reason s = Inr (u, s')" and "keys_ok s" and "\<not> dead s i"
  shows "dead s' i \<and> settled s' i \<and> (\<forall>k. \<not> dead s k \<longrightarrow> dead s' k \<longrightarrow> settled s' k)"
proof -
  from assms(3) obtain r where r: "r \<in> set (workflows s)" "wf_id r = i"
      "\<not> ws_is_terminal (wf_status r)"
    by (auto simp: dead_def)
  moreover have "distinct (map wf_id (workflows s))"
    using assms(2) by (simp add: keys_ok_def workflow_keys_ok_def)
  ultimately have "workflow_by_id s i = Some r"
    unfolding workflow_by_id_def by (metis find_key_distinct)
  with assms(1) r(3) obtain now n reason' where
    "cancel_locked_workflow E r reason' None now (s\<lparr>clock_reads := n\<rparr>) = Inr (u, s')"
    by (auto simp: cancel_with_conn_def Let_def tx_simps split: if_splits)
  moreover have "keys_ok (s\<lparr>clock_reads := n\<rparr>)" using assms(2) by (simp add: keys_ok_def)
  moreover have "dead (s\<lparr>clock_reads := n\<rparr>) k = dead s k" for k by (simp add: dead_def)
  ultimately show ?thesis using cancel_locked_settled r by metis
qed

theorem cancel_reaches_every_owned_generation_witness:
  "let s' = snd (projr (cancel_with_conn sample_externals 1 ''stop'' sample_db))
   in dead s' 1 \<and> dead s' 2 \<and> settled s' 1 \<and> settled s' 2"
proof -
  let ?m = "cancel_with_conn sample_externals 1 ''stop''"
  let ?s = "snd (projr (?m sample_db))"
  have "\<not> isl (?m sample_db)" by code_simp
  note run = returned [OF this]
  have "\<not> dead sample_db 1" "\<not> dead sample_db 2"
    by (simp_all add: dead_def sample_defs)
  with cancel_reaches_every_owned_generation [OF run sample_keys_ok]
  have "dead ?s 1" "settled ?s 1" "dead ?s 2 \<Longrightarrow> settled ?s 2" by blast+
  moreover have "dead ?s 2"
    unfolding dead_def by code_simp
  ultimately show ?thesis by simp
qed

section \<open>Deduplicated starts\<close>

lemma insert_started_cases:
  assumes "insert_started row s = Inr (x, s')"
  obtains (inserted) i s1 where "insert_workflow row s = Inr (Inserted i, s1)"
      "x = Started_Inserted i" "workflows s' = workflows s1"
  | (existing) key r where "insert_workflow row s = Inr (DeduplicationConflict, s')"
      "wf_deduplication_key row = Some key"
      "find (\<lambda>q. wf_kind q = wf_kind row \<and> wf_deduplication_key q = Some key) (workflows s') = Some r"
      "x = Started_Existing r"
proof -
  from assms obtain q s1 where q: "insert_workflow row s = Inr (q, s1)"
    unfolding insert_started_def tx_bind_Inr by blast
  show ?thesis
  proof (cases q)
    case (Inserted i)
    with q assms have "x = Started_Inserted i \<and> workflows s' = workflows s1"
      by (auto simp: insert_started_def tx_bind_def [of "insert_workflow row"] tx_simps append_event_Inr)
    with q Inserted inserted show ?thesis by blast
  next
    case DeduplicationConflict
    let ?find = "\<lambda>key. find (\<lambda>q. wf_kind q = wf_kind row \<and> wf_deduplication_key q = Some key) (workflows s1)"
    have "\<exists>key r. wf_deduplication_key row = Some key \<and> ?find key = Some r \<and>
        x = Started_Existing r \<and> s' = s1"
    proof (cases "wf_deduplication_key row")
      case None
      with q DeduplicationConflict assms show ?thesis by (simp add: insert_started_def tx_eval)
    next
      case (Some key)
      with q DeduplicationConflict assms show ?thesis
        by (cases "?find key") (simp_all add: insert_started_def tx_eval find_by_deduplication_key_def)
    qed
    with q DeduplicationConflict existing show ?thesis by blast
  qed
qed

lemma insert_started_Inserted:
  "insert_started row s = Inr (Started_Inserted i, s') \<Longrightarrow>
   workflows s' = workflows s @ [row\<lparr>wf_id := i\<rparr>]"
  by (erule insert_started_cases) (auto dest: insert_workflow_Inserted(2))

lemma insert_started_Existing:
  "insert_started row s = Inr (Started_Existing r, s') \<Longrightarrow>
   r \<in> set (workflows s) \<and> wf_kind r = wf_kind row \<and>
   wf_deduplication_key r = wf_deduplication_key row \<and> s' = s"
  by (erule insert_started_cases) (auto dest!: insert_workflow_Conflict find_mem)

lemma insert_prepared_key:
  assumes "insert_prepared_untraced kind version input_json state_json options s = Inr (out, s')"
    and key: "so_deduplication_key options = Some key"
  shows "\<exists>r \<in> set (workflows s'). wf_kind r = kind \<and> wf_deduplication_key r = Some key \<and>
           wf_id r = out_workflow_id out"
    and "(\<exists>r \<in> set (workflows s). wf_kind r = kind \<and> wf_deduplication_key r = Some key) \<Longrightarrow>
           s' = s \<and> \<not> out_inserted out"
proof -
  let ?P = "\<lambda>r. wf_kind r = kind \<and> wf_deduplication_key r = Some key"
  show "\<exists>r \<in> set (workflows s'). wf_kind r = kind \<and> wf_deduplication_key r = Some key \<and>
           wf_id r = out_workflow_id out"
  proof (cases "find ?P (workflows s)")
    case (Some r)
    then have "s' = s" "out_workflow_id out = wf_id r"
      using assms by (auto simp: insert_prepared_untraced_def find_by_deduplication_key_def tx_simps)
    with find_mem [OF Some] show ?thesis by auto
  next
    case None
    let ?row = "\<lambda>now. new_workflow_row kind version input_json state_json
             (case so_available_at options of None \<Rightarrow> now | Some at \<Rightarrow> at)
             (Some key) (so_schedule_run_id options) (so_root_workflow_id options)
             (so_restarted_from_workflow_id options) None None now"
    define s0 where "s0 = s\<lparr>clock_reads := Suc (clock_reads s)\<rparr>"
    have s0: "workflows s0 = workflows s" by (simp add: s0_def)
    define now where "now = clock s (clock_reads s)"
    from None obtain s1 started where
          ins: "insert_started (?row now) s0 = Inr (started, s1)"
      and ret: "(case started of
           Started_Inserted i \<Rightarrow> (tx_return :: _ \<Rightarrow> start_outcome dtx) \<lparr>out_workflow_id = i, out_inserted = True\<rparr>
         | Started_Existing r \<Rightarrow> tx_return \<lparr>out_workflow_id = wf_id r, out_inserted = False\<rparr>) s1
         = Inr (out, s')"
      using assms unfolding s0_def now_def
      by (auto simp: insert_prepared_untraced_def find_by_deduplication_key_def tx_simps)
    from ret have [simp]: "s1 = s'" and out: "out_workflow_id out =
        (case started of Started_Inserted i \<Rightarrow> i | Started_Existing r \<Rightarrow> wf_id r)"
      by (cases started; auto simp: tx_simps)+
    from None have no: "\<not> (\<exists>r \<in> set (workflows s). ?P r)" by (simp add: find_None)
    show ?thesis
    proof (cases started)
      case (Started_Inserted i)
      with ins have "\<exists>r \<in> set (workflows s'). ?P r \<and> wf_id r = i"
        by (auto simp: insert_started_Inserted new_workflow_row_def)
      with Started_Inserted out show ?thesis by simp
    next
      case (Started_Existing r)
      with ins s0 have "r \<in> set (workflows s)" "?P r"
        using insert_started_Existing [of "?row now" s0 r s'] by (auto simp: new_workflow_row_def)
      with no show ?thesis by blast
    qed
  qed
  show "s' = s \<and> \<not> out_inserted out" if "\<exists>r \<in> set (workflows s). ?P r"
  proof -
    from that obtain r where "find ?P (workflows s) = Some r"
      by (cases "find ?P (workflows s)") (auto simp: find_None)
    with assms show ?thesis
      by (auto simp: insert_prepared_untraced_def find_by_deduplication_key_def tx_simps)
  qed
qed

lemma db_evolves_keys: "db_evolves s s' \<Longrightarrow> keys_ok s \<Longrightarrow> keys_ok s'"
  by (simp add: db_evolves_def)

text \<open>
  C9: a deduplication key names one workflow for ever. Once a start with a key has
  returned, every later start of the same kind with that key, whatever happened to the
  database in between, writes nothing and returns the same workflow (S18).
\<close>

theorem start_key_is_permanent:
  assumes "start kind version input state options s = Inr (out, s')"
    and "so_deduplication_key options = Some key" and "keys_ok s" and "db_evolves s' t"
    and "start kind version2 input2 state2 options2 t = Inr (out2, t')"
    and "so_deduplication_key options2 = Some key"
  shows "t' = t \<and> out_workflow_id out2 = out_workflow_id out \<and> \<not> out_inserted out2"
proof -
  have run: "\<exists>i j. insert_prepared_untraced k v i j p u = Inr (w, u')"
    if "start k v inp st p u = Inr (w, u')" for k v inp st p u w u'
    using that by (auto simp: start_def prepare_start_def tx_simps)
  from run [OF assms(1)] insert_prepared_key(1) [OF _ assms(2)] obtain r where
    r: "r \<in> set (workflows s')" "wf_kind r = kind" "wf_deduplication_key r = Some key"
      "wf_id r = out_workflow_id out" by blast
  have "guarantees db_evolves (start kind version input state options)" by (intro guar_intros)
  with assms(1,3) have "keys_ok s'" by (blast dest: guaranteesD intro: db_evolves_keys)
  with assms(4) have keys: "keys_ok t" by (blast intro: db_evolves_keys)
  from assms(4) r obtain q where
    q: "q \<in> set (workflows t)" "wf_kind q = kind" "wf_deduplication_key q = Some key"
      "wf_id q = out_workflow_id out"
    using rows_evolve_mem [of workflow_evolves "workflows s'" "workflows t" r]
    by (auto simp: db_evolves_def workflow_evolves_def workflow_identity_def)
  from run [OF assms(5)] obtain i j where
    second: "insert_prepared_untraced kind version2 i j options2 t = Inr (out2, t')" by blast
  with insert_prepared_key(2) [OF second assms(6)] q have same: "t' = t" "\<not> out_inserted out2"
    by blast+
  from insert_prepared_key(1) [OF second assms(6)] same(1) obtain q2 where
    q2: "q2 \<in> set (workflows t)" "wf_kind q2 = kind" "wf_deduplication_key q2 = Some key"
      "wf_id q2 = out_workflow_id out2" by blast
  from keys q q2 have "wf_id q = wf_id q2"
    unfolding keys_ok_def workflow_keys_ok_def by (metis sql_eq_Some(1))
  with same q q2 show ?thesis by simp
qed

theorem start_key_is_permanent_witness:
  "let run = start ''order'' 1 (Some ''{}'') (Some ''{}'')
         (start_with_deduplication_key StartOptions_default ''new'');
       s' = snd (projr (run sample_db))
   in out_workflow_id (fst (projr (run s'))) = out_workflow_id (fst (projr (run sample_db))) \<and>
      \<not> out_inserted (fst (projr (run s')))"
proof -
  let ?options = "start_with_deduplication_key StartOptions_default ''new''"
  let ?run = "start ''order'' 1 (Some ''{}'') (Some ''{}'') ?options"
  have key: "so_deduplication_key ?options = Some ''new''"
    by (simp add: so_deduplication_key_def start_with_deduplication_key_def)
  have "\<not> isl (?run sample_db)" by code_simp
  note first = returned [OF this]
  have "\<not> isl (?run (snd (projr (?run sample_db))))" by code_simp
  note second = returned [OF this]
  from start_key_is_permanent [OF first key sample_keys_ok evolution.refl second key]
  show ?thesis by simp
qed

text \<open>
  The key the engine generates for a child it owns identifies the parent and the
  command: two commands of one workflow, or of two workflows, never share a child.
\<close>

lemma child_keys_are_distinct:
  "child_key p c = child_key q d \<longleftrightarrow> p = q \<and> c = d"
proof -
  have "p = q \<and> c = d" if "child_key p c = child_key q d"
  proof -
    from that have "dec_int p @ CHR '':'' # dec_int c = dec_int q @ CHR '':'' # dec_int d"
      by (simp add: child_key_def)
    from sep_split_unique [OF this dec_int_no_colon dec_int_no_colon] show ?thesis
      by (simp add: dec_int_inj)
  qed
  then show ?thesis by auto
qed

end
