(* ===== verification/Coordinator.thy ===== *)
theory Coordinator
  imports Cascade
begin

text \<open>
  The workflow coordinator (\<open>src/runtime/coordinator.rs\<close>): claiming one workflow under a
  lease, with recovery of expired leases (T-C1), committing the transition a step
  returned (T-C2), and recording a failed activation (T-C3).

  Three things come from outside the transactions and are arguments: the set of rows that
  other transactions hold when a \<open>SKIP LOCKED\<close> read runs, the fresh lease token
  (\<open>Uuid::new_v4\<close>), and what the application's \<open>step\<close> function returned.
\<close>

section \<open>Configuration\<close>

text \<open>A \<open>Duration\<close> in nanoseconds, and its whole milliseconds.\<close>

type_synonym nanos = int

definition as_millis :: "nanos \<Rightarrow> duration" where
  "as_millis d = d div 1000000"

record coordinator_config =
  lease_duration :: nanos
  max_activation_attempts :: u32
  activation_retry_policy :: retry_policy
  max_consecutive_continuations :: u32
  continuation_delay :: nanos
  step_timeout :: nanos

definition CoordinatorConfig_default :: coordinator_config where
  "CoordinatorConfig_default =
     \<lparr>lease_duration = 30 * 10 ^ 9, max_activation_attempts = 8,
      activation_retry_policy = \<lparr>backoff = Exponential 1 60 20\<rparr>,
      max_consecutive_continuations = 16, continuation_delay = 100 * 10 ^ 6,
      step_timeout = 20 * 10 ^ 9\<rparr>"

definition CoordinatorConfig_validate :: "coordinator_config \<Rightarrow> durable_error + unit" where
  "CoordinatorConfig_validate config =
     (if lease_duration config = 0 \<or> max_activation_attempts config = 0 \<or>
         max_consecutive_continuations config = 0 \<or> continuation_delay config = 0 \<or>
         step_timeout config = 0
      then Inl (InvalidDefinition ''coordinator bounds must be non-zero'')
      else if lease_duration config \<le> step_timeout config
      then Inl (InvalidDefinition ''step_timeout must be shorter than lease_duration'')
      else Inr ())"

definition WorkflowCoordinator_new :: "string \<Rightarrow> coordinator_config \<Rightarrow> durable_error + unit" where
  "WorkflowCoordinator_new worker_id config =
     (if worker_id = [] then Inl (InvalidDefinition ''coordinator identity must be non-empty'')
      else CoordinatorConfig_validate config)"

text \<open>\<open>i32::try_from(n).unwrap_or(i32::MAX)\<close>.\<close>

definition i32_or_max :: "u32 \<Rightarrow> i32" where
  "i32_or_max n = (case i32_try_from n of None \<Rightarrow> max_signed 32 | Some m \<Rightarrow> m)"

section \<open>History\<close>

definition append_history :: "i64 \<Rightarrow> string \<Rightarrow> db_millis \<Rightarrow> unit dtx" where
  "append_history workflow_id event_type created_at =
     tx_bind (next_event_sequence workflow_id) (\<lambda>sequence.
     append_event (system_event workflow_id sequence None event_type None None created_at))"

section \<open>Claims (T-C1)\<close>

record claimed_row =
  cl_row :: workflow_row
  cl_lease_token :: string

text \<open>
  The scan for expired leases reads pages of 32 candidates in the order of expiry and id,
  each page after the last candidate of the one before, and relocks each candidate.
\<close>

definition expired_candidates ::
    "db_millis \<Rightarrow> (db_millis \<times> i64) option \<Rightarrow> db \<Rightarrow> (db_millis \<times> i64) list" where
  "expired_candidates now cursor s =
     sort (map (\<lambda>r. (the (wf_lease_expires_at r), wf_id r))
       (filter (\<lambda>r. wf_status r = WS_Running \<and> sql_le (wf_lease_expires_at r) now \<and>
          (case cursor of
             None \<Rightarrow> True
           | Some (expiry, i) \<Rightarrow>
               sql_gt (wf_lease_expires_at r) expiry \<or>
               wf_lease_expires_at r = Some expiry \<and> i < wf_id r)) (workflows s)))"

definition relock_expired :: "(i64 \<Rightarrow> bool) \<Rightarrow> db_millis \<Rightarrow> db \<Rightarrow> i64 \<Rightarrow> workflow_row option" where
  "relock_expired held now s i =
     (if held i then None
      else case workflow_by_id s i of
        None \<Rightarrow> None
      | Some r \<Rightarrow>
          if wf_status r = WS_Running \<and> sql_le (wf_lease_expires_at r) now then Some r else None)"

fun first_some :: "('a \<Rightarrow> 'b option) \<Rightarrow> 'a list \<Rightarrow> 'b option" where
  "first_some f [] = None"
| "first_some f (x # xs) = (case f x of Some y \<Rightarrow> Some y | None \<Rightarrow> first_some f xs)"

fun scan_expired ::
    "(i64 \<Rightarrow> bool) \<Rightarrow> db_millis \<Rightarrow> nat \<Rightarrow> (db_millis \<times> i64) option \<Rightarrow> workflow_row option dtx" where
  "scan_expired held now 0 cursor = tx_diverge"
| "scan_expired held now (Suc fuel) cursor =
     tx_bind (tx_query (\<lambda>s. take 32 (expired_candidates now cursor s))) (\<lambda>page.
     if page = [] then tx_return None
     else
       tx_bind (tx_query (\<lambda>s. first_some (\<lambda>(_, i). relock_expired held now s i) page)) (\<lambda>found.
       case found of
         Some r \<Rightarrow> tx_return (Some r)
       | None \<Rightarrow>
           if length page < 32 then tx_return None
           else scan_expired held now fuel (Some (last page))))"

definition recover_expired :: "db_millis \<Rightarrow> workflow_row \<Rightarrow> unit dtx" where
  "recover_expired now expired =
     tx_seq (fenced (workflow_update
       (\<lambda>r. wf_id r = wf_id expired \<and> wf_status r = WS_Running \<and>
            sql_eq (wf_lease_token r) (wf_lease_token expired))
       (\<lambda>r. workflow_lease_cleared (r\<lparr>wf_status := WS_Ready, wf_available_at := now,
                                     wf_updated_at := now\<rparr>))))
     (append_history (wf_id expired) ''lease_recovered'' now)"

definition ready_candidates :: "definition_key list \<Rightarrow> db_millis \<Rightarrow> db \<Rightarrow> i64 list" where
  "ready_candidates definitions now s =
     map snd (take 32 (sort (map (\<lambda>r. (wf_available_at r, wf_id r))
       (filter (\<lambda>r. (wf_kind r, wf_version r) \<in> set definitions \<and> wf_status r = WS_Ready \<and>
                    wf_available_at r \<le> now) (workflows s)))))"

definition relock_ready :: "(i64 \<Rightarrow> bool) \<Rightarrow> db_millis \<Rightarrow> db \<Rightarrow> i64 \<Rightarrow> workflow_row option" where
  "relock_ready held now s i =
     (if held i then None
      else find (\<lambda>r. wf_id r = i \<and> wf_status r = WS_Ready \<and> wf_available_at r \<le> now) (workflows s))"

definition lease_ready ::
    "string \<Rightarrow> string \<Rightarrow> db_millis \<Rightarrow> db_millis \<Rightarrow> workflow_row \<Rightarrow> claimed_row dtx" where
  "lease_ready worker_id lease_token lease_expires_at now row =
     tx_seq (fenced (workflow_update
       (\<lambda>r. wf_id r = wf_id row \<and> wf_status r = WS_Ready)
       (\<lambda>r. r\<lparr>wf_status := WS_Running, wf_lease_owner := Some worker_id,
             wf_lease_token := Some lease_token, wf_lease_expires_at := Some lease_expires_at,
             wf_updated_at := now\<rparr>)))
     (tx_return \<lparr>cl_row = row\<lparr>wf_status := WS_Running, wf_lease_token := Some lease_token,
                            wf_lease_expires_at := Some lease_expires_at\<rparr>,
                 cl_lease_token = lease_token\<rparr>)"

definition claim_row ::
    "(i64 \<Rightarrow> bool) \<Rightarrow> coordinator_config \<Rightarrow> string \<Rightarrow> definition_key list \<Rightarrow> string \<Rightarrow>
     claimed_row option dtx" where
  "claim_row held config worker_id definitions lease_token =
     tx_bind (tx_lift (duration_millis (as_millis (lease_duration config)))) (\<lambda>lease_millis.
     tx_bind database_now_millis (\<lambda>now.
     tx_bind (tx_some (InvalidDefinition ''workflow lease timestamp overflow'')
       (checked_plus_millis now lease_millis)) (\<lambda>lease_expires_at.
     tx_bind (tx_query (\<lambda>s. Suc (length (workflows s)))) (\<lambda>fuel.
     tx_bind (scan_expired held now fuel None) (\<lambda>expired.
     tx_seq (case expired of None \<Rightarrow> tx_return () | Some e \<Rightarrow> recover_expired now e)
     (if definitions = [] then tx_return None
      else
        tx_bind (tx_query (\<lambda>s. first_some (relock_ready held now s)
          (ready_candidates definitions now s))) (\<lambda>ready.
        case ready of
          None \<Rightarrow> tx_return None
        | Some row \<Rightarrow>
            tx_bind (lease_ready worker_id lease_token lease_expires_at now row) (\<lambda>claim.
            tx_return (Some claim)))))))))"

section \<open>Commits (T-C2)\<close>

text \<open>\<open>fenced_workflow!\<close>: the claimed row, still running under the claim's token.\<close>

definition fenced_workflow :: "claimed_row \<Rightarrow> workflow_row \<Rightarrow> bool" where
  "fenced_workflow claim r \<longleftrightarrow>
     wf_id r = wf_id (cl_row claim) \<and> wf_status r = WS_Running \<and>
     wf_lease_token r = Some (cl_lease_token claim)"

definition lock_fence :: "claimed_row \<Rightarrow> i64 dtx" where
  "lock_fence claim =
     tx_bind (tx_query (\<lambda>s. find (fenced_workflow claim) (workflows s))) (\<lambda>found.
     tx_bind (tx_some FencedWrite found) (\<lambda>r. tx_return (wf_id r)))"

text \<open>The columns every transition writes: the event is consumed and the claim released.\<close>

definition activation_consumed :: "i32 \<Rightarrow> db_millis \<Rightarrow> workflow_row \<Rightarrow> workflow_row" where
  "activation_consumed delivered now r =
     workflow_lease_cleared (r\<lparr>wf_delivered_event_sequence := delivered, wf_activation_attempts := 0,
       wf_error_category := None, wf_error_message := None, wf_updated_at := now\<rparr>)"

text \<open>The columns a command writes beside its status and wait.\<close>

definition command_committed ::
    "claimed_row \<Rightarrow> i32 \<Rightarrow> i32 \<Rightarrow> string \<Rightarrow> db_millis \<Rightarrow> workflow_row \<Rightarrow> workflow_row" where
  "command_committed claim delivered command state_json now r =
     activation_consumed delivered now (r\<lparr>wf_state_json := state_json,
       wf_state_version := saturating_add 32 (wf_state_version (cl_row claim)) 1,
       wf_command_sequence := command, wf_consecutive_continuations := 0\<rparr>)"

definition commit_continue ::
    "coordinator_config \<Rightarrow> claimed_row \<Rightarrow> i32 \<Rightarrow> string \<Rightarrow> db_millis \<Rightarrow> unit dtx" where
  "commit_continue config claim delivered state_json now =
     (let streak = saturating_add 32 (wf_consecutive_continuations (cl_row claim)) 1;
          fairness = streak \<ge> i32_or_max (max_consecutive_continuations config)
      in
     tx_bind (if fairness
              then tx_bind (tx_lift (duration_millis (as_millis (continuation_delay config)))) (\<lambda>d.
                     tx_return (saturating_plus_millis now d))
              else tx_return now) (\<lambda>available_at.
     tx_seq (fenced (workflow_update (fenced_workflow claim)
       (\<lambda>r. activation_consumed delivered now (r\<lparr>wf_state_json := state_json,
              wf_state_version := saturating_add 32 (wf_state_version (cl_row claim)) 1,
              wf_status := WS_Ready, wf_available_at := available_at,
              wf_consecutive_continuations := (if fairness then 0 else streak)\<rparr>))))
     (tx_bind (next_event_sequence (wf_id (cl_row claim))) (\<lambda>sequence.
      append_event (system_event (wf_id (cl_row claim)) sequence
        (Some (saturating_add 32 delivered 1)) ''continued'' None None now)))))"

definition commit_complete ::
    "externals \<Rightarrow> claimed_row \<Rightarrow> i32 \<Rightarrow> string \<Rightarrow> db_millis \<Rightarrow> unit dtx" where
  "commit_complete E claim delivered output_json now =
     tx_seq (fenced (workflow_update (fenced_workflow claim)
       (\<lambda>r. activation_consumed delivered now (r\<lparr>wf_status := WS_Succeeded,
              wf_result_json := Some output_json, wf_consecutive_continuations := 0,
              wf_completed_at := Some now\<rparr>))))
     (tx_seq (append_history (wf_id (cl_row claim)) ''workflow_succeeded'' now)
     (wake_waiting_parents_on_child_terminal E (cl_row claim) (Inr output_json) now))"

definition commit_sleep ::
    "claimed_row \<Rightarrow> i32 \<Rightarrow> i32 \<Rightarrow> string \<Rightarrow> i64 \<Rightarrow> db_millis \<Rightarrow> unit dtx" where
  "commit_sleep claim delivered command state_json wake_at_millis now =
     tx_bind (tx_some (InvalidState ''negative workflow command sequence'')
       (u32_try_from command)) (\<lambda>command_sequence.
     tx_seq (fenced (workflow_update (fenced_workflow claim)
       (\<lambda>r. command_committed claim delivered command state_json now
              (wait_on (Wait_Timer command_sequence)
                (r\<lparr>wf_status := WS_Sleeping, wf_available_at := wake_at_millis\<rparr>)))))
     (append_history (wf_id (cl_row claim)) ''timer_scheduled'' now))"

definition commit_approval ::
    "claimed_row \<Rightarrow> i32 \<Rightarrow> i32 \<Rightarrow> string \<Rightarrow> string \<Rightarrow> i64 option \<Rightarrow> db_millis \<Rightarrow> unit dtx" where
  "commit_approval claim delivered command state_json approval_json expires_at_millis now =
     tx_seq (lock_fence claim)
     (tx_bind (insert_approval
        \<lparr>apr_id = 0, apr_workflow_id = wf_id (cl_row claim), apr_command_sequence = command,
         apr_kind = wf_kind (cl_row claim), apr_version = wf_version (cl_row claim),
         apr_prompt_metadata_json = approval_json, apr_validation_schema_json = ''{}'',
         apr_validation_version = 1, apr_status = AP_Pending, apr_requested_at = now,
         apr_expires_at = expires_at_millis, apr_decision_payload_json = None,
         apr_decided_by = None, apr_operator_reason = None, apr_resolved_at = None\<rparr>) (\<lambda>approval_id.
      tx_seq (fenced (workflow_update (fenced_workflow claim)
        (\<lambda>r. command_committed claim delivered command state_json now
               (wait_on (Wait_Approval approval_id) (r\<lparr>wf_status := WS_WaitingApproval\<rparr>)))))
      (append_history (wf_id (cl_row claim)) ''approval_requested'' now)))"

text \<open>
  The row of an activity that has not started: inserted by a commit and, with its lineage
  set, by an operator's retry.
\<close>

definition new_activity_row ::
    "i64 \<Rightarrow> i32 \<Rightarrow> i32 \<Rightarrow> activity_command \<Rightarrow> db_millis \<Rightarrow> i32 \<Rightarrow> i64 \<Rightarrow> i64 \<Rightarrow> string \<Rightarrow>
     string option \<Rightarrow> i64 option \<Rightarrow> i64 option \<Rightarrow> db_millis \<Rightarrow> activity_row" where
  "new_activity_row workflow_id command replacement activity available_at max_attempts
     timeout_millis lease_millis policy_json operation_key root replaces now =
     \<lparr>act_id = 0, act_workflow_id = workflow_id, act_command_sequence = command,
      act_replacement_number = replacement, act_kind = ac_kind activity,
      act_version = ac_version activity, act_topic = ac_topic activity,
      act_payload_json = ac_payload_json activity, act_status = AS_Pending,
      act_available_at = available_at, act_max_attempts = max_attempts, act_attempt_count = 0,
      act_timeout_millis = timeout_millis, act_lease_duration_millis = lease_millis,
      act_retry_policy_json = policy_json, act_operation_key = operation_key,
      act_provider_result_json = None, act_last_error_category = None,
      act_last_error_message = None, act_lease_owner = None, act_lease_token = None,
      act_lease_expires_at = None, act_root_activity_id = root, act_replaces_activity_id = replaces,
      act_created_at = now, act_updated_at = now, act_completed_at = None\<rparr>"

definition insert_command_activity ::
    "externals \<Rightarrow> i64 \<Rightarrow> i32 \<Rightarrow> i32 \<Rightarrow> activity_command \<Rightarrow> db_millis \<Rightarrow> string option \<Rightarrow>
     i64 option \<Rightarrow> i64 option \<Rightarrow> db_millis \<Rightarrow> i64 dtx" where
  "insert_command_activity E workflow_id command replacement activity available_at operation_key
     root replaces now =
     tx_bind (tx_some (InvalidDefinition ''activity attempts exceed the database integer range'')
       (i32_try_from (ac_max_attempts activity))) (\<lambda>max_attempts.
     tx_bind (tx_lift (duration_millis (ac_timeout_millis activity))) (\<lambda>timeout_millis.
     tx_bind (tx_lift (duration_millis (ac_lease_duration_millis activity))) (\<lambda>lease_millis.
     tx_bind (tx_some Serialization (policy_to_json E (ac_retry_policy activity))) (\<lambda>policy_json.
     insert_activity (new_activity_row workflow_id command replacement activity available_at
       max_attempts timeout_millis lease_millis policy_json operation_key root replaces now)))))"

definition commit_activity ::
    "externals \<Rightarrow> claimed_row \<Rightarrow> i32 \<Rightarrow> i32 \<Rightarrow> string \<Rightarrow> activity_command \<Rightarrow> db_millis \<Rightarrow> unit dtx" where
  "commit_activity E claim delivered command state_json activity now =
     tx_seq (lock_fence claim)
     (tx_bind (insert_command_activity E (wf_id (cl_row claim)) command 0 activity
        (if ac_continuation_priority activity then CONTINUATION_READY_AT_MILLIS else now)
        (ac_operation_key activity) None None now) (\<lambda>activity_id.
      tx_seq (fenced (workflow_update (fenced_workflow claim)
        (\<lambda>r. command_committed claim delivered command state_json now
               (wait_on (Wait_Activity activity_id) (r\<lparr>wf_status := WS_WaitingActivity\<rparr>)))))
      (append_history (wf_id (cl_row claim)) ''activity_scheduled'' now)))"

text \<open>
  The walk to the ancestors follows parent links and, from a row without a parent, the
  restart link. The caller's own links come from the claim.
\<close>

fun caller_or_ancestor_loop :: "nat \<Rightarrow> claimed_row \<Rightarrow> i64 \<Rightarrow> i64 option \<Rightarrow> bool dtx" where
  "caller_or_ancestor_loop 0 claim target current = tx_diverge"
| "caller_or_ancestor_loop (Suc fuel) claim target None = tx_return False"
| "caller_or_ancestor_loop (Suc fuel) claim target (Some i) =
     (if i = target then tx_return True
      else
        tx_bind (if i = wf_id (cl_row claim) then tx_return (cl_row claim)
                 else find_workflow_by_id i) (\<lambda>r.
        caller_or_ancestor_loop fuel claim target
          (case wf_parent_workflow_id r of
             Some p \<Rightarrow> Some p
           | None \<Rightarrow> wf_restarted_from_workflow_id r)))"

definition is_caller_or_ancestor :: "claimed_row \<Rightarrow> i64 \<Rightarrow> bool dtx" where
  "is_caller_or_ancestor claim target =
     tx_bind (tx_query (\<lambda>s. Suc (Suc (length (workflows s))))) (\<lambda>fuel.
     caller_or_ancestor_loop fuel claim target (Some (wf_id (cl_row claim))))"

definition set_child_wait ::
    "claimed_row \<Rightarrow> child_start \<Rightarrow> string \<Rightarrow> i32 \<Rightarrow> i32 \<Rightarrow> db_millis \<Rightarrow> unit dtx" where
  "set_child_wait claim child state_json command delivered now =
     fenced (workflow_update (fenced_workflow claim)
       (\<lambda>r. command_committed claim delivered command state_json now
              (wait_on (Wait_Child (child_start_workflow_id child))
                (r\<lparr>wf_status := WS_WaitingChild\<rparr>))))"

text \<open>The outcome of a child that was terminal before its parent waited for it.\<close>

definition terminal_outcome :: "workflow_row \<Rightarrow> child_outcome option" where
  "terminal_outcome existing =
     (case wf_status existing of
        WS_Succeeded \<Rightarrow>
          Some (Inr (case wf_result_json existing of None \<Rightarrow> ''null'' | Some json \<Rightarrow> json))
      | WS_Failed \<Rightarrow>
          Some (Inl (case wf_error_category existing of None \<Rightarrow> ''failed'' | Some c \<Rightarrow> c,
                     case wf_error_message existing of None \<Rightarrow> ''child workflow failed'' | Some m \<Rightarrow> m))
      | WS_Cancelled \<Rightarrow> Some (Inl (''child_cancelled'', ''child workflow was cancelled''))
      | _ \<Rightarrow> None)"

definition commit_child ::
    "externals \<Rightarrow> claimed_row \<Rightarrow> i32 \<Rightarrow> i32 \<Rightarrow> string \<Rightarrow> child_workflow_command \<Rightarrow> db_millis \<Rightarrow> unit dtx" where
  "commit_child E claim delivered command state_json child now =
     (let parent_id = wf_id (cl_row claim);
          key = (case cc_deduplication_key child of
                   None \<Rightarrow> child_key parent_id command | Some k \<Rightarrow> k);
          root = (case wf_root_workflow_id (cl_row claim) of None \<Rightarrow> parent_id | Some r \<Rightarrow> r)
      in
     tx_bind (insert_child child key parent_id command root) (\<lambda>outcome.
     tx_bind (if child_start_inserted outcome then tx_return False
              else is_caller_or_ancestor claim (child_start_workflow_id outcome)) (\<lambda>loops.
     if loops
     then tx_fail (InvalidDefinition (''child key '' @ key @ '' resolves to workflow '' @
            dec_int (child_start_workflow_id outcome) @
            '', which is the caller or an ancestor''))
     else
       tx_seq (set_child_wait claim outcome state_json command delivered now)
       (tx_seq (append_history parent_id ''child_workflow_scheduled'' now)
       (case outcome of
          Child_Inserted _ \<Rightarrow> tx_return ()
        | Child_Existing existing \<Rightarrow>
            (case terminal_outcome existing of
               None \<Rightarrow> tx_return ()
             | Some result \<Rightarrow>
                 wake_waiting_parents_on_child_terminal E existing result now))))))"

definition commit_on_connection ::
    "externals \<Rightarrow> coordinator_config \<Rightarrow> claimed_row \<Rightarrow> workflow_event_row \<Rightarrow> stored_transition \<Rightarrow> unit dtx" where
  "commit_on_connection E config claim event transition =
     tx_bind (tx_some (InvalidState ''workflow received non-deliverable history'')
       (ev_delivery_sequence event)) (\<lambda>delivered.
     tx_bind database_now_millis (\<lambda>now.
     let command = saturating_add 32 (wf_command_sequence (cl_row claim)) 1 in
     case transition of
       Continue state_json \<Rightarrow> commit_continue config claim delivered state_json now
     | Complete output_json \<Rightarrow> commit_complete E claim delivered output_json now
     | SleepUntil state_json wake_at \<Rightarrow>
         commit_sleep claim delivered command state_json wake_at now
     | WaitForApproval state_json approval_json expires_at \<Rightarrow>
         commit_approval claim delivered command state_json approval_json expires_at now
     | RunActivity state_json activity \<Rightarrow>
         commit_activity E claim delivered command state_json activity now
     | RunChild state_json child \<Rightarrow>
         commit_child E claim delivered command state_json child now))"

section \<open>Activation failures (T-C3)\<close>

definition record_activation_failure ::
    "externals \<Rightarrow> coordinator_config \<Rightarrow> claimed_row \<Rightarrow> string \<Rightarrow> unit dtx" where
  "record_activation_failure E config claim message =
     tx_bind (tx_query (\<lambda>s. find (fenced_workflow claim) (workflows s))) (\<lambda>found.
     tx_bind (tx_some FencedWrite found) (\<lambda>current.
     let attempt = saturating_add 32 (wf_activation_attempts current) 1;
         max_activation = min (wf_max_activation_attempts current)
           (i32_or_max (max_activation_attempts config));
         exhausted = attempt \<ge> max_activation;
         attempt_number = (case u32_try_from attempt of None \<Rightarrow> max_u32 | Some n \<Rightarrow> n);
         jitter = deterministic_jitter_percentile (sha256_head E)
           (''workflow:'' @ dec_int (wf_id current) @ '':activation:'' @ dec_int attempt_number);
         error = WorkflowError_new ''activation'' message
     in
     tx_bind database_now_millis (\<lambda>now.
     tx_bind (tx_lift (delay_for_attempt (activation_retry_policy config) attempt_number jitter)) (\<lambda>delay.
     tx_bind (tx_lift (duration_millis delay)) (\<lambda>millis.
     tx_seq (fenced (workflow_update
       (\<lambda>r. wf_id r = wf_id current \<and> wf_status r = WS_Running \<and>
            wf_lease_token r = Some (cl_lease_token claim))
       (\<lambda>r. workflow_lease_cleared (r\<lparr>wf_status := (if exhausted then WS_Failed else WS_Ready),
              wf_activation_attempts := attempt,
              wf_available_at := saturating_plus_millis now millis,
              wf_error_category := Some (we_category error),
              wf_error_message := Some (we_message error), wf_updated_at := now,
              wf_completed_at := (if exhausted then Some now else None)\<rparr>))))
     (tx_seq (append_history (wf_id current)
        (if exhausted then ''activation_exhausted'' else ''activation_failed'') now)
     (if exhausted
      then wake_waiting_parents_on_child_terminal E current
             (Inl (we_category error, we_message error)) now
      else tx_return ())))))))"

section \<open>One activation\<close>

definition decode_event :: "externals \<Rightarrow> workflow_event_row \<Rightarrow> durable_error + workflow_event" where
  "decode_event E event =
     (if ev_event_type event = ''started'' then Inr Started
      else if ev_event_type event = ''continued'' then Inr Continued
      else
        (case ev_metadata_json event of
           None \<Rightarrow> Inl (InvalidState (''deliverable event '' @ ev_event_type event @
                     '' has no metadata''))
         | Some json \<Rightarrow>
             (case event_of_json E json of None \<Rightarrow> Inl Serialization | Some e \<Rightarrow> Inr e)))"

text \<open>
  What became of the application's \<open>step\<close>: a transition, an error with its text, a panic
  with its message, or the timeout.
\<close>

datatype step_outcome =
  Stepped stored_transition
| Step_Error string
| Step_Panicked string
| Step_TimedOut

datatype activation = Commit stored_transition | Fail string

record registries =
  workflow_contains :: "string \<Rightarrow> i32 \<Rightarrow> bool"
  activity_contains :: "string \<Rightarrow> i32 \<Rightarrow> bool"
  activity_topic_for :: "string \<Rightarrow> i32 \<Rightarrow> string option"
  debug_str :: "string \<Rightarrow> string"

definition debug_option :: "registries \<Rightarrow> string option \<Rightarrow> string" where
  "debug_option R x = (case x of None \<Rightarrow> ''None'' | Some v \<Rightarrow> ''Some('' @ debug_str R v @ '')'')"

definition check_transition :: "registries \<Rightarrow> stored_transition \<Rightarrow> activation" where
  "check_transition R transition =
     (case transition of
        RunChild _ child \<Rightarrow>
          if \<not> workflow_contains R (cc_kind child) (cc_version child)
          then Fail (''child workflow '' @ cc_kind child @ '' v'' @ dec_int (cc_version child) @
                 '' is not registered'')
          else Commit transition
      | RunActivity _ activity \<Rightarrow>
          if \<not> activity_contains R (ac_kind activity) (ac_version activity)
          then Fail (''activity '' @ ac_kind activity @ '' v'' @ dec_int (ac_version activity) @
                 '' is not registered'')
          else if activity_topic_for R (ac_kind activity) (ac_version activity) \<noteq>
                  Some (ac_topic activity)
          then Fail (''activity '' @ ac_kind activity @ '' v'' @ dec_int (ac_version activity) @
                 '' topic mismatch: command has '' @ debug_str R (ac_topic activity) @
                 '', registry has '' @ debug_option R
                    (activity_topic_for R (ac_kind activity) (ac_version activity)))
          else Commit transition
      | _ \<Rightarrow> Commit transition)"

definition after_step :: "registries \<Rightarrow> step_outcome \<Rightarrow> activation" where
  "after_step R outcome =
     (case outcome of
        Stepped transition \<Rightarrow> check_transition R transition
      | Step_Error text \<Rightarrow> Fail text
      | Step_Panicked message \<Rightarrow> Fail (''step panicked: '' @ message)
      | Step_TimedOut \<Rightarrow> Fail ''step exceeded step_timeout'')"

text \<open>A definition error of the commit is a bounded activation failure.\<close>

definition failure_after_commit :: "externals \<Rightarrow> durable_error \<Rightarrow> string option" where
  "failure_after_commit E e =
     (case e of
        DefinitionMismatch _ _ _ _ \<Rightarrow> Some (error_text E e)
      | InvalidDefinition _ \<Rightarrow> Some (error_text E e)
      | _ \<Rightarrow> None)"

text \<open>
  The whole activation of a claim against one database: read the next event, run the
  step on it, commit or record the failure. The result is the error it ends with, if any,
  and the database.
\<close>

definition run_failure ::
    "externals \<Rightarrow> coordinator_config \<Rightarrow> claimed_row \<Rightarrow> string \<Rightarrow> db \<Rightarrow> durable_error fault option \<times> db" where
  "run_failure E config claim message s =
     (case record_activation_failure E config claim message s of
        Inl e \<Rightarrow> (Some e, s)
      | Inr (_, s') \<Rightarrow> (None, s'))"

definition activate_claim ::
    "externals \<Rightarrow> coordinator_config \<Rightarrow> registries \<Rightarrow> (workflow_row \<Rightarrow> workflow_event \<Rightarrow> step_outcome) \<Rightarrow>
     claimed_row \<Rightarrow> db \<Rightarrow> durable_error fault option \<times> db" where
  "activate_claim E config R step claim s =
     (case next_delivery_event (wf_id (cl_row claim)) (wf_delivered_event_sequence (cl_row claim)) s of
        None \<Rightarrow> (Some (Err (InvalidState (''claimed workflow '' @ dec_int (wf_id (cl_row claim)) @
                  '' has no deliverable event''))), s)
      | Some event \<Rightarrow>
          (case decode_event E event of
             Inl e \<Rightarrow> (Some (Err e), s)
           | Inr input \<Rightarrow>
               (case after_step R (step (cl_row claim) input) of
                  Fail message \<Rightarrow> run_failure E config claim message s
                | Commit transition \<Rightarrow>
                    (case commit_on_connection E config claim event transition s of
                       Inr (_, s') \<Rightarrow> (None, s')
                     | Inl Diverges \<Rightarrow> (Some Diverges, s)
                     | Inl (Err e) \<Rightarrow>
                         (case failure_after_commit E e of
                            Some message \<Rightarrow> run_failure E config claim message s
                          | None \<Rightarrow> (Some (Err e), s))))))"

datatype benign_activation_kind = FenceMiss | Transient

definition benign_activation_kind_of :: "durable_error \<Rightarrow> benign_activation_kind option" where
  "benign_activation_kind_of e =
     (if e = FencedWrite then Some FenceMiss
      else if is_transient e then Some Transient else None)"

section \<open>Evolution and row invariants\<close>

lemmas coordinator_changes = changes activation_consumed_def command_committed_def

lemma evolves_append_history [guar_intros]: "guarantees db_evolves (append_history i ty now)"
  unfolding append_history_def by (intro guar_intros)

lemma rows_ok_append_history [keeps_intros]: "keeps rows_ok (append_history i ty now)"
  unfolding append_history_def by (intro keeps_intros)

lemma guarantees_scan_expired [guar_intros]:
  "guarantees db_evolves (scan_expired held now fuel cursor)"
  by (induction fuel arbitrary: cursor) (auto intro!: guar_intros)

lemma keeps_scan_expired [keeps_intros]: "keeps I (scan_expired held now fuel cursor)"
  by (induction fuel arbitrary: cursor) (auto intro!: keeps_intros)

lemma evolves_recover_expired [guar_intros]: "guarantees db_evolves (recover_expired now r)"
  unfolding recover_expired_def
  by (intro guar_intros evolves_workflow_update)
    (auto simp: workflow_identity_def coordinator_changes intro!: workflow_evolves_live)

lemma rows_ok_recover_expired [keeps_intros]: "keeps rows_ok (recover_expired now r)"
  unfolding recover_expired_def
  by (intro keeps_intros rows_ok_workflow_update) (auto simp: row_ok_defs coordinator_changes)

lemma evolves_lease_ready [guar_intros]: "guarantees db_evolves (lease_ready w tok ex now r)"
  unfolding lease_ready_def
  by (intro guar_intros evolves_workflow_update)
    (auto simp: workflow_identity_def intro!: workflow_evolves_live)

lemma rows_ok_lease_ready [keeps_intros]: "keeps rows_ok (lease_ready w tok ex now r)"
  unfolding lease_ready_def
  by (intro keeps_intros rows_ok_workflow_update) (auto simp: row_ok_defs)

lemma evolves_claim_row [guar_intros]: "guarantees db_evolves (claim_row held config w defs tok)"
  unfolding claim_row_def by (intro guar_intros)

lemma rows_ok_claim_row [keeps_intros]: "keeps rows_ok (claim_row held config w defs tok)"
  unfolding claim_row_def by (intro keeps_intros)

lemma fenced_workflow_live: "fenced_workflow claim r \<Longrightarrow> \<not> ws_is_terminal (wf_status r)"
  by (simp add: fenced_workflow_def)

lemma evolves_fenced_workflow:
  "(\<And>r. workflow_identity (f r) = workflow_identity r) \<Longrightarrow>
   guarantees db_evolves (workflow_update (fenced_workflow claim) f)"
  by (intro evolves_workflow_update workflow_evolves_live fenced_workflow_live)

lemma evolves_lock_fence [guar_intros]: "guarantees db_evolves (lock_fence claim)"
  unfolding lock_fence_def by (intro guar_intros)

lemma keeps_lock_fence [keeps_intros]: "keeps I (lock_fence claim)"
  unfolding lock_fence_def by (intro keeps_intros)

lemma evolves_commit_continue [guar_intros]:
  "guarantees db_evolves (commit_continue config claim d st now)"
  unfolding commit_continue_def Let_def
  by (intro guar_intros evolves_fenced_workflow) (simp add: workflow_identity_def coordinator_changes)

lemma rows_ok_commit_continue [keeps_intros]:
  "keeps rows_ok (commit_continue config claim d st now)"
  unfolding commit_continue_def Let_def
  by (intro keeps_intros rows_ok_workflow_update) (simp add: row_ok_defs coordinator_changes)

lemma evolves_commit_complete [guar_intros]:
  "guarantees db_evolves (commit_complete E claim d out now)"
  unfolding commit_complete_def
  by (intro guar_intros evolves_fenced_workflow) (simp add: workflow_identity_def coordinator_changes)

lemma rows_ok_commit_complete [keeps_intros]:
  "keeps rows_ok (commit_complete E claim d out now)"
  unfolding commit_complete_def
  by (intro keeps_intros rows_ok_workflow_update) (simp add: row_ok_defs coordinator_changes)

lemma evolves_commit_sleep [guar_intros]:
  "guarantees db_evolves (commit_sleep claim d c st at now)"
  unfolding commit_sleep_def
  by (intro guar_intros evolves_fenced_workflow) (simp add: workflow_identity_def coordinator_changes)

lemma rows_ok_commit_sleep [keeps_intros]: "keeps rows_ok (commit_sleep claim d c st at now)"
  unfolding commit_sleep_def
  by (intro keeps_intros rows_ok_workflow_update) (simp add: row_ok_defs coordinator_changes)

lemma evolves_commit_approval [guar_intros]:
  "guarantees db_evolves (commit_approval claim d c st json ex now)"
  unfolding commit_approval_def
  by (intro guar_intros evolves_fenced_workflow) (simp add: workflow_identity_def coordinator_changes)

lemma rows_ok_commit_approval [keeps_intros]:
  "keeps rows_ok (commit_approval claim d c st json ex now)"
  unfolding commit_approval_def
  by (intro keeps_intros rows_ok_workflow_update) (simp add: row_ok_defs coordinator_changes)

lemma evolves_insert_command_activity [guar_intros]:
  "guarantees db_evolves (insert_command_activity E w c n a at key root rep now)"
  unfolding insert_command_activity_def by (intro guar_intros)

lemma rows_ok_insert_command_activity [keeps_intros]:
  "keeps rows_ok (insert_command_activity E w c n a at key root rep now)"
  unfolding insert_command_activity_def
  by (intro keeps_intros rows_ok_insert_activity) (simp add: row_ok_defs new_activity_row_def)

lemma evolves_commit_activity [guar_intros]:
  "guarantees db_evolves (commit_activity E claim d c st a now)"
  unfolding commit_activity_def
  by (intro guar_intros evolves_fenced_workflow) (simp_all add: workflow_identity_def coordinator_changes)

lemma rows_ok_commit_activity [keeps_intros]:
  "keeps rows_ok (commit_activity E claim d c st a now)"
  unfolding commit_activity_def
  by (intro keeps_intros rows_ok_workflow_update) (simp_all add: row_ok_defs coordinator_changes)

lemma guarantees_caller_or_ancestor [guar_intros]:
  "guarantees db_evolves (caller_or_ancestor_loop fuel claim target current)"
  by (induction fuel claim target current rule: caller_or_ancestor_loop.induct)
    (auto intro!: guar_intros)

lemma keeps_caller_or_ancestor [keeps_intros]:
  "keeps I (caller_or_ancestor_loop fuel claim target current)"
  by (induction fuel claim target current rule: caller_or_ancestor_loop.induct)
    (auto intro!: keeps_intros)

lemma guarantees_child_start [guar_intros]:
  "(\<And>i. q = Child_Inserted i \<Longrightarrow> guarantees R (m i)) \<Longrightarrow>
   (\<And>r. q = Child_Existing r \<Longrightarrow> guarantees R (k r)) \<Longrightarrow>
   guarantees R (case q of Child_Inserted i \<Rightarrow> m i | Child_Existing r \<Rightarrow> k r)"
  by (cases q) auto

lemma keeps_child_start [keeps_intros]:
  "(\<And>i. q = Child_Inserted i \<Longrightarrow> keeps I (m i)) \<Longrightarrow>
   (\<And>r. q = Child_Existing r \<Longrightarrow> keeps I (k r)) \<Longrightarrow>
   keeps I (case q of Child_Inserted i \<Rightarrow> m i | Child_Existing r \<Rightarrow> k r)"
  by (cases q) auto

lemma evolves_commit_child [guar_intros]:
  "guarantees db_evolves (commit_child E claim d c st child now)"
  unfolding commit_child_def Let_def set_child_wait_def is_caller_or_ancestor_def
  by (intro guar_intros evolves_fenced_workflow) (simp_all add: workflow_identity_def coordinator_changes)

lemma rows_ok_commit_child [keeps_intros]:
  "keeps rows_ok (commit_child E claim d c st child now)"
  unfolding commit_child_def Let_def set_child_wait_def is_caller_or_ancestor_def
  by (intro keeps_intros rows_ok_workflow_update) (simp_all add: row_ok_defs coordinator_changes)

text \<open>The dispatch on the transition, for every relation between states.\<close>

lemma guarantees_transition:
  assumes "\<And>st. guarantees R (c st)" "\<And>out. guarantees R (f out)" "\<And>st at. guarantees R (sl st at)"
    "\<And>st json ex. guarantees R (ap st json ex)" "\<And>st a. guarantees R (ac st a)"
    "\<And>st child. guarantees R (ch st child)"
  shows "guarantees R (case t of Continue st \<Rightarrow> c st | Complete out \<Rightarrow> f out | SleepUntil st at \<Rightarrow> sl st at
    | WaitForApproval st json ex \<Rightarrow> ap st json ex | RunActivity st a \<Rightarrow> ac st a | RunChild st child \<Rightarrow> ch st child)"
  using assms by (cases t) simp_all

lemma evolves_commit_on_connection [guar_intros]:
  "guarantees db_evolves (commit_on_connection E config claim event transition)"
  unfolding commit_on_connection_def Let_def by (intro guar_intros guarantees_transition)

lemma keeps_transition:
  assumes "\<And>st. keeps I (c st)" "\<And>out. keeps I (f out)" "\<And>st at. keeps I (sl st at)"
    "\<And>st json ex. keeps I (ap st json ex)" "\<And>st a. keeps I (ac st a)" "\<And>st child. keeps I (ch st child)"
  shows "keeps I (case t of Continue st \<Rightarrow> c st | Complete out \<Rightarrow> f out | SleepUntil st at \<Rightarrow> sl st at
    | WaitForApproval st json ex \<Rightarrow> ap st json ex | RunActivity st a \<Rightarrow> ac st a | RunChild st child \<Rightarrow> ch st child)"
  using assms by (cases t) simp_all

lemma rows_ok_commit_on_connection [keeps_intros]:
  "keeps rows_ok (commit_on_connection E config claim event transition)"
  unfolding commit_on_connection_def Let_def by (intro keeps_intros keeps_transition)

lemma evolves_record_activation_failure [guar_intros]:
  "guarantees db_evolves (record_activation_failure E config claim message)"
  unfolding record_activation_failure_def Let_def
  by (intro guar_intros evolves_workflow_update)
    (auto simp: workflow_identity_def coordinator_changes intro!: workflow_evolves_live)

lemma rows_ok_record_activation_failure [keeps_intros]:
  "keeps rows_ok (record_activation_failure E config claim message)"
  unfolding record_activation_failure_def Let_def
  by (intro keeps_intros rows_ok_workflow_update) (auto simp: row_ok_defs coordinator_changes)

section \<open>Stale claims (S2)\<close>

definition claim_stale :: "claimed_row \<Rightarrow> db \<Rightarrow> bool" where
  "claim_stale claim s \<longleftrightarrow> (\<forall>r \<in> set (workflows s). \<not> fenced_workflow claim r)"

lemma stale_fence:
  "claim_stale claim s \<Longrightarrow> fenced (workflow_update (fenced_workflow claim) f) s = Inl (Err FencedWrite)"
  by (auto simp: claim_stale_def fenced_def tx_eval workflow_update_def update_where_def
      ensure_fenced_def filter_empty_conv)

lemma stale_find: "claim_stale claim s \<Longrightarrow> find (fenced_workflow claim) (workflows s) = None"
  by (simp add: claim_stale_def find_None)

lemma stale_clock [simp]: "claim_stale claim (s\<lparr>clock_reads := n\<rparr>) = claim_stale claim s"
  by (simp add: claim_stale_def)

lemma rejects_stale_fence:
  "rejects (claim_stale claim) (fenced (workflow_update (fenced_workflow claim) f))"
  by (rule rejectsI) (simp add: stale_fence)

lemma rejects_lock_fence: "rejects (claim_stale claim) (lock_fence claim)"
  by (rule rejectsI) (auto simp: lock_fence_def tx_eval stale_find)

lemma keeps_stale [keeps_intros]:
  "keeps (claim_stale claim) database_now_millis"
  "keeps (claim_stale claim) (append_event e)"
  by (auto simp: keeps_def tx_simps append_event_Inr claim_stale_def)

lemma keeps_stale_insert_started:
  assumes "wf_status row = WS_Ready"
  shows "keeps (claim_stale claim) (insert_started row)"
proof -
  have "keeps (claim_stale claim) (insert_workflow row)"
  proof (rule keepsI)
    fix s a s' assume s: "claim_stale claim s" and i: "insert_workflow row s = Inr (a, s')"
    show "claim_stale claim s'"
    proof (cases a)
      case (Inserted k)
      with i have "s' = s\<lparr>workflows := workflows s @ [row\<lparr>wf_id := k\<rparr>], next_workflow_id := k + 1\<rparr>"
        by (simp add: insert_workflow_Inserted(2))
      with s assms show ?thesis by (simp add: claim_stale_def fenced_workflow_def)
    next
      case DeduplicationConflict
      with i have "s' = s" by (simp add: insert_workflow_Conflict)
      with s show ?thesis by simp
    qed
  qed
  then show ?thesis unfolding insert_started_def by (intro keeps_intros)
qed

lemma keeps_stale_insert_child [keeps_intros]:
  "keeps (claim_stale claim) (insert_child c key p n root)"
  unfolding insert_child_def insert_new_child_def
  by (intro keeps_intros keeps_stale_insert_started) (simp add: new_workflow_row_def)

lemma rejects_stale_commit:
  "rejects (claim_stale claim) (commit_on_connection E config claim event transition)"
proof -
  have child: "rejects (claim_stale claim) (commit_child E claim d c st child now)" for d c st child now
    unfolding commit_child_def Let_def set_child_wait_def is_caller_or_ancestor_def
    by (intro rejects_then rejects_if rejects_fail rejects_first rejects_stale_fence keeps_intros)
  have "rejects (claim_stale claim) (commit_continue config claim d st now)" for d st now
    unfolding commit_continue_def Let_def
    by (rule rejects_then, intro keeps_intros, rule rejects_first, rule rejects_stale_fence)
  moreover have "rejects (claim_stale claim) (commit_sleep claim d c st at now)" for d c st at now
    unfolding commit_sleep_def
    by (rule rejects_then, intro keeps_intros, rule rejects_first, rule rejects_stale_fence)
  moreover have "rejects (claim_stale claim) (commit_complete E claim d out now)" for d out now
    unfolding commit_complete_def by (intro rejects_first rejects_stale_fence)
  moreover have "rejects (claim_stale claim) (commit_approval claim d c st json ex now)"
      "rejects (claim_stale claim) (commit_activity E claim d c st a now)" for d c st json ex a now
    unfolding commit_approval_def commit_activity_def by (intro rejects_first rejects_lock_fence)+
  ultimately show ?thesis
    unfolding commit_on_connection_def Let_def
    by (intro rejects_then keeps_intros) (cases transition; simp add: child)
qed

text \<open>
  C4: a claim that lost its fence changes nothing. Once no row is running under the
  claim's token, T-C2 never commits, whatever the transition; T-C3 and every transition
  that completes or writes a command row of its own fail with \<open>FencedWrite\<close> (S2, N4).
\<close>

theorem stale_claim_changes_nothing:
  assumes stale: "claim_stale claim s"
  shows "tx_commit (commit_on_connection E config claim event transition) s = s \<and>
    record_activation_failure E config claim message s = Inl (Err FencedWrite) \<and>
    (ev_delivery_sequence event \<noteq> None \<longrightarrow>
     transition \<in> {RunActivity st a, WaitForApproval st json expires, Complete out} \<longrightarrow>
     commit_on_connection E config claim event transition s = Inl (Err FencedWrite))"
proof (intro conjI impI)
  show "tx_commit (commit_on_connection E config claim event transition) s = s"
    using rejects_stale_commit stale by (rule rejects_commit)
  show "record_activation_failure E config claim message s = Inl (Err FencedWrite)"
    using stale by (simp add: record_activation_failure_def tx_eval stale_find)
  assume "ev_delivery_sequence event \<noteq> None"
    "transition \<in> {RunActivity st a, WaitForApproval st json expires, Complete out}"
  with stale show "commit_on_connection E config claim event transition s = Inl (Err FencedWrite)"
    by (auto simp: commit_on_connection_def tx_eval database_now_millis_def commit_activity_def
        commit_approval_def commit_complete_def lock_fence_def stale_find stale_fence Let_def
        split: option.splits)
qed

theorem stale_claim_changes_nothing_witness:
  "let claim = \<lparr>cl_row = sample_parent, cl_lease_token = ''old''\<rparr>;
       commit = commit_on_connection sample_externals CoordinatorConfig_default claim
         (system_event 1 1 (Some 1) ''started'' None None 10) (Complete ''{}'')
   in tx_commit commit sample_db = sample_db \<and> commit sample_db = Inl (Err FencedWrite)"
proof -
  have "claim_stale \<lparr>cl_row = sample_parent, cl_lease_token = ''old''\<rparr> sample_db"
    by (simp add: claim_stale_def fenced_workflow_def sample_defs)
  from stale_claim_changes_nothing [OF this, of sample_externals CoordinatorConfig_default
      "system_event 1 1 (Some 1) ''started'' None None 10" "Complete ''{}''" _ _ _ _ _ "''{}''"]
  show ?thesis by (simp add: system_event_def)
qed

section \<open>The scan for expired leases\<close>

text \<open>Reading on after the last element of a page of a sorted list is dropping the page.\<close>

lemma sorted_page:
  fixes xs :: "'a::linorder list"
  assumes "sorted xs" "distinct xs" "k < length xs"
  shows "filter (\<lambda>x. xs ! k < x) xs = drop (Suc k) xs"
proof -
  have split: "xs = take (Suc k) xs @ drop (Suc k) xs" by simp
  have "filter (\<lambda>x. xs ! k < x) (take (Suc k) xs) = []"
    using assms by (auto simp: filter_empty_conv in_set_conv_nth not_less
        intro!: sorted_nth_mono)
  moreover have "filter (\<lambda>x. xs ! k < x) (drop (Suc k) xs) = drop (Suc k) xs"
  proof (intro filter_True ballI)
    fix x assume "x \<in> set (drop (Suc k) xs)"
    then obtain j where j: "j < length xs - Suc k" "x = xs ! (Suc k + j)"
      by (auto simp: in_set_conv_nth)
    then have "xs ! k \<le> x" using assms by (auto intro!: sorted_nth_mono)
    moreover have "xs ! k \<noteq> x"
      using j assms by (simp add: nth_eq_iff_index_eq)
    ultimately show "xs ! k < x" by simp
  qed
  ultimately show ?thesis by (subst split) (simp only: filter_append append_Nil)
qed

lemma expired_candidates_after:
  "expired_candidates now (Some c) s = filter (\<lambda>x. c < x) (expired_candidates now None s)"
proof -
  let ?P = "\<lambda>r. wf_status r = WS_Running \<and> sql_le (wf_lease_expires_at r) now"
  let ?f = "\<lambda>r. (the (wf_lease_expires_at r), wf_id r)"
  obtain e i where c: "c = (e, i)" by (cases c)
  have sel: "filter (\<lambda>r. wf_status r = WS_Running \<and> sql_le (wf_lease_expires_at r) now \<and>
      (sql_gt (wf_lease_expires_at r) e \<or> wf_lease_expires_at r = Some e \<and> i < wf_id r)) (workflows s)
    = filter (\<lambda>r. c < ?f r) (filter ?P (workflows s))"
    unfolding filter_filter
    by (rule filter_cong) (auto simp: c sql_le_def sql_gt_def split: option.splits)
  have "map ?f (filter (\<lambda>r. c < ?f r) (filter ?P (workflows s)))
      = filter (\<lambda>x. c < x) (map ?f (filter ?P (workflows s)))"
    by (simp add: filter_map comp_def)
  with sel show ?thesis
    by (simp add: expired_candidates_def c filter_sort)
qed

lemma expired_candidates_sorted:
  assumes "keys_ok s"
  shows "sorted (expired_candidates now cursor s)" "distinct (expired_candidates now cursor s)"
proof -
  show "sorted (expired_candidates now cursor s)"
    by (simp add: expired_candidates_def)
  have "distinct (map wf_id (workflows s))"
    using assms by (simp add: keys_ok_def workflow_keys_ok_def)
  then have "distinct (map wf_id (filter P (workflows s)))" for P
    by (rule distinct_map_filter)
  then show "distinct (expired_candidates now cursor s)"
    by (auto simp: expired_candidates_def distinct_map inj_on_def)
qed

lemma first_some_append:
  "first_some f (xs @ ys) = (case first_some f xs of Some y \<Rightarrow> Some y | None \<Rightarrow> first_some f ys)"
  by (induction xs) (auto split: option.splits)

lemma scan_expired_first:
  assumes "keys_ok s" and "length (expired_candidates now cursor s) < fuel"
  shows "scan_expired held now fuel cursor s =
    Inr (first_some (\<lambda>(_, i). relock_expired held now s i) (expired_candidates now cursor s), s)"
  using assms(2)
proof (induction fuel arbitrary: cursor)
  case (Suc fuel)
  let ?xs = "expired_candidates now cursor s"
  let ?f = "\<lambda>(_ :: db_millis, i). relock_expired held now s i"
  note order = expired_candidates_sorted [OF assms(1), of now cursor]
  show ?case
  proof (cases "length (take 32 ?xs) < 32")
    case True
    then have all: "take 32 ?xs = ?xs" by simp
    show ?thesis
      by (cases "?xs = []"; cases "first_some ?f ?xs") (use True all in \<open>simp_all add: tx_eval\<close>)
  next
    case False
    then have len: "32 \<le> length ?xs" by simp
    then have page: "take 32 ?xs \<noteq> []" by auto
    have last: "last (take 32 ?xs) = ?xs ! 31"
      using len last_conv_nth [OF page] by simp
    have next_page: "expired_candidates now (Some (?xs ! 31)) s = drop 32 ?xs"
    proof -
      have "expired_candidates now (Some (?xs ! 31)) s = filter (\<lambda>x. ?xs ! 31 < x) ?xs"
      proof (cases cursor)
        case None
        then show ?thesis by (simp add: expired_candidates_after)
      next
        case (Some c)
        then have xs: "?xs = filter (\<lambda>x. c < x) (expired_candidates now None s)"
          by (simp add: expired_candidates_after)
        have "?xs ! 31 \<in> set ?xs" using len by simp
        then have "c < ?xs ! 31" by (simp add: xs)
        then show ?thesis
          by (subst expired_candidates_after, subst (2) xs, simp only: filter_filter)
            (rule filter_cong, auto)
      qed
      then show ?thesis using sorted_page [OF order, of 31] len by simp
    qed
    have "length (expired_candidates now (Some (?xs ! 31)) s) < fuel"
      using Suc.prems len by (simp add: next_page)
    note ih = Suc.IH [OF this, unfolded next_page]
    have "first_some ?f ?xs = first_some ?f (take 32 ?xs @ drop 32 ?xs)" by simp
    then show ?thesis
      using False page last ih
      by (cases "first_some ?f (take 32 ?xs)")
        (simp_all add: tx_eval first_some_append del: append_take_drop_id)
  qed
qed simp

lemma first_some_Some: "first_some f xs = Some y \<Longrightarrow> \<exists>x \<in> set xs. f x = Some y"
  by (induction xs) (auto split: option.splits)

lemma scan_expired_result:
  assumes "scan_expired held now fuel cursor s = Inr (e, s')"
  shows "s' = s \<and> (\<forall>r. e = Some r \<longrightarrow>
    (\<exists>i. \<not> held i \<and> workflow_by_id s i = Some r) \<and> wf_status r = WS_Running \<and>
    sql_le (wf_lease_expires_at r) now)"
  using assms
proof (induction fuel arbitrary: cursor)
  case (Suc fuel)
  let ?page = "take 32 (expired_candidates now cursor s)"
  let ?found = "first_some (\<lambda>(_, i). relock_expired held now s i) ?page"
  show ?case
  proof (cases "?page = []")
    case True
    with Suc.prems show ?thesis by (auto simp: tx_eval)
  next
    case False
    show ?thesis
    proof (cases ?found)
      case None
      with False Suc show ?thesis by (auto simp: tx_eval split: if_split_asm)
    next
      case (Some r)
      with False Suc.prems have "e = Some r" "s' = s" by (auto simp: tx_eval)
      with first_some_Some [OF Some] show ?thesis
        by (auto simp: relock_expired_def split: if_split_asm option.split_asm)
    qed
  qed
qed (simp add: tx_eval)

lemma claim_row_cases:
  assumes "claim_row held config w defs tok s = Inr (c, s')"
  obtains lease e s1 where
    "duration_millis (as_millis (lease_duration config)) = Inr lease"
    "\<forall>r. e = Some r \<longrightarrow> (\<exists>i. workflow_by_id s i = Some r) \<and> wf_status r = WS_Running \<and>
       sql_le (wf_lease_expires_at r) (clock s (clock_reads s))"
    "(case e of None \<Rightarrow> tx_return () | Some r \<Rightarrow> recover_expired (clock s (clock_reads s)) r)
       (s\<lparr>clock_reads := Suc (clock_reads s)\<rparr>) = Inr ((), s1)"
    "(c = None \<and> s' = s1) \<or>
     (\<exists>row claim. c = Some claim \<and>
        first_some (relock_ready held (clock s (clock_reads s)) s1)
          (ready_candidates defs (clock s (clock_reads s)) s1) = Some row \<and>
        lease_ready w tok (clock s (clock_reads s) + lease) (clock s (clock_reads s)) row s1
          = Inr (claim, s'))"
proof -
  let ?now = "clock s (clock_reads s)" and ?s0 = "s\<lparr>clock_reads := Suc (clock_reads s)\<rparr>"
  from assms obtain lease ex e u s1 where
      l: "duration_millis (as_millis (lease_duration config)) = Inr lease"
    and ex: "checked_plus_millis ?now lease = Some ex"
    and scan: "scan_expired held ?now (Suc (length (workflows s))) None ?s0 = Inr (e, u)"
    and rec: "(case e of None \<Rightarrow> tx_return () | Some r \<Rightarrow> recover_expired ?now r) u = Inr ((), s1)"
    and rest: "(if defs = [] then tx_return None
      else
        tx_bind (tx_query (\<lambda>s. first_some (relock_ready held ?now s)
          (ready_candidates defs ?now s))) (\<lambda>ready.
        case ready of
          None \<Rightarrow> tx_return None
        | Some row \<Rightarrow>
            tx_bind (lease_ready w tok ex ?now row) (\<lambda>claim.
            tx_return (Some claim)))) s1 = Inr (c, s')"
    unfolding claim_row_def tx_bind_Inr tx_seq_Inr by (auto simp: tx_simps simp del: scan_expired.simps)
  note r = scan_expired_result [OF scan]
  from ex have ex': "ex = ?now + lease" by (simp add: checked_plus_millis_def checked_add_Some)
  show ?thesis
  proof (rule that [OF l])
    show "\<forall>q. e = Some q \<longrightarrow> (\<exists>i. workflow_by_id s i = Some q) \<and> wf_status q = WS_Running \<and>
       sql_le (wf_lease_expires_at q) ?now"
      using r by (auto simp: workflow_by_id_def)
    show "(case e of None \<Rightarrow> tx_return () | Some r \<Rightarrow> recover_expired ?now r) ?s0 = Inr ((), s1)"
      using rec r by simp
    show "(c = None \<and> s' = s1) \<or>
     (\<exists>row claim. c = Some claim \<and>
        first_some (relock_ready held ?now s1) (ready_candidates defs ?now s1) = Some row \<and>
        lease_ready w tok (?now + lease) ?now row s1 = Inr (claim, s'))"
      using rest ex'
      by (cases "first_some (relock_ready held ?now s1) (ready_candidates defs ?now s1)")
        (auto simp: tx_simps split: if_split_asm)
  qed
qed

text \<open>
  The paged scan is the plain one. Reading pages of 32 after a cursor and relocking
  each row ends, and finds the first expired lease in the order of expiry and id whose row
  no other transaction holds.
\<close>

lemma expired_scan_finds_first:
  assumes "keys_ok s"
  shows "scan_expired held now (Suc (length (workflows s))) None s =
    Inr (first_some (\<lambda>(_, i). relock_expired held now s i) (expired_candidates now None s), s)"
proof -
  have "length (expired_candidates now None s) \<le> length (workflows s)"
    by (simp add: expired_candidates_def)
  with assms show ?thesis by (intro scan_expired_first) simp_all
qed

text \<open>A database with one expired lease and one live one.\<close>

definition sample_leased :: "i64 \<Rightarrow> string \<Rightarrow> db_millis \<Rightarrow> workflow_row" where
  "sample_leased i token expires =
     (new_workflow_row ''job'' 1 ''{}'' ''{}'' 10 None None None None None None 10)
       \<lparr>wf_id := i, wf_status := WS_Running, wf_lease_owner := Some ''w'',
        wf_lease_token := Some token, wf_lease_expires_at := Some expires\<rparr>"

definition sample_leases :: db where
  "sample_leases = sample_db\<lparr>workflows := [sample_leased 1 ''a'' 50, sample_leased 2 ''b'' 9000],
     activities := []\<rparr>"

lemma sample_leases_keys_ok: "keys_ok sample_leases"
  by (auto simp: keys_defs sample_leases_def sample_leased_def sample_defs)

lemma recover_expired_row:
  assumes "recover_expired now e s = Inr (u, s')" and "keys_ok s" and "workflow_by_id s i = Some e"
    and "k < length (workflows s)" and "wf_id (workflows s ! k) \<noteq> wf_id e \<or> workflows s ! k \<noteq> e"
  shows "workflows s' ! k = workflows s ! k"
proof -
  from assms(3) have "e \<in> set (workflows s)" by (auto simp: workflow_by_id_def dest: find_key_mem)
  moreover have "distinct (map wf_id (workflows s))"
    using assms(2) by (simp add: keys_ok_def workflow_keys_ok_def)
  ultimately have "wf_id (workflows s ! k) \<noteq> wf_id e"
    using assms(4,5) by (auto simp: distinct_map inj_on_def)
  with assms(1,4) show ?thesis
    by (auto simp: recover_expired_def tx_simps append_history_def append_event_Inr
        next_event_sequence_def)
qed

lemma recovery_keeps_live:
  assumes "\<forall>r. e = Some r \<longrightarrow> (\<exists>i. workflow_by_id s i = Some r) \<and> wf_status r = WS_Running \<and>
       sql_le (wf_lease_expires_at r) now"
    and "(case e of None \<Rightarrow> tx_return () | Some r \<Rightarrow> recover_expired now r) (s\<lparr>clock_reads := n\<rparr>) = Inr ((), s1)"
    and "keys_ok s" and "k < length (workflows s)" and "sql_gt (wf_lease_expires_at (workflows s ! k)) now"
  shows "workflows s1 ! k = workflows s ! k"
proof (cases e)
  case None
  with assms(2) show ?thesis by (auto simp: tx_simps)
next
  case (Some q)
  have "keys_ok (s\<lparr>clock_reads := n\<rparr>)" using assms(3) by (simp add: keys_ok_def)
  moreover from assms(1) Some obtain i where q: "workflow_by_id s i = Some q" "sql_le (wf_lease_expires_at q) now" by auto
  moreover from q(2) assms(5) have "workflows s ! k \<noteq> q" by (auto simp: sql_le_def sql_gt_def split: option.splits)
  ultimately show ?thesis
    using recover_expired_row [of now q "s\<lparr>clock_reads := n\<rparr>" "()" s1 i k] assms(2,4) Some by (simp add: workflow_by_id_def)
qed

lemma lease_ready_other:
  assumes "first_some (relock_ready held now s) (ready_candidates defs now s) = Some row"
    and "lease_ready worker token expires now row s = Inr (c, s')" and "keys_ok s"
    and "k < length (workflows s)" and "wf_status (workflows s ! k) = WS_Running"
  shows "workflows s' ! k = workflows s ! k \<and> wf_id (cl_row c) \<noteq> wf_id (workflows s ! k)"
proof -
  let ?r = "workflows s ! k"
  from assms(1) have row: "row \<in> set (workflows s)" "wf_status row = WS_Ready"
    by (auto simp: relock_ready_def dest!: first_some_Some find_mem split: if_split_asm)
  have "distinct (map wf_id (workflows s))" using assms(3) by (simp add: keys_ok_def workflow_keys_ok_def)
  then have "wf_id row \<noteq> wf_id ?r"
    using row assms(4,5) by (metis distinct_map inj_onD nth_mem workflow_status.distinct(1))
  with assms(2,4) show ?thesis by (auto simp: lease_ready_def tx_simps)
qed

text \<open>
  C6: a live lease is never taken. A claim changes no row that is running under a lease
  that has not expired at the time it read, and does not return such a row (S1, S3).
\<close>

theorem claim_respects_live_leases:
  assumes "claim_row held config worker defs token s = Inr (claim, s')" and "keys_ok s"
    and "k < length (workflows s)" and "wf_status (workflows s ! k) = WS_Running"
    and "sql_gt (wf_lease_expires_at (workflows s ! k)) (clock s (clock_reads s))"
  shows "workflows s' ! k = workflows s ! k \<and>
    (\<forall>c. claim = Some c \<longrightarrow> wf_id (cl_row c) \<noteq> wf_id (workflows s ! k))"
  using assms(1)
proof (rule claim_row_cases)
  fix lease e s1
  let ?now = "clock s (clock_reads s)" and ?s0 = "s\<lparr>clock_reads := Suc (clock_reads s)\<rparr>"
  let ?r = "workflows s ! k"
  assume e: "\<forall>r. e = Some r \<longrightarrow> (\<exists>i. workflow_by_id s i = Some r) \<and> wf_status r = WS_Running \<and>
       sql_le (wf_lease_expires_at r) ?now"
    and rec: "(case e of None \<Rightarrow> tx_return () | Some r \<Rightarrow> recover_expired ?now r) ?s0 = Inr ((), s1)"
    and out: "(claim = None \<and> s' = s1) \<or> (\<exists>row c. claim = Some c \<and>
        first_some (relock_ready held ?now s1) (ready_candidates defs ?now s1) = Some row \<and>
        lease_ready worker token (?now + lease) ?now row s1 = Inr (c, s'))"
  have "guarantees db_evolves (case e of None \<Rightarrow> tx_return () | Some r \<Rightarrow> recover_expired ?now r)"
    by (intro guar_intros)
  then have ev: "db_evolves ?s0 s1" using rec by (rule guaranteesD)
  then have keys1: "keys_ok s1" using assms(2) by (simp add: db_evolves_def keys_ok_def)
  have k1: "k < length (workflows s1)"
    using ev assms(3) by (auto simp: db_evolves_def rows_evolve_def)
  have same: "workflows s1 ! k = ?r" using e rec assms(2,3,5) by (rule recovery_keeps_live)
  from out show ?thesis
  proof (elim disjE exE conjE)
    fix row c
    assume "claim = Some c" "first_some (relock_ready held ?now s1) (ready_candidates defs ?now s1) = Some row"
      and "lease_ready worker token (?now + lease) ?now row s1 = Inr (c, s')"
    with lease_ready_other [OF _ _ keys1 k1] same assms(4) show ?thesis by simp
  qed (use same in simp)
qed

theorem claim_respects_live_leases_witness:
  "workflows (snd (projr (claim_row (\<lambda>_. False) CoordinatorConfig_default ''me'' [(''job'', 1)] ''t''
     sample_leases))) ! 1 = sample_leased 2 ''b'' 9000"
proof -
  let ?m = "claim_row (\<lambda>_. False) CoordinatorConfig_default ''me'' [(''job'', 1)] ''t'' sample_leases"
  have "\<not> isl ?m" by code_simp
  from claim_respects_live_leases [OF returned [OF this] sample_leases_keys_ok, of 1]
  show ?thesis
    by (simp add: sample_leases_def sample_leased_def sample_defs sql_gt_def)
qed

section \<open>What a fenced update and a wake change\<close>

lemma filter_one_index:
  "length (filter P t) = 1 \<Longrightarrow>
   \<exists>k < length t. P (t ! k) \<and> (\<forall>j < length t. j \<noteq> k \<longrightarrow> \<not> P (t ! j))"
proof (induction t)
  case (Cons x t)
  show ?case
  proof (cases "P x")
    case True
    with Cons.prems have "filter P t = []" by simp
    then have "\<not> P (t ! j)" if "j < length t" for j
      using that by (auto simp: filter_empty_conv)
    with True show ?thesis by (intro exI [of _ 0]) (auto simp: nth_Cons split: nat.splits)
  next
    case False
    with Cons obtain k where "k < length t" "P (t ! k)" "\<forall>j < length t. j \<noteq> k \<longrightarrow> \<not> P (t ! j)"
      by auto
    with False show ?thesis
      by (intro exI [of _ "Suc k"]) (auto simp: nth_Cons split: nat.splits)
  qed
qed simp

lemma fenced_workflow_update_one:
  assumes "fenced (workflow_update P f) s = Inr (u, s')"
  obtains k where "k < length (workflows s)" "P (workflows s ! k)"
    "s' = s\<lparr>workflows := (workflows s)[k := f (workflows s ! k)]\<rparr>"
proof -
  from assms have one: "length (filter P (workflows s)) = 1"
    and s': "s' = s\<lparr>workflows := map (\<lambda>r. if P r then f r else r) (workflows s)\<rparr>"
    by (auto simp: tx_simps)
  from filter_one_index [OF one] obtain k where k: "k < length (workflows s)" "P (workflows s ! k)"
    "\<forall>j < length (workflows s). j \<noteq> k \<longrightarrow> \<not> P (workflows s ! j)" by blast
  then have "map (\<lambda>r. if P r then f r else r) (workflows s) = (workflows s)[k := f (workflows s ! k)]"
    by (intro nth_equalityI) (auto simp: nth_list_update)
  with that k s' show ?thesis by simp
qed

text \<open>
  Waking parents changes only rows that wait for a child: it makes a waiting one ready
  and leaves its lease columns, delivery counter and identity alone.
\<close>

definition woken :: "workflow_row \<Rightarrow> workflow_row \<Rightarrow> bool" where
  "woken r r' \<longleftrightarrow>
     (awaits_child (wf_status r) \<or> r' = r) \<and>
     (wf_status r' = wf_status r \<or> wf_status r = WS_WaitingChild \<and> wf_status r' = WS_Ready) \<and>
     wf_lease_token r' = wf_lease_token r \<and>
     wf_delivered_event_sequence r' = wf_delivered_event_sequence r \<and>
     wf_command_sequence r' = wf_command_sequence r \<and> wf_state_json r' = wf_state_json r \<and>
     wf_activation_attempts r' = wf_activation_attempts r \<and>
     workflow_identity r' = workflow_identity r"

interpretation woken_rows: row_guarantee woken
  by unfold_locales (auto simp: woken_def)

definition wakes_only :: "db \<Rightarrow> db \<Rightarrow> bool" where
  "wakes_only s s' \<longleftrightarrow> rows_evolve woken (workflows s) (workflows s')"

interpretation waking: guarantee wakes_only
  by unfold_locales (auto simp: wakes_only_def woken_rows.evolve_refl intro: woken_rows.evolve_trans)

lemma waking_statements [guar_intros]:
  "guarantees wakes_only (append_event e)" "guarantees wakes_only (next_event_sequence i)"
  "guarantees wakes_only database_now_millis"
  by (auto simp: guarantees_def wakes_only_def append_event_Inr next_event_sequence_def tx_simps
      woken_rows.evolve_refl)

lemma waking_history [guar_intros]: "guarantees wakes_only (append_history i ty now)"
  unfolding append_history_def by (intro guar_intros)

lemma waking_update:
  "(\<And>r. P r \<Longrightarrow> woken r (f r)) \<Longrightarrow> guarantees wakes_only (fenced (workflow_update P f))"
  by (auto simp: guarantees_def wakes_only_def tx_simps intro!: woken_rows.evolve_update)

lemma waking_wake [guar_intros]:
  "guarantees wakes_only (wake_waiting_parents_on_child_terminal E child outcome now)"
proof -
  have "awaits_child x \<Longrightarrow> x \<noteq> WS_Paused \<Longrightarrow> x = WS_WaitingChild" for x
    by (cases x) auto
  then show ?thesis
    unfolding wake_waiting_parents_on_child_terminal_def wake_loaded_parent_on_child_terminal_def
    by (intro guar_intros waking_update) (auto simp: woken_def changes workflow_identity_def)
qed

lemma wakes_only_nth:
  "wakes_only s s' \<Longrightarrow> k < length (workflows s) \<Longrightarrow> woken (workflows s ! k) (workflows s' ! k)"
  by (simp add: wakes_only_def rows_evolve_def)

section \<open>Commits and failures\<close>

text \<open>
  Before its fenced update a commit only appends rows that are not running: a child it
  starts.
\<close>

definition starts_only :: "db \<Rightarrow> db \<Rightarrow> bool" where
  "starts_only s s' \<longleftrightarrow>
     (\<exists>new. workflows s' = workflows s @ new \<and> (\<forall>r \<in> set new. wf_status r \<noteq> WS_Running))"

interpretation starting: guarantee starts_only
proof
  show "starts_only s s" for s by (simp add: starts_only_def)
next
  fix s t u assume "starts_only s t" "starts_only t u"
  then obtain a b where "workflows t = workflows s @ a" "workflows u = workflows t @ b"
    "\<forall>r \<in> set (a @ b). wf_status r \<noteq> WS_Running" unfolding starts_only_def by fastforce
  then show "starts_only s u" unfolding starts_only_def by (intro exI [of _ "a @ b"]) simp
qed

lemma starting_statements [guar_intros]:
  "guarantees starts_only (append_event e)" "guarantees starts_only database_now_millis"
  "guarantees starts_only (insert_approval p)" "guarantees starts_only (insert_activity a)"
  by (auto simp: guarantees_def starts_only_def tx_simps append_event_Inr dest: insert_activity_Inr
      insert_approval_Inr)

lemma starting_insert_started:
  assumes "wf_status row \<noteq> WS_Running"
  shows "guarantees starts_only (insert_started row)"
proof -
  have "guarantees starts_only (insert_workflow row)"
  proof (rule guaranteesI)
    fix s a s' assume i: "insert_workflow row s = Inr (a, s')"
    show "starts_only s s'"
    proof (cases a)
      case (Inserted k)
      with i have "insert_workflow row s = Inr (Inserted k, s')" by simp
      from insert_workflow_Inserted(2) [OF this] assms show ?thesis by (simp add: starts_only_def)
    next
      case DeduplicationConflict
      with i have "s' = s" by (simp add: insert_workflow_Conflict)
      then show ?thesis by (simp add: starting.refl)
    qed
  qed
  then show ?thesis
    unfolding insert_started_def by (intro guar_intros starting.read [of "find_by_deduplication_key _ _"] keeps_intros)
qed

lemma starting_insert_child [guar_intros]: "guarantees starts_only (insert_child c key p n root)"
  unfolding insert_child_def insert_new_child_def
  by (intro guar_intros starting_insert_started starting.read keeps_intros)
    (simp add: new_workflow_row_def)

lemma starting_commands [guar_intros]:
  "guarantees starts_only (lock_fence claim)"
  "guarantees starts_only (is_caller_or_ancestor claim target)"
  "guarantees starts_only (insert_command_activity E w c n a at key root rep now)"
  unfolding lock_fence_def is_caller_or_ancestor_def insert_command_activity_def
  by (intro guar_intros starting.read keeps_intros)+

text \<open>
  What a fenced transaction does to the rows: \<open>Q\<close> relates the claimed row before and
  after, and every other row is at most woken.
\<close>

definition claimed_change :: "claimed_row \<Rightarrow> (workflow_row \<Rightarrow> workflow_row \<Rightarrow> bool) \<Rightarrow> db \<Rightarrow> db \<Rightarrow> bool" where
  "claimed_change claim Q s s' \<longleftrightarrow>
     (\<exists>k < length (workflows s). fenced_workflow claim (workflows s ! k) \<and>
        Q (workflows s ! k) (workflows s' ! k) \<and> length (workflows s) \<le> length (workflows s') \<and>
        (\<forall>j < length (workflows s). j \<noteq> k \<longrightarrow> woken (workflows s ! j) (workflows s' ! j)))"

lemma claimed_change_fenced:
  assumes "\<And>r. fenced_workflow claim r \<Longrightarrow> Q r (f r)"
  shows "guarantees (claimed_change claim Q) (fenced (workflow_update (fenced_workflow claim) f))"
proof (rule guaranteesI)
  fix s a s' assume "fenced (workflow_update (fenced_workflow claim) f) s = Inr (a, s')"
  then obtain k where "k < length (workflows s)" "fenced_workflow claim (workflows s ! k)"
    "s' = s\<lparr>workflows := (workflows s)[k := f (workflows s ! k)]\<rparr>"
    by (rule fenced_workflow_update_one)
  with assms show "claimed_change claim Q s s'"
    by (auto simp: claimed_change_def nth_list_update woken_rows.\<rho>_refl)
qed

lemma claimed_change_before:
  assumes "guarantees starts_only m"
    and "\<And>s a s'. m s = Inr (a, s') \<Longrightarrow> guarantees (claimed_change claim Q) (k a)"
  shows "guarantees (claimed_change claim Q) (tx_bind m k)"
proof (rule guaranteesI)
  fix s b s' assume "tx_bind m k s = Inr (b, s')"
  then obtain a s1 where m: "m s = Inr (a, s1)" and k: "k a s1 = Inr (b, s')"
    by (auto simp: tx_bind_Inr)
  from guaranteesD [OF assms(1) m] obtain new where
    s1: "workflows s1 = workflows s @ new" "\<forall>r \<in> set new. wf_status r \<noteq> WS_Running"
    by (auto simp: starts_only_def)
  from guaranteesD [OF assms(2) [OF m] k] obtain i where i: "i < length (workflows s1)"
    "fenced_workflow claim (workflows s1 ! i)" "Q (workflows s1 ! i) (workflows s' ! i)"
    "length (workflows s1) \<le> length (workflows s')"
    "\<forall>j < length (workflows s1). j \<noteq> i \<longrightarrow> woken (workflows s1 ! j) (workflows s' ! j)"
    by (auto simp: claimed_change_def)
  have old: "i < length (workflows s)"
  proof (rule ccontr)
    assume "\<not> i < length (workflows s)"
    with i(1) s1 have "workflows s1 ! i \<in> set new" by (simp add: nth_append)
    with s1(2) i(2) show False by (simp add: fenced_workflow_def)
  qed
  have "workflows s1 ! j = workflows s ! j" if "j < length (workflows s)" for j
    using s1(1) that by (simp add: nth_append)
  moreover have "length (workflows s) \<le> length (workflows s1)" using s1(1) by simp
  moreover from this have "woken (workflows s1 ! j) (workflows s' ! j)"
    if "j < length (workflows s)" "j \<noteq> i" for j using that i(5) by simp
  ultimately show "claimed_change claim Q s s'"
    unfolding claimed_change_def using i(2-4) old by (intro exI [of _ i]) auto
qed

lemma claimed_change_lock:
  "guarantees (claimed_change claim Q) k \<Longrightarrow>
   guarantees (claimed_change claim Q) (tx_seq (lock_fence claim) k)"
  unfolding tx_seq_def by (rule claimed_change_before [OF starting_commands(1)])

lemma claimed_change_fail: "guarantees (claimed_change claim Q) (tx_fail e)"
  by (simp add: guarantees_def tx_simps)

lemma claimed_change_after:
  assumes "guarantees (claimed_change claim Q) m" and "guarantees wakes_only k"
    and "\<And>r r' r''. Q r r' \<Longrightarrow> woken r' r'' \<Longrightarrow> Q r r''"
  shows "guarantees (claimed_change claim Q) (tx_seq m k)"
proof (rule guaranteesI)
  fix s b s' assume "tx_seq m k s = Inr (b, s')"
  then obtain a s1 where m: "m s = Inr (a, s1)" and k: "k s1 = Inr (b, s')"
    by (auto simp: tx_simps)
  from guaranteesD [OF assms(1) m] obtain i where i: "i < length (workflows s)"
    "fenced_workflow claim (workflows s ! i)" "Q (workflows s ! i) (workflows s1 ! i)"
    "length (workflows s) \<le> length (workflows s1)"
    "\<forall>j < length (workflows s). j \<noteq> i \<longrightarrow> woken (workflows s ! j) (workflows s1 ! j)"
    by (auto simp: claimed_change_def)
  from guaranteesD [OF assms(2) k] have len: "length (workflows s1) \<le> length (workflows s')"
    and w: "woken (workflows s1 ! j) (workflows s' ! j)" if "j < length (workflows s)" for j
    using that i(4) by (auto simp: wakes_only_def rows_evolve_def)
  show "claimed_change claim Q s s'"
    unfolding claimed_change_def
    using i w len [OF i(1)] assms(3) by (intro exI [of _ i]) (auto intro: woken_rows.\<rho>_trans)
qed

text \<open>
  What a commit promises of the claimed row: the event is consumed, the claim is released
  and the attempts of the activation are forgotten, and the status is that of the
  transition. A child that had ended already makes its new waiter ready at once.
\<close>

fun committed_status :: "stored_transition \<Rightarrow> workflow_status set" where
  "committed_status (Continue _) = {WS_Ready}"
| "committed_status (Complete _) = {WS_Succeeded}"
| "committed_status (SleepUntil _ _) = {WS_Sleeping}"
| "committed_status (WaitForApproval _ _ _) = {WS_WaitingApproval}"
| "committed_status (RunActivity _ _) = {WS_WaitingActivity}"
| "committed_status (RunChild _ _) = {WS_WaitingChild, WS_Ready}"

definition commit_effect ::
    "claimed_row \<Rightarrow> i32 \<Rightarrow> stored_transition \<Rightarrow> workflow_row \<Rightarrow> workflow_row \<Rightarrow> bool" where
  "commit_effect claim delivered transition r r' \<longleftrightarrow>
     wf_status r' \<in> committed_status transition \<and> wf_lease_token r' = None \<and>
     wf_delivered_event_sequence r' = delivered \<and> wf_activation_attempts r' = 0 \<and>
     wf_command_sequence r' =
       (case transition of
          Continue _ \<Rightarrow> wf_command_sequence r
        | Complete _ \<Rightarrow> wf_command_sequence r
        | _ \<Rightarrow> saturating_add 32 (wf_command_sequence (cl_row claim)) 1)"

lemma commit_effect_woken:
  "commit_effect claim d transition r r' \<Longrightarrow> woken r' r'' \<Longrightarrow> commit_effect claim d transition r r''"
  by (cases transition) (auto simp: commit_effect_def woken_def)

lemma commit_effect_command:
  "wf_status r' \<in> committed_status transition \<Longrightarrow> \<not> (\<exists>st. transition = Continue st) \<Longrightarrow>
   \<not> (\<exists>out. transition = Complete out) \<Longrightarrow>
   commit_effect claim d transition r
     (command_committed claim d (saturating_add 32 (wf_command_sequence (cl_row claim)) 1) st now r')"
  by (cases transition) (simp_all add: commit_effect_def coordinator_changes)

text \<open>The shape of every commit: a fenced update, then history and wakes.\<close>

lemma committed_then:
  assumes "\<And>r. fenced_workflow claim r \<Longrightarrow> commit_effect claim d transition r (f r)"
    and "guarantees wakes_only k"
  shows "guarantees (claimed_change claim (commit_effect claim d transition))
    (tx_seq (fenced (workflow_update (fenced_workflow claim) f)) k)"
  by (rule claimed_change_after [OF claimed_change_fenced])
    (use assms in \<open>auto intro: commit_effect_woken\<close>)

lemmas committed_intros = claimed_change_before claimed_change_lock claimed_change_fail committed_then
  commit_effect_command

lemma committed_continue:
  "guarantees (claimed_change claim (commit_effect claim d (Continue st)))
     (commit_continue config claim d st now)"
  unfolding commit_continue_def Let_def
  by (intro committed_intros guar_intros) (simp add: commit_effect_def coordinator_changes)

lemma committed_complete:
  "guarantees (claimed_change claim (commit_effect claim d (Complete out)))
     (commit_complete E claim d out now)"
  unfolding commit_complete_def
  by (intro committed_intros guar_intros) (simp add: commit_effect_def coordinator_changes)

abbreviation next_command :: "claimed_row \<Rightarrow> i32" where
  "next_command claim \<equiv> saturating_add 32 (wf_command_sequence (cl_row claim)) 1"

lemma committed_sleep:
  "guarantees (claimed_change claim (commit_effect claim d (SleepUntil st at)))
     (commit_sleep claim d (next_command claim) st at now)"
  unfolding commit_sleep_def
  by (intro committed_intros guar_intros) (simp_all add: changes)

lemma committed_approval:
  "guarantees (claimed_change claim (commit_effect claim d (WaitForApproval st json ex)))
     (commit_approval claim d (next_command claim) st json ex now)"
  unfolding commit_approval_def
  by (intro committed_intros guar_intros) (simp_all add: changes)

lemma committed_activity:
  "guarantees (claimed_change claim (commit_effect claim d (RunActivity st a)))
     (commit_activity E claim d (next_command claim) st a now)"
  unfolding commit_activity_def
  by (intro committed_intros guar_intros) (simp_all add: changes)

lemma committed_child:
  "guarantees (claimed_change claim (commit_effect claim d (RunChild st child)))
     (commit_child E claim d (next_command claim) st child now)"
  unfolding commit_child_def set_child_wait_def Let_def
  by (intro committed_intros guar_intros) (simp_all add: changes)

text \<open>
  C5: a commit that returns has consumed the event. The row it was claimed for was running
  under the claim's token; afterwards its delivery counter is the event's sequence, its
  lease is gone, its attempts are zero, its command counter advanced exactly when the
  transition is a command, and its status is the one the transition asks for. Every other
  row is unchanged, or a parent that waited for this child and is woken (S4, S6).
\<close>

theorem commit_consumes_event:
  assumes "commit_on_connection E config claim event transition s = Inr (u, s')"
  shows "\<exists>delivered. ev_delivery_sequence event = Some delivered \<and>
    claimed_change claim (commit_effect claim delivered transition) s s'"
proof -
  from assms obtain d where d: "ev_delivery_sequence event = Some d"
    by (auto simp: commit_on_connection_def tx_simps)
  have "guarantees (claimed_change claim (commit_effect claim d transition))
    (commit_on_connection E config claim event transition)"
    unfolding commit_on_connection_def Let_def d
    by (intro claimed_change_before guar_intros; cases transition)
      (simp_all add: tx_simps committed_continue committed_complete committed_sleep
        committed_approval committed_activity committed_child)
  with assms d show ?thesis by (blast dest: guaranteesD)
qed

text \<open>A workflow that runs under a lease, with its first event undelivered.\<close>

definition sample_running :: db where
  "sample_running = sample_db\<lparr>workflows := [sample_parent,
     sample_child\<lparr>wf_status := WS_Running, wf_wait_kind := None, wf_wait_reference_id := None,
       wf_lease_owner := Some ''w'', wf_lease_token := Some ''t'', wf_lease_expires_at := Some 9000\<rparr>]\<rparr>"

definition sample_claim :: claimed_row where
  "sample_claim = \<lparr>cl_row = workflows sample_running ! 1, cl_lease_token = ''t''\<rparr>"

theorem commit_consumes_event_witness:
  "let s' = snd (projr (commit_on_connection sample_externals CoordinatorConfig_default sample_claim
     (system_event 2 2 (Some 2) ''e'' None None 10) (Complete ''{}'') sample_running))
   in claimed_change sample_claim (commit_effect sample_claim 2 (Complete ''{}'')) sample_running s'"
proof -
  let ?m = "commit_on_connection sample_externals CoordinatorConfig_default sample_claim
     (system_event 2 2 (Some 2) ''e'' None None 10) (Complete ''{}'') sample_running"
  have "\<not> isl ?m" by code_simp
  from commit_consumes_event [OF returned [OF this]] show ?thesis by (simp add: system_event_def)
qed

text \<open>What a failed activation does to the claimed row.\<close>

definition failure_effect :: "coordinator_config \<Rightarrow> workflow_row \<Rightarrow> workflow_row \<Rightarrow> bool" where
  "failure_effect config r r' \<longleftrightarrow>
     (let attempt = saturating_add 32 (wf_activation_attempts r) 1;
          bound = min (wf_max_activation_attempts r) (i32_or_max (max_activation_attempts config))
      in
     wf_activation_attempts r' = attempt \<and> wf_lease_token r' = None \<and>
     wf_delivered_event_sequence r' = wf_delivered_event_sequence r \<and>
     wf_command_sequence r' = wf_command_sequence r \<and> wf_state_json r' = wf_state_json r \<and>
     wf_status r' = (if attempt \<ge> bound then WS_Failed else WS_Ready))"

lemma fenced_update_found:
  assumes "fenced (workflow_update P f) s = Inr (u, s')" and "r \<in> set (workflows s)" and "P r"
  obtains k where "k < length (workflows s)" "workflows s ! k = r"
    "s' = s\<lparr>workflows := (workflows s)[k := f r]\<rparr>"
proof -
  from assms(1) have "length (filter P (workflows s)) = 1" by (auto simp: tx_simps)
  from filter_one_index [OF this] obtain i where
    i: "\<forall>j < length (workflows s). j \<noteq> i \<longrightarrow> \<not> P (workflows s ! j)" by blast
  obtain k where k: "k < length (workflows s)" "P (workflows s ! k)"
    "s' = s\<lparr>workflows := (workflows s)[k := f (workflows s ! k)]\<rparr>"
    using assms(1) by (rule fenced_workflow_update_one)
  from assms(2) obtain j where j: "j < length (workflows s)" "workflows s ! j = r"
    by (auto simp: in_set_conv_nth)
  with assms(3) i k(1,2) have "j = k" by metis
  with j k that show ?thesis by simp
qed

text \<open>One row changed under the fence, then history and wakes.\<close>

lemma claimed_change_found:
  assumes upd: "fenced (workflow_update P f) s0 = Inr (a, s1)" and s0: "workflows s0 = workflows s"
    and r: "r \<in> set (workflows s)" "P r" "fenced_workflow claim r" "Q r (f r)"
    and w: "wakes_only s1 s'" and calm: "\<not> awaits_child (wf_status (f r))"
  shows "claimed_change claim Q s s'"
proof -
  from r(1) s0 have "r \<in> set (workflows s0)" by simp
  with upd obtain k where k: "k < length (workflows s0)" "workflows s0 ! k = r"
    "s1 = s0\<lparr>workflows := (workflows s0)[k := f r]\<rparr>"
    using r(2) by (rule fenced_update_found)
  have len: "length (workflows s1) = length (workflows s)" "length (workflows s) \<le> length (workflows s')"
    using k(3) s0 w by (auto simp: wakes_only_def rows_evolve_def)
  have "workflows s' ! k = f r"
    using wakes_only_nth [OF w, of k] k calm by (simp add: woken_def)
  moreover have "woken (workflows s ! j) (workflows s' ! j)" if "j < length (workflows s)" "j \<noteq> k" for j
    using wakes_only_nth [OF w, of j] k s0 len(1) that by (simp add: nth_list_update)
  ultimately show ?thesis
    unfolding claimed_change_def using k r s0 len(2) by (intro exI [of _ k]) auto
qed

text \<open>
  C8: an activation failure is counted and bounded. When T-C3 returns, the row was running
  under the claim's token; its attempts are one more, the event stays undelivered, and it
  has failed exactly when the attempts reach the smaller of its own and the configured
  bound, and is ready again otherwise. No other row is touched but a woken parent (S8).
\<close>

theorem activation_failure_is_counted:
  assumes "record_activation_failure E config claim message s = Inr (u, s')"
  shows "claimed_change claim (failure_effect config) s s'"
proof -
  let ?attempt = "\<lambda>c. saturating_add 32 (wf_activation_attempts c) 1"
  let ?exhausted = "\<lambda>c. min (wf_max_activation_attempts c) (i32_or_max (max_activation_attempts config))
    \<le> ?attempt c"
  let ?error = "WorkflowError_new ''activation'' message"
  let ?P = "\<lambda>c r. wf_id r = wf_id c \<and> wf_status r = WS_Running \<and>
    wf_lease_token r = Some (cl_lease_token claim)"
  let ?f = "\<lambda>c now millis r. workflow_lease_cleared (r
    \<lparr>wf_status := (if ?exhausted c then WS_Failed else WS_Ready), wf_activation_attempts := ?attempt c,
     wf_available_at := saturating_plus_millis now millis,
     wf_error_category := Some (we_category ?error), wf_error_message := Some (we_message ?error),
     wf_updated_at := now, wf_completed_at := (if ?exhausted c then Some now else None)\<rparr>)"
  let ?k = "\<lambda>c now. tx_seq (append_history (wf_id c)
      (if ?exhausted c then ''activation_exhausted'' else ''activation_failed'') now)
    (if ?exhausted c then wake_waiting_parents_on_child_terminal E c
       (Inl (we_category ?error, we_message ?error)) now else tx_return ())"
  let ?now = "clock s (clock_reads s)" and ?s0 = "s\<lparr>clock_reads := Suc (clock_reads s)\<rparr>"
  from assms obtain current millis a s1 where
      cur: "find (fenced_workflow claim) (workflows s) = Some current"
    and upd: "fenced (workflow_update (?P current) (?f current ?now millis)) ?s0 = Inr (a, s1)"
    and rest: "?k current ?now s1 = Inr (u, s')"
    unfolding record_activation_failure_def Let_def tx_bind_Inr
    by (auto simp only: tx_seq_Inr [of "fenced _"] tx_query_Inr tx_some_Inr tx_lift_Inr
        database_now_millis_Inr)
  have k: "guarantees wakes_only (?k current ?now)" by (intro guar_intros)
  have s0: "workflows ?s0 = workflows s" by simp
  from find_mem [OF cur] have mem: "current \<in> set (workflows s)" "fenced_workflow claim current"
    by auto
  show ?thesis
    by (rule claimed_change_found [OF upd s0 mem(1) _ mem(2) _ guaranteesD [OF k rest]])
      (use mem(2) in \<open>simp_all add: fenced_workflow_def failure_effect_def changes\<close>)
qed

theorem activation_failure_is_counted_witness:
  "claimed_change sample_claim (failure_effect CoordinatorConfig_default) sample_running
     (snd (projr (record_activation_failure sample_externals CoordinatorConfig_default sample_claim
       ''boom'' sample_running)))"
proof -
  let ?m = "record_activation_failure sample_externals CoordinatorConfig_default sample_claim
       ''boom'' sample_running"
  have "\<not> isl ?m" by code_simp
  from activation_failure_is_counted [OF returned [OF this]] show ?thesis .
qed

section \<open>The walk to the ancestors ends\<close>

definition claim_links_ok :: "claimed_row \<Rightarrow> bool" where
  "claim_links_ok claim \<longleftrightarrow>
     (\<forall>j. wf_parent_workflow_id (cl_row claim) = Some j \<longrightarrow> j < wf_id (cl_row claim)) \<and>
     (\<forall>j. wf_restarted_from_workflow_id (cl_row claim) = Some j \<longrightarrow> j < wf_id (cl_row claim))"

text \<open>Every link leads to an older row; a link that leads nowhere is an error.\<close>

definition older_count :: "db \<Rightarrow> i64 \<Rightarrow> nat" where
  "older_count s i = length (filter (\<lambda>r. wf_id r < i) (workflows s))"

lemma older_count_less:
  assumes "r \<in> set (workflows s)" and "wf_id r < i"
  shows "older_count s (wf_id r) < older_count s i"
  unfolding older_count_def using assms
proof (induction "workflows s" arbitrary: s)
  case (Cons x xs)
  have mono: "length (filter (\<lambda>q. wf_id q < wf_id r) xs) \<le> length (filter (\<lambda>q. wf_id q < i) xs)"
    using Cons.prems(2) by (induction xs) auto
  from Cons.hyps(2) Cons.prems(1) consider "x = r" | "r \<in> set xs" by (metis set_ConsD)
  then show ?case
  proof cases
    case 1
    with mono Cons.prems(2) show ?thesis by (simp flip: Cons.hyps(2))
  next
    case 2
    with Cons.hyps(1) [of "s\<lparr>workflows := xs\<rparr>"] Cons.prems(2)
    show ?thesis by (simp flip: Cons.hyps(2))
  qed
qed simp

lemma caller_or_ancestor_ends:
  assumes "keys_ok s" and "claim_links_ok claim" and "i \<le> wf_id (cl_row claim)" and "0 < fuel"
    and "i = wf_id (cl_row claim) \<or> workflow_by_id s i \<noteq> None \<Longrightarrow> older_count s i + 1 < fuel"
  shows "caller_or_ancestor_loop fuel claim target (Some i) s \<noteq> Inl Diverges"
  using assms(3-)
proof (induction fuel arbitrary: i)
  case (Suc fuel)
  let ?next = "\<lambda>r. case wf_parent_workflow_id r of Some p \<Rightarrow> Some p | None \<Rightarrow> wf_restarted_from_workflow_id r"
  have step: "caller_or_ancestor_loop fuel claim target (?next r) s \<noteq> Inl Diverges"
    if known: "i = wf_id (cl_row claim) \<or> workflow_by_id s i \<noteq> None"
      and older: "\<And>j. ?next r = Some j \<Longrightarrow> j < i" for r
  proof (cases "?next r")
    case None
    from Suc.prems(3) [OF known] obtain f where "fuel = Suc f" by (cases fuel) auto
    with None show ?thesis by (simp add: tx_eval)
  next
    case (Some j)
    then have j: "j < i" by (rule older)
    have "older_count s j + 1 < fuel" if "workflow_by_id s j \<noteq> None"
    proof -
      from that obtain q where "q \<in> set (workflows s)" "wf_id q = j"
        by (auto simp: workflow_by_id_def dest: find_key_mem)
      with older_count_less [of q s i] j Suc.prems(3) [OF known] show ?thesis by simp
    qed
    with Suc.IH [of j] j Suc.prems known show ?thesis by (simp add: Some)
  qed
  show ?case
  proof (cases "i = wf_id (cl_row claim)")
    case True
    with assms(2) have "j < i" if "?next (cl_row claim) = Some j" for j
      using that by (auto simp: claim_links_ok_def split: option.splits)
    from step [OF _ this, of "cl_row claim"] True show ?thesis by (simp add: tx_eval)
  next
    case False
    show ?thesis
    proof (cases "workflow_by_id s i")
      case None
      with False show ?thesis by (simp add: tx_eval find_workflow_by_id_def)
    next
      case (Some r)
      then have r: "r \<in> set (workflows s)" "wf_id r = i"
        by (auto simp: workflow_by_id_def dest: find_key_mem)
      have "\<forall>j. wf_restarted_from_workflow_id r = Some j \<longrightarrow> j < wf_id r"
        "\<forall>j. wf_parent_workflow_id r = Some j \<longrightarrow> j < wf_id r"
        using assms(1) r(1) unfolding keys_ok_def workflow_keys_ok_def by blast+
      with r(2) have "j < i" if "?next r = Some j" for j
        using that by (auto split: option.splits)
      from step [OF _ this, of r] Some False show ?thesis
        by (simp add: tx_eval find_workflow_by_id_def)
    qed
  qed
qed simp

lemma ends_is_caller_or_ancestor:
  "claim_links_ok claim \<Longrightarrow> ends keys_ok (is_caller_or_ancestor claim target)"
proof (rule endsI)
  fix s assume "claim_links_ok claim" "keys_ok s"
  moreover have "older_count s (wf_id (cl_row claim)) \<le> length (workflows s)"
    by (simp add: older_count_def)
  ultimately show "is_caller_or_ancestor claim target s \<noteq> Inl Diverges"
    using caller_or_ancestor_ends [of s claim "wf_id (cl_row claim)"]
    by (simp add: is_caller_or_ancestor_def tx_eval del: caller_or_ancestor_loop.simps)
qed

lemma ends_child_start [ends_intros]:
  "(\<And>i. q = Child_Inserted i \<Longrightarrow> ends I (m i)) \<Longrightarrow> (\<And>r. q = Child_Existing r \<Longrightarrow> ends I (k r)) \<Longrightarrow>
   ends I (case q of Child_Inserted i \<Rightarrow> m i | Child_Existing r \<Rightarrow> k r)"
  by (cases q) auto

lemma ends_coordinator_statements [ends_intros]:
  "ends (\<lambda>_. True) (append_history i ty now)" "ends I (insert_activity a)" "ends I (insert_approval p)"
  "ends (\<lambda>_. True) (lock_fence claim)"
  "ends (\<lambda>_. True) (insert_command_activity E w c n x at key root rep now)"
proof -
  show activity: "ends I (insert_activity a)" for I a
    by (auto simp: ends_def insert_activity_def)
  show "ends I (insert_approval p)" by (auto simp: ends_def insert_approval_def)
  show "ends (\<lambda>_. True) (append_history i ty now)" "ends (\<lambda>_. True) (lock_fence claim)"
    unfolding append_history_def lock_fence_def by (intro ends_intros keeps_True)+
  show "ends (\<lambda>_. True) (insert_command_activity E w c n x at key root rep now)"
    unfolding insert_command_activity_def by (intro ends_intros activity keeps_True)
qed

lemma ends_commit_child:
  "claim_links_ok claim \<Longrightarrow> ends keys_ok (commit_child E claim d c st child now)"
  unfolding commit_child_def Let_def set_child_wait_def
  by (intro ends_intros ends_is_caller_or_ancestor ends_insert_child evolves_keys guar_intros
     ends_keys [OF ends_fenced] ends_keys [OF ends_wake] ends_keys [OF ends_coordinator_statements(1)]
     evolves_fenced_workflow)
    (simp_all add: workflow_identity_def coordinator_changes is_caller_or_ancestor_def guar_intros)

lemma ends_commits:
  "ends (\<lambda>_. True) (commit_continue config claim d st now)"
  "ends (\<lambda>_. True) (commit_complete E claim d out now)"
  "ends (\<lambda>_. True) (commit_sleep claim d c st at now)"
  "ends (\<lambda>_. True) (commit_approval claim d c st json ex now)"
  "ends (\<lambda>_. True) (commit_activity E claim d c st a now)"
  unfolding commit_continue_def commit_complete_def commit_sleep_def commit_approval_def
    commit_activity_def Let_def
  by (intro ends_intros keeps_True)+

lemma ends_scan:
  assumes "\<And>e. ends keys_ok (k e)"
  shows "ends keys_ok (tx_bind (tx_query (\<lambda>s. Suc (length (workflows s)))) (\<lambda>fuel.
    tx_bind (scan_expired held now fuel None) k))"
proof (rule endsI)
  fix s assume s: "keys_ok s"
  have "length (expired_candidates now None s) < Suc (length (workflows s))"
    by (simp add: expired_candidates_def le_imp_less_Suc)
  note scan = scan_expired_first [OF s this, of held]
  show "tx_bind (tx_query (\<lambda>s. Suc (length (workflows s)))) (\<lambda>fuel.
    tx_bind (scan_expired held now fuel None) k) s \<noteq> Inl Diverges"
    using endsD [OF assms s] scan by (simp add: tx_bind_def tx_query_def del: scan_expired.simps)
qed

lemma ends_claim_row: "ends keys_ok (claim_row held config w defs tok)"
  unfolding claim_row_def recover_expired_def lease_ready_def
  by (intro ends_intros ends_scan ends_keys [OF ends_fenced] ends_keys [OF ends_coordinator_statements(1)]
      evolves_keys guar_intros evolves_workflow_update)
    (auto simp: workflow_identity_def coordinator_changes intro!: workflow_evolves_live)

lemma ends_transition:
  assumes "\<And>st. ends I (c st)" "\<And>out. ends I (f out)" "\<And>st at. ends I (sl st at)"
    "\<And>st json ex. ends I (ap st json ex)" "\<And>st a. ends I (ac st a)" "\<And>st child. ends I (ch st child)"
  shows "ends I (case t of Continue st \<Rightarrow> c st | Complete out \<Rightarrow> f out | SleepUntil st at \<Rightarrow> sl st at
    | WaitForApproval st json ex \<Rightarrow> ap st json ex | RunActivity st a \<Rightarrow> ac st a | RunChild st child \<Rightarrow> ch st child)"
  using assms by (cases t) simp_all

text \<open>
  C11: every activation transaction ends. On tables whose keys are consistent, the claim
  (with its paged scan), the commit of any transition (with the walk to the ancestors of
  a child's caller) and the record of a failure return or fail with an error of the engine.
\<close>

theorem coordinator_loops_end:
  assumes "keys_ok s" and "claim_links_ok claim"
  shows "claim_row held config worker defs token s \<noteq> Inl Diverges \<and>
    commit_on_connection E config claim event transition s \<noteq> Inl Diverges \<and>
    record_activation_failure E config claim message s \<noteq> Inl Diverges"
proof (intro conjI)
  show "claim_row held config worker defs token s \<noteq> Inl Diverges"
    using ends_claim_row assms(1) by (rule endsD)
  have "ends keys_ok (commit_on_connection E config claim event transition)"
    unfolding commit_on_connection_def Let_def
    by (intro ends_intros ends_transition ends_commits [THEN ends_keys] ends_commit_child assms(2)
        evolves_keys guar_intros)
  then show "commit_on_connection E config claim event transition s \<noteq> Inl Diverges"
    using assms(1) by (rule endsD)
  have "ends (\<lambda>_. True) (record_activation_failure E config claim message)"
    unfolding record_activation_failure_def Let_def by (intro ends_intros keeps_True)
  then show "record_activation_failure E config claim message s \<noteq> Inl Diverges"
    by (rule endsD) simp
qed

theorem coordinator_loops_end_witness:
  "claim_row (\<lambda>_. False) CoordinatorConfig_default ''w'' [(''job'', 1)] ''t'' sample_db \<noteq> Inl Diverges \<and>
   commit_on_connection sample_externals CoordinatorConfig_default sample_claim
     (system_event 2 2 (Some 2) ''e'' None None 10)
     (RunChild ''{}'' (\<lparr>cc_kind = ''order'', cc_version = 1, cc_input_json = ''{}'', cc_state_json = ''{}'',
        cc_deduplication_key = Some ''k''\<rparr>)) sample_db \<noteq> Inl Diverges"
proof -
  have "claim_links_ok sample_claim"
    by (simp add: claim_links_ok_def sample_claim_def sample_running_def sample_defs)
  from coordinator_loops_end [OF sample_keys_ok this] show ?thesis by blast
qed

end
