(* ===== verification/Topics.thy ===== *)
theory Topics
  imports Coordinator "HOL-Library.Char_ord" "HOL-Library.List_Lexorder"
begin

text \<open>
  Activity topics (\<open>TopicRegistry\<close> of \<open>src/registry.rs\<close>): the registered queues with their
  concurrency limits, and the rows of \<open>durable_topic_lock\<close> they seed. The registry's
  \<open>HashMap\<close> is a list of definitions with distinct keys.
\<close>

record topic_definition =
  td_key :: string
  td_max_concurrency :: u32

type_synonym topic_registry = "topic_definition list"

definition topic_lead :: "char \<Rightarrow> bool" where
  "topic_lead c \<longleftrightarrow> CHR ''a'' \<le> c \<and> c \<le> CHR ''z'' \<or> CHR ''0'' \<le> c \<and> c \<le> CHR ''9''"

definition is_canonical_topic_key :: "string \<Rightarrow> bool" where
  "is_canonical_topic_key key =
     (case key of
        [] \<Rightarrow> False
      | c # cs \<Rightarrow> topic_lead c \<and> list_all (\<lambda>ch. topic_lead ch \<or> ch \<in> set ''._-'') cs)"

definition topic_get :: "topic_registry \<Rightarrow> string \<Rightarrow> topic_definition option" where
  "topic_get T key = find (\<lambda>d. td_key d = key) T"

definition TopicRegistry_register ::
    "topic_registry \<Rightarrow> string \<Rightarrow> u32 \<Rightarrow> durable_error + topic_registry" where
  "TopicRegistry_register T key max_concurrency =
     (if key = [] then Inl (InvalidDefinition ''activity topic key cannot be empty'')
      else if \<not> is_canonical_topic_key key
      then Inl (InvalidDefinition (''activity topic '' @ key @ '' must match [a-z0-9][a-z0-9._-]*''))
      else if max_concurrency = 0
      then Inl (InvalidDefinition (''activity topic '' @ key @
             '' must allow at least one concurrent activity''))
      else
        (case topic_get T key of
           Some existing \<Rightarrow>
             if td_max_concurrency existing = max_concurrency then Inr T
             else Inl (InvalidDefinition (''activity topic '' @ key @
                    '' has conflicting concurrency limits '' @ dec_int (td_max_concurrency existing) @
                    '' and '' @ dec_int max_concurrency))
         | None \<Rightarrow> Inr (T @ [\<lparr>td_key = key, td_max_concurrency = max_concurrency\<rparr>])))"

definition TopicRegistry_definitions :: "topic_registry \<Rightarrow> topic_definition list" where
  "TopicRegistry_definitions T = sort_key td_key T"

section \<open>Seeding the lock rows\<close>

definition topic_lock_row_of :: "db_millis \<Rightarrow> topic_definition \<Rightarrow> durable_error + topic_lock_row" where
  "topic_lock_row_of timestamp d =
     (case i32_try_from (td_max_concurrency d) of
        None \<Rightarrow> Inl (InvalidDefinition (''activity topic '' @ td_key d @ '' concurrency limit '' @
                  dec_int (td_max_concurrency d) @ '' exceeds '' @ dec_int (max_signed 32)))
      | Some limit \<Rightarrow> Inr \<lparr>tl_topic = td_key d, tl_max_concurrency = limit, tl_updated_at = timestamp\<rparr>)"

fun collect_results :: "('e + 'a) list \<Rightarrow> 'e + 'a list" where
  "collect_results [] = Inr []"
| "collect_results (Inl e # rs) = Inl e"
| "collect_results (Inr x # rs) =
     (case collect_results rs of Inl e \<Rightarrow> Inl e | Inr xs \<Rightarrow> Inr (x # xs))"

definition insert_topic_locks_if_absent :: "topic_lock_row list \<Rightarrow> unit dtx" where
  "insert_topic_locks_if_absent rows = (\<lambda>s.
     if \<exists>r \<in> set rows. tl_max_concurrency r \<le> 0
     then Inl (Err (check_violation ''durable_topic_lock''))
     else Inr ((), s\<lparr>topic_locks := topic_locks s @
       filter (\<lambda>r. \<forall>q \<in> set (topic_locks s). tl_topic q \<noteq> tl_topic r) rows\<rparr>))"

fun check_persisted :: "topic_registry \<Rightarrow> topic_lock_row list \<Rightarrow> durable_error + unit" where
  "check_persisted T [] = Inr ()"
| "check_persisted T (r # rs) =
     (case topic_get T (tl_topic r) of
        None \<Rightarrow> Inl (InvalidState (''persisted topic '' @ tl_topic r @ '' was not registered''))
      | Some d \<Rightarrow>
          (case u32_try_from (tl_max_concurrency r) of
             None \<Rightarrow> Inl (InvalidState (''activity topic '' @ tl_topic r @
                       '' has invalid persisted concurrency limit '' @ dec_int (tl_max_concurrency r)))
           | Some limit \<Rightarrow>
               if limit \<noteq> td_max_concurrency d
               then Inl (InvalidDefinition (''activity topic '' @ tl_topic r @
                      '' persisted concurrency limit '' @ dec_int (tl_max_concurrency r) @
                      '' does not match registered limit '' @ dec_int (td_max_concurrency d)))
               else check_persisted T rs))"

text \<open>
  \<open>seed_locks_once\<close> is not a transaction: the clock is read, the rows are inserted and the
  persisted limits are checked by three statements, and \<open>others k\<close> is what other processes do
  between them. The result is what it returns and the database it leaves. \<open>seed_locks\<close> does
  this once per registry: \<open>seeded\<close> says that it has succeeded before.
\<close>

definition seed_locks_once ::
    "topic_registry \<Rightarrow> (nat \<Rightarrow> db \<Rightarrow> db) \<Rightarrow> db \<Rightarrow> (durable_error fault + unit) \<times> db" where
  "seed_locks_once T others s =
     (let timestamp = clock s (clock_reads s); s1 = s\<lparr>clock_reads := Suc (clock_reads s)\<rparr> in
      case collect_results (map (topic_lock_row_of timestamp) T) of
        Inl e \<Rightarrow> (Inl (Err e), s1)
      | Inr unsorted \<Rightarrow>
          if unsorted = [] then (Inr (), s1)
          else
            (let rows = sort_key tl_topic unsorted; s2 = others 0 s1 in
             case insert_topic_locks_if_absent rows s2 of
               Inl e \<Rightarrow> (Inl e, s2)
             | Inr (_, s3) \<Rightarrow>
                 (let s4 = others 1 s3 in
                  case check_persisted T
                    (filter (\<lambda>r. tl_topic r \<in> set (map tl_topic rows)) (topic_locks s4)) of
                    Inl e \<Rightarrow> (Inl (Err e), s4)
                  | Inr _ \<Rightarrow> (Inr (), s4))))"

definition seed_locks ::
    "topic_registry \<Rightarrow> bool \<Rightarrow> (nat \<Rightarrow> db \<Rightarrow> db) \<Rightarrow> db \<Rightarrow> (durable_error fault + unit) \<times> db" where
  "seed_locks T seeded others s = (if seeded then (Inr (), s) else seed_locks_once T others s)"

section \<open>What seeding establishes\<close>

lemma topic_get_mem:
  "distinct (map td_key T) \<Longrightarrow> d \<in> set T \<Longrightarrow> topic_get T (td_key d) = Some d"
  unfolding topic_get_def by (rule find_key_distinct)

lemma register_distinct:
  "TopicRegistry_register T key limit = Inr T' \<Longrightarrow> distinct (map td_key T) \<Longrightarrow>
   distinct (map td_key T')"
  by (auto simp: TopicRegistry_register_def topic_get_def find_None_iff split: if_splits option.splits)

lemma collect_results_Inr:
  "collect_results rs = Inr xs \<Longrightarrow> rs = map Inr xs"
  by (induction rs arbitrary: xs rule: collect_results.induct) (auto split: sum.splits)

lemma check_persisted_Inr:
  assumes "check_persisted T rs = Inr u" and "r \<in> set rs"
  shows "\<exists>d. topic_get T (tl_topic r) = Some d \<and> tl_max_concurrency r = td_max_concurrency d"
  using assms
  by (induction rs) (auto simp: u32_try_from_def split: option.splits if_splits)

text \<open>
  Seeding agrees with the registry. When it returns, every registered topic has a lock
  row and each of those rows carries the registered limit; rows that were there before are
  unchanged, so a process with another limit for a topic is refused.
\<close>

lemma seeded_limits_match_registry:
  assumes "seed_locks_once T others s = (Inr (), s')" and "distinct (map td_key T)"
    and only_added: "\<And>k t. \<exists>new. topic_locks (others k t) = topic_locks t @ new"
  shows "(\<forall>d \<in> set T. \<exists>r \<in> set (topic_locks s'). tl_topic r = td_key d) \<and>
    (\<forall>d \<in> set T. \<forall>r \<in> set (topic_locks s'). tl_topic r = td_key d \<longrightarrow>
       tl_max_concurrency r = td_max_concurrency d) \<and>
    (\<exists>new. topic_locks s' = topic_locks s @ new)"
proof (cases "T = []")
  case True
  with assms(1) show ?thesis by (auto simp: seed_locks_once_def Let_def)
next
  case False
  let ?now = "clock s (clock_reads s)" and ?s1 = "s\<lparr>clock_reads := Suc (clock_reads s)\<rparr>"
  from assms(1) False obtain unsorted s3 where
      u: "collect_results (map (topic_lock_row_of ?now) T) = Inr unsorted"
    and ins: "insert_topic_locks_if_absent (sort_key tl_topic unsorted) (others 0 ?s1) = Inr ((), s3)"
    and chk: "check_persisted T
      (filter (\<lambda>r. tl_topic r \<in> set (map tl_topic (sort_key tl_topic unsorted))) (topic_locks s')) = Inr ()"
    and s': "s' = others 1 s3"
    by (auto simp: seed_locks_once_def Let_def split: sum.splits if_splits dest: collect_results_Inr)
  from collect_results_Inr [OF u] have rows: "map (topic_lock_row_of ?now) T = map Inr unsorted" .
  have topics: "map tl_topic unsorted = map td_key T"
    using rows by (induction T arbitrary: unsorted)
      (auto simp: topic_lock_row_of_def split: option.splits)
  obtain early where early: "topic_locks (others 0 ?s1) = topic_locks s @ early" using only_added [of 0 ?s1] by auto
  obtain late where late: "topic_locks s' = topic_locks s3 @ late" using only_added [of 1 s3] s' by auto
  from ins have s3: "topic_locks s3 = topic_locks s @ early @
      filter (\<lambda>r. \<forall>q \<in> set (topic_locks s @ early). tl_topic q \<noteq> tl_topic r) (sort_key tl_topic unsorted)"
    by (auto simp: insert_topic_locks_if_absent_def early split: if_splits)
  have key: "td_key d \<in> tl_topic ` set unsorted" if "d \<in> set T" for d
    using that topics by (metis image_eqI image_set)
  show ?thesis
  proof (intro conjI ballI impI)
    fix d assume d: "d \<in> set T"
    from key [OF d] obtain r where r: "r \<in> set unsorted" "tl_topic r = td_key d" by auto
    then have "\<exists>r \<in> set (topic_locks s3). tl_topic r = td_key d"
      unfolding s3 set_append set_filter set_sort
      by (cases "\<exists>q \<in> set (topic_locks s @ early). tl_topic q = tl_topic r") auto
    then show "\<exists>r \<in> set (topic_locks s'). tl_topic r = td_key d" using late by auto
  next
    fix d r assume d: "d \<in> set T" and r: "r \<in> set (topic_locks s')" "tl_topic r = td_key d"
    with key [OF d] have "r \<in> set (filter (\<lambda>r. tl_topic r \<in> set (map tl_topic (sort_key tl_topic unsorted)))
      (topic_locks s'))" by auto
    from check_persisted_Inr [OF chk this] topic_get_mem [OF assms(2) d] r(2)
    show "tl_max_concurrency r = td_max_concurrency d" by auto
  qed (use s3 late in auto)
qed

end
