(* ===== verification/Activity_Worker.thy ===== *)
theory Activity_Worker
  imports Topics
begin

text \<open>
  The activity worker (\<open>src/runtime/activity_worker.rs\<close>): claiming activities of a topic
  under its concurrency limit, with reconciliation of expired leases and quarantine of rows
  that cannot run (T-W1), renewing a lease (T-W2), and finishing an attempt (T-W3).

  As in the coordinator, the rows other transactions hold (for \<open>SKIP LOCKED\<close>), the fresh
  lease tokens and the local monotonic clock are arguments. A query without an order is
  read in table order.
\<close>

section \<open>Claims\<close>

definition CLAIM_CANDIDATE_SCAN_LIMIT :: nat where
  "CLAIM_CANDIDATE_SCAN_LIMIT = 32"

definition INVALID_ROW_CATEGORY :: string where
  "INVALID_ROW_CATEGORY = ''invalid_row''"

record worker_config =
  heartbeat_interval :: nanos
  shutdown_grace :: nanos

definition WorkerConfig_default :: worker_config where
  "WorkerConfig_default = \<lparr>heartbeat_interval = 5 * 10 ^ 9, shutdown_grace = 30 * 10 ^ 9\<rparr>"

definition ActivityWorker_new :: "string \<Rightarrow> worker_config \<Rightarrow> durable_error + unit" where
  "ActivityWorker_new worker_id config =
     (if worker_id = [] \<or> heartbeat_interval config = 0 \<or> shutdown_grace config = 0
      then Inl (InvalidDefinition ''activity worker identity and bounds must be non-zero'')
      else Inr ())"

text \<open>A monotonic instant in nanoseconds; \<open>checked_add\<close> fails when its seconds leave \<open>i64\<close>.\<close>

type_synonym instant = int

definition instant_checked_add :: "instant \<Rightarrow> nanos \<Rightarrow> instant option" where
  "instant_checked_add t d = (if (t + d) div 10 ^ 9 \<le> max_signed 64 then Some (t + d) else None)"

record activity_claim =
  clm_row :: activity_row
  clm_schedule_run_id :: "i64 option"
  clm_attempt_number :: i32
  clm_lease_token :: string
  clm_lease_deadline :: instant
  clm_retry_policy :: retry_policy

definition claim_attempt_number :: "activity_claim \<Rightarrow> durable_error + u32" where
  "claim_attempt_number claim =
     (case u32_try_from (clm_attempt_number claim) of
        None \<Rightarrow> Inl (InvalidState ''negative activity attempt'')
      | Some n \<Rightarrow> Inr n)"

text \<open>The two fences: the attempt still runs, or it still holds its lease.\<close>

definition fenced_activity :: "activity_claim \<Rightarrow> activity_row \<Rightarrow> bool" where
  "fenced_activity claim a \<longleftrightarrow>
     act_id a = act_id (clm_row claim) \<and> act_status a = AS_Running \<and>
     act_attempt_count a = clm_attempt_number claim \<and>
     act_lease_token a = Some (clm_lease_token claim)"

definition leased_activity :: "activity_claim \<Rightarrow> activity_row \<Rightarrow> bool" where
  "leased_activity claim a \<longleftrightarrow>
     act_id a = act_id (clm_row claim) \<and> act_status a \<in> set LEASE_HOLDERS \<and>
     act_attempt_count a = clm_attempt_number claim \<and>
     act_lease_token a = Some (clm_lease_token claim)"

definition lease_deadline_from_sample :: "instant \<Rightarrow> i64 \<Rightarrow> durable_error + instant" where
  "lease_deadline_from_sample started millis =
     (case duration_from_millis millis of
        Inl e \<Rightarrow> Inl e
      | Inr d \<Rightarrow>
          (case instant_checked_add started (10 ^ 6 * max 0 (d - 1)) of
             None \<Rightarrow> Inl (InvalidState ''activity monotonic lease deadline overflow'')
           | Some deadline \<Rightarrow> Inr deadline))"

section \<open>History, blocking and waking\<close>

definition append_activity_history ::
    "activity_row \<Rightarrow> string \<Rightarrow> string option \<Rightarrow> db_millis \<Rightarrow> unit dtx" where
  "append_activity_history row event_type reason now =
     tx_bind (next_event_sequence (act_workflow_id row)) (\<lambda>sequence.
     append_event (system_event (act_workflow_id row) sequence None event_type None reason now))"

text \<open>The workflow that waits for this activity.\<close>

definition waits_for_activity :: "i64 \<Rightarrow> i64 \<Rightarrow> workflow_row \<Rightarrow> bool" where
  "waits_for_activity workflow_id activity_id r \<longleftrightarrow>
     wf_id r = workflow_id \<and> wf_status r = WS_WaitingActivity \<and>
     wf_wait_reference_id r = Some activity_id"

definition block_workflow :: "activity_row \<Rightarrow> string \<Rightarrow> string \<Rightarrow> db_millis \<Rightarrow> unit dtx" where
  "block_workflow row category message now =
     tx_seq (fenced (workflow_update (waits_for_activity (act_workflow_id row) (act_id row))
       (\<lambda>r. r\<lparr>wf_status := WS_Blocked, wf_error_category := Some category,
             wf_error_message := Some message, wf_updated_at := now\<rparr>)))
     (append_activity_history row ''activity_dead_lettered'' (Some message) now)"

definition wake_workflow ::
    "externals \<Rightarrow> activity_claim \<Rightarrow> string \<Rightarrow> db_millis \<Rightarrow> unit dtx" where
  "wake_workflow E claim output now =
     (let row = clm_row claim in
     tx_bind (lock_workflow_by_id (act_workflow_id row)) (\<lambda>w.
     if wf_status w \<noteq> WS_WaitingActivity \<or> wf_wait_reference_id w \<noteq> Some (act_id row)
     then tx_fail FencedWrite
     else
       tx_bind (next_event_sequence (act_workflow_id row)) (\<lambda>sequence.
       tx_bind (tx_some (InvalidState ''negative activity command sequence'')
         (u32_try_from (act_command_sequence row))) (\<lambda>command_sequence.
       tx_bind (tx_lift (ActivityResult_new (act_kind row) (act_version row) output)) (\<lambda>result.
       tx_bind (tx_some Serialization (event_to_json E (ActivitySucceeded command_sequence result))) (\<lambda>metadata.
       tx_seq (append_event (system_event (act_workflow_id row) sequence
         (Some (saturating_add 32 (wf_delivered_event_sequence w) 1)) ''activity_succeeded''
         (Some metadata) None now))
       (fenced (workflow_update (waits_for_activity (act_workflow_id row) (act_id row))
         (\<lambda>r. wait_cleared (r\<lparr>wf_status := WS_Ready, wf_available_at := now,
                              wf_updated_at := now\<rparr>)))))))))) "

section \<open>Expired leases\<close>

definition settle_revoked ::
    "activity_row \<Rightarrow> attempt_outcome \<Rightarrow> string \<Rightarrow> db_millis \<Rightarrow> db_millis dtx" where
  "settle_revoked row outcome message now =
     tx_bind (tx_some (InvalidState (''cancelling activity '' @ dec_int (act_id row) @
         '' has no lease token'')) (act_lease_token row)) (\<lambda>lease_token.
     tx_bind (find_workflow_by_id (act_workflow_id row)) (\<lambda>w.
     tx_seq (close_attempt row outcome message now)
     (let ended = ws_is_terminal (wf_status w);
          available_at = (if ended then act_available_at row else now)
      in
      tx_seq (fenced (activity_update
        (\<lambda>a. act_id a = act_id row \<and> act_status a = AS_Cancelling \<and>
             act_attempt_count a = act_attempt_count row \<and> act_lease_token a = Some lease_token)
        (\<lambda>a. activity_lease_cleared (a\<lparr>act_status := (if ended then AS_Cancelled else AS_Pending),
               act_available_at := available_at, act_updated_at := now,
               act_completed_at := (if ended then Some now else None)\<rparr>))))
      (tx_seq (append_activity_history row ''activity_revoke_settled'' (Some message) now)
      (tx_return available_at)))))"

definition expired_holder :: "string \<Rightarrow> db_millis \<Rightarrow> activity_row \<Rightarrow> bool" where
  "expired_holder topic now a \<longleftrightarrow>
     act_topic a = topic \<and> act_status a \<in> set LEASE_HOLDERS \<and>
     (sql_le (act_lease_expires_at a) now \<or> act_lease_expires_at a = None)"

text \<open>When a running attempt whose lease expired becomes claimable again.\<close>

definition requeue_at :: "externals \<Rightarrow> db_millis \<Rightarrow> activity_row \<Rightarrow> durable_error + db_millis" where
  "requeue_at E now row =
     (if act_attempt_count row \<ge> act_max_attempts row then Inr now
      else
        (case policy_of_json E (act_retry_policy_json row) of
           Inl _ \<Rightarrow> Inr now
         | Inr policy \<Rightarrow>
             (case u32_try_from (act_attempt_count row) of
                None \<Rightarrow> Inl (InvalidState ''negative activity attempt'')
              | Some attempt \<Rightarrow>
                  (case delay_for_attempt policy attempt
                     (deterministic_jitter_percentile (sha256_head E)
                       (''activity:'' @ dec_int (act_id row) @ '':lease_recovery:'' @ dec_int attempt)) of
                     Inl e \<Rightarrow> Inl e
                   | Inr delay \<Rightarrow>
                       (case duration_millis delay of
                          Inl e \<Rightarrow> Inl e
                        | Inr millis \<Rightarrow> Inr (saturating_plus_millis now millis))))))"

definition expire_running ::
    "externals \<Rightarrow> workflow_row \<Rightarrow> db_millis \<Rightarrow> activity_row \<Rightarrow> unit dtx" where
  "expire_running E workflow now row =
     tx_bind (tx_some (InvalidState (''running activity '' @ dec_int (act_id row) @
         '' has no lease token'')) (act_lease_token row)) (\<lambda>lease_token.
     let exhausted = act_attempt_count row \<ge> act_max_attempts row;
         message = ''activity lease expired''
     in
     tx_bind (tx_lift (requeue_at E now row)) (\<lambda>available_at.
     tx_seq (fenced (activity_update
       (\<lambda>a. act_id a = act_id row \<and> act_status a = AS_Running \<and>
            act_attempt_count a = act_attempt_count row \<and> act_lease_token a = Some lease_token)
       (\<lambda>a. activity_lease_cleared (a\<lparr>act_status := (if exhausted then AS_DeadLettered else AS_Pending),
              act_available_at := available_at,
              act_last_error_category := Some ''lease_expired'',
              act_last_error_message := Some message, act_updated_at := now,
              act_completed_at := (if exhausted then Some now else None)\<rparr>))))
     (tx_seq (fenced (attempt_update
       (\<lambda>t. att_activity_id t = act_id row \<and> att_attempt_number t = act_attempt_count row \<and>
            att_lease_token t = lease_token \<and> att_finished_at t = None)
       (\<lambda>t. t\<lparr>att_finished_at := Some now, att_outcome := Some AO_LeaseExpired,
             att_error_category := Some (attempt_outcome_as_str AO_LeaseExpired),
             att_error_message := Some message\<rparr>)))
     (tx_seq (append_activity_history row ''activity_lease_expired'' (Some message) now)
     (if exhausted \<and> wf_status workflow = WS_WaitingActivity \<and>
         wf_wait_reference_id workflow = Some (act_id row)
      then block_workflow row ''lease_expired'' message now
      else tx_return ())))))"

text \<open>Each lease holder has its own expiry.\<close>

definition settle_expired :: "externals \<Rightarrow> workflow_row \<Rightarrow> db_millis \<Rightarrow> activity_row \<Rightarrow> unit dtx" where
  "settle_expired E workflow now row =
     (case act_status row of
        AS_Running \<Rightarrow> expire_running E workflow now row
      | AS_Cancelling \<Rightarrow>
          tx_seq (settle_revoked row AO_LeaseExpired ''activity lease expired'' now) (tx_return ())
      | _ \<Rightarrow> tx_fail (InvalidState (''lease reconciliation loaded activity '' @
               dec_int (act_id row) @ '' in status '' @
               activity_status_as_str (act_status row) @ '', which holds no lease'')))"

text \<open>
  One candidate: skipped as unsettled when another transaction holds its workflow, left
  alone when it is no longer expired. The result is the activity's id when it is unsettled.
\<close>

definition reconcile_candidate ::
    "externals \<Rightarrow> (i64 \<Rightarrow> bool) \<Rightarrow> string \<Rightarrow> db_millis \<Rightarrow> i64 \<times> i64 \<Rightarrow> i64 option dtx" where
  "reconcile_candidate E held topic now candidate =
     (case candidate of (activity_id, workflow_id) \<Rightarrow>
     tx_bind (tx_query (\<lambda>s. if held workflow_id then None else workflow_by_id s workflow_id)) (\<lambda>w.
     case w of
       None \<Rightarrow> tx_return (Some activity_id)
     | Some workflow \<Rightarrow>
         tx_bind (tx_query (\<lambda>s. find (\<lambda>a. act_id a = activity_id \<and> expired_holder topic now a)
           (activities s))) (\<lambda>found.
         case found of
           None \<Rightarrow> tx_return None
         | Some row \<Rightarrow> tx_seq (settle_expired E workflow now row) (tx_return None))))"

fun reconcile_all ::
    "externals \<Rightarrow> (i64 \<Rightarrow> bool) \<Rightarrow> string \<Rightarrow> db_millis \<Rightarrow> (i64 \<times> i64) list \<Rightarrow> i64 list dtx" where
  "reconcile_all E held topic now [] = tx_return []"
| "reconcile_all E held topic now (c # cs) =
     tx_bind (reconcile_candidate E held topic now c) (\<lambda>u.
     tx_bind (reconcile_all E held topic now cs) (\<lambda>rest.
     tx_return (case u of None \<Rightarrow> rest | Some i \<Rightarrow> i # rest)))"

definition reconcile_expired ::
    "externals \<Rightarrow> (i64 \<Rightarrow> bool) \<Rightarrow> string \<Rightarrow> db_millis \<Rightarrow> i64 list dtx" where
  "reconcile_expired E held topic now =
     tx_bind (tx_query (\<lambda>s. map (\<lambda>a. (act_id a, act_workflow_id a))
       (filter (expired_holder topic now) (activities s)))) (reconcile_all E held topic now)"

text \<open>
  Slot holders with a live lease, and the unsettled ones, which a heartbeat may revive.
\<close>

definition in_flight :: "string \<Rightarrow> i64 list \<Rightarrow> db_millis \<Rightarrow> db \<Rightarrow> nat" where
  "in_flight topic unsettled now s =
     length (filter (\<lambda>a. act_topic a = topic \<and> act_status a \<in> set SLOT_HOLDERS \<and>
       (sql_gt (act_lease_expires_at a) now \<or> act_id a \<in> set unsettled)) (activities s))"

section \<open>Claiming (T-W1)\<close>

definition quarantine_candidate ::
    "activity_row \<Rightarrow> string \<Rightarrow> string \<Rightarrow> db_millis \<Rightarrow> unit dtx" where
  "quarantine_candidate row reason text now =
     (let message = reason @ '': '' @ text in
     tx_seq (fenced (activity_update
       (\<lambda>a. act_id a = act_id row \<and> act_status a = AS_Pending \<and>
            act_attempt_count a = act_attempt_count row)
       (\<lambda>a. a\<lparr>act_status := AS_DeadLettered, act_last_error_category := Some INVALID_ROW_CATEGORY,
             act_last_error_message := Some message, act_updated_at := now,
             act_completed_at := Some now\<rparr>)))
     (tx_seq (append_activity_history row ''activity_quarantined'' (Some message) now)
     (block_workflow row INVALID_ROW_CATEGORY message now)))"

definition lease_activity ::
    "string \<Rightarrow> string \<Rightarrow> instant \<Rightarrow> db_millis \<Rightarrow> i64 option \<Rightarrow> retry_policy \<Rightarrow> activity_row \<Rightarrow>
     activity_claim dtx" where
  "lease_activity worker_id lease_token started now schedule_run_id policy row =
     tx_bind (tx_some (InvalidState ''activity attempt overflow'')
       (checked_add 32 (act_attempt_count row) 1)) (\<lambda>attempt_number.
     tx_bind (tx_some (InvalidState ''activity lease timestamp overflow'')
       (checked_plus_millis now (act_lease_duration_millis row))) (\<lambda>lease_expires_at.
     tx_seq (fenced (activity_update
       (\<lambda>a. act_id a = act_id row \<and> act_status a = AS_Pending \<and>
            act_attempt_count a = act_attempt_count row)
       (\<lambda>a. a\<lparr>act_status := AS_Running, act_attempt_count := attempt_number,
             act_lease_owner := Some worker_id, act_lease_token := Some lease_token,
             act_lease_expires_at := Some lease_expires_at, act_updated_at := now\<rparr>)))
     (tx_seq (insert_attempt
       \<lparr>att_activity_id = act_id row, att_attempt_number = attempt_number,
        att_worker_id = worker_id, att_lease_token = lease_token, att_started_at = now,
        att_heartbeat_at = now, att_finished_at = None, att_outcome = None,
        att_error_category = None, att_error_message = None, att_provider_result_json = None\<rparr>)
     (tx_bind (tx_lift (lease_deadline_from_sample started (act_lease_duration_millis row))) (\<lambda>deadline.
      tx_return
        \<lparr>clm_row = row\<lparr>act_status := AS_Running, act_attempt_count := attempt_number,
           act_lease_token := Some lease_token, act_lease_owner := Some worker_id,
           act_lease_expires_at := Some lease_expires_at\<rparr>,
         clm_schedule_run_id = schedule_run_id, clm_attempt_number = attempt_number,
         clm_lease_token = lease_token, clm_lease_deadline = deadline,
         clm_retry_policy = policy\<rparr>)))))"

text \<open>What a claim knows besides the database.\<close>

record claim_env =
  ce_externals :: externals
  ce_contains :: "string \<Rightarrow> i32 \<Rightarrow> bool"
  ce_definitions :: "definition_key list"
  ce_worker_id :: string
  ce_token :: "i64 \<Rightarrow> string"
  ce_started :: instant
  ce_workflow_held :: "i64 \<Rightarrow> bool"
  ce_activity_held :: "i64 \<Rightarrow> bool"

definition claim_pending_row ::
    "claim_env \<Rightarrow> db_millis \<Rightarrow> workflow_row \<Rightarrow> activity_row \<Rightarrow> activity_claim option dtx" where
  "claim_pending_row V now workflow row =
     (if \<not> ce_contains V (act_kind row) (act_version row) then tx_return None
      else if act_attempt_count row \<ge> act_max_attempts row
      then tx_seq (quarantine_candidate row ''attempt_cap''
             (''pending activity '' @ dec_int (act_id row) @ '' has exhausted its attempt cap'') now)
           (tx_return None)
      else if act_timeout_millis row \<le> 0 \<or> act_lease_duration_millis row \<le> act_timeout_millis row
      then tx_seq (quarantine_candidate row ''invalid_bounds''
             (''activity '' @ dec_int (act_id row) @ '' has invalid timeout or lease bounds'') now)
           (tx_return None)
      else
        (case policy_of_json (ce_externals V) (act_retry_policy_json row) of
           Inl error \<Rightarrow>
             tx_seq (quarantine_candidate row ''invalid_bounds''
               (''activity '' @ dec_int (act_id row) @ '' has an invalid retry policy: '' @ error) now)
             (tx_return None)
         | Inr policy \<Rightarrow>
             tx_bind (lease_activity (ce_worker_id V) (ce_token V (act_id row)) (ce_started V) now
               (wf_schedule_run_id workflow) policy row) (\<lambda>claim.
             tx_return (Some claim))))"

definition claim_locked_candidate ::
    "claim_env \<Rightarrow> db_millis \<Rightarrow> i64 \<times> i64 \<Rightarrow> activity_claim option dtx" where
  "claim_locked_candidate V now candidate =
     (case candidate of (candidate_id, workflow_id) \<Rightarrow>
     tx_bind (tx_query (\<lambda>s. if ce_workflow_held V workflow_id then None
       else find (waits_for_activity workflow_id candidate_id) (workflows s))) (\<lambda>locked.
     case locked of
       None \<Rightarrow> tx_return None
     | Some workflow \<Rightarrow>
         tx_bind (tx_query (\<lambda>s. if ce_activity_held V candidate_id then None
           else find (\<lambda>a. act_id a = candidate_id \<and> act_workflow_id a = workflow_id \<and>
             act_status a = AS_Pending \<and> act_available_at a \<le> now) (activities s))) (\<lambda>found.
         case found of
           None \<Rightarrow> tx_return None
         | Some row \<Rightarrow> claim_pending_row V now workflow row)))"

text \<open>
  Candidates of a topic: pending, due, of a local definition, awaited by their workflow.
  Continuations share one early time and are ordered by workflow.
\<close>

definition claim_candidates ::
    "definition_key list \<Rightarrow> string \<Rightarrow> db_millis \<Rightarrow> db \<Rightarrow> (i64 \<times> i64) list" where
  "claim_candidates definitions topic now s =
     map (\<lambda>(_, _, i, w). (i, w)) (take CLAIM_CANDIDATE_SCAN_LIMIT (sort
       (map (\<lambda>a. (act_available_at a,
                  if act_available_at a = CONTINUATION_READY_AT_MILLIS then act_workflow_id a
                  else act_id a, act_id a, act_workflow_id a))
         (filter (\<lambda>a. (act_kind a, act_version a) \<in> set definitions \<and> act_topic a = topic \<and>
            act_status a = AS_Pending \<and> act_available_at a \<le> now \<and>
            (\<exists>w \<in> set (workflows s). waits_for_activity (act_workflow_id a) (act_id a) w))
           (activities s)))))"

fun claim_first ::
    "claim_env \<Rightarrow> db_millis \<Rightarrow> (i64 \<times> i64) list \<Rightarrow> activity_claim option dtx" where
  "claim_first V now [] = tx_return None"
| "claim_first V now (c # cs) =
     tx_bind (claim_locked_candidate V now c) (\<lambda>claimed.
     case claimed of
       Some claim \<Rightarrow> tx_return (Some claim)
     | None \<Rightarrow> claim_first V now cs)"

definition topic_limit :: "db \<Rightarrow> string \<Rightarrow> i32 option" where
  "topic_limit s topic = map_option tl_max_concurrency (find (\<lambda>r. tl_topic r = topic) (topic_locks s))"

definition claim_one ::
    "claim_env \<Rightarrow> topic_registry \<Rightarrow> string \<Rightarrow> activity_claim option dtx" where
  "claim_one V T topic =
     tx_seq (tx_some (InvalidDefinition (''unregistered activity topic '' @ topic)) (topic_get T topic))
     (tx_bind database_now_millis (\<lambda>now.
      tx_bind (tx_query (\<lambda>s. topic_limit s topic)) (\<lambda>locked.
      tx_bind (tx_some (Database RowNotFound) locked) (\<lambda>max_concurrency.
      tx_bind (reconcile_expired (ce_externals V) (ce_workflow_held V) topic now) (\<lambda>unsettled.
      tx_bind (tx_query (in_flight topic unsettled now)) (\<lambda>flying.
      if int flying \<ge> max_concurrency then tx_return None
      else if ce_definitions V = [] then tx_return None
      else
        tx_bind (tx_query (claim_candidates (ce_definitions V) topic now)) (\<lambda>candidates.
        claim_first V now candidates)))))))"

fun claim_while ::
    "claim_env \<Rightarrow> db_millis \<Rightarrow> string \<Rightarrow> nat \<Rightarrow> nat \<Rightarrow> activity_claim list \<Rightarrow> (i64 \<times> i64) list \<Rightarrow>
     activity_claim list dtx" where
  "claim_while V now topic limit wanted claims [] = tx_return claims"
| "claim_while V now topic limit wanted claims (c # cs) =
     (if length claims \<ge> limit \<or>
         length (filter (\<lambda>claim. act_topic (clm_row claim) = topic) claims) \<ge> wanted
      then tx_return claims
      else
        tx_bind (claim_locked_candidate V now c) (\<lambda>claimed.
        claim_while V now topic limit wanted
          (case claimed of None \<Rightarrow> claims | Some claim \<Rightarrow> claims @ [claim]) cs))"

definition slots_wanted :: "i32 \<Rightarrow> nat \<Rightarrow> nat \<Rightarrow> nat \<Rightarrow> nat \<Rightarrow> nat" where
  "slots_wanted persisted_limit flying capacity limit claimed =
     min (min (nat (max 0 (saturating_sub 64 persisted_limit (int flying)))) capacity) (limit - claimed)"

fun claim_topics ::
    "claim_env \<Rightarrow> db_millis \<Rightarrow> nat \<Rightarrow> (string \<Rightarrow> nat) \<Rightarrow> activity_claim list \<Rightarrow> (string \<times> i32) list \<Rightarrow>
     activity_claim list dtx" where
  "claim_topics V now limit capacity claims [] = tx_return claims"
| "claim_topics V now limit capacity claims ((topic, persisted_limit) # rest) =
     tx_bind (reconcile_expired (ce_externals V) (ce_workflow_held V) topic now) (\<lambda>unsettled.
     tx_bind (tx_query (in_flight topic unsettled now)) (\<lambda>flying.
     let wanted = slots_wanted persisted_limit flying (capacity topic) limit (length claims) in
     if wanted = 0 then claim_topics V now limit capacity claims rest
     else if ce_definitions V = [] then tx_return claims
     else
       tx_bind (tx_query (claim_candidates (ce_definitions V) topic now)) (\<lambda>candidates.
       tx_bind (claim_while V now topic limit wanted claims candidates) (\<lambda>claims'.
       claim_topics V now limit capacity claims' rest))))"

text \<open>
  A batch over every registered topic: nothing is claimed unless all their lock rows are
  free. \<open>topic_held\<close> are the lock rows another transaction holds.
\<close>

definition claim_batch ::
    "claim_env \<Rightarrow> topic_registry \<Rightarrow> (string \<Rightarrow> bool) \<Rightarrow> nat \<Rightarrow> (string \<times> nat) list \<Rightarrow>
     activity_claim list dtx" where
  "claim_batch V T topic_held limit local_capacity =
     (if limit = 0 \<or> list_all (\<lambda>(_, capacity). capacity = 0) local_capacity then tx_return []
      else
        tx_bind (tx_query (\<lambda>s. map (\<lambda>r. (tl_topic r, tl_max_concurrency r))
          (sort_key tl_topic (filter (\<lambda>r. tl_topic r \<in> set (map td_key (TopicRegistry_definitions T)) \<and>
             \<not> topic_held (tl_topic r)) (topic_locks s))))) (\<lambda>locked.
        if length locked \<noteq> length (TopicRegistry_definitions T) then tx_return []
        else
          tx_bind database_now_millis (\<lambda>now.
          claim_topics V now limit
            (\<lambda>topic. case map_of local_capacity topic of None \<Rightarrow> 0 | Some c \<Rightarrow> c) [] locked)))"

section \<open>Renewing a lease (T-W2)\<close>

datatype renewed = Held instant | Revoked instant

definition heartbeat_once :: "activity_claim \<Rightarrow> instant \<Rightarrow> renewed dtx" where
  "heartbeat_once claim started =
     tx_bind database_now_millis (\<lambda>now.
     tx_bind (tx_some (InvalidState ''activity lease overflow'')
       (checked_plus_millis now (act_lease_duration_millis (clm_row claim)))) (\<lambda>lease_expires_at.
     tx_bind (tx_query (\<lambda>s. find (leased_activity claim) (activities s))) (\<lambda>found.
     tx_bind (tx_some FencedWrite found) (\<lambda>row.
     tx_seq (fenced (activity_update (leased_activity claim)
       (\<lambda>a. a\<lparr>act_lease_expires_at := Some lease_expires_at, act_updated_at := now\<rparr>)))
     (tx_seq (fenced (attempt_update
       (\<lambda>t. att_activity_id t = act_id (clm_row claim) \<and>
            att_attempt_number t = clm_attempt_number claim \<and>
            att_lease_token t = clm_lease_token claim \<and> att_finished_at t = None)
       (\<lambda>t. t\<lparr>att_heartbeat_at := now\<rparr>)))
     (tx_bind (tx_lift (lease_deadline_from_sample started
        (act_lease_duration_millis (clm_row claim)))) (\<lambda>deadline.
      case act_status row of
        AS_Running \<Rightarrow> tx_return (Held deadline)
      | AS_Cancelling \<Rightarrow> tx_return (Revoked deadline)
      | _ \<Rightarrow> tx_fail (InvalidState (''lease renewal fenced activity '' @
               dec_int (act_id (clm_row claim)) @ '' in status '' @
               activity_status_as_str (act_status row) @ '', which holds no lease''))))))))) "

text \<open>\<open>ActivityWorker::heartbeat\<close>: a renewed lease that was revoked authorizes no work.\<close>

definition heartbeat_result :: "durable_error fault + renewed \<times> db \<Rightarrow> durable_error fault + unit" where
  "heartbeat_result renewal =
     (case renewal of
        Inl e \<Rightarrow> Inl e
      | Inr (Held _, _) \<Rightarrow> Inr ()
      | Inr (Revoked _, _) \<Rightarrow> Inl (Err FencedWrite))"

datatype heartbeat_failure = LeaseLost instant | Unconfirmed durable_error instant

definition from_renewal_error :: "durable_error \<Rightarrow> instant \<Rightarrow> heartbeat_failure" where
  "from_renewal_error error lease_deadline =
     (if error = FencedWrite then LeaseLost lease_deadline else Unconfirmed error lease_deadline)"

definition into_error :: "heartbeat_failure \<Rightarrow> durable_error" where
  "into_error failure = (case failure of LeaseLost _ \<Rightarrow> FencedWrite | Unconfirmed error _ \<Rightarrow> error)"

section \<open>Finishing an attempt (T-W3)\<close>

datatype execution_outcome =
  Outcome_Succeeded string
| Outcome_Retryable activity_error
| Outcome_Permanent activity_error
| Outcome_Revoked

datatype activity_dispatch_error = Handler activity_error | Durable durable_error

definition dispatch_outcome ::
    "(activity_dispatch_error \<Rightarrow> string) \<Rightarrow> activity_dispatch_error + string \<Rightarrow> execution_outcome" where
  "dispatch_outcome display result =
     (case result of
        Inr output \<Rightarrow> Outcome_Succeeded output
      | Inl (Handler (Retryable category message)) \<Rightarrow>
          Outcome_Retryable (ActivityError_retryable category message)
      | Inl (Handler (Permanent category message)) \<Rightarrow>
          Outcome_Permanent (ActivityError_permanent category message)
      | Inl error \<Rightarrow> Outcome_Permanent (ActivityError_permanent ''dispatch'' (display error)))"

definition activity_error_parts :: "activity_error \<Rightarrow> string \<times> string" where
  "activity_error_parts error =
     (case error of Retryable category message \<Rightarrow> (category, message)
      | Permanent category message \<Rightarrow> (category, message))"

definition finish_attempt ::
    "activity_claim \<Rightarrow> attempt_outcome \<Rightarrow> string option \<Rightarrow> string option \<Rightarrow> string option \<Rightarrow>
     db_millis \<Rightarrow> unit dtx" where
  "finish_attempt claim outcome category message provider_result now =
     fenced (attempt_update
       (\<lambda>t. att_activity_id t = act_id (clm_row claim) \<and>
            att_attempt_number t = clm_attempt_number claim \<and>
            att_lease_token t = clm_lease_token claim \<and> att_finished_at t = None)
       (\<lambda>t. t\<lparr>att_finished_at := Some now, att_outcome := Some outcome,
             att_error_category := category, att_error_message := message,
             att_provider_result_json := provider_result\<rparr>))"

definition dead_letter ::
    "activity_claim \<Rightarrow> activity_row \<Rightarrow> string \<Rightarrow> string \<Rightarrow> db_millis \<Rightarrow> unit dtx" where
  "dead_letter claim row category message now =
     tx_seq (fenced (activity_update (fenced_activity claim)
       (\<lambda>a. activity_lease_cleared (a\<lparr>act_status := AS_DeadLettered,
              act_last_error_category := Some category, act_last_error_message := Some message,
              act_updated_at := now, act_completed_at := Some now\<rparr>))))
     (tx_seq (finish_attempt claim AO_DeadLettered (Some category) (Some message) None now)
     (block_workflow row category message now))"

definition finish_succeeded ::
    "externals \<Rightarrow> activity_claim \<Rightarrow> string \<Rightarrow> db_millis \<Rightarrow> unit dtx" where
  "finish_succeeded E claim output now =
     tx_seq (fenced (activity_update (fenced_activity claim)
       (\<lambda>a. activity_lease_cleared (a\<lparr>act_status := AS_Succeeded,
              act_provider_result_json := Some output, act_last_error_category := None,
              act_last_error_message := None, act_updated_at := now,
              act_completed_at := Some now\<rparr>))))
     (tx_seq (finish_attempt claim AO_Succeeded None None (Some output) now)
     (wake_workflow E claim output now))"

definition finish_retryable ::
    "externals \<Rightarrow> activity_claim \<Rightarrow> activity_row \<Rightarrow> string \<Rightarrow> string \<Rightarrow> db_millis \<Rightarrow> unit dtx" where
  "finish_retryable E claim row category message now =
     (if clm_attempt_number claim \<ge> act_max_attempts (clm_row claim)
      then dead_letter claim row category message now
      else
        tx_bind (tx_lift (claim_attempt_number claim)) (\<lambda>attempt.
        tx_bind (tx_lift (delay_for_attempt (clm_retry_policy claim) attempt
          (deterministic_jitter_percentile (sha256_head E)
            (''activity:'' @ dec_int (act_id (clm_row claim)) @ '':retry:'' @ dec_int attempt)))) (\<lambda>delay.
        tx_bind (tx_lift (duration_millis delay)) (\<lambda>millis.
        tx_seq (fenced (activity_update (fenced_activity claim)
          (\<lambda>a. activity_lease_cleared (a\<lparr>act_status := AS_Pending,
                 act_available_at := saturating_plus_millis now millis,
                 act_last_error_category := Some category,
                 act_last_error_message := Some message, act_updated_at := now\<rparr>))))
        (tx_seq (finish_attempt claim AO_RetryableFailure (Some category) (Some message) None now)
        (append_activity_history (clm_row claim) ''activity_retry_scheduled'' (Some message) now))))))"

definition finish_revoked :: "activity_row \<Rightarrow> db_millis \<Rightarrow> unit dtx" where
  "finish_revoked row now =
     tx_bind (tx_some (InvalidState (''cancelling activity '' @ dec_int (act_id row) @
         '' records no revoke outcome'')) (act_last_error_category row)) (\<lambda>category.
     tx_bind (tx_lift (attempt_outcome_try_from category)) (\<lambda>outcome.
     tx_seq (settle_revoked row outcome
       (case act_last_error_message row of None \<Rightarrow> [] | Some message \<Rightarrow> message) now)
     (tx_return ())))"

definition finish_on_connection ::
    "externals \<Rightarrow> activity_claim \<Rightarrow> execution_outcome \<Rightarrow> unit dtx" where
  "finish_on_connection E claim outcome =
     tx_seq (lock_workflow_by_id (act_workflow_id (clm_row claim)))
     (tx_bind database_now_millis (\<lambda>now.
      tx_bind (tx_query (\<lambda>s. find (leased_activity claim) (activities s))) (\<lambda>found.
      tx_bind (tx_some FencedWrite found) (\<lambda>row.
      case act_status row of
        AS_Cancelling \<Rightarrow> finish_revoked row now
      | AS_Running \<Rightarrow>
          (case outcome of
             Outcome_Revoked \<Rightarrow> tx_fail (InvalidState (''activity '' @ dec_int (act_id row) @
               '' attempt '' @ dec_int (clm_attempt_number claim) @
               '' finished as revoked but is still running''))
           | Outcome_Succeeded output \<Rightarrow> finish_succeeded E claim output now
           | Outcome_Retryable error \<Rightarrow>
               (case activity_error_parts error of (category, message) \<Rightarrow>
                  finish_retryable E claim row category message now)
           | Outcome_Permanent error \<Rightarrow>
               (case activity_error_parts error of (category, message) \<Rightarrow>
                  dead_letter claim row category message now))
      | _ \<Rightarrow> tx_fail (InvalidState (''finish fenced activity '' @ dec_int (act_id row) @
               '' in status '' @ activity_status_as_str (act_status row) @
               '', which holds no lease''))))))"

text \<open>\<open>finish_claim\<close>: a revoked attempt that lease reconciliation settled first is done.\<close>

definition finish_claim ::
    "externals \<Rightarrow> activity_claim \<Rightarrow> execution_outcome \<Rightarrow> db \<Rightarrow> (durable_error fault + unit) \<times> db" where
  "finish_claim E claim outcome s =
     (case finish_on_connection E claim outcome s of
        Inr (_, s') \<Rightarrow> (Inr (), s')
      | Inl e \<Rightarrow>
          if e = Err FencedWrite \<and> outcome = Outcome_Revoked then (Inr (), s) else (Inl e, s))"

section \<open>Evolution and row invariants\<close>

lemma evolves_append_activity_history [guar_intros]:
  "guarantees db_evolves (append_activity_history row ty reason now)"
  unfolding append_activity_history_def by (intro guar_intros)

lemma rows_ok_append_activity_history [keeps_intros]:
  "keeps rows_ok (append_activity_history row ty reason now)"
  unfolding append_activity_history_def by (intro keeps_intros)

lemma waits_for_activity_live: "waits_for_activity w a r \<Longrightarrow> \<not> ws_is_terminal (wf_status r)"
  by (simp add: waits_for_activity_def)

lemma evolves_block_workflow [guar_intros]:
  "guarantees db_evolves (block_workflow row category message now)"
  unfolding block_workflow_def
  by (intro guar_intros evolves_workflow_update)
    (auto simp: workflow_identity_def intro!: workflow_evolves_live dest: waits_for_activity_live)

lemma rows_ok_block_workflow [keeps_intros]:
  "keeps rows_ok (block_workflow row category message now)"
  unfolding block_workflow_def
  by (intro keeps_intros rows_ok_workflow_update) (auto simp: row_ok_defs waits_for_activity_def)

lemma evolves_wake_workflow [guar_intros]: "guarantees db_evolves (wake_workflow E claim output now)"
  unfolding wake_workflow_def Let_def
  by (intro guar_intros evolves_workflow_update)
    (auto simp: workflow_identity_def changes intro!: workflow_evolves_live dest: waits_for_activity_live)

lemma rows_ok_wake_workflow [keeps_intros]: "keeps rows_ok (wake_workflow E claim output now)"
  unfolding wake_workflow_def Let_def
  by (intro keeps_intros rows_ok_workflow_update) (auto simp: row_ok_defs changes waits_for_activity_def)

lemma activity_evolves_live:
  "activity_identity a' = activity_identity a \<Longrightarrow> act_attempt_count a \<le> act_attempt_count a' \<Longrightarrow>
   act_max_attempts a' = act_max_attempts a \<Longrightarrow> \<not> as_is_terminal (act_status a) \<Longrightarrow>
   activity_evolves a a'"
  by (cases "act_status a") (simp_all add: activity_evolves_def)

lemma lease_holder [simp]: "x \<in> set LEASE_HOLDERS \<longleftrightarrow> x = AS_Running \<or> x = AS_Cancelling"
  by (cases x) (simp_all add: LEASE_HOLDERS_def)

lemma slot_holder [simp]: "x \<in> set SLOT_HOLDERS \<longleftrightarrow> x = AS_Running \<or> x = AS_Cancelling"
  by (cases x) (simp_all add: SLOT_HOLDERS_def)

lemmas activity_changes = changes activity_identity_def attempt_evolves_def fenced_activity_def
  leased_activity_def

lemma evolves_settle_revoked [guar_intros]:
  "guarantees db_evolves (settle_revoked row out message now)"
  unfolding settle_revoked_def Let_def
  by (intro guar_intros evolves_activity_update activity_evolves_live) (auto simp: activity_changes)

lemma evolves_expire_running [guar_intros]: "guarantees db_evolves (expire_running E w now row)"
  unfolding expire_running_def Let_def
  by (intro guar_intros evolves_activity_update evolves_attempt_update activity_evolves_live)
    (auto simp: activity_changes)

lemma guarantees_activity_status [guar_intros]:
  assumes "x = AS_Pending \<Longrightarrow> guarantees R p" "x = AS_Running \<Longrightarrow> guarantees R r"
    "x = AS_Cancelling \<Longrightarrow> guarantees R c" "x = AS_Succeeded \<Longrightarrow> guarantees R s"
    "x = AS_DeadLettered \<Longrightarrow> guarantees R d" "x = AS_Cancelled \<Longrightarrow> guarantees R k"
  shows "guarantees R (case x of AS_Pending \<Rightarrow> p | AS_Running \<Rightarrow> r | AS_Cancelling \<Rightarrow> c
    | AS_Succeeded \<Rightarrow> s | AS_DeadLettered \<Rightarrow> d | AS_Cancelled \<Rightarrow> k)"
  using assms by (cases x) simp_all

lemma keeps_activity_status [keeps_intros]:
  assumes "x = AS_Pending \<Longrightarrow> keeps I p" "x = AS_Running \<Longrightarrow> keeps I r"
    "x = AS_Cancelling \<Longrightarrow> keeps I c" "x = AS_Succeeded \<Longrightarrow> keeps I s"
    "x = AS_DeadLettered \<Longrightarrow> keeps I d" "x = AS_Cancelled \<Longrightarrow> keeps I k"
  shows "keeps I (case x of AS_Pending \<Rightarrow> p | AS_Running \<Rightarrow> r | AS_Cancelling \<Rightarrow> c
    | AS_Succeeded \<Rightarrow> s | AS_DeadLettered \<Rightarrow> d | AS_Cancelled \<Rightarrow> k)"
  using assms by (cases x) simp_all

lemma evolves_reconcile_candidate [guar_intros]:
  "guarantees db_evolves (reconcile_candidate E held topic now c)"
  unfolding reconcile_candidate_def settle_expired_def by (intro guar_intros)

lemma evolves_reconcile_all [guar_intros]:
  "guarantees db_evolves (reconcile_all E held topic now cs)"
  by (induction cs) (auto intro!: guar_intros)

lemma evolves_reconcile_expired [guar_intros]:
  "guarantees db_evolves (reconcile_expired E held topic now)"
  unfolding reconcile_expired_def by (intro guar_intros)

lemma evolves_quarantine [guar_intros]:
  "guarantees db_evolves (quarantine_candidate row reason text now)"
  unfolding quarantine_candidate_def Let_def
  by (intro guar_intros evolves_activity_update activity_evolves_live) (auto simp: activity_changes)

lemma evolves_lease_activity [guar_intros]:
  "guarantees db_evolves (lease_activity w tok started now run policy row)"
  unfolding lease_activity_def
  by (intro guar_intros evolves_activity_update activity_evolves_live)
    (auto simp: activity_changes tx_simps checked_add_Some)

lemma evolves_claim_locked_candidate [guar_intros]:
  "guarantees db_evolves (claim_locked_candidate V now c)"
  unfolding claim_locked_candidate_def claim_pending_row_def by (intro guar_intros)

lemma evolves_claim_first [guar_intros]: "guarantees db_evolves (claim_first V now cs)"
  by (induction cs) (auto intro!: guar_intros)

lemma evolves_claim_one [guar_intros]: "guarantees db_evolves (claim_one V T topic)"
  unfolding claim_one_def by (intro guar_intros)

lemma evolves_claim_while [guar_intros]:
  "guarantees db_evolves (claim_while V now topic limit wanted claims cs)"
  by (induction cs arbitrary: claims) (auto intro!: guar_intros)

lemma evolves_claim_topics [guar_intros]:
  "guarantees db_evolves (claim_topics V now limit capacity claims ts)"
  by (induction V now limit capacity claims ts rule: claim_topics.induct)
    (auto simp: Let_def intro!: guar_intros)

lemma evolves_claim_batch [guar_intros]:
  "guarantees db_evolves (claim_batch V T topic_held limit local_capacity)"
  unfolding claim_batch_def by (intro guar_intros)

lemma evolves_heartbeat_once [guar_intros]: "guarantees db_evolves (heartbeat_once claim started)"
  unfolding heartbeat_once_def
  by (intro guar_intros evolves_activity_update evolves_attempt_update activity_evolves_live)
    (auto simp: activity_changes)

lemma evolves_finish_attempt [guar_intros]:
  "guarantees db_evolves (finish_attempt claim out c m p now)"
  unfolding finish_attempt_def
  by (intro guar_intros evolves_attempt_update) (simp add: attempt_evolves_def)

lemma evolves_fenced_activity:
  "(\<And>a. activity_identity (f a) = activity_identity a) \<Longrightarrow>
   (\<And>a. act_attempt_count (f a) = act_attempt_count a) \<Longrightarrow>
   (\<And>a. act_max_attempts (f a) = act_max_attempts a) \<Longrightarrow>
   guarantees db_evolves (activity_update (fenced_activity claim) f)"
  by (intro evolves_activity_update activity_evolves_live) (simp_all add: fenced_activity_def)

lemma evolves_finish_parts [guar_intros]:
  "guarantees db_evolves (dead_letter claim row category message now)"
  "guarantees db_evolves (finish_succeeded E claim output now)"
  "guarantees db_evolves (finish_revoked row now)"
  unfolding dead_letter_def finish_succeeded_def finish_revoked_def
  by (intro guar_intros evolves_fenced_activity; simp add: changes activity_identity_def)+

lemma evolves_finish_retryable [guar_intros]:
  "guarantees db_evolves (finish_retryable E claim row category message now)"
  unfolding finish_retryable_def
  by (intro guar_intros evolves_fenced_activity) (simp_all add: changes activity_identity_def)

lemma guarantees_execution_outcome [guar_intros]:
  assumes "\<And>out. guarantees R (s out)" "\<And>e. guarantees R (r e)" "\<And>e. guarantees R (p e)"
    "guarantees R v"
  shows "guarantees R (case x of Outcome_Succeeded out \<Rightarrow> s out | Outcome_Retryable e \<Rightarrow> r e
    | Outcome_Permanent e \<Rightarrow> p e | Outcome_Revoked \<Rightarrow> v)"
  using assms by (cases x) simp_all

lemma keeps_execution_outcome [keeps_intros]:
  assumes "\<And>out. keeps I (s out)" "\<And>e. keeps I (r e)" "\<And>e. keeps I (p e)" "keeps I v"
  shows "keeps I (case x of Outcome_Succeeded out \<Rightarrow> s out | Outcome_Retryable e \<Rightarrow> r e
    | Outcome_Permanent e \<Rightarrow> p e | Outcome_Revoked \<Rightarrow> v)"
  using assms by (cases x) simp_all

lemma evolves_finish_on_connection [guar_intros]:
  "guarantees db_evolves (finish_on_connection E claim outcome)"
  unfolding finish_on_connection_def by (intro guar_intros)

lemmas activity_row_changes = row_ok_defs changes fenced_activity_def leased_activity_def

lemma rows_ok_settle_revoked [keeps_intros]: "keeps rows_ok (settle_revoked row out message now)"
  unfolding settle_revoked_def Let_def
  by (intro keeps_intros rows_ok_activity_update) (auto simp: activity_row_changes)

lemma rows_ok_expire_running [keeps_intros]: "keeps rows_ok (expire_running E w now row)"
  unfolding expire_running_def Let_def
  by (intro keeps_intros rows_ok_activity_update) (auto simp: activity_row_changes)

lemma rows_ok_reconcile_candidate [keeps_intros]:
  "keeps rows_ok (reconcile_candidate E held topic now c)"
  unfolding reconcile_candidate_def settle_expired_def by (intro keeps_intros)

lemma rows_ok_reconcile_all [keeps_intros]: "keeps rows_ok (reconcile_all E held topic now cs)"
  by (induction cs) (auto intro!: keeps_intros)

lemma rows_ok_reconcile_expired [keeps_intros]:
  "keeps rows_ok (reconcile_expired E held topic now)"
  unfolding reconcile_expired_def by (intro keeps_intros)

lemma rows_ok_quarantine [keeps_intros]:
  "keeps rows_ok (quarantine_candidate row reason text now)"
  unfolding quarantine_candidate_def Let_def
  by (intro keeps_intros rows_ok_activity_update) (auto simp: activity_row_changes)

text \<open>A fenced update that changes a row that was read.\<close>

lemma fenced_activity_update_one:
  assumes "fenced (activity_update P f) s = Inr (u, s')"
  obtains k where "k < length (activities s)" "P (activities s ! k)"
    "s' = s\<lparr>activities := (activities s)[k := f (activities s ! k)]\<rparr>"
    "\<forall>j < length (activities s). j \<noteq> k \<longrightarrow> \<not> P (activities s ! j)"
proof -
  from assms have one: "length (filter P (activities s)) = 1"
    and s': "s' = s\<lparr>activities := map (\<lambda>r. if P r then f r else r) (activities s)\<rparr>"
    by (auto simp: tx_simps)
  from filter_one_index [OF one] obtain k where k: "k < length (activities s)" "P (activities s ! k)"
    "\<forall>j < length (activities s). j \<noteq> k \<longrightarrow> \<not> P (activities s ! j)" by blast
  then have "map (\<lambda>r. if P r then f r else r) (activities s) = (activities s)[k := f (activities s ! k)]"
    by (intro nth_equalityI) (auto simp: nth_list_update)
  with that k s' show ?thesis by simp
qed

lemma fenced_activity_update_found:
  assumes "fenced (activity_update P f) s = Inr (u, s')" and "a \<in> set (activities s)" and "P a"
  obtains k where "k < length (activities s)" "activities s ! k = a"
    "s' = s\<lparr>activities := (activities s)[k := f a]\<rparr>"
proof -
  obtain k where k: "k < length (activities s)"
    "s' = s\<lparr>activities := (activities s)[k := f (activities s ! k)]\<rparr>"
    "\<forall>j < length (activities s). j \<noteq> k \<longrightarrow> \<not> P (activities s ! j)"
    using assms(1) by (rule fenced_activity_update_one)
  from assms(2) obtain j where "j < length (activities s)" "activities s ! j = a"
    by (auto simp: in_set_conv_nth)
  with assms(3) k that show ?thesis by metis
qed

lemma lease_activity_cases:
  assumes "lease_activity w tok started now run policy row s = Inr (claim, s')"
    and "row \<in> set (activities s)" and "act_status row = AS_Pending"
  obtains k n expires where "k < length (activities s)" "activities s ! k = row"
    "n = act_attempt_count row + 1" "workflows s' = workflows s"
    "activities s' = (activities s)[k := row\<lparr>act_status := AS_Running, act_attempt_count := n,
       act_lease_owner := Some w, act_lease_token := Some tok, act_lease_expires_at := Some expires,
       act_updated_at := now\<rparr>]"
    "act_id (clm_row claim) = act_id row" "act_topic (clm_row claim) = act_topic row"
    "clm_attempt_number claim = n" "clm_lease_token claim = tok"
proof -
  let ?P = "\<lambda>a. act_id a = act_id row \<and> act_status a = AS_Pending \<and>
    act_attempt_count a = act_attempt_count row"
  from assms(1) obtain n expires s1 where n: "checked_add 32 (act_attempt_count row) 1 = Some n"
    and upd: "fenced (activity_update ?P (\<lambda>a. a\<lparr>act_status := AS_Running, act_attempt_count := n,
       act_lease_owner := Some w, act_lease_token := Some tok, act_lease_expires_at := Some expires,
       act_updated_at := now\<rparr>)) s = Inr ((), s1)"
    and s1: "workflows s' = workflows s1" "activities s' = activities s1"
    and claim: "act_id (clm_row claim) = act_id row" "act_topic (clm_row claim) = act_topic row"
       "clm_attempt_number claim = n" "clm_lease_token claim = tok"
    unfolding lease_activity_def tx_bind_Inr tx_seq_Inr
    by (fastforce simp: tx_some_Inr tx_lift_Inr tx_return_Inr dest: insert_attempt_Inr)
  obtain k where "k < length (activities s)" "activities s ! k = row"
    "s1 = s\<lparr>activities := (activities s)[k := row\<lparr>act_status := AS_Running, act_attempt_count := n,
       act_lease_owner := Some w, act_lease_token := Some tok, act_lease_expires_at := Some expires,
       act_updated_at := now\<rparr>]\<rparr>"
    using upd assms(2) by (rule fenced_activity_update_found) (use assms(3) in simp_all)
  with n s1 claim that show ?thesis by (simp add: checked_add_Some)
qed

text \<open>What one candidate comes to: nothing, a quarantine, or a claim.\<close>

lemma claim_locked_cases:
  assumes "claim_locked_candidate V now c s = Inr (r, s')"
  obtains (skipped) "r = None" "s' = s"
  | (quarantined) row reason why where "r = None" "row \<in> set (activities s)"
      "act_status row = AS_Pending" "quarantine_candidate row reason why now s = Inr ((), s')"
  | (claimed) claim row run policy where "r = Some claim" "row \<in> set (activities s)"
      "act_id row = fst c" "act_status row = AS_Pending" "act_attempt_count row < act_max_attempts row"
      "lease_activity (ce_worker_id V) (ce_token V (act_id row)) (ce_started V) now run policy row s
         = Inr (claim, s')"
proof -
  obtain i w where c: "c = (i, w)" by (cases c)
  from assms consider "r = None" "s' = s"
    | workflow row where "row \<in> set (activities s)" "act_id row = i" "act_status row = AS_Pending"
      "claim_pending_row V now workflow row s = Inr (r, s')"
    unfolding claim_locked_candidate_def c prod.case tx_bind_Inr tx_query_Inr
    by (auto simp: tx_simps dest!: find_mem split: option.splits if_splits)
  then show ?thesis
  proof cases
    case 1
    then show ?thesis by (rule skipped)
  next
    case (2 workflow row)
    have "thesis" if "tx_seq (quarantine_candidate row reason why now) (tx_return None) s = Inr (r, s')"
      for reason why
      using that quarantined [OF _ 2(1,3)] by (auto simp: tx_seq_Inr tx_return_Inr)
    with 2(4) skipped claimed [OF _ 2(1) _ 2(3)] 2(2) show ?thesis
      unfolding claim_pending_row_def c
      by (auto simp: tx_bind_Inr tx_return_Inr split: if_split_asm sum.split_asm)
  qed
qed

lemma rows_ok_lease_activity:
  assumes "lease_activity w tok started now run policy row s = Inr (claim, s')"
    and "row \<in> set (activities s)" "act_status row = AS_Pending"
    and "act_attempt_count row < act_max_attempts row" and "rows_ok s"
  shows "rows_ok s'"
  using assms(1-3)
proof (rule lease_activity_cases)
  fix k n expires
  let ?a = "row\<lparr>act_status := AS_Running, act_attempt_count := n, act_lease_owner := Some w,
    act_lease_token := Some tok, act_lease_expires_at := Some expires, act_updated_at := now\<rparr>"
  assume k: "n = act_attempt_count row + 1" "workflows s' = workflows s"
    "activities s' = (activities s)[k := ?a]"
  have "activity_row_ok row" using assms(2,5) by (simp add: rows_ok_def all_activities_def list_all_iff)
  with assms(4) k(1) have "activity_row_ok ?a" by (simp add: row_ok_defs)
  with assms(5) k show "rows_ok s'"
    by (auto simp: rows_ok_def all_workflows_def all_activities_def list_all_iff
        dest!: set_update_subset_insert [THEN subsetD])
qed

lemma rows_ok_claim_locked_candidate [keeps_intros]: "keeps rows_ok (claim_locked_candidate V now c)"
proof (rule keepsI)
  fix s r s' assume ok: "rows_ok s" and "claim_locked_candidate V now c s = Inr (r, s')"
  from this(2) show "rows_ok s'"
  proof (cases rule: claim_locked_cases)
    case skipped
    with ok show ?thesis by simp
  next
    case quarantined
    with ok show ?thesis using keepsD [OF rows_ok_quarantine] by blast
  next
    case claimed
    with ok show ?thesis using rows_ok_lease_activity by blast
  qed
qed

lemma rows_ok_claim_first [keeps_intros]: "keeps rows_ok (claim_first V now cs)"
  by (induction cs) (auto intro!: keeps_intros)

lemma rows_ok_claim_one [keeps_intros]: "keeps rows_ok (claim_one V T topic)"
  unfolding claim_one_def by (intro keeps_intros)

lemma rows_ok_claim_while [keeps_intros]:
  "keeps rows_ok (claim_while V now topic limit wanted claims cs)"
  by (induction cs arbitrary: claims) (auto intro!: keeps_intros)

lemma rows_ok_claim_topics [keeps_intros]:
  "keeps rows_ok (claim_topics V now limit capacity claims ts)"
  by (induction V now limit capacity claims ts rule: claim_topics.induct)
    (auto simp: Let_def intro!: keeps_intros)

lemma rows_ok_claim_batch [keeps_intros]:
  "keeps rows_ok (claim_batch V T topic_held limit local_capacity)"
  unfolding claim_batch_def by (intro keeps_intros)

lemma rows_ok_heartbeat_once [keeps_intros]: "keeps rows_ok (heartbeat_once claim started)"
  unfolding heartbeat_once_def
  by (intro keeps_intros rows_ok_activity_update) (auto simp: activity_row_changes)

lemma rows_ok_finish_parts [keeps_intros]:
  "keeps rows_ok (dead_letter claim row category message now)"
  "keeps rows_ok (finish_succeeded E claim output now)"
  "keeps rows_ok (finish_revoked row now)"
  unfolding dead_letter_def finish_succeeded_def finish_revoked_def finish_attempt_def
  by (intro keeps_intros rows_ok_activity_update; simp add: activity_row_changes)+

lemma rows_ok_finish_retryable [keeps_intros]:
  "keeps rows_ok (finish_retryable E claim row category message now)"
  unfolding finish_retryable_def finish_attempt_def
  by (intro keeps_intros rows_ok_activity_update) (simp_all add: activity_row_changes)

lemma rows_ok_finish_on_connection [keeps_intros]:
  "keeps rows_ok (finish_on_connection E claim outcome)"
  unfolding finish_on_connection_def by (intro keeps_intros)

end
