(* ===== verification/Temporal.thy ===== *)
theory Temporal
  imports Activity_Worker
begin

text \<open>
  Timers and approval expiry (\<open>src/runtime/temporal.rs\<close>): one due timer or one expired
  approval is turned into the event its workflow waits for. The expiry reads its candidate
  before its transaction and locks it again inside.
\<close>

section \<open>Delivering the event of a wait\<close>

definition wait_command_sequence :: "workflow_row \<Rightarrow> durable_error + u32" where
  "wait_command_sequence workflow =
     (let checked =
        (case u32_try_from (wf_command_sequence workflow) of
           None \<Rightarrow> Inl (InvalidState (''workflow '' @ dec_int (wf_id workflow) @
                     '' has a negative command sequence''))
         | Some n \<Rightarrow> Inr n)
      in
      case workflow_wait workflow of
        Inl e \<Rightarrow> Inl e
      | Inr (Some (Wait_Timer command_sequence)) \<Rightarrow>
          if command_sequence \<noteq> wf_command_sequence workflow
          then Inl (InvalidState (''workflow '' @ dec_int (wf_id workflow) @
                 '' timer reference does not match its command sequence''))
          else checked
      | Inr (Some (Wait_Approval _)) \<Rightarrow> checked
      | Inr _ \<Rightarrow> Inl (InvalidState (''workflow '' @ dec_int (wf_id workflow) @
                 '' has no timer or approval wait'')))"

definition append_delivery_event ::
    "externals \<Rightarrow> workflow_row \<Rightarrow> string \<Rightarrow> workflow_event \<Rightarrow> db_millis \<Rightarrow> unit dtx" where
  "append_delivery_event E workflow event_type event now =
     tx_bind (tx_some Serialization (event_to_json E event)) (\<lambda>metadata_json.
     tx_seq (tx_lift (ensure_size ''temporal workflow event'' metadata_json MAX_EVENT_METADATA_BYTES))
     (tx_bind (tx_some (InvalidState ''workflow delivery sequence overflow'')
        (checked_add 32 (wf_delivered_event_sequence workflow) 1)) (\<lambda>delivery_sequence.
      tx_bind (next_event_sequence (wf_id workflow)) (\<lambda>sequence.
      append_event (system_event (wf_id workflow) sequence (Some delivery_sequence) event_type
        (Some metadata_json) None now)))))"

definition clear_wait :: "workflow_row \<Rightarrow> db_millis \<Rightarrow> unit dtx" where
  "clear_wait workflow now =
     fenced (workflow_update
       (\<lambda>r. wf_id r = wf_id workflow \<and> wf_status r = wf_status workflow \<and>
            sql_eq (wf_wait_kind r) (wf_wait_kind workflow) \<and>
            sql_eq (wf_wait_reference_id r) (wf_wait_reference_id workflow))
       (\<lambda>r. wait_cleared (r\<lparr>wf_status := (if wf_status workflow = WS_Paused then WS_Paused else WS_Ready),
              wf_available_at := now, wf_updated_at := now\<rparr>)))"

section \<open>Timers\<close>

text \<open>The first due timer, in the order of its time and id, whose row no one holds.\<close>

definition due_timer :: "(i64 \<Rightarrow> bool) \<Rightarrow> db_millis \<Rightarrow> db \<Rightarrow> workflow_row option" where
  "due_timer held now s =
     (case sort_key (\<lambda>r. (wf_available_at r, wf_id r))
        (filter (\<lambda>r. wf_status r = WS_Sleeping \<and> wf_wait_kind r = Some WK_Timer \<and>
           wf_available_at r \<le> now \<and> \<not> held (wf_id r)) (workflows s)) of
        [] \<Rightarrow> None
      | r # _ \<Rightarrow> Some r)"

definition materialize_timer ::
    "externals \<Rightarrow> (i64 \<Rightarrow> bool) \<Rightarrow> db_millis \<Rightarrow> i64 option dtx" where
  "materialize_timer E held now =
     tx_bind (tx_query (due_timer held now)) (\<lambda>found.
     case found of
       None \<Rightarrow> tx_return None
     | Some workflow \<Rightarrow>
         tx_bind (tx_lift (wait_command_sequence workflow)) (\<lambda>command_sequence.
         tx_seq (append_delivery_event E workflow ''timer_fired'' (TimerFired command_sequence) now)
         (tx_seq (clear_wait workflow now)
         (tx_return (Some (wf_id workflow))))))"

section \<open>Expired approvals\<close>

definition expired_approval :: "db_millis \<Rightarrow> db \<Rightarrow> (i64 \<times> i64) option" where
  "expired_approval now s =
     (case sort_key (\<lambda>p. (the (apr_expires_at p), apr_id p))
        (filter (\<lambda>p. apr_status p = AP_Pending \<and> sql_le (apr_expires_at p) now) (approvals s)) of
        [] \<Rightarrow> None
      | p # _ \<Rightarrow> Some (apr_id p, apr_workflow_id p))"

text \<open>The wait of a workflow, checked against the approval it names.\<close>

definition approval_mismatch :: "workflow_row \<Rightarrow> approval_row \<Rightarrow> durable_error + bool" where
  "approval_mismatch workflow approval =
     (if \<not> awaits_approval (wf_status workflow) then Inr True
      else
        (case workflow_wait workflow of
           Inl e \<Rightarrow> Inl e
         | Inr w \<Rightarrow> Inr (w \<noteq> Some (Wait_Approval (apr_id approval)) \<or>
             wf_kind workflow \<noteq> apr_kind approval \<or> wf_version workflow \<noteq> apr_version approval)))"

definition expire_approval ::
    "externals \<Rightarrow> i64 \<times> i64 \<Rightarrow> db_millis \<Rightarrow> i64 option dtx" where
  "expire_approval E candidate now =
     (case candidate of (approval_id, workflow_id) \<Rightarrow>
     tx_bind (lock_workflow_by_id workflow_id) (\<lambda>workflow.
     tx_bind (tx_query (\<lambda>s. approval_by_id s approval_id)) (\<lambda>found.
     tx_bind (tx_some (Database RowNotFound) found) (\<lambda>approval.
     if apr_status approval \<noteq> AP_Pending \<or>
        (case apr_expires_at approval of None \<Rightarrow> True | Some expires_at \<Rightarrow> expires_at > now)
     then tx_return None
     else
       tx_bind (tx_lift (approval_mismatch workflow approval)) (\<lambda>mismatch.
       if mismatch
       then tx_fail (InvalidState (''expired approval '' @ dec_int (apr_id approval) @
              '' no longer matches workflow '' @ dec_int (wf_id workflow)))
       else
         tx_bind (tx_lift (wait_command_sequence workflow)) (\<lambda>command_sequence.
         if command_sequence \<noteq> apr_command_sequence approval
         then tx_fail (InvalidState (''approval '' @ dec_int (apr_id approval) @
                '' command sequence does not match workflow '' @ dec_int (wf_id workflow)))
         else
           tx_seq (append_delivery_event E workflow ''approval_expired''
             (ApprovalExpired command_sequence) now)
           (tx_seq (fenced (approval_update
              (\<lambda>p. apr_id p = apr_id approval \<and> apr_status p = AP_Pending)
              (\<lambda>p. p\<lparr>apr_status := AP_Expired, apr_resolved_at := Some now\<rparr>)))
           (tx_seq (clear_wait workflow now)
           (tx_return (Some (apr_id approval)))))))))))"

text \<open>The candidate is read from a state \<open>s0\<close> that is as old as the other transactions make it.\<close>

definition materialize_expiry :: "externals \<Rightarrow> db \<Rightarrow> db_millis \<Rightarrow> i64 option dtx" where
  "materialize_expiry E s0 now =
     (case expired_approval now s0 of
        None \<Rightarrow> tx_return None
      | Some candidate \<Rightarrow> expire_approval E candidate now)"

section \<open>Evolution and row invariants\<close>

lemma evolves_append_delivery_event [guar_intros]:
  "guarantees db_evolves (append_delivery_event E w ty ev now)"
  unfolding append_delivery_event_def by (intro guar_intros)

lemma rows_ok_append_delivery_event [keeps_intros]:
  "keeps rows_ok (append_delivery_event E w ty ev now)"
  unfolding append_delivery_event_def by (intro keeps_intros)

lemma evolves_clear_wait:
  "\<not> ws_is_terminal (wf_status w) \<Longrightarrow> guarantees db_evolves (clear_wait w now)"
  unfolding clear_wait_def
  by (intro guar_intros evolves_workflow_update workflow_evolves_live)
    (auto simp: workflow_identity_def changes)

lemma rows_ok_clear_wait:
  "wf_status w \<noteq> WS_Running \<Longrightarrow> keeps rows_ok (clear_wait w now)"
  unfolding clear_wait_def
  by (intro keeps_intros rows_ok_workflow_update) (auto simp: row_ok_defs changes)

lemma sorted_head:
  assumes "sort_key k (filter P t) = r # rs"
  shows "r \<in> set t \<and> P r" and "\<forall>q \<in> set t. P q \<longrightarrow> k r \<le> k q"
proof -
  have set: "set (r # rs) = set (filter P t)" by (metis assms set_sort)
  then show "r \<in> set t \<and> P r" by auto
  have "sorted (map k (r # rs))" by (metis assms sorted_sort_key)
  with set show "\<forall>q \<in> set t. P q \<longrightarrow> k r \<le> k q" by auto
qed

lemma due_timer_Some:
  "due_timer held now s = Some r \<Longrightarrow> r \<in> set (workflows s) \<and> wf_status r = WS_Sleeping \<and>
     wf_wait_kind r = Some WK_Timer \<and> wf_available_at r \<le> now \<and> \<not> held (wf_id r)"
  by (auto simp: due_timer_def split: list.splits dest: sorted_head(1))

lemmas due_timer_Some' = due_timer_Some [OF sym]

lemma evolves_materialize_timer [guar_intros]: "guarantees db_evolves (materialize_timer E held now)"
  unfolding materialize_timer_def
  by (intro guar_intros evolves_clear_wait) (auto simp: tx_simps dest: due_timer_Some')

lemma rows_ok_materialize_timer [keeps_intros]: "keeps rows_ok (materialize_timer E held now)"
  unfolding materialize_timer_def
  by (intro keeps_intros rows_ok_clear_wait) (auto simp: tx_simps dest: due_timer_Some')

lemma approval_matches:
  "approval_mismatch w p = Inr False \<Longrightarrow> awaits_approval (wf_status w) \<and>
     workflow_wait w = Inr (Some (Wait_Approval (apr_id p)))"
  by (auto simp: approval_mismatch_def split: if_splits sum.splits)

lemma awaits_approval_suspended:
  "awaits_approval x \<Longrightarrow> \<not> ws_is_terminal x \<and> x \<noteq> WS_Running"
  by (cases x) auto

lemma evolves_expire_approval [guar_intros]: "guarantees db_evolves (expire_approval E c now)"
  unfolding expire_approval_def
  by (intro guar_intros evolves_clear_wait evolves_approval_update)
    (auto simp: tx_simps approval_evolves_def dest!: approval_matches awaits_approval_suspended)

lemma rows_ok_expire_approval [keeps_intros]: "keeps rows_ok (expire_approval E c now)"
  unfolding expire_approval_def
  by (intro keeps_intros rows_ok_clear_wait)
    (auto simp: tx_simps dest!: approval_matches awaits_approval_suspended)

lemma evolves_materialize_expiry [guar_intros]: "guarantees db_evolves (materialize_expiry E s0 now)"
  unfolding materialize_expiry_def by (intro guar_intros)

lemma rows_ok_materialize_expiry [keeps_intros]: "keeps rows_ok (materialize_expiry E s0 now)"
  unfolding materialize_expiry_def by (intro keeps_intros)

section \<open>What a timer delivers\<close>

text \<open>
  The event of a wait: one row changed from waiting to runnable (or stays paused), and one
  event was appended that is next after what the workflow has consumed.
\<close>

definition wait_answered :: "workflow_row \<Rightarrow> string \<Rightarrow> db \<Rightarrow> db \<Rightarrow> bool" where
  "wait_answered w event_type s s' \<longleftrightarrow>
     (\<exists>k e. k < length (workflows s) \<and> workflows s ! k = w \<and>
        wf_status (workflows s' ! k) = (if wf_status w = WS_Paused then WS_Paused else WS_Ready) \<and>
        wf_wait_kind (workflows s' ! k) = None \<and> wf_wait_reference_id (workflows s' ! k) = None \<and>
        (\<forall>j < length (workflows s). j \<noteq> k \<longrightarrow> workflows s' ! j = workflows s ! j) \<and>
        events s' = events s @ [e] \<and> ev_workflow_id e = wf_id w \<and> ev_event_type e = event_type \<and>
        ev_delivery_sequence e = Some (wf_delivered_event_sequence w + 1))"

lemma append_delivery_event_Inr:
  assumes "append_delivery_event E w ty ev now s = Inr (u, s')"
  obtains e where "events s' = events s @ [e]" "workflows s' = workflows s" "approvals s' = approvals s"
    "ev_workflow_id e = wf_id w" "ev_event_type e = ty"
    "ev_delivery_sequence e = Some (wf_delivered_event_sequence w + 1)"
proof -
  from assms obtain meta d q where d: "checked_add 32 (wf_delivered_event_sequence w) 1 = Some d"
    and app: "append_event (system_event (wf_id w) q (Some d) ty (Some meta) None now) s = Inr (u, s')"
    by (auto simp: append_delivery_event_def tx_bind_Inr tx_seq_Inr tx_some_Inr tx_lift_Inr
        next_event_sequence_def tx_query_Inr)
  from app d that show ?thesis by (auto simp: append_event_Inr system_event_def checked_add_Some)
qed

lemma clear_wait_Inr:
  assumes "clear_wait w now s = Inr (u, s')" and "w \<in> set (workflows s)"
    and "wf_wait_kind w \<noteq> None" and "wf_wait_reference_id w \<noteq> None"
  obtains k where "k < length (workflows s)" "workflows s ! k = w"
    "s' = s\<lparr>workflows := (workflows s)[k := wait_cleared (w\<lparr>wf_status :=
       (if wf_status w = WS_Paused then WS_Paused else WS_Ready), wf_available_at := now,
       wf_updated_at := now\<rparr>)]\<rparr>"
  using assms(1) unfolding clear_wait_def
  by (rule fenced_update_found [where r = w]) (use assms that in \<open>auto simp: sql_eq_def\<close>)

lemma wait_answered_steps:
  assumes "append_delivery_event E w ty ev now s = Inr (u, s1)" and "workflows s2 = workflows s1"
    and "events s2 = events s1" and "clear_wait w now s2 = Inr (v, s')" and "w \<in> set (workflows s)"
    and "wf_wait_kind w \<noteq> None" and "wf_wait_reference_id w \<noteq> None"
  shows "wait_answered w ty s s'"
  using assms(1)
proof (rule append_delivery_event_Inr)
  fix e assume e: "events s1 = events s @ [e]" "workflows s1 = workflows s"
    "ev_workflow_id e = wf_id w" "ev_event_type e = ty"
    "ev_delivery_sequence e = Some (wf_delivered_event_sequence w + 1)"
  have "w \<in> set (workflows s2)" using assms(2,5) e(2) by simp
  from assms(4) this assms(6,7) show ?thesis
  proof (rule clear_wait_Inr)
    fix k assume "k < length (workflows s2)" "workflows s2 ! k = w"
      "s' = s2\<lparr>workflows := (workflows s2)[k := wait_cleared (w\<lparr>wf_status :=
       (if wf_status w = WS_Paused then WS_Paused else WS_Ready), wf_available_at := now,
       wf_updated_at := now\<rparr>)]\<rparr>"
    with e assms(2,3) show ?thesis
      unfolding wait_answered_def by (intro exI [of _ k] exI [of _ e]) (simp add: changes)
  qed
qed

text \<open>
  C18: the earliest due timer fires. When the timer transaction returns a workflow, it was
  asleep on a due timer and no due timer that could be locked is earlier; its wait is
  answered by one \<open>timer_fired\<close> event that is next after what it has consumed, it is ready,
  and no other workflow changed. It returns none only when no due timer could be locked.
\<close>

theorem earliest_due_timer_fires:
  assumes "materialize_timer E held now s = Inr (fired, s')"
  shows "case fired of
      None \<Rightarrow> s' = s \<and> (\<forall>r \<in> set (workflows s). wf_status r = WS_Sleeping \<longrightarrow>
        wf_wait_kind r = Some WK_Timer \<longrightarrow> wf_available_at r \<le> now \<longrightarrow> held (wf_id r))
    | Some i \<Rightarrow> \<exists>w \<in> set (workflows s). wf_id w = i \<and> wf_status w = WS_Sleeping \<and>
        wf_available_at w \<le> now \<and> wait_answered w ''timer_fired'' s s' \<and>
        (\<forall>r \<in> set (workflows s). wf_status r = WS_Sleeping \<longrightarrow> wf_wait_kind r = Some WK_Timer \<longrightarrow>
           \<not> held (wf_id r) \<longrightarrow> wf_available_at w \<le> wf_available_at r)"
proof (cases "due_timer held now s")
  case None
  with assms have "fired = None" "s' = s" by (auto simp: materialize_timer_def bind_query tx_return_Inr)
  moreover have "filter (\<lambda>r. wf_status r = WS_Sleeping \<and> wf_wait_kind r = Some WK_Timer \<and>
      wf_available_at r \<le> now \<and> \<not> held (wf_id r)) (workflows s) = []"
    using None by (metis (no_types, lifting) due_timer_def list.case_eq_if option.distinct(1) set_empty set_sort)
  ultimately show ?thesis by (auto simp: filter_empty_conv)
next
  case (Some w)
  from Some obtain rs where sorted: "sort_key (\<lambda>r. (wf_available_at r, wf_id r))
        (filter (\<lambda>r. wf_status r = WS_Sleeping \<and> wf_wait_kind r = Some WK_Timer \<and>
           wf_available_at r \<le> now \<and> \<not> held (wf_id r)) (workflows s)) = w # rs"
    by (auto simp: due_timer_def split: list.splits)
  note w = due_timer_Some [OF Some]
  from assms Some obtain c s1 where c: "wait_command_sequence w = Inr c"
    and app: "append_delivery_event E w ''timer_fired'' (TimerFired c) now s = Inr ((), s1)"
    and clr: "clear_wait w now s1 = Inr ((), s')" and fired: "fired = Some (wf_id w)"
    by (auto simp: materialize_timer_def bind_query tx_bind_Inr tx_seq_Inr tx_lift_Inr tx_return_Inr)
  from c w have "wf_wait_reference_id w \<noteq> None"
    by (auto simp: wait_command_sequence_def workflow_wait_def Wait_parse_def Let_def split: option.splits)
  then have "wait_answered w ''timer_fired'' s s'"
    using wait_answered_steps [OF app refl refl clr] w by simp
  moreover have "wf_available_at w \<le> wf_available_at r"
    if "r \<in> set (workflows s)" "wf_status r = WS_Sleeping" "wf_wait_kind r = Some WK_Timer"
      "\<not> held (wf_id r)" for r
  proof (cases "wf_available_at r \<le> now")
    case True
    with sorted_head(2) [OF sorted] that show ?thesis by force
  next
    case False
    with w show ?thesis by simp
  qed
  ultimately show ?thesis using fired w by auto
qed

text \<open>A sleeping workflow with a due timer, and a held one that is due earlier.\<close>

definition sample_sleeping :: db where
  "sample_sleeping = sample_db\<lparr>workflows :=
     [sample_parent\<lparr>wf_status := WS_Sleeping, wf_wait_kind := Some WK_Timer,
        wf_wait_reference_id := Some 1, wf_available_at := 40\<rparr>,
      sample_child\<lparr>wf_status := WS_Sleeping, wf_wait_kind := Some WK_Timer,
        wf_wait_reference_id := Some 1, wf_available_at := 30\<rparr>]\<rparr>"

theorem earliest_due_timer_fires_witness:
  "\<exists>s' w. materialize_timer sample_externals (\<lambda>i. i = 2) 50 sample_sleeping = Inr (Some 1, s') \<and>
     w \<in> set (workflows sample_sleeping) \<and> wait_answered w ''timer_fired'' sample_sleeping s'"
proof -
  let ?x = "materialize_timer sample_externals (\<lambda>i. i = 2) 50 sample_sleeping"
  have "\<not> isl ?x \<and> fst (projr ?x) = Some 1" by code_simp
  then have x: "?x = Inr (Some 1, snd (projr ?x))" by (metis returned)
  from earliest_due_timer_fires [OF this] show ?thesis using x by auto
qed

end
