(* ===== verification/Topic_Slots.thy ===== *)
theory Topic_Slots
  imports Activity_Worker
begin

text \<open>
  What the activity worker promises of leases and topics: a claim whose lease is gone writes
  nothing, a revoked attempt's outcome is not applied, and claims keep every topic within
  its concurrency limit (S10, S17).
\<close>

section \<open>Slots\<close>

definition slots :: "string \<Rightarrow> db \<Rightarrow> nat" where
  "slots topic s =
     length (filter (\<lambda>a. act_topic a = topic \<and> holds_slot (act_status a)) (activities s))"

lemma holds_slot_iff: "holds_slot x \<longleftrightarrow> x = AS_Running \<or> x = AS_Cancelling"
  by (cases x) auto

text \<open>Statements that free slots and take none: a row that holds a slot afterwards is as before.\<close>

definition freed :: "activity_row \<Rightarrow> activity_row \<Rightarrow> bool" where
  "freed a a' \<longleftrightarrow>
     act_id a' = act_id a \<and> act_topic a' = act_topic a \<and> (holds_slot (act_status a') \<longrightarrow> a' = a)"

definition frees :: "db \<Rightarrow> db \<Rightarrow> bool" where
  "frees s s' \<longleftrightarrow> list_all2 freed (activities s) (activities s')"

interpretation freeing: guarantee frees
proof
  show "frees s s" for s by (simp add: frees_def freed_def list.rel_refl)
  show "frees s t \<Longrightarrow> frees t u \<Longrightarrow> frees s u" for s t u
    unfolding frees_def by (erule (1) list_all2_trans [rotated]) (auto simp: freed_def)
qed

lemma length_filter_pointwise:
  assumes "list_all2 R xs ys" and "\<And>x y. R x y \<Longrightarrow> P y \<Longrightarrow> P x"
  shows "length (filter P ys) \<le> length (filter P xs)"
  using assms(1)
proof (induction rule: list_all2_induct)
  case (Cons x xs y ys)
  with assms(2) [of x y] show ?case by (cases "P y") auto
qed simp

lemma frees_slots: "frees s s' \<Longrightarrow> slots t s' \<le> slots t s"
  unfolding slots_def frees_def
  by (rule length_filter_pointwise [of freed]) (auto simp: freed_def)

lemma frees_row:
  assumes "frees s s'" and "a' \<in> set (activities s')"
  shows "\<exists>a \<in> set (activities s). freed a a'"
  using assms unfolding frees_def by (metis list_all2_conv_all_nth in_set_conv_nth)

lemma frees_statements [guar_intros]:
  "guarantees frees (append_event e)" "guarantees frees (workflow_update P f)"
  "guarantees frees (attempt_update P2 f2)" "guarantees frees database_now_millis"
  by (auto simp: guarantees_def frees_def tx_simps append_event_Inr freed_def list.rel_refl)

lemma frees_activity_update:
  "(\<And>a. P a \<Longrightarrow> freed a (f a)) \<Longrightarrow> guarantees frees (activity_update P f)"
  by (auto simp: guarantees_def frees_def tx_simps list_all2_conv_all_nth freed_def)

lemma frees_fenced [guar_intros]: "guarantees frees m \<Longrightarrow> guarantees frees (fenced m)"
  unfolding fenced_def by (intro guar_intros)

lemma frees_history [guar_intros]:
  "guarantees frees (append_activity_history row ty reason now)"
  "guarantees frees (block_workflow row category message now)"
  "guarantees frees (close_attempt row out message now)"
  unfolding append_activity_history_def block_workflow_def close_attempt_def next_event_sequence_def
  by (intro guar_intros)+

lemma frees_settle_revoked [guar_intros]: "guarantees frees (settle_revoked row out message now)"
  unfolding settle_revoked_def Let_def find_workflow_by_id_def
  by (intro guar_intros frees_activity_update) (simp add: freed_def changes)

lemma frees_expire_running [guar_intros]: "guarantees frees (expire_running E w now row)"
  unfolding expire_running_def Let_def
  by (intro guar_intros frees_activity_update) (simp add: freed_def changes)

lemma frees_quarantine [guar_intros]: "guarantees frees (quarantine_candidate row reason why now)"
  unfolding quarantine_candidate_def Let_def
  by (intro guar_intros frees_activity_update) (simp add: freed_def)

lemma frees_reconcile [guar_intros]: "guarantees frees (reconcile_candidate E held topic now c)"
  unfolding reconcile_candidate_def settle_expired_def by (intro guar_intros)

lemma frees_reconcile_all [guar_intros]: "guarantees frees (reconcile_all E held topic now cs)"
  by (induction cs) (auto intro!: guar_intros)

section \<open>Reconciliation leaves no expired holder behind\<close>

definition settled_activity :: "string \<Rightarrow> db_millis \<Rightarrow> i64 \<Rightarrow> db \<Rightarrow> bool" where
  "settled_activity topic now i s \<longleftrightarrow>
     (\<forall>a \<in> set (activities s). act_id a = i \<longrightarrow> \<not> expired_holder topic now a)"

lemma settled_frees:
  assumes "settled_activity topic now i s" and "frees s s'"
  shows "settled_activity topic now i s'"
  unfolding settled_activity_def
proof (intro ballI impI notI)
  fix a' assume a': "a' \<in> set (activities s')" "act_id a' = i" "expired_holder topic now a'"
  then obtain a where "a \<in> set (activities s)" "freed a a'" using frees_row [OF assms(2)] by blast
  moreover from a'(3) have "holds_slot (act_status a')"
    by (auto simp: expired_holder_def holds_slot_iff)
  ultimately show False using a' assms(1) by (auto simp: freed_def settled_activity_def)
qed

text \<open>A fenced update that takes the lease away settles its row; the ids are distinct.\<close>

lemma settles_update:
  assumes "fenced (activity_update P f) s = Inr (u, s1)" and "row \<in> set (activities s)" and "P row"
    and "keys_ok s" and "\<not> holds_slot (act_status (f row))" and "act_id (f row) = act_id row"
  shows "settled_activity topic now (act_id row) s1"
proof -
  obtain k where k: "k < length (activities s)" "activities s ! k = row"
    "s1 = s\<lparr>activities := (activities s)[k := f row]\<rparr>"
    using assms(1-3) by (rule fenced_activity_update_found)
  have ids: "distinct (map act_id (activities s))"
    using assms(4) by (simp add: keys_ok_def activity_keys_ok_def)
  show ?thesis
    unfolding settled_activity_def
  proof (intro ballI impI)
    fix a assume a: "a \<in> set (activities s1)" "act_id a = act_id row"
    then obtain j where j: "j < length (activities s)" "a = (activities s)[k := f row] ! j"
      using k(3) by (auto simp: in_set_conv_nth)
    have "j = k"
    proof (rule ccontr)
      assume "j \<noteq> k"
      with a j k(2) have "map act_id (activities s) ! j = map act_id (activities s) ! k"
        using k(1) by simp
      with nth_eq_iff_index_eq [OF ids, of j k] j(1) k(1) \<open>j \<noteq> k\<close> show False by simp
    qed
    with j k(1) assms(5) show "\<not> expired_holder topic now a"
      by (auto simp: expired_holder_def holds_slot_iff)
  qed
qed

lemma establishes_settled_update:
  assumes "P row" and "\<not> holds_slot (act_status (f row))" and "act_id (f row) = act_id row"
  shows "establishes (\<lambda>s. keys_ok s \<and> row \<in> set (activities s)) (settled_activity topic now (act_id row))
    (fenced (activity_update P f))"
  unfolding establishes_def using settles_update assms by blast

lemma keeps_settled:
  "guarantees frees m \<Longrightarrow> keeps (settled_activity topic now i) m"
  using settled_frees unfolding keeps_def guarantees_def by blast

lemma keeps_row:
  "guarantees db_evolves m \<Longrightarrow> guarantees (\<lambda>s s'. activities s' = activities s) m \<Longrightarrow>
   keeps (\<lambda>s. keys_ok s \<and> row \<in> set (activities s)) m"
  unfolding keeps_def guarantees_def db_evolves_def by metis

lemma settles_expire_running:
  assumes "act_status row = AS_Running"
  shows "establishes (\<lambda>s. keys_ok s \<and> row \<in> set (activities s))
    (settled_activity topic now (act_id row)) (expire_running E w now row)"
  unfolding expire_running_def Let_def
  by (intro establishes_bind keeps_intros establishes_first establishes_settled_update keeps_settled
      guar_intros)
    (use assms in \<open>auto simp: changes holds_slot_iff tx_simps\<close>)

lemma settles_settle_revoked:
  assumes "act_status row = AS_Cancelling"
  shows "establishes (\<lambda>s. keys_ok s \<and> row \<in> set (activities s))
    (settled_activity topic now (act_id row)) (settle_revoked row out message now)"
proof -
  have close: "keeps (\<lambda>s. keys_ok s \<and> row \<in> set (activities s)) (close_attempt row out message now)"
    by (intro keeps_row guar_intros) (auto simp: guarantees_def close_attempt_def tx_simps)
  show ?thesis
    unfolding settle_revoked_def Let_def find_workflow_by_id_def
    by (intro establishes_bind keeps_intros establishes_second [OF close] establishes_first
        establishes_settled_update keeps_settled guar_intros)
      (use assms in \<open>auto simp: changes holds_slot_iff tx_simps\<close>)
qed

lemma settles_settle_expired:
  "establishes (\<lambda>s. keys_ok s \<and> row \<in> set (activities s))
     (settled_activity topic now (act_id row)) (settle_expired E w now row)"
  unfolding settle_expired_def
  by (cases "act_status row")
    (simp_all add: establishes_fail settles_expire_running establishes_first settles_settle_revoked
      keeps_pure)

lemma reconcile_candidate_settles:
  assumes "reconcile_candidate E held topic now (i, w) s = Inr (u, s')" and "keys_ok s"
  shows "u = Some i \<or> u = None \<and> settled_activity topic now i s'"
proof -
  let ?P = "\<lambda>a. act_id a = i \<and> expired_holder topic now a"
  from assms(1) consider "u = Some i"
    | "u = None" "s' = s" "find ?P (activities s) = None"
    | row workflow where "u = None" "find ?P (activities s) = Some row"
      "settle_expired E workflow now row s = Inr ((), s')"
    by (cases "if held w then None else workflow_by_id s w"; cases "find ?P (activities s)")
      (auto simp: reconcile_candidate_def bind_query tx_seq_Inr tx_return_Inr)
  then show ?thesis
  proof cases
    case 2
    then show ?thesis by (auto simp: settled_activity_def find_None)
  next
    case (3 row workflow)
    then have "row \<in> set (activities s)" "act_id row = i" by (auto dest: find_mem)
    with establishesD [OF settles_settle_expired _ 3(3)] assms(2) 3(1) show ?thesis by blast
  qed simp
qed

lemma reconcile_all_settles:
  assumes "reconcile_all E held topic now cs s = Inr (us, s')" and "keys_ok s"
  shows "\<forall>(i, w) \<in> set cs. i \<in> set us \<or> settled_activity topic now i s'"
  using assms
proof (induction cs arbitrary: s us)
  case (Cons c cs)
  obtain i w where c: "c = (i, w)" by (cases c)
  from Cons.prems(1) obtain u s1 rest where
      first: "reconcile_candidate E held topic now (i, w) s = Inr (u, s1)"
    and more: "reconcile_all E held topic now cs s1 = Inr (rest, s')"
    and us: "us = (case u of None \<Rightarrow> rest | Some i \<Rightarrow> i # rest)"
    by (auto simp: c tx_bind_Inr tx_return_Inr)
  have "keys_ok s1"
    using guaranteesD [OF evolves_reconcile_candidate first] Cons.prems(2) by (simp add: db_evolves_def)
  with Cons.IH [OF more] have "\<forall>(i, w) \<in> set cs. i \<in> set rest \<or> settled_activity topic now i s'" .
  moreover have "i \<in> set us \<or> settled_activity topic now i s'"
    using reconcile_candidate_settles [OF first Cons.prems(2)] settled_frees
      guaranteesD [OF frees_reconcile_all more] us by auto
  ultimately show ?case using us by (auto simp: c split: option.splits)
qed simp

text \<open>After reconciliation the count of live slots is the count of all slots.\<close>

lemma reconcile_expired_in_flight:
  assumes "reconcile_expired E held topic now s = Inr (us, s1)" and "keys_ok s"
  shows "in_flight topic us now s1 = slots topic s1" and "frees s s1"
proof -
  from assms(1) have run: "reconcile_all E held topic now (map (\<lambda>a. (act_id a, act_workflow_id a))
      (filter (expired_holder topic now) (activities s))) s = Inr (us, s1)"
    by (simp add: reconcile_expired_def bind_query)
  note settled = reconcile_all_settles [OF run assms(2)]
  show fr: "frees s s1" using guaranteesD [OF frees_reconcile_all run] .
  have "sql_gt (act_lease_expires_at a') now \<or> act_id a' \<in> set us"
    if a': "a' \<in> set (activities s1)" "act_topic a' = topic" "holds_slot (act_status a')" for a'
  proof (rule ccontr)
    assume "\<not> (sql_gt (act_lease_expires_at a') now \<or> act_id a' \<in> set us)"
    with a' have ex: "expired_holder topic now a'" and un: "act_id a' \<notin> set us"
      by (auto simp: expired_holder_def holds_slot_iff sql_gt_def sql_le_def split: option.splits)
    from frees_row [OF fr a'(1)] a'(3) have "a' \<in> set (activities s)" by (auto simp: freed_def)
    with settled ex un have "settled_activity topic now (act_id a') s1" by auto
    with a'(1) ex show False by (auto simp: settled_activity_def)
  qed
  then show "in_flight topic us now s1 = slots topic s1"
    unfolding in_flight_def slots_def by (auto simp: holds_slot_iff intro!: arg_cong [of _ _ length] filter_cong)
qed

section \<open>Claims take one slot each\<close>

definition of_topic :: "string \<Rightarrow> (i64 \<times> i64) list \<Rightarrow> db \<Rightarrow> bool" where
  "of_topic topic cs s \<longleftrightarrow>
     keys_ok s \<and> (\<forall>(i, w) \<in> set cs. \<forall>a \<in> set (activities s). act_id a = i \<longrightarrow> act_topic a = topic)"

lemma of_topic_candidates:
  assumes "keys_ok s"
  shows "of_topic topic (claim_candidates defs topic now s) s"
  unfolding of_topic_def
proof (intro conjI assms ballI)
  fix c assume c: "c \<in> set (claim_candidates defs topic now s)"
  obtain i w where iw: "c = (i, w)" by (cases c)
  have "act_topic a = topic" if a: "a \<in> set (activities s)" "act_id a = i" for a
  proof -
    from c iw obtain b where b: "b \<in> set (activities s)" "act_id b = i" "act_topic b = topic"
      by (auto simp: claim_candidates_def dest!: in_set_takeD)
    have "distinct (map act_id (activities s))"
      using assms by (simp add: keys_ok_def activity_keys_ok_def)
    with a b have "a = b" by (auto simp: distinct_map inj_on_def)
    with b show ?thesis by simp
  qed
  then show "case c of (i, w) \<Rightarrow> \<forall>a \<in> set (activities s). act_id a = i \<longrightarrow> act_topic a = topic"
    by (simp add: iw)
qed

lemma of_topic_evolves:
  assumes "of_topic topic cs s" and "db_evolves s s'" and "length (activities s') = length (activities s)"
  shows "of_topic topic cs s'"
  unfolding of_topic_def
proof (intro conjI)
  show "keys_ok s'" using assms by (simp add: of_topic_def db_evolves_def)
  have "\<exists>a \<in> set (activities s). act_id a = act_id a' \<and> act_topic a = act_topic a'"
    if "a' \<in> set (activities s')" for a'
  proof -
    from that obtain k where k: "k < length (activities s')" "activities s' ! k = a'"
      by (auto simp: in_set_conv_nth)
    with assms(2,3) have "activity_evolves (activities s ! k) a'"
      by (auto simp: db_evolves_def rows_evolve_def)
    with k assms(3) show ?thesis
      by (intro bexI [of _ "activities s ! k"]) (auto simp: activity_evolves_def activity_identity_def)
  qed
  then show "\<forall>(i, w) \<in> set cs. \<forall>a' \<in> set (activities s'). act_id a' = i \<longrightarrow> act_topic a' = topic"
    using assms(1) by (fastforce simp: of_topic_def)
qed

lemma slots_take_one:
  assumes "k < length (activities s)" and "activities s' = (activities s)[k := b]"
    and "act_topic b = act_topic (activities s ! k)"
  shows "slots t s' \<le> slots t s + (if act_topic b = t then 1 else 0)"
proof -
  let ?P = "\<lambda>a. act_topic a = t \<and> holds_slot (act_status a)"
  let ?xs = "activities s"
  have "length (filter ?P (?xs[k := b])) =
      length (filter ?P (take k ?xs)) + length (filter ?P [b]) + length (filter ?P (drop (Suc k) ?xs))"
    using assms(1) by (simp add: upd_conv_take_nth_drop)
  moreover have "length (filter ?P ?xs) =
      length (filter ?P (take k ?xs)) + length (filter ?P [?xs ! k]) + length (filter ?P (drop (Suc k) ?xs))"
    using assms(1) by (subst id_take_nth_drop [OF assms(1)]) simp
  ultimately show ?thesis using assms(2,3) by (simp add: slots_def)
qed

lemma claim_locked_slots:
  assumes "claim_locked_candidate V now c s = Inr (r, s')" and "of_topic topic (c # cs) s"
  shows "of_topic topic cs s'" and "t \<noteq> topic \<Longrightarrow> slots t s' \<le> slots t s"
    and "slots topic s' \<le> slots topic s + (if r = None then 0 else 1)"
    and "r = Some claim \<Longrightarrow> act_topic (clm_row claim) = topic"
proof -
  have ev: "db_evolves s s'" using guaranteesD [OF evolves_claim_locked_candidate assms(1)] .
  have here: "of_topic topic cs s" using assms(2) by (auto simp: of_topic_def)
  have all: "of_topic topic cs s' \<and> (t \<noteq> topic \<longrightarrow> slots t s' \<le> slots t s) \<and>
    slots topic s' \<le> slots topic s + (if r = None then 0 else 1) \<and>
    (r = Some claim \<longrightarrow> act_topic (clm_row claim) = topic)"
    using assms(1)
  proof (cases rule: claim_locked_cases)
    case skipped
    with here show ?thesis by simp
  next
    case (quarantined row reason why)
    from guaranteesD [OF frees_quarantine quarantined(4)] have fr: "frees s s'" .
    then have "length (activities s') = length (activities s)"
      by (simp add: frees_def list_all2_lengthD)
    with here ev frees_slots [OF fr] quarantined(1) of_topic_evolves show ?thesis by auto
  next
    case (claimed cl row run policy)
    have topic: "act_topic row = topic"
      using assms(2) claimed(2,3) by (cases c) (auto simp: of_topic_def)
    from claimed(6,2,4) show ?thesis
    proof (rule lease_activity_cases)
      fix k n expires
      assume k: "k < length (activities s)" "activities s ! k = row"
        "activities s' = (activities s)[k := row\<lparr>act_status := AS_Running, act_attempt_count := n,
           act_lease_owner := Some (ce_worker_id V), act_lease_token := Some (ce_token V (act_id row)),
           act_lease_expires_at := Some expires, act_updated_at := now\<rparr>]"
        and cl: "act_topic (clm_row cl) = act_topic row"
      have "slots u s' \<le> slots u s + (if topic = u then 1 else 0)" for u
        using slots_take_one [OF k(1,3)] k(2) topic by simp
      from this [of t] this [of topic] show ?thesis
        using of_topic_evolves [OF here ev] k(3) claimed(1) cl topic by auto
    qed
  qed
  from all show "of_topic topic cs s'" "t \<noteq> topic \<Longrightarrow> slots t s' \<le> slots t s"
    "slots topic s' \<le> slots topic s + (if r = None then 0 else 1)"
    "r = Some claim \<Longrightarrow> act_topic (clm_row claim) = topic" by auto
qed

lemma claim_first_slots:
  assumes "claim_first V now cs s = Inr (r, s')" and "of_topic topic cs s"
  shows "(t \<noteq> topic \<longrightarrow> slots t s' \<le> slots t s) \<and> slots topic s' \<le> slots topic s + 1"
  using assms
proof (induction cs arbitrary: s)
  case (Cons c cs)
  from Cons.prems(1) obtain u s1 where first: "claim_locked_candidate V now c s = Inr (u, s1)"
    and more: "(case u of Some claim \<Rightarrow> tx_return (Some claim) | None \<Rightarrow> claim_first V now cs) s1 = Inr (r, s')"
    by (auto simp: tx_bind_Inr)
  note one = claim_locked_slots [OF first Cons.prems(2)]
  show ?case
  proof (cases u)
    case None
    with more Cons.IH [of s1] one show ?thesis by force
  next
    case (Some cl)
    with more one(2,3) show ?thesis by (auto simp: tx_return_Inr)
  qed
qed (simp add: tx_simps)

text \<open>The topics a batch or a single claim served, each with its limit.\<close>

definition within_limits :: "(string \<times> i32) list \<Rightarrow> db \<Rightarrow> db \<Rightarrow> bool" where
  "within_limits limits s s' \<longleftrightarrow>
     (\<forall>t. slots t s' \<le> slots t s \<or> (\<exists>cap. (t, cap) \<in> set limits \<and> int (slots t s') \<le> cap))"

lemma within_limits_trans:
  assumes "within_limits l s u" and "within_limits m u v"
  shows "within_limits (l @ m) s v"
  unfolding within_limits_def
proof
  fix t
  from assms consider "slots t v \<le> slots t u" "slots t u \<le> slots t s"
    | cap where "slots t v \<le> slots t u" "(t, cap) \<in> set l" "int (slots t u) \<le> cap"
    | cap where "(t, cap) \<in> set m" "int (slots t v) \<le> cap"
    unfolding within_limits_def by blast
  then show "slots t v \<le> slots t s \<or> (\<exists>cap. (t, cap) \<in> set (l @ m) \<and> int (slots t v) \<le> cap)"
  proof cases
    case (2 cap)
    then have "(t, cap) \<in> set (l @ m)" "int (slots t v) \<le> cap" by simp_all
    then show ?thesis by blast
  qed auto
qed

lemma within_limits_one:
  assumes "int (slots topic s') \<le> cap" and "\<And>t. t \<noteq> topic \<Longrightarrow> slots t s' \<le> slots t s"
  shows "within_limits [(topic, cap)] s s'"
  unfolding within_limits_def
proof
  fix t show "slots t s' \<le> slots t s \<or> (\<exists>c. (t, c) \<in> set [(topic, cap)] \<and> int (slots t s') \<le> c)"
    using assms by (cases "t = topic") auto
qed

lemma within_limits_frees: "frees s s' \<Longrightarrow> within_limits l s s'"
  by (simp add: within_limits_def frees_slots)

lemma claim_while_slots:
  assumes "claim_while V now topic limit wanted claims cs s = Inr (claims', s')"
    and "of_topic topic cs s"
  defines "n \<equiv> \<lambda>cl. length (filter (\<lambda>claim. act_topic (clm_row claim) = topic) cl)"
  shows "(t \<noteq> topic \<longrightarrow> slots t s' \<le> slots t s) \<and> n claims \<le> n claims' \<and>
    slots topic s' + n claims \<le> slots topic s + n claims' \<and> n claims' \<le> max wanted (n claims)"
  using assms(1,2)
proof (induction cs arbitrary: s claims)
  case Nil
  then show ?case by (simp add: tx_return_Inr)
next
  case (Cons c cs)
  show ?case
  proof (cases "length claims \<ge> limit \<or> n claims \<ge> wanted")
    case True
    with Cons.prems(1) have "s' = s" "claims' = claims" by (auto simp: n_def tx_return_Inr)
    then show ?thesis by simp
  next
    case False
    with Cons.prems(1) obtain u s1 where first: "claim_locked_candidate V now c s = Inr (u, s1)"
      and more: "claim_while V now topic limit wanted
        (case u of None \<Rightarrow> claims | Some claim \<Rightarrow> claims @ [claim]) cs s1 = Inr (claims', s')"
      by (auto simp: n_def tx_bind_Inr)
    note one = claim_locked_slots [OF first Cons.prems(2)]
    let ?claims = "case u of None \<Rightarrow> claims | Some claim \<Rightarrow> claims @ [claim]"
    have n: "n ?claims = n claims + (if u = None then 0 else 1)"
      using one(4) by (cases u) (simp_all add: n_def)
    from Cons.IH [OF more one(1)] one(2) [of t] one(3) n False show ?thesis
      by (cases u) auto
  qed
qed

lemma slots_wanted_fits:
  assumes "0 < slots_wanted cap flying capacity limit claimed" and "in_signed 32 cap"
  shows "int (flying + slots_wanted cap flying capacity limit claimed) \<le> cap"
proof -
  have "saturating_sub 64 cap (int flying) = max (min_signed 64) (cap - int flying)"
    using assms(2) by (auto simp: saturating_sub_def clamp_signed_def in_signed_def max_signed_def min_signed_def)
  with assms(1) show ?thesis
    by (auto simp: slots_wanted_def min_signed_def min_def max_def split: if_splits)
qed

lemma claim_topics_within_limits:
  assumes "claim_topics V now limit capacity claims ts s = Inr (claims', s')" and "keys_ok s"
    and "\<forall>(t, cap) \<in> set ts. in_signed 32 cap"
  shows "within_limits ts s s'"
  using assms
proof (induction ts arbitrary: s claims)
  case Nil
  then show ?case by (simp add: tx_return_Inr within_limits_def)
next
  case (Cons tc ts)
  obtain topic cap where tc: "tc = (topic, cap)" by (cases tc)
  from Cons.prems(1) obtain us s1 where
      rec: "reconcile_expired (ce_externals V) (ce_workflow_held V) topic now s = Inr (us, s1)"
    by (auto simp: tc tx_bind_Inr)
  note fl = reconcile_expired_in_flight [OF rec Cons.prems(2)]
  have keys1: "keys_ok s1"
    using guaranteesD [OF evolves_reconcile_expired rec] Cons.prems(2) by (simp add: db_evolves_def)
  let ?w = "slots_wanted cap (slots topic s1) (capacity topic) limit (length claims)"
  let ?cs = "claim_candidates (ce_definitions V) topic now s1"
  from Cons.prems(1) rec fl(1) consider
      "?w = 0" "claim_topics V now limit capacity claims ts s1 = Inr (claims', s')"
    | "s' = s1"
    | c1 s2 where "0 < ?w" "claim_while V now topic limit ?w claims ?cs s1 = Inr (c1, s2)"
        "claim_topics V now limit capacity c1 ts s2 = Inr (claims', s')"
    by (cases "?w = 0"; cases "ce_definitions V = []")
      (auto simp: tc Let_def tx_bind_Inr tx_query_Inr tx_return_Inr)
  then show ?case
  proof cases
    case 1
    with Cons.IH [OF _ keys1] Cons.prems(3) have "within_limits ts s1 s'" by simp
    with within_limits_trans [OF within_limits_frees [OF fl(2), of "[(topic, cap)]"]]
    show ?thesis by (simp add: tc)
  next
    case 2
    with within_limits_frees [OF fl(2)] show ?thesis by simp
  next
    case (3 c1 s2)
    note used = claim_while_slots [OF 3(2) of_topic_candidates [OF keys1]]
    have "keys_ok s2"
      using guaranteesD [OF evolves_claim_while 3(2)] keys1 by (simp add: db_evolves_def)
    with Cons.IH [OF 3(3)] Cons.prems(3) have rest: "within_limits ts s2 s'" by simp
    have "slots topic s2 \<le> slots topic s1 + ?w"
      using used [of topic] by (auto simp: max_def split: if_splits)
    with slots_wanted_fits [OF 3(1)] Cons.prems(3) have "int (slots topic s2) \<le> cap"
      by (auto simp: tc)
    moreover have "slots t s2 \<le> slots t s" if "t \<noteq> topic" for t
      using used [of t] that frees_slots [OF fl(2), of t] by auto
    ultimately have "within_limits [(topic, cap)] s s2" by (rule within_limits_one)
    from within_limits_trans [OF this rest] show ?thesis by (simp add: tc)
  qed
qed

definition respects_limits :: "db \<Rightarrow> db \<Rightarrow> bool" where
  "respects_limits s s' \<longleftrightarrow>
     (\<forall>t. slots t s' \<le> slots t s \<or> (\<exists>cap. topic_limit s t = Some cap \<and> int (slots t s') \<le> cap))"

lemma within_limits_respects:
  assumes "within_limits l s s'" and "\<And>t cap. (t, cap) \<in> set l \<Longrightarrow> topic_limit s t = Some cap"
  shows "respects_limits s s'"
  using assms unfolding within_limits_def respects_limits_def by blast

lemma slots_clock [simp]: "slots t (s\<lparr>clock_reads := n\<rparr>) = slots t s"
  by (simp add: slots_def)

lemma within_limits_clock [simp]:
  "within_limits l (s\<lparr>clock_reads := n\<rparr>) s' = within_limits l s s'"
  by (simp add: within_limits_def)

lemma claim_one_within_limits:
  assumes "claim_one V T topic s = Inr (claim, s')" and "keys_ok s"
  obtains cap where "topic_limit s topic = Some cap" "within_limits [(topic, cap)] s s'"
proof -
  let ?now = "clock s (clock_reads s)" and ?s0 = "s\<lparr>clock_reads := Suc (clock_reads s)\<rparr>"
  from assms(1) obtain cap us s1 where cap: "topic_limit s topic = Some cap"
    and rec: "reconcile_expired (ce_externals V) (ce_workflow_held V) topic ?now ?s0 = Inr (us, s1)"
    and out: "s' = s1 \<or> int (in_flight topic us ?now s1) < cap \<and>
      claim_first V ?now (claim_candidates (ce_definitions V) topic ?now s1) s1 = Inr (claim, s')"
    unfolding claim_one_def tx_bind_Inr tx_seq_Inr
    by (auto simp: tx_some_Inr tx_query_Inr database_now_millis_Inr topic_limit_def tx_return_Inr
        tx_bind_Inr not_le split: if_split_asm)
  have "keys_ok ?s0" using assms(2) by (simp add: keys_ok_def)
  note fl = reconcile_expired_in_flight [OF rec this]
  have keys1: "keys_ok s1"
    using guaranteesD [OF evolves_reconcile_expired rec] \<open>keys_ok ?s0\<close> by (simp add: db_evolves_def)
  have "within_limits [(topic, cap)] ?s0 s'"
    using out
  proof
    assume "s' = s1"
    then show ?thesis using within_limits_frees [OF fl(2)] by simp
  next
    assume run: "int (in_flight topic us ?now s1) < cap \<and>
      claim_first V ?now (claim_candidates (ce_definitions V) topic ?now s1) s1 = Inr (claim, s')"
    note used = claim_first_slots [OF _ of_topic_candidates [OF keys1], OF conjunct2 [OF run]]
    have "int (slots topic s') \<le> cap" using used [of topic] run fl(1) by auto
    moreover have "slots t s' \<le> slots t ?s0" if "t \<noteq> topic" for t
      using used [of t] that frees_slots [OF fl(2), of t] by auto
    ultimately show ?thesis by (rule within_limits_one)
  qed
  with cap that show ?thesis by simp
qed

lemma claim_batch_within_limits:
  assumes "claim_batch V T topic_held limit local_capacity s = Inr (claims, s')" and "keys_ok s"
    and "\<forall>r \<in> set (topic_locks s). in_signed 32 (tl_max_concurrency r)"
  shows "within_limits (map (\<lambda>r. (tl_topic r, tl_max_concurrency r)) (topic_locks s)) s s'"
proof -
  let ?now = "clock s (clock_reads s)" and ?s0 = "s\<lparr>clock_reads := Suc (clock_reads s)\<rparr>"
  let ?locked = "map (\<lambda>r. (tl_topic r, tl_max_concurrency r)) (sort_key tl_topic (filter
    (\<lambda>r. tl_topic r \<in> set (map td_key (TopicRegistry_definitions T)) \<and> \<not> topic_held (tl_topic r))
    (topic_locks s)))"
  from assms(1) consider "s' = s"
    | capacity where "claim_topics V ?now limit capacity [] ?locked ?s0 = Inr (claims, s')"
    unfolding claim_batch_def
    by (auto simp: tx_bind_Inr tx_query_Inr tx_return_Inr database_now_millis_Inr split: if_split_asm)
  then show ?thesis
  proof cases
    case 1
    then show ?thesis by (simp add: within_limits_def)
  next
    case (2 capacity)
    have "keys_ok ?s0" using assms(2) by (simp add: keys_ok_def)
    from claim_topics_within_limits [OF 2 this] assms(3) have "within_limits ?locked s s'" by auto
    moreover have "set ?locked \<subseteq> set (map (\<lambda>r. (tl_topic r, tl_max_concurrency r)) (topic_locks s))"
      by auto
    ultimately show ?thesis unfolding within_limits_def by blast
  qed
qed

text \<open>
  C12: claims respect the topic limits. A single claim and a batch leave, for every topic, no
  more slots taken than before, or no more than the limit its lock row holds: whatever
  leases expired, were reconciled or left unsettled, a topic within its limit stays within
  it and one above it is never pushed further (S17, G7).
\<close>

theorem claims_respect_topic_limits:
  assumes "keys_ok s" and "distinct (map tl_topic (topic_locks s))"
    and "\<forall>r \<in> set (topic_locks s). in_signed 32 (tl_max_concurrency r)"
  shows "(claim_one V T topic s = Inr (claim, s1) \<longrightarrow> respects_limits s s1) \<and>
    (claim_batch V T topic_held limit local_capacity s = Inr (claims, s2) \<longrightarrow> respects_limits s s2)"
proof (intro conjI impI)
  assume "claim_one V T topic s = Inr (claim, s1)"
  from this assms(1) obtain cap where "topic_limit s topic = Some cap"
    "within_limits [(topic, cap)] s s1" by (rule claim_one_within_limits)
  then show "respects_limits s s1" by (auto intro: within_limits_respects)
next
  assume "claim_batch V T topic_held limit local_capacity s = Inr (claims, s2)"
  from claim_batch_within_limits [OF this assms(1,3)] show "respects_limits s s2"
    by (rule within_limits_respects) (use find_key_distinct [OF assms(2)] in \<open>auto simp: topic_limit_def\<close>)
qed

text \<open>A worker that knows the sample activity.\<close>

definition sample_env :: claim_env where
  "sample_env = \<lparr>ce_externals = sample_externals, ce_contains = (\<lambda>_ _. True),
     ce_definitions = [(''charge'', 1)], ce_worker_id = ''w'', ce_token = (\<lambda>_. ''tok''),
     ce_started = 0, ce_workflow_held = (\<lambda>_. False), ce_activity_held = (\<lambda>_. False)\<rparr>"

definition sample_topics :: topic_registry where
  "sample_topics = [\<lparr>td_key = ''t'', td_max_concurrency = 1\<rparr>]"

theorem claims_respect_topic_limits_witness:
  "let run = claim_one sample_env sample_topics ''t'' sample_db
   in (\<exists>claim. fst (projr run) = Some claim) \<and> slots ''t'' (snd (projr run)) = 1 \<and>
      respects_limits sample_db (snd (projr run))"
proof -
  let ?run = "claim_one sample_env sample_topics ''t'' sample_db"
  have run: "\<not> isl ?run \<and> fst (projr ?run) \<noteq> None \<and> slots ''t'' (snd (projr ?run)) = 1" by code_simp
  have locks: "distinct (map tl_topic (topic_locks sample_db))"
    "\<forall>r \<in> set (topic_locks sample_db). in_signed 32 (tl_max_concurrency r)"
    by (simp_all add: sample_defs in_signed_def min_signed_def max_signed_def)
  have "respects_limits sample_db (snd (projr ?run))"
    using claims_respect_topic_limits [OF sample_keys_ok locks] returned [of ?run] run by blast
  with run show ?thesis by (auto simp: Let_def)
qed

section \<open>Lost leases and revoked attempts\<close>

definition activity_claim_stale :: "activity_claim \<Rightarrow> db \<Rightarrow> bool" where
  "activity_claim_stale claim s \<longleftrightarrow> (\<forall>a \<in> set (activities s). \<not> leased_activity claim a)"

lemma stale_activity_find:
  "activity_claim_stale claim s \<Longrightarrow> find (leased_activity claim) (activities s) = None"
  by (simp add: activity_claim_stale_def find_None)

lemma stale_activity_clock [simp]:
  "activity_claim_stale claim (s\<lparr>clock_reads := n\<rparr>) = activity_claim_stale claim s"
  by (simp add: activity_claim_stale_def)

lemma rejects_stale_heartbeat: "rejects (activity_claim_stale claim) (heartbeat_once claim started)"
  by (rule rejectsI)
    (auto simp: heartbeat_once_def tx_eval database_now_millis_def stale_activity_find split: option.splits)

text \<open>
  C13: a lost activity lease authorizes nothing. Once no row carries the claim's attempt
  and token under a lease, the heartbeat and the finish of the attempt leave the database
  as it is, and the finish of an attempt whose workflow exists fails with \<open>FencedWrite\<close>,
  which a revoked attempt takes as done (S10, N2).
\<close>

theorem lost_activity_lease_changes_nothing:
  assumes "activity_claim_stale claim s"
  shows "tx_commit (heartbeat_once claim started) s = s \<and>
    tx_commit (finish_on_connection E claim outcome) s = s \<and>
    (workflow_by_id s (act_workflow_id (clm_row claim)) \<noteq> None \<longrightarrow>
       finish_claim E claim outcome s =
         (if outcome = Outcome_Revoked then Inr () else Inl (Err FencedWrite), s))"
proof (intro conjI impI)
  show "tx_commit (heartbeat_once claim started) s = s"
    using rejects_stale_heartbeat assms by (rule rejects_commit)
  have finish: "finish_on_connection E claim outcome s =
      (if workflow_by_id s (act_workflow_id (clm_row claim)) = None
       then Inl (Err (Database RowNotFound)) else Inl (Err FencedWrite))"
    using assms
    by (auto simp: finish_on_connection_def tx_eval lock_workflow_by_id_def database_now_millis_def
        stale_activity_find split: option.splits)
  then show "tx_commit (finish_on_connection E claim outcome) s = s"
    by (simp add: tx_commit_def)
  assume "workflow_by_id s (act_workflow_id (clm_row claim)) \<noteq> None"
  with finish show "finish_claim E claim outcome s =
      (if outcome = Outcome_Revoked then Inr () else Inl (Err FencedWrite), s)"
    by (simp add: finish_claim_def)
qed

definition sample_activity_claim :: activity_claim where
  "sample_activity_claim = \<lparr>clm_row = sample_activity, clm_schedule_run_id = None,
     clm_attempt_number = 1, clm_lease_token = ''tok'', clm_lease_deadline = 0,
     clm_retry_policy = \<lparr>backoff = Fixed 5\<rparr>\<rparr>"

theorem lost_activity_lease_changes_nothing_witness:
  "finish_claim sample_externals sample_activity_claim (Outcome_Succeeded ''{}'') sample_db =
     (Inl (Err FencedWrite), sample_db)"
proof -
  have "activity_claim_stale sample_activity_claim sample_db"
    by (simp add: activity_claim_stale_def leased_activity_def sample_activity_claim_def sample_defs)
  from lost_activity_lease_changes_nothing [OF this, of _ sample_externals "Outcome_Succeeded ''{}''"]
  show ?thesis
    by (simp add: workflow_by_id_def sample_activity_claim_def sample_defs)
qed

text \<open>Settling a revoke touches no workflow row and records no result.\<close>

definition no_result :: "db \<Rightarrow> db \<Rightarrow> bool" where
  "no_result s s' \<longleftrightarrow> workflows s' = workflows s \<and>
     map act_provider_result_json (activities s') = map act_provider_result_json (activities s)"

interpretation unapplied: guarantee no_result
  by unfold_locales (auto simp: no_result_def)

lemma no_result_statements [guar_intros]:
  "guarantees no_result (append_event e)" "guarantees no_result database_now_millis"
  "guarantees no_result (attempt_update P2 f2)" "guarantees no_result (next_event_sequence i)"
  by (auto simp: guarantees_def no_result_def tx_simps append_event_Inr next_event_sequence_def)

lemma no_result_activity_update:
  "(\<And>a. act_provider_result_json (f a) = act_provider_result_json a) \<Longrightarrow>
   guarantees no_result (fenced (activity_update P f))"
  by (auto simp: guarantees_def no_result_def tx_simps)

lemma no_result_fenced_attempt [guar_intros]:
  "guarantees no_result (fenced (attempt_update P f))"
  by (auto simp: guarantees_def no_result_def tx_simps)

lemma no_result_finish_revoked: "guarantees no_result (finish_revoked row now)"
  unfolding finish_revoked_def settle_revoked_def Let_def append_activity_history_def
    close_attempt_def find_workflow_by_id_def
  by (intro guar_intros no_result_activity_update) (simp add: changes)

text \<open>
  C14: a revoked attempt's outcome is not applied. When a cancel or pause has marked the
  attempt, its finish does the same whatever the handler returned: no workflow row changes
  and no result is recorded (N2).
\<close>

theorem revoked_outcome_not_applied:
  assumes "find (leased_activity claim) (activities s) = Some row" and "act_status row = AS_Cancelling"
  shows "finish_on_connection E claim outcome s = finish_on_connection E claim other s \<and>
    (finish_on_connection E claim outcome s = Inr (u, s') \<longrightarrow> no_result s s')"
proof -
  have run: "finish_on_connection E claim x s =
    (if workflow_by_id s (act_workflow_id (clm_row claim)) = None then Inl (Err (Database RowNotFound))
     else finish_revoked row (clock s (clock_reads s)) (s\<lparr>clock_reads := Suc (clock_reads s)\<rparr>))" for x
    using assms
    by (auto simp: finish_on_connection_def tx_eval lock_workflow_by_id_def database_now_millis_def
        split: option.splits)
  have "no_result s s'" if "finish_on_connection E claim outcome s = Inr (u, s')"
  proof -
    from that run have "finish_revoked row (clock s (clock_reads s)) (s\<lparr>clock_reads := Suc (clock_reads s)\<rparr>)
      = Inr (u, s')" by (auto split: if_splits)
    from guaranteesD [OF no_result_finish_revoked this] show ?thesis by (simp add: no_result_def)
  qed
  with run show ?thesis by simp
qed

definition sample_revoked :: db where
  "sample_revoked = sample_db\<lparr>activities := [sample_activity\<lparr>act_status := AS_Cancelling,
       act_attempt_count := 1, act_lease_owner := Some ''w'', act_lease_token := Some ''tok'',
       act_lease_expires_at := Some 9000, act_last_error_category := Some ''operator_cancelled'',
       act_last_error_message := Some ''stop''\<rparr>],
     attempts := [\<lparr>att_activity_id = 1, att_attempt_number = 1, att_worker_id = ''w'',
       att_lease_token = ''tok'', att_started_at = 10, att_heartbeat_at = 10, att_finished_at = None,
       att_outcome = None, att_error_category = None, att_error_message = None,
       att_provider_result_json = None\<rparr>]\<rparr>"

theorem revoked_outcome_not_applied_witness:
  "let run = finish_on_connection sample_externals sample_activity_claim (Outcome_Succeeded ''{}'') sample_revoked
   in \<not> isl run \<and> no_result sample_revoked (snd (projr run))"
proof -
  let ?run = "finish_on_connection sample_externals sample_activity_claim (Outcome_Succeeded ''{}'') sample_revoked"
  have run: "\<not> isl ?run" by code_simp
  have found: "find (leased_activity sample_activity_claim) (activities sample_revoked) =
      Some (activities sample_revoked ! 0)"
    by (simp add: sample_revoked_def leased_activity_def sample_activity_claim_def sample_defs)
  have "act_status (activities sample_revoked ! 0) = AS_Cancelling" by (simp add: sample_revoked_def)
  from revoked_outcome_not_applied [OF found this, of sample_externals "Outcome_Succeeded ''{}''"]
    returned [OF run] run show ?thesis by (auto simp: Let_def)
qed

section \<open>A result is delivered once\<close>

text \<open>What a successful finish leaves: the row, its workflow and the event.\<close>

definition result_delivered :: "activity_claim \<Rightarrow> string \<Rightarrow> db \<Rightarrow> db \<Rightarrow> bool" where
  "result_delivered claim output s s' \<longleftrightarrow>
     (\<exists>k j e. k < length (activities s) \<and> fenced_activity claim (activities s ! k) \<and>
        act_status (activities s' ! k) = AS_Succeeded \<and>
        act_provider_result_json (activities s' ! k) = Some output \<and>
        act_lease_token (activities s' ! k) = None \<and>
        j < length (workflows s) \<and>
        waits_for_activity (act_workflow_id (clm_row claim)) (act_id (clm_row claim)) (workflows s ! j) \<and>
        wf_status (workflows s' ! j) = WS_Ready \<and> wf_wait_kind (workflows s' ! j) = None \<and>
        events s' = events s @ [e] \<and> ev_workflow_id e = wf_id (workflows s ! j) \<and>
        ev_event_type e = ''activity_succeeded'' \<and>
        ev_delivery_sequence e =
          Some (saturating_add 32 (wf_delivered_event_sequence (workflows s ! j)) 1))"

lemma wake_workflow_cases:
  assumes "wake_workflow E claim output now s = Inr (u, s')" and "keys_ok s"
  obtains j e where "j < length (workflows s)"
    "waits_for_activity (act_workflow_id (clm_row claim)) (act_id (clm_row claim)) (workflows s ! j)"
    "wf_status (workflows s' ! j) = WS_Ready" "wf_wait_kind (workflows s' ! j) = None"
    "events s' = events s @ [e]" "ev_workflow_id e = wf_id (workflows s ! j)"
    "ev_event_type e = ''activity_succeeded''"
    "ev_delivery_sequence e = Some (saturating_add 32 (wf_delivered_event_sequence (workflows s ! j)) 1)"
    "activities s' = activities s"
proof -
  let ?w = "act_workflow_id (clm_row claim)" and ?i = "act_id (clm_row claim)"
  let ?f = "\<lambda>r. wait_cleared (r\<lparr>wf_status := WS_Ready, wf_available_at := now, wf_updated_at := now\<rparr>)"
  from assms(1) obtain w q metadata s1 where w: "workflow_by_id s ?w = Some w"
    and app: "append_event (system_event ?w q (Some (saturating_add 32 (wf_delivered_event_sequence w) 1))
      ''activity_succeeded'' (Some metadata) None now) s = Inr ((), s1)"
    and upd: "fenced (workflow_update (waits_for_activity ?w ?i) ?f) s1 = Inr (u, s')"
    by (auto simp: wake_workflow_def Let_def lock_workflow_by_id_def next_event_sequence_def tx_bind_Inr
        tx_seq_Inr tx_query_Inr tx_some_Inr tx_lift_Inr tx_fail_Inr split: if_split_asm)
  from app obtain e where e: "events s1 = events s @ [e]" "workflows s1 = workflows s"
      "activities s1 = activities s" "ev_workflow_id e = ?w" "ev_event_type e = ''activity_succeeded''"
      "ev_delivery_sequence e = Some (saturating_add 32 (wf_delivered_event_sequence w) 1)"
    by (auto simp: append_event_Inr system_event_def)
  from upd obtain j where j: "j < length (workflows s1)" "waits_for_activity ?w ?i (workflows s1 ! j)"
    "s' = s1\<lparr>workflows := (workflows s1)[j := ?f (workflows s1 ! j)]\<rparr>"
    by (rule fenced_workflow_update_one)
  have "w \<in> set (workflows s)" "wf_id w = ?w"
    using w by (auto simp: workflow_by_id_def dest: find_key_mem)
  moreover have "distinct (map wf_id (workflows s))"
    using assms(2) by (simp add: keys_ok_def workflow_keys_ok_def)
  ultimately have "workflows s ! j = w"
    using j e(2) by (auto simp: distinct_map inj_on_def waits_for_activity_def)
  with j e that [of j e] show ?thesis
    by (auto simp: waits_for_activity_def changes)
qed

text \<open>
  C17: a result is delivered exactly once. When the finish of a succeeded attempt returns and
  the attempt was not revoked, the row that carried the claim's lease holds the result and
  no lease, the workflow that waited for this activity is ready and waits no more, and one
  event was appended, deliverable next after what the workflow has consumed (S6, S12).
\<close>

theorem succeeded_activity_wakes_workflow:
  assumes "finish_on_connection E claim (Outcome_Succeeded output) s = Inr (u, s')" and "keys_ok s"
    and "find (leased_activity claim) (activities s) = Some row" and "act_status row = AS_Running"
  shows "result_delivered claim output s s'"
proof -
  let ?now = "clock s (clock_reads s)" and ?s0 = "s\<lparr>clock_reads := Suc (clock_reads s)\<rparr>"
  let ?f = "\<lambda>a. activity_lease_cleared (a\<lparr>act_status := AS_Succeeded,
    act_provider_result_json := Some output, act_last_error_category := None,
    act_last_error_message := None, act_updated_at := ?now, act_completed_at := Some ?now\<rparr>)"
  from assms(1,3,4) have "finish_succeeded E claim output ?now ?s0 = Inr (u, s')"
    unfolding finish_on_connection_def tx_seq_Inr tx_bind_Inr
    by (auto simp: lock_workflow_by_id_def tx_bind_Inr tx_query_Inr tx_some_Inr database_now_millis_Inr)
  then obtain s1 s2 where upd: "fenced (activity_update (fenced_activity claim) ?f) ?s0 = Inr ((), s1)"
    and att: "finish_attempt claim AO_Succeeded None None (Some output) ?now s1 = Inr ((), s2)"
    and wake: "wake_workflow E claim output ?now s2 = Inr (u, s')"
    unfolding finish_succeeded_def tx_seq_Inr by auto
  from upd obtain k where k: "k < length (activities ?s0)" "fenced_activity claim (activities ?s0 ! k)"
    "s1 = ?s0\<lparr>activities := (activities ?s0)[k := ?f (activities ?s0 ! k)]\<rparr>"
    by (rule fenced_activity_update_one)
  from att have s2: "workflows s2 = workflows s1" "activities s2 = activities s1" "events s2 = events s1"
    by (auto simp: finish_attempt_def tx_simps)
  have "db_evolves ?s0 s1"
    using upd by (rule guaranteesD [rotated])
      (intro guar_intros evolves_fenced_activity; simp add: changes activity_identity_def)
  moreover have "db_evolves s1 s2" using guaranteesD [OF evolves_finish_attempt att] .
  moreover have "keys_ok ?s0" using assms(2) by (simp add: keys_ok_def)
  ultimately have "keys_ok s2" by (simp add: db_evolves_def)
  with wake show ?thesis
  proof (rule wake_workflow_cases)
    fix j e
    assume j: "j < length (workflows s2)"
      "waits_for_activity (act_workflow_id (clm_row claim)) (act_id (clm_row claim)) (workflows s2 ! j)"
      "wf_status (workflows s' ! j) = WS_Ready" "wf_wait_kind (workflows s' ! j) = None"
      "events s' = events s2 @ [e]" "ev_workflow_id e = wf_id (workflows s2 ! j)"
      "ev_event_type e = ''activity_succeeded''"
      "ev_delivery_sequence e = Some (saturating_add 32 (wf_delivered_event_sequence (workflows s2 ! j)) 1)"
      "activities s' = activities s2"
    show ?thesis
      unfolding result_delivered_def
      by (intro exI [of _ k] exI [of _ j] exI [of _ e]) (use j k s2 in \<open>simp add: changes\<close>)
  qed
qed

definition sample_attempting :: db where
  "sample_attempting = sample_revoked\<lparr>activities := map (\<lambda>a. a\<lparr>act_status := AS_Running,
     act_last_error_category := None, act_last_error_message := None\<rparr>) (activities sample_revoked)\<rparr>"

theorem succeeded_activity_wakes_workflow_witness:
  "result_delivered sample_activity_claim ''{}'' sample_attempting
     (snd (projr (finish_on_connection sample_externals sample_activity_claim (Outcome_Succeeded ''{}'')
        sample_attempting)))"
proof -
  let ?run = "finish_on_connection sample_externals sample_activity_claim (Outcome_Succeeded ''{}'') sample_attempting"
  have run: "\<not> isl ?run" by code_simp
  have keys: "keys_ok sample_attempting"
    using sample_keys_ok
    by (simp add: keys_ok_def activity_keys_ok_def attempt_keys_ok_def sample_attempting_def
        sample_revoked_def sample_defs)
  have found: "find (leased_activity sample_activity_claim) (activities sample_attempting) =
      Some (activities sample_attempting ! 0)"
    by (simp add: sample_attempting_def sample_revoked_def leased_activity_def sample_activity_claim_def
        sample_defs)
  have "act_status (activities sample_attempting ! 0) = AS_Running"
    by (simp add: sample_attempting_def sample_revoked_def)
  from succeeded_activity_wakes_workflow [OF returned [OF run] keys found this] show ?thesis .
qed

end
