(* ===== verification/Registry.thy ===== *)
theory Registry
  imports Topics
begin

text \<open>
  The workflow and activity registries (\<open>src/registry.rs\<close>). A handler is what the
  application registers: its kind and version, and how its types read and write JSON. Those
  functions belong to the application and are fields of the handler records.
\<close>

section \<open>Handlers\<close>

text \<open>
  Reading an input gives the value written back and the initial state, each serialized
  (\<open>None\<close> when serde fails); an approval decision is read and written back.
\<close>

record workflow_handler =
  wh_kind :: string
  wh_version :: i32
  wh_read_input :: "string \<Rightarrow> string + string option \<times> string option"
  wh_read_approval :: "string \<Rightarrow> string + string option"

record activity_handler =
  ah_definition :: activity_definition
  ah_read_payload :: "string \<Rightarrow> string + string option"

definition registry_validate_definition :: "string \<Rightarrow> i32 \<Rightarrow> durable_error + unit" where
  "registry_validate_definition kind version =
     (if kind = [] then Inl (InvalidDefinition ''durable definition kind cannot be empty'')
      else if version \<le> 0
      then Inl (InvalidDefinition (''durable definition '' @ kind @
             '' version must be greater than zero''))
      else Inr ())"

definition deserialize_request :: "string \<Rightarrow> string + 'a \<Rightarrow> durable_error + 'a" where
  "deserialize_request field parsed =
     (case parsed of Inl message \<Rightarrow> Inl (InvalidPayload field message) | Inr x \<Rightarrow> Inr x)"

definition serialize_bounded :: "string \<Rightarrow> string option \<Rightarrow> int \<Rightarrow> durable_error + string" where
  "serialize_bounded field serialized max_bytes =
     (case serialized of
        None \<Rightarrow> Inl Serialization
      | Some json \<Rightarrow>
          (case ensure_size field json max_bytes of Inl e \<Rightarrow> Inl e | Inr _ \<Rightarrow> Inr json))"

definition handler_prepare_start :: "workflow_handler \<Rightarrow> string \<Rightarrow> durable_error + prepared_workflow_start" where
  "handler_prepare_start h input_json =
     (case deserialize_request ''workflow input'' (wh_read_input h input_json) of
        Inl e \<Rightarrow> Inl e
      | Inr (input, state) \<Rightarrow>
          (case serialize_bounded ''workflow input'' input MAX_INPUT_STATE_PAYLOAD_BYTES of
             Inl e \<Rightarrow> Inl e
           | Inr input' \<Rightarrow>
               (case serialize_bounded ''workflow state'' state MAX_INPUT_STATE_PAYLOAD_BYTES of
                  Inl e \<Rightarrow> Inl e
                | Inr state' \<Rightarrow> Inr \<lparr>prep_kind = wh_kind h, prep_version = wh_version h,
                                  prep_input_json = input', prep_state_json = state'\<rparr>)))"

definition handler_validate_approval :: "workflow_handler \<Rightarrow> string \<Rightarrow> durable_error + string" where
  "handler_validate_approval h decision_json =
     (case deserialize_request ''approval decision'' (wh_read_approval h decision_json) of
        Inl e \<Rightarrow> Inl e
      | Inr decision \<Rightarrow> serialize_bounded ''approval decision'' decision MAX_EVENT_METADATA_BYTES)"

definition handler_prepare_command ::
    "activity_handler \<Rightarrow> string \<Rightarrow> string option \<Rightarrow> durable_error + activity_command" where
  "handler_prepare_command h payload_json operation_key =
     (case deserialize_request ''activity payload'' (ah_read_payload h payload_json) of
        Inl e \<Rightarrow> Inl e
      | Inr payload \<Rightarrow> ActivityCommand_new (ah_definition h) payload operation_key)"

section \<open>Registration and lookup\<close>

type_synonym workflow_registry = "(definition_key \<times> workflow_handler) list"
type_synonym activity_registry = "(definition_key \<times> activity_handler) list"

definition WorkflowRegistry_register ::
    "workflow_registry \<Rightarrow> workflow_handler \<Rightarrow> durable_error + workflow_registry" where
  "WorkflowRegistry_register R h =
     (let key = (wh_kind h, wh_version h) in
      case registry_validate_definition (wh_kind h) (wh_version h) of
        Inl e \<Rightarrow> Inl e
      | Inr _ \<Rightarrow>
          if map_of R key \<noteq> None then Inl (DuplicateDefinition (wh_kind h) (wh_version h))
          else Inr ((key, h) # R))"

definition ActivityRegistry_register ::
    "activity_registry \<Rightarrow> activity_handler \<Rightarrow> durable_error + activity_registry" where
  "ActivityRegistry_register R h =
     (let key = (ad_kind (ah_definition h), ad_version (ah_definition h)) in
      case registry_validate_definition (ad_kind (ah_definition h)) (ad_version (ah_definition h)) of
        Inl e \<Rightarrow> Inl e
      | Inr _ \<Rightarrow>
          if map_of R key \<noteq> None
          then Inl (DuplicateDefinition (ad_kind (ah_definition h)) (ad_version (ah_definition h)))
          else Inr ((key, h) # R))"

definition registry_contains :: "(definition_key \<times> 'h) list \<Rightarrow> string \<Rightarrow> i32 \<Rightarrow> bool" where
  "registry_contains R kind version \<longleftrightarrow> map_of R (kind, version) \<noteq> None"

definition definition_keys :: "(definition_key \<times> 'h) list \<Rightarrow> definition_key list" where
  "definition_keys R = sort (map fst R)"

definition topic_for :: "activity_registry \<Rightarrow> string \<Rightarrow> i32 \<Rightarrow> string option" where
  "topic_for R kind version = map_option (\<lambda>h. ad_topic (ah_definition h)) (map_of R (kind, version))"

definition required_topics :: "activity_registry \<Rightarrow> string list" where
  "required_topics R = sorted_list_of_set (set (map (\<lambda>(_, h). ad_topic (ah_definition h)) R))"

definition current_version :: "(definition_key \<times> 'h) list \<Rightarrow> string \<Rightarrow> i32 option" where
  "current_version R kind =
     (case map snd (filter (\<lambda>(k, _). k = kind) (map fst R)) of
        [] \<Rightarrow> None
      | v # vs \<Rightarrow> Some (fold max vs v))"

definition find_definition :: "(definition_key \<times> 'h) list \<Rightarrow> string \<Rightarrow> i32 \<Rightarrow> durable_error + 'h" where
  "find_definition R kind version =
     (case map_of R (kind, version) of
        None \<Rightarrow> Inl (MissingDefinition kind version)
      | Some h \<Rightarrow> Inr h)"

definition prepare_start_exact ::
    "workflow_registry \<Rightarrow> string \<Rightarrow> i32 \<Rightarrow> string \<Rightarrow> durable_error + prepared_workflow_start" where
  "prepare_start_exact R kind version input_json =
     (case find_definition R kind version of Inl e \<Rightarrow> Inl e | Inr h \<Rightarrow> handler_prepare_start h input_json)"

definition prepare_start_current ::
    "workflow_registry \<Rightarrow> string \<Rightarrow> string \<Rightarrow> durable_error + prepared_workflow_start" where
  "prepare_start_current R kind input_json =
     (case current_version R kind of
        None \<Rightarrow> Inl (MissingCurrentDefinition kind)
      | Some version \<Rightarrow> prepare_start_exact R kind version input_json)"

definition validate_approval_exact ::
    "workflow_registry \<Rightarrow> string \<Rightarrow> i32 \<Rightarrow> string \<Rightarrow> durable_error + string" where
  "validate_approval_exact R kind version decision_json =
     (case find_definition R kind version of
        Inl e \<Rightarrow> Inl e
      | Inr h \<Rightarrow> handler_validate_approval h decision_json)"

definition prepare_command_exact ::
    "activity_registry \<Rightarrow> string \<Rightarrow> i32 \<Rightarrow> string \<Rightarrow> string option \<Rightarrow> durable_error + activity_command" where
  "prepare_command_exact R kind version payload_json operation_key =
     (case find_definition R kind version of
        Inl e \<Rightarrow> Inl e
      | Inr h \<Rightarrow> handler_prepare_command h payload_json operation_key)"

definition prepare_command_current ::
    "activity_registry \<Rightarrow> string \<Rightarrow> string \<Rightarrow> string option \<Rightarrow> durable_error + activity_command" where
  "prepare_command_current R kind payload_json operation_key =
     (case current_version R kind of
        None \<Rightarrow> Inl (MissingCurrentDefinition kind)
      | Some version \<Rightarrow> prepare_command_exact R kind version payload_json operation_key)"

section \<open>What the registries promise\<close>

text \<open>Every entry is filed under its handler's own positive version and non-empty kind, once.\<close>

definition workflow_registry_ok :: "workflow_registry \<Rightarrow> bool" where
  "workflow_registry_ok R \<longleftrightarrow>
     distinct (map fst R) \<and>
     (\<forall>(k, h) \<in> set R. k = (wh_kind h, wh_version h) \<and> wh_kind h \<noteq> [] \<and> 0 < wh_version h)"

lemma workflow_registry_empty: "workflow_registry_ok []"
  by (simp add: workflow_registry_ok_def)

lemma workflow_registry_register:
  "WorkflowRegistry_register R h = Inr R' \<Longrightarrow> workflow_registry_ok R \<Longrightarrow> workflow_registry_ok R'"
  by (auto simp: WorkflowRegistry_register_def registry_validate_definition_def Let_def
      workflow_registry_ok_def map_of_eq_None_iff split: sum.splits if_splits)

lemma fold_max: "fold max vs (v :: int) \<in> set (v # vs)" "\<forall>x \<in> set (v # vs). x \<le> fold max vs v"
proof -
  have "fold max vs v = Max (set (v # vs))" by (metis Max.set_eq_fold)
  then show "fold max vs v \<in> set (v # vs)" "\<forall>x \<in> set (v # vs). x \<le> fold max vs v"
    by (metis List.finite_set Max_in list.distinct(1) set_empty, metis List.finite_set Max_ge)
qed

text \<open>
  The current version of a kind is the newest one registered. It is found exactly when
  the kind has a definition, that definition exists, and no other is newer; and a start
  prepared from a registry bears the kind and version that were asked for.
\<close>

lemma current_version_is_newest:
  assumes "workflow_registry_ok R"
  shows "(current_version R kind = Some v \<longleftrightarrow>
      registry_contains R kind v \<and> (\<forall>w. registry_contains R kind w \<longrightarrow> w \<le> v)) \<and>
    (prepare_start_exact R kind version input = Inr p \<longrightarrow>
      prep_kind p = kind \<and> prep_version p = version \<and> 0 < version \<and>
      int (length (prep_input_json p)) \<le> MAX_INPUT_STATE_PAYLOAD_BYTES)"
proof
  let ?vs = "map snd (filter (\<lambda>(k, _). k = kind) (map fst R))"
  have mem: "registry_contains R kind w \<longleftrightarrow> w \<in> set ?vs" for w
    by (force simp: registry_contains_def map_of_eq_None_iff image_iff)
  show "current_version R kind = Some v \<longleftrightarrow>
      registry_contains R kind v \<and> (\<forall>w. registry_contains R kind w \<longrightarrow> w \<le> v)"
  proof (cases ?vs)
    case Nil
    then show ?thesis by (simp add: mem current_version_def)
  next
    case (Cons x xs)
    then have cur: "current_version R kind = Some (fold max xs x)" by (simp add: current_version_def)
    show ?thesis unfolding cur mem Cons using fold_max [where v = x and vs = xs]
      by (metis antisym option.inject)
  qed
next
  show "prepare_start_exact R kind version input = Inr p \<longrightarrow>
      prep_kind p = kind \<and> prep_version p = version \<and> 0 < version \<and>
      int (length (prep_input_json p)) \<le> MAX_INPUT_STATE_PAYLOAD_BYTES"
    using assms
    by (auto simp: prepare_start_exact_def find_definition_def handler_prepare_start_def
        serialize_bounded_def ensure_size_def workflow_registry_ok_def
        split: option.splits sum.splits prod.splits if_splits dest!: map_of_SomeD)
qed

definition sample_handler :: "i32 \<Rightarrow> workflow_handler" where
  "sample_handler v = \<lparr>wh_kind = ''order'', wh_version = v,
     wh_read_input = (\<lambda>json. Inr (Some json, Some ''{}'')), wh_read_approval = (\<lambda>json. Inr (Some json))\<rparr>"

definition sample_registry :: workflow_registry where
  "sample_registry = [((''order'', 2), sample_handler 2), ((''order'', 1), sample_handler 1)]"

lemma sample_registry_ok: "workflow_registry_ok sample_registry"
  by (simp add: workflow_registry_ok_def sample_registry_def sample_handler_def)

end
