(* ===== verification/Admin_Control.thy ===== *)
theory Admin_Control
  imports Temporal Topic_Slots Registry
begin

text \<open>
  Operator controls (\<open>src/admin/control.rs\<close>): pause, resume and cancel of a workflow, its
  restart with or without a corrected input, the retry of the activity that blocks it, and
  the decision of an approval. An operator is checked once (\<open>src/admin/types.rs\<close>), and every
  control leaves an event that names him.
\<close>

section \<open>Operators\<close>

definition MAX_ACTOR_ID_BYTES :: nat where
  "MAX_ACTOR_ID_BYTES = 191"

record operator =
  op_actor_id :: string
  op_reason :: string

definition Operator_new :: "string \<Rightarrow> string \<Rightarrow> durable_error + operator" where
  "Operator_new actor_id reason0 =
     (let reason = trim reason0 in
      if actor_id = [] \<or> length actor_id > MAX_ACTOR_ID_BYTES
      then Inl (InvalidDefinition ''operator actor ID must contain 1 to 191 bytes'')
      else if reason = [] \<or> length reason > MAX_ERROR_REASON_BYTES
      then Inl (InvalidDefinition (''operator reason must contain 1 to '' @
             dec_int (int MAX_ERROR_REASON_BYTES) @ '' bytes''))
      else Inr \<lparr>op_actor_id = actor_id, op_reason = reason\<rparr>)"

text \<open>\<open>str::parse::<i32>\<close>: an optional sign, at least one decimal digit, and nothing else.\<close>

definition digit_value :: "char \<Rightarrow> int option" where
  "digit_value c = (if CHR ''0'' \<le> c \<and> c \<le> CHR ''9'' then Some (int (of_char c) - 48) else None)"

fun digits_value :: "int \<Rightarrow> string \<Rightarrow> int option" where
  "digits_value acc [] = Some acc"
| "digits_value acc (c # cs) =
     (case digit_value c of None \<Rightarrow> None | Some d \<Rightarrow> digits_value (10 * acc + d) cs)"

definition parse_i32 :: "string \<Rightarrow> i32 option" where
  "parse_i32 t =
     (let (sign, digits) =
        (case t of
           [] \<Rightarrow> (1, [])
         | c # cs \<Rightarrow> if c = CHR ''-'' then (-1, cs) else if c = CHR ''+'' then (1, cs) else (1, t))
      in if digits = [] then None
         else (case digits_value 0 digits of
                 None \<Rightarrow> None
               | Some n \<Rightarrow> if in_signed 32 (sign * n) then Some (sign * n) else None))"

definition operator_actor_id :: "operator \<Rightarrow> durable_error + i32" where
  "operator_actor_id operator =
     (case parse_i32 (op_actor_id operator) of
        None \<Rightarrow> Inl (InvalidDefinition
          ''schedule and approval controls require a numeric operator actor ID'')
      | Some actor_id \<Rightarrow>
          if actor_id \<le> 0
          then Inl (InvalidDefinition
            ''schedule and approval controls require a positive operator actor ID'')
          else Inr actor_id)"

section \<open>Shared helpers\<close>

definition not_found :: "string \<Rightarrow> string \<Rightarrow> durable_error" where
  "not_found resource identifier = NotFound resource identifier"

definition conflict :: "i64 \<Rightarrow> string \<Rightarrow> workflow_status \<Rightarrow> durable_error" where
  "conflict workflow_id action status =
     Conflict (''workflow '' @ dec_int workflow_id @ '' '' @ action @ '' while in '' @
       workflow_status_as_str status @ '' state'')"

definition lock_workflow :: "i64 \<Rightarrow> workflow_row dtx" where
  "lock_workflow workflow_id =
     tx_bind (tx_query (\<lambda>s. workflow_by_id s workflow_id))
       (tx_some (not_found ''workflow'' (dec_int workflow_id)))"

definition operator_event ::
    "i64 \<Rightarrow> i32 \<Rightarrow> i32 option \<Rightarrow> string \<Rightarrow> string option \<Rightarrow> operator \<Rightarrow> db_millis \<Rightarrow> workflow_event_row" where
  "operator_event workflow_id sequence delivery event_type metadata operator now =
     \<lparr>ev_id = 0, ev_workflow_id = workflow_id, ev_sequence = sequence,
      ev_delivery_sequence = delivery, ev_event_type = event_type, ev_metadata_json = metadata,
      ev_actor_type = Some ''operator'', ev_actor_id = Some (op_actor_id operator),
      ev_reason = Some (op_reason operator), ev_created_at = now\<rparr>"

definition append_operator_event :: "i64 \<Rightarrow> string \<Rightarrow> operator \<Rightarrow> db_millis \<Rightarrow> unit dtx" where
  "append_operator_event workflow_id event_type operator now =
     tx_bind (next_event_sequence workflow_id) (\<lambda>sequence.
     append_event (operator_event workflow_id sequence None event_type None operator now))"

record workflow_control_outcome =
  wco_workflow_id :: i64
  wco_status :: string

section \<open>Pause (T-A1) and resume (T-A2)\<close>

definition pause_activity :: "i64 \<Rightarrow> operator \<Rightarrow> db_millis \<Rightarrow> unit dtx" where
  "pause_activity activity_id operator now =
     tx_bind (tx_query (\<lambda>s. activity_by_id s activity_id)) (\<lambda>found.
     case found of
       None \<Rightarrow> tx_return ()
     | Some activity \<Rightarrow>
         if act_status activity \<noteq> AS_Running then tx_return ()
         else
           tx_bind (tx_some (InvalidState (''running activity '' @ dec_int (act_id activity) @
               '' has no lease token'')) (act_lease_token activity)) (\<lambda>lease_token.
           tx_bind (tx_some (InvalidState ''activity attempt limit overflow after operator pause'')
             (checked_add 32 (act_max_attempts activity) 1)) (\<lambda>max_attempts.
           fenced (activity_update
             (\<lambda>a. act_id a = act_id activity \<and> act_status a = AS_Running \<and>
                  act_attempt_count a = act_attempt_count activity \<and>
                  act_lease_token a = Some lease_token)
             (\<lambda>a. a\<lparr>act_status := AS_Cancelling, act_max_attempts := max_attempts,
                   act_last_error_category := Some (attempt_outcome_as_str AO_OperatorPaused),
                   act_last_error_message := Some (op_reason operator), act_updated_at := now\<rparr>)))))"

definition pause_workflow :: "i64 \<Rightarrow> operator \<Rightarrow> workflow_control_outcome dtx" where
  "pause_workflow workflow_id operator =
     tx_bind (lock_workflow workflow_id) (\<lambda>workflow.
     if wf_status workflow = WS_Paused \<or> ws_is_terminal (wf_status workflow)
     then tx_fail (conflict workflow_id ''cannot be paused'' (wf_status workflow))
     else
       tx_bind database_now_millis (\<lambda>now.
       tx_bind (tx_lift (workflow_wait workflow)) (\<lambda>wait.
       tx_seq (case wait of
                 Some (Wait_Activity activity_id) \<Rightarrow> pause_activity activity_id operator now
               | _ \<Rightarrow> tx_return ())
       (tx_seq (fenced (workflow_update
          (\<lambda>r. wf_id r = wf_id workflow \<and> wf_status r = wf_status workflow)
          (\<lambda>r. workflow_lease_cleared (r\<lparr>wf_status := WS_Paused, wf_updated_at := now\<rparr>))))
       (tx_seq (append_operator_event workflow_id ''workflow_paused'' operator now)
       (tx_return \<lparr>wco_workflow_id = workflow_id, wco_status = ''paused''\<rparr>))))))"

definition resume_activity_status :: "activity_status \<Rightarrow> durable_error + workflow_status" where
  "resume_activity_status status =
     (case status of
        AS_Pending \<Rightarrow> Inr WS_WaitingActivity
      | AS_Running \<Rightarrow> Inr WS_WaitingActivity
      | AS_Cancelling \<Rightarrow> Inr WS_WaitingActivity
      | AS_DeadLettered \<Rightarrow> Inr WS_Blocked
      | AS_Succeeded \<Rightarrow> Inr WS_Ready
      | AS_Cancelled \<Rightarrow> Inl (Conflict (''paused workflow references activity in '' @
          activity_status_as_str status @ '' state'')))"

definition resume_status :: "workflow_row \<Rightarrow> workflow_status dtx" where
  "resume_status workflow =
     tx_bind (tx_lift (workflow_wait workflow)) (\<lambda>wait.
     case wait of
       None \<Rightarrow> tx_return WS_Ready
     | Some (Wait_Timer _) \<Rightarrow> tx_return WS_Sleeping
     | Some (Wait_Activity activity_id) \<Rightarrow>
         tx_bind (tx_query (\<lambda>s. activity_by_id s activity_id)) (\<lambda>found.
         tx_bind (tx_some (InvalidState ''paused activity wait references a missing activity'') found)
           (\<lambda>activity. tx_lift (resume_activity_status (act_status activity))))
     | Some (Wait_Child child_id) \<Rightarrow>
         tx_bind (tx_query (\<lambda>s. workflow_by_id s child_id)) (\<lambda>found.
         tx_bind (tx_some (InvalidState ''paused child wait references a missing workflow'') found)
           (\<lambda>child. if ws_is_terminal (wf_status child)
              then tx_fail (Conflict (''paused workflow references terminal child workflow '' @
                     dec_int child_id @ '' whose outcome was never delivered''))
              else tx_return WS_WaitingChild))
     | Some (Wait_Approval approval_id) \<Rightarrow>
         tx_bind (tx_query (\<lambda>s. approval_by_id s approval_id)) (\<lambda>found.
         tx_bind (tx_some (InvalidState ''paused approval wait references a missing approval'') found)
           (\<lambda>approval. tx_return (if apr_status approval = AP_Pending then WS_WaitingApproval
                                 else WS_Ready))))"

definition resume_workflow :: "i64 \<Rightarrow> operator \<Rightarrow> workflow_control_outcome dtx" where
  "resume_workflow workflow_id operator =
     tx_bind (lock_workflow workflow_id) (\<lambda>workflow.
     if wf_status workflow \<noteq> WS_Paused
     then tx_fail (conflict workflow_id ''is not paused'' (wf_status workflow))
     else
       tx_bind database_now_millis (\<lambda>now.
       tx_bind (resume_status workflow) (\<lambda>status.
       tx_seq (fenced (workflow_update
          (\<lambda>r. wf_id r = wf_id workflow \<and> wf_status r = WS_Paused)
          (\<lambda>r. workflow_lease_cleared (r\<lparr>wf_status := status,
                 wf_available_at := (if status = WS_Ready then now else wf_available_at workflow),
                 wf_updated_at := now\<rparr>))))
       (tx_seq (append_operator_event workflow_id ''workflow_resumed'' operator now)
       (tx_return \<lparr>wco_workflow_id = workflow_id, wco_status = workflow_status_as_str status\<rparr>)))))"

section \<open>Cancel (T-A3)\<close>

definition cancel_workflow :: "externals \<Rightarrow> i64 \<Rightarrow> operator \<Rightarrow> workflow_control_outcome dtx" where
  "cancel_workflow E workflow_id operator =
     tx_bind (lock_workflow workflow_id) (\<lambda>workflow.
     if ws_is_terminal (wf_status workflow)
     then tx_fail (conflict workflow_id ''is already terminal'' (wf_status workflow))
     else
       tx_bind database_now_millis (\<lambda>now.
       tx_seq (cancel_locked_workflow E workflow (op_reason operator)
                 (Some (op_actor_id operator)) now)
       (tx_return \<lparr>wco_workflow_id = workflow_id, wco_status = ''cancelled''\<rparr>)))"

section \<open>Restart (T-A4)\<close>

record workflow_restart_outcome =
  wro_source_workflow_id :: i64
  wro_workflow_id :: i64
  wro_kind :: string
  wro_version :: i32

text \<open>A live source is cancelled by its restart; its parents are told it was superseded.\<close>

definition supersede_source ::
    "externals \<Rightarrow> workflow_row \<Rightarrow> i64 \<Rightarrow> operator \<Rightarrow> db_millis \<Rightarrow> unit dtx" where
  "supersede_source E source workflow_id operator now =
     tx_seq (cancel_activities (wf_id source) (op_reason operator) AO_OperatorCancelled now)
     (tx_seq (cancel_approvals (wf_id source) (op_reason operator) now)
     (tx_seq (fenced (workflow_update
        (\<lambda>r. wf_id r = wf_id source \<and> wf_status r = wf_status source)
        (\<lambda>r. workflow_lease_cleared (r\<lparr>wf_status := WS_Cancelled, wf_updated_at := now,
                                      wf_completed_at := Some now\<rparr>))))
     (tx_seq (append_operator_event workflow_id ''workflow_superseded_by_restart'' operator now)
     (tx_seq (wake_waiting_parents_on_child_terminal E source
        (Inl (''child_superseded'', op_reason operator)) now)
     (cancel_owned_descendants E source (op_reason operator) (Some (op_actor_id operator)) now)))))"

definition finish_restart ::
    "externals \<Rightarrow> workflow_row \<Rightarrow> i64 \<Rightarrow> string option \<Rightarrow> operator \<Rightarrow> i64 \<Rightarrow> unit dtx" where
  "finish_restart E source workflow_id correction operator successor_id =
     tx_bind database_now_millis (\<lambda>now.
     tx_seq (if \<not> ws_is_terminal (wf_status source)
             then supersede_source E source workflow_id operator now
             else tx_return ())
     (tx_seq (case wf_schedule_run_id source of
                None \<Rightarrow> tx_return ()
              | Some schedule_run_id \<Rightarrow>
                  fenced (link_schedule_run
                    (\<lambda>r. run_id r = schedule_run_id \<and> run_workflow_id r = Some (wf_id source))
                    successor_id id))
     (tx_seq (append_operator_event workflow_id
        (if correction \<noteq> None then ''workflow_corrected_and_restarted''
         else ''workflow_restarted'') operator now)
     (append_operator_event successor_id ''workflow_restart_created'' operator now))))"

definition restart_options :: "workflow_row \<Rightarrow> i64 \<Rightarrow> start_options" where
  "restart_options source workflow_id =
     (restarted StartOptions_default
        (case wf_root_workflow_id source of None \<Rightarrow> wf_id source | Some i \<Rightarrow> i) workflow_id)
       \<lparr>so_schedule_run_id := wf_schedule_run_id source\<rparr>"

definition restart ::
    "externals \<Rightarrow> workflow_registry \<Rightarrow> i64 \<Rightarrow> string option \<Rightarrow> operator \<Rightarrow> workflow_restart_outcome dtx" where
  "restart E R workflow_id correction operator =
     tx_bind (lock_workflow workflow_id) (\<lambda>source.
     if \<not> is_restartable (wf_status source)
     then tx_fail (conflict workflow_id ''must be paused, blocked, or terminal before restart''
            (wf_status source))
     else
       tx_bind (tx_query (\<lambda>s. successor_of s (wf_id source))) (\<lambda>existing_restart.
       if existing_restart \<noteq> None
       then tx_fail (Conflict (''workflow '' @ dec_int workflow_id @ '' already has a restart''))
       else
         tx_bind (tx_lift (case correction of
             Some input \<Rightarrow> prepare_start_current R (wf_kind source) input
           | None \<Rightarrow> prepare_start_exact R (wf_kind source) (wf_version source)
               (wf_input_json source))) (\<lambda>prepared.
         let options = restart_options source workflow_id in
         tx_seq (check_prepared_start prepared options)
         (tx_bind (start_prepared_in prepared options) (\<lambda>outcome.
          if \<not> out_inserted outcome
          then tx_fail (InvalidState ''workflow restart unexpectedly deduplicated'')
          else
            tx_seq (finish_restart E source workflow_id correction operator (out_workflow_id outcome))
            (tx_return
               \<lparr>wro_source_workflow_id = workflow_id, wro_workflow_id = out_workflow_id outcome,
                wro_kind = prep_kind prepared, wro_version = prep_version prepared\<rparr>))))))"

definition restart_workflow ::
    "externals \<Rightarrow> workflow_registry \<Rightarrow> i64 \<Rightarrow> operator \<Rightarrow> workflow_restart_outcome dtx" where
  "restart_workflow E R workflow_id operator = restart E R workflow_id None operator"

definition correct_and_restart_workflow ::
    "externals \<Rightarrow> workflow_registry \<Rightarrow> i64 \<Rightarrow> string \<Rightarrow> operator \<Rightarrow> workflow_restart_outcome dtx" where
  "correct_and_restart_workflow E R workflow_id input_json operator =
     restart E R workflow_id (Some input_json) operator"

section \<open>Retry of a dead-lettered activity (T-A5)\<close>

record activity_retry_outcome =
  aro_source_activity_id :: i64
  aro_activity_id :: i64
  aro_kind :: string
  aro_version :: i32
  aro_operation_key :: "string option"

text \<open>The source's workflow is read before the transaction, from a state \<open>s0\<close>.\<close>

definition blocks_workflow :: "workflow_row \<Rightarrow> activity_row \<Rightarrow> i64 \<Rightarrow> durable_error + bool" where
  "blocks_workflow workflow source activity_id =
     (if wf_status workflow \<noteq> WS_Blocked then Inr False
      else
        (case workflow_wait workflow of
           Inl e \<Rightarrow> Inl e
         | Inr w \<Rightarrow> Inr (w = Some (Wait_Activity activity_id) \<and> act_status source = AS_DeadLettered)))"

definition correction_key :: "i64 \<Rightarrow> i32 \<Rightarrow> string" where
  "correction_key root_id replacement_number =
     ''durable:activity:'' @ dec_int root_id @ '':correction:'' @ dec_int replacement_number"

definition retry_locked ::
    "externals \<Rightarrow> activity_registry \<Rightarrow> i64 \<Rightarrow> i64 \<Rightarrow> string option \<Rightarrow> operator \<Rightarrow>
     activity_retry_outcome dtx" where
  "retry_locked E R activity_id workflow_id correction operator =
     tx_bind (lock_workflow workflow_id) (\<lambda>workflow.
     tx_bind (tx_query (\<lambda>s. activity_by_id s activity_id)) (\<lambda>found.
     tx_bind (tx_some (not_found ''activity'' (dec_int activity_id)) found) (\<lambda>source.
     tx_bind (tx_lift (blocks_workflow workflow source activity_id)) (\<lambda>blocking.
     if \<not> blocking
     then tx_fail (Conflict (''activity '' @ dec_int activity_id @
            '' is not the dead-lettered activity blocking workflow '' @ dec_int workflow_id))
     else
       tx_bind (tx_some (InvalidState ''activity replacement number overflow'')
         (checked_add 32 (act_replacement_number source) 1)) (\<lambda>replacement_number.
       let root_id = (case act_root_activity_id source of None \<Rightarrow> act_id source | Some i \<Rightarrow> i);
           operation_key = (if correction \<noteq> None then Some (correction_key root_id replacement_number)
                            else act_operation_key source) in
       tx_bind (tx_lift (case correction of
           Some payload \<Rightarrow> prepare_command_current R (act_kind source) payload operation_key
         | None \<Rightarrow> prepare_command_exact R (act_kind source) (act_version source)
             (act_payload_json source) operation_key)) (\<lambda>command.
       tx_bind database_now_millis (\<lambda>now.
       tx_bind (insert_command_activity E (act_workflow_id source) (act_command_sequence source)
         replacement_number command now operation_key (Some root_id) (Some (act_id source)) now)
         (\<lambda>replacement_id.
       tx_seq (fenced (workflow_update
         (\<lambda>r. wf_id r = wf_id workflow \<and> wf_status r = WS_Blocked \<and>
              wf_wait_reference_id r = Some (act_id source))
         (\<lambda>r. wait_on (Wait_Activity replacement_id) (r\<lparr>wf_status := WS_WaitingActivity,
                wf_available_at := now, wf_error_category := None, wf_error_message := None,
                wf_updated_at := now\<rparr>))))
       (tx_seq (append_operator_event workflow_id
          (if correction \<noteq> None then ''activity_corrected_and_retried'' else ''activity_retried'')
          operator now)
       (tx_return
          \<lparr>aro_source_activity_id = activity_id, aro_activity_id = replacement_id,
           aro_kind = ac_kind command, aro_version = ac_version command,
           aro_operation_key = operation_key\<rparr>))))))))))"

definition retry ::
    "externals \<Rightarrow> activity_registry \<Rightarrow> db \<Rightarrow> i64 \<Rightarrow> string option \<Rightarrow> operator \<Rightarrow>
     activity_retry_outcome dtx" where
  "retry E R s0 activity_id correction operator =
     (case activity_by_id s0 activity_id of
        None \<Rightarrow> tx_fail (not_found ''activity'' (dec_int activity_id))
      | Some a \<Rightarrow> retry_locked E R activity_id (act_workflow_id a) correction operator)"

definition retry_activity ::
    "externals \<Rightarrow> activity_registry \<Rightarrow> db \<Rightarrow> i64 \<Rightarrow> operator \<Rightarrow> activity_retry_outcome dtx" where
  "retry_activity E R s0 activity_id operator = retry E R s0 activity_id None operator"

definition correct_and_retry_activity ::
    "externals \<Rightarrow> activity_registry \<Rightarrow> db \<Rightarrow> i64 \<Rightarrow> string \<Rightarrow> operator \<Rightarrow> activity_retry_outcome dtx" where
  "correct_and_retry_activity E R s0 activity_id payload_json operator =
     retry E R s0 activity_id (Some payload_json) operator"

section \<open>Deciding an approval (T-A7)\<close>

record approval_resolution_outcome =
  apo_approval_id :: i64
  apo_workflow_id :: i64
  apo_status :: string

definition resolve_approval ::
    "externals \<Rightarrow> workflow_registry \<Rightarrow> i64 \<Rightarrow> string \<Rightarrow> operator \<Rightarrow> approval_resolution_outcome dtx" where
  "resolve_approval E R approval_id decision_json operator =
     tx_bind (tx_lift (operator_actor_id operator)) (\<lambda>actor_id.
     tx_bind (tx_query (\<lambda>s. approval_by_id s approval_id)) (\<lambda>read.
     tx_bind (tx_some (not_found ''approval'' (dec_int approval_id)) read) (\<lambda>located.
     tx_bind (lock_workflow (apr_workflow_id located)) (\<lambda>workflow.
     tx_bind (tx_query (\<lambda>s. approval_by_id s approval_id)) (\<lambda>found.
     tx_bind (tx_some (not_found ''approval'' (dec_int approval_id)) found) (\<lambda>approval.
     if apr_status approval \<noteq> AP_Pending
     then tx_fail (Conflict (''approval '' @ dec_int approval_id @ '' is already '' @
            approval_status_as_str (apr_status approval)))
     else
       tx_bind database_now_millis (\<lambda>now.
       if sql_le (apr_expires_at approval) now
       then tx_fail (Conflict (''approval '' @ dec_int approval_id @ '' has expired''))
       else
         tx_bind (tx_lift (approval_mismatch workflow approval)) (\<lambda>mismatch.
         if mismatch
         then tx_fail (Conflict (''approval '' @ dec_int approval_id @
                '' no longer matches workflow '' @ dec_int (apr_workflow_id located)))
         else
           tx_bind (tx_lift (validate_approval_exact R (wf_kind workflow) (wf_version workflow)
             decision_json)) (\<lambda>decision.
           tx_bind (tx_some (InvalidState ''negative approval command sequence'')
             (u32_try_from (apr_command_sequence approval))) (\<lambda>command_sequence.
           tx_bind (tx_some Serialization (event_to_json E (ApprovalResolved command_sequence
             (wf_kind workflow) (wf_version workflow) decision))) (\<lambda>metadata_json.
           tx_seq (tx_lift (ensure_size ''approval resolution event'' metadata_json
             MAX_EVENT_METADATA_BYTES))
           (tx_bind (tx_some (InvalidState ''workflow delivery sequence overflow'')
             (checked_add 32 (wf_delivered_event_sequence workflow) 1)) (\<lambda>delivery_sequence.
           tx_bind (next_event_sequence (apr_workflow_id located)) (\<lambda>sequence.
           tx_seq (append_event (operator_event (wf_id workflow) sequence (Some delivery_sequence)
             ''approval_resolved'' (Some metadata_json) operator now))
           (tx_seq (fenced (approval_update
              (\<lambda>p. apr_id p = apr_id approval \<and> apr_status p = AP_Pending)
              (\<lambda>p. p\<lparr>apr_status := AP_Resolved, apr_decision_payload_json := Some decision,
                    apr_decided_by := Some actor_id, apr_operator_reason := Some (op_reason operator),
                    apr_resolved_at := Some now\<rparr>)))
           (tx_seq (fenced (workflow_update
              (\<lambda>r. wf_id r = wf_id workflow \<and> wf_status r = wf_status workflow \<and>
                   wf_wait_reference_id r = Some (apr_id approval))
              (\<lambda>r. wait_cleared (r\<lparr>wf_status := (if wf_status workflow = WS_Paused then WS_Paused
                     else WS_Ready), wf_available_at := now, wf_updated_at := now\<rparr>))))
           (tx_return
              \<lparr>apo_approval_id = approval_id, apo_workflow_id = apr_workflow_id located,
               apo_status = approval_status_as_str AP_Resolved\<rparr>)))))))))))))))))"

section \<open>Evolution and row invariants\<close>

lemma evolves_lock_workflow [guar_intros]: "guarantees db_evolves (lock_workflow i)"
  unfolding lock_workflow_def by (intro guar_intros)

lemma keeps_lock_workflow [keeps_intros]: "keeps I (lock_workflow i)"
  unfolding lock_workflow_def by (intro keeps_intros)

lemma evolves_append_operator_event [guar_intros]:
  "guarantees db_evolves (append_operator_event i ty op now)"
  unfolding append_operator_event_def by (intro guar_intros)

lemma rows_ok_append_operator_event [keeps_intros]:
  "keeps rows_ok (append_operator_event i ty op now)"
  unfolding append_operator_event_def by (intro keeps_intros)

lemma guarantees_wait [guar_intros]:
  "(q = None \<Longrightarrow> guarantees R n) \<Longrightarrow> (\<And>c. q = Some (Wait_Timer c) \<Longrightarrow> guarantees R (t c)) \<Longrightarrow>
   (\<And>i. q = Some (Wait_Activity i) \<Longrightarrow> guarantees R (a i)) \<Longrightarrow>
   (\<And>i. q = Some (Wait_Child i) \<Longrightarrow> guarantees R (c i)) \<Longrightarrow>
   (\<And>i. q = Some (Wait_Approval i) \<Longrightarrow> guarantees R (p i)) \<Longrightarrow>
   guarantees R (case q of None \<Rightarrow> n | Some w \<Rightarrow> (case w of Wait_Timer c \<Rightarrow> t c
     | Wait_Activity i \<Rightarrow> a i | Wait_Child i \<Rightarrow> c i | Wait_Approval i \<Rightarrow> p i))"
  by (cases q) (auto split: wait.splits)

lemma keeps_wait [keeps_intros]:
  "(q = None \<Longrightarrow> keeps R n) \<Longrightarrow> (\<And>c. q = Some (Wait_Timer c) \<Longrightarrow> keeps R (t c)) \<Longrightarrow>
   (\<And>i. q = Some (Wait_Activity i) \<Longrightarrow> keeps R (a i)) \<Longrightarrow>
   (\<And>i. q = Some (Wait_Child i) \<Longrightarrow> keeps R (c i)) \<Longrightarrow>
   (\<And>i. q = Some (Wait_Approval i) \<Longrightarrow> keeps R (p i)) \<Longrightarrow>
   keeps R (case q of None \<Rightarrow> n | Some w \<Rightarrow> (case w of Wait_Timer c \<Rightarrow> t c
     | Wait_Activity i \<Rightarrow> a i | Wait_Child i \<Rightarrow> c i | Wait_Approval i \<Rightarrow> p i))"
  by (cases q) (auto split: wait.splits)

text \<open>
  A fenced statement whose clause selects a row that was just read changes that row only:
  the fence counted one.
\<close>

lemma filter_one_exact:
  assumes "length (filter P t) = 1" and "r \<in> set t" and "P r"
  shows "filter P t = [r]" and "\<forall>x \<in> set t. P x \<longleftrightarrow> x = r"
proof -
  have "r \<in> set (filter P t)" using assms(2,3) by simp
  with assms(1) show single: "filter P t = [r]" by (cases "filter P t") auto
  have "{x \<in> set t. P x} = {r}" using single by (metis list.set(1) list.set(2) set_filter)
  then show "\<forall>x \<in> set t. P x \<longleftrightarrow> x = r" by auto
qed

lemma fenced_workflow_exact:
  assumes "fenced (workflow_update P f) s = Inr (u, s')" and "r \<in> set (workflows s)" and "P r"
  shows "fenced (workflow_update (\<lambda>x. x = r) f) s = Inr (u, s')"
proof -
  from assms have one: "length (filter P (workflows s)) = 1" by (simp add: tx_simps)
  note exact = filter_one_exact [OF one assms(2,3)]
  have "filter (\<lambda>x. x = r) (workflows s) = [r]"
    using exact by (metis (mono_tags, lifting) filter_cong)
  moreover have "map (\<lambda>x. if P x then f x else x) (workflows s) =
      map (\<lambda>x. if x = r then f x else x) (workflows s)" using exact(2) by simp
  ultimately show ?thesis using assms(1) by (simp add: tx_simps)
qed

lemma fenced_activity_exact:
  assumes "fenced (activity_update P f) s = Inr (u, s')" and "a \<in> set (activities s)" and "P a"
  shows "fenced (activity_update (\<lambda>x. x = a) f) s = Inr (u, s')"
proof -
  from assms have one: "length (filter P (activities s)) = 1" by (simp add: tx_simps)
  note exact = filter_one_exact [OF one assms(2,3)]
  have "filter (\<lambda>x. x = a) (activities s) = [a]"
    using exact by (metis (mono_tags, lifting) filter_cong)
  moreover have "map (\<lambda>x. if P x then f x else x) (activities s) =
      map (\<lambda>x. if x = a then f x else x) (activities s)" using exact(2) by simp
  ultimately show ?thesis using assms(1) by (simp add: tx_simps)
qed

text \<open>What a pause does to the activity it finds running.\<close>

definition activity_paused :: "operator \<Rightarrow> db_millis \<Rightarrow> activity_row \<Rightarrow> activity_row" where
  "activity_paused op now a = a\<lparr>act_status := AS_Cancelling, act_max_attempts := act_max_attempts a + 1,
     act_last_error_category := Some (attempt_outcome_as_str AO_OperatorPaused),
     act_last_error_message := Some (op_reason op), act_updated_at := now\<rparr>"

lemma pause_activity_cases:
  assumes "pause_activity i op now s = Inr (u, s')"
  obtains "s' = s" "\<forall>a. activity_by_id s i = Some a \<longrightarrow> act_status a \<noteq> AS_Running"
  | a where "activity_by_id s i = Some a" "act_status a = AS_Running" "act_lease_token a \<noteq> None"
      "fenced (activity_update (\<lambda>x. x = a) (activity_paused op now)) s = Inr ((), s')"
proof (cases "activity_by_id s i")
  case None
  with assms that show ?thesis by (auto simp: pause_activity_def bind_query tx_return_Inr)
next
  case (Some a)
  show ?thesis
  proof (cases "act_status a = AS_Running")
    case False
    with Some assms that show ?thesis by (auto simp: pause_activity_def bind_query tx_return_Inr)
  next
    case True
    with Some assms obtain tok where tok: "act_lease_token a = Some tok"
      and upd: "fenced (activity_update
        (\<lambda>x. act_id x = act_id a \<and> act_status x = AS_Running \<and>
             act_attempt_count x = act_attempt_count a \<and> act_lease_token x = Some tok)
        (\<lambda>x. x\<lparr>act_status := AS_Cancelling, act_max_attempts := act_max_attempts a + 1,
                   act_last_error_category := Some (attempt_outcome_as_str AO_OperatorPaused),
                   act_last_error_message := Some (op_reason op), act_updated_at := now\<rparr>)) s = Inr ((), s')"
      by (auto simp: pause_activity_def bind_query tx_bind_Inr tx_some_Inr checked_add_Some)
    have "a \<in> set (activities s)" using Some by (auto simp: activity_by_id_def dest: find_mem)
    from fenced_activity_exact [OF upd this] True tok
    have "fenced (activity_update (\<lambda>x. x = a) (activity_paused op now)) s = Inr ((), s')"
      by (simp add: tx_simps activity_paused_def cong: if_cong)
    with Some True tok that show ?thesis by simp
  qed
qed

lemma evolves_pause_activity [guar_intros]: "guarantees db_evolves (pause_activity i op now)"
proof (rule guaranteesI)
  fix s u s' assume "pause_activity i op now s = Inr (u, s')"
  then show "db_evolves s s'"
  proof (cases rule: pause_activity_cases)
    case (2 a)
    have "guarantees db_evolves (fenced (activity_update (\<lambda>x. x = a) (activity_paused op now)))"
      by (intro guar_intros evolves_activity_update)
        (auto simp: activity_evolves_def activity_identity_def activity_paused_def 2(2))
    then show ?thesis using 2(4) by (rule guaranteesD)
  qed (simp add: evolution.refl)
qed

lemma rows_ok_pause_activity [keeps_intros]: "keeps rows_ok (pause_activity i op now)"
proof (rule keepsI)
  fix s u s' assume ok: "rows_ok s" and "pause_activity i op now s = Inr (u, s')"
  from this(2) show "rows_ok s'"
  proof (cases rule: pause_activity_cases)
    case (2 a)
    have "keeps rows_ok (fenced (activity_update (\<lambda>x. x = a) (activity_paused op now)))"
      by (intro keeps_intros rows_ok_activity_update)
        (auto simp: row_ok_defs activity_paused_def 2(2))
    then show ?thesis using ok 2(4) by (rule keepsD)
  qed (use ok in simp)
qed

lemma evolves_pause_workflow [guar_intros]: "guarantees db_evolves (pause_workflow i op)"
  unfolding pause_workflow_def
  by (intro guar_intros evolves_workflow_update workflow_evolves_live)
    (auto simp: workflow_identity_def changes)

lemma rows_ok_pause_workflow [keeps_intros]: "keeps rows_ok (pause_workflow i op)"
  unfolding pause_workflow_def
  by (intro keeps_intros rows_ok_workflow_update) (auto simp: row_ok_defs changes)

lemma evolves_resume_status [guar_intros]: "guarantees db_evolves (resume_status w)"
  unfolding resume_status_def by (intro guar_intros)

lemma keeps_resume_status [keeps_intros]: "keeps I (resume_status w)"
  unfolding resume_status_def by (intro keeps_intros)

text \<open>What a paused workflow resumes to: its wait decides, and the row it waits for.\<close>

fun resumes_to :: "db \<Rightarrow> wait option \<Rightarrow> workflow_status \<Rightarrow> bool" where
  "resumes_to s None status = (status = WS_Ready)"
| "resumes_to s (Some (Wait_Timer c)) status = (status = WS_Sleeping)"
| "resumes_to s (Some (Wait_Activity i)) status =
     (case activity_by_id s i of
        None \<Rightarrow> False
      | Some a \<Rightarrow> resume_activity_status (act_status a) = Inr status)"
| "resumes_to s (Some (Wait_Child i)) status =
     (case workflow_by_id s i of
        None \<Rightarrow> False
      | Some r \<Rightarrow> \<not> ws_is_terminal (wf_status r) \<and> status = WS_WaitingChild)"
| "resumes_to s (Some (Wait_Approval i)) status =
     (case approval_by_id s i of
        None \<Rightarrow> False
      | Some p \<Rightarrow> status = (if apr_status p = AP_Pending then WS_WaitingApproval else WS_Ready))"

lemma resume_status_Inr:
  "resume_status w s = Inr (status, s') \<longleftrightarrow>
   s' = s \<and> (\<exists>wait. workflow_wait w = Inr wait \<and> resumes_to s wait status)"
proof (cases "workflow_wait w")
  case (Inl e)
  then show ?thesis by (auto simp: resume_status_def tx_bind_Inr tx_lift_Inr)
next
  case (Inr wait)
  show ?thesis
  proof (cases "(s, wait, status)" rule: resumes_to.cases)
    case 1
    then show ?thesis using Inr by (auto simp: resume_status_def tx_simps)
  next
    case 2
    then show ?thesis using Inr by (auto simp: resume_status_def tx_simps)
  next
    case (3 _ i)
    then show ?thesis using Inr
      by (cases "activity_by_id s i") (auto simp: resume_status_def tx_simps bind_query)
  next
    case (4 _ i)
    then show ?thesis using Inr
      by (cases "workflow_by_id s i") (auto simp: resume_status_def tx_simps bind_query)
  next
    case (5 _ i)
    then show ?thesis using Inr
      by (cases "approval_by_id s i") (auto simp: resume_status_def tx_simps bind_query)
  qed
qed

lemma resumes_to_wait:
  "resumes_to s wait status \<Longrightarrow> status \<noteq> WS_Running \<and>
   (\<forall>k. status_wait_kind status = Some k \<longrightarrow> (\<exists>x. wait = Some x \<and> Wait_kind x = k))"
  by (cases "(s, wait, status)" rule: resumes_to.cases)
    (auto simp: resume_activity_status_def split: option.splits activity_status.splits if_splits)

lemma resume_status_wait:
  assumes "resume_status w s = Inr (status, s')"
  shows "s' = s" and "status \<noteq> WS_Running"
    and "status_wait_kind status = Some k \<Longrightarrow> wf_wait_kind w = Some k"
proof -
  from assms obtain wait where wait: "workflow_wait w = Inr wait" "resumes_to s wait status"
    and "s' = s" by (auto simp: resume_status_Inr)
  show "s' = s" by fact
  show "status \<noteq> WS_Running" using resumes_to_wait [OF wait(2)] by simp
  show "wf_wait_kind w = Some k" if "status_wait_kind status = Some k"
    using resumes_to_wait [OF wait(2)] wait(1) that
    by (auto simp: workflow_wait_def Wait_parse_def split: option.splits wait_kind.splits sum.splits)
qed

definition workflow_resumed :: "db_millis \<Rightarrow> workflow_status \<Rightarrow> workflow_row \<Rightarrow> workflow_row" where
  "workflow_resumed now status r = workflow_lease_cleared (r\<lparr>wf_status := status,
     wf_available_at := (if status = WS_Ready then now else wf_available_at r), wf_updated_at := now\<rparr>)"

lemma resume_workflow_cases:
  assumes "resume_workflow i op s = Inr (out, s')"
  obtains w now status s0 s1 where "workflow_by_id s i = Some w" "wf_status w = WS_Paused"
    "database_now_millis s = Inr (now, s0)" "resume_status w s0 = Inr (status, s0)"
    "fenced (workflow_update (\<lambda>x. x = w) (workflow_resumed now status)) s0 = Inr ((), s1)"
    "append_operator_event i ''workflow_resumed'' op now s1 = Inr ((), s')"
    "out = \<lparr>wco_workflow_id = i, wco_status = workflow_status_as_str status\<rparr>"
proof -
  from assms obtain w now s0 status s1 s2 where w: "workflow_by_id s i = Some w" "wf_status w = WS_Paused"
    and now: "database_now_millis s = Inr (now, s0)"
    and status: "resume_status w s0 = Inr (status, s1)"
    and upd: "fenced (workflow_update (\<lambda>r. wf_id r = wf_id w \<and> wf_status r = WS_Paused)
          (\<lambda>r. workflow_lease_cleared (r\<lparr>wf_status := status,
                 wf_available_at := (if status = WS_Ready then now else wf_available_at w),
                 wf_updated_at := now\<rparr>))) s1 = Inr ((), s2)"
    and app: "append_operator_event i ''workflow_resumed'' op now s2 = Inr ((), s')"
    and out: "out = \<lparr>wco_workflow_id = i, wco_status = workflow_status_as_str status\<rparr>"
    by (auto simp: resume_workflow_def lock_workflow_def bind_query tx_bind_Inr tx_seq_Inr
        tx_some_Inr tx_query_Inr tx_fail_Inr tx_return_Inr split: if_splits)
  have s1: "s1 = s0" using resume_status_wait(1) [OF status] .
  have "w \<in> set (workflows s1)"
    using w(1) now s1 by (auto simp: workflow_by_id_def database_now_millis_def dest: find_mem)
  from fenced_workflow_exact [OF upd this] w(2)
  have "fenced (workflow_update (\<lambda>x. x = w) (workflow_resumed now status)) s1 = Inr ((), s2)"
    by (simp add: tx_simps workflow_resumed_def cong: if_cong)
  with w now status s1 app out that show ?thesis by simp
qed

lemma evolves_resume_workflow [guar_intros]: "guarantees db_evolves (resume_workflow i op)"
  unfolding resume_workflow_def
  by (intro guar_intros evolves_workflow_update workflow_evolves_live)
    (auto simp: workflow_identity_def changes)

lemma rows_ok_resume_workflow [keeps_intros]: "keeps rows_ok (resume_workflow i op)"
proof (rule keepsI)
  fix s out s' assume ok: "rows_ok s" and "resume_workflow i op s = Inr (out, s')"
  from this(2) show "rows_ok s'"
  proof (rule resume_workflow_cases)
    fix w now status s0 s1
    assume w: "workflow_by_id s i = Some w" "wf_status w = WS_Paused"
      and now: "database_now_millis s = Inr (now, s0)"
      and status: "resume_status w s0 = Inr (status, s0)"
      and upd: "fenced (workflow_update (\<lambda>x. x = w) (workflow_resumed now status)) s0 = Inr ((), s1)"
      and app: "append_operator_event i ''workflow_resumed'' op now s1 = Inr ((), s')"
    have s0: "rows_ok s0" using keepsD [OF rows_ok_frame(1) ok now] .
    have "keeps rows_ok (fenced (workflow_update (\<lambda>x. x = w) (workflow_resumed now status)))"
      using resume_status_wait(2,3) [OF status] w(2)
      by (intro keeps_intros rows_ok_workflow_update)
        (auto simp: row_ok_defs workflow_resumed_def changes)
    from keepsD [OF rows_ok_append_operator_event keepsD [OF this s0 upd] app] show "rows_ok s'" .
  qed
qed

lemma evolves_cancel_workflow [guar_intros]: "guarantees db_evolves (cancel_workflow E i op)"
  unfolding cancel_workflow_def by (intro guar_intros evolves_cancel_locked_workflow) simp_all

lemma rows_ok_cancel_workflow [keeps_intros]: "keeps rows_ok (cancel_workflow E i op)"
  unfolding cancel_workflow_def by (intro keeps_intros)

lemma evolves_supersede_source [guar_intros]:
  "\<not> ws_is_terminal (wf_status w) \<Longrightarrow> guarantees db_evolves (supersede_source E w i op now)"
  unfolding supersede_source_def
  by (intro guar_intros evolves_workflow_update workflow_evolves_live)
    (auto simp: workflow_identity_def changes)

lemma rows_ok_supersede_source [keeps_intros]: "keeps rows_ok (supersede_source E w i op now)"
  unfolding supersede_source_def
  by (intro keeps_intros rows_ok_workflow_update) (auto simp: row_ok_defs changes)

lemma evolves_finish_restart [guar_intros]:
  "guarantees db_evolves (finish_restart E w i corr op k)"
  unfolding finish_restart_def
  by (intro guar_intros evolves_link_schedule_run) (auto simp: run_evolves_def run_identity_def)

lemma rows_ok_finish_restart [keeps_intros]: "keeps rows_ok (finish_restart E w i corr op k)"
  unfolding finish_restart_def by (intro keeps_intros)

lemma evolves_restart [guar_intros]: "guarantees db_evolves (restart E R i corr op)"
  unfolding restart_def Let_def by (intro guar_intros)

lemma rows_ok_restart [keeps_intros]: "keeps rows_ok (restart E R i corr op)"
  unfolding restart_def Let_def by (intro keeps_intros)

lemma evolves_retry [guar_intros]: "guarantees db_evolves (retry E R s0 i corr op)"
  unfolding retry_def retry_locked_def Let_def
  by (intro guar_intros evolves_workflow_update workflow_evolves_live)
    (auto simp: workflow_identity_def changes)

lemma rows_ok_retry [keeps_intros]: "keeps rows_ok (retry E R s0 i corr op)"
  unfolding retry_def retry_locked_def Let_def
  by (intro keeps_intros rows_ok_workflow_update) (auto simp: row_ok_defs changes)

lemma evolves_resolve_approval [guar_intros]:
  "guarantees db_evolves (resolve_approval E R i json op)"
  unfolding resolve_approval_def
  by (intro guar_intros evolves_workflow_update workflow_evolves_live evolves_approval_update)
    (auto simp: tx_simps workflow_identity_def changes approval_evolves_def
      dest!: approval_matches awaits_approval_suspended)

lemma rows_ok_resolve_approval [keeps_intros]:
  "keeps rows_ok (resolve_approval E R i json op)"
  unfolding resolve_approval_def
  by (intro keeps_intros rows_ok_workflow_update)
    (auto simp: tx_simps row_ok_defs changes dest!: approval_matches awaits_approval_suspended)

end
