(* ===== verification/Operator_Control.thy ===== *)
theory Operator_Control
  imports Admin_Control
begin

text \<open>
  What the operator controls promise: a decided approval stays decided, a pause fences the
  work in flight, a resume returns to what the wait says, a retry replaces the activity that
  blocks its workflow, and a restart leaves one successor and a terminal source.
\<close>

section \<open>Rows found again\<close>

lemma find_map_key:
  "(\<And>x. key (g x) = key x) \<Longrightarrow>
   find (\<lambda>x. key x = i) (map g t) = map_option g (find (\<lambda>x. key x = i) t)"
  by (induction t) auto

lemma find_key_evolves:
  assumes "rows_evolve \<rho> t t'" and "\<And>r r'. \<rho> r r' \<Longrightarrow> key r' = key r"
    and "find (\<lambda>r. key r = i) t = Some r"
  shows "\<exists>r'. find (\<lambda>r. key r = i) t' = Some r' \<and> \<rho> r r'"
proof -
  from assms(3) obtain n where n: "n < length t" "key (t ! n) = i" "r = t ! n"
    "\<forall>j < n. key (t ! j) \<noteq> i" by (auto simp: find_Some_iff)
  have step: "\<rho> (t ! j) (t' ! j)" "key (t' ! j) = key (t ! j)" if "j \<le> n" for j
    using assms(1,2) n(1) that by (simp_all add: rows_evolve_def)
  have "n < length t'" using assms(1) n(1) by (simp add: rows_evolve_def)
  with step n have "find (\<lambda>r. key r = i) t' = Some (t' ! n)" by (auto simp: find_Some_iff)
  with step(1) [of n] n(3) show ?thesis by simp
qed

lemma approval_found_later:
  assumes "db_evolves s t" and "approval_by_id s i = Some p"
  shows "\<exists>p'. approval_by_id t i = Some p' \<and> approval_evolves p p'"
proof -
  have "rows_evolve approval_evolves (approvals s) (approvals t)" using assms(1) by (simp add: db_evolves_def)
  moreover have "apr_id q' = apr_id q" if "approval_evolves q q'" for q q'
    using that by (simp add: approval_evolves_def)
  ultimately show ?thesis using assms(2) unfolding approval_by_id_def by (rule find_key_evolves)
qed

lemma workflow_found_later:
  assumes "db_evolves s t" and "workflow_by_id s i = Some r"
  shows "\<exists>r'. workflow_by_id t i = Some r' \<and> workflow_evolves r r'"
proof -
  have "rows_evolve workflow_evolves (workflows s) (workflows t)" using assms(1) by (simp add: db_evolves_def)
  moreover have "wf_id q' = wf_id q" if "workflow_evolves q q'" for q q'
    using that by (simp add: workflow_evolves_def workflow_identity_def)
  ultimately show ?thesis using assms(2) unfolding workflow_by_id_def by (rule find_key_evolves)
qed

lemma by_id_found:
  "workflow_by_id s i = Some r \<Longrightarrow> r \<in> set (workflows s) \<and> wf_id r = i"
  "activity_by_id s j = Some a \<Longrightarrow> a \<in> set (activities s) \<and> act_id a = j"
  "approval_by_id s k = Some p \<Longrightarrow> p \<in> set (approvals s) \<and> apr_id p = k"
  unfolding workflow_by_id_def activity_by_id_def approval_by_id_def
  by (auto dest: find_mem find_key_mem)

lemma workflow_unique:
  "keys_ok s \<Longrightarrow> q \<in> set (workflows s) \<Longrightarrow> r \<in> set (workflows s) \<Longrightarrow> wf_id q = wf_id r \<Longrightarrow> q = r"
  by (simp add: keys_ok_def workflow_keys_ok_def distinct_map inj_on_def)

section \<open>Approvals\<close>

lemma resolve_approval_cases:
  assumes "resolve_approval E R i json op s = Inr (out, s')"
  obtains p decision now s1 s2 actor where "approval_by_id s i = Some p" "apr_status p = AP_Pending"
    "approvals s1 = approvals s"
    "fenced (approval_update (\<lambda>x. apr_id x = apr_id p \<and> apr_status x = AP_Pending)
      (\<lambda>x. x\<lparr>apr_status := AP_Resolved, apr_decision_payload_json := Some decision,
              apr_decided_by := Some actor, apr_operator_reason := Some (op_reason op),
              apr_resolved_at := Some now\<rparr>)) s1 = Inr ((), s2)"
    "approvals s' = approvals s2"
proof -
  from assms obtain p q actor now s0 s1 s2 seq d meta P f decision where
    p: "approval_by_id s i = Some p" "apr_status p = AP_Pending"
    and now: "database_now_millis s = Inr (now, s0)"
    and app: "append_event (operator_event q seq (Some d) ''approval_resolved'' (Some meta) op now) s0
       = Inr ((), s1)"
    and upd: "fenced (approval_update (\<lambda>x. apr_id x = apr_id p \<and> apr_status x = AP_Pending)
      (\<lambda>x. x\<lparr>apr_status := AP_Resolved, apr_decision_payload_json := Some decision,
              apr_decided_by := Some actor, apr_operator_reason := Some (op_reason op),
              apr_resolved_at := Some now\<rparr>)) s1 = Inr ((), s2)"
    and wf: "fenced (workflow_update P f) s2 = Inr ((), s')"
    by (auto simp: resolve_approval_def lock_workflow_def bind_query tx_bind_Inr tx_seq_Inr
        tx_some_Inr tx_query_Inr tx_lift_Inr tx_fail_Inr tx_return_Inr next_event_sequence_def
        split: if_splits)
  have "approvals s1 = approvals s" using now app by (auto simp: tx_simps append_event_Inr)
  moreover have "approvals s' = approvals s2" using wf by (auto simp: tx_simps)
  ultimately show ?thesis using that p upd by blast
qed

text \<open>A decided approval answers no one again.\<close>

lemma decided_approval_closed:
  assumes "approval_by_id t i = Some p" and "apr_status p \<noteq> AP_Pending"
  shows "isl (resolve_approval E R i json op t)"
    and "expire_approval E (i, j) now t = Inr (x, u) \<Longrightarrow> x = None \<and> u = t"
proof -
  show "isl (resolve_approval E R i json op t)"
  proof (rule ccontr)
    assume "\<not> ?thesis"
    then obtain out u where "resolve_approval E R i json op t = Inr (out, u)"
      by (metis isl_def sum.exhaust surj_pair)
    then show False by (rule resolve_approval_cases) (use assms in auto)
  qed
  assume "expire_approval E (i, j) now t = Inr (x, u)"
  with assms show "x = None \<and> u = t"
    by (auto simp: expire_approval_def lock_workflow_by_id_def bind_query tx_bind_Inr tx_some_Inr
        tx_return_Inr)
qed

text \<open>
  C19: an approval is decided at most once, and a decision excludes expiry (S20). A decision
  that returned found the approval pending; from then on, whatever transactions follow, the
  approval reads resolved, every further decision fails, and the expiry of that approval
  does nothing.
\<close>

theorem approval_decided_once:
  assumes "resolve_approval E R i json op s = Inr (out, s')" and "db_evolves s' t"
  shows "(\<exists>p. approval_by_id s i = Some p \<and> apr_status p = AP_Pending) \<and>
    (\<exists>p. approval_by_id t i = Some p \<and> apr_status p = AP_Resolved) \<and>
    isl (resolve_approval E' R' i json' op' t) \<and>
    (\<forall>x u. expire_approval E' (i, j) now t = Inr (x, u) \<longrightarrow> x = None \<and> u = t)"
  using assms(1)
proof (rule resolve_approval_cases)
  fix p decision dec_at s1 s2 actor
  let ?f = "\<lambda>x. x\<lparr>apr_status := AP_Resolved, apr_decision_payload_json := Some decision,
              apr_decided_by := Some actor, apr_operator_reason := Some (op_reason op),
              apr_resolved_at := Some dec_at\<rparr>"
  assume p: "approval_by_id s i = Some p" "apr_status p = AP_Pending"
    and s1: "approvals s1 = approvals s"
    and upd: "fenced (approval_update (\<lambda>x. apr_id x = apr_id p \<and> apr_status x = AP_Pending) ?f) s1
      = Inr ((), s2)"
    and s2: "approvals s' = approvals s2"
  let ?g = "\<lambda>x. if apr_id x = apr_id p \<and> apr_status x = AP_Pending then ?f x else x"
  have "approvals s' = map ?g (approvals s)" using upd s1 s2 by (auto simp: tx_simps)
  then have "approval_by_id s' i = map_option ?g (approval_by_id s i)"
    by (simp add: approval_by_id_def find_map_key)
  with p have "approval_by_id s' i = Some (?f p)" by simp
  from approval_found_later [OF assms(2) this]
  have t: "approval_by_id t i = Some (?f p)" by (auto simp: approval_evolves_def)
  with p decided_approval_closed [OF t] show ?thesis by auto
qed

definition sample_operator :: operator where
  "sample_operator = \<lparr>op_actor_id = ''7'', op_reason = ''checked''\<rparr>"

definition sample_approval :: approval_row where
  "sample_approval =
     \<lparr>apr_id = 1, apr_workflow_id = 1, apr_command_sequence = 1, apr_kind = ''order'', apr_version = 1,
      apr_prompt_metadata_json = ''{}'', apr_validation_schema_json = ''{}'', apr_validation_version = 1,
      apr_status = AP_Pending, apr_requested_at = 10, apr_expires_at = Some 5000,
      apr_decision_payload_json = None, apr_decided_by = None, apr_operator_reason = None,
      apr_resolved_at = None\<rparr>"

definition sample_approving :: db where
  "sample_approving = sample_db\<lparr>approvals := [sample_approval], next_approval_id := 2, workflows :=
     [sample_parent\<lparr>wf_status := WS_WaitingApproval, wf_wait_kind := Some WK_Approval,
        wf_wait_reference_id := Some 1\<rparr>]\<rparr>"

theorem approval_decided_once_witness:
  "\<exists>out s'. resolve_approval sample_externals sample_registry 1 ''{}'' sample_operator sample_approving
      = Inr (out, s') \<and> isl (resolve_approval sample_externals sample_registry 1 ''{}'' sample_operator s')"
proof -
  let ?x = "resolve_approval sample_externals sample_registry 1 ''{}'' sample_operator sample_approving"
  have "\<not> isl ?x" by code_simp
  note x = returned [OF this]
  from approval_decided_once [OF x evolution.refl] x show ?thesis by blast
qed

section \<open>Pause and resume\<close>

lemma pause_workflow_cases:
  assumes "pause_workflow i op s = Inr (out, s')"
  obtains w now s0 wait s1 s2 where "workflow_by_id s i = Some w"
    "wf_status w \<noteq> WS_Paused" "\<not> ws_is_terminal (wf_status w)" "workflow_wait w = Inr wait"
    "database_now_millis s = Inr (now, s0)"
    "(case wait of Some (Wait_Activity j) \<Rightarrow> pause_activity j op now | _ \<Rightarrow> tx_return ()) s0 = Inr ((), s1)"
    "fenced (workflow_update (\<lambda>r. wf_id r = wf_id w \<and> wf_status r = wf_status w)
      (\<lambda>r. workflow_lease_cleared (r\<lparr>wf_status := WS_Paused, wf_updated_at := now\<rparr>))) s1 = Inr ((), s2)"
    "append_operator_event i ''workflow_paused'' op now s2 = Inr ((), s')"
  using assms
  by (auto simp: pause_workflow_def lock_workflow_def bind_query tx_bind_Inr tx_seq_Inr
      tx_some_Inr tx_query_Inr tx_lift_Inr tx_fail_Inr tx_return_Inr split: if_splits)

lemma pause_activity_frame:
  assumes "pause_activity j op now s = Inr (u, s')"
  shows "workflows s' = workflows s" and "attempts s' = attempts s"
    and "activity_by_id s j = Some a \<Longrightarrow> act_status a = AS_Running \<Longrightarrow>
      activity_by_id s' j = Some (activity_paused op now a)"
proof -
  show "workflows s' = workflows s" and "attempts s' = attempts s"
    using assms by (cases rule: pause_activity_cases; auto simp: tx_simps)+
  show "activity_by_id s' j = Some (activity_paused op now a)"
    if "activity_by_id s j = Some a" "act_status a = AS_Running"
    using assms
  proof (cases rule: pause_activity_cases)
    case (2 b)
    have "activities s' = map (\<lambda>x. if x = a then activity_paused op now x else x) (activities s)"
      using 2(1,4) that(1) by (auto simp: tx_simps)
    then have "activity_by_id s' j = map_option (\<lambda>x. if x = a then activity_paused op now x else x)
        (activity_by_id s j)"
      unfolding activity_by_id_def by (subst find_map_key [symmetric]) (auto simp: activity_paused_def)
    with that show ?thesis by simp
  qed (use that in auto)
qed

lemma append_operator_event_frame:
  assumes "append_operator_event i ty op now s = Inr (u, s')"
  shows "workflows s' = workflows s" "activities s' = activities s" "attempts s' = attempts s"
    "approvals s' = approvals s"
    "\<exists>e. events s' = events s @ [e] \<and> ev_workflow_id e = i \<and> ev_event_type e = ty \<and>
       ev_actor_id e = Some (op_actor_id op) \<and> ev_reason e = Some (op_reason op)"
  using assms
  by (auto simp: append_operator_event_def next_event_sequence_def tx_simps append_event_Inr
      operator_event_def)

lemma paused_claims_stale:
  assumes "keys_ok s" and "workflow_by_id s i = Some w" and "wf_status w = WS_Paused" and "wf_id (cl_row claim) = i"
  shows "claim_stale claim s"
proof -
  have ids: "distinct (map wf_id (workflows s))" using assms(1) by (simp add: keys_ok_def workflow_keys_ok_def)
  have "r = w" if "r \<in> set (workflows s)" "wf_id r = i" for r
    using assms(2) that find_key_distinct [OF ids that(1)] by (simp add: workflow_by_id_def)
  with assms(3,4) show ?thesis by (fastforce simp: claim_stale_def fenced_workflow_def)
qed

text \<open>
  C20: a pause fences the work in flight (S36). When it returns, the workflow is paused
  without a lease and with the wait it had, so no claim on it can commit any more; the
  activity it waits for, if an attempt runs, is revoked with its lease, its slot and its
  open attempt kept, and one more attempt is granted.
\<close>

theorem pause_fences_work:
  assumes "pause_workflow i op s = Inr (out, s')" and "keys_ok s"
  shows "\<exists>w w' now. workflow_by_id s i = Some w \<and> workflow_by_id s' i = Some w' \<and>
    \<not> ws_is_terminal (wf_status w) \<and> wf_status w' = WS_Paused \<and> wf_lease_token w' = None \<and>
    workflow_wait w' = workflow_wait w \<and> attempts s' = attempts s \<and>
    (\<forall>claim. wf_id (cl_row claim) = i \<longrightarrow> claim_stale claim s') \<and>
    (\<forall>j a. workflow_wait w = Inr (Some (Wait_Activity j)) \<longrightarrow> activity_by_id s j = Some a \<longrightarrow>
       act_status a = AS_Running \<longrightarrow> activity_by_id s' j = Some (activity_paused op now a))"
  using assms(1)
proof (rule pause_workflow_cases)
  fix w now s0 wait s1 s2
  assume w: "workflow_by_id s i = Some w" "wf_status w \<noteq> WS_Paused" "\<not> ws_is_terminal (wf_status w)"
      "workflow_wait w = Inr wait"
    and now: "database_now_millis s = Inr (now, s0)"
    and act: "(case wait of Some (Wait_Activity j) \<Rightarrow> pause_activity j op now | _ \<Rightarrow> tx_return ()) s0 = Inr ((), s1)"
    and upd: "fenced (workflow_update (\<lambda>r. wf_id r = wf_id w \<and> wf_status r = wf_status w)
      (\<lambda>r. workflow_lease_cleared (r\<lparr>wf_status := WS_Paused, wf_updated_at := now\<rparr>))) s1 = Inr ((), s2)"
    and app: "append_operator_event i ''workflow_paused'' op now s2 = Inr ((), s')"
  let ?f = "\<lambda>r. workflow_lease_cleared (r\<lparr>wf_status := WS_Paused, wf_updated_at := now\<rparr>)"
  let ?g = "\<lambda>r. if wf_id r = wf_id w \<and> wf_status r = wf_status w then ?f r else r"
  have s0: "workflows s0 = workflows s" "attempts s0 = attempts s" "activities s0 = activities s"
    using now by (auto simp: tx_simps)
  have s1: "workflows s1 = workflows s" "attempts s1 = attempts s"
    using act s0 by (auto simp: tx_return_Inr split: option.splits wait.splits dest: pause_activity_frame)
  have act': "activity_by_id s' j = Some (activity_paused op now a)"
    if "wait = Some (Wait_Activity j)" "activity_by_id s j = Some a" "act_status a = AS_Running" for j a
  proof -
    have "activity_by_id s1 j = Some (activity_paused op now a)"
      using act that s0(3) by (auto simp: activity_by_id_def intro!: pause_activity_frame(3) [unfolded activity_by_id_def])
    then show ?thesis
      using upd append_operator_event_frame(2) [OF app] by (auto simp: activity_by_id_def tx_simps)
  qed
  have rows: "workflows s' = map ?g (workflows s)"
    using upd s1 append_operator_event_frame(1) [OF app] by (auto simp: tx_simps)
  then have "workflow_by_id s' i = map_option ?g (workflow_by_id s i)"
    by (simp add: workflow_by_id_def find_map_key changes)
  with w have found: "workflow_by_id s' i = Some (?f w)" by simp
  have "keys_ok s'" using guaranteesD [OF evolves_pause_workflow assms(1)] assms(2) by (rule db_evolves_keys)
  then have stale: "claim_stale claim s'" if "wf_id (cl_row claim) = i" for claim
    using found that by (intro paused_claims_stale) (auto simp: changes)
  have "attempts s' = attempts s"
    using upd s1(2) append_operator_event_frame(3) [OF app] by (auto simp: tx_simps)
  with w found stale act' show ?thesis
    by (intro exI [of _ w] exI [of _ "?f w"] exI [of _ now])
      (auto simp: changes workflow_wait_def)
qed

definition sample_paused_at :: db where
  "sample_paused_at = sample_db\<lparr>activities := [sample_activity\<lparr>act_status := AS_Running,
     act_attempt_count := 1, act_lease_owner := Some ''w'', act_lease_token := Some ''t'',
     act_lease_expires_at := Some 9000\<rparr>]\<rparr>"

lemma sample_paused_keys_ok: "keys_ok sample_paused_at"
  by (auto simp: keys_defs sample_paused_at_def sample_defs child_key_def)

theorem pause_fences_work_witness:
  "\<exists>s' w' a. pause_workflow 2 sample_operator sample_paused_at = Inr (\<lparr>wco_workflow_id = 2,
      wco_status = ''paused''\<rparr>, s') \<and> workflow_by_id s' 2 = Some w' \<and> wf_status w' = WS_Paused \<and>
     activity_by_id s' 1 = Some a \<and> act_status a = AS_Cancelling \<and> act_max_attempts a = 4"
proof -
  let ?x = "pause_workflow 2 sample_operator sample_paused_at"
  have x: "\<not> isl ?x \<and> fst (projr ?x) = \<lparr>wco_workflow_id = 2, wco_status = ''paused''\<rparr>" by code_simp
  then have run: "?x = Inr (\<lparr>wco_workflow_id = 2, wco_status = ''paused''\<rparr>, snd (projr ?x))"
    by (metis returned)
  have "workflow_wait (the (workflow_by_id sample_paused_at 2)) = Inr (Some (Wait_Activity 1))"
    and "activity_by_id sample_paused_at 1 = Some (hd (activities sample_paused_at))"
    and "act_status (hd (activities sample_paused_at)) = AS_Running"
    and "act_max_attempts (hd (activities sample_paused_at)) = 3" by code_simp+
  with pause_fences_work [OF run sample_paused_keys_ok] run show ?thesis
    by (fastforce simp: activity_paused_def)
qed

text \<open>
  A resume returns a paused workflow to what its wait says: ready when it waits for
  nothing or for a result that is there, and otherwise waiting for the timer, activity,
  child or approval it waited for. Only that row changes, and its wait stays as it was.
\<close>

lemma resume_follows_wait:
  assumes "resume_workflow i op s = Inr (out, s')"
  shows "\<exists>w wait status now. workflow_by_id s i = Some w \<and> wf_status w = WS_Paused \<and>
    workflow_wait w = Inr wait \<and> resumes_to s wait status \<and>
    wco_status out = workflow_status_as_str status \<and>
    workflow_by_id s' i = Some (workflow_resumed now status w) \<and>
    (\<forall>j. j \<noteq> i \<longrightarrow> workflow_by_id s' j = workflow_by_id s j) \<and>
    activities s' = activities s \<and> approvals s' = approvals s"
  using assms
proof (rule resume_workflow_cases)
  fix w now status s0 s1
  assume w: "workflow_by_id s i = Some w" "wf_status w = WS_Paused"
    and now: "database_now_millis s = Inr (now, s0)"
    and status: "resume_status w s0 = Inr (status, s0)"
    and upd: "fenced (workflow_update (\<lambda>x. x = w) (workflow_resumed now status)) s0 = Inr ((), s1)"
    and app: "append_operator_event i ''workflow_resumed'' op now s1 = Inr ((), s')"
    and out: "out = \<lparr>wco_workflow_id = i, wco_status = workflow_status_as_str status\<rparr>"
  let ?g = "\<lambda>x. if x = w then workflow_resumed now status x else x"
  note app' = append_operator_event_frame [OF app]
  have s0: "s0 = s\<lparr>clock_reads := Suc (clock_reads s)\<rparr>" using now by (simp add: tx_simps)
  have rows: "workflows s' = map ?g (workflows s)" and
    rest: "activities s' = activities s" "approvals s' = approvals s"
    using upd app' s0 by (auto simp: tx_simps)
  from rows have found: "workflow_by_id s' j = map_option ?g (workflow_by_id s j)" for j
    unfolding workflow_by_id_def
    by (subst find_map_key [symmetric]) (auto simp: workflow_resumed_def changes)
  have other: "workflow_by_id s' j = workflow_by_id s j" if "j \<noteq> i" for j
    using found [of j] that by_id_found(1) [OF w(1)] by_id_found(1) [of s j]
    by (cases "workflow_by_id s j") auto
  from status obtain wait where wait: "workflow_wait w = Inr wait" "resumes_to s0 wait status"
    by (auto simp: resume_status_Inr)
  have "resumes_to s wait status"
    using wait(2) unfolding s0
    by (cases "(s, wait, status)" rule: resumes_to.cases)
      (simp_all add: activity_by_id_def workflow_by_id_def approval_by_id_def)
  with w wait(1) out other rest found [of i] show ?thesis
    by (intro exI [of _ w] exI [of _ wait] exI [of _ status] exI [of _ now]) auto
qed

section \<open>Retry\<close>

lemma insert_command_activity_Inr:
  assumes "insert_command_activity E w c n cmd at key root rep now s = Inr (k, s')"
  shows "k = next_activity_id s \<and> workflows s' = workflows s \<and> events s' = events s \<and>
    (\<exists>a. activities s' = activities s @ [a] \<and> act_id a = k \<and> act_status a = AS_Pending \<and>
      act_workflow_id a = w \<and> act_command_sequence a = c \<and> act_replacement_number a = n \<and>
      act_kind a = ac_kind cmd \<and> act_version a = ac_version cmd \<and> act_operation_key a = key \<and>
      act_attempt_count a = 0 \<and> act_root_activity_id a = root \<and> act_replaces_activity_id a = rep)"
  using assms
  by (auto simp: insert_command_activity_def tx_bind_Inr tx_some_Inr tx_lift_Inr new_activity_row_def
      dest!: insert_activity_Inr)

lemma blocks_workflow_True:
  "blocks_workflow w a i = Inr True \<longleftrightarrow> wf_status w = WS_Blocked \<and>
     workflow_wait w = Inr (Some (Wait_Activity i)) \<and> act_status a = AS_DeadLettered"
  by (auto simp: blocks_workflow_def split: sum.splits)

definition retry_key :: "'p option \<Rightarrow> activity_row \<Rightarrow> string option" where
  "retry_key correction a = (if correction = None then act_operation_key a
      else Some (correction_key (case act_root_activity_id a of None \<Rightarrow> act_id a | Some r \<Rightarrow> r) (act_replacement_number a + 1)))"

abbreviation waits_for_replacement :: "i64 \<Rightarrow> db_millis \<Rightarrow> workflow_row \<Rightarrow> workflow_row" where
  "waits_for_replacement k now r \<equiv> wait_on (Wait_Activity k) (r\<lparr>wf_status := WS_WaitingActivity,
     wf_available_at := now, wf_error_category := None, wf_error_message := None, wf_updated_at := now\<rparr>)"

lemma retry_locked_cases:
  assumes "retry_locked E R i workflow_id correction op s = Inr (out, s')"
  obtains w a cmd now s1 k s2 s3 ty where "workflow_by_id s workflow_id = Some w" and "activity_by_id s i = Some a"
    and "blocks_workflow w a i = Inr True" and "database_now_millis s = Inr (now, s1)"
    and "insert_command_activity E (act_workflow_id a) (act_command_sequence a)
      (act_replacement_number a + 1) cmd now (retry_key correction a)
      (Some (case act_root_activity_id a of None \<Rightarrow> act_id a | Some r \<Rightarrow> r)) (Some (act_id a)) now s1 = Inr (k, s2)"
    and "fenced (workflow_update
       (\<lambda>r. wf_id r = wf_id w \<and> wf_status r = WS_Blocked \<and> wf_wait_reference_id r = Some (act_id a))
       (waits_for_replacement k now)) s2 = Inr ((), s3)"
    and "append_operator_event workflow_id ty op now s3 = Inr ((), s')" and "aro_activity_id out = k"
  using assms
  by (auto simp: retry_locked_def retry_key_def lock_workflow_def bind_query tx_bind_Inr tx_seq_Inr tx_some_Inr
      tx_query_Inr tx_lift_Inr tx_fail_Inr tx_return_Inr checked_add_Some Let_def split: if_splits)

text \<open>
  C21: a retry replaces the dead-lettered activity its workflow is blocked on. When it
  returns, that is how things stood; the activity keeps its row, a pending one with the next
  replacement number of the same command follows it and names its root and its source, the
  workflow waits for the new activity without an error, and only a corrected payload gets
  an operation key of its own.
\<close>

theorem retry_replaces_dead_letter:
  assumes "retry E R s0 i correction op s = Inr (out, s')"
  shows "\<exists>w w' a b. workflow_by_id s (act_workflow_id (the (activity_by_id s0 i))) = Some w \<and>
    wf_status w = WS_Blocked \<and> workflow_wait w = Inr (Some (Wait_Activity i)) \<and>
    activity_by_id s i = Some a \<and> act_status a = AS_DeadLettered \<and>
    activities s' = activities s @ [b] \<and> act_id b = next_activity_id s \<and> act_status b = AS_Pending \<and>
    act_workflow_id b = act_workflow_id a \<and> act_command_sequence b = act_command_sequence a \<and>
    act_replacement_number b = act_replacement_number a + 1 \<and> act_replaces_activity_id b = Some i \<and>
    act_operation_key b = (if correction = None then act_operation_key a
      else Some (correction_key (case act_root_activity_id a of None \<Rightarrow> i | Some r \<Rightarrow> r)
                  (act_replacement_number a + 1))) \<and>
    aro_activity_id out = act_id b \<and> workflow_by_id s' (wf_id w) = Some w' \<and>
    wf_status w' = WS_WaitingActivity \<and> wf_wait_reference_id w' = Some (act_id b) \<and>
    wf_error_category w' = None"
proof -
  from assms obtain a0 where a0: "activity_by_id s0 i = Some a0"
    and run: "retry_locked E R i (act_workflow_id a0) correction op s = Inr (out, s')"
    by (auto simp: retry_def tx_fail_Inr split: option.splits)
  from run obtain w a cmd now s1 k s2 s3 ty where
    w: "workflow_by_id s (act_workflow_id a0) = Some w" and a: "activity_by_id s i = Some a"
    and blocked: "blocks_workflow w a i = Inr True" and now: "database_now_millis s = Inr (now, s1)"
    and ins: "insert_command_activity E (act_workflow_id a) (act_command_sequence a)
      (act_replacement_number a + 1) cmd now (retry_key correction a)
      (Some (case act_root_activity_id a of None \<Rightarrow> act_id a | Some r \<Rightarrow> r)) (Some (act_id a)) now s1 = Inr (k, s2)"
    and upd: "fenced (workflow_update
       (\<lambda>r. wf_id r = wf_id w \<and> wf_status r = WS_Blocked \<and> wf_wait_reference_id r = Some (act_id a))
       (waits_for_replacement k now)) s2 = Inr ((), s3)"
    and app: "append_operator_event (act_workflow_id a0) ty op now s3 = Inr ((), s')"
    and out: "aro_activity_id out = k" by (rule retry_locked_cases)
  let ?f = "waits_for_replacement k now"
  let ?g = "\<lambda>r. if wf_id r = wf_id w \<and> wf_status r = WS_Blocked \<and>
      wf_wait_reference_id r = Some (act_id a) then ?f r else r"
  note blocked' = blocked [unfolded blocks_workflow_True]
  have s1: "workflows s1 = workflows s" "activities s1 = activities s" "next_activity_id s1 = next_activity_id s"
    using now by (auto simp: tx_simps)
  note ins' = insert_command_activity_Inr [OF ins] and app' = append_operator_event_frame [OF app]
  have ref: "wf_wait_reference_id w = Some (act_id a)"
    using blocked' by_id_found(2) [OF a] by (simp add: workflow_wait_def Wait_parse_Inr)
  have "workflows s' = map ?g (workflows s)" using upd ins' s1 app' by (auto simp: tx_simps)
  then have "workflow_by_id s' (wf_id w) = map_option ?g (workflow_by_id s (wf_id w))"
    unfolding workflow_by_id_def by (subst find_map_key [symmetric]) (auto simp: changes)
  with w by_id_found(1) [OF w] ref blocked' have found: "workflow_by_id s' (wf_id w) = Some (?f w)" by simp
  have acts: "activities s' = activities s2" using upd app' by (auto simp: tx_simps)
  from ins' obtain b where b: "activities s2 = activities s1 @ [b]" "act_id b = k" "act_status b = AS_Pending"
    "act_workflow_id b = act_workflow_id a" "act_command_sequence b = act_command_sequence a"
    "act_replacement_number b = act_replacement_number a + 1" "act_operation_key b = retry_key correction a"
    "act_replaces_activity_id b = Some (act_id a)" by auto
  have id: "act_id a = i" using by_id_found(2) [OF a] by simp
  show ?thesis
  proof (intro exI conjI)
    show "workflow_by_id s (act_workflow_id (the (activity_by_id s0 i))) = Some w" using w a0 by simp
    show "activity_by_id s i = Some a" "workflow_by_id s' (wf_id w) = Some (?f w)" by fact+
    show "activities s' = activities s @ [b]" using acts b(1) s1(2) by simp
    show "act_id b = next_activity_id s" "aro_activity_id out = act_id b" using b(2) out ins' s1(3) by simp_all
    show "act_operation_key b = (if correction = None then act_operation_key a
      else Some (correction_key (case act_root_activity_id a of None \<Rightarrow> i | Some r \<Rightarrow> r)
                  (act_replacement_number a + 1)))" using b(7) unfolding retry_key_def id .
  qed (use blocked' b id in \<open>simp_all add: changes\<close>)
qed

definition sample_handlers :: activity_registry where
  "sample_handlers = [((''charge'', 1), \<lparr>ah_definition = \<lparr>ad_kind = ''charge'', ad_version = 1,
     ad_topic = ''t'', ad_max_attempts = 3, ad_timeout = 1000, ad_lease_duration = 5000,
     ad_retry_policy = \<lparr>backoff = Fixed 5\<rparr>\<rparr>, ah_read_payload = (\<lambda>json. Inr (Some json))\<rparr>)]"

definition sample_blocked :: db where
  "sample_blocked = sample_db\<lparr>workflows := [sample_parent, sample_child\<lparr>wf_status := WS_Blocked\<rparr>],
     activities := [sample_activity\<lparr>act_status := AS_DeadLettered, act_attempt_count := 3\<rparr>]\<rparr>"

theorem retry_replaces_dead_letter_witness:
  "\<exists>out s'. retry sample_externals sample_handlers sample_blocked 1 (Some ''{}'') sample_operator
      sample_blocked = Inr (out, s') \<and> length (activities s') = 2 \<and>
    act_operation_key (activities s' ! 1) = Some ''durable:activity:1:correction:1''"
proof -
  let ?x = "retry sample_externals sample_handlers sample_blocked 1 (Some ''{}'') sample_operator sample_blocked"
  have "\<not> isl ?x" by code_simp
  note x = returned [OF this]
  have len: "length (activities sample_blocked) = 1"
    and act: "\<And>a. activity_by_id sample_blocked 1 = Some a \<Longrightarrow>
      act_root_activity_id a = None \<and> act_replacement_number a = 0"
    by (auto simp: sample_blocked_def sample_activity_def activity_by_id_def)
  have key: "correction_key 1 (0 + 1) = ''durable:activity:1:correction:1''" by code_simp
  from retry_replaces_dead_letter [OF x] obtain a b where
    "activity_by_id sample_blocked 1 = Some a"
    "activities (snd (projr ?x)) = activities sample_blocked @ [b]"
    "act_operation_key b = Some (correction_key (case act_root_activity_id a of None \<Rightarrow> 1 | Some r \<Rightarrow> r)
                  (act_replacement_number a + 1))" by auto
  with act len key have "length (activities (snd (projr ?x))) = 2 \<and>
      act_operation_key (activities (snd (projr ?x)) ! 1) = Some ''durable:activity:1:correction:1''"
    by (auto simp: nth_append)
  with x show ?thesis by blast
qed

section \<open>Restart\<close>

lemma start_prepared_Inserted:
  assumes "start_prepared_in prepared options s = Inr (out, s')" and "out_inserted out"
    and "so_deduplication_key options = None"
  shows "\<exists>r. workflows s' = workflows s @ [r] \<and> wf_id r = out_workflow_id out \<and>
    out_workflow_id out = next_workflow_id s \<and> wf_status r = WS_Ready \<and> wf_kind r = prep_kind prepared \<and>
    wf_version r = prep_version prepared \<and> wf_input_json r = prep_input_json prepared \<and>
    wf_schedule_run_id r = so_schedule_run_id options \<and> wf_root_workflow_id r = so_root_workflow_id options \<and>
    wf_restarted_from_workflow_id r = so_restarted_from_workflow_id options"
proof -
  define row where "row = (\<lambda>now. new_workflow_row (prep_kind prepared) (prep_version prepared)
      (prep_input_json prepared) (prep_state_json prepared)
      (case so_available_at options of None \<Rightarrow> now | Some at \<Rightarrow> at) None (so_schedule_run_id options)
      (so_root_workflow_id options) (so_restarted_from_workflow_id options) None None now)"
  from assms(1,3) obtain now s0 started s1 where now: "database_now_millis s = Inr (now, s0)"
    and start: "insert_started (row now) s0 = Inr (started, s1)"
    and result: "(case started of Started_Inserted i \<Rightarrow> tx_return \<lparr>out_workflow_id = i, out_inserted = True\<rparr>
         | Started_Existing r \<Rightarrow> tx_return \<lparr>out_workflow_id = wf_id r, out_inserted = False\<rparr>) s1
       = (Inr (out, s') :: durable_error fault + _)"
    unfolding start_prepared_in_def insert_prepared_untraced_def
    by (auto simp: tx_bind_Inr tx_return_Inr row_def)
  have out: "started = Started_Inserted (out_workflow_id out)" and "s1 = s'"
    using result assms(2) by (cases started; auto simp: tx_return_Inr)+
  with start have ins: "insert_started (row now) s0 = Inr (started, s')" by simp
  from ins have "workflows s' = workflows s0 @ [(row now)\<lparr>wf_id := out_workflow_id out\<rparr>]"
    using out insert_started_Inserted by blast
  moreover have "out_workflow_id out = next_workflow_id s0"
    using ins out by (cases rule: insert_started_cases) (auto dest: insert_workflow_Inserted(1))
  ultimately show ?thesis using now by (auto simp: tx_simps row_def new_workflow_row_def)
qed

lemma fenced_update_dead:
  assumes "fenced (workflow_update (\<lambda>r. wf_id r = i \<and> wf_status r = st) f) s = Inr (u, s')"
    and "keys_ok s" and "\<And>r. wf_id (f r) = wf_id r \<and> ws_is_terminal (wf_status (f r))"
  shows "dead s' i"
proof -
  let ?P = "\<lambda>r. wf_id r = i \<and> wf_status r = st"
  from assms(1) have one: "length (filter ?P (workflows s)) = 1"
    and s': "workflows s' = map (\<lambda>r. if ?P r then f r else r) (workflows s)" by (auto simp: tx_simps)
  from one have "filter ?P (workflows s) \<noteq> []" by (metis list.size(3) zero_neq_one)
  then obtain r where r: "r \<in> set (workflows s)" "?P r" by (auto simp: filter_empty_conv)
  have "?P q" if "q \<in> set (workflows s)" "wf_id q = i" for q
    using workflow_unique [OF assms(2) that(1) r(1)] r(2) that(2) by simp
  then show ?thesis unfolding dead_def s' using assms(3) by auto
qed

lemma supersede_source_settled:
  assumes "supersede_source E w i op now s = Inr (u, s')" and "keys_ok s"
    and "\<not> ws_is_terminal (wf_status w)"
  shows "dead s' (wf_id w) \<and> settled s' (wf_id w) \<and> (\<forall>k. \<not> dead s k \<longrightarrow> dead s' k \<longrightarrow> settled s' k)"
proof -
  let ?P = "\<lambda>r. wf_id r = wf_id w \<and> wf_status r = wf_status w"
  let ?f = "\<lambda>r. workflow_lease_cleared (r\<lparr>wf_status := WS_Cancelled, wf_updated_at := now,
                                      wf_completed_at := Some now\<rparr>)"
  from assms(1) obtain s1 s2 s3 s4 s5 where
    c1: "cancel_activities (wf_id w) (op_reason op) AO_OperatorCancelled now s = Inr ((), s1)"
    and c2: "cancel_approvals (wf_id w) (op_reason op) now s1 = Inr ((), s2)"
    and upd: "fenced (workflow_update ?P ?f) s2 = Inr ((), s3)"
    and app: "append_operator_event i ''workflow_superseded_by_restart'' op now s3 = Inr ((), s4)"
    and wake: "wake_waiting_parents_on_child_terminal E w (Inl (''child_superseded'', op_reason op)) now s4
       = Inr ((), s5)"
    and desc: "cancel_owned_descendants E w (op_reason op) (Some (op_actor_id op)) now s5 = Inr (u, s')"
    unfolding supersede_source_def by (auto simp: tx_seq_Inr)
  have before: "ends_only (wf_id w) s s2"
    using only.trans guaranteesD [OF ends_only_statements(3) c1] guaranteesD [OF ends_only_statements(4) c2]
    by blast
  have "guarantees (ends_only (wf_id w)) (fenced (workflow_update ?P ?f))"
    using assms(3) by (intro ends_only_workflow_update)
      (auto simp: workflow_identity_def changes intro!: workflow_evolves_live)
  then have ended: "ends_only (wf_id w) s2 s3" using upd by (rule guaranteesD)
  have "guarantees (ends_only (wf_id w)) (append_operator_event i ''workflow_superseded_by_restart'' op now)"
    unfolding append_operator_event_def by (intro guar_intros)
  from guaranteesD [OF this app] guaranteesD [OF ends_only_wake wake]
  have after: "ends_only (wf_id w) s3 s5" by (rule only.trans)
  from before ended after have only5: "ends_only (wf_id w) s s5" by (blast intro: only.trans)
  then have keys5: "keys_ok s5" using assms(2) by (auto simp: ends_only_def intro: same_workflows_keys)
  have "dead s3 (wf_id w)"
    using fenced_update_dead [OF upd] before assms(2)
    by (auto simp: ends_only_def changes intro: same_workflows_keys)
  then have dead5: "dead s5 (wf_id w)"
    using after by (auto simp: ends_only_def intro: same_workflows_dead)
  from desc have "cancel_cascade E (Some (op_actor_id op)) now (Suc (length (workflows s5)))
      (Suc (length (workflows s5))) [(wf_id w, op_reason op)] s5 = Inr (u, s')"
    unfolding cancel_owned_descendants_def tx_bind_def tx_query_def by simp
  note casc = cancel_cascade_settled [OF this keys5]
  have "settled s' k" if "\<not> dead s k" "dead s' k" for k
    using casc that ends_only_dead [OF only5 that(1)] by (cases "dead s5 k") auto
  with casc dead5 show ?thesis by (auto intro: same_workflows_dead)
qed

lemma restart_cases:
  assumes "restart E R i correction op s = Inr (out, s')"
  obtains w prepared started s1 where "workflow_by_id s i = Some w" "is_restartable (wf_status w)"
    "successor_of s i = None" "start_prepared_in prepared (restart_options w i) s = Inr (started, s1)"
    "out_inserted started" "finish_restart E w i correction op (out_workflow_id started) s1 = Inr ((), s')"
    "wro_workflow_id out = out_workflow_id started" "wro_kind out = prep_kind prepared"
    "wro_version out = prep_version prepared"
proof -
  from assms obtain w where w: "workflow_by_id s i = Some w"
    by (auto simp: restart_def lock_workflow_def bind_query tx_bind_Inr tx_some_Inr tx_query_Inr)
  have id: "wf_id w = i" using by_id_found(1) [OF w] by simp
  have frame: "s2 = s1" if "check_prepared_start p options s1 = Inr (v, s2)" for p options s1 v s2
    using that by (auto simp: check_prepared_start_def tx_seq_Inr tx_lift_Inr)
  from assms w id obtain prepared s0 started s1 where
    "is_restartable (wf_status w)" "successor_of s i = None"
    "check_prepared_start prepared (restart_options w i) s = Inr ((), s0)"
    "start_prepared_in prepared (restart_options w i) s0 = Inr (started, s1)" "out_inserted started"
    "finish_restart E w i correction op (out_workflow_id started) s1 = Inr ((), s')"
    "out = \<lparr>wro_source_workflow_id = i, wro_workflow_id = out_workflow_id started,
                wro_kind = prep_kind prepared, wro_version = prep_version prepared\<rparr>"
    by (auto simp: restart_def lock_workflow_def Let_def bind_query tx_bind_Inr tx_seq_Inr tx_some_Inr
        tx_query_Inr tx_lift_Inr tx_fail_Inr tx_return_Inr split: if_splits)
  with w frame that show ?thesis by force
qed

lemma generation_of_rows:
  assumes "workflows s' = workflows s"
  shows "generation_of s' i k = generation_of s i k"
proof -
  have "generation_of a i k \<Longrightarrow> workflows a = workflows b \<Longrightarrow> generation_of b i k" for a b
    by (induction rule: generation_of.induct) (auto intro: generation_of.intros)
  with assms show ?thesis by metis
qed

lemma finish_restart_settled:
  assumes "finish_restart E w i correction op k s = Inr (u, s')" and "keys_ok s" and "wf_id w = i"
    and "w \<in> set (workflows s)"
  shows "dead s' i"
    and "\<not> ws_is_terminal (wf_status w) \<Longrightarrow>
      settled s' i \<and> (\<forall>j. \<not> dead s j \<longrightarrow> dead s' j \<longrightarrow> settled s' j)"
    and "ws_is_terminal (wf_status w) \<Longrightarrow> workflows s' = workflows s"
proof -
  from assms(1) obtain now s1 s2 s3 s4 ty where now: "database_now_millis s = Inr (now, s1)"
    and sup: "(if \<not> ws_is_terminal (wf_status w) then supersede_source E w i op now else tx_return ()) s1
      = Inr ((), s2)"
    and link: "(case wf_schedule_run_id w of None \<Rightarrow> tx_return ()
       | Some run \<Rightarrow> fenced (link_schedule_run (\<lambda>r. run_id r = run \<and> run_workflow_id r = Some (wf_id w))
                      k id)) s2 = Inr ((), s3)"
    and app: "append_operator_event i ty op now s3 = Inr ((), s4)"
      "append_operator_event k ''workflow_restart_created'' op now s4 = Inr (u, s')"
    unfolding finish_restart_def by (auto simp: tx_bind_Inr tx_seq_Inr)
  have s1: "workflows s1 = workflows s" "keys_ok s1"
    using now assms(2) by (auto simp: tx_simps keys_ok_def)
  have "workflows s3 = workflows s2"
    using link by (auto simp: tx_return_Inr link_schedule_run_def tx_simps split: option.splits if_splits)
  then have rows: "workflows s' = workflows s2"
    using append_operator_event_frame(1) [OF app(1)] append_operator_event_frame(1) [OF app(2)] by simp
  then have dead_same: "dead s' j = dead s2 j" for j by (simp add: dead_def)
  have settled_same: "settled s' j = settled s2 j" for j
    unfolding settled_def owned_children_def rows dead_same generation_of_rows [OF rows] ..
  have dead1: "dead s1 j = dead s j" for j by (simp add: dead_def s1)
  show "workflows s' = workflows s" if "ws_is_terminal (wf_status w)"
    using that sup s1 rows by (simp add: tx_return_Inr)
  have live: "dead s2 i \<and> settled s2 i \<and> (\<forall>j. \<not> dead s j \<longrightarrow> dead s2 j \<longrightarrow> settled s2 j)"
    if "\<not> ws_is_terminal (wf_status w)"
    using sup supersede_source_settled [OF _ s1(2) that] assms(3) that by (auto simp: dead1)
  then show "settled s' i \<and> (\<forall>j. \<not> dead s j \<longrightarrow> dead s' j \<longrightarrow> settled s' j)"
    if "\<not> ws_is_terminal (wf_status w)" using that by (simp add: dead_same settled_same)
  show "dead s' i"
  proof (cases "ws_is_terminal (wf_status w)")
    case True
    have "q = w" if "q \<in> set (workflows s)" "wf_id q = i" for q
      using workflow_unique [OF assms(2) that(1) assms(4)] assms(3) that(2) by simp
    with True have "dead s i" by (auto simp: dead_def)
    moreover have "s2 = s1" using True sup by (simp add: tx_return_Inr)
    ultimately show ?thesis by (simp add: dead_same dead1)
  qed (use live dead_same in simp)
qed

lemma restarted_once:
  assumes "r \<in> set (workflows s)" and "wf_restarted_from_workflow_id r = Some i" and "db_evolves s t"
  shows "isl (restart E R i correction op t)"
proof (rule ccontr)
  assume "\<not> ?thesis"
  then obtain out u where "restart E R i correction op t = Inr (out, u)" by (metis isl_def sum.exhaust surj_pair)
  then have "successor_of t i = None" by (rule restart_cases) auto
  moreover from assms rows_evolve_mem [of workflow_evolves "workflows s" "workflows t" r] obtain q where
    "q \<in> set (workflows t)" "wf_restarted_from_workflow_id q = Some i"
    by (auto simp: db_evolves_def workflow_evolves_def workflow_identity_def)
  ultimately show False by (auto simp: successor_of_def find_None_iff)
qed

lemma live_workflow:
  assumes "keys_ok s" and "w \<in> set (workflows s)" and "\<not> dead s (wf_id w)"
  shows "\<not> ws_is_terminal (wf_status w)"
  using assms workflow_unique [OF assms(1) _ assms(2)] by (fastforce simp: dead_def)

text \<open>
  C22: a restart leaves one successor and a terminal source (S19, S25). When it returns, the
  source could be restarted and had no successor; the new workflow names the source, its
  root and its schedule run and runs the definition the outcome says; the source is
  terminal; and whatever happens next, the same workflow cannot be restarted again. If the
  restart ended a live source, every generation of every child of it is terminal, and so is
  every generation of every child of each workflow that the restart ended on the way, level
  by level. If the source had ended before, the restart only adds the successor: no other
  workflow changes, so what its former generations left running keeps running.
\<close>

theorem restart_leaves_one_successor:
  assumes "restart E R i correction op s = Inr (out, s')" and "keys_ok s" and "db_evolves s' t"
  shows "(\<exists>w r. workflow_by_id s i = Some w \<and> is_restartable (wf_status w) \<and> successor_of s i = None \<and>
      r \<in> set (workflows s') \<and> wf_id r = wro_workflow_id out \<and> wf_kind r = wro_kind out \<and>
      wf_version r = wro_version out \<and> wf_restarted_from_workflow_id r = Some i \<and>
      wf_root_workflow_id r = Some (case wf_root_workflow_id w of None \<Rightarrow> i | Some root \<Rightarrow> root) \<and>
      wf_schedule_run_id r = wf_schedule_run_id w \<and> (dead s i \<longrightarrow> workflows s' = workflows s @ [r])) \<and>
    dead s' i \<and>
    (\<not> dead s i \<longrightarrow> settled s' i \<and> (\<forall>k. \<not> dead s k \<longrightarrow> dead s' k \<longrightarrow> settled s' k)) \<and>
    isl (restart E' R' i correction' op' t)"
  using assms(1)
proof (rule restart_cases)
  fix w prepared started s1
  assume w: "workflow_by_id s i = Some w" "is_restartable (wf_status w)" "successor_of s i = None"
    and start: "start_prepared_in prepared (restart_options w i) s = Inr (started, s1)" "out_inserted started"
    and fin: "finish_restart E w i correction op (out_workflow_id started) s1 = Inr ((), s')"
    and out: "wro_workflow_id out = out_workflow_id started" "wro_kind out = prep_kind prepared"
      "wro_version out = prep_version prepared"
  have id: "wf_id w = i" "w \<in> set (workflows s)" using by_id_found(1) [OF w(1)] by auto
  have no_key: "so_deduplication_key (restart_options w i) = None"
    by (simp add: restart_options_def restarted_def so_deduplication_key_def)
  from start_prepared_Inserted [OF start no_key] obtain r where
    r: "workflows s1 = workflows s @ [r]" "wf_id r = out_workflow_id started" "wf_kind r = prep_kind prepared"
      "wf_version r = prep_version prepared" "wf_schedule_run_id r = wf_schedule_run_id w"
      "wf_root_workflow_id r = Some (case wf_root_workflow_id w of None \<Rightarrow> i | Some root \<Rightarrow> root)"
      "wf_restarted_from_workflow_id r = Some i"
    by (auto simp: restart_options_def restarted_def so_root_workflow_id_def
        so_restarted_from_workflow_id_def id(1) cong: option.case_cong)
  have keys1: "keys_ok s1"
    using guaranteesD [OF evolves_start_prepared(1) start(1)] assms(2) by (rule db_evolves_keys)
  note fin' = finish_restart_settled [OF fin keys1 id(1)]
  have ev: "db_evolves s1 s'" using guaranteesD [OF evolves_finish_restart fin] .
  have "\<exists>r' \<in> set (workflows s'). workflow_identity r' = workflow_identity r \<and>
      (dead s i \<longrightarrow> workflows s' = workflows s @ [r'])"
  proof (cases "dead s i")
    case True
    then have "workflows s' = workflows s @ [r]" using fin'(3) id r(1) by (simp add: dead_def)
    then show ?thesis by simp
  next
    case False
    with ev r(1) rows_evolve_mem [of workflow_evolves "workflows s1" "workflows s'" r] show ?thesis
      by (auto simp: db_evolves_def workflow_evolves_def)
  qed
  then obtain r' where r': "r' \<in> set (workflows s')" "workflow_identity r' = workflow_identity r"
    "dead s i \<longrightarrow> workflows s' = workflows s @ [r']" by blast
  have "isl (restart E' R' i correction' op' t)"
    using r(1,7) by (intro restarted_once [OF _ _ evolution.trans [OF ev assms(3)]]) auto
  moreover have "dead s' i" using fin'(1) id(2) r(1) by simp
  moreover have "\<not> dead s1 k" if "\<not> dead s k" for k using that r(1) by (auto simp: dead_def)
  then have "settled s' i \<and> (\<forall>k. \<not> dead s k \<longrightarrow> dead s' k \<longrightarrow> settled s' k)" if "\<not> dead s i"
    using live_workflow [OF assms(2) id(2)] that fin'(2) id r(1) by auto
  moreover have "wf_id r' = wro_workflow_id out \<and> wf_kind r' = wro_kind out \<and>
      wf_version r' = wro_version out \<and> wf_restarted_from_workflow_id r' = Some i \<and>
      wf_root_workflow_id r' = Some (case wf_root_workflow_id w of None \<Rightarrow> i | Some root \<Rightarrow> root) \<and>
      wf_schedule_run_id r' = wf_schedule_run_id w"
    using r r'(2) out by (simp add: workflow_identity_def)
  ultimately show ?thesis using w r'(1,3) by blast
qed

theorem restart_leaves_one_successor_witness:
  "(let s' = snd (projr (restart sample_externals sample_registry 1 None sample_operator
        (sample_db\<lparr>workflows := [sample_parent\<lparr>wf_status := WS_Paused\<rparr>, sample_child]\<rparr>)))
    in dead s' 1 \<and> settled s' 1 \<and> dead s' 2 \<and> settled s' 2 \<and>
       isl (restart sample_externals sample_registry 1 None sample_operator s')) \<and>
   (\<exists>r. workflows (snd (projr (restart sample_externals sample_registry 1 None sample_operator
        (sample_db\<lparr>workflows := [sample_parent\<lparr>wf_status := WS_Succeeded\<rparr>, sample_child]\<rparr>)))) =
      [sample_parent\<lparr>wf_status := WS_Succeeded\<rparr>, sample_child, r])"
proof -
  let ?s = "\<lambda>st. sample_db\<lparr>workflows := [sample_parent\<lparr>wf_status := st\<rparr>, sample_child]\<rparr>"
  let ?x = "\<lambda>st. restart sample_externals sample_registry 1 None sample_operator (?s st)"
  have "\<not> isl (?x WS_Paused)" "\<not> isl (?x WS_Succeeded)" by code_simp+
  note x = this [THEN returned]
  have keys: "keys_ok (?s st)" for st by (auto simp: keys_defs sample_defs child_key_def)
  have live: "\<not> dead (?s WS_Paused) 1" "\<not> dead (?s WS_Paused) 2" "dead (?s WS_Succeeded) 1"
    by (simp_all add: dead_def sample_defs)
  have child: "dead (snd (projr (?x WS_Paused))) 2" unfolding dead_def by code_simp
  have "\<exists>r. workflows (snd (projr (?x WS_Succeeded))) = workflows (?s WS_Succeeded) @ [r]"
    using restart_leaves_one_successor [OF x(2) keys evolution.refl] live(3) by blast
  moreover have "settled (snd (projr (?x WS_Paused))) 2"
    using restart_leaves_one_successor [OF x(1) keys evolution.refl] live(1,2) child by blast
  ultimately show ?thesis
    using restart_leaves_one_successor [OF x(1) keys evolution.refl] live(1) child by simp
qed

end
