(* ===== verification/Schedule_Calendar.thy ===== *)
theory Schedule_Calendar
  imports Registry
begin

text \<open>
  Schedule calendars (\<open>src/schedule.rs\<close>, \<open>src/schedule/cursor.rs\<close>): the next occurrence of a
  cron expression in a time zone, with the local times a zone skips or repeats.

  A local wall-clock time (\<open>NaiveDateTime\<close>) is a number of nanoseconds, an instant a number
  of milliseconds. The libraries are parameters: \<open>cal_after\<close> is the next time of the cron
  expression, \<open>cal_local\<close> and \<open>cal_naive\<close> are the zone's conversions, and \<open>chrono\<close> holds the text
  form of a local time and the range of the type. Loops that only the libraries bound are
  partial functions: \<open>None\<close> is a loop that does not end.
\<close>

section \<open>Policies and metadata\<close>

definition MAX_SCHEDULE_KEY_BYTES :: nat where
  "MAX_SCHEDULE_KEY_BYTES = 191"

definition MAX_GAP_SCAN_SECONDS :: int where
  "MAX_GAP_SCAN_SECONDS = 86400"

definition MAX_CATCH_UP_OCCURRENCES :: u32 where
  "MAX_CATCH_UP_OCCURRENCES = 100"

datatype misfire_policy = Misfire_Skip | RunLatest | CatchUp u32

datatype overlap_policy = Allow | SkipIfActive | QueueOne

datatype local_time_disposition = Exact | Gap | AmbiguousEarlier

type_synonym naive = int

record schedule_occurrence =
  oc_local_datetime :: naive
  oc_local_occurrence :: string
  oc_scheduled_for :: i64
  oc_due_at :: i64
  oc_disposition :: local_time_disposition

datatype local_result = LR_Single i64 | LR_Ambiguous i64 i64 | LR_None

record calendar =
  cal_after :: "naive \<Rightarrow> naive option"
  cal_local :: "naive \<Rightarrow> local_result"
  cal_naive :: "i64 \<Rightarrow> naive"
  cal_timezone :: string

record chrono =
  ch_format :: "naive \<Rightarrow> string"
  ch_parse :: "string \<Rightarrow> string + naive"
  ch_in_range :: "naive \<Rightarrow> bool"
  ch_instant_in_range :: "i64 \<Rightarrow> bool"

abbreviation second :: int where
  "second \<equiv> 1000000000"

section \<open>Local occurrences\<close>

text \<open>\<open>LocalOccurrence::new\<close> drops the part below a second.\<close>

definition LocalOccurrence_new :: "naive \<Rightarrow> naive" where
  "LocalOccurrence_new t = t - t mod second"

definition LocalOccurrence_to_string :: "chrono \<Rightarrow> naive \<Rightarrow> string" where
  "LocalOccurrence_to_string K l = ch_format K l"

definition LocalOccurrence_from_str :: "chrono \<Rightarrow> string \<Rightarrow> string + naive" where
  "LocalOccurrence_from_str K t = ch_parse K t"

definition oc_local :: "schedule_occurrence \<Rightarrow> naive" where
  "oc_local occurrence = LocalOccurrence_new (oc_local_datetime occurrence)"

definition occurrence ::
    "naive \<Rightarrow> string \<Rightarrow> i64 \<Rightarrow> local_time_disposition \<Rightarrow> schedule_occurrence" where
  "occurrence local_datetime local_occurrence scheduled_for disposition =
     \<lparr>oc_local_datetime = local_datetime, oc_local_occurrence = local_occurrence,
      oc_scheduled_for = scheduled_for, oc_due_at = scheduled_for, oc_disposition = disposition\<rparr>"

section \<open>Resolving a local time\<close>

text \<open>The scan for the end of a gap, second by second, up to a day or the end of the range.\<close>

function gap_scan :: "chrono \<Rightarrow> calendar \<Rightarrow> naive \<Rightarrow> int \<Rightarrow> i64 option" where
  "gap_scan K C local_datetime offset =
     (if offset > MAX_GAP_SCAN_SECONDS then None
      else
        let probe = local_datetime + offset * second in
        if \<not> ch_in_range K probe then None
        else
          (case cal_local C probe of
             LR_Single instant \<Rightarrow> Some instant
           | _ \<Rightarrow> gap_scan K C local_datetime (offset + 1)))"
  by pat_completeness auto
termination
  by (relation "measure (\<lambda>(K, C, t, offset). nat (MAX_GAP_SCAN_SECONDS + 1 - offset))")
    (auto simp: MAX_GAP_SCAN_SECONDS_def)

declare gap_scan.simps [simp del]

definition resolve :: "chrono \<Rightarrow> calendar \<Rightarrow> naive \<Rightarrow> durable_error + schedule_occurrence" where
  "resolve K C local_datetime =
     (let local_occurrence = LocalOccurrence_to_string K (LocalOccurrence_new local_datetime) in
      case cal_local C local_datetime of
        LR_Single instant \<Rightarrow> Inr (occurrence local_datetime local_occurrence instant Exact)
      | LR_Ambiguous first second_pass \<Rightarrow>
          Inr (occurrence local_datetime local_occurrence (min first second_pass) AmbiguousEarlier)
      | LR_None \<Rightarrow>
          (case gap_scan K C local_datetime 1 of
             Some instant \<Rightarrow> Inr (occurrence local_datetime local_occurrence instant Gap)
           | None \<Rightarrow> Inl (InvalidDefinition (''timezone '' @ cal_timezone C @
               '' has a local-time gap longer than the supported bound''))))"

definition occurrence_at_local :: "chrono \<Rightarrow> calendar \<Rightarrow> naive \<Rightarrow> durable_error + schedule_occurrence" where
  "occurrence_at_local K C local_datetime = resolve K C local_datetime"

definition next_after_local :: "chrono \<Rightarrow> calendar \<Rightarrow> naive \<Rightarrow> durable_error + schedule_occurrence" where
  "next_after_local K C after =
     (case cal_after C after of
        None \<Rightarrow> Inl (InvalidDefinition ''schedule has no next occurrence'')
      | Some candidate \<Rightarrow> resolve K C candidate)"

lemma mono_case_sum [partial_function_mono]:
  assumes "\<And>x. mono_option (\<lambda>f. F f x)" and "\<And>y. mono_option (\<lambda>f. G f y)"
  shows "mono_option (\<lambda>f. case q of Inl x \<Rightarrow> F f x | Inr y \<Rightarrow> G f y)"
  using assms by (cases q) auto

text \<open>The first occurrence after an instant: earlier passes of a repeated hour are skipped.\<close>

partial_function (option) next_after_loop ::
    "chrono \<Rightarrow> calendar \<Rightarrow> i64 \<Rightarrow> durable_error + schedule_occurrence \<Rightarrow>
     (durable_error + schedule_occurrence) option" where
  [code]: "next_after_loop K C after_millis candidate =
     (case candidate of
        Inl e \<Rightarrow> Some (Inl e)
      | Inr found \<Rightarrow>
          if oc_scheduled_for found \<le> after_millis
          then next_after_loop K C after_millis (next_after_local K C (oc_local_datetime found))
          else Some (Inr found))"

definition next_after ::
    "chrono \<Rightarrow> calendar \<Rightarrow> i64 \<Rightarrow> (durable_error + schedule_occurrence) option" where
  "next_after K C after_millis =
     next_after_loop K C after_millis (next_after_local K C (cal_naive C after_millis))"

text \<open>The first occurrence that is not in a gap and due by \<open>through\<close>; a gap is left at its end.\<close>

partial_function (option) next_runnable_loop ::
    "chrono \<Rightarrow> calendar \<Rightarrow> i64 \<Rightarrow> durable_error + schedule_occurrence \<Rightarrow>
     (durable_error + schedule_occurrence option) option" where
  [code]: "next_runnable_loop K C through candidate =
     (case candidate of
        Inl e \<Rightarrow> Some (Inl e)
      | Inr found \<Rightarrow>
          if oc_due_at found \<le> through then
            if oc_disposition found \<noteq> Gap then Some (Inr (Some found))
            else if \<not> ch_instant_in_range K (oc_due_at found)
            then Some (Inl (InvalidState ''invalid gap timestamp''))
            else
              let before_gap_end = cal_naive C (oc_due_at found) - second in
              if \<not> ch_in_range K before_gap_end
              then Some (Inl (InvalidState ''gap timestamp underflow''))
              else next_runnable_loop K C through (next_after_local K C before_gap_end)
          else Some (Inr None))"

definition next_runnable_through ::
    "chrono \<Rightarrow> calendar \<Rightarrow> naive \<Rightarrow> i64 \<Rightarrow> (durable_error + schedule_occurrence option) option" where
  "next_runnable_through K C after through =
     next_runnable_loop K C through (next_after_local K C after)"

end
