(* ===== verification/Schedule_Plan.thy ===== *)
theory Schedule_Plan
  imports Schedule_Calendar
begin

text \<open>
  Which due occurrences of a schedule start (\<open>plan_due_chunk\<close> and \<open>classify\<close> of
  \<open>src/runtime/schedule_materializer.rs\<close>). A tick looks at a bounded chunk of what is due; the
  misfire policy is about all of it. The theorems say that the chunks add up to the plan of
  the whole backlog.
\<close>

section \<open>The plan of a chunk\<close>

definition MAX_DUE_OCCURRENCES_PER_TICK :: int where
  "MAX_DUE_OCCURRENCES_PER_TICK = 10000"

datatype occurrence_outcome = Occ_Start | Occ_Skip string | Occ_Coalesce

function due_loop ::
    "chrono \<Rightarrow> calendar \<Rightarrow> db_millis \<Rightarrow> schedule_occurrence list \<Rightarrow> schedule_occurrence \<Rightarrow>
     durable_error + schedule_occurrence list \<times> schedule_occurrence" where
  "due_loop K C now due occ =
     (if oc_due_at occ \<le> now \<and> int (length due) < MAX_DUE_OCCURRENCES_PER_TICK
      then
        (case next_after_local K C (oc_local_datetime occ) of
           Inl e \<Rightarrow> Inl e
         | Inr following \<Rightarrow> due_loop K C now (due @ [occ]) following)
      else Inr (due, occ))"
  by pat_completeness auto
termination
  by (relation "measure (\<lambda>(K, C, now, due, occ). nat (MAX_DUE_OCCURRENCES_PER_TICK - int (length due)))")
    auto

declare due_loop.simps [simp del]

definition misfire_budget :: "misfire_policy \<Rightarrow> u32" where
  "misfire_budget policy =
     (case policy of Misfire_Skip \<Rightarrow> 0 | RunLatest \<Rightarrow> 1 | CatchUp max_occurrences \<Rightarrow> max_occurrences)"

fun count_following ::
    "chrono \<Rightarrow> calendar \<Rightarrow> i64 \<Rightarrow> nat \<Rightarrow> naive \<Rightarrow> (durable_error + nat) option" where
  "count_following K C through 0 after = Some (Inr 0)"
| "count_following K C through (Suc budget) after =
     (case next_runnable_through K C after through of
        None \<Rightarrow> None
      | Some (Inl e) \<Rightarrow> Some (Inl e)
      | Some (Inr None) \<Rightarrow> Some (Inr 0)
      | Some (Inr (Some found)) \<Rightarrow>
          map_option (map_sum id Suc) (count_following K C through budget (oc_local_datetime found)))"

definition runnable_indices :: "schedule_occurrence list \<Rightarrow> nat list" where
  "runnable_indices due = filter (\<lambda>i. oc_disposition (due ! i) \<noteq> Gap) [0..<length due]"

definition set_outcomes ::
    "(nat \<Rightarrow> occurrence_outcome) \<Rightarrow> nat list \<Rightarrow> occurrence_outcome list \<Rightarrow> occurrence_outcome list" where
  "set_outcomes f indices outcomes = fold (\<lambda>i os. os[i := f i]) indices outcomes"

definition classify ::
    "schedule_occurrence list \<Rightarrow> misfire_policy \<Rightarrow> i64 \<Rightarrow> db_millis \<Rightarrow> nat \<Rightarrow> occurrence_outcome list" where
  "classify due policy grace_millis now following_runnable =
     (let outcomes = replicate (length due) (Occ_Skip ''dst_gap'');
          runnable = runnable_indices due in
      case policy of
        Misfire_Skip \<Rightarrow>
          set_outcomes (\<lambda>i. if saturating_add 64 (oc_due_at (due ! i)) grace_millis < now
                            then Occ_Skip ''misfire_skip'' else Occ_Start) runnable outcomes
      | RunLatest \<Rightarrow>
          if runnable = [] then outcomes
          else set_outcomes (\<lambda>_. Occ_Coalesce) (butlast runnable)
                 (outcomes[last runnable := if following_runnable = 0 then Occ_Start else Occ_Coalesce])
      | CatchUp max_occurrences \<Rightarrow>
          let start_count = min (nat max_occurrences - following_runnable) (length runnable);
              split = length runnable - start_count in
          set_outcomes (\<lambda>_. Occ_Start) (drop split runnable)
            (set_outcomes (\<lambda>_. Occ_Skip ''catch_up_limit'') (take split runnable) outcomes))"

definition plan_due_chunk ::
    "chrono \<Rightarrow> calendar \<Rightarrow> schedule_occurrence \<Rightarrow> misfire_policy \<Rightarrow> i64 \<Rightarrow> db_millis \<Rightarrow>
     (durable_error + schedule_occurrence list \<times> schedule_occurrence \<times> occurrence_outcome list) option" where
  "plan_due_chunk K C occ policy grace_millis now =
     (case due_loop K C now [] occ of
        Inl e \<Rightarrow> Some (Inl e)
      | Inr (due, following) \<Rightarrow>
          (case (if oc_due_at following \<le> now \<and> due \<noteq> []
                 then count_following K C now (nat (misfire_budget policy)) (oc_local_datetime (last due))
                 else Some (Inr 0)) of
             None \<Rightarrow> None
           | Some (Inl e) \<Rightarrow> Some (Inl e)
           | Some (Inr following_runnable) \<Rightarrow>
               Some (Inr (due, following, classify due policy grace_millis now following_runnable))))"

section \<open>The misfire policies, occurrence by occurrence\<close>

text \<open>
  The outcome of one occurrence, given how many runnable ones follow it (S28): an
  occurrence in a gap never runs; \<open>Skip\<close> starts what is within its grace, \<open>RunLatest\<close> the last
  one, and \<open>CatchUp n\<close> the last \<open>n\<close>.
\<close>

definition outcome_of ::
    "misfire_policy \<Rightarrow> i64 \<Rightarrow> db_millis \<Rightarrow> nat \<Rightarrow> schedule_occurrence \<Rightarrow> occurrence_outcome" where
  "outcome_of policy grace now later occ =
     (if oc_disposition occ = Gap then Occ_Skip ''dst_gap''
      else
        (case policy of
           Misfire_Skip \<Rightarrow> if saturating_add 64 (oc_due_at occ) grace < now
                           then Occ_Skip ''misfire_skip'' else Occ_Start
         | RunLatest \<Rightarrow> if later = 0 then Occ_Start else Occ_Coalesce
         | CatchUp n \<Rightarrow> if later < nat n then Occ_Start else Occ_Skip ''catch_up_limit''))"

definition runnable_count :: "schedule_occurrence list \<Rightarrow> nat" where
  "runnable_count due = length (filter (\<lambda>x. oc_disposition x \<noteq> Gap) due)"

fun planned ::
    "misfire_policy \<Rightarrow> i64 \<Rightarrow> db_millis \<Rightarrow> nat \<Rightarrow> schedule_occurrence list \<Rightarrow> occurrence_outcome list" where
  "planned policy grace now later [] = []"
| "planned policy grace now later (x # xs) =
     outcome_of policy grace now (later + runnable_count xs) x # planned policy grace now later xs"

lemma length_planned [simp]: "length (planned policy grace now later xs) = length xs"
  by (induction xs) auto

lemma runnable_count_simps [simp]:
  "runnable_count [] = 0"
  "runnable_count (x # xs) = (if oc_disposition x = Gap then 0 else 1) + runnable_count xs"
  "runnable_count (xs @ ys) = runnable_count xs + runnable_count ys"
  by (auto simp: runnable_count_def)

lemma planned_append:
  "planned policy grace now later (xs @ ys) =
   planned policy grace now (later + runnable_count ys) xs @ planned policy grace now later ys"
  by (induction xs) (auto simp: ac_simps)

text \<open>Beyond the budget of the policy it does not matter how many follow.\<close>

lemma outcome_of_budget:
  assumes "nat (misfire_budget policy) \<le> later"
  shows "outcome_of policy grace now (later + k) x = outcome_of policy grace now (nat (misfire_budget policy) + k) x"
  using assms by (cases policy) (simp_all add: outcome_of_def misfire_budget_def)

lemma planned_budget:
  "planned policy grace now (min (nat (misfire_budget policy)) later) xs = planned policy grace now later xs"
proof (cases "nat (misfire_budget policy) \<le> later")
  case True
  then show ?thesis by (induction xs) (simp_all add: outcome_of_budget [OF True])
qed (simp add: min_def)

section \<open>\<open>classify\<close> is the plan\<close>

lemma runnable_indices_simps [simp]:
  "runnable_indices [] = []"
  "runnable_indices (x # xs) =
     (if oc_disposition x = Gap then [] else [0]) @ map Suc (runnable_indices xs)"
proof -
  have "[0..<length (x # xs)] = 0 # map Suc [0..<length xs]"
    by (simp add: map_Suc_upt upt_conv_Cons del: upt_Suc)
  then show "runnable_indices (x # xs) =
     (if oc_disposition x = Gap then [] else [0]) @ map Suc (runnable_indices xs)"
    by (simp add: runnable_indices_def filter_map o_def del: upt_Suc)
qed (simp add: runnable_indices_def)

lemma length_runnable_indices [simp]: "length (runnable_indices xs) = runnable_count xs"
  by (induction xs) auto

lemma set_outcomes_simps [simp]:
  "set_outcomes f [] os = os"
  "set_outcomes f (i # is) os = set_outcomes f is (os[i := f i])"
  by (simp_all add: set_outcomes_def)

lemma set_outcomes_Suc [simp]:
  "set_outcomes f (map Suc is) (x # os) = x # set_outcomes (\<lambda>i. f (Suc i)) is os"
  by (induction "is" arbitrary: os) auto

lemma classify_Nil [simp]: "classify [] policy grace now f = []"
  by (cases policy) (auto simp: classify_def Let_def)

lemma classify_Cons:
  "classify (x # xs) policy grace now f =
   outcome_of policy grace now (f + runnable_count xs) x # classify xs policy grace now f"
proof (cases policy)
  case Misfire_Skip
  then show ?thesis by (simp add: classify_def outcome_of_def)
next
  case RunLatest
  have "runnable_indices xs = [] \<longleftrightarrow> runnable_count xs = 0"
    by (metis length_0_conv length_runnable_indices)
  then show ?thesis using RunLatest
    by (auto simp: classify_def outcome_of_def last_map map_butlast [symmetric] Let_def)
next
  case (CatchUp n)
  let ?r = "runnable_indices xs"
  define split where "split = runnable_count xs - min (nat n - f) (runnable_count xs)"
  have first: "Suc (runnable_count xs) - min (nat n - f) (Suc (runnable_count xs)) =
      (if f + runnable_count xs < nat n then 0 else Suc split)"
    unfolding split_def min_def by auto
  have all: "split = 0" if "f + runnable_count xs < nat n"
    using that unfolding split_def min_def by auto
  show ?thesis
  proof (cases "oc_disposition x = Gap")
    case True
    with CatchUp show ?thesis
      by (simp add: classify_def outcome_of_def Let_def take_map drop_map)
  next
    case False
    with CatchUp show ?thesis
      by (cases "f + runnable_count xs < nat n")
        (simp_all only: classify_def outcome_of_def Let_def take_map drop_map first all
          runnable_indices_simps if_False if_True misfire_policy.case length_runnable_indices
          append.simps length_map list.size length_append split_def [symmetric] take_0 drop_0
          take_Suc_Cons drop_Suc_Cons set_outcomes_simps set_outcomes_Suc replicate.simps list_update_code add_Suc_right add_0_right)
  qed
qed

lemma classify_planned: "classify due policy grace now f = planned policy grace now f due"
  by (induction due) (simp_all add: classify_Cons)

section \<open>What the calendar libraries promise\<close>

text \<open>
  The laws of the libraries the planner relies on: the next time of a cron expression is
  later, in whole seconds and in range, and it is the next one for every start between; the
  range of local times has no holes; an unambiguous local time is the local time of its instant;
  and between a skipped local time and the first unambiguous one after it every second is
  skipped.
\<close>

definition whole :: "naive \<Rightarrow> bool" where
  "whole t \<longleftrightarrow> t mod second = 0"

definition calendar_ok :: "chrono \<Rightarrow> calendar \<Rightarrow> bool" where
  "calendar_ok K C \<longleftrightarrow>
     (\<forall>t u. cal_after C t = Some u \<longrightarrow> t < u \<and> whole u \<and> ch_in_range K u) \<and>
     (\<forall>t u v. cal_after C t = Some u \<longrightarrow> t \<le> v \<longrightarrow> v < u \<longrightarrow> cal_after C v = Some u) \<and>
     (\<forall>t u v. ch_in_range K t \<longrightarrow> ch_in_range K u \<longrightarrow> t \<le> v \<longrightarrow> v \<le> u \<longrightarrow> ch_in_range K v) \<and>
     (\<forall>t i. whole t \<longrightarrow> cal_local C t = LR_Single i \<longrightarrow> cal_naive C i = t \<and> ch_instant_in_range K i) \<and>
     (\<forall>t n. whole t \<longrightarrow> cal_local C t = LR_None \<longrightarrow>
        (\<forall>m\<in>{1..n}. \<forall>i. cal_local C (t + m * second) \<noteq> LR_Single i) \<longrightarrow>
        (\<forall>m\<in>{1..n}. cal_local C (t + m * second) = LR_None))"

lemma calendar_after:
  assumes "calendar_ok K C" and "cal_after C t = Some u"
  shows "t < u" and "whole u" and "ch_in_range K u"
  using assms unfolding calendar_ok_def by blast+

lemma calendar_between:
  assumes "calendar_ok K C" and "cal_after C t = Some u" and "t \<le> v" and "v < u"
  shows "cal_after C v = Some u"
  using assms unfolding calendar_ok_def by blast

lemma calendar_range:
  assumes "calendar_ok K C" and "ch_in_range K t" and "ch_in_range K u" and "t \<le> v" and "v \<le> u"
  shows "ch_in_range K v"
  using assms unfolding calendar_ok_def by blast

lemma calendar_single:
  assumes "calendar_ok K C" and "whole t" and "cal_local C t = LR_Single i"
  shows "cal_naive C i = t" and "ch_instant_in_range K i"
  using assms unfolding calendar_ok_def by blast+

lemma calendar_gap:
  assumes "calendar_ok K C" and "whole t" and "cal_local C t = LR_None"
    and "\<forall>m\<in>{1..n}. \<forall>i. cal_local C (t + m * second) \<noteq> LR_Single i" and "m \<in> {1..n}"
  shows "cal_local C (t + m * second) = LR_None"
  using assms unfolding calendar_ok_def by blast

lemma whole_add [simp]: "whole (t + m * second) \<longleftrightarrow> whole t"
  by (simp add: whole_def)

text \<open>The scan finds the first unambiguous second.\<close>

definition first_single :: "chrono \<Rightarrow> calendar \<Rightarrow> naive \<Rightarrow> int \<Rightarrow> int \<Rightarrow> i64 \<Rightarrow> bool" where
  "first_single K C t k m i \<longleftrightarrow>
     k \<le> m \<and> m \<le> MAX_GAP_SCAN_SECONDS \<and> cal_local C (t + m * second) = LR_Single i \<and>
     (\<forall>j\<in>{k..m}. ch_in_range K (t + j * second)) \<and>
     (\<forall>j\<in>{k..m - 1}. \<forall>i. cal_local C (t + j * second) \<noteq> LR_Single i)"

lemma first_single_here:
  assumes "cal_local C (t + k * second) = LR_Single found" and "k \<le> MAX_GAP_SCAN_SECONDS"
    and "ch_in_range K (t + k * second)"
  shows "first_single K C t k m i \<longleftrightarrow> m = k \<and> i = found"
proof (cases "m = k")
  case False
  then have "k \<in> {k..m - 1}" if "k \<le> m" using that by simp
  with False show ?thesis using assms(1) unfolding first_single_def by blast
qed (use assms in \<open>auto simp: first_single_def\<close>)

lemma first_single_later:
  assumes "\<forall>i. cal_local C (t + k * second) \<noteq> LR_Single i" and "ch_in_range K (t + k * second)"
  shows "first_single K C t k m i \<longleftrightarrow> first_single K C t (k + 1) m i"
proof (cases "k < m")
  case True
  then have "{k..m} = insert k {k + 1..m}" and "{k..m - 1} = insert k {k + 1..m - 1}" by auto
  with True assms show ?thesis unfolding first_single_def by simp
next
  case False
  then show ?thesis using assms(1) unfolding first_single_def by (cases "m = k") auto
qed

lemma gap_scan_Some: "gap_scan K C t k = Some i \<longleftrightarrow> (\<exists>m. first_single K C t k m i)"
proof (induction K C t k rule: gap_scan.induct)
  case (1 K C t k)
  show ?case
  proof (cases "k > MAX_GAP_SCAN_SECONDS \<or> \<not> ch_in_range K (t + k * second)")
    case True
    then have "gap_scan K C t k = None" by (subst gap_scan.simps) (auto simp: Let_def)
    moreover have "\<not> first_single K C t k m i" for m
      using True by (cases "k \<le> m") (auto simp: first_single_def)
    ultimately show ?thesis by simp
  next
    case inside: False
    show ?thesis
    proof (cases "\<exists>i. cal_local C (t + k * second) = LR_Single i")
      case True
      then obtain found where found: "cal_local C (t + k * second) = LR_Single found" by blast
      with inside have "gap_scan K C t k = Some found" by (subst gap_scan.simps) simp
      with found inside show ?thesis by (auto simp: first_single_here)
    next
      case none: False
      then have "gap_scan K C t k = gap_scan K C t (k + 1)"
        using inside by (subst gap_scan.simps) (auto split: local_result.split)
      moreover have "gap_scan K C t (k + 1) = Some i \<longleftrightarrow> (\<exists>m. first_single K C t (k + 1) m i)"
        using none inside by (cases "cal_local C (t + k * second)") (auto simp: 1(1) [OF _ refl] 1(2) [OF _ refl])
      ultimately show ?thesis using none inside by (simp add: first_single_later)
    qed
  qed
qed

section \<open>A gap and what lies in it\<close>

text \<open>All the seconds a zone skips resolve to the end of the gap.\<close>

lemma gap_shift:
  assumes ok: "calendar_ok K C" and "whole t" and none: "cal_local C t = LR_None"
    and first: "first_single K C t 1 m i" and "whole u" and "t \<le> u" and "u < t + m * second"
  shows "cal_local C u = LR_None" and "gap_scan K C u 1 = Some i" and "cal_naive C i = t + m * second"
proof -
  have "second dvd u - t"
    using assms(2,5) by (intro dvd_diff) (simp_all add: whole_def mod_eq_0_iff_dvd)
  then obtain d where "u - t = second * d" by (rule dvdE)
  then have u: "u = t + d * second" by simp
  have d: "0 \<le> d" "d < m" using assms(6,7) u by auto
  have no: "\<forall>j\<in>{1..m - 1}. \<forall>i. cal_local C (t + j * second) \<noteq> LR_Single i"
    using first by (simp add: first_single_def)
  show "cal_local C u = LR_None"
  proof (cases "d = 0")
    case False
    with d u show ?thesis using calendar_gap [OF ok \<open>whole t\<close> none no, of d] by simp
  qed (use u none in simp)
  have shift: "u + j * second = t + (j + d) * second" for j by (simp add: u algebra_simps)
  have "first_single K C u 1 (m - d) i"
    unfolding first_single_def shift using first d
    by (auto simp: first_single_def simp del: distrib_right_numeral)
  then show "gap_scan K C u 1 = Some i" by (auto simp: gap_scan_Some)
  show "cal_naive C i = t + m * second"
    using calendar_single(1) [OF ok, of "t + m * second" i] assms(2) first
    by (simp add: first_single_def)
qed

section \<open>Everything that is due\<close>

inductive due_chain ::
    "chrono \<Rightarrow> calendar \<Rightarrow> db_millis \<Rightarrow> schedule_occurrence \<Rightarrow> schedule_occurrence list \<Rightarrow>
     schedule_occurrence \<Rightarrow> bool" for K C now where
  due_done: "\<not> oc_due_at occ \<le> now \<Longrightarrow> due_chain K C now occ [] occ"
| due_more: "\<lbrakk>oc_due_at occ \<le> now; next_after_local K C (oc_local_datetime occ) = Inr following;
    due_chain K C now following rest stop\<rbrakk> \<Longrightarrow> due_chain K C now occ (occ # rest) stop"

inductive_cases due_chain_NilE: "due_chain K C now occ [] stop"
inductive_cases due_chain_ConsE: "due_chain K C now occ (x # rest) stop"

definition resolved :: "chrono \<Rightarrow> calendar \<Rightarrow> schedule_occurrence \<Rightarrow> bool" where
  "resolved K C occ \<longleftrightarrow>
     resolve K C (oc_local_datetime occ) = Inr occ \<and> whole (oc_local_datetime occ) \<and>
     ch_in_range K (oc_local_datetime occ)"

lemma resolve_local: "resolve K C t = Inr occ \<Longrightarrow> oc_local_datetime occ = t"
  by (auto simp: resolve_def occurrence_def Let_def split: local_result.splits option.splits)

lemma next_resolved:
  assumes "calendar_ok K C" and "next_after_local K C t = Inr occ"
  shows "resolved K C occ" and "cal_after C t = Some (oc_local_datetime occ)" and "t < oc_local_datetime occ"
proof -
  obtain u where u: "cal_after C t = Some u" "resolve K C u = Inr occ"
    using assms(2) by (auto simp: next_after_local_def split: option.splits)
  with calendar_after [OF assms(1) u(1)] resolve_local [OF u(2)]
  show "resolved K C occ" and "cal_after C t = Some (oc_local_datetime occ)" and "t < oc_local_datetime occ"
    by (auto simp: resolved_def)
qed

lemma resolve_gap:
  assumes "resolve K C t = Inr occ" and "oc_disposition occ = Gap"
  shows "cal_local C t = LR_None" and "gap_scan K C t 1 = Some (oc_due_at occ)"
  using assms by (auto simp: resolve_def occurrence_def Let_def split: local_result.splits option.splits)

lemma resolve_in_gap:
  assumes "resolve K C t = Inr occ" and "cal_local C t = LR_None" and "gap_scan K C t 1 = Some i"
  shows "oc_due_at occ = i" and "oc_disposition occ = Gap"
  using assms by (auto simp: resolve_def occurrence_def Let_def)

lemma gap_resolved:
  assumes "resolved K C occ" and "oc_disposition occ = Gap"
  obtains m where "cal_local C (oc_local_datetime occ) = LR_None"
    and "first_single K C (oc_local_datetime occ) 1 m (oc_due_at occ)"
  using assms resolve_gap [of K C "oc_local_datetime occ" occ] that
  by (auto simp: resolved_def gap_scan_Some)

text \<open>The scan that jumps to the end of a gap finds the next runnable occurrence of the chain.\<close>

lemma runnable_at [simp]:
  "\<lbrakk>oc_due_at occ \<le> now; oc_disposition occ \<noteq> Gap\<rbrakk> \<Longrightarrow>
     next_runnable_loop K C now (Inr occ) = Some (Inr (Some occ))"
  "\<not> oc_due_at occ \<le> now \<Longrightarrow> next_runnable_loop K C now (Inr occ) = Some (Inr None)"
  by (simp_all add: next_runnable_loop.simps)

lemma runnable_gap:
  assumes ok: "calendar_ok K C" and res: "resolved K C occ" and gap: "oc_disposition occ = Gap"
    and due: "oc_due_at occ \<le> now"
  shows "next_runnable_loop K C now (Inr occ) =
    next_runnable_loop K C now (next_after_local K C (cal_naive C (oc_due_at occ) - second))"
proof -
  obtain m where m: "cal_local C (oc_local_datetime occ) = LR_None"
    "first_single K C (oc_local_datetime occ) 1 m (oc_due_at occ)"
    using gap_resolved [OF res gap] by blast
  have w: "whole (oc_local_datetime occ)" "ch_in_range K (oc_local_datetime occ)"
    using res by (simp_all add: resolved_def)
  have m1: "1 \<le> m" "cal_local C (oc_local_datetime occ + m * second) = LR_Single (oc_due_at occ)"
    "ch_in_range K (oc_local_datetime occ + m * second)"
    using m(2) by (auto simp: first_single_def)
  note at = calendar_single [OF ok _ m1(2)]
  have "ch_in_range K (cal_naive C (oc_due_at occ) - second)"
    using calendar_range [OF ok w(2) m1(3)] at(1) w(1) m1(1) by simp
  then show ?thesis using gap due at(2) w(1)
    by (subst next_runnable_loop.simps) (simp add: Let_def)
qed

lemma runnable_gap_next:
  assumes ok: "calendar_ok K C" and res: "resolved K C occ" and gap: "oc_disposition occ = Gap"
    and due: "oc_due_at occ \<le> now" and follows: "next_after_local K C (oc_local_datetime occ) = Inr following"
  shows "next_runnable_loop K C now (Inr occ) = next_runnable_loop K C now (Inr following)"
proof -
  let ?t = "oc_local_datetime occ" and ?u = "oc_local_datetime following"
  obtain m where m: "cal_local C ?t = LR_None" "first_single K C ?t 1 m (oc_due_at occ)"
    using gap_resolved [OF res gap] by blast
  have w: "whole ?t" using res by (simp add: resolved_def)
  note nxt = next_resolved [OF ok follows]
  have m1: "1 \<le> m" using m(2) by (simp add: first_single_def)
  have fin: "cal_naive C (oc_due_at occ) = ?t + m * second"
    using gap_shift(3) [OF ok w m w] m1 by simp
  show ?thesis
  proof (cases "?u < ?t + m * second")
    case True
    have u: "whole ?u" "resolve K C ?u = Inr following" using nxt(1) by (simp_all add: resolved_def)
    have "cal_local C ?u = LR_None" "gap_scan K C ?u 1 = Some (oc_due_at occ)"
      using gap_shift(1,2) [OF ok w m u(1)] nxt(3) True by simp_all
    from resolve_in_gap [OF u(2) this] due show ?thesis
      using runnable_gap [OF ok res gap due] runnable_gap [OF ok nxt(1), of now] by simp
  next
    case False
    then have "cal_after C (?t + m * second - second) = Some ?u"
      using calendar_between [OF ok nxt(2)] m1 by simp
    with follows nxt(2) have "next_after_local K C (?t + m * second - second) = Inr following"
      by (simp add: next_after_local_def)
    then show ?thesis using runnable_gap [OF ok res gap due] fin by simp
  qed
qed

lemma next_runnable_chain:
  assumes "calendar_ok K C" and "due_chain K C now occ all stop" and "resolved K C occ"
  shows "\<exists>skipped. runnable_count skipped = 0 \<and>
    (case next_runnable_loop K C now (Inr occ) of
       Some (Inr None) \<Rightarrow> all = skipped
     | Some (Inr (Some found)) \<Rightarrow> oc_disposition found \<noteq> Gap \<and> oc_due_at found \<le> now \<and>
         (\<exists>rest following. all = skipped @ found # rest \<and>
            next_after_local K C (oc_local_datetime found) = Inr following \<and>
            due_chain K C now following rest stop)
     | _ \<Rightarrow> False)"
  using assms(2,3)
proof induction
  case (due_done occ)
  then show ?case by (intro exI [of _ "[]"]) simp
next
  case (due_more occ following rest stop)
  show ?case
  proof (cases "oc_disposition occ = Gap")
    case True
    obtain skipped where skipped: "runnable_count skipped = 0"
      "case next_runnable_loop K C now (Inr following) of
         Some (Inr None) \<Rightarrow> rest = skipped
       | Some (Inr (Some found)) \<Rightarrow> oc_disposition found \<noteq> Gap \<and> oc_due_at found \<le> now \<and>
           (\<exists>rest' following. rest = skipped @ found # rest' \<and>
              next_after_local K C (oc_local_datetime found) = Inr following \<and>
              due_chain K C now following rest' stop)
       | _ \<Rightarrow> False"
      using due_more.IH next_resolved(1) [OF assms(1) due_more.hyps(2)] by blast
    with True runnable_gap_next [OF assms(1) due_more.prems True due_more.hyps(1,2)] show ?thesis
      by (intro exI [of _ "occ # skipped"]) (auto split: option.splits sum.splits)
  next
    case False
    with due_more.hyps show ?thesis by (intro exI [of _ "[]"]) auto
  qed
qed

lemma count_following_chain:
  assumes ok: "calendar_ok K C" and "next_after_local K C t = Inr following"
    and "due_chain K C now following all stop"
  shows "count_following K C now budget t = Some (Inr (min budget (runnable_count all)))"
  using assms(2,3)
proof (induction budget arbitrary: t following all)
  case (Suc budget)
  obtain skipped where skipped: "runnable_count skipped = 0"
    "case next_runnable_loop K C now (Inr following) of
       Some (Inr None) \<Rightarrow> all = skipped
     | Some (Inr (Some found)) \<Rightarrow> oc_disposition found \<noteq> Gap \<and> oc_due_at found \<le> now \<and>
         (\<exists>rest following. all = skipped @ found # rest \<and>
            next_after_local K C (oc_local_datetime found) = Inr following \<and>
            due_chain K C now following rest stop)
     | _ \<Rightarrow> False"
    using next_runnable_chain [OF ok Suc.prems(2)] next_resolved(1) [OF ok Suc.prems(1)] by blast
  show ?case
  proof (cases "next_runnable_loop K C now (Inr following)")
    case (Some r)
    with skipped Suc.prems(1) show ?thesis
      by (auto simp: next_runnable_through_def Suc.IH split: sum.splits option.splits)
  qed (use skipped in simp)
qed simp

lemma due_loop_last:
  assumes "due_loop K C now due occ = Inr (due', following)"
    and "due \<noteq> [] \<longrightarrow> next_after_local K C (oc_local_datetime (last due)) = Inr occ" and "due' \<noteq> []"
  shows "next_after_local K C (oc_local_datetime (last due')) = Inr following"
  using assms
proof (induction K C now due occ rule: due_loop.induct)
  case (1 K C now due occ)
  from "1.prems" show ?case
    by (subst (asm) due_loop.simps) (auto split: if_splits sum.splits intro: 1(1))
qed

lemma due_loop_chain:
  assumes "due_chain K C now occ all stop"
  shows "\<exists>n following. due_loop K C now due occ = Inr (due @ take n all, following) \<and>
    n = min (length all) (nat (MAX_DUE_OCCURRENCES_PER_TICK - int (length due))) \<and>
    due_chain K C now following (drop n all) stop"
  using assms
proof (induction arbitrary: due)
  case (due_done occ)
  then show ?case by (auto simp: due_loop.simps intro: due_chain.due_done)
next
  case (due_more occ following rest stop)
  show ?case
  proof (cases "int (length due) < MAX_DUE_OCCURRENCES_PER_TICK")
    case True
    define left where "left = nat (MAX_DUE_OCCURRENCES_PER_TICK - int (length due)) - 1"
    have left: "nat (MAX_DUE_OCCURRENCES_PER_TICK - int (length due)) = Suc left"
      "nat (MAX_DUE_OCCURRENCES_PER_TICK - int (length (due @ [occ]))) = left"
      using True by (simp_all add: left_def)
    let ?n = "min (length rest) left"
    obtain fin where fin: "due_loop K C now (due @ [occ]) following = Inr ((due @ [occ]) @ take ?n rest, fin)"
      "due_chain K C now fin (drop ?n rest) stop"
      using due_more.IH [of "due @ [occ]"] unfolding left(2) by auto
    have "due_loop K C now due occ = Inr (due @ take (Suc ?n) (occ # rest), fin)"
      using True due_more.hyps fin(1) by (subst due_loop.simps) simp
    with fin(2) left(1) show ?thesis by (intro exI [of _ "Suc ?n"] exI [of _ fin]) simp
  next
    case False
    with due_more.hyps show ?thesis
      by (intro exI [of _ 0] exI [of _ occ]) (auto simp: due_loop.simps intro: due_chain.due_more)
  qed
qed

section \<open>A zone that skips ten seconds\<close>

text \<open>
  A schedule that fires every ten seconds, in a zone whose clock jumps from second 20 to
  second 30. The text form of a local time is its second, in five bytes.
\<close>

primrec fixed_bytes :: "nat \<Rightarrow> int \<Rightarrow> string" where
  "fixed_bytes 0 x = []"
| "fixed_bytes (Suc n) x = char_of (nat (x div 256 ^ n)) # fixed_bytes n (x mod 256 ^ n)"

primrec bytes_number :: "int \<Rightarrow> string \<Rightarrow> int" where
  "bytes_number acc [] = acc"
| "bytes_number acc (c # cs) = bytes_number (256 * acc + int (of_char c)) cs"

lemma length_fixed_bytes [simp]: "length (fixed_bytes n x) = n"
  by (induction n arbitrary: x) auto

lemma fixed_byte:
  assumes "0 \<le> x" and "x < 256 ^ Suc n"
  shows "int (of_char (char_of (nat (x div 256 ^ n)))) = x div 256 ^ n"
proof -
  have "x div 256 ^ n * 256 ^ n \<le> x" by (simp add: minus_mod_eq_div_mult [symmetric] assms(1))
  with assms(2) have "x div 256 ^ n * 256 ^ n < 256 * 256 ^ n" by (simp only: power_Suc)
  then have "x div 256 ^ n < 256" by (rule mult_right_less_imp_less) simp
  moreover have "0 \<le> x div 256 ^ n" using assms(1) by (simp add: pos_imp_zdiv_nonneg_iff)
  ultimately show ?thesis by (simp add: of_char_of nat_mod_distrib)
qed

lemma bytes_number_fixed:
  "\<lbrakk>0 \<le> x; x < 256 ^ n\<rbrakk> \<Longrightarrow> bytes_number acc (fixed_bytes n x) = acc * 256 ^ n + x"
proof (induction n arbitrary: x acc)
  case (Suc n)
  have "bytes_number acc (fixed_bytes (Suc n) x) = (256 * acc + x div 256 ^ n) * 256 ^ n + x mod 256 ^ n"
    using Suc fixed_byte [of x n] by simp
  then show ?case by (simp add: algebra_simps)
qed simp

lemma fixed_bytes_mono:
  "\<lbrakk>0 \<le> x; x < y; y < 256 ^ n\<rbrakk> \<Longrightarrow> fixed_bytes n x < fixed_bytes n y"
proof (induction n arbitrary: x y)
  case (Suc n)
  have d: "int (of_char (char_of (nat (x div 256 ^ n)))) = x div 256 ^ n"
    "int (of_char (char_of (nat (y div 256 ^ n)))) = y div 256 ^ n"
    using Suc.prems by (intro fixed_byte; simp)+
  show ?case
  proof (cases "x div 256 ^ n = y div 256 ^ n")
    case True
    then have "x mod 256 ^ n < y mod 256 ^ n" using Suc.prems(2)
      by (metis add_less_cancel_left div_mult_mod_eq)
    then show ?thesis using Suc.IH True by simp
  next
    case False
    moreover have "x div 256 ^ n \<le> y div 256 ^ n" using Suc.prems(2) by (intro zdiv_mono1) auto
    ultimately have "x div 256 ^ n < y div 256 ^ n" by simp
    with d have "(of_char (char_of (nat (x div 256 ^ n))) :: nat) < of_char (char_of (nat (y div 256 ^ n)))"
      by linarith
    then show ?thesis by (simp add: less_char_def)
  qed
qed simp

definition sample_format :: "naive \<Rightarrow> string" where
  "sample_format t = fixed_bytes 5 (t div second)"

declare sample_format_def [code del]

definition sample_chrono :: chrono where
  "sample_chrono = \<lparr>ch_format = sample_format,
     ch_parse = (\<lambda>digits. if length digits = 5 then Inr (bytes_number 0 digits * second)
       else Inl ''invalid''),
     ch_in_range = (\<lambda>t. 0 \<le> t \<and> t < 200 * second), ch_instant_in_range = (\<lambda>i. 0 \<le> i)\<rparr>"

definition sample_calendar :: calendar where
  "sample_calendar = \<lparr>
     cal_after = (\<lambda>t. let u = (t div (10 * second) + 1) * (10 * second) in
       if 0 \<le> u \<and> u < 200 * second then Some u else None),
     cal_local = (\<lambda>t. if 0 \<le> t \<and> t < 20 * second then LR_Single (t div 1000000)
       else if 30 * second \<le> t \<and> t < 200 * second then LR_Single ((t - 10 * second) div 1000000)
       else LR_None),
     cal_naive = (\<lambda>i. i * 1000000 + (if 20000 \<le> i then 10 * second else 0)),
     cal_timezone = ''Sample''\<rparr>"

lemma sample_calendar_ok: "calendar_ok sample_chrono sample_calendar"
  unfolding calendar_ok_def
proof (intro conjI allI impI ballI)
  fix t u assume "cal_after sample_calendar t = Some u"
  then have u: "u = (t div (10 * second) + 1) * (10 * second)" "0 \<le> u" "u < 200 * second"
    by (auto simp: sample_calendar_def Let_def split: if_splits)
  then show "t < u" "ch_in_range sample_chrono u" by (auto simp: sample_chrono_def)
  have "u = ((t div (10 * second) + 1) * 10) * second" using u(1) by simp
  then show "whole u" unfolding whole_def by (metis mod_mult_self2_is_0)
  fix v assume "t \<le> v" "v < u"
  then have "v div (10 * second) = t div (10 * second)" using u(1) by simp
  then show "cal_after sample_calendar v = Some u" using u by (simp add: sample_calendar_def)
next
  fix t i assume "whole t" "cal_local sample_calendar t = LR_Single i"
  then show "cal_naive sample_calendar i = t" "ch_instant_in_range sample_chrono i"
    by (auto simp: sample_calendar_def sample_chrono_def whole_def split: if_splits; presburger)+
next
  fix t n m assume "\<forall>m\<in>{1..n}. \<forall>i. cal_local sample_calendar (t + m * second) \<noteq> LR_Single i" and "m \<in> {1..n}"
  then show "cal_local sample_calendar (t + m * second) = LR_None"
    by (cases "cal_local sample_calendar (t + m * second)")
      (auto simp: sample_calendar_def split: if_splits)
qed (auto simp: sample_chrono_def)

definition sample_occurrence :: "naive \<Rightarrow> schedule_occurrence" where
  "sample_occurrence t = (case resolve sample_chrono sample_calendar (t * second) of Inr occ \<Rightarrow> occ)"

lemma sample_next:
  "next_after_local sample_chrono sample_calendar (oc_local_datetime (sample_occurrence 10)) = Inr (sample_occurrence 20)"
  "next_after_local sample_chrono sample_calendar (oc_local_datetime (sample_occurrence 20)) = Inr (sample_occurrence 30)"
  "next_after_local sample_chrono sample_calendar (oc_local_datetime (sample_occurrence 30)) = Inr (sample_occurrence 40)"
  "next_after_local sample_chrono sample_calendar (oc_local_datetime (sample_occurrence 40)) = Inr (sample_occurrence 50)"
  by code_simp+

lemma sample_due:
  "oc_due_at (sample_occurrence 10) = 10000" "oc_due_at (sample_occurrence 20) = 20000"
  "oc_due_at (sample_occurrence 30) = 20000" "oc_due_at (sample_occurrence 40) = 30000"
  "oc_due_at (sample_occurrence 50) = 40000"
  by code_simp+

lemma sample_chain:
  "due_chain sample_chrono sample_calendar 35000 (sample_occurrence 10)
     [sample_occurrence 10, sample_occurrence 20, sample_occurrence 30, sample_occurrence 40]
     (sample_occurrence 50)"
  by (intro due_more [OF _ sample_next(1)] due_more [OF _ sample_next(2)] due_more [OF _ sample_next(3)]
      due_more [OF _ sample_next(4)] due_done) (simp_all add: sample_due)

text \<open>
  C31: a chunk of the backlog is planned as the whole backlog would be (S28). Let \<open>all\<close> be
  every occurrence that is due; the planner returns the first 10,000 of them, or all, with the
  outcomes the misfire policy gives them within \<open>all\<close>, and leaves the rest for the next tick. The
  run always returns, although the look-ahead jumps over gaps instead of visiting them.
\<close>

theorem chunk_follows_whole_plan:
  assumes "calendar_ok K C" and "due_chain K C now occ all stop"
  shows "\<exists>n following.
    plan_due_chunk K C occ policy grace now =
      Some (Inr (take n all, following, take n (planned policy grace now 0 all))) \<and>
    n = min (length all) (nat MAX_DUE_OCCURRENCES_PER_TICK) \<and>
    due_chain K C now following (drop n all) stop"
proof -
  let ?n = "min (length all) (nat MAX_DUE_OCCURRENCES_PER_TICK)"
  obtain following where loop: "due_loop K C now [] occ = Inr (take ?n all, following)"
    and rest: "due_chain K C now following (drop ?n all) stop"
    using due_loop_chain [OF assms(2), of "[]"] by auto
  let ?later = "runnable_count (drop ?n all)" and ?b = "nat (misfire_budget policy)"
  have plan: "planned policy grace now (min ?b ?later) (take ?n all) = take ?n (planned policy grace now 0 all)"
    using planned_append [of policy grace now 0 "take ?n all" "drop ?n all"] by (simp add: planned_budget)
  have "plan_due_chunk K C occ policy grace now =
      Some (Inr (take ?n all, following, take ?n (planned policy grace now 0 all)))"
  proof (cases "oc_due_at following \<le> now \<and> take ?n all \<noteq> []")
    case True
    then have "next_after_local K C (oc_local_datetime (last (take ?n all))) = Inr following"
      using due_loop_last [OF loop] by simp
    from count_following_chain [OF assms(1) this rest] True show ?thesis
      by (simp only: plan_due_chunk_def loop classify_planned) (simp add: plan)
  next
    case False
    have "drop ?n all = []"
    proof (cases "take ?n all = []")
      case True
      then show ?thesis by (auto simp: MAX_DUE_OCCURRENCES_PER_TICK_def)
    next
      case nonempty: False
      with False have "\<not> oc_due_at following \<le> now" by simp
      with rest show ?thesis by (cases "drop ?n all") (auto elim: due_chain_ConsE)
    qed
    then have "planned policy grace now 0 (take ?n all) = take ?n (planned policy grace now 0 all)"
      using plan by simp
    with False show ?thesis by (auto simp: plan_due_chunk_def loop classify_planned)
  qed
  with rest show ?thesis by blast
qed

theorem chunk_follows_whole_plan_witness:
  "calendar_ok sample_chrono sample_calendar \<and>
   (\<exists>n following.
      plan_due_chunk sample_chrono sample_calendar (sample_occurrence 10) (CatchUp 1) 0 35000 =
        Some (Inr (take n (map sample_occurrence [10, 20, 30, 40]), following,
          take n [Occ_Skip ''catch_up_limit'', Occ_Skip ''dst_gap'', Occ_Skip ''catch_up_limit'', Occ_Start])) \<and>
      n = 4 \<and> due_chain sample_chrono sample_calendar 35000 following [] (sample_occurrence 50))"
proof -
  let ?all = "map sample_occurrence [10, 20, 30, 40]"
  have plan: "planned (CatchUp 1) 0 35000 0 ?all =
      [Occ_Skip ''catch_up_limit'', Occ_Skip ''dst_gap'', Occ_Skip ''catch_up_limit'', Occ_Start]"
    by code_simp
  have "due_chain sample_chrono sample_calendar 35000 (sample_occurrence 10) ?all (sample_occurrence 50)"
    using sample_chain by simp
  from chunk_follows_whole_plan [OF sample_calendar_ok this, of "CatchUp 1" 0, unfolded plan]
  show ?thesis using sample_calendar_ok by (auto simp: MAX_DUE_OCCURRENCES_PER_TICK_def)
qed

end
