(* ===== verification/Schedules.thy ===== *)
theory Schedules
  imports Operator_Control Schedule_Plan
begin

text \<open>
  Schedules (\<open>src/schedule.rs\<close>, \<open>src/schedule/cursor.rs\<close>,
  \<open>src/runtime/schedule_materializer.rs\<close>): the registry of definitions, the reconciliation of a
  persisted schedule with its definition, and the tick that starts, queues or skips what is due.

  A handler is a transaction that receives the run and its time and returns the workflow it
  started; its application context is part of it. \<open>libraries\<close> stands for the cron parser, the
  zone database, \<open>serde_json\<close> and SHA-256. The order of text in the database is that of its bytes.
\<close>

section \<open>Definitions and their registry\<close>

record schedule_definition =
  sd_key :: string
  sd_version :: i32
  sd_cron :: string
  sd_timezone :: string
  sd_misfire :: misfire_policy
  sd_overlap :: overlap_policy
  sd_misfire_grace :: duration

record schedule_metadata =
  sm_key :: string
  sm_version :: i32
  sm_fingerprint :: string
  sm_cron :: string
  sm_timezone :: string
  sm_misfire :: misfire_policy
  sm_overlap :: overlap_policy
  sm_misfire_grace_millis :: i64

datatype schedule_state_reconcile_outcome = Rec_Inserted | Rec_Preserved | Rec_Upgraded | Rec_NewerPersisted

type_synonym occurrence_handler = "i64 \<Rightarrow> i64 \<Rightarrow> i64 dtx"

record registered_schedule =
  rs_metadata :: schedule_metadata
  rs_calendar :: calendar
  rs_handler :: occurrence_handler

type_synonym schedule_registry = "string \<rightharpoonup> registered_schedule"

record libraries =
  lib_cron :: "string \<Rightarrow> string + (naive \<Rightarrow> naive option)"
  lib_zone :: "string \<Rightarrow> ((naive \<Rightarrow> local_result) \<times> (i64 \<Rightarrow> naive)) option"
  lib_canonical :: "string \<times> i32 \<times> string \<times> string \<times> misfire_policy \<times> overlap_policy \<times> i64 \<Rightarrow> string option"
  lib_sha256_hex :: "string \<Rightarrow> string"

definition ScheduleCalendar_new :: "libraries \<Rightarrow> string \<Rightarrow> string \<Rightarrow> durable_error + calendar" where
  "ScheduleCalendar_new L cron timezone =
     (case lib_cron L cron of
        Inl error \<Rightarrow> Inl (InvalidDefinition (''invalid schedule cron `'' @ cron @ ''`: '' @ error))
      | Inr after \<Rightarrow>
          (case lib_zone L timezone of
             None \<Rightarrow> Inl (InvalidDefinition (''invalid schedule IANA timezone `'' @ timezone @ ''`''))
           | Some (local, naive_local) \<Rightarrow>
               Inr \<lparr>cal_after = after, cal_local = local, cal_naive = naive_local,
                    cal_timezone = timezone\<rparr>))"

fun contains_double_underscore :: "string \<Rightarrow> bool" where
  "contains_double_underscore (c # d # cs) =
     (c = CHR ''_'' \<and> d = CHR ''_'' \<or> contains_double_underscore (d # cs))"
| "contains_double_underscore _ = False"

definition key_byte :: "char \<Rightarrow> bool" where
  "key_byte c \<longleftrightarrow>
     (let n = (of_char c :: nat) in 97 \<le> n \<and> n \<le> 122 \<or> 48 \<le> n \<and> n \<le> 57) \<or> c = CHR ''_''"

definition validate_schedule_definition :: "schedule_definition \<Rightarrow> durable_error + unit" where
  "validate_schedule_definition S =
     (let key = sd_key S;
          valid_key = (key \<noteq> [] \<and> length key \<le> MAX_SCHEDULE_KEY_BYTES \<and> hd key \<noteq> CHR ''_'' \<and>
            last key \<noteq> CHR ''_'' \<and> \<not> contains_double_underscore key \<and> list_all key_byte key);
          valid_catch_up = (case sd_misfire S of
              CatchUp max_occurrences \<Rightarrow> 1 \<le> max_occurrences \<and> max_occurrences \<le> MAX_CATCH_UP_OCCURRENCES
            | Misfire_Skip \<Rightarrow> True | RunLatest \<Rightarrow> True)
      in if \<not> valid_key \<or> sd_version S \<le> 0 \<or> sd_misfire_grace S = 0 \<or> \<not> valid_catch_up
         then Inl (InvalidDefinition ''schedule key, version, misfire policy, or grace is invalid'')
         else Inr ())"

definition schedule_metadata_of :: "libraries \<Rightarrow> schedule_definition \<Rightarrow> durable_error + schedule_metadata" where
  "schedule_metadata_of L S =
     (case i64_try_from (sd_misfire_grace S div 1000000) of
        None \<Rightarrow> Inl (InvalidDefinition ''schedule misfire grace exceeds i64 milliseconds'')
      | Some grace \<Rightarrow>
          (case lib_canonical L (sd_key S, sd_version S, sd_cron S, sd_timezone S, sd_misfire S,
               sd_overlap S, grace) of
             None \<Rightarrow> Inl Serialization
           | Some canonical \<Rightarrow>
               Inr \<lparr>sm_key = sd_key S, sm_version = sd_version S,
                    sm_fingerprint = lib_sha256_hex L canonical, sm_cron = sd_cron S,
                    sm_timezone = sd_timezone S, sm_misfire = sd_misfire S, sm_overlap = sd_overlap S,
                    sm_misfire_grace_millis = grace\<rparr>))"

definition register_schedule ::
    "libraries \<Rightarrow> schedule_definition \<Rightarrow> occurrence_handler \<Rightarrow> schedule_registry \<Rightarrow>
     durable_error + schedule_registry" where
  "register_schedule L S handler R =
     (case validate_schedule_definition S of
        Inl e \<Rightarrow> Inl e
      | Inr _ \<Rightarrow>
          if R (sd_key S) \<noteq> None then Inl (DuplicateDefinition (sd_key S) (sd_version S))
          else
            (case ScheduleCalendar_new L (sd_cron S) (sd_timezone S) of
               Inl e \<Rightarrow> Inl e
             | Inr calendar \<Rightarrow>
                 (case schedule_metadata_of L S of
                    Inl e \<Rightarrow> Inl e
                  | Inr metadata \<Rightarrow>
                      Inr (R(sd_key S \<mapsto> \<lparr>rs_metadata = metadata, rs_calendar = calendar,
                                             rs_handler = handler\<rparr>)))))"

definition start_occurrence :: "schedule_registry \<Rightarrow> string \<Rightarrow> i64 \<Rightarrow> i64 \<Rightarrow> i64 dtx" where
  "start_occurrence R key schedule_run_id scheduled_for =
     (case R key of
        None \<Rightarrow> tx_fail (NotFound ''schedule definition'' key)
      | Some entry \<Rightarrow> rs_handler entry schedule_run_id scheduled_for)"

section \<open>The cursor\<close>

definition MANUAL_OCCURRENCE_PREFIX :: string where
  "MANUAL_OCCURRENCE_PREFIX = ''manual:''"

definition is_manual :: "schedule_run_row \<Rightarrow> bool" where
  "is_manual r \<longleftrightarrow> starts_with (run_local_occurrence r) MANUAL_OCCURRENCE_PREFIX"

text \<open>The largest text of the schedule's calendar runs, parsed.\<close>

definition largest_text :: "string list \<Rightarrow> string option" where
  "largest_text texts = (case texts of [] \<Rightarrow> None | t # ts \<Rightarrow> Some (fold max ts t))"

definition MaterializedFloor_load :: "chrono \<Rightarrow> schedule_state_row \<Rightarrow> naive option dtx" where
  "MaterializedFloor_load K state =
     tx_bind (tx_query (\<lambda>s. largest_text (map run_local_occurrence
       (filter (\<lambda>r. run_schedule_key r = sch_schedule_key state \<and> \<not> is_manual r) (schedule_runs s)))))
     (\<lambda>largest. case largest of
        None \<Rightarrow> tx_return None
      | Some t \<Rightarrow>
          (case LocalOccurrence_from_str K t of
             Inl error \<Rightarrow> tx_fail (InvalidState (''schedule '' @ sch_schedule_key state @
               '' has an invalid run occurrence '' @ t @ '': '' @ error))
           | Inr l \<Rightarrow> tx_return (Some l)))"

text \<open>A \<open>ScheduleCursor\<close> is the local occurrence it names.\<close>

definition ScheduleCursor_initial :: "naive \<Rightarrow> naive" where
  "ScheduleCursor_initial l = l"

definition ScheduleCursor_upgrade ::
    "chrono \<Rightarrow> calendar \<Rightarrow> i64 \<Rightarrow> naive option \<Rightarrow> (durable_error + naive \<times> schedule_occurrence) option" where
  "ScheduleCursor_upgrade K C now floor =
     (case next_after K C now of
        None \<Rightarrow> None
      | Some (Inl e) \<Rightarrow> Some (Inl e)
      | Some (Inr following) \<Rightarrow>
          (case floor of
             None \<Rightarrow> Some (Inr (oc_local following, following))
           | Some l \<Rightarrow>
               if oc_local following \<le> l
               then Some (map_sum id (\<lambda>later. (oc_local later, later)) (next_after_local K C l))
               else Some (Inr (oc_local following, following))))"

definition ScheduleCursor_load :: "chrono \<Rightarrow> string \<Rightarrow> string \<Rightarrow> durable_error + naive" where
  "ScheduleCursor_load K schedule_key persisted =
     (case LocalOccurrence_from_str K persisted of
        Inl error \<Rightarrow> Inl (InvalidState (''schedule '' @ schedule_key @
          '' has invalid persisted local occurrence: '' @ error))
      | Inr l \<Rightarrow> Inr l)"

definition ScheduleCursor_advance_to :: "chrono \<Rightarrow> naive \<Rightarrow> naive \<Rightarrow> durable_error + naive" where
  "ScheduleCursor_advance_to K cursor following =
     (if following > cursor then Inr following
      else Inl (InvalidState (''schedule cursor must advance: '' @ LocalOccurrence_to_string K following @
        '' is not after '' @ LocalOccurrence_to_string K cursor)))"

text \<open>A calendar computation that does not end takes its transaction with it.\<close>

definition tx_partial :: "(durable_error + 'a) option \<Rightarrow> 'a dtx" where
  "tx_partial r = (case r of None \<Rightarrow> tx_diverge | Some q \<Rightarrow> tx_lift q)"

section \<open>Reconciling the persisted schedule\<close>

definition lock_schedule_row :: "string \<Rightarrow> schedule_state_row dtx" where
  "lock_schedule_row key =
     tx_bind (tx_query (\<lambda>s. schedule_state_by_key s key)) (tx_some (Database RowNotFound))"

definition new_schedule_state ::
    "chrono \<Rightarrow> schedule_metadata \<Rightarrow> schedule_occurrence \<Rightarrow> db_millis \<Rightarrow> schedule_state_row" where
  "new_schedule_state K metadata following now =
     \<lparr>sch_schedule_key = sm_key metadata, sch_definition_fingerprint = sm_fingerprint metadata,
      sch_definition_version = sm_version metadata,
      sch_next_local_occurrence = LocalOccurrence_to_string K (ScheduleCursor_initial (oc_local following)),
      sch_next_occurrence_at = oc_due_at following, sch_last_materialized_at = None,
      sch_paused_at = None, sch_paused_by = None, sch_pause_reason = None,
      sch_created_at = now, sch_updated_at = now\<rparr>"

definition upgrade_state ::
    "chrono \<Rightarrow> registered_schedule \<Rightarrow> schedule_state_row \<Rightarrow> db_millis \<Rightarrow>
     schedule_state_reconcile_outcome dtx" where
  "upgrade_state K entry row now =
     (let metadata = rs_metadata entry in
      tx_bind (MaterializedFloor_load K row) (\<lambda>floor.
      tx_bind (tx_partial (ScheduleCursor_upgrade K (rs_calendar entry) now floor)) (\<lambda>(cursor, target).
      tx_seq (tx_bind (schedule_state_update (\<lambda>r. sch_schedule_key r = sm_key metadata)
        (\<lambda>r. r\<lparr>sch_definition_fingerprint := sm_fingerprint metadata,
              sch_definition_version := sm_version metadata,
              sch_next_local_occurrence := LocalOccurrence_to_string K cursor,
              sch_next_occurrence_at := oc_due_at target, sch_updated_at := now\<rparr>)) (\<lambda>_. tx_return ()))
      (tx_return Rec_Upgraded))))"

definition reconcile_entry ::
    "chrono \<Rightarrow> registered_schedule \<Rightarrow> db_millis \<Rightarrow> schedule_state_reconcile_outcome dtx" where
  "reconcile_entry K entry now =
     (let metadata = rs_metadata entry in
      if \<not> ch_instant_in_range K now
      then tx_fail (InvalidDefinition ''schedule deployment timestamp is invalid'')
      else
        tx_bind (tx_partial (next_after K (rs_calendar entry) now)) (\<lambda>following.
        tx_bind (insert_schedule_state_if_absent (new_schedule_state K metadata following now)) (\<lambda>inserted.
        tx_bind (lock_schedule_row (sm_key metadata)) (\<lambda>row.
        if inserted then tx_return Rec_Inserted
        else if sch_definition_version row > sm_version metadata then tx_return Rec_NewerPersisted
        else if sch_definition_version row = sm_version metadata then
          if sch_definition_fingerprint row = sm_fingerprint metadata then tx_return Rec_Preserved
          else tx_fail (Conflict (''schedule '' @ sm_key metadata @ '' v'' @ dec_int (sm_version metadata) @
                 '' metadata changed without a version bump''))
        else upgrade_state K entry row now))))"

definition reconcile_state ::
    "chrono \<Rightarrow> schedule_registry \<Rightarrow> string \<Rightarrow> db_millis \<Rightarrow> schedule_state_reconcile_outcome dtx" where
  "reconcile_state K R key deployed_at =
     (case R key of
        None \<Rightarrow> tx_fail (NotFound ''schedule definition'' key)
      | Some entry \<Rightarrow> reconcile_entry K entry deployed_at)"

section \<open>The tick\<close>

record schedule_report =
  srp_schedule_key :: string
  srp_inspected :: u32
  srp_started :: u32
  srp_queued :: u32
  srp_skipped :: u32
  srp_coalesced :: u32
  srp_paused :: bool

definition empty_report :: "string \<Rightarrow> schedule_report" where
  "empty_report schedule_key =
     \<lparr>srp_schedule_key = schedule_key, srp_inspected = 0, srp_started = 0, srp_queued = 0,
      srp_skipped = 0, srp_coalesced = 0, srp_paused = False\<rparr>"

definition u32_saturating_inc :: "u32 \<Rightarrow> u32" where
  "u32_saturating_inc n = min (n + 1) max_u32"

text \<open>The counters a tick carries from one occurrence to the next.\<close>

record tick =
  tk_active :: i64
  tk_queued :: bool
  tk_report :: schedule_report

definition count_started :: "tick \<Rightarrow> tick" where
  "count_started t = t\<lparr>tk_report := (tk_report t)\<lparr>srp_started := u32_saturating_inc (srp_started (tk_report t))\<rparr>\<rparr>"

definition count_queued :: "tick \<Rightarrow> tick" where
  "count_queued t = t\<lparr>tk_report := (tk_report t)\<lparr>srp_queued := u32_saturating_inc (srp_queued (tk_report t))\<rparr>\<rparr>"

definition count_skipped :: "tick \<Rightarrow> tick" where
  "count_skipped t = t\<lparr>tk_report := (tk_report t)\<lparr>srp_skipped := u32_saturating_inc (srp_skipped (tk_report t))\<rparr>\<rparr>"

definition count_coalesced :: "tick \<Rightarrow> tick" where
  "count_coalesced t = t\<lparr>tk_report := (tk_report t)\<lparr>srp_coalesced := u32_saturating_inc (srp_coalesced (tk_report t))\<rparr>\<rparr>"

definition is_active_run :: "string \<Rightarrow> workflow_row \<Rightarrow> schedule_run_row \<Rightarrow> bool" where
  "is_active_run key w r \<longleftrightarrow>
     wf_schedule_run_id w = Some (run_id r) \<and> run_schedule_key r = key \<and> wf_status w \<notin> set TERMINAL"

definition active_workflow_count :: "schedule_state_row \<Rightarrow> db \<Rightarrow> i64" where
  "active_workflow_count state s =
     int (length (filter (\<lambda>(w, r). is_active_run (sch_schedule_key state) w r)
       (List.product (workflows s) (schedule_runs s))))"

definition is_queued_run :: "string \<Rightarrow> schedule_run_row \<Rightarrow> bool" where
  "is_queued_run key r \<longleftrightarrow> run_schedule_key r = key \<and> run_status r = SR_Queued"

definition queued_run_exists :: "string \<Rightarrow> db \<Rightarrow> bool" where
  "queued_run_exists key s \<longleftrightarrow> length (filter (is_queued_run key) (schedule_runs s)) > 0"

definition promote_queued :: "schedule_registry \<Rightarrow> string \<Rightarrow> unit dtx" where
  "promote_queued R key =
     tx_bind (tx_query (\<lambda>s. sort_key (\<lambda>r. (run_scheduled_for r, run_id r))
       (filter (is_queued_run key) (schedule_runs s)))) (\<lambda>queue.
     case queue of
       [] \<Rightarrow> tx_fail (Database RowNotFound)
     | run # _ \<Rightarrow>
         tx_bind (start_occurrence R key (run_id run) (run_scheduled_for run)) (\<lambda>workflow_id.
         fenced (link_schedule_run (\<lambda>r. run_id r = run_id run \<and> run_status r = SR_Queued) workflow_id
           (\<lambda>r. r\<lparr>run_status := SR_Started, run_reason := Some ''queue_one_promoted''\<rparr>))))"

definition new_schedule_run ::
    "string \<Rightarrow> schedule_occurrence \<Rightarrow> schedule_run_status \<Rightarrow> string option \<Rightarrow> db_millis \<Rightarrow> schedule_run_row" where
  "new_schedule_run key occ status reason now =
     \<lparr>run_id = 0, run_schedule_key = key, run_local_occurrence = oc_local_occurrence occ,
      run_scheduled_for = oc_scheduled_for occ, run_materialized_at = now, run_status = status,
      run_reason = reason, run_actor_id = None, run_workflow_id = None, run_created_at = now\<rparr>"

text \<open>The overlap policy turns a start into a skip, or into a queued run (\<open>None\<close>).\<close>

definition overlap_outcome :: "overlap_policy \<Rightarrow> tick \<Rightarrow> occurrence_outcome \<Rightarrow> occurrence_outcome option" where
  "overlap_outcome overlap t outcome =
     (if outcome = Occ_Start \<and> overlap = SkipIfActive \<and> tk_active t > 0
      then Some (Occ_Skip ''overlap_active'')
      else if outcome = Occ_Start \<and> overlap = QueueOne \<and> tk_active t > 0 \<and> tk_queued t
      then Some (Occ_Skip ''overlap_queue_full'')
      else if outcome = Occ_Start \<and> overlap = QueueOne \<and> tk_active t > 0 then None
      else Some outcome)"

definition materialize_occurrence ::
    "schedule_registry \<Rightarrow> string \<Rightarrow> overlap_policy \<Rightarrow> db_millis \<Rightarrow> schedule_occurrence \<Rightarrow>
     occurrence_outcome \<Rightarrow> tick \<Rightarrow> tick dtx" where
  "materialize_occurrence R key overlap now occ outcome t =
     (case overlap_outcome overlap t outcome of
        None \<Rightarrow>
          tx_seq (insert_schedule_run
            (new_schedule_run key occ SR_Queued (Some ''overlap_queue_one'') now))
          (tx_return (count_queued (t\<lparr>tk_queued := True\<rparr>)))
      | Some Occ_Start \<Rightarrow>
          tx_bind (insert_schedule_run (new_schedule_run key occ SR_Materializing None now))
            (\<lambda>schedule_run_id.
          tx_bind (start_occurrence R key schedule_run_id (oc_scheduled_for occ)) (\<lambda>workflow_id.
          tx_seq (fenced (link_schedule_run
            (\<lambda>r. run_id r = schedule_run_id \<and> run_status r = SR_Materializing) workflow_id
            (\<lambda>r. r\<lparr>run_status := SR_Started\<rparr>)))
          (tx_return (count_started (t\<lparr>tk_active := saturating_add 64 (tk_active t) 1\<rparr>)))))
      | Some (Occ_Skip reason) \<Rightarrow>
          tx_seq (insert_schedule_run (new_schedule_run key occ SR_Skipped (Some reason) now))
          (tx_return (count_skipped t))
      | Some Occ_Coalesce \<Rightarrow>
          tx_seq (insert_schedule_run
            (new_schedule_run key occ SR_Coalesced (Some ''run_latest'') now))
          (tx_return (count_coalesced t)))"

fun materialize_due ::
    "schedule_registry \<Rightarrow> string \<Rightarrow> overlap_policy \<Rightarrow> db_millis \<Rightarrow>
     (schedule_occurrence \<times> occurrence_outcome) list \<Rightarrow> tick \<Rightarrow> tick dtx" where
  "materialize_due R key overlap now [] t = tx_return t"
| "materialize_due R key overlap now ((occ, outcome) # plan) t =
     tx_bind (materialize_occurrence R key overlap now occ outcome t)
       (materialize_due R key overlap now plan)"

definition promote_if_idle :: "schedule_registry \<Rightarrow> string \<Rightarrow> overlap_policy \<Rightarrow> tick \<Rightarrow> tick dtx" where
  "promote_if_idle R key overlap t =
     (if overlap = QueueOne \<and> tk_active t = 0 \<and> tk_queued t
      then tx_seq (promote_queued R key)
             (tx_return (count_started (t\<lparr>tk_active := 1, tk_queued := False\<rparr>)))
      else tx_return t)"

definition advance_schedule ::
    "chrono \<Rightarrow> schedule_metadata \<Rightarrow> schedule_state_row \<Rightarrow> naive \<Rightarrow> schedule_occurrence \<Rightarrow> db_millis \<Rightarrow>
     unit dtx" where
  "advance_schedule K metadata state cursor following now =
     tx_bind (tx_lift (ScheduleCursor_advance_to K cursor (oc_local following))) (\<lambda>advanced.
     fenced (schedule_state_update
       (\<lambda>r. sch_schedule_key r = sch_schedule_key state \<and> sch_definition_version r = sm_version metadata \<and>
            sch_definition_fingerprint r = sm_fingerprint metadata \<and>
            sch_next_local_occurrence r = sch_next_local_occurrence state)
       (\<lambda>r. r\<lparr>sch_next_local_occurrence := LocalOccurrence_to_string K advanced,
             sch_next_occurrence_at := oc_due_at following, sch_last_materialized_at := Some now,
             sch_updated_at := now\<rparr>)))"

definition finish_tick ::
    "chrono \<Rightarrow> schedule_metadata \<Rightarrow> schedule_state_row \<Rightarrow> naive \<Rightarrow> schedule_occurrence \<Rightarrow> db_millis \<Rightarrow>
     schedule_report \<Rightarrow> schedule_report dtx" where
  "finish_tick K metadata state cursor following now report =
     (if srp_inspected report = 0 then tx_return report
      else tx_seq (advance_schedule K metadata state cursor following now) (tx_return report))"

definition tick_schedule ::
    "chrono \<Rightarrow> schedule_registry \<Rightarrow> registered_schedule \<Rightarrow> schedule_state_row \<Rightarrow> db_millis \<Rightarrow>
     schedule_report dtx" where
  "tick_schedule K R entry state now =
     (let metadata = rs_metadata entry; key = sch_schedule_key state in
      tx_bind (tx_query (active_workflow_count state)) (\<lambda>active.
      tx_bind (tx_query (queued_run_exists key)) (\<lambda>queued.
      tx_bind (promote_if_idle R key (sm_overlap metadata)
        \<lparr>tk_active = active, tk_queued = queued, tk_report = empty_report key\<rparr>) (\<lambda>t.
      tx_bind (tx_lift (ScheduleCursor_load K key (sch_next_local_occurrence state))) (\<lambda>cursor.
      tx_bind (tx_lift (occurrence_at_local K (rs_calendar entry) cursor)) (\<lambda>occ.
      if oc_local_occurrence occ \<noteq> sch_next_local_occurrence state \<or>
         oc_due_at occ \<noteq> sch_next_occurrence_at state
      then tx_fail (InvalidState (''schedule '' @ key @
             '' persisted local and UTC occurrences disagree''))
      else
        tx_bind (tx_partial (plan_due_chunk K (rs_calendar entry) occ (sm_misfire metadata)
          (sm_misfire_grace_millis metadata) now)) (\<lambda>(due, following, outcomes).
        tx_bind (tx_some (InvalidState ''schedule occurrence count exceeds u32'')
          (u32_try_from (int (length due)))) (\<lambda>inspected.
        tx_bind (materialize_due R key (sm_overlap metadata) now (zip due outcomes)
          (t\<lparr>tk_report := (tk_report t)\<lparr>srp_inspected := inspected\<rparr>\<rparr>)) (\<lambda>t.
        finish_tick K metadata state cursor following now (tk_report t))))))))))"

text \<open>
  The transaction of \<open>materialize_schedule\<close>. It runs after \<open>reconcile_state\<close> committed, so the
  definition is compared again.
\<close>

definition materialize_locked ::
    "chrono \<Rightarrow> schedule_registry \<Rightarrow> registered_schedule \<Rightarrow> string \<Rightarrow> db_millis \<Rightarrow> schedule_report dtx" where
  "materialize_locked K R entry key now =
     tx_bind (lock_schedule_row key) (\<lambda>state.
     if sch_definition_version state \<noteq> sm_version (rs_metadata entry) \<or>
        sch_definition_fingerprint state \<noteq> sm_fingerprint (rs_metadata entry)
     then tx_fail (Conflict (''schedule '' @ key @ '' definition changed while materializing''))
     else if sch_paused_at state \<noteq> None
     then tx_return ((empty_report key)\<lparr>srp_paused := True\<rparr>)
     else tick_schedule K R entry state now)"

text \<open>
  \<open>materialize_schedule\<close>: two transactions, with what other connections commit between them.
  The first is kept when the second fails.
\<close>

definition materialize_schedule ::
    "chrono \<Rightarrow> schedule_registry \<Rightarrow> string \<Rightarrow> db_millis \<Rightarrow> (db \<Rightarrow> db) \<Rightarrow> db \<Rightarrow>
     (durable_error fault + schedule_report) \<times> db" where
  "materialize_schedule K R key now others s =
     (case reconcile_state K R key now s of
        Inl e \<Rightarrow> (Inl e, s)
      | Inr (outcome, s1) \<Rightarrow>
          (case outcome of
             Rec_Inserted \<Rightarrow> (Inr (empty_report key), s1)
           | Rec_Upgraded \<Rightarrow> (Inr (empty_report key), s1)
           | Rec_NewerPersisted \<Rightarrow>
               (Inl (Err (Conflict (''schedule '' @ key @ '' has a newer persisted definition''))), s1)
           | Rec_Preserved \<Rightarrow>
               (case R key of
                  None \<Rightarrow> (Inl (Err (NotFound ''schedule definition'' key)), s1)
                | Some entry \<Rightarrow>
                    (case materialize_locked K R entry key now (others s1) of
                       Inl e \<Rightarrow> (Inl e, others s1)
                     | Inr (report, s2) \<Rightarrow> (Inr report, s2)))))"

definition materialize_schedule_now ::
    "chrono \<Rightarrow> schedule_registry \<Rightarrow> string \<Rightarrow> (db \<Rightarrow> db) \<Rightarrow> db \<Rightarrow>
     (durable_error fault + schedule_report) \<times> db" where
  "materialize_schedule_now K R key others s =
     (case database_now_millis s of
        Inl e \<Rightarrow> (Inl e, s)
      | Inr (now, s1) \<Rightarrow> materialize_schedule K R key now others s1)"

section \<open>Operator controls (T-A8, T-A9)\<close>

record schedule_control_outcome =
  sco_schedule_key :: string
  sco_paused :: bool

record schedule_run_now_outcome =
  srn_schedule_run_id :: i64
  srn_workflow_id :: i64
  srn_scheduled_for :: i64

definition require_schedule_registry :: "schedule_registry option \<Rightarrow> durable_error + schedule_registry" where
  "require_schedule_registry schedules =
     (case schedules of
        None \<Rightarrow> Inl (InvalidDefinition ''admin schedule controls require a schedule registry'')
      | Some R \<Rightarrow> Inr R)"

definition lock_schedule_state :: "string \<Rightarrow> schedule_state_row dtx" where
  "lock_schedule_state key =
     tx_bind (tx_query (\<lambda>s. schedule_state_by_key s key)) (tx_some (not_found ''schedule state'' key))"

definition validate_schedule_state :: "schedule_state_row \<Rightarrow> schedule_metadata \<Rightarrow> durable_error + unit" where
  "validate_schedule_state state definition =
     (if sch_definition_version state = sm_version definition \<and>
         sch_definition_fingerprint state = sm_fingerprint definition
      then Inr ()
      else Inl (Conflict (''schedule '' @ sch_schedule_key state @
        '' persisted definition does not match registered v'' @ dec_int (sm_version definition))))"

definition set_schedule_paused ::
    "schedule_registry option \<Rightarrow> string \<Rightarrow> bool \<Rightarrow> operator \<Rightarrow> schedule_control_outcome dtx" where
  "set_schedule_paused schedules key paused operator =
     tx_bind (tx_lift (require_schedule_registry schedules)) (\<lambda>R.
     tx_bind (tx_some (not_found ''schedule definition'' key) (R key)) (\<lambda>entry.
     tx_bind (tx_lift (operator_actor_id operator)) (\<lambda>actor_id.
     tx_bind (lock_schedule_state key) (\<lambda>state.
     tx_seq (tx_lift (validate_schedule_state state (rs_metadata entry)))
     (if paused = (sch_paused_at state \<noteq> None)
      then tx_fail (Conflict (''schedule '' @ key @ '' is already '' @
             (if paused then ''paused'' else ''active'')))
      else
        tx_bind database_now_millis (\<lambda>now.
        tx_seq (fenced (if paused
          then schedule_state_update (\<lambda>r. sch_schedule_key r = key \<and> sch_paused_at r = None)
                 (\<lambda>r. r\<lparr>sch_paused_at := Some now, sch_paused_by := Some actor_id,
                       sch_pause_reason := Some (op_reason operator), sch_updated_at := now\<rparr>)
          else schedule_state_update (\<lambda>r. sch_schedule_key r = key \<and> sch_paused_at r \<noteq> None)
                 (\<lambda>r. r\<lparr>sch_paused_at := None, sch_paused_by := None, sch_pause_reason := None,
                       sch_updated_at := now\<rparr>)))
        (tx_return \<lparr>sco_schedule_key = key, sco_paused = paused\<rparr>)))))))"

definition pause_schedule ::
    "schedule_registry option \<Rightarrow> string \<Rightarrow> operator \<Rightarrow> schedule_control_outcome dtx" where
  "pause_schedule schedules key operator = set_schedule_paused schedules key True operator"

definition resume_schedule ::
    "schedule_registry option \<Rightarrow> string \<Rightarrow> operator \<Rightarrow> schedule_control_outcome dtx" where
  "resume_schedule schedules key operator = set_schedule_paused schedules key False operator"

definition overlap_debug :: "overlap_policy \<Rightarrow> string" where
  "overlap_debug overlap =
     (case overlap of Allow \<Rightarrow> ''Allow'' | SkipIfActive \<Rightarrow> ''SkipIfActive'' | QueueOne \<Rightarrow> ''QueueOne'')"

definition last_scheduled :: "string \<Rightarrow> db \<Rightarrow> db_millis option" where
  "last_scheduled key s =
     (case map run_scheduled_for (filter (\<lambda>r. run_schedule_key r = key) (schedule_runs s)) of
        [] \<Rightarrow> None | t # ts \<Rightarrow> Some (fold max ts t))"

definition run_now_time :: "db_millis option \<Rightarrow> db_millis \<Rightarrow> db_millis" where
  "run_now_time last_run now =
     (case Option.bind last_run (\<lambda>l. checked_plus_millis l 1) of
        None \<Rightarrow> now | Some following \<Rightarrow> max following now)"

definition manual_run :: "string \<Rightarrow> db_millis \<Rightarrow> i32 \<Rightarrow> operator \<Rightarrow> db_millis \<Rightarrow> schedule_run_row" where
  "manual_run key scheduled_for actor_id operator now =
     \<lparr>run_id = 0, run_schedule_key = key,
      run_local_occurrence = MANUAL_OCCURRENCE_PREFIX @ dec_int scheduled_for,
      run_scheduled_for = scheduled_for, run_materialized_at = now, run_status = SR_Materializing,
      run_reason = Some (op_reason operator), run_actor_id = Some actor_id, run_workflow_id = None,
      run_created_at = now\<rparr>"

text \<open>\<open>has_context\<close>: whether the controls were built with an application context.\<close>

definition run_schedule_now ::
    "schedule_registry option \<Rightarrow> bool \<Rightarrow> string \<Rightarrow> operator \<Rightarrow> schedule_run_now_outcome dtx" where
  "run_schedule_now schedules has_context key operator =
     tx_bind (tx_lift (require_schedule_registry schedules)) (\<lambda>R.
     tx_seq (tx_require has_context
       (InvalidDefinition ''admin schedule controls require an application context''))
     (tx_bind (tx_some (not_found ''schedule definition'' key) (R key)) (\<lambda>entry.
     tx_bind (tx_lift (operator_actor_id operator)) (\<lambda>actor_id.
     tx_bind (lock_schedule_state key) (\<lambda>state.
     tx_seq (tx_lift (validate_schedule_state state (rs_metadata entry)))
     (tx_bind (tx_query (active_workflow_count state)) (\<lambda>active.
      if sm_overlap (rs_metadata entry) \<noteq> Allow \<and> active > 0
      then tx_fail (Conflict (''schedule '' @ key @ '' has an active run; overlap policy '' @
             overlap_debug (sm_overlap (rs_metadata entry)) @ '' rejects run-now''))
      else
        tx_bind database_now_millis (\<lambda>now.
        tx_bind (tx_query (last_scheduled key)) (\<lambda>last_run.
        let scheduled_for = run_now_time last_run now in
        tx_bind (insert_schedule_run (manual_run key scheduled_for actor_id operator now))
          (\<lambda>schedule_run_id.
        tx_bind (start_occurrence R key schedule_run_id scheduled_for) (\<lambda>workflow_id.
        tx_seq (fenced (link_schedule_run
          (\<lambda>r. run_id r = schedule_run_id \<and> run_status r = SR_Materializing) workflow_id
          (\<lambda>r. r\<lparr>run_status := SR_Started\<rparr>)))
        (tx_seq (append_operator_event workflow_id ''schedule_run_now'' operator now)
        (tx_return \<lparr>srn_schedule_run_id = schedule_run_id, srn_workflow_id = workflow_id,
                     srn_scheduled_for = scheduled_for\<rparr>)))))))))))))"

section \<open>What a handler owes\<close>

definition schedules_kept :: "db \<Rightarrow> db \<Rightarrow> bool" where
  "schedules_kept s s' \<longleftrightarrow>
     schedule_runs s' = schedule_runs s \<and> schedule_states s' = schedule_states s \<and>
     next_schedule_run_id s' = next_schedule_run_id s"

interpretation schedule_frame: guarantee schedules_kept
  by unfold_locales (auto simp: schedules_kept_def)

text \<open>
  The contract of \<open>ScheduleHandler::start_occurrence\<close>: it starts exactly one workflow, linked to
  the run, and leaves the schedule tables alone.
\<close>

locale occurrence_starter =
  fixes h :: occurrence_handler
  assumes starter_evolves: "guarantees db_evolves (h run at)"
    and starter_rows: "keeps rows_ok (h run at)"
    and starter_frame: "guarantees schedules_kept (h run at)"
    and starter_one: "h run at s = Inr (i, s') \<Longrightarrow>
      \<exists>row. workflows s' = workflows s @ [row] \<and> wf_schedule_run_id row = Some run \<and>
        wf_status row = WS_Ready"

definition with_schedule_run_id :: "i64 \<Rightarrow> start_options \<Rightarrow> start_options" where
  "with_schedule_run_id schedule_run_id options = options\<lparr>so_schedule_run_id := Some schedule_run_id\<rparr>"

text \<open>The handler that starts a prepared workflow through the store.\<close>

definition store_starter :: "prepared_workflow_start \<Rightarrow> occurrence_handler" where
  "store_starter prepared schedule_run_id scheduled_for =
     tx_bind (start_prepared_with_conn prepared
       (with_schedule_run_id schedule_run_id StartOptions_default)) (\<lambda>outcome.
     tx_return (out_workflow_id outcome))"

lemma frame_insert_workflow [guar_intros]: "guarantees schedules_kept (insert_workflow row)"
  by (auto simp: guarantees_def insert_workflow_def schedules_kept_def split: if_splits)

lemma frame_append_event [guar_intros]: "guarantees schedules_kept (append_event e)"
  by (auto simp: guarantees_def append_event_def schedules_kept_def split: if_splits)

lemma frame_now [guar_intros]: "guarantees schedules_kept database_now_millis"
  by (auto simp: guarantees_def schedules_kept_def tx_simps)

lemma frame_insert_started [guar_intros]: "guarantees schedules_kept (insert_started row)"
  unfolding insert_started_def find_by_deduplication_key_def
  by (intro guar_intros)

lemma frame_start_prepared [guar_intros]: "guarantees schedules_kept (start_prepared_with_conn p q)"
  unfolding start_prepared_with_conn_def check_prepared_start_def start_prepared_in_def
    insert_prepared_untraced_def find_by_deduplication_key_def
  by (intro guar_intros)

lemma unkeyed_start_inserts:
  assumes "start_prepared_in prepared options s = Inr (out, s')" and "so_deduplication_key options = None"
  shows "out_inserted out"
proof -
  from assms obtain row started s1 s2 where start: "insert_started row s1 = Inr (started, s2)"
    and "wf_deduplication_key row = None"
    and "(case started of Started_Inserted i \<Rightarrow> tx_return \<lparr>out_workflow_id = i, out_inserted = True\<rparr>
         | Started_Existing r \<Rightarrow> tx_return \<lparr>out_workflow_id = wf_id r, out_inserted = False\<rparr>) s2
       = (Inr (out, s') :: durable_error fault + _)"
    unfolding start_prepared_in_def insert_prepared_untraced_def
    by (auto simp: tx_bind_Inr tx_return_Inr new_workflow_row_def)
  then show ?thesis by (cases rule: insert_started_cases [OF start]) (auto simp: tx_return_Inr)
qed

interpretation store_starter: occurrence_starter "store_starter prepared" for prepared
proof unfold_locales
  fix run at
  show "guarantees db_evolves (store_starter prepared run at)"
    unfolding store_starter_def by (intro guar_intros)
  show "keeps rows_ok (store_starter prepared run at)"
    unfolding store_starter_def by (intro keeps_intros)
  show "guarantees schedules_kept (store_starter prepared run at)"
    unfolding store_starter_def by (intro guar_intros)
next
  fix run at s i s' assume "store_starter prepared run at s = Inr (i, s')"
  then obtain out s1 where "start_prepared_in prepared (with_schedule_run_id run StartOptions_default) s1 = Inr (out, s')"
    and "workflows s1 = workflows s"
    unfolding store_starter_def start_prepared_with_conn_def check_prepared_start_def
    by (auto simp: tx_simps tx_bind_Inr tx_seq_Inr)
  then show "\<exists>row. workflows s' = workflows s @ [row] \<and> wf_schedule_run_id row = Some run \<and>
        wf_status row = WS_Ready"
    using unkeyed_start_inserts start_prepared_Inserted
    by (fastforce simp: with_schedule_run_id_def StartOptions_default_def so_deduplication_key_def)
qed

end
