(* ===== verification/Schedule_Cursor.thy ===== *)
theory Schedule_Cursor
  imports Schedules
begin

text \<open>
  The schedule invariants: a persisted cursor is strictly after every occurrence that has a
  run row (S27), and a schedule that does not allow overlap has at most one active run (S29).
  The lemmas hold for every registry whose handlers keep their contract.
\<close>

section \<open>Registries of well-behaved handlers\<close>

locale schedule_handlers =
  fixes R :: schedule_registry
  assumes starters: "R key = Some entry \<Longrightarrow> occurrence_starter (rs_handler entry)"
begin

lemma start_evolves: "guarantees db_evolves (start_occurrence R key run at)"
  unfolding start_occurrence_def
  by (auto intro!: guar_intros dest: starters occurrence_starter.starter_evolves split: option.split)

lemma start_rows: "keeps rows_ok (start_occurrence R key run at)"
  unfolding start_occurrence_def
  by (auto intro!: keeps_intros dest: starters occurrence_starter.starter_rows split: option.split)

lemma start_frame: "guarantees schedules_kept (start_occurrence R key run at)"
  unfolding start_occurrence_def
  by (auto intro!: guar_intros dest: starters occurrence_starter.starter_frame split: option.split)

lemma start_one:
  assumes "start_occurrence R key run at s = Inr (i, s')"
  shows "\<exists>row. workflows s' = workflows s @ [row] \<and> wf_schedule_run_id row = Some run \<and>
    wf_status row = WS_Ready"
  using assms occurrence_starter.starter_one [OF starters]
  by (auto simp: start_occurrence_def tx_simps split: option.splits)

end

definition store_registry ::
    "(string \<rightharpoonup> schedule_metadata \<times> calendar \<times> prepared_workflow_start) \<Rightarrow> schedule_registry" where
  "store_registry P key =
     map_option (\<lambda>(m, c, p). \<lparr>rs_metadata = m, rs_calendar = c, rs_handler = store_starter p\<rparr>) (P key)"

interpretation stored: schedule_handlers "store_registry P" for P
  by (rule schedule_handlers.intro) (auto simp: store_registry_def intro: store_starter.occurrence_starter_axioms)

section \<open>Evolution\<close>

lemma evolves_lock_schedule [guar_intros]:
  "guarantees db_evolves (lock_schedule_row key)" "guarantees db_evolves (lock_schedule_state key)"
  unfolding lock_schedule_row_def lock_schedule_state_def by (intro guar_intros)+

lemma evolves_tx_partial [guar_intros]: "guarantees db_evolves (tx_partial q)"
  unfolding tx_partial_def by (intro guar_intros)

lemma evolves_floor [guar_intros]: "guarantees db_evolves (MaterializedFloor_load K row)"
  unfolding MaterializedFloor_load_def by (intro guar_intros)

lemma evolves_start_run [guar_intros]:
  "guarantees db_evolves (link_schedule_run (\<lambda>r. run_id r = i \<and> run_status r = SR_Materializing) w
     (\<lambda>r. r\<lparr>run_status := SR_Started\<rparr>))"
  "guarantees db_evolves (link_schedule_run (\<lambda>r. run_id r = i \<and> run_status r = SR_Queued) w
     (\<lambda>r. r\<lparr>run_status := SR_Started, run_reason := q\<rparr>))"
  by (rule evolves_link_schedule_run; simp add: run_evolves_def run_identity_def)+

lemma evolves_upgrade_state [guar_intros]: "guarantees db_evolves (upgrade_state K entry row now)"
  unfolding upgrade_state_def Let_def
  by (intro guar_intros evolves_schedule_state_update) (simp add: state_evolves_def)

lemma evolves_reconcile_state [guar_intros]:
  "guarantees db_evolves (reconcile_entry K entry now)" "guarantees db_evolves (reconcile_state K R key now)"
  unfolding reconcile_state_def reconcile_entry_def Let_def by (intro guar_intros)+

lemma evolves_set_schedule_paused [guar_intros]:
  "guarantees db_evolves (set_schedule_paused schedules key paused operator)"
  unfolding set_schedule_paused_def
  by (intro guar_intros evolves_schedule_state_update) (simp_all add: state_evolves_def)

lemma evolves_advance_schedule [guar_intros]:
  "guarantees db_evolves (advance_schedule K metadata state cursor following now)"
  unfolding advance_schedule_def
  by (intro guar_intros evolves_schedule_state_update) (simp add: state_evolves_def)

lemma guarantees_outcome [guar_intros]:
  assumes "q = Occ_Start \<Longrightarrow> guarantees G a" and "\<And>r. q = Occ_Skip r \<Longrightarrow> guarantees G (b r)"
    and "q = Occ_Coalesce \<Longrightarrow> guarantees G c"
  shows "guarantees G (case q of Occ_Start \<Rightarrow> a | Occ_Skip r \<Rightarrow> b r | Occ_Coalesce \<Rightarrow> c)"
  using assms by (cases q) auto

lemma keeps_outcome [keeps_intros]:
  assumes "q = Occ_Start \<Longrightarrow> keeps I a" and "\<And>r. q = Occ_Skip r \<Longrightarrow> keeps I (b r)"
    and "q = Occ_Coalesce \<Longrightarrow> keeps I c"
  shows "keeps I (case q of Occ_Start \<Rightarrow> a | Occ_Skip r \<Rightarrow> b r | Occ_Coalesce \<Rightarrow> c)"
  using assms by (cases q) auto

lemma guarantees_list [guar_intros]:
  assumes "q = [] \<Longrightarrow> guarantees G a" and "\<And>x xs. q = x # xs \<Longrightarrow> guarantees G (b x xs)"
  shows "guarantees G (case q of [] \<Rightarrow> a | x # xs \<Rightarrow> b x xs)"
  using assms by (cases q) auto

lemma keeps_list [keeps_intros]:
  assumes "q = [] \<Longrightarrow> keeps I a" and "\<And>x xs. q = x # xs \<Longrightarrow> keeps I (b x xs)"
  shows "keeps I (case q of [] \<Rightarrow> a | x # xs \<Rightarrow> b x xs)"
  using assms by (cases q) auto

context schedule_handlers
begin

lemma promote_evolves: "guarantees db_evolves (promote_if_idle R key overlap t)"
  unfolding promote_if_idle_def promote_queued_def by (intro guar_intros start_evolves)

lemma occurrence_evolves:
  "guarantees db_evolves (materialize_occurrence R key overlap now occ outcome t)"
  unfolding materialize_occurrence_def by (intro guar_intros start_evolves)

lemma due_evolves: "guarantees db_evolves (materialize_due R key overlap now plan t)"
  by (induction plan arbitrary: t) (auto intro!: guar_intros occurrence_evolves)

lemma materialize_evolves: "guarantees db_evolves (materialize_locked K R entry key now)"
  unfolding materialize_locked_def tick_schedule_def finish_tick_def Let_def
  by (intro guar_intros promote_evolves due_evolves)

lemma run_now_evolves: "guarantees db_evolves (run_schedule_now (Some R) has_context key operator)"
  unfolding run_schedule_now_def require_schedule_registry_def Let_def
  by (intro guar_intros start_evolves) (auto simp: tx_simps intro: start_evolves)

lemma materialize_rows: "keeps rows_ok (materialize_locked K R entry key now)"
proof -
  have occ: "keeps rows_ok (materialize_occurrence R key' overlap now occ outcome t)" for key' overlap occ outcome t
    unfolding materialize_occurrence_def by (intro keeps_intros start_rows)
  have due: "keeps rows_ok (materialize_due R key' overlap now plan t)" for key' overlap plan t
    by (induction plan arbitrary: t) (auto intro!: keeps_intros occ)
  show ?thesis
    unfolding materialize_locked_def tick_schedule_def finish_tick_def promote_if_idle_def promote_queued_def
      advance_schedule_def lock_schedule_row_def tx_partial_def Let_def
    by (intro keeps_intros due start_rows)
qed

lemma run_now_rows: "keeps rows_ok (run_schedule_now (Some R) has_context key operator)"
  unfolding run_schedule_now_def require_schedule_registry_def lock_schedule_state_def Let_def
    append_operator_event_def
  by (intro keeps_intros start_rows) (auto simp: tx_simps intro: start_rows)

end

lemma rows_ok_schedule_control [keeps_intros]:
  "keeps rows_ok (reconcile_state K R key now)"
  "keeps rows_ok (set_schedule_paused schedules key paused operator)"
  unfolding reconcile_state_def reconcile_entry_def upgrade_state_def MaterializedFloor_load_def
    lock_schedule_row_def tx_partial_def set_schedule_paused_def lock_schedule_state_def Let_def
  by (intro keeps_intros)+

section \<open>The text of a local occurrence\<close>

text \<open>
  Cron expressions name the years 1970 to 2100. In whole seconds and with years of four
  digits the text form of a local time has a fixed width, so it is parsed back and ordered like
  the time, and it never starts like the key of an operator's run.
\<close>

definition fixed_width :: "naive \<Rightarrow> bool" where
  "fixed_width t \<longleftrightarrow> whole t \<and> 0 \<le> t \<and> t < 253402300800 * second"

definition chrono_ok :: "chrono \<Rightarrow> bool" where
  "chrono_ok K \<longleftrightarrow>
     (\<forall>t. fixed_width t \<longrightarrow> ch_parse K (ch_format K t) = Inr t) \<and>
     (\<forall>t u. fixed_width t \<longrightarrow> fixed_width u \<longrightarrow> t < u \<longrightarrow> ch_format K t < ch_format K u) \<and>
     (\<forall>t. fixed_width t \<longrightarrow> \<not> starts_with (ch_format K t) MANUAL_OCCURRENCE_PREFIX)"

definition cron_ok :: "calendar \<Rightarrow> bool" where
  "cron_ok C \<longleftrightarrow> (\<forall>t u. cal_after C t = Some u \<longrightarrow> t < u \<and> fixed_width u)"

definition keyed :: "chrono \<Rightarrow> string \<Rightarrow> bool" where
  "keyed K t \<longleftrightarrow> (\<exists>u. fixed_width u \<and> t = ch_format K u)"

definition good_occurrence :: "chrono \<Rightarrow> schedule_occurrence \<Rightarrow> bool" where
  "good_occurrence K occ \<longleftrightarrow>
     fixed_width (oc_local_datetime occ) \<and> oc_local_occurrence occ = ch_format K (oc_local_datetime occ)"

lemma fixed_width_local: "fixed_width t \<Longrightarrow> LocalOccurrence_new t = t"
  by (simp add: fixed_width_def whole_def LocalOccurrence_new_def)

lemma good_local [simp]: "good_occurrence K occ \<Longrightarrow> oc_local occ = oc_local_datetime occ"
  by (simp add: good_occurrence_def oc_local_def fixed_width_local)

lemma good_keyed: "good_occurrence K occ \<Longrightarrow> keyed K (oc_local_occurrence occ)"
  by (auto simp: good_occurrence_def keyed_def)

lemma resolve_good: "resolve K C t = Inr occ \<Longrightarrow> fixed_width t \<Longrightarrow> good_occurrence K occ"
  by (auto simp: resolve_def occurrence_def good_occurrence_def LocalOccurrence_to_string_def
      fixed_width_local Let_def split: local_result.splits option.splits)

lemma next_good:
  assumes "cron_ok C" and "next_after_local K C t = Inr occ"
  shows "good_occurrence K occ" and "t < oc_local_datetime occ"
proof -
  obtain u where u: "cal_after C t = Some u" "resolve K C u = Inr occ"
    using assms(2) by (auto simp: next_after_local_def split: option.splits)
  with assms(1) have "t < u" "fixed_width u" by (auto simp: cron_ok_def)
  with u show "good_occurrence K occ" and "t < oc_local_datetime occ"
    by (auto dest: resolve_good resolve_local)
qed

lemma next_after_loop_good:
  assumes "next_after_loop K C now candidate = Some q"
  shows "cron_ok C \<longrightarrow> (\<forall>x. candidate = Inr x \<longrightarrow> good_occurrence K x) \<longrightarrow> (\<forall>x. q = Inr x \<longrightarrow> good_occurrence K x)"
proof (rule next_after_loop.raw_induct [OF _ assms])
  fix loop :: "chrono \<Rightarrow> calendar \<Rightarrow> i64 \<Rightarrow> durable_error + schedule_occurrence \<Rightarrow> (durable_error + schedule_occurrence) option"
    and K C now candidate q
  assume IH: "\<And>K C now candidate q. loop K C now candidate = Some q \<Longrightarrow>
      cron_ok C \<longrightarrow> (\<forall>x. candidate = Inr x \<longrightarrow> good_occurrence K x) \<longrightarrow> (\<forall>x. q = Inr x \<longrightarrow> good_occurrence K x)"
    and step: "(case candidate of Inl e \<Rightarrow> Some (Inl e)
      | Inr found \<Rightarrow>
          if oc_scheduled_for found \<le> now
          then loop K C now (next_after_local K C (oc_local_datetime found)) else Some (Inr found)) = Some q"
  show "cron_ok C \<longrightarrow> (\<forall>x. candidate = Inr x \<longrightarrow> good_occurrence K x) \<longrightarrow> (\<forall>x. q = Inr x \<longrightarrow> good_occurrence K x)"
  proof (cases candidate)
    case (Inr found)
    with step show ?thesis
      using IH [of K C now "next_after_local K C (oc_local_datetime found)" q] next_good(1)
      by (auto split: if_splits)
  qed (use step in auto)
qed

lemma next_after_good:
  assumes "cron_ok C" and "next_after K C now = Some (Inr occ)"
  shows "good_occurrence K occ"
  using assms next_after_loop_good next_good(1) unfolding next_after_def by blast

text \<open>The due occurrences of a tick lie strictly before the cursor it moves to.\<close>

lemma due_loop_below:
  assumes "due_loop K C now due occ = Inr (due', following)" and "cron_ok C" and "good_occurrence K occ"
    and "\<forall>d\<in>set due. good_occurrence K d \<and> oc_local_datetime d < oc_local_datetime occ"
  shows "good_occurrence K following \<and> oc_local_datetime occ \<le> oc_local_datetime following \<and>
    (\<forall>d\<in>set due'. good_occurrence K d \<and> oc_local_datetime d < oc_local_datetime following)"
  using assms
proof (induction K C now due occ rule: due_loop.induct)
  case (1 K C now due occ)
  show ?case
  proof (cases "oc_due_at occ \<le> now \<and> int (length due) < MAX_DUE_OCCURRENCES_PER_TICK")
    case True
    with "1.prems"(1) obtain occ' where nxt: "next_after_local K C (oc_local_datetime occ) = Inr occ'"
      and loop: "due_loop K C now (due @ [occ]) occ' = Inr (due', following)"
      by (subst (asm) due_loop.simps) (auto split: sum.splits)
    note good = next_good [OF "1.prems"(2) nxt]
    with 1(1) [OF True nxt loop "1.prems"(2)] "1.prems"(3,4) show ?thesis by fastforce
  next
    case False
    with "1.prems" show ?thesis by (subst (asm) due_loop.simps) auto
  qed
qed

lemma plan_due:
  assumes "plan_due_chunk K C occ policy grace now = Some (Inr (due, following, outcomes))"
  shows "due_loop K C now [] occ = Inr (due, following)"
  using assms by (auto simp: plan_due_chunk_def split: sum.splits option.splits if_splits)

section \<open>The cursor is ahead (S27)\<close>

definition cursor_text :: "db \<Rightarrow> string \<Rightarrow> string option" where
  "cursor_text s key = map_option sch_next_local_occurrence (schedule_state_by_key s key)"

definition runs_below :: "chrono \<Rightarrow> (string \<rightharpoonup> string) \<Rightarrow> db \<Rightarrow> bool" where
  "runs_below K b s \<longleftrightarrow>
     (\<forall>r\<in>set (schedule_runs s). is_manual r \<or>
        keyed K (run_local_occurrence r) \<and>
        (\<exists>t. b (run_schedule_key r) = Some t \<and> run_local_occurrence r < t))"

definition cursor_ahead :: "chrono \<Rightarrow> db \<Rightarrow> bool" where
  "cursor_ahead K s \<longleftrightarrow>
     (\<forall>key t. cursor_text s key = Some t \<longrightarrow> keyed K t) \<and> runs_below K (cursor_text s) s"

lemma run_manual_cong: "run_identity r' = run_identity r \<Longrightarrow> is_manual r' = is_manual r"
  by (simp add: is_manual_def run_identity_def)

lemma runs_below_link:
  assumes "\<And>r. run_identity ((f r)\<lparr>run_workflow_id := Some w\<rparr>) = run_identity r"
  shows "keeps (runs_below K b) (link_schedule_run P w f)"
  using assms
  by (fastforce simp: keeps_def link_schedule_run_def tx_simps runs_below_def is_manual_def run_identity_def
      split: if_splits)

lemma runs_below_insert:
  assumes "is_manual row \<or> keyed K (run_local_occurrence row) \<and>
    (\<exists>t. b (run_schedule_key row) = Some t \<and> run_local_occurrence row < t)"
  shows "keeps (runs_below K b) (insert_schedule_run row)"
  using assms by (auto simp: keeps_def runs_below_def is_manual_def dest!: insert_schedule_run_Inr)

lemma frame_operator_event [guar_intros]:
  "guarantees schedules_kept (append_operator_event i e operator now)"
  unfolding append_operator_event_def next_event_sequence_def by (intro guar_intros)

lemma runs_below_frame: "guarantees schedules_kept m \<Longrightarrow> keeps (runs_below K b) m"
  by (auto simp: keeps_def guarantees_def schedules_kept_def runs_below_def)

definition states_kept :: "db \<Rightarrow> db \<Rightarrow> bool" where
  "states_kept s s' \<longleftrightarrow> schedule_states s' = schedule_states s"

interpretation state_frame: guarantee states_kept
  by unfold_locales (auto simp: states_kept_def)

lemma states_kept_statements [guar_intros]:
  "guarantees states_kept (insert_schedule_run row)"
  "guarantees states_kept (link_schedule_run P w f)"
  "guarantees states_kept database_now_millis"
  "guarantees states_kept (append_event e)"
  by (auto simp: guarantees_def states_kept_def link_schedule_run_def tx_simps append_event_Inr
      dest!: insert_schedule_run_Inr split: if_splits)

lemma states_kept_fenced [guar_intros]: "guarantees states_kept m \<Longrightarrow> guarantees states_kept (fenced m)"
  unfolding fenced_def by (intro guar_intros)

lemma states_kept_event [guar_intros]: "guarantees states_kept (append_operator_event i e operator now)"
  unfolding append_operator_event_def next_event_sequence_def by (intro guar_intros)

lemma states_kept_schedules: "guarantees schedules_kept m \<Longrightarrow> guarantees states_kept m"
  by (auto simp: guarantees_def schedules_kept_def states_kept_def)

lemma cursor_text_kept: "states_kept s s' \<Longrightarrow> cursor_text s' = cursor_text s"
  by (simp add: fun_eq_iff states_kept_def cursor_text_def schedule_state_by_key_def)

context schedule_handlers
begin

lemma start_below: "keeps (runs_below K b) (start_occurrence R key run at)"
  using start_frame by (rule runs_below_frame)

lemma start_states: "guarantees states_kept (start_occurrence R key run at)"
  using start_frame by (rule states_kept_schedules)

lemma promote_below: "keeps (runs_below K b) (promote_if_idle R key overlap t)"
  unfolding promote_if_idle_def promote_queued_def
  by (intro keeps_intros start_below runs_below_link) (simp add: run_identity_def)

lemma promote_states: "guarantees states_kept (promote_if_idle R key overlap t)"
  unfolding promote_if_idle_def promote_queued_def by (intro guar_intros start_states)

lemma occurrence_below:
  assumes "good_occurrence K occ" and "b key = Some bound" and "oc_local_occurrence occ < bound"
  shows "keeps (runs_below K b) (materialize_occurrence R key overlap now occ outcome t)"
  unfolding materialize_occurrence_def
  by (intro keeps_intros start_below runs_below_link runs_below_insert)
    (use assms in \<open>auto simp: new_schedule_run_def run_identity_def good_keyed\<close>)

lemma occurrence_states:
  "guarantees states_kept (materialize_occurrence R key overlap now occ outcome t)"
  unfolding materialize_occurrence_def by (intro guar_intros start_states)

lemma due_below:
  assumes "\<forall>occ \<in> fst ` set plan. good_occurrence K occ \<and> oc_local_occurrence occ < bound" and "b key = Some bound"
  shows "keeps (runs_below K b) (materialize_due R key overlap now plan t)"
  using assms
  by (induction plan arbitrary: t) (auto intro!: keeps_intros occurrence_below)

lemma due_states: "guarantees states_kept (materialize_due R key overlap now plan t)"
  by (induction plan arbitrary: t) (auto intro!: guar_intros occurrence_states)

end

lemma keyed_load:
  assumes "chrono_ok K" and "fixed_width u"
  shows "ScheduleCursor_load K key (ch_format K u) = Inr u"
  using assms by (simp add: ScheduleCursor_load_def LocalOccurrence_from_str_def chrono_ok_def)

lemma format_less: "\<lbrakk>chrono_ok K; fixed_width t; fixed_width u; t < u\<rbrakk> \<Longrightarrow> ch_format K t < ch_format K u"
  by (simp add: chrono_ok_def)

lemma format_le: "\<lbrakk>chrono_ok K; fixed_width t; fixed_width u; t \<le> u\<rbrakk> \<Longrightarrow> ch_format K t \<le> ch_format K u"
  using format_less [of K t u] by (cases "t = u") auto

lemma runs_below_mono:
  assumes "runs_below K b s" and "\<And>key t. b key = Some t \<Longrightarrow> \<exists>t'. b' key = Some t' \<and> t \<le> t'"
  shows "runs_below K b' s"
  using assms unfolding runs_below_def by (meson order_less_le_trans)

text \<open>A write to the locked row moves the cursor of its schedule and no other.\<close>

lemma cursor_text_update:
  assumes "schedule_state_by_key s key = Some state" and "P state"
    and "\<And>r. P r \<Longrightarrow> sch_schedule_key r = key"
    and "\<And>r. sch_schedule_key (f r) = sch_schedule_key r" and "\<And>r. sch_next_local_occurrence (f r) = t"
    and "schedule_states s' = map (\<lambda>r. if P r then f r else r) (schedule_states s)"
  shows "cursor_text s' = (cursor_text s)(key \<mapsto> t)"
proof
  fix k
  have "schedule_state_by_key s' k = map_option (\<lambda>r. if P r then f r else r) (schedule_state_by_key s k)"
    unfolding schedule_state_by_key_def assms(6) by (rule find_map_key) (simp add: assms(4))
  moreover have "schedule_state_by_key s k = Some r \<Longrightarrow> sch_schedule_key r = k" for r
    by (auto simp: schedule_state_by_key_def find_Some_iff)
  ultimately show "cursor_text s' k = ((cursor_text s)(key \<mapsto> t)) k"
    using assms(1,2,3,5) by (cases "k = key"; cases "schedule_state_by_key s k") (auto simp: cursor_text_def)
qed

lemma cursor_aheadI:
  assumes "cursor_ahead K s" and "cursor_text s' = (cursor_text s)(key \<mapsto> t)" and "keyed K t"
    and "runs_below K (cursor_text s') s'"
  shows "cursor_ahead K s'"
  using assms unfolding cursor_ahead_def by auto

lemma occurrence_inspected:
  assumes "materialize_occurrence R key overlap now occ outcome t s = Inr (t', s')"
  shows "srp_inspected (tk_report t') = srp_inspected (tk_report t)"
  using assms
  by (auto simp: materialize_occurrence_def tx_simps tx_bind_Inr tx_seq_Inr count_started_def
      count_queued_def count_skipped_def count_coalesced_def
      split: option.splits occurrence_outcome.splits)

lemma due_inspected:
  assumes "materialize_due R key overlap now plan t s = Inr (t', s')"
  shows "srp_inspected (tk_report t') = srp_inspected (tk_report t)"
  using assms
  by (induction plan arbitrary: t s) (auto simp: tx_simps tx_bind_Inr occurrence_inspected dest!: occurrence_inspected)

context schedule_handlers
begin

lemma tick_ahead:
  assumes K: "chrono_ok K" and C: "cron_ok (rs_calendar entry)" and ahead: "cursor_ahead K s"
    and state: "schedule_state_by_key s (sch_schedule_key state) = Some state"
    and fit: "sch_definition_version state = sm_version (rs_metadata entry)"
      "sch_definition_fingerprint state = sm_fingerprint (rs_metadata entry)"
    and run: "tick_schedule K R entry state now s = Inr (report, s')"
  shows "cursor_ahead K s'"
proof -
  let ?key = "sch_schedule_key state" and ?C = "rs_calendar entry"
  obtain u where u: "fixed_width u" "sch_next_local_occurrence state = ch_format K u"
    using ahead state by (auto simp: cursor_ahead_def keyed_def cursor_text_def)
  from run obtain t s1 occ due following outcomes t1 s2 where
    promote: "promote_if_idle R ?key (sm_overlap (rs_metadata entry))
        \<lparr>tk_active = active_workflow_count state s, tk_queued = queued_run_exists ?key s,
         tk_report = empty_report ?key\<rparr> s = Inr (t, s1)"
    and occ: "occurrence_at_local K ?C u = Inr occ"
    and plan: "plan_due_chunk K ?C occ (sm_misfire (rs_metadata entry))
          (sm_misfire_grace_millis (rs_metadata entry)) now = Some (Inr (due, following, outcomes))"
    and due: "materialize_due R ?key (sm_overlap (rs_metadata entry)) now (zip due outcomes)
          (t\<lparr>tk_report := (tk_report t)\<lparr>srp_inspected := int (length due)\<rparr>\<rparr>) s1 = Inr (t1, s2)"
    and fin: "finish_tick K (rs_metadata entry) state u following now (tk_report t1) s2 = Inr (report, s')"
    unfolding tick_schedule_def Let_def tx_bind_Inr
    by (auto simp: tx_simps tx_partial_def keyed_load [OF K u(1)] u(2) u32_try_from_Some
        split: if_splits option.splits)
  have good: "good_occurrence K occ" "oc_local_datetime occ = u"
    using occ u(1) by (auto simp: occurrence_at_local_def dest: resolve_good resolve_local)
  note below = due_loop_below [OF plan_due [OF plan] C good(1)]
  have follow: "good_occurrence K following" "u \<le> oc_local_datetime following"
    "\<And>d. d \<in> set due \<Longrightarrow> good_occurrence K d \<and> oc_local_datetime d < oc_local_datetime following"
    using below good(2) by auto
  let ?f = "ch_format K (oc_local_datetime following)"
  let ?b = "(cursor_text s)(?key \<mapsto> ?f)"
  have s1: "runs_below K (cursor_text s) s1" "cursor_text s1 = cursor_text s"
    using keepsD [OF promote_below _ promote] cursor_text_kept [OF guaranteesD [OF promote_states promote]] ahead
    by (simp_all add: cursor_ahead_def)
  have s2: "cursor_text s2 = cursor_text s" "schedule_states s2 = schedule_states s"
    using cursor_text_kept [OF guaranteesD [OF due_states due]] s1(2)
      guaranteesD [OF due_states due] guaranteesD [OF promote_states promote]
    by (simp_all add: states_kept_def)
  show ?thesis
  proof (cases "due = []")
    case True
    with due have "s2 = s1" by (simp add: tx_simps)
    moreover have "s' = s2" using fin due_inspected [OF due] True by (simp add: finish_tick_def tx_simps)
    ultimately show ?thesis using s1 ahead by (simp add: cursor_ahead_def)
  next
    case False
    have "runs_below K ?b s1"
    proof (rule runs_below_mono [OF s1(1)])
      fix key t assume "cursor_text s key = Some t"
      then show "\<exists>t'. ?b key = Some t' \<and> t \<le> t'"
        using state u follow format_le [OF K u(1)]
        by (auto simp: cursor_text_def good_occurrence_def)
    qed
    moreover have "\<forall>d \<in> fst ` set (zip due outcomes). good_occurrence K d \<and> oc_local_occurrence d < ?f"
      using follow format_less [OF K] by (fastforce simp: good_occurrence_def dest: set_zip_leftD)
    ultimately have s2_below: "runs_below K ?b s2"
      using keepsD [OF due_below [where bound = ?f and b = ?b] _ due] by simp
    from fin False obtain
      upd: "schedule_states s' = map (\<lambda>r. if sch_schedule_key r = ?key \<and>
            sch_definition_version r = sm_version (rs_metadata entry) \<and>
            sch_definition_fingerprint r = sm_fingerprint (rs_metadata entry) \<and>
            sch_next_local_occurrence r = sch_next_local_occurrence state
          then r\<lparr>sch_next_local_occurrence := ?f, sch_next_occurrence_at := oc_due_at following,
             sch_last_materialized_at := Some now, sch_updated_at := now\<rparr> else r) (schedule_states s2)"
      and runs: "schedule_runs s' = schedule_runs s2"
      using follow(1) due_inspected [OF due]
      by (auto simp: finish_tick_def advance_schedule_def tx_simps tx_bind_Inr tx_seq_Inr fenced_def
          ScheduleCursor_advance_to_def LocalOccurrence_to_string_def split: if_splits)
    have cursor: "cursor_text s' = ?b"
      using cursor_text_update [OF state _ _ _ _ upd [unfolded s2(2)]] fit by simp
    have "keyed K ?f" using good_keyed [OF follow(1)] follow(1) by (simp add: good_occurrence_def)
    then show ?thesis
      by (rule cursor_aheadI [OF ahead cursor]) (use s2_below runs cursor in \<open>simp add: runs_below_def\<close>)
  qed
qed

lemma materialize_ahead:
  assumes "chrono_ok K" and "cron_ok (rs_calendar entry)"
  shows "keeps (cursor_ahead K) (materialize_locked K R entry key now)"
proof (rule keepsI)
  fix s report s' assume ahead: "cursor_ahead K s"
    and run: "materialize_locked K R entry key now s = Inr (report, s')"
  then obtain state where state: "schedule_state_by_key s key = Some state"
    by (auto simp: materialize_locked_def lock_schedule_row_def tx_bind_Inr tx_simps)
  then have key: "sch_schedule_key state = key" by (auto simp: schedule_state_by_key_def find_Some_iff)
  from run state consider "s' = s"
    | "sch_definition_version state = sm_version (rs_metadata entry)"
      "sch_definition_fingerprint state = sm_fingerprint (rs_metadata entry)"
      "tick_schedule K R entry state now s = Inr (report, s')"
    by (auto simp: materialize_locked_def lock_schedule_row_def tx_bind_Inr tx_simps split: if_splits)
  then show "cursor_ahead K s'"
    using ahead state key tick_ahead [OF assms ahead, of state] by cases auto
qed

lemma run_now_ahead: "keeps (cursor_ahead K) (run_schedule_now (Some R) has_context key operator)"
proof (rule keepsI)
  let ?m = "run_schedule_now (Some R) has_context key operator"
  fix s out s' assume ahead: "cursor_ahead K s" and run: "?m s = Inr (out, s')"
  have manual: "is_manual (manual_run key at actor operator now)" for at actor now
    by (simp add: is_manual_def manual_run_def starts_with_def)
  have below: "keeps (runs_below K (cursor_text s)) ?m"
    unfolding run_schedule_now_def require_schedule_registry_def lock_schedule_state_def Let_def option.case
    by (intro keeps_intros start_below runs_below_link runs_below_insert
        runs_below_frame [OF frame_now] runs_below_frame [OF frame_operator_event])
      (auto simp: tx_simps manual run_identity_def intro: start_below)
  have "guarantees states_kept ?m"
    unfolding run_schedule_now_def require_schedule_registry_def lock_schedule_state_def Let_def option.case
    by (intro guar_intros start_states) (auto simp: tx_simps intro: start_states)
  then have "cursor_text s' = cursor_text s" using run by (blast intro: cursor_text_kept dest: guaranteesD)
  then show "cursor_ahead K s'"
    using ahead keepsD [OF below _ run] by (simp add: cursor_ahead_def)
qed

end

text \<open>The upgrade looks past the largest text that has a run row.\<close>

lemma largest_text_max:
  assumes "largest_text texts = Some t"
  shows "t \<in> set texts" and "\<And>x. x \<in> set texts \<Longrightarrow> x \<le> t"
proof -
  obtain y ys where "texts = y # ys" "t = fold max ys y"
    using assms by (auto simp: largest_text_def split: list.splits)
  then have t: "t = Max (set texts)" by (simp only: Max.set_eq_fold)
  have "finite (set texts)" "set texts \<noteq> {}" using \<open>texts = y # ys\<close> by simp_all
  then show "t \<in> set texts" and "\<And>x. x \<in> set texts \<Longrightarrow> x \<le> t"
    unfolding t by (auto intro: Max_in)
qed

lemma upgrade_good:
  assumes C: "cron_ok C" and up: "ScheduleCursor_upgrade K C now floor = Some (Inr (cursor, target))"
  shows "good_occurrence K target" and "cursor = oc_local_datetime target"
    and "\<And>l. floor = Some l \<Longrightarrow> l < oc_local_datetime target"
proof -
  obtain following where f: "next_after K C now = Some (Inr following)"
    using up by (auto simp: ScheduleCursor_upgrade_def split: option.splits sum.splits)
  note good = next_after_good [OF C f]
  have "good_occurrence K target \<and> cursor = oc_local_datetime target \<and>
      (\<forall>l. floor = Some l \<longrightarrow> l < oc_local_datetime target)"
  proof (cases "\<exists>l. floor = Some l \<and> oc_local following \<le> l")
    case True
    then obtain l where l: "floor = Some l" "oc_local following \<le> l" by blast
    with up f have "next_after_local K C l = Inr target" "cursor = oc_local target"
      by (cases "next_after_local K C l"; simp add: ScheduleCursor_upgrade_def)+
    with next_good [OF C this(1)] l show ?thesis by auto
  next
    case False
    with up f have "target = following" "cursor = oc_local following"
      by (auto simp: ScheduleCursor_upgrade_def split: option.splits)
    with False good show ?thesis by auto
  qed
  then show "good_occurrence K target" and "cursor = oc_local_datetime target"
    and "\<And>l. floor = Some l \<Longrightarrow> l < oc_local_datetime target" by auto
qed

lemma upgrade_above:
  assumes K: "chrono_ok K" and C: "cron_ok C" and "runs_below K b s"
    and floor: "MaterializedFloor_load K row s = Inr (floor, s1)"
    and up: "ScheduleCursor_upgrade K C now floor = Some (Inr (cursor, target))"
  shows "s1 = s" and "keyed K (ch_format K cursor)"
    and "\<And>r. \<lbrakk>r \<in> set (schedule_runs s); run_schedule_key r = sch_schedule_key row; \<not> is_manual r\<rbrakk> \<Longrightarrow>
      run_local_occurrence r < ch_format K cursor"
proof -
  let ?texts = "map run_local_occurrence
       (filter (\<lambda>r. run_schedule_key r = sch_schedule_key row \<and> \<not> is_manual r) (schedule_runs s))"
  show "s1 = s" using floor
    by (auto simp: MaterializedFloor_load_def tx_bind_Inr tx_simps split: option.splits sum.splits)
  note good = upgrade_good(1,2) [OF C up] and above = upgrade_good(3) [OF C up]
  then show "keyed K (ch_format K cursor)" by (auto simp: keyed_def good_occurrence_def)
  fix r assume r: "r \<in> set (schedule_runs s)" "run_schedule_key r = sch_schedule_key row" "\<not> is_manual r"
  then have mem: "run_local_occurrence r \<in> set ?texts" by auto
  then obtain t where t: "largest_text ?texts = Some t" by (cases ?texts) (auto simp: largest_text_def)
  then have "t \<in> set ?texts" by (rule largest_text_max)
  with assms(3) obtain u where u: "fixed_width u" "t = ch_format K u" by (auto simp: runs_below_def keyed_def)
  with t floor K have "floor = Some u"
    by (auto simp: MaterializedFloor_load_def tx_bind_Inr tx_simps LocalOccurrence_from_str_def chrono_ok_def
        split: sum.splits)
  with above have "u < oc_local_datetime target" by simp
  with u good have "t < ch_format K cursor" using format_less [OF K] by (auto simp: good_occurrence_def)
  with largest_text_max(2) [OF t mem] show "run_local_occurrence r < ch_format K cursor" by simp
qed

definition upgraded_row ::
    "chrono \<Rightarrow> schedule_metadata \<Rightarrow> naive \<Rightarrow> schedule_occurrence \<Rightarrow> db_millis \<Rightarrow> schedule_state_row \<Rightarrow>
     schedule_state_row" where
  "upgraded_row K metadata cursor target now r =
     (if sch_schedule_key r = sm_key metadata
      then r\<lparr>sch_definition_fingerprint := sm_fingerprint metadata,
             sch_definition_version := sm_version metadata,
             sch_next_local_occurrence := LocalOccurrence_to_string K cursor,
             sch_next_occurrence_at := oc_due_at target, sch_updated_at := now\<rparr>
      else r)"

lemma upgrade_stateE:
  assumes "upgrade_state K entry row now s = Inr (out, s')"
  obtains floor cursor target where "MaterializedFloor_load K row s = Inr (floor, s)"
    and "ScheduleCursor_upgrade K (rs_calendar entry) now floor = Some (Inr (cursor, target))"
    and "s' = s\<lparr>schedule_states := map (upgraded_row K (rs_metadata entry) cursor target now) (schedule_states s)\<rparr>"
    and "out = Rec_Upgraded"
proof -
  have read: "MaterializedFloor_load K row s = Inr (floor, s1) \<Longrightarrow> s1 = s" for floor s1
    by (auto simp: MaterializedFloor_load_def tx_bind_Inr tx_simps split: option.splits sum.splits)
  from assms obtain floor s1 cursor target where load: "MaterializedFloor_load K row s = Inr (floor, s1)"
    and "ScheduleCursor_upgrade K (rs_calendar entry) now floor = Some (Inr (cursor, target))"
    and "s' = s1\<lparr>schedule_states := map (upgraded_row K (rs_metadata entry) cursor target now) (schedule_states s1)\<rparr>"
    and "out = Rec_Upgraded"
    unfolding upgrade_state_def Let_def
    by (auto simp: tx_bind_Inr tx_seq_Inr tx_simps tx_partial_def upgraded_row_def [abs_def]
        split: option.splits)
  with read [OF load] that show thesis by simp
qed

lemma upgrade_ahead:
  assumes K: "chrono_ok K" and C: "cron_ok (rs_calendar entry)" and ahead: "cursor_ahead K s"
    and row: "schedule_state_by_key s (sm_key (rs_metadata entry)) = Some row"
    and run: "upgrade_state K entry row now s = Inr (out, s')"
  shows "cursor_ahead K s'"
proof -
  let ?key = "sm_key (rs_metadata entry)"
  have key: "sch_schedule_key row = ?key" using row by (auto simp: schedule_state_by_key_def find_Some_iff)
  obtain floor cursor target where floor: "MaterializedFloor_load K row s = Inr (floor, s)"
    and up: "ScheduleCursor_upgrade K (rs_calendar entry) now floor = Some (Inr (cursor, target))"
    and s': "s' = s\<lparr>schedule_states := map (upgraded_row K (rs_metadata entry) cursor target now) (schedule_states s)\<rparr>"
    using run by (rule upgrade_stateE)
  note above = upgrade_above [OF K C _ floor up, of "cursor_text s"]
  have below: "runs_below K (cursor_text s) s" using ahead by (simp add: cursor_ahead_def)
  have cursor: "cursor_text s' = (cursor_text s)(?key \<mapsto> ch_format K cursor)"
    by (rule cursor_text_update [OF row, where P = "\<lambda>r. sch_schedule_key r = ?key" and
          f = "\<lambda>r. r\<lparr>sch_definition_fingerprint := sm_fingerprint (rs_metadata entry),
            sch_definition_version := sm_version (rs_metadata entry),
            sch_next_local_occurrence := LocalOccurrence_to_string K cursor,
            sch_next_occurrence_at := oc_due_at target, sch_updated_at := now\<rparr>"])
      (use key in \<open>auto simp: s' upgraded_row_def LocalOccurrence_to_string_def\<close>)
  have runs: "schedule_runs s' = schedule_runs s" by (simp add: s')
  have "runs_below K (cursor_text s') s'"
    using below above(3) [OF below] key unfolding runs_below_def runs cursor by fastforce
  with above(2) [OF below] show ?thesis by (rule cursor_aheadI [OF ahead cursor])
qed

lemma find_append:
  "find P (xs @ ys) = (case find P xs of None \<Rightarrow> find P ys | Some x \<Rightarrow> Some x)"
  by (induction xs) auto

lemma reconcile_ahead:
  assumes K: "chrono_ok K" and "\<And>entry. R key = Some entry \<Longrightarrow> cron_ok (rs_calendar entry)"
  shows "keeps (cursor_ahead K) (reconcile_state K R key now)"
proof (rule keepsI)
  fix s out s' assume ahead: "cursor_ahead K s" and run: "reconcile_state K R key now s = Inr (out, s')"
  then obtain entry where entry: "R key = Some entry" and run: "reconcile_entry K entry now s = Inr (out, s')"
    by (auto simp: reconcile_state_def tx_simps split: option.splits)
  let ?key = "sm_key (rs_metadata entry)"
  have C: "cron_ok (rs_calendar entry)" using assms(2) entry .
  from run obtain following where following: "next_after K (rs_calendar entry) now = Some (Inr following)"
    by (auto simp: reconcile_entry_def Let_def tx_bind_Inr tx_simps tx_partial_def split: if_splits option.splits)
  let ?row = "new_schedule_state K (rs_metadata entry) following now"
  have new: "sch_schedule_key ?row = ?key" by (simp add: new_schedule_state_def)
  show "cursor_ahead K s'"
  proof (cases "schedule_state_by_key s ?key")
    case None
    with run following have s': "s' = s\<lparr>schedule_states := schedule_states s @ [?row]\<rparr>"
      by (auto simp: reconcile_entry_def Let_def tx_bind_Inr tx_simps tx_partial_def new
          insert_schedule_state_Inr lock_schedule_row_def split: if_splits)
    have "cursor_text s' = (cursor_text s)(?key \<mapsto> sch_next_local_occurrence ?row)"
      using None by (auto simp: fun_eq_iff s' cursor_text_def schedule_state_by_key_def find_append new
          split: option.splits)
    moreover have "keyed K (sch_next_local_occurrence ?row)"
      using next_after_good [OF C following] good_keyed [of K following]
      by (simp add: new_schedule_state_def ScheduleCursor_initial_def LocalOccurrence_to_string_def
          good_occurrence_def)
    moreover have "runs_below K ((cursor_text s)(?key \<mapsto> sch_next_local_occurrence ?row)) s'"
      using ahead None by (fastforce simp: s' cursor_ahead_def runs_below_def cursor_text_def)
    ultimately show ?thesis using ahead by (metis cursor_aheadI)
  next
    case (Some row)
    with run following consider "s' = s" | "upgrade_state K entry row now s = Inr (out, s')"
      by (auto simp: reconcile_entry_def Let_def tx_bind_Inr tx_simps tx_partial_def new
          insert_schedule_state_Inr lock_schedule_row_def split: if_splits)
    then show ?thesis using ahead upgrade_ahead [OF K C ahead Some] by cases auto
  qed
qed

definition cursors_kept :: "db \<Rightarrow> db \<Rightarrow> bool" where
  "cursors_kept s s' \<longleftrightarrow> cursor_text s' = cursor_text s \<and> schedule_runs s' = schedule_runs s"

interpretation cursor_frame: guarantee cursors_kept
  by unfold_locales (auto simp: cursors_kept_def)

lemma cursors_kept_now [guar_intros]: "guarantees cursors_kept database_now_millis"
  by (auto simp: guarantees_def cursors_kept_def cursor_text_def schedule_state_by_key_def fun_eq_iff tx_simps)

lemma cursors_kept_update:
  assumes "\<And>r. sch_schedule_key (f r) = sch_schedule_key r"
    and "\<And>r. sch_next_local_occurrence (f r) = sch_next_local_occurrence r"
  shows "guarantees cursors_kept (schedule_state_update P f)"
proof (rule guaranteesI)
  let ?g = "\<lambda>r. if P r then f r else r"
  fix s n s' assume "schedule_state_update P f s = Inr (n, s')"
  then have s': "schedule_states s' = map ?g (schedule_states s)" "schedule_runs s' = schedule_runs s"
    by (auto simp: tx_simps)
  have "schedule_state_by_key s' k = map_option ?g (schedule_state_by_key s k)" for k
    unfolding schedule_state_by_key_def s'(1) by (rule find_map_key) (simp add: assms(1))
  moreover have "map_option sch_next_local_occurrence (map_option ?g q) = map_option sch_next_local_occurrence q" for q
    using assms(2) by (cases q) auto
  ultimately show "cursors_kept s s'" by (simp add: cursors_kept_def cursor_text_def fun_eq_iff s'(2))
qed

lemma set_paused_ahead: "keeps (cursor_ahead K) (set_schedule_paused schedules key paused operator)"
proof -
  have "guarantees cursors_kept (set_schedule_paused schedules key paused operator)"
    unfolding set_schedule_paused_def lock_schedule_state_def fenced_def
    by (intro guar_intros cursors_kept_update) simp_all
  then show ?thesis by (auto simp: keeps_def guarantees_def cursors_kept_def cursor_ahead_def runs_below_def)
qed

text \<open>
  What happens to the schedule tables: the four schedule transactions, and transactions that
  neither write a schedule's state nor insert a run (a restart links a run to the new workflow). Every
  step has its own registry: processes of different releases, with other versions, cron
  expressions, time zones and policies of a schedule, work on the same tables.
\<close>

definition deployable :: "schedule_registry \<Rightarrow> bool" where
  "deployable R \<longleftrightarrow> schedule_handlers R \<and> (\<forall>key entry. R key = Some entry \<longrightarrow> cron_ok (rs_calendar entry))"

inductive schedule_step :: "chrono \<Rightarrow> db \<Rightarrow> db \<Rightarrow> bool" for K where
  step_reconcile: "\<lbrakk>deployable R; reconcile_state K R key now s = Inr (out, s')\<rbrakk> \<Longrightarrow> schedule_step K s s'"
| step_tick: "\<lbrakk>deployable R; R key = Some entry; materialize_locked K R entry key now s = Inr (report, s')\<rbrakk> \<Longrightarrow>
    schedule_step K s s'"
| step_run_now: "\<lbrakk>deployable R; run_schedule_now (Some R) has_context key operator s = Inr (started, s')\<rbrakk> \<Longrightarrow>
    schedule_step K s s'"
| step_pause: "set_schedule_paused schedules key paused operator s = Inr (control, s') \<Longrightarrow> schedule_step K s s'"
| step_elsewhere: "\<lbrakk>schedule_states s' = schedule_states s;
    map run_identity (schedule_runs s') = map run_identity (schedule_runs s)\<rbrakk> \<Longrightarrow> schedule_step K s s'"

lemma runs_below_identity:
  assumes "map run_identity (schedule_runs s') = map run_identity (schedule_runs s)" and "runs_below K b s"
  shows "runs_below K b s'"
  unfolding runs_below_def
proof
  fix r' assume "r' \<in> set (schedule_runs s')"
  then have "run_identity r' \<in> set (map run_identity (schedule_runs s))" using assms(1) by (metis image_eqI set_map)
  then obtain r where "r \<in> set (schedule_runs s)" "run_identity r' = run_identity r" by auto
  with assms(2) show "is_manual r' \<or> keyed K (run_local_occurrence r') \<and>
      (\<exists>t. b (run_schedule_key r') = Some t \<and> run_local_occurrence r' < t)"
    by (auto simp: runs_below_def run_identity_def is_manual_def)
qed

lemma schedule_step_ahead:
  assumes "schedule_step K s s'" and "chrono_ok K" and "cursor_ahead K s"
  shows "cursor_ahead K s'"
  using assms(1)
proof cases
  case step_reconcile
  with assms show ?thesis by (auto simp: deployable_def intro: keepsD [OF reconcile_ahead])
next
  case step_tick
  with assms show ?thesis by (auto simp: deployable_def intro: keepsD [OF schedule_handlers.materialize_ahead])
next
  case step_run_now
  with assms show ?thesis by (auto simp: deployable_def intro: keepsD [OF schedule_handlers.run_now_ahead])
next
  case step_pause
  with assms show ?thesis by (blast intro: keepsD [OF set_paused_ahead])
next
  case step_elsewhere
  then have "cursor_text s' = cursor_text s" by (intro cursor_text_kept) (simp add: states_kept_def)
  with step_elsewhere(2) \<open>cursor_ahead K s\<close> show ?thesis
    by (auto simp: cursor_ahead_def intro: runs_below_identity)
qed

section \<open>A schedule that runs\<close>

declare sample_format_def [code]

definition sample_metadata :: "overlap_policy \<Rightarrow> schedule_metadata" where
  "sample_metadata overlap =
     \<lparr>sm_key = ''tick'', sm_version = 1, sm_fingerprint = ''f'', sm_cron = ''*/10 * * * * *'',
      sm_timezone = ''Sample'', sm_misfire = CatchUp 2, sm_overlap = overlap, sm_misfire_grace_millis = 1000\<rparr>"

definition sample_schedules :: "overlap_policy \<Rightarrow> schedule_registry" where
  "sample_schedules overlap = store_registry [''tick'' \<mapsto> (sample_metadata overlap, sample_calendar,
     \<lparr>prep_kind = ''order'', prep_version = 1, prep_input_json = ''{}'', prep_state_json = ''{}''\<rparr>)]"

definition sample_scheduled :: "overlap_policy \<Rightarrow> db" where
  "sample_scheduled overlap =
     snd (projr (reconcile_state sample_chrono (sample_schedules overlap) ''tick'' 5000 sample_db))"

lemma sample_chrono_ok: "chrono_ok sample_chrono"
proof -
  have bound: "0 \<le> t div second \<and> t div second < 256 ^ 5" if "fixed_width t" for t
    using that by (auto simp: fixed_width_def)
  have "bytes_number 0 (sample_format t) * second = t" if "fixed_width t" for t
    using bound [OF that] that
    by (simp add: sample_format_def bytes_number_fixed fixed_width_def whole_def minus_mod_eq_div_mult [symmetric])
  moreover have "sample_format t < sample_format u" if "fixed_width t" "fixed_width u" "t < u" for t u
  proof -
    have "t div second < u div second" using that by (auto simp: fixed_width_def whole_def)
    with bound [OF that(1)] bound [OF that(2)] show ?thesis
      by (auto simp: sample_format_def intro: fixed_bytes_mono)
  qed
  moreover have "\<not> starts_with (sample_format t) MANUAL_OCCURRENCE_PREFIX" for t
    by (auto simp: starts_with_def sample_format_def MANUAL_OCCURRENCE_PREFIX_def dest: arg_cong [of _ _ length])
  ultimately show ?thesis by (simp add: chrono_ok_def sample_chrono_def sample_format_def)
qed

lemma sample_cron_ok: "cron_ok sample_calendar"
  by (auto simp: cron_ok_def sample_calendar_def Let_def fixed_width_def whole_def split: if_splits)

text \<open>
  C29: the cursor of a schedule is always strictly after every occurrence that has a run row
  (S27), so no tick names an occurrence that was materialized before. This holds after any sequence
  of reconciliations, version upgrades, ticks, operator runs and pauses on a database that
  starts without schedules, where every step may come from another release with other
  definitions, also in another time zone. The handlers of each release keep their contract; the
  text of a local time has a fixed width; the cron library returns later times in whole seconds.
\<close>

theorem cursor_after_every_run:
  assumes "chrono_ok K" and "(schedule_step K)\<^sup>*\<^sup>* s s'" and "schedule_states s = []" and "schedule_runs s = []"
    and "schedule_state_by_key s' key = Some state" and "r \<in> set (schedule_runs s')"
    and "run_schedule_key r = key" and "\<not> is_manual r"
  shows "run_local_occurrence r < sch_next_local_occurrence state"
proof -
  have "cursor_ahead K s"
    using assms(3,4) by (simp add: cursor_ahead_def runs_below_def cursor_text_def schedule_state_by_key_def)
  with assms(2) have "cursor_ahead K s'"
    by induction (use schedule_step_ahead assms(1) in blast)+
  with assms(5-8) show ?thesis by (auto simp: cursor_ahead_def runs_below_def cursor_text_def)
qed

lemma sample_handlers_ok: "schedule_handlers (sample_schedules overlap)"
  unfolding sample_schedules_def by (rule stored.schedule_handlers_axioms)

text \<open>
  A first release whose zone is fifty seconds east of the sample calendar ticks once; the second release
  moves the schedule back, to local times that were materialized already, upgrades the
  persisted definition and ticks.
\<close>

definition sample_east :: schedule_registry where
  "sample_east = store_registry [''tick'' \<mapsto> (sample_metadata Allow,
     sample_calendar\<lparr>cal_local := (\<lambda>t. if 50 * second \<le> t then LR_Single ((t - 50 * second) div 1000000) else LR_None),
       cal_naive := (\<lambda>i. i * 1000000 + 50 * second), cal_timezone := ''East''\<rparr>,
     \<lparr>prep_kind = ''order'', prep_version = 1, prep_input_json = ''{}'', prep_state_json = ''{}''\<rparr>)]"

definition sample_west :: schedule_registry where
  "sample_west = store_registry [''tick'' \<mapsto> ((sample_metadata Allow)\<lparr>sm_version := 2, sm_fingerprint := ''g''\<rparr>,
     sample_calendar, \<lparr>prep_kind = ''order'', prep_version = 1, prep_input_json = ''{}'', prep_state_json = ''{}''\<rparr>)]"

definition sample_release :: "schedule_registry \<Rightarrow> db_millis \<Rightarrow> db_millis \<Rightarrow> db \<Rightarrow> db" where
  "sample_release R deployed now s =
     (let s1 = snd (projr (reconcile_state sample_chrono R ''tick'' deployed s))
      in snd (projr (materialize_locked sample_chrono R (the (R ''tick'')) ''tick'' now s1)))"

lemma sample_releases_deployable: "deployable sample_east" "deployable sample_west"
  using sample_cron_ok
  by (auto simp: deployable_def sample_east_def sample_west_def stored.schedule_handlers_axioms store_registry_def
      cron_ok_def split: if_splits)

lemma sample_release_steps:
  assumes "deployable R" and "R ''tick'' \<noteq> None" and "\<not> isl (reconcile_state sample_chrono R ''tick'' deployed s)"
    and "\<not> isl (materialize_locked sample_chrono R (the (R ''tick'')) ''tick'' now
       (snd (projr (reconcile_state sample_chrono R ''tick'' deployed s))))"
  shows "(schedule_step sample_chrono)\<^sup>*\<^sup>* s (sample_release R deployed now s)"
proof -
  have "schedule_step sample_chrono s (snd (projr (reconcile_state sample_chrono R ''tick'' deployed s)))"
    using assms(1) returned [OF assms(3)] by (rule step_reconcile)
  moreover have "schedule_step sample_chrono (snd (projr (reconcile_state sample_chrono R ''tick'' deployed s)))
      (sample_release R deployed now s)"
    unfolding sample_release_def Let_def using assms(1) option.collapse [OF assms(2), symmetric] returned [OF assms(4)]
    by (rule step_tick)
  ultimately show ?thesis by auto
qed

theorem cursor_after_every_run_witness:
  "let s = sample_release sample_west 16000 65000 (sample_release sample_east 5000 15000 sample_db)
   in map run_local_occurrence (schedule_runs s) = [ch_format sample_chrono (60 * second), ch_format sample_chrono (70 * second)] \<and>
     (\<exists>state. schedule_state_by_key s ''tick'' = Some state \<and> sch_definition_version state = 2 \<and>
        (\<forall>r \<in> set (schedule_runs s). run_local_occurrence r < sch_next_local_occurrence state))"
proof -
  let ?e = "sample_release sample_east 5000 15000 sample_db"
  let ?s = "sample_release sample_west 16000 65000 ?e"
  have "(schedule_step sample_chrono)\<^sup>*\<^sup>* sample_db ?e"
    by (rule sample_release_steps [OF sample_releases_deployable(1)]) code_simp+
  also have "(schedule_step sample_chrono)\<^sup>*\<^sup>* ?e ?s"
    by (rule sample_release_steps [OF sample_releases_deployable(2)]) code_simp+
  finally have run: "(schedule_step sample_chrono)\<^sup>*\<^sup>* sample_db ?s" .
  have runs: "map run_local_occurrence (schedule_runs ?s) = [ch_format sample_chrono (60 * second), ch_format sample_chrono (70 * second)]"
    by code_simp
  have "list_all (\<lambda>r. run_schedule_key r = ''tick'' \<and> \<not> is_manual r) (schedule_runs ?s) \<and>
      map_option sch_definition_version (schedule_state_by_key ?s ''tick'') = Some 2" by code_simp
  then obtain state where state: "schedule_state_by_key ?s ''tick'' = Some state" "sch_definition_version state = 2"
    and all: "\<forall>r \<in> set (schedule_runs ?s). run_schedule_key r = ''tick'' \<and> \<not> is_manual r"
    by (auto simp: list_all_iff)
  have "run_local_occurrence r < sch_next_local_occurrence state" if "r \<in> set (schedule_runs ?s)" for r
    by (rule cursor_after_every_run [OF sample_chrono_ok run _ _ state(1) that]) (use all that in \<open>simp_all add: sample_db_def\<close>)
  with runs state show ?thesis by (simp add: Let_def)
qed

end
