(* ===== verification/Schedule_Overlap.thy ===== *)
theory Schedule_Overlap
  imports Schedule_Cursor
begin

text \<open>
  Overlap (S29): a schedule whose policy is \<open>SkipIfActive\<close> or \<open>QueueOne\<close> has at most one active run,
  and at most one queued run. A tick carries the two counts instead of reading them again; the
  lemmas say that the carried counts bound the real ones.
\<close>

section \<open>Counting\<close>












section \<open>The carried counts\<close>


lemma count_simps [simp]:
  "tk_active (count_started t) = tk_active t" "tk_queued (count_started t) = tk_queued t"
  "tk_active (count_queued t) = tk_active t" "tk_queued (count_queued t) = tk_queued t"
  "tk_active (count_skipped t) = tk_active t" "tk_queued (count_skipped t) = tk_queued t"
  "tk_active (count_coalesced t) = tk_active t" "tk_queued (count_coalesced t) = tk_queued t"
  by (simp_all add: count_started_def count_queued_def count_skipped_def count_coalesced_def)







section \<open>Pinned definitions (S30)\<close>

lemma reconcile_persisted:
  assumes "R key = Some entry" and "sm_key (rs_metadata entry) = key" and "0 < sm_version (rs_metadata entry)"
    and "ch_instant_in_range K now" and "next_after K (rs_calendar entry) now = Some (Inr following)"
    and "schedule_state_by_key s key = Some row"
  shows "reconcile_state K R key now s =
    (if sch_definition_version row > sm_version (rs_metadata entry) then Inr (Rec_NewerPersisted, s)
     else if sch_definition_version row = sm_version (rs_metadata entry) then
       if sch_definition_fingerprint row = sm_fingerprint (rs_metadata entry) then Inr (Rec_Preserved, s)
       else Inl (Err (Conflict (''schedule '' @ key @ '' v'' @ dec_int (sm_version (rs_metadata entry)) @
              '' metadata changed without a version bump'')))
     else upgrade_state K entry row now s)"
  using assms
  by (simp add: reconcile_state_def reconcile_entry_def Let_def tx_partial_def tx_lift_def tx_bind_def
      tx_return_def tx_fail_def tx_query_def tx_some_def lock_schedule_row_def
      insert_schedule_state_if_absent_def new_schedule_state_def)

lemma upgrade_sets_definition:
  assumes "upgrade_state K entry row now s = Inr (out, s')"
    and "schedule_state_by_key s (sm_key (rs_metadata entry)) = Some row"
  shows "out = Rec_Upgraded" and "schedule_runs s' = schedule_runs s" and "workflows s' = workflows s"
    and "\<exists>row'. schedule_state_by_key s' (sm_key (rs_metadata entry)) = Some row' \<and>
      sch_definition_version row' = sm_version (rs_metadata entry) \<and>
      sch_definition_fingerprint row' = sm_fingerprint (rs_metadata entry)"
proof -
  obtain cursor target where out: "out = Rec_Upgraded"
    and s': "s' = s\<lparr>schedule_states := map (upgraded_row K (rs_metadata entry) cursor target now) (schedule_states s)\<rparr>"
    using assms(1) by (rule upgrade_stateE)
  then have rest: "out = Rec_Upgraded" "schedule_runs s' = schedule_runs s" "workflows s' = workflows s"
    by simp_all
  show "out = Rec_Upgraded" and "schedule_runs s' = schedule_runs s" and "workflows s' = workflows s"
    by (fact rest)+
  have "schedule_state_by_key s' k =
      map_option (upgraded_row K (rs_metadata entry) cursor target now) (schedule_state_by_key s k)" for k
    using find_map_key [of sch_schedule_key "upgraded_row K (rs_metadata entry) cursor target now"]
    by (simp add: schedule_state_by_key_def s' upgraded_row_def)
  moreover have "sch_schedule_key row = sm_key (rs_metadata entry)"
    using assms(2) by (auto simp: schedule_state_by_key_def find_Some_iff)
  ultimately show "\<exists>row'. schedule_state_by_key s' (sm_key (rs_metadata entry)) = Some row' \<and>
      sch_definition_version row' = sm_version (rs_metadata entry) \<and>
      sch_definition_fingerprint row' = sm_fingerprint (rs_metadata entry)"
    using assms(2) by (simp add: upgraded_row_def)
qed

text \<open>
  C32: a persisted schedule is pinned to its definition (S30). A definition that changed
  without a new version, or that is older than the persisted one, is refused with a conflict and
  the database is left as it was; a newer version replaces the persisted definition, and the
  call that does so starts nothing.
\<close>

theorem schedule_definition_pinned:
  assumes "R key = Some entry" and "sm_key (rs_metadata entry) = key" and "0 < sm_version (rs_metadata entry)"
    and "ch_instant_in_range K now" and "next_after K (rs_calendar entry) now = Some (Inr following)"
    and "schedule_state_by_key s key = Some row"
    and "(sch_definition_version row, sch_definition_fingerprint row) \<noteq>
         (sm_version (rs_metadata entry), sm_fingerprint (rs_metadata entry))"
    and "materialize_schedule K R key now others s = (result, s')"
  shows "if sm_version (rs_metadata entry) \<le> sch_definition_version row
    then (\<exists>why. result = Inl (Err (Conflict why))) \<and> s' = s
    else workflows s' = workflows s \<and> schedule_runs s' = schedule_runs s \<and>
      (result = Inr (empty_report key) \<longrightarrow>
       (\<exists>row'. schedule_state_by_key s' key = Some row' \<and>
          sch_definition_version row' = sm_version (rs_metadata entry) \<and>
          sch_definition_fingerprint row' = sm_fingerprint (rs_metadata entry)))"
proof (cases "sm_version (rs_metadata entry) \<le> sch_definition_version row")
  case True
  with assms(7,8) show ?thesis
    by (auto simp: materialize_schedule_def reconcile_persisted [where R = R, OF assms(1-6)] split: if_splits)
next
  case False
  then have rec: "reconcile_state K R key now s = upgrade_state K entry row now s"
    using reconcile_persisted [where R = R, OF assms(1-6)] by simp
  show ?thesis
  proof (cases "upgrade_state K entry row now s")
    case (Inr p)
    then obtain out s1 where up: "upgrade_state K entry row now s = Inr (out, s1)" by (cases p) auto
    note up' = upgrade_sets_definition [OF up, unfolded assms(2), OF assms(6)]
    with assms(8) False rec up show ?thesis by (simp add: materialize_schedule_def)
  qed (use assms(8) False rec in \<open>auto simp: materialize_schedule_def\<close>)
qed

theorem schedule_definition_pinned_witness:
  "\<exists>why. materialize_schedule sample_chrono
      (store_registry [''tick'' \<mapsto> ((sample_metadata Allow)\<lparr>sm_fingerprint := ''g''\<rparr>, sample_calendar,
         \<lparr>prep_kind = ''order'', prep_version = 1, prep_input_json = ''{}'', prep_state_json = ''{}''\<rparr>)])
      ''tick'' 7000 id (sample_scheduled Allow) = (Inl (Err (Conflict why)), sample_scheduled Allow)"
proof -
  let ?p = "\<lparr>prep_kind = ''order'', prep_version = 1, prep_input_json = ''{}'', prep_state_json = ''{}''\<rparr>"
  let ?m = "(sample_metadata Allow)\<lparr>sm_fingerprint := ''g''\<rparr>"
  let ?R = "store_registry [''tick'' \<mapsto> (?m, sample_calendar, ?p)]"
  let ?e = "\<lparr>rs_metadata = ?m, rs_calendar = sample_calendar, rs_handler = store_starter ?p\<rparr>"
  have entry: "?R ''tick'' = Some ?e" by (simp add: store_registry_def)
  have nxt: "next_after sample_chrono (rs_calendar ?e) 7000 = Some (Inr (sample_occurrence 10))"
    by code_simp
  define row where "row = the (schedule_state_by_key (sample_scheduled Allow) ''tick'')"
  have row: "schedule_state_by_key (sample_scheduled Allow) ''tick'' = Some row"
    "sch_definition_version row = 1" "sch_definition_fingerprint row = ''f''"
    unfolding row_def by code_simp+
  obtain result s' where run: "materialize_schedule sample_chrono ?R ''tick'' 7000 id (sample_scheduled Allow) = (result, s')"
    by force
  from schedule_definition_pinned [OF entry _ _ _ nxt row(1) _ run] row(2,3) run
  show ?thesis by (simp add: sample_metadata_def sample_chrono_def)
qed

end
