(* ===== verification/Deliveries.thy ===== *)
theory Deliveries
  imports Schedule_Overlap
begin

text \<open>
  The discipline of the delivery sequence (invariant S5 of \<open>docs/INVARIANTS.md\<close>), for every
  transaction of the engine.

  An event that a workflow must consume carries a delivery sequence; the workflow row
  counts the events it has consumed. \<open>log_ok\<close> says that the delivery sequences of a
  workflow are \<open>1, 2, \<dots>, n\<close> without a gap, where \<open>n\<close> is the counter or one more: there is
  at most one event that has not been consumed. The rows \<open>K\<close> a transaction has read, and on
  whose counter it relies later, are a parameter of the invariant, and so are the leases \<open>C\<close> a
  coordinator holds with the counter it saw when it took them.
\<close>

section \<open>The invariant\<close>

definition deliveries :: "db \<Rightarrow> i64 \<Rightarrow> i32 set" where
  "deliveries s i = {d. \<exists>e \<in> set (events s). ev_workflow_id e = i \<and> ev_delivery_sequence e = Some d}"

definition gapless :: "db \<Rightarrow> workflow_row \<Rightarrow> bool" where
  "gapless s w \<longleftrightarrow>
     0 \<le> wf_delivered_event_sequence w \<and>
     (deliveries s (wf_id w) = {1..wf_delivered_event_sequence w} \<or>
      deliveries s (wf_id w) = {1..wf_delivered_event_sequence w + 1})"

definition leases_known :: "(i64 \<times> string \<times> i32) set \<Rightarrow> workflow_row \<Rightarrow> bool" where
  "leases_known C w \<longleftrightarrow>
     (\<forall>(i, t, n) \<in> C. wf_id w = i \<and> wf_status w = WS_Running \<and> wf_lease_token w = Some t \<longrightarrow>
        wf_delivered_event_sequence w = n)"

definition log_ok :: "(i64 \<times> string \<times> i32) set \<Rightarrow> (i64 \<times> i32) set \<Rightarrow> db \<Rightarrow> bool" where
  "log_ok C K s \<longleftrightarrow>
     distinct (map wf_id (workflows s)) \<and> (\<forall>w \<in> set (workflows s). wf_id w < next_workflow_id s) \<and>
     (\<forall>e \<in> set (events s). ev_workflow_id e \<in> wf_id ` set (workflows s)) \<and>
     (\<forall>w \<in> set (workflows s). gapless s w) \<and>
     (\<forall>(i, n) \<in> K. i < next_workflow_id s \<and>
        (\<forall>w \<in> set (workflows s). wf_id w = i \<longrightarrow> wf_delivered_event_sequence w = n)) \<and>
     (\<forall>w \<in> set (workflows s). leases_known C w)"

abbreviation known :: "workflow_row \<Rightarrow> i64 \<times> i32" where
  "known w \<equiv> (wf_id w, wf_delivered_event_sequence w)"

lemma log_ok_mono: "log_ok C L s \<Longrightarrow> K \<subseteq> L \<Longrightarrow> log_ok C K s"
  unfolding log_ok_def by blast

lemma log_ok_known:
  assumes "log_ok C K s" and "R \<subseteq> set (workflows s)"
  shows "log_ok C (known ` R \<union> K) s"
proof -
  have inj: "inj_on wf_id (set (workflows s))" using assms(1) by (simp add: log_ok_def distinct_map)
  have "q = w" if "q \<in> set (workflows s)" "w \<in> R" "wf_id q = wf_id w" for q w
    using that assms(2) by (intro inj_onD [OF inj that(3)]) auto
  then have "\<forall>(i, n) \<in> known ` R. i < next_workflow_id s \<and>
      (\<forall>w \<in> set (workflows s). wf_id w = i \<longrightarrow> wf_delivered_event_sequence w = n)"
    using assms by (fastforce simp: log_ok_def)
  then show ?thesis using assms(1) by (simp add: log_ok_def ball_Un)
qed

text \<open>Rows read by a query are known to the rest of the transaction.\<close>

lemma keeps_read:
  assumes "\<And>s. set (rows (q s)) \<subseteq> set (workflows s)"
    and "\<And>x. keeps (log_ok C (known ` set (rows x) \<union> K)) (k x)"
  shows "keeps (log_ok C K) (tx_bind (tx_query q) k)"
proof (rule keepsI)
  fix s a s' assume "log_ok C K s" and "tx_bind (tx_query q) k s = Inr (a, s')"
  then have "log_ok C (known ` set (rows (q s)) \<union> K) s" "k (q s) s = Inr (a, s')"
    using log_ok_known assms(1) by (auto simp: tx_simps)
  from keepsD [OF assms(2) this] show "log_ok C K s'" by (rule log_ok_mono) simp
qed

lemma keeps_read_row:
  assumes "\<And>w. wf_id w = i \<Longrightarrow> keeps (log_ok C (insert (known w) K)) (k w)"
  shows "keeps (log_ok C K) (tx_bind (tx_bind (tx_query (\<lambda>s. workflow_by_id s i)) (tx_some e)) k)"
proof (rule keepsI)
  fix s a s' assume "log_ok C K s"
    and "tx_bind (tx_bind (tx_query (\<lambda>s. workflow_by_id s i)) (tx_some e)) k s = Inr (a, s')"
  then obtain w where "workflow_by_id s i = Some w" and k: "k w s = Inr (a, s')" by (auto simp: tx_simps)
  then have "{w} \<subseteq> set (workflows s)" and i: "wf_id w = i" by (auto simp: workflow_by_id_def dest: find_mem)
  from log_ok_known [OF \<open>log_ok C K s\<close> this(1)] have "log_ok C (insert (known w) K) s" by simp
  from keepsD [OF assms [OF i] this k] show "log_ok C K s'" by (rule log_ok_mono) blast
qed

lemma keeps_row_reads:
  assumes "\<And>w. wf_id w = i \<Longrightarrow> keeps (log_ok C (insert (known w) K)) (k w)"
  shows "keeps (log_ok C K) (tx_bind (lock_workflow_by_id i) k)"
    and "keeps (log_ok C K) (tx_bind (lock_workflow i) k)"
  unfolding lock_workflow_by_id_def lock_workflow_def
  by (rule keeps_read_row, erule assms)+

section \<open>Statements\<close>

lemma log_ok_same [simp]:
  "log_ok C K (activities_update f1 s) = log_ok C K s"
  "log_ok C K (attempts_update f2 s) = log_ok C K s"
  "log_ok C K (approvals_update f3 s) = log_ok C K s"
  "log_ok C K (schedule_runs_update f4 s) = log_ok C K s"
  "log_ok C K (schedule_states_update f5 s) = log_ok C K s"
  "log_ok C K (next_activity_id_update f6 s) = log_ok C K s"
  "log_ok C K (next_approval_id_update f7 s) = log_ok C K s"
  "log_ok C K (next_schedule_run_id_update f8 s) = log_ok C K s"
  "log_ok C K (clock_reads_update f9 s) = log_ok C K s"
  by (simp_all add: log_ok_def gapless_def deliveries_def)

lemma log_ok_frame [keeps_intros]:
  "keeps (log_ok C K) (activity_update P1 f1)"
  "keeps (log_ok C K) (attempt_update P2 f2)"
  "keeps (log_ok C K) (approval_update P3 f3)"
  "keeps (log_ok C K) (schedule_run_update P4 f4)"
  "keeps (log_ok C K) (schedule_state_update P5 f5)"
  "keeps (log_ok C K) (link_schedule_run P6 i f6)"
  "keeps (log_ok C K) (insert_activity a)"
  "keeps (log_ok C K) (insert_approval p)"
  "keeps (log_ok C K) (insert_attempt t)"
  "keeps (log_ok C K) (insert_schedule_run r)"
  "keeps (log_ok C K) (insert_schedule_state_if_absent st)"
  by (auto simp: keeps_def tx_simps link_schedule_run_def insert_schedule_state_Inr
      split: if_splits dest!: insert_activity_Inr insert_approval_Inr insert_attempt_Inr insert_schedule_run_Inr)

lemma log_ok_now [keeps_intros]: "keeps (log_ok C K) database_now_millis"
  by (auto simp: keeps_def tx_simps)

lemma log_ok_map:
  assumes "log_ok C K s" and "s' = s\<lparr>workflows := map g (workflows s)\<rparr>"
    and "\<And>r. r \<in> set (workflows s) \<Longrightarrow> wf_id (g r) = wf_id r \<and> gapless s (g r) \<and> leases_known C' (g r)"
    and "\<And>r i n. r \<in> set (workflows s) \<Longrightarrow> (i, n) \<in> K' \<Longrightarrow> wf_id r = i \<Longrightarrow> wf_delivered_event_sequence (g r) = n"
    and "\<And>i n. (i, n) \<in> K' \<Longrightarrow> i < next_workflow_id s"
  shows "log_ok C' K' s'"
proof -
  have ids: "map wf_id (workflows s') = map wf_id (workflows s)" using assms(2,3) by simp
  then have "wf_id ` set (workflows s') = wf_id ` set (workflows s)" by (metis set_map)
  moreover have "gapless s' r = gapless s r" for r by (simp add: gapless_def deliveries_def assms(2))
  ultimately show ?thesis
    using assms unfolding log_ok_def ids by (auto simp: assms(2))
qed

lemma log_ok_workflow_update:
  assumes "\<And>r. P r \<Longrightarrow> known (f r) = known r"
    and "\<And>r. P r \<Longrightarrow> wf_status (f r) = WS_Running \<Longrightarrow> wf_lease_token (f r) \<noteq> None \<Longrightarrow>
      wf_status r = WS_Running \<and> wf_lease_token (f r) = wf_lease_token r"
  shows "keeps (log_ok C K) (workflow_update P f)"
proof (rule keepsI)
  let ?g = "\<lambda>r. if P r then f r else r"
  fix s n s' assume ok: "log_ok C K s" and "workflow_update P f s = Inr (n, s')"
  then have s': "s' = s\<lparr>workflows := map ?g (workflows s)\<rparr>" by (simp add: tx_simps)
  have g: "known (?g r) = known r" for r using assms(1) [of r] by auto
  have "leases_known C (?g r)" if "leases_known C r" for r
    using that assms [of r] by (cases "P r") (auto simp: leases_known_def)
  with ok g show "log_ok C K s'"
    by (intro log_ok_map [OF ok s']) (auto simp: log_ok_def gapless_def)
qed

lemma next_delivery_range:
  "0 \<le> n \<Longrightarrow> d \<in> {n + 1, saturating_add 32 n 1} \<Longrightarrow> 1 \<le> d \<and> d \<le> n + 1"
  by (auto simp: saturating_add_def clamp_signed_def max_signed_def min_signed_def)

lemma deliver_next:
  assumes "gapless s w" and "d \<notin> deliveries s (wf_id w)" and "1 \<le> d" "d \<le> wf_delivered_event_sequence w + 1"
    and "deliveries s' (wf_id w) = insert d (deliveries s (wf_id w))"
  shows "gapless s' w"
proof -
  let ?n = "wf_delivered_event_sequence w"
  have "deliveries s (wf_id w) \<noteq> {1..?n + 1}" using assms(2-4) by auto
  with assms(1) have before: "deliveries s (wf_id w) = {1..?n}" and n: "0 \<le> ?n" by (simp_all add: gapless_def)
  moreover from assms(2-4) before have "d = ?n + 1" by simp
  moreover have "insert (?n + 1) {1..?n} = {1..?n + 1}" using n by auto
  ultimately show ?thesis using assms(1,5) by (simp add: gapless_def)
qed

lemma log_ok_append:
  assumes "\<And>d. ev_delivery_sequence e = Some d \<Longrightarrow>
    (ev_workflow_id e, n) \<in> K \<and> d \<in> {n + 1, saturating_add 32 n 1}"
  shows "keeps (log_ok C K) (append_event e)"
proof (rule keepsI)
  fix s u s' assume ok: "log_ok C K s" and "append_event e s = Inr (u, s')"
  then have s': "s' = s\<lparr>events := events s @ [e\<lparr>ev_id := next_event_id s\<rparr>], next_event_id := next_event_id s + 1\<rparr>"
    and fresh: "\<And>d. ev_delivery_sequence e = Some d \<Longrightarrow> d \<notin> deliveries s (ev_workflow_id e)"
    and fk: "ev_workflow_id e \<in> wf_id ` set (workflows s)"
    by (auto simp: append_event_Inr deliveries_def sql_eq_def workflow_by_id_def find_None_iff intro: rev_image_eqI)
  have del: "deliveries s' i = (if i = ev_workflow_id e then set_option (ev_delivery_sequence e) else {}) \<union>
      deliveries s i" for i
    by (auto simp: deliveries_def s')
  have "gapless s' w" if w: "w \<in> set (workflows s)" for w
  proof (cases "wf_id w = ev_workflow_id e \<and> ev_delivery_sequence e \<noteq> None")
    case True
    then obtain d where i: "wf_id w = ev_workflow_id e" and d: "ev_delivery_sequence e = Some d" by blast
    from ok w have g: "gapless s w" by (simp add: log_ok_def)
    from assms [OF d] ok w i have "wf_delivered_event_sequence w = n" by (auto simp: log_ok_def)
    with g assms [OF d] have "1 \<le> d" "d \<le> wf_delivered_event_sequence w + 1"
      using next_delivery_range by (auto simp: gapless_def)
    from deliver_next [OF g _ this] fresh [OF d] show ?thesis by (simp add: del d i)
  next
    case False
    then have "deliveries s' (wf_id w) = deliveries s (wf_id w)" by (auto simp: del split: if_splits)
    with ok w show ?thesis by (simp add: log_ok_def gapless_def)
  qed
  with ok fk show "log_ok C K s'" unfolding log_ok_def by (auto simp: s')
qed

lemma log_ok_history [keeps_intros]:
  "keeps (log_ok C K) (append_event (system_event i n None ty md reason now))"
  "keeps (log_ok C K) (append_event (operator_event i n None ty md op now))"
  by (rule log_ok_append, simp add: system_event_def operator_event_def)+

lemma log_ok_insert_workflow:
  assumes "log_ok C K s" and "insert_workflow row s = Inr (a, s')" and "wf_delivered_event_sequence row = 0"
    and "wf_status row = WS_Ready"
  shows "log_ok C K s'" and "a = Inserted i \<Longrightarrow> log_ok C (insert (i, 0) K) s'"
proof -
  have "log_ok C K s' \<and> (a = Inserted i \<longrightarrow> log_ok C (insert (i, 0) K) s')" for i
  proof (cases a)
    case (Inserted j)
    note s' = insert_workflow_Inserted(2) [OF assms(2) [unfolded Inserted]]
    note j = insert_workflow_Inserted(1) [OF assms(2) [unfolded Inserted]]
    have new: "j \<notin> wf_id ` set (workflows s)" using assms(1) j by (auto simp: log_ok_def)
    with assms(1) have "deliveries s j = {}" by (auto simp: log_ok_def deliveries_def)
    then have "gapless s' (row\<lparr>wf_id := j\<rparr>)" using assms(3) by (simp add: gapless_def deliveries_def s')
    moreover have "gapless s' w" if "w \<in> set (workflows s)" for w
      using that assms(1) by (simp add: log_ok_def gapless_def deliveries_def s')
    moreover have "\<forall>(i, n) \<in> K. i < j" using assms(1) j by (auto simp: log_ok_def)
    moreover have "leases_known C (row\<lparr>wf_id := j\<rparr>)" using assms(4) by (simp add: leases_known_def)
    ultimately show ?thesis using assms(1,3) new j Inserted unfolding log_ok_def by (simp add: s') fastforce
  next
    case DeduplicationConflict
    with assms(1,2) show ?thesis using insert_workflow_Conflict by auto
  qed
  then show "log_ok C K s'" "a = Inserted i \<Longrightarrow> log_ok C (insert (i, 0) K) s'" by blast+
qed

lemma log_ok_insert_started [keeps_intros]:
  assumes "wf_delivered_event_sequence row = 0" "wf_status row = WS_Ready"
  shows "keeps (log_ok C K) (insert_started row)"
proof (rule keepsI)
  fix s a s' assume ok: "log_ok C K s" and "insert_started row s = Inr (a, s')"
  then obtain out s1 where ins: "insert_workflow row s = Inr (out, s1)"
    and rest: "(case out of
         Inserted i \<Rightarrow> tx_bind database_now_millis (\<lambda>now.
           tx_seq (append_event (system_event i 1 (Some 1) ''started'' None None now))
             (tx_return (Started_Inserted i)))
       | DeduplicationConflict \<Rightarrow>
           tx_bind (tx_some (InvalidState
               ''workflow deduplication conflict without a deduplication key'')
             (wf_deduplication_key row)) (\<lambda>key.
           tx_bind (find_by_deduplication_key (wf_kind row) key) (\<lambda>existing.
             case existing of
               Some r \<Rightarrow> tx_return (Started_Existing r)
             | None \<Rightarrow> tx_fail (Conflict
                 ''duplicate start raced with an uncommitted insert outside READ COMMITTED; retry'')))) s1
       = Inr (a, s')"
    by (auto simp: insert_started_def tx_bind_Inr)
  show "log_ok C K s'"
  proof (cases out)
    case (Inserted i)
    have "keeps (log_ok C (insert (i, 0) K)) (append_event (system_event i 1 (Some 1) ''started'' None None now))" for now
      by (rule log_ok_append [where n = 0]) (simp add: system_event_def)
    then have "keeps (log_ok C (insert (i, 0) K)) (tx_bind database_now_millis (\<lambda>now.
         tx_seq (append_event (system_event i 1 (Some 1) ''started'' None None now)) (tx_return (Started_Inserted i))))"
      by (intro keeps_intros)
    from keepsD [OF this log_ok_insert_workflow(2) [OF ok ins assms Inserted] rest [unfolded Inserted workflow_insert.case]]
    show ?thesis by (rule log_ok_mono) blast
  next
    case DeduplicationConflict
    have "keeps (log_ok C K) (tx_bind (tx_some e (wf_deduplication_key row)) (\<lambda>key.
         tx_bind (find_by_deduplication_key (wf_kind row) key) (\<lambda>existing.
           case existing of Some r \<Rightarrow> tx_return (Started_Existing r) | None \<Rightarrow> tx_fail e')))" for e e'
      by (intro keeps_intros)
    from keepsD [OF this log_ok_insert_workflow(1) [OF ok ins assms] rest [unfolded DeduplicationConflict workflow_insert.case]]
    show ?thesis .
  qed
qed

lemma checked_next: "checked_add 32 n 1 = Some d \<Longrightarrow> d = n + 1"
  by (auto simp: checked_add_def split: if_splits)

section \<open>Store\<close>

lemmas delivered_simps = changes system_event_def operator_event_def

lemma log_ok_wake_loaded_parent:
  assumes "known parent \<in> K"
  shows "keeps (log_ok C K) (wake_loaded_parent_on_child_terminal E parent i kind version outcome now)"
  unfolding wake_loaded_parent_on_child_terminal_def
  by (intro keeps_intros log_ok_workflow_update log_ok_append [where n = "wf_delivered_event_sequence parent"])
    (use assms in \<open>auto simp: delivered_simps tx_simps dest: checked_next split: if_splits\<close>)

lemma log_ok_wake_waiting_parents [keeps_intros]:
  "keeps (log_ok C K) (wake_waiting_parents_on_child_terminal E child outcome now)"
  unfolding wake_waiting_parents_on_child_terminal_def
  by (rule keeps_read [where rows = id]) (auto simp: waiting_parents_def intro!: keeps_intros log_ok_wake_loaded_parent)

lemma log_ok_start [keeps_intros]:
  "keeps (log_ok C K) (prepare_start k v i st p)"
  "keeps (log_ok C K) (check_prepared_start q p)"
  "keeps (log_ok C K) (insert_prepared_untraced k v ij sj p)"
  "keeps (log_ok C K) (insert_new_child c key w n root)"
  unfolding prepare_start_def check_prepared_start_def insert_prepared_untraced_def insert_new_child_def
  by (intro keeps_intros; simp add: new_workflow_row_def)+

lemma log_ok_store_starts [keeps_intros]:
  "keeps (log_ok C K) (start k v i st p)"
  "keeps (log_ok C K) (start_prepared_in q p)"
  "keeps (log_ok C K) (start_prepared_with_conn q p)"
  "keeps (log_ok C K) (insert_child c key w n root)"
  unfolding start_def start_prepared_in_def start_prepared_with_conn_def insert_child_def
  by (intro keeps_intros)+

lemma log_ok_cancel_parts [keeps_intros]:
  "keeps (log_ok C K) (cancel_activity reason outcome now activity)"
  "keeps (log_ok C K) (cancel_activities i reason outcome now)"
  "keeps (log_ok C K) (cancel_approvals i reason now)"
  "keeps (log_ok C K) (close_attempt activity outcome reason now)"
  unfolding cancel_activities_def cancel_approvals_def cancel_approval_def cancel_activity_def close_attempt_def
  by (intro keeps_intros)+

lemma log_ok_cancel_one_workflow [keeps_intros]:
  "keeps (log_ok C K) (cancel_one_workflow E w reason who now)"
  unfolding cancel_one_workflow_def
  by (intro keeps_intros log_ok_workflow_update log_ok_append) (simp_all add: delivered_simps)

lemma log_ok_cancel_generations [keeps_intros]:
  "keeps (log_ok C K) (cancel_generations E reason who now fuel g ps)"
  by (induction fuel arbitrary: g ps) (auto simp: lock_successor_def intro!: keeps_intros)

lemma log_ok_cancel_children [keeps_intros]:
  "keeps (log_ok C K) (cancel_children E reason who now fuel ids ps)"
  by (induction ids arbitrary: ps) (auto intro!: keeps_intros)

lemma log_ok_cancel_cascade [keeps_intros]:
  "keeps (log_ok C K) (cancel_cascade E who now chain fuel ps)"
  by (induction E who now chain fuel ps rule: cancel_cascade.induct) (auto intro!: keeps_intros)

lemma log_ok_cancel [keeps_intros]:
  "keeps (log_ok C K) (cancel_owned_descendants E w reason who now)"
  "keeps (log_ok C K) (cancel_locked_workflow E w reason who now)"
  "keeps (log_ok C K) (cancel_with_conn E i why)"
  unfolding cancel_locked_workflow_def cancel_owned_descendants_def cancel_with_conn_def Let_def
  by (intro keeps_intros)+

lemma log_ok_supersede_blocked [keeps_intros]: "keeps (log_ok C K) (supersede_blocked E w i v now)"
  unfolding supersede_blocked_def hand_waiting_parents_to_successor_def reattach_parent_def
  by (intro keeps_intros log_ok_workflow_update) (simp_all add: delivered_simps)

lemma log_ok_recoverable_start [keeps_intros]:
  "keeps (log_ok C K) (recoverable_start_in E k v ij sj p)"
  "keeps (log_ok C K) (start_or_restart_recoverable E k v i st p)"
  unfolding start_or_restart_recoverable_def recoverable_start_in_def by (intro keeps_intros)+

section \<open>Claims and activation failures\<close>

lemma log_ok_append_history [keeps_intros]:
  "keeps (log_ok C K) (append_history i ty now)"
  "keeps (log_ok C K) (append_activity_history row ty reason now)"
  "keeps (log_ok C K) (append_operator_event i ty op now)"
  unfolding append_history_def append_activity_history_def append_operator_event_def by (intro keeps_intros)+

text \<open>A claim takes a lease with a token no one else holds.\<close>

lemma lease_ready_known:
  assumes "log_ok C K s" and "\<forall>(i, t, n) \<in> C. t \<noteq> tok" and "row \<in> set (workflows s)"
    and "lease_ready w tok ex now row s = Inr (claim, s')"
  shows "log_ok (insert (wf_id row, tok, wf_delivered_event_sequence row) C) K s'"
proof -
  let ?g = "\<lambda>r. if wf_id r = wf_id row \<and> wf_status r = WS_Ready then r\<lparr>wf_status := WS_Running,
    wf_lease_owner := Some w, wf_lease_token := Some tok, wf_lease_expires_at := Some ex, wf_updated_at := now\<rparr> else r"
  from assms(4) have s': "s' = s\<lparr>workflows := map ?g (workflows s)\<rparr>"
    by (auto simp: lease_ready_def fenced_def tx_simps)
  have inj: "inj_on wf_id (set (workflows s))" using assms(1) by (simp add: log_ok_def distinct_map)
  have "leases_known (insert (wf_id row, tok, wf_delivered_event_sequence row) C) (?g r)"
    if "r \<in> set (workflows s)" for r
    using that assms(1-3) inj_onD [OF inj _ that assms(3)] by (fastforce simp: leases_known_def log_ok_def)
  with assms(1) show ?thesis
    by (intro log_ok_map [OF assms(1) s']) (auto simp: log_ok_def gapless_def)
qed

lemma log_ok_activation_failure [keeps_intros]:
  "keeps (log_ok C K) (record_activation_failure E config claim message)"
  unfolding record_activation_failure_def Let_def
  by (intro keeps_intros log_ok_workflow_update) (simp_all add: delivered_simps)

section \<open>Activities\<close>

lemma log_ok_block_workflow [keeps_intros]: "keeps (log_ok C K) (block_workflow row category message now)"
  unfolding block_workflow_def by (intro keeps_intros log_ok_workflow_update) simp_all

lemma log_ok_wake_workflow [keeps_intros]: "keeps (log_ok C K) (wake_workflow E claim output now)"
  unfolding wake_workflow_def Let_def
  by (rule keeps_row_reads(1))
    (intro keeps_intros log_ok_workflow_update log_ok_append, auto simp: delivered_simps)

lemma log_ok_settle [keeps_intros]:
  "keeps (log_ok C K) (settle_revoked row out message now)"
  "keeps (log_ok C K) (expire_running E w now row)"
  "keeps (log_ok C K) (settle_expired E w now row)"
  unfolding settle_revoked_def expire_running_def settle_expired_def Let_def by (intro keeps_intros)+

lemma log_ok_reconcile [keeps_intros]:
  "keeps (log_ok C K) (reconcile_candidate E held topic now c)"
  "keeps (log_ok C K) (reconcile_all E held topic now cs)"
  "keeps (log_ok C K) (reconcile_expired E held topic now)"
proof -
  show one: "keeps (log_ok C K) (reconcile_candidate E held topic now c)" for c
    unfolding reconcile_candidate_def by (intro keeps_intros)
  show all: "keeps (log_ok C K) (reconcile_all E held topic now cs)" for cs
    by (induction cs) (auto intro!: keeps_intros one)
  show "keeps (log_ok C K) (reconcile_expired E held topic now)"
    unfolding reconcile_expired_def by (intro keeps_intros all)
qed

lemma log_ok_claim_locked_candidate [keeps_intros]: "keeps (log_ok C K) (claim_locked_candidate V now c)"
  unfolding claim_locked_candidate_def claim_pending_row_def quarantine_candidate_def lease_activity_def Let_def
  by (intro keeps_intros)

lemma log_ok_claim_loops [keeps_intros]:
  "keeps (log_ok C K) (claim_first V now cs)"
  "keeps (log_ok C K) (claim_while V now topic limit wanted claims cs)"
  by (induction cs arbitrary: claims) (auto intro!: keeps_intros)

lemma log_ok_claim_topics [keeps_intros]:
  "keeps (log_ok C K) (claim_topics V now limit capacity claims ts)"
  by (induction ts arbitrary: claims) (auto simp: Let_def intro!: keeps_intros)

lemma log_ok_claims [keeps_intros]:
  "keeps (log_ok C K) (claim_one V T topic)"
  "keeps (log_ok C K) (claim_batch V T topic_held limit local_capacity)"
  unfolding claim_one_def claim_batch_def by (intro keeps_intros)+

lemma log_ok_heartbeat [keeps_intros]: "keeps (log_ok C K) (heartbeat_once claim started)"
  unfolding heartbeat_once_def by (intro keeps_intros)

lemma log_ok_finish [keeps_intros]: "keeps (log_ok C K) (finish_on_connection E claim outcome)"
  unfolding finish_on_connection_def finish_succeeded_def finish_retryable_def finish_revoked_def
    dead_letter_def finish_attempt_def
  by (intro keeps_intros)

section \<open>Timers, approvals and operators\<close>

lemma log_ok_deliver_event:
  "known w \<in> K \<Longrightarrow> keeps (log_ok C K) (append_delivery_event E w ty ev now)"
  unfolding append_delivery_event_def
  by (intro keeps_intros log_ok_append [where n = "wf_delivered_event_sequence w"])
    (auto simp: delivered_simps tx_simps dest: checked_next)

lemma log_ok_clear_wait [keeps_intros]: "keeps (log_ok C K) (clear_wait w now)"
  unfolding clear_wait_def
  by (intro keeps_intros log_ok_workflow_update) (auto simp: delivered_simps split: if_splits)

lemma due_timer_row: "due_timer held now s = Some w \<Longrightarrow> w \<in> set (workflows s)"
  by (auto simp: due_timer_def split: list.splits dest: sorted_head(1))

lemma log_ok_timer [keeps_intros]: "keeps (log_ok C K) (materialize_timer E held now)"
  unfolding materialize_timer_def
  by (rule keeps_read [where rows = "\<lambda>x. case x of None \<Rightarrow> [] | Some w \<Rightarrow> [w]"])
    (auto split: option.splits dest: due_timer_row [OF sym] intro!: keeps_intros log_ok_deliver_event)

lemma log_ok_expiry [keeps_intros]:
  "keeps (log_ok C K) (expire_approval E candidate now)"
  "keeps (log_ok C K) (materialize_expiry E s0 now)"
proof -
  show one: "keeps (log_ok C K) (expire_approval E candidate now)" for candidate
    unfolding expire_approval_def
    by (rule keeps_prod, rule keeps_row_reads(1)) (intro keeps_intros log_ok_deliver_event, simp_all)
  show "keeps (log_ok C K) (materialize_expiry E s0 now)"
    unfolding materialize_expiry_def by (intro keeps_intros one)
qed

lemma log_ok_operator_workflow [keeps_intros]:
  "keeps (log_ok C K) (pause_workflow i op)"
  "keeps (log_ok C K) (resume_workflow i op)"
  "keeps (log_ok C K) (cancel_workflow E i op)"
  unfolding pause_workflow_def pause_activity_def resume_workflow_def cancel_workflow_def
  by (intro keeps_intros log_ok_workflow_update; simp add: delivered_simps)+

lemma log_ok_restart [keeps_intros]: "keeps (log_ok C K) (restart E R i corr op)"
  unfolding restart_def finish_restart_def supersede_source_def Let_def
  by (intro keeps_intros log_ok_workflow_update) (simp_all add: delivered_simps)

lemma log_ok_retry [keeps_intros]: "keeps (log_ok C K) (retry E R s0 i corr op)"
  unfolding retry_def retry_locked_def insert_command_activity_def Let_def
  by (intro keeps_intros log_ok_workflow_update) (simp_all add: delivered_simps)

lemma log_ok_resolve_approval [keeps_intros]: "keeps (log_ok C K) (resolve_approval E R i json op)"
  unfolding resolve_approval_def
  by (intro keeps_row_reads(2) keeps_intros log_ok_workflow_update log_ok_append)
    (auto simp: delivered_simps tx_simps dest: checked_next split: if_splits)

section \<open>Schedules\<close>

text \<open>A schedule handler owes the log what the store gives it.\<close>

locale logged_starter = occurrence_starter +
  assumes starter_log: "keeps (log_ok C K) (h run at)"

interpretation logged_store: logged_starter "store_starter prepared" for prepared
  by unfold_locales (unfold store_starter_def, intro keeps_intros)

locale logged_handlers = schedule_handlers +
  assumes logged: "R key = Some entry \<Longrightarrow> logged_starter (rs_handler entry)"
begin

lemma start_log: "keeps (log_ok C K) (start_occurrence R key run at)"
  unfolding start_occurrence_def
  by (auto intro!: keeps_intros dest: logged logged_starter.starter_log split: option.split)

lemma occurrence_log: "keeps (log_ok C K) (materialize_occurrence R key overlap now occ outcome t)"
  unfolding materialize_occurrence_def by (intro keeps_intros start_log)

lemma due_log: "keeps (log_ok C K) (materialize_due R key overlap now plan t)"
  by (induction plan arbitrary: t) (auto intro!: keeps_intros occurrence_log)

lemma materialize_log: "keeps (log_ok C K) (materialize_locked Z R entry key now)"
  unfolding materialize_locked_def tick_schedule_def finish_tick_def promote_if_idle_def promote_queued_def
    advance_schedule_def lock_schedule_row_def tx_partial_def Let_def
  by (intro keeps_intros due_log start_log)

lemma run_now_log: "keeps (log_ok C K) (run_schedule_now (Some R) has_context key operator)"
  unfolding run_schedule_now_def require_schedule_registry_def lock_schedule_state_def Let_def
  by (intro keeps_intros start_log) (auto simp: tx_simps intro: start_log)

end

interpretation logged_stored: logged_handlers "store_registry P" for P
  by (intro logged_handlers.intro logged_handlers_axioms.intro stored.schedule_handlers_axioms)
    (auto simp: store_registry_def intro: logged_store.logged_starter_axioms)

lemma log_ok_schedule_state [keeps_intros]:
  "keeps (log_ok C K) (reconcile_state Z R key now)"
  "keeps (log_ok C K) (set_schedule_paused schedules key paused operator)"
  unfolding reconcile_state_def reconcile_entry_def upgrade_state_def MaterializedFloor_load_def lock_schedule_row_def
    set_schedule_paused_def lock_schedule_state_def tx_partial_def Let_def
  by (intro keeps_intros)+

section \<open>Claims and commits of the coordinator\<close>

abbreviation lease_of :: "claimed_row \<Rightarrow> i64 \<times> string \<times> i32" where
  "lease_of claim \<equiv> (wf_id (cl_row claim), cl_lease_token claim, wf_delivered_event_sequence (cl_row claim))"

lemma first_some_mem: "first_some f xs = Some y \<Longrightarrow> \<exists>x \<in> set xs. f x = Some y"
  by (induction xs) (auto split: option.splits)

lemma log_ok_claim_row:
  assumes ok: "log_ok C K s" and fresh: "\<forall>(i, t, n) \<in> C. t \<noteq> tok"
    and claim: "claim_row held config w defs tok s = Inr (out, s')"
  shows "log_ok (set_option (map_option lease_of out) \<union> C) K s'"
proof -
  have prefix: "keeps (log_ok C K) (case expired of None \<Rightarrow> tx_return () | Some e \<Rightarrow> recover_expired now e)"
    for expired now
    unfolding recover_expired_def
    by (intro keeps_intros log_ok_workflow_update) (simp_all add: delivered_simps)
  from claim obtain n m expired s1 s2 where s1: "log_ok C K s1"
    and rec: "(case expired of None \<Rightarrow> tx_return () | Some e \<Rightarrow> recover_expired n e) s1 = Inr ((), s2)"
    and rest: "(if defs = [] then tx_return None else
        tx_bind (tx_query (\<lambda>s. first_some (relock_ready held n s) (ready_candidates defs n s))) (\<lambda>ready.
        case ready of
          None \<Rightarrow> tx_return None
        | Some row \<Rightarrow> tx_bind (lease_ready w tok m n row) (\<lambda>claim. tx_return (Some claim)))) s2 = Inr (out, s')"
    unfolding claim_row_def using ok
    by (auto simp: tx_bind_Inr tx_seq_Inr tx_simps simp del: scan_expired.simps dest!: keepsD [where I = "log_ok C K", OF keeps_scan_expired, rotated])
  note s2 = keepsD [OF prefix s1 rec]
  show ?thesis
  proof (cases out)
    case None
    with rest s2 show ?thesis by (auto simp: tx_simps split: if_splits option.splits)
  next
    case (Some c)
    with rest obtain row where ready: "first_some (relock_ready held n s2) (ready_candidates defs n s2) = Some row"
      and lease: "lease_ready w tok m n row s2 = Inr (c, s')"
      by (auto simp: tx_simps split: if_splits option.splits)
    from ready have "row \<in> set (workflows s2)"
      by (auto simp: relock_ready_def dest!: first_some_mem dest: find_mem split: if_splits)
    from lease_ready_known [OF s2 fresh this lease] lease Some show ?thesis
      by (auto simp: lease_ready_def fenced_def tx_simps)
  qed
qed

text \<open>The state in which a commit consumes the event \<open>d\<close>: it is the one after the counter.\<close>

definition awaiting :: "(i64 \<times> string \<times> i32) set \<Rightarrow> i64 \<Rightarrow> i32 \<Rightarrow> db \<Rightarrow> bool" where
  "awaiting C i d s \<longleftrightarrow> log_ok C {(i, d - 1)} s \<and> d \<in> deliveries s i"

lemma keeps_awaiting:
  assumes "keeps (log_ok C {(i, d - 1)}) m" and "guarantees db_evolves m"
  shows "keeps (awaiting C i d) m"
proof (rule keepsI)
  fix s a s' assume s: "awaiting C i d s" and m: "m s = Inr (a, s')"
  have "rows_evolve (=) (events s) (events s')" using guaranteesD [OF assms(2) m] by (simp add: db_evolves_def)
  then have "deliveries s i \<subseteq> deliveries s' i" by (auto simp: deliveries_def dest: rows_evolve_mem)
  with s keepsD [OF assms(1) _ m] show "awaiting C i d s'" by (auto simp: awaiting_def)
qed

lemma consume_event:
  assumes "\<And>r. wf_id (f r) = wf_id r \<and> wf_delivered_event_sequence (f r) = d \<and> wf_status (f r) \<noteq> WS_Running"
  shows "establishes (awaiting C (wf_id (cl_row claim)) d) (log_ok C {(wf_id (cl_row claim), d)})
    (fenced (workflow_update (fenced_workflow claim) f))"
  unfolding establishes_def
proof (intro allI impI)
  let ?g = "\<lambda>r. if fenced_workflow claim r then f r else r" and ?i = "wf_id (cl_row claim)"
  fix s a s' assume s: "awaiting C ?i d s"
    and "fenced (workflow_update (fenced_workflow claim) f) s = Inr (a, s')"
  then have s': "s' = s\<lparr>workflows := map ?g (workflows s)\<rparr>"
    and one: "length (filter (fenced_workflow claim) (workflows s)) = 1"
    by (auto simp: fenced_def tx_simps ensure_fenced_def split: if_splits)
  from s have ok: "log_ok C {(?i, d - 1)} s" and d: "d \<in> deliveries s ?i" by (simp_all add: awaiting_def)
  from one have "filter (fenced_workflow claim) (workflows s) \<noteq> []" by auto
  then obtain q where q: "q \<in> set (workflows s)" "fenced_workflow claim q" by (auto simp: filter_empty_conv)
  have inj: "inj_on wf_id (set (workflows s))" using ok by (simp add: log_ok_def distinct_map)
  have the_row: "r = q" if "r \<in> set (workflows s)" "wf_id r = ?i" for r
    using that q inj_onD [OF inj, of r q] by (simp add: fenced_workflow_def)
  have gap: "gapless s (f q)"
  proof -
    have "gapless s q" "wf_delivered_event_sequence q = d - 1" using ok q by (auto simp: log_ok_def fenced_workflow_def)
    moreover from d have "deliveries s ?i \<noteq> {1..d - 1}" by auto
    ultimately have "deliveries s ?i = {1..d}" "0 \<le> d" using q(2) by (simp_all add: gapless_def fenced_workflow_def)
    with assms q(2) show ?thesis by (simp add: gapless_def fenced_workflow_def)
  qed
  show "log_ok C {(?i, d)} s'"
  proof (rule log_ok_map [OF ok s'])
    fix r assume r: "r \<in> set (workflows s)"
    have "gapless s (?g r)"
      using gap the_row [OF r] ok r by (auto simp: fenced_workflow_def log_ok_def)
    moreover have "leases_known C (?g r)" using ok r assms by (auto simp: log_ok_def leases_known_def)
    ultimately show "wf_id (?g r) = wf_id r \<and> gapless s (?g r) \<and> leases_known C (?g r)" using assms by auto
  next
    fix r i n assume "r \<in> set (workflows s)" "(i, n) \<in> {(?i, d)}" "wf_id r = i"
    with the_row q(2) assms show "wf_delivered_event_sequence (?g r) = n" by auto
  qed (use ok in \<open>auto simp: log_ok_def\<close>)
qed

lemma establishes_if:
  "(b \<Longrightarrow> establishes I Q m) \<Longrightarrow> (\<not> b \<Longrightarrow> establishes I Q k) \<Longrightarrow> establishes I Q (if b then m else k)"
  by simp

lemmas commit_simps = activation_consumed_def command_committed_def changes

lemma establishes_commit:
  fixes C claim d
  defines "I \<equiv> awaiting C (wf_id (cl_row claim)) d" and "Q \<equiv> log_ok C {(wf_id (cl_row claim), d)}"
  shows "establishes I Q (commit_continue config claim d st now)"
    and "establishes I Q (commit_complete E claim d out now)"
    and "establishes I Q (commit_sleep claim d c st at now)"
    and "establishes I Q (commit_approval claim d c st json ex now)"
    and "establishes I Q (commit_activity E claim d c st act now)"
    and "establishes I Q (commit_child E claim d c st child now)"
proof -
  show "establishes I Q (commit_continue config claim d st now)"
    unfolding I_def Q_def commit_continue_def Let_def
    by (rule establishes_bind, intro keeps_intros, rule establishes_first, rule consume_event)
      (simp add: commit_simps, intro keeps_intros log_ok_append, auto simp: delivered_simps)
  show "establishes I Q (commit_complete E claim d out now)"
    unfolding I_def Q_def commit_complete_def
    by (rule establishes_first, rule consume_event) (simp add: commit_simps, intro keeps_intros)
  show "establishes I Q (commit_sleep claim d c st at now)"
    unfolding I_def Q_def commit_sleep_def
    by (rule establishes_bind, intro keeps_intros, rule establishes_first, rule consume_event)
      (simp add: commit_simps, intro keeps_intros)
  show "establishes I Q (commit_approval claim d c st json ex now)"
    unfolding I_def Q_def commit_approval_def
    by (rule establishes_second, intro keeps_awaiting keeps_intros guar_intros, rule establishes_bind,
        intro keeps_awaiting keeps_intros guar_intros, rule establishes_first, rule consume_event)
      (simp add: commit_simps, intro keeps_intros)
  show "establishes I Q (commit_activity E claim d c st act now)"
    unfolding I_def Q_def commit_activity_def
    by (rule establishes_second, intro keeps_awaiting keeps_intros guar_intros, rule establishes_bind,
        unfold insert_command_activity_def, intro keeps_awaiting keeps_intros guar_intros,
        rule establishes_first, rule consume_event)
      (simp add: commit_simps, intro keeps_intros)
  show "establishes I Q (commit_child E claim d c st child now)"
    unfolding I_def Q_def commit_child_def set_child_wait_def is_caller_or_ancestor_def Let_def
    by (rule establishes_bind, intro keeps_awaiting keeps_intros guar_intros, rule establishes_bind,
        intro keeps_awaiting keeps_intros guar_intros, rule establishes_if, rule establishes_fail,
        rule establishes_first, rule consume_event)
      (simp add: commit_simps, intro keeps_intros)
qed

text \<open>
  A commit that returns consumed the event after the counter: its claim was still valid,
  and the counter had not moved since the claim.
\<close>

lemma log_ok_commit:
  assumes ok: "log_ok C {} s" and lease: "lease_of claim \<in> C"
    and event: "event \<in> set (events s)" "ev_workflow_id event = wf_id (cl_row claim)"
      "sql_gt (ev_delivery_sequence event) (wf_delivered_event_sequence (cl_row claim))"
    and commit: "commit_on_connection E config claim event transition s = Inr (u, s')"
  shows "log_ok C {(wf_id (cl_row claim), wf_delivered_event_sequence (cl_row claim) + 1)} s'"
    and "ev_delivery_sequence event = Some (wf_delivered_event_sequence (cl_row claim) + 1)"
proof -
  let ?i = "wf_id (cl_row claim)" and ?n = "wf_delivered_event_sequence (cl_row claim)"
  have "\<not> claim_stale claim s" using rejectsD [OF rejects_stale_commit] commit by blast
  then obtain r where r: "r \<in> set (workflows s)" "fenced_workflow claim r" by (auto simp: claim_stale_def)
  with ok lease have n: "wf_delivered_event_sequence r = ?n" and "gapless s r"
    by (auto simp: log_ok_def leases_known_def fenced_workflow_def)
  from event obtain d where d: "ev_delivery_sequence event = Some d" "?n < d" "d \<in> deliveries s ?i"
    by (auto simp: sql_gt_def deliveries_def split: option.splits)
  with \<open>gapless s r\<close> r(2) n have "d \<le> ?n + 1" by (auto simp: gapless_def fenced_workflow_def)
  with d have dn: "d = ?n + 1" by simp
  with d show "ev_delivery_sequence event = Some (?n + 1)" by simp
  have "log_ok C {(?i, d - 1)} s"
    using log_ok_known [OF ok, of "{r}"] r n dn by (simp add: fenced_workflow_def)
  with d have now: "awaiting C ?i d s" by (simp add: awaiting_def)
  have "establishes (awaiting C ?i d) (log_ok C {(?i, d)}) (commit_on_connection E config claim event transition)"
    unfolding commit_on_connection_def Let_def d(1)
    by (rule establishes_bind, intro keeps_intros, rule establishes_bind, intro keeps_awaiting keeps_intros guar_intros)
      (cases transition; simp add: establishes_commit tx_simps)
  from establishesD [OF this now commit] show "log_ok C {(?i, ?n + 1)} s'" by (simp add: dn)
qed

end
