(* ===== verification/Attempts.thy ===== *)
theory Attempts
  imports Deliveries
begin

text \<open>
  The coupling of an activity with its attempts (invariant S11 of \<open>docs/INVARIANTS.md\<close>), for
  every transaction of the engine: an activity holds a lease exactly while the attempt its
  counter names is open under the same token. The transactions that take or end a lease
  write both tables, one statement each; between the two the invariant does not hold, so
  those pairs are treated as one.
\<close>

section \<open>The invariant\<close>

definition open_attempt :: "activity_row \<Rightarrow> activity_attempt_row \<Rightarrow> bool" where
  "open_attempt a t \<longleftrightarrow>
     att_activity_id t = act_id a \<and> att_attempt_number t = act_attempt_count a \<and>
     act_lease_token a = Some (att_lease_token t) \<and> att_finished_at t = None"

definition attempts_ok :: "db \<Rightarrow> bool" where
  "attempts_ok s \<longleftrightarrow>
     distinct (map act_id (activities s)) \<and> (\<forall>a \<in> set (activities s). act_id a < next_activity_id s) \<and>
     (\<forall>a \<in> set (activities s). holds_lease (act_status a) \<longrightarrow> (\<exists>t \<in> set (attempts s). open_attempt a t)) \<and>
     (\<forall>t \<in> set (attempts s). att_finished_at t = None \<longrightarrow>
        (\<exists>a \<in> set (activities s). holds_lease (act_status a) \<and> open_attempt a t))"

lemma attempts_ok_same [simp]:
  "attempts_ok (workflows_update f1 s) = attempts_ok s"
  "attempts_ok (events_update f2 s) = attempts_ok s"
  "attempts_ok (approvals_update f3 s) = attempts_ok s"
  "attempts_ok (schedule_runs_update f4 s) = attempts_ok s"
  "attempts_ok (schedule_states_update f5 s) = attempts_ok s"
  "attempts_ok (next_workflow_id_update f6 s) = attempts_ok s"
  "attempts_ok (next_approval_id_update f7 s) = attempts_ok s"
  "attempts_ok (next_schedule_run_id_update f8 s) = attempts_ok s"
  "attempts_ok (next_event_id_update f9 s) = attempts_ok s"
  "attempts_ok (clock_reads_update f10 s) = attempts_ok s"
  by (simp_all add: attempts_ok_def)

section \<open>Statements\<close>

lemma attempts_ok_frame [keeps_intros]:
  "keeps attempts_ok database_now_millis"
  "keeps attempts_ok (workflow_update P1 f1)"
  "keeps attempts_ok (approval_update P3 f3)"
  "keeps attempts_ok (schedule_run_update P4 f4)"
  "keeps attempts_ok (schedule_state_update P5 f5)"
  "keeps attempts_ok (link_schedule_run P6 i f6)"
  "keeps attempts_ok (append_event e)"
  "keeps attempts_ok (insert_approval p)"
  "keeps attempts_ok (insert_schedule_run r)"
  "keeps attempts_ok (insert_schedule_state_if_absent st)"
  by (auto simp: keeps_def tx_simps link_schedule_run_def insert_schedule_state_Inr append_event_Inr
      split: if_splits dest!: insert_approval_Inr insert_schedule_run_Inr)

lemma attempts_ok_insert_workflow [keeps_intros]: "keeps attempts_ok (insert_workflow row)"
  by (auto simp: keeps_def insert_workflow_def split: if_splits)

lemma attempts_ok_insert_activity [keeps_intros]:
  "\<not> holds_lease (act_status row) \<Longrightarrow> keeps attempts_ok (insert_activity row)"
  by (fastforce simp: keeps_def attempts_ok_def open_attempt_def dest!: insert_activity_Inr)

lemma attempts_ok_change:
  assumes "attempts_ok s" and "activities s' = map g (activities s)" "next_activity_id s' = next_activity_id s"
    and "\<And>a. a \<in> set (activities s) \<Longrightarrow> act_id (g a) = act_id a"
    and "\<And>a. a \<in> set (activities s) \<Longrightarrow> holds_lease (act_status (g a)) \<Longrightarrow>
      \<exists>t \<in> set (attempts s'). open_attempt (g a) t"
    and "\<And>t. t \<in> set (attempts s') \<Longrightarrow> att_finished_at t = None \<Longrightarrow>
      \<exists>a \<in> set (activities s). holds_lease (act_status (g a)) \<and> open_attempt (g a) t"
  shows "attempts_ok s'"
proof -
  have "map act_id (activities s') = map act_id (activities s)" using assms(2,4) by simp
  with assms(1) have "distinct (map act_id (activities s'))" by (simp add: attempts_ok_def)
  moreover have "\<forall>a \<in> set (activities s'). act_id a < next_activity_id s'"
    using assms(1-4) by (simp add: attempts_ok_def)
  moreover have "\<forall>a \<in> set (activities s'). holds_lease (act_status a) \<longrightarrow> (\<exists>t \<in> set (attempts s'). open_attempt a t)"
    using assms(5) by (simp add: assms(2))
  moreover have "\<forall>t \<in> set (attempts s'). att_finished_at t = None \<longrightarrow>
      (\<exists>a \<in> set (activities s'). holds_lease (act_status a) \<and> open_attempt a t)"
    using assms(6) by (simp add: assms(2))
  ultimately show ?thesis by (simp only: attempts_ok_def)
qed

lemma attempts_ok_map:
  assumes "attempts_ok s" and "activities s' = map g (activities s)" "attempts s' = map h (attempts s)"
      "next_activity_id s' = next_activity_id s"
    and "\<And>a. a \<in> set (activities s) \<Longrightarrow> act_id (g a) = act_id a"
    and "\<And>a. a \<in> set (activities s) \<Longrightarrow> holds_lease (act_status (g a)) \<Longrightarrow>
      \<exists>t \<in> set (attempts s). open_attempt (g a) (h t)"
    and "\<And>t. t \<in> set (attempts s) \<Longrightarrow> att_finished_at (h t) = None \<Longrightarrow>
      \<exists>a \<in> set (activities s). holds_lease (act_status (g a)) \<and> open_attempt (g a) (h t)"
  shows "attempts_ok s'"
  by (rule attempts_ok_change [OF assms(1,2,4,5)]) (use assms(6,7) in \<open>auto simp: assms(3)\<close>)

lemma attempts_ok_holder:
  "attempts_ok s \<Longrightarrow> a \<in> set (activities s) \<Longrightarrow> holds_lease (act_status a) \<Longrightarrow>
   \<exists>t \<in> set (attempts s). open_attempt a t"
  by (simp add: attempts_ok_def)

lemma attempts_ok_open:
  "attempts_ok s \<Longrightarrow> t \<in> set (attempts s) \<Longrightarrow> att_finished_at t = None \<Longrightarrow>
   \<exists>a \<in> set (activities s). holds_lease (act_status a) \<and> open_attempt a t"
  by (simp add: attempts_ok_def)

lemma attempts_ok_activity_update:
  assumes "\<And>a. P a \<Longrightarrow> act_id (f a) = act_id a \<and> holds_lease (act_status (f a)) = holds_lease (act_status a) \<and>
    (holds_lease (act_status a) \<longrightarrow>
      act_attempt_count (f a) = act_attempt_count a \<and> act_lease_token (f a) = act_lease_token a)"
  shows "keeps attempts_ok (activity_update P f)"
proof (rule keepsI)
  let ?g = "\<lambda>a. if P a then f a else a"
  fix s n s' assume ok: "attempts_ok s" and "activity_update P f s = Inr (n, s')"
  then have s': "activities s' = map ?g (activities s)" "attempts s' = map id (attempts s)"
    "next_activity_id s' = next_activity_id s" by (simp_all add: tx_simps)
  have g: "act_id (?g a) = act_id a" "holds_lease (act_status (?g a)) = holds_lease (act_status a)" for a
    using assms [of a] by auto
  have same: "open_attempt (?g a) t = open_attempt a t" if "holds_lease (act_status a)" for a t
    using that assms [of a] by (simp add: open_attempt_def)
  show "attempts_ok s'"
    by (rule attempts_ok_map [OF ok s'])
      (use attempts_ok_holder [OF ok] attempts_ok_open [OF ok] same in \<open>simp_all only: g id_apply\<close>, blast+)
qed

lemma attempts_ok_attempt_update:
  assumes "\<And>t. P t \<Longrightarrow> att_activity_id (f t) = att_activity_id t \<and> att_attempt_number (f t) = att_attempt_number t \<and>
    att_lease_token (f t) = att_lease_token t \<and> att_finished_at (f t) = att_finished_at t"
  shows "keeps attempts_ok (attempt_update P f)"
proof (rule keepsI)
  let ?h = "\<lambda>t. if P t then f t else t"
  fix s n s' assume ok: "attempts_ok s" and "attempt_update P f s = Inr (n, s')"
  then have s': "activities s' = map id (activities s)" "attempts s' = map ?h (attempts s)"
    "next_activity_id s' = next_activity_id s" by (simp_all add: tx_simps)
  have h: "open_attempt a (?h t) = open_attempt a t" "att_finished_at (?h t) = att_finished_at t" for a t
    using assms [of t] by (auto simp: open_attempt_def)
  show "attempts_ok s'"
    by (rule attempts_ok_map [OF ok s'])
      (use attempts_ok_holder [OF ok] attempts_ok_open [OF ok] in \<open>simp_all only: h id_apply\<close>)
qed

section \<open>Taking and ending a lease\<close>

lemma keeps_pair:
  assumes "\<And>s s1 s2. I s \<Longrightarrow> m s = Inr ((), s1) \<Longrightarrow> k s1 = Inr ((), s2) \<Longrightarrow> I s2" and "keeps I rest"
  shows "keeps I (tx_seq m (tx_seq k rest))"
proof (rule keepsI)
  fix s a s' assume "I s" and "tx_seq m (tx_seq k rest) s = Inr (a, s')"
  then obtain s1 s2 where "m s = Inr ((), s1)" "k s1 = Inr ((), s2)" and r: "rest s2 = Inr (a, s')"
    by (auto simp: tx_seq_Inr)
  with assms(1) \<open>I s\<close> have "I s2" by blast
  from keepsD [OF assms(2) this r] show "I s'" .
qed

lemma unique_activity:
  assumes "attempts_ok s" and "a \<in> set (activities s)" "b \<in> set (activities s)" "act_id a = act_id b"
  shows "a = b"
proof -
  have "inj_on act_id (set (activities s))" using assms(1) by (simp add: attempts_ok_def distinct_map)
  from inj_onD [OF this assms(4,2,3)] show ?thesis .
qed

lemma lease_ended:
  assumes ok: "attempts_ok s"
    and P: "\<And>a. P a \<Longrightarrow> act_id a = i \<and> holds_lease (act_status a) \<and> act_attempt_count a = n \<and> act_lease_token a = Some tok"
    and f: "\<And>a. act_id (f a) = act_id a \<and> \<not> holds_lease (act_status (f a))"
    and Q: "\<And>t. Q t \<longleftrightarrow> att_activity_id t = i \<and> att_attempt_number t = n \<and> att_lease_token t = tok \<and> att_finished_at t = None"
    and h: "\<And>t. att_finished_at (h t) \<noteq> None"
    and a0: "a0 \<in> set (activities s)" "P a0"
    and s': "activities s' = map (\<lambda>a. if P a then f a else a) (activities s)"
      "attempts s' = map (\<lambda>t. if Q t then h t else t) (attempts s)" "next_activity_id s' = next_activity_id s"
  shows "attempts_ok s'"
proof (rule attempts_ok_map [OF ok s'])
  have same: "a = a0" if "a \<in> set (activities s)" "act_id a = i" for a
    using unique_activity [OF ok that(1) a0(1)] that(2) P [OF a0(2)] by simp
  fix a assume a: "a \<in> set (activities s)"
  show "act_id (if P a then f a else a) = act_id a" using f by simp
  assume "holds_lease (act_status (if P a then f a else a))"
  with f have not: "\<not> P a" and "holds_lease (act_status a)" by (auto split: if_splits)
  with attempts_ok_holder [OF ok a] obtain t where t: "t \<in> set (attempts s)" "open_attempt a t" by blast
  have "\<not> Q t" using not same [OF a] a0(2) t(2) Q by (auto simp: open_attempt_def)
  with t not show "\<exists>t \<in> set (attempts s). open_attempt (if P a then f a else a) (if Q t then h t else t)" by auto
next
  fix t assume t: "t \<in> set (attempts s)" and "att_finished_at (if Q t then h t else t) = None"
  with h [of t] have not: "\<not> Q t" and "att_finished_at t = None" by (auto split: if_splits)
  with attempts_ok_open [OF ok t] obtain a where a: "a \<in> set (activities s)" "holds_lease (act_status a)" "open_attempt a t"
    by blast
  have "\<not> P a" using not P [of a] a(3) Q by (auto simp: open_attempt_def)
  with a not show "\<exists>a \<in> set (activities s). holds_lease (act_status (if P a then f a else a)) \<and>
      open_attempt (if P a then f a else a) (if Q t then h t else t)" by auto
qed

lemma fenced_update_Inr:
  "fenced (activity_update P f) s = Inr ((), s') \<longleftrightarrow>
   length (filter P (activities s)) = 1 \<and> s' = s\<lparr>activities := map (\<lambda>a. if P a then f a else a) (activities s)\<rparr>"
  "fenced (attempt_update Q h) s = Inr ((), s') \<longleftrightarrow>
   length (filter Q (attempts s)) = 1 \<and> s' = s\<lparr>attempts := map (\<lambda>t. if Q t then h t else t) (attempts s)\<rparr>"
  by (auto simp: fenced_def tx_simps ensure_fenced_def split: if_splits)

lemma one_row: "length (filter P xs) = 1 \<Longrightarrow> \<exists>x \<in> set xs. P x"
  by (cases "filter P xs") (auto simp: filter_eq_Cons_iff)

lemma end_lease:
  assumes "\<And>a. P a \<Longrightarrow> act_id a = i \<and> holds_lease (act_status a) \<and> act_attempt_count a = n \<and> act_lease_token a = Some tok"
    and "\<And>a. act_id (f a) = act_id a \<and> \<not> holds_lease (act_status (f a))"
    and "\<And>t. Q t \<longleftrightarrow> att_activity_id t = i \<and> att_attempt_number t = n \<and> att_lease_token t = tok \<and> att_finished_at t = None"
    and "\<And>t. att_finished_at (h t) \<noteq> None"
    and "keeps attempts_ok rest"
  shows "keeps attempts_ok (tx_seq (fenced (activity_update P f)) (tx_seq (fenced (attempt_update Q h)) rest))" (is ?activity)
    and "keeps attempts_ok (tx_seq (fenced (attempt_update Q h)) (tx_seq (fenced (activity_update P f)) rest))" (is ?attempt)
proof -
  have ended: "attempts_ok s'" if "attempts_ok s" "length (filter P (activities s)) = 1"
    "activities s' = map (\<lambda>a. if P a then f a else a) (activities s)"
    "attempts s' = map (\<lambda>t. if Q t then h t else t) (attempts s)" "next_activity_id s' = next_activity_id s" for s s'
    using one_row [OF that(2)] lease_ended [OF that(1) assms(1-4) _ _ that(3-5)] by blast
  show ?activity
    by (rule keeps_pair [OF _ assms(5)], rule ended) (simp_all add: fenced_update_Inr)
  show ?attempt
    by (rule keeps_pair [OF _ assms(5)], rule ended) (simp_all add: fenced_update_Inr)
qed

lemma take_lease:
  assumes "keeps attempts_ok rest"
  shows "keeps attempts_ok
    (tx_seq (fenced (activity_update
       (\<lambda>a. act_id a = i \<and> act_status a = AS_Pending \<and> act_attempt_count a = n)
       (\<lambda>a. a\<lparr>act_status := AS_Running, act_attempt_count := n', act_lease_owner := Some w,
             act_lease_token := Some tok, act_lease_expires_at := Some ex, act_updated_at := now\<rparr>)))
     (tx_seq (insert_attempt
       \<lparr>att_activity_id = i, att_attempt_number = n', att_worker_id = w', att_lease_token = tok,
        att_started_at = now, att_heartbeat_at = now, att_finished_at = None, att_outcome = None,
        att_error_category = None, att_error_message = None, att_provider_result_json = None\<rparr>) rest))"
proof (rule keeps_pair [OF _ assms])
  let ?P = "\<lambda>a. act_id a = i \<and> act_status a = AS_Pending \<and> act_attempt_count a = n"
  let ?f = "\<lambda>a. a\<lparr>act_status := AS_Running, act_attempt_count := n', act_lease_owner := Some w,
             act_lease_token := Some tok, act_lease_expires_at := Some ex, act_updated_at := now\<rparr>"
  let ?t = "\<lparr>att_activity_id = i, att_attempt_number = n', att_worker_id = w', att_lease_token = tok,
        att_started_at = now, att_heartbeat_at = now, att_finished_at = None, att_outcome = None,
        att_error_category = None, att_error_message = None, att_provider_result_json = None\<rparr>"
  let ?g = "\<lambda>a. if ?P a then ?f a else a"
  fix s s1 s2 assume ok: "attempts_ok s" and "fenced (activity_update ?P ?f) s = Inr ((), s1)"
    and "insert_attempt ?t s1 = Inr ((), s2)"
  then have s2: "s2 = s\<lparr>activities := map ?g (activities s), attempts := attempts s @ [?t]\<rparr>"
    and "length (filter ?P (activities s)) = 1"
    by (auto simp: fenced_update_Inr dest!: insert_attempt_Inr)
  from one_row [OF this(2)] obtain a0 where a0: "a0 \<in> set (activities s)" "?P a0" by blast
  have new: "open_attempt (?g a0) ?t" using a0(2) by (simp add: open_attempt_def)
  have kept: "?g a = a" if "a \<in> set (activities s)" "holds_lease (act_status a)" for a using that by auto
  have holder: "\<exists>t \<in> set (attempts s2). open_attempt (?g a) t"
    if "a \<in> set (activities s)" "holds_lease (act_status (?g a))" for a
  proof (cases "?P a")
    case True
    then show ?thesis by (auto simp: s2 open_attempt_def)
  next
    case False
    with that attempts_ok_holder [OF ok that(1)] show ?thesis by (auto simp: s2)
  qed
  have opened: "\<exists>a \<in> set (activities s). holds_lease (act_status (?g a)) \<and> open_attempt (?g a) t"
    if t: "t \<in> set (attempts s2)" "att_finished_at t = None" for t
  proof (cases "t = ?t")
    case True
    with a0 new show ?thesis by (intro bexI [of _ a0]) auto
  next
    case False
    with t attempts_ok_open [OF ok, of t] obtain a where "a \<in> set (activities s)" "holds_lease (act_status a)"
      "open_attempt a t" by (auto simp: s2)
    with kept show ?thesis by (intro bexI [of _ a]) auto
  qed
  have s2': "activities s2 = map ?g (activities s)" "next_activity_id s2 = next_activity_id s" by (simp_all add: s2)
  have g: "act_id (?g a) = act_id a" for a by simp
  show "attempts_ok s2"
  proof (rule attempts_ok_change [where g = ?g, OF ok s2'])
    fix a show "act_id (?g a) = act_id a" by (rule g)
  next
    fix a assume "a \<in> set (activities s)" "holds_lease (act_status (?g a))"
    then show "\<exists>t \<in> set (attempts s2). open_attempt (?g a) t" by (rule holder)
  next
    fix t assume "t \<in> set (attempts s2)" "att_finished_at t = None"
    then show "\<exists>a \<in> set (activities s). holds_lease (act_status (?g a)) \<and> open_attempt (?g a) t" by (rule opened)
  qed
qed

section \<open>Workflows\<close>

lemma attempts_ok_events [keeps_intros]:
  "keeps attempts_ok (wake_waiting_parents_on_child_terminal E child outcome now)"
  "keeps attempts_ok (insert_started row)"
  "keeps attempts_ok (append_history i ty now)"
  "keeps attempts_ok (append_activity_history act ty reason now)"
  "keeps attempts_ok (append_operator_event i ty op now)"
  unfolding wake_waiting_parents_on_child_terminal_def wake_loaded_parent_on_child_terminal_def insert_started_def
    append_history_def append_activity_history_def append_operator_event_def
  by (intro keeps_intros)+

lemma attempts_ok_cancel_activity [keeps_intros]:
  "keeps attempts_ok (cancel_activity reason outcome now activity)"
  unfolding cancel_activity_def
  by (cases "act_status activity") (auto intro!: keeps_intros attempts_ok_activity_update simp: changes)

lemma attempts_ok_cancel_one [keeps_intros]:
  "keeps attempts_ok (cancel_activities i reason outcome now)"
  "keeps attempts_ok (cancel_approvals i reason now)"
  "keeps attempts_ok (cancel_one_workflow E w reason who now)"
  unfolding cancel_one_workflow_def cancel_activities_def cancel_approvals_def cancel_approval_def
  by (intro keeps_intros)+

lemma attempts_ok_cancel_generations [keeps_intros]:
  "keeps attempts_ok (cancel_generations E reason who now fuel g ps)"
  by (induction fuel arbitrary: g ps) (auto simp: lock_successor_def intro!: keeps_intros)

lemma attempts_ok_cancel_children [keeps_intros]:
  "keeps attempts_ok (cancel_children E reason who now fuel ids ps)"
  by (induction ids arbitrary: ps) (auto intro!: keeps_intros)

lemma attempts_ok_cancel_cascade [keeps_intros]:
  "keeps attempts_ok (cancel_cascade E who now chain fuel ps)"
  by (induction E who now chain fuel ps rule: cancel_cascade.induct) (auto intro!: keeps_intros)

lemma attempts_ok_cancel [keeps_intros]:
  "keeps attempts_ok (cancel_owned_descendants E w reason who now)"
  "keeps attempts_ok (cancel_with_conn E i why)"
  "keeps attempts_ok (cancel_workflow E i op)"
  unfolding cancel_owned_descendants_def cancel_with_conn_def cancel_workflow_def cancel_locked_workflow_def Let_def
  by (intro keeps_intros)+

lemma attempts_ok_insert_prepared [keeps_intros]:
  "keeps attempts_ok (insert_prepared_untraced k v ij sj p)"
  "keeps attempts_ok (insert_child c key i n root)"
  unfolding insert_prepared_untraced_def insert_child_def insert_new_child_def by (intro keeps_intros)+

lemma attempts_ok_starts [keeps_intros]:
  "keeps attempts_ok (start k v i st p)"
  "keeps attempts_ok (start_prepared_with_conn q p)"
  "keeps attempts_ok (start_prepared_in q p)"
  unfolding start_def start_prepared_with_conn_def start_prepared_in_def prepare_start_def check_prepared_start_def
  by (intro keeps_intros)+

lemma attempts_ok_recoverable_start [keeps_intros]:
  "keeps attempts_ok (start_or_restart_recoverable E k v i st p)"
  unfolding start_or_restart_recoverable_def recoverable_start_in_def supersede_blocked_def prepare_start_def
    hand_waiting_parents_to_successor_def reattach_parent_def
  by (intro keeps_intros attempts_ok_activity_update) (simp add: changes)

lemma attempts_ok_claim_row [keeps_intros]:
  "keeps attempts_ok (claim_row held config w defs tok)"
  "keeps attempts_ok (record_activation_failure E config claim message)"
  unfolding claim_row_def recover_expired_def lease_ready_def record_activation_failure_def Let_def
  by (intro keeps_intros)+

lemma attempts_ok_insert_command [keeps_intros]:
  "keeps attempts_ok (insert_command_activity E w c n a at key root rep now)"
  unfolding insert_command_activity_def by (intro keeps_intros) (simp add: new_activity_row_def)

lemma attempts_ok_commit [keeps_intros]:
  "keeps attempts_ok (commit_on_connection E config claim event transition)"
  unfolding commit_on_connection_def commit_continue_def commit_complete_def commit_sleep_def commit_approval_def
    commit_activity_def commit_child_def set_child_wait_def is_caller_or_ancestor_def Let_def
  by (intro keeps_intros keeps_transition)

section \<open>Activities\<close>

lemma bind_some [simp]:
  "tx_bind (tx_some e (Some x)) k = k x" "tx_bind (tx_some e None) k = tx_fail e"
  by (auto simp: fun_eq_iff tx_eval)

lemma attempts_ok_settle_revoked [keeps_intros]:
  "keeps attempts_ok (settle_revoked row out message now)"
proof (cases "act_lease_token row")
  case (Some tok)
  show ?thesis
    unfolding settle_revoked_def close_attempt_def Let_def Some bind_some
    by (intro keeps_bind keeps_reads end_lease(2) keeps_intros) (auto simp: changes)
qed (simp add: settle_revoked_def keeps_intros)

lemma attempts_ok_block_workflow [keeps_intros]:
  "keeps attempts_ok (block_workflow row category message now)"
  "keeps attempts_ok (wake_workflow E claim output now)"
  unfolding block_workflow_def wake_workflow_def Let_def by (intro keeps_intros)+

lemma attempts_ok_expire_running [keeps_intros]: "keeps attempts_ok (expire_running E w now row)"
proof (cases "act_lease_token row")
  case (Some tok)
  show ?thesis
    unfolding expire_running_def Let_def Some bind_some
    by (intro keeps_bind keeps_pure end_lease(1) keeps_intros) (auto simp: changes)
qed (simp add: expire_running_def Let_def keeps_intros)

lemma attempts_ok_reconcile [keeps_intros]:
  "keeps attempts_ok (reconcile_candidate E held topic now c)"
  "keeps attempts_ok (reconcile_all E held topic now cs)"
  "keeps attempts_ok (reconcile_expired E held topic now)"
proof -
  show one: "keeps attempts_ok (reconcile_candidate E held topic now c)" for c
    unfolding reconcile_candidate_def settle_expired_def by (intro keeps_intros)
  show all: "keeps attempts_ok (reconcile_all E held topic now cs)" for cs
    by (induction cs) (auto intro!: keeps_intros one)
  show "keeps attempts_ok (reconcile_expired E held topic now)"
    unfolding reconcile_expired_def by (intro keeps_intros all)
qed

lemma attempts_ok_quarantine [keeps_intros]:
  "keeps attempts_ok (quarantine_candidate row reason text now)"
  unfolding quarantine_candidate_def Let_def
  by (intro keeps_intros attempts_ok_activity_update) simp

lemma attempts_ok_lease_activity [keeps_intros]:
  "keeps attempts_ok (lease_activity w tok started now run policy row)"
  unfolding lease_activity_def by (intro keeps_bind keeps_pure take_lease keeps_intros)

lemma attempts_ok_claim_candidate [keeps_intros]: "keeps attempts_ok (claim_locked_candidate V now c)"
  unfolding claim_locked_candidate_def claim_pending_row_def Let_def by (intro keeps_intros)

lemma attempts_ok_claim_loops [keeps_intros]:
  "keeps attempts_ok (claim_first V now cs)"
  "keeps attempts_ok (claim_while V now topic limit wanted claims cs)"
  by (induction cs arbitrary: claims) (auto intro!: keeps_intros)

lemma attempts_ok_claim_topics [keeps_intros]:
  "keeps attempts_ok (claim_topics V now limit capacity claims ts)"
  by (induction ts arbitrary: claims) (auto simp: Let_def intro!: keeps_intros)

lemma attempts_ok_claims [keeps_intros]:
  "keeps attempts_ok (claim_one V T topic)"
  "keeps attempts_ok (claim_batch V T topic_held limit local_capacity)"
  unfolding claim_one_def claim_batch_def by (intro keeps_intros)+

lemma attempts_ok_heartbeat [keeps_intros]: "keeps attempts_ok (heartbeat_once claim started)"
  unfolding heartbeat_once_def
  by (intro keeps_intros attempts_ok_activity_update attempts_ok_attempt_update) simp_all

lemma attempts_ok_finish_parts [keeps_intros]:
  "keeps attempts_ok (dead_letter claim row category message now)"
  "keeps attempts_ok (finish_succeeded E claim output now)"
  "keeps attempts_ok (finish_retryable E claim row category message now)"
proof -
  show dead: "keeps attempts_ok (dead_letter claim row category message now)"
    unfolding dead_letter_def finish_attempt_def
    by (intro end_lease(1) keeps_intros) (auto simp: changes fenced_activity_def)
  show "keeps attempts_ok (finish_succeeded E claim output now)"
    unfolding finish_succeeded_def finish_attempt_def
    by (intro end_lease(1) keeps_intros) (auto simp: changes fenced_activity_def)
  show "keeps attempts_ok (finish_retryable E claim row category message now)"
    unfolding finish_retryable_def finish_attempt_def
    by (intro keeps_if dead keeps_bind keeps_pure end_lease(1) keeps_intros) (auto simp: changes fenced_activity_def)
qed

lemma attempts_ok_finish [keeps_intros]: "keeps attempts_ok (finish_on_connection E claim outcome)"
  unfolding finish_on_connection_def finish_revoked_def by (intro keeps_intros)

section \<open>Timers, operators and schedules\<close>

lemma attempts_ok_temporal [keeps_intros]:
  "keeps attempts_ok (materialize_timer E held now)"
  "keeps attempts_ok (materialize_expiry E s0 now)"
  unfolding materialize_timer_def materialize_expiry_def expire_approval_def append_delivery_event_def clear_wait_def
  by (intro keeps_intros)+

lemma attempts_ok_pause_activity [keeps_intros]: "keeps attempts_ok (pause_activity i op now)"
  unfolding pause_activity_def by (intro keeps_intros attempts_ok_activity_update) simp

lemma attempts_ok_operator [keeps_intros]:
  "keeps attempts_ok (pause_workflow i op)"
  "keeps attempts_ok (resume_workflow i op)"
  "keeps attempts_ok (restart E R i corr op)"
  "keeps attempts_ok (retry E A s0 i corr op)"
  "keeps attempts_ok (resolve_approval E R i json op)"
  unfolding pause_workflow_def resume_workflow_def restart_def finish_restart_def supersede_source_def
    check_prepared_start_def retry_def retry_locked_def resolve_approval_def Let_def
  by (intro keeps_intros)+

locale worked_starter = logged_starter +
  assumes starter_attempts: "keeps attempts_ok (h run at)"

interpretation worked_store: worked_starter "store_starter prepared" for prepared
  by unfold_locales (unfold store_starter_def, intro keeps_intros)

locale worked_handlers = logged_handlers +
  assumes worked: "R key = Some entry \<Longrightarrow> worked_starter (rs_handler entry)"
begin

lemma start_attempts: "keeps attempts_ok (start_occurrence R key run at)"
  unfolding start_occurrence_def
  by (auto intro!: keeps_intros dest: worked worked_starter.starter_attempts split: option.split)

lemma due_attempts: "keeps attempts_ok (materialize_due R key overlap now plan t)"
  by (induction plan arbitrary: t)
    (auto simp: materialize_occurrence_def intro!: keeps_intros start_attempts)

lemma materialize_attempts: "keeps attempts_ok (materialize_locked Z R entry key now)"
  unfolding materialize_locked_def tick_schedule_def finish_tick_def promote_if_idle_def promote_queued_def
    advance_schedule_def lock_schedule_row_def tx_partial_def Let_def
  by (intro keeps_intros due_attempts start_attempts)

lemma run_now_attempts: "keeps attempts_ok (run_schedule_now (Some R) has_context key operator)"
  unfolding run_schedule_now_def require_schedule_registry_def lock_schedule_state_def Let_def
  by (intro keeps_intros start_attempts) (auto simp: tx_simps intro: start_attempts)

end

interpretation worked_stored: worked_handlers "store_registry P" for P
  by (intro worked_handlers.intro worked_handlers_axioms.intro logged_stored.logged_handlers_axioms)
    (auto simp: store_registry_def intro: worked_store.worked_starter_axioms)

lemma attempts_ok_schedule_state [keeps_intros]:
  "keeps attempts_ok (reconcile_state Z R key now)"
  "keeps attempts_ok (set_schedule_paused schedules key paused operator)"
  unfolding reconcile_state_def reconcile_entry_def upgrade_state_def MaterializedFloor_load_def lock_schedule_row_def
    set_schedule_paused_def lock_schedule_state_def tx_partial_def Let_def
  by (intro keeps_intros)+

end
