(* ===== verification/Engine.thy ===== *)
theory Engine
  imports Attempts
begin

text \<open>
  The engine as one transition system. Any number of processes run transactions of the
  store, the coordinator, the activity worker, the timers, the schedules and the operator
  controls against one database; each transaction is atomic, and it either commits or
  leaves the database as it was. Between transactions a process keeps only what it read:
  the claims it holds and the event an activation works on. Every interleaving is a run. Seeding
  the topic locks is one step although it is not a transaction: only its insert writes, so
  that steps of others between its statements are steps before or after it.

  The invariant proved by induction over the runs joins those of the components: the keys
  of the tables, the coupling of leases and waits with the status, and the delivery
  sequence.
\<close>

section \<open>Steps\<close>

record engine =
  eg_db :: db
  eg_claims :: "claimed_row list"
  eg_activations :: "(claimed_row \<times> workflow_event_row) list"
  eg_attempts :: "activity_claim list"

definition effect :: "'a dtx \<Rightarrow> unit dtx" where
  "effect m = tx_bind m (\<lambda>_. tx_return ())"

text \<open>The transactions that need nothing a process remembers.\<close>

inductive engine_tx :: "unit dtx \<Rightarrow> bool" where
  tx_start: "engine_tx (effect (start kind version input state options))"
| tx_start_prepared: "engine_tx (effect (start_prepared_with_conn prepared options))"
| tx_recoverable: "engine_tx (effect (start_or_restart_recoverable E kind version input state options))"
| tx_cancel: "engine_tx (cancel_with_conn E i reason)"
| tx_timer: "engine_tx (effect (materialize_timer E held now))"
| tx_expiry: "engine_tx (effect (materialize_expiry E s0 now))"
| tx_pause: "engine_tx (effect (pause_workflow i operator))"
| tx_resume: "engine_tx (effect (resume_workflow i operator))"
| tx_cancel_operator: "engine_tx (effect (cancel_workflow E i operator))"
| tx_restart: "engine_tx (effect (restart E W i correction operator))"
| tx_retry: "engine_tx (effect (retry E A s0 i correction operator))"
| tx_resolve: "engine_tx (effect (resolve_approval E W i json operator))"
| tx_reconcile: "engine_tx (effect (reconcile_state Z R key now))"
| tx_tick: "worked_handlers R \<Longrightarrow> engine_tx (effect (materialize_locked Z R entry key now))"
| tx_run_now: "worked_handlers R \<Longrightarrow> engine_tx (effect (run_schedule_now (Some R) has_context key operator))"
| tx_schedule_paused: "engine_tx (effect (set_schedule_paused schedules key paused operator))"

inductive engine_step :: "engine \<Rightarrow> engine \<Rightarrow> bool" where
  step_tx: "engine_tx m \<Longrightarrow> engine_step g (g\<lparr>eg_db := tx_commit m (eg_db g)\<rparr>)"
| step_seed: "engine_step g (g\<lparr>eg_db := snd (seed_locks_once T (\<lambda>_ t. t) (eg_db g))\<rparr>)"
| step_claim:
    "\<lbrakk>\<forall>c \<in> set (eg_claims g). cl_lease_token c \<noteq> tok;
      claim_row held config worker definitions tok (eg_db g) = Inr (out, s')\<rbrakk> \<Longrightarrow>
     engine_step g (g\<lparr>eg_db := s',
       eg_claims := (case out of None \<Rightarrow> eg_claims g | Some claim \<Rightarrow> claim # eg_claims g)\<rparr>)"
| step_read:
    "\<lbrakk>claim \<in> set (eg_claims g);
      next_delivery_event (wf_id (cl_row claim)) (wf_delivered_event_sequence (cl_row claim)) (eg_db g) = Some event\<rbrakk> \<Longrightarrow>
     engine_step g (g\<lparr>eg_activations := (claim, event) # eg_activations g\<rparr>)"
| step_commit:
    "(claim, event) \<in> set (eg_activations g) \<Longrightarrow>
     engine_step g (g\<lparr>eg_db := tx_commit (commit_on_connection E config claim event transition) (eg_db g)\<rparr>)"
| step_failure:
    "claim \<in> set (eg_claims g) \<Longrightarrow>
     engine_step g (g\<lparr>eg_db := tx_commit (record_activation_failure E config claim message) (eg_db g)\<rparr>)"
| step_claim_one:
    "claim_one V T topic (eg_db g) = Inr (out, s') \<Longrightarrow>
     engine_step g (g\<lparr>eg_db := s',
       eg_attempts := (case out of None \<Rightarrow> eg_attempts g | Some claim \<Rightarrow> claim # eg_attempts g)\<rparr>)"
| step_claim_batch:
    "claim_batch V T topic_held limit capacity (eg_db g) = Inr (claims, s') \<Longrightarrow>
     engine_step g (g\<lparr>eg_db := s', eg_attempts := claims @ eg_attempts g\<rparr>)"
| step_heartbeat:
    "attempt \<in> set (eg_attempts g) \<Longrightarrow>
     engine_step g (g\<lparr>eg_db := tx_commit (heartbeat_once attempt started) (eg_db g)\<rparr>)"
| step_finish:
    "attempt \<in> set (eg_attempts g) \<Longrightarrow>
     engine_step g (g\<lparr>eg_db := tx_commit (finish_on_connection E attempt outcome) (eg_db g)\<rparr>)"

definition empty_db :: "(nat \<Rightarrow> db_millis) \<Rightarrow> db" where
  "empty_db time =
     \<lparr>workflows = [], events = [], activities = [], attempts = [], approvals = [], schedule_states = [],
      schedule_runs = [], topic_locks = [], progress_events = [], next_workflow_id = 1, next_event_id = 1, next_activity_id = 1,
      next_approval_id = 1, next_schedule_run_id = 1, clock = time, clock_reads = 0\<rparr>"

inductive engine_reachable :: "engine \<Rightarrow> bool" where
  initial: "engine_reachable \<lparr>eg_db = empty_db time, eg_claims = [], eg_activations = [], eg_attempts = []\<rparr>"
| step: "engine_reachable g \<Longrightarrow> engine_step g g' \<Longrightarrow> engine_reachable g'"

section \<open>Evolution\<close>

lemma evolves_effect: "guarantees db_evolves m \<Longrightarrow> guarantees db_evolves (effect m)"
  unfolding effect_def by (intro guar_intros)

lemma keeps_effect: "keeps I m \<Longrightarrow> keeps I (effect m)"
  unfolding effect_def by (intro keeps_intros)

lemma handlers_of_worked:
  "worked_handlers R \<Longrightarrow> logged_handlers R" "worked_handlers R \<Longrightarrow> schedule_handlers R"
  by (simp_all add: worked_handlers_def logged_handlers_def)

lemma engine_tx_ok:
  assumes "engine_tx m"
  shows "guarantees db_evolves m" and "keeps rows_ok m" and "keeps (log_ok C K) m"
    and "keeps attempts_ok m"
  using assms
  by (induction rule: engine_tx.induct)
    (blast intro: evolves_effect guar_intros keeps_effect keeps_intros handlers_of_worked
       schedule_handlers.materialize_evolves schedule_handlers.run_now_evolves
       schedule_handlers.materialize_rows schedule_handlers.run_now_rows
       logged_handlers.materialize_log logged_handlers.run_now_log
       worked_handlers.materialize_attempts worked_handlers.run_now_attempts)+

lemma seed_frame: "\<exists>locks n. snd (seed_locks_once T (\<lambda>_ t. t) s) = s\<lparr>topic_locks := locks, clock_reads := n\<rparr>"
proof (intro exI)
  let ?r = "snd (seed_locks_once T (\<lambda>_ t. t) s)"
  show "?r = s\<lparr>topic_locks := topic_locks ?r, clock_reads := clock_reads ?r\<rparr>"
    by (rule db.equality)
      (simp_all add: seed_locks_once_def insert_topic_locks_if_absent_def Let_def split: sum.split)
qed

lemma seed_ok:
  "db_evolves s (snd (seed_locks_once T (\<lambda>_ t. t) s))"
  "rows_ok (snd (seed_locks_once T (\<lambda>_ t. t) s)) = rows_ok s"
  "log_ok C K (snd (seed_locks_once T (\<lambda>_ t. t) s)) = log_ok C K s"
  "attempts_ok (snd (seed_locks_once T (\<lambda>_ t. t) s)) = attempts_ok s"
proof -
  obtain locks n where "snd (seed_locks_once T (\<lambda>_ t. t) s) = s\<lparr>topic_locks := locks, clock_reads := n\<rparr>"
    using seed_frame by blast
  then show "db_evolves s (snd (seed_locks_once T (\<lambda>_ t. t) s))" "rows_ok (snd (seed_locks_once T (\<lambda>_ t. t) s)) = rows_ok s"
    "log_ok C K (snd (seed_locks_once T (\<lambda>_ t. t) s)) = log_ok C K s"
    "attempts_ok (snd (seed_locks_once T (\<lambda>_ t. t) s)) = attempts_ok s"
    by (simp_all add: db_evolves_def evolve_refls keys_ok_def rows_ok_def all_workflows_def all_activities_def
        log_ok_def gapless_def deliveries_def attempts_ok_def)
qed

text \<open>What one transaction did, whether it committed or not.\<close>

lemma step_evolves: "engine_step g g' \<Longrightarrow> db_evolves (eg_db g) (eg_db g')"
proof (induction rule: engine_step.induct)
  case (step_claim g tok held config worker definitions out s')
  with guaranteesD [OF evolves_claim_row] show ?case by simp
next
  case (step_claim_one V T topic g out s')
  with guaranteesD [OF evolves_claim_one] show ?case by simp
next
  case (step_claim_batch V T topic_held limit capacity g claims s')
  with guaranteesD [OF evolves_claim_batch] show ?case by simp
qed (simp_all add: evolution.refl seed_ok evolution.commit engine_tx_ok(1) guar_intros)

section \<open>The invariant\<close>

definition activation_ok :: "engine \<Rightarrow> claimed_row \<times> workflow_event_row \<Rightarrow> bool" where
  "activation_ok g activation =
     (case activation of (claim, event) \<Rightarrow>
        claim \<in> set (eg_claims g) \<and> event \<in> set (events (eg_db g)) \<and>
        ev_workflow_id event = wf_id (cl_row claim) \<and>
        sql_gt (ev_delivery_sequence event) (wf_delivered_event_sequence (cl_row claim)))"

definition engine_ok :: "engine \<Rightarrow> bool" where
  "engine_ok g \<longleftrightarrow>
     keys_ok (eg_db g) \<and> rows_ok (eg_db g) \<and> attempts_ok (eg_db g) \<and> log_ok (lease_of ` set (eg_claims g)) {} (eg_db g) \<and>
     (\<forall>a \<in> set (eg_activations g). activation_ok g a)"

text \<open>A property of the database that every transaction keeps holds along every run.\<close>

locale transaction_invariant =
  fixes I :: "db \<Rightarrow> bool"
  assumes tx: "engine_tx m \<Longrightarrow> keeps I m"
    and seed: "I (snd (seed_locks_once T (\<lambda>_ t. t) s)) = I s"
    and claim: "keeps I (claim_row held config worker definitions tok)"
    and commit: "keeps I (commit_on_connection E config c event transition)"
    and failure: "keeps I (record_activation_failure E config c message)"
    and claim_one: "keeps I (claim_one V T topic)"
    and claim_batch: "keeps I (claim_batch V T topic_held limit capacity)"
    and heartbeat: "keeps I (heartbeat_once attempt started)"
    and finish: "keeps I (finish_on_connection E attempt outcome)"
begin

lemma step: "engine_step g g' \<Longrightarrow> I (eg_db g) \<Longrightarrow> I (eg_db g')"
  by (induction rule: engine_step.induct)
    (auto simp: seed intro: keeps_commit tx commit failure heartbeat finish
       dest: keepsD [OF claim] keepsD [OF claim_one] keepsD [OF claim_batch])

end

interpretation rows: transaction_invariant rows_ok
  by unfold_locales (auto simp: seed_ok intro: engine_tx_ok(2) keeps_intros)

interpretation coupling: transaction_invariant attempts_ok
  by unfold_locales (auto simp: seed_ok intro: engine_tx_ok(4) keeps_intros)

lemma next_delivery_event_mem:
  assumes "next_delivery_event i n s = Some e"
  shows "e \<in> set (events s) \<and> ev_workflow_id e = i \<and> sql_gt (ev_delivery_sequence e) n"
  using assms unfolding next_delivery_event_def by (auto split: list.splits dest: sorted_head(1))

lemma step_activations:
  assumes "engine_step g g'" and "\<forall>a \<in> set (eg_activations g). activation_ok g a"
  shows "\<forall>a \<in> set (eg_activations g'). activation_ok g' a"
proof -
  have "set (events (eg_db g)) \<subseteq> set (events (eg_db g'))"
    using step_evolves [OF assms(1)] by (auto simp: db_evolves_def dest: rows_evolve_mem)
  with assms show ?thesis
    by (induction rule: engine_step.induct)
      (fastforce simp: activation_ok_def dest: next_delivery_event_mem split: option.splits)+
qed

lemma commit_log:
  assumes "engine_ok g" and "(claim, event) \<in> set (eg_activations g)"
    and "commit_on_connection E config claim event transition (eg_db g) = Inr (u, s')"
  shows "log_ok (lease_of ` set (eg_claims g))
      {(wf_id (cl_row claim), wf_delivered_event_sequence (cl_row claim) + 1)} s'"
    and "ev_delivery_sequence event = Some (wf_delivered_event_sequence (cl_row claim) + 1)"
proof -
  from assms(1,2) have a: "activation_ok g (claim, event)"
    and ok: "log_ok (lease_of ` set (eg_claims g)) {} (eg_db g)"
    by (auto simp: engine_ok_def)
  from a have a': "lease_of claim \<in> lease_of ` set (eg_claims g)" "event \<in> set (events (eg_db g))"
    "ev_workflow_id event = wf_id (cl_row claim)"
    "sql_gt (ev_delivery_sequence event) (wf_delivered_event_sequence (cl_row claim))"
    by (auto simp: activation_ok_def)
  show "log_ok (lease_of ` set (eg_claims g))
      {(wf_id (cl_row claim), wf_delivered_event_sequence (cl_row claim) + 1)} s'"
    and "ev_delivery_sequence event = Some (wf_delivered_event_sequence (cl_row claim) + 1)"
    using log_ok_commit [OF ok a' assms(3)] .
qed

lemma step_log:
  assumes "engine_step g g'" and "engine_ok g"
  shows "log_ok (lease_of ` set (eg_claims g')) {} (eg_db g')"
  using assms
proof (induction rule: engine_step.induct)
  case (step_claim g tok held config worker definitions out s')
  from step_claim(3) have ok: "log_ok (lease_of ` set (eg_claims g)) {} (eg_db g)" by (simp add: engine_ok_def)
  have "\<forall>(i, t, n) \<in> lease_of ` set (eg_claims g). t \<noteq> tok" using step_claim(1) by auto
  from log_ok_claim_row [OF ok this step_claim(2)] show ?case by (cases out) simp_all
next
  case (step_claim_one V T topic g out s')
  with keepsD [OF log_ok_claims(1)] show ?case by (auto simp: engine_ok_def)
next
  case (step_claim_batch V T topic_held limit capacity g claims s')
  with keepsD [OF log_ok_claims(2)] show ?case by (auto simp: engine_ok_def)
next
  case (step_commit claim event g E config transition)
  show ?case
  proof (cases "commit_on_connection E config claim event transition (eg_db g)")
    case (Inr x)
    then obtain u s' where x: "commit_on_connection E config claim event transition (eg_db g) = Inr (u, s')"
      by (cases x) simp
    with log_ok_mono [OF commit_log(1) [OF step_commit(2,1) x]] show ?thesis by (simp add: tx_commit_Inr)
  qed (use step_commit in \<open>simp add: tx_commit_Inl engine_ok_def\<close>)
qed (auto simp: engine_ok_def seed_ok intro!: keeps_commit engine_tx_ok(3) keeps_intros)

lemma step_ok: "engine_step g g' \<Longrightarrow> engine_ok g \<Longrightarrow> engine_ok g'"
  using step_evolves rows.step coupling.step step_log step_activations
  unfolding engine_ok_def db_evolves_def by meson

lemma initial_ok:
  "engine_ok \<lparr>eg_db = empty_db time, eg_claims = [], eg_activations = [], eg_attempts = []\<rparr>"
  by (simp add: engine_ok_def empty_db_def keys_defs rows_ok_def all_workflows_def all_activities_def log_ok_def
      attempts_ok_def)

lemma reachable_ok: "engine_reachable g \<Longrightarrow> engine_ok g"
  by (induction rule: engine_reachable.induct) (auto intro: initial_ok step_ok)

lemma steps_evolve: "engine_step\<^sup>*\<^sup>* g g' \<Longrightarrow> db_evolves (eg_db g) (eg_db g')"
  by (induction rule: rtranclp_induct) (auto intro: evolution.refl evolution.trans step_evolves)

lemma reachable_steps: "engine_step\<^sup>*\<^sup>* g g' \<Longrightarrow> engine_reachable g \<Longrightarrow> engine_reachable g'"
  by (induction rule: rtranclp_induct) (auto intro: engine_reachable.step)

text \<open>The lease of an activity is the one attempt of it that has not finished.\<close>

lemma open_attempt_unique:
  assumes "attempts_ok s" and "attempt_keys_ok (attempts s)" and "a \<in> set (activities s)"
  shows "holds_lease (act_status a) \<longleftrightarrow>
    (\<exists>!t. t \<in> set (attempts s) \<and> att_activity_id t = act_id a \<and> att_finished_at t = None)"
proof
  assume h: "holds_lease (act_status a)"
  from attempts_ok_holder [OF assms(1,3) h] obtain t where t: "t \<in> set (attempts s)" "open_attempt a t" by blast
  have one: "q = t" if q: "q \<in> set (attempts s)" "att_activity_id q = act_id a" "att_finished_at q = None" for q
  proof -
    from attempts_ok_open [OF assms(1) q(1,3)] obtain b where b: "b \<in> set (activities s)" "open_attempt b q" by blast
    with q(2) unique_activity [OF assms(1) b(1) assms(3)] have "open_attempt a q" by (auto simp: open_attempt_def)
    with t(2) have same: "(att_activity_id q, att_attempt_number q) = (att_activity_id t, att_attempt_number t)"
      by (simp add: open_attempt_def)
    have "inj_on (\<lambda>x. (att_activity_id x, att_attempt_number x)) (set (attempts s))"
      using assms(2) by (simp add: attempt_keys_ok_def distinct_map)
    from inj_onD [OF this same q(1) t(1)] show ?thesis .
  qed
  show "\<exists>!t. t \<in> set (attempts s) \<and> att_activity_id t = act_id a \<and> att_finished_at t = None"
  proof (rule ex1I)
    show "t \<in> set (attempts s) \<and> att_activity_id t = act_id a \<and> att_finished_at t = None"
      using t by (simp add: open_attempt_def)
  qed (use one in blast)
next
  assume "\<exists>!t. t \<in> set (attempts s) \<and> att_activity_id t = act_id a \<and> att_finished_at t = None"
  then obtain t where t: "t \<in> set (attempts s)" "att_activity_id t = act_id a" "att_finished_at t = None" by blast
  from attempts_ok_open [OF assms(1) t(1,3)] obtain b where "b \<in> set (activities s)" "holds_lease (act_status b)"
    "open_attempt b t" by blast
  with t(2) unique_activity [OF assms(1) _ assms(3)] show "holds_lease (act_status a)" by (auto simp: open_attempt_def)
qed

section \<open>A run\<close>

text \<open>A workflow is started, claimed, its first event is read and the activation completes it.\<close>

definition run_start :: "unit dtx" where
  "run_start = effect (start ''order'' 1 (Some ''{}'') (Some ''{}'') StartOptions_default)"

definition run_started :: db where
  "run_started = tx_commit run_start (empty_db (\<lambda>n. 100 + int n))"

definition run_claim :: "(claimed_row option) dtx" where
  "run_claim = claim_row (\<lambda>_. False) CoordinatorConfig_default ''w'' [(''order'', 1)] ''tok''"

definition run_claimed :: "claimed_row" where
  "run_claimed = the (fst (projr (run_claim run_started)))"

definition run_event :: workflow_event_row where
  "run_event = the (next_delivery_event (wf_id (cl_row run_claimed)) (wf_delivered_event_sequence (cl_row run_claimed))
     (snd (projr (run_claim run_started))))"

definition run_engine :: engine where
  "run_engine = \<lparr>eg_db = snd (projr (run_claim run_started)), eg_claims = [run_claimed],
     eg_activations = [(run_claimed, run_event)], eg_attempts = []\<rparr>"

definition run_commit :: "unit dtx" where
  "run_commit = commit_on_connection sample_externals CoordinatorConfig_default run_claimed run_event (Complete ''{}'')"

definition run_done :: engine where
  "run_done = run_engine\<lparr>eg_db := tx_commit run_commit (eg_db run_engine)\<rparr>"

lemma run_engine_reachable: "engine_reachable run_engine"
proof -
  let ?g = "\<lparr>eg_db = empty_db (\<lambda>n. 100 + int n), eg_claims = [], eg_activations = [], eg_attempts = []\<rparr>"
  let ?s = "snd (projr (run_claim run_started))"
  have "engine_reachable (?g\<lparr>eg_db := run_started\<rparr>)"
    using engine_reachable.step [OF engine_reachable.initial engine_step.step_tx [OF engine_tx.tx_start]]
    by (simp add: run_started_def run_start_def)
  moreover have "fst (projr (run_claim run_started)) \<noteq> None" "\<not> isl (run_claim run_started)" by code_simp+
  then have "run_claim run_started = Inr (Some run_claimed, ?s)"
    using returned [of "run_claim run_started"] by (auto simp: run_claimed_def)
  ultimately have "engine_reachable (?g\<lparr>eg_db := ?s, eg_claims := [run_claimed]\<rparr>)"
    using engine_step.step_claim [of "?g\<lparr>eg_db := run_started\<rparr>" "''tok''"]
    by (fastforce simp: run_claim_def intro: engine_reachable.step)
  moreover have "next_delivery_event (wf_id (cl_row run_claimed)) (wf_delivered_event_sequence (cl_row run_claimed)) ?s
      \<noteq> None" by code_simp
  then have "next_delivery_event (wf_id (cl_row run_claimed)) (wf_delivered_event_sequence (cl_row run_claimed)) ?s =
      Some run_event" by (auto simp: run_event_def)
  ultimately show ?thesis
    using engine_step.step_read [of run_claimed "?g\<lparr>eg_db := ?s, eg_claims := [run_claimed]\<rparr>" run_event]
    by (auto simp: run_engine_def intro: engine_reachable.step)
qed

lemma run_engine_step: "engine_step run_engine run_done"
  using engine_step.step_commit [of run_claimed run_event run_engine sample_externals]
  by (simp add: run_done_def run_commit_def run_engine_def)

end
