(* ===== verification/Attempt_Execution.thy ===== *)
theory Attempt_Execution
  imports Topic_Slots
begin

text \<open>
  The execution of one claimed attempt (\<open>execute_claim\<close> and \<open>heartbeat_loop\<close> of
  \<open>src/runtime/activity_worker.rs\<close>): the handler runs beside its heartbeats, its timeout and the
  two ways of shutting down. Each turn of a \<open>select\<close> is a function of what is ready when
  it is polled, with the branches tried in the order of the source (\<open>biased\<close>); a loop is a
  fold over the polls. The clock readings, the results of the handler and of the
  renewals are part of a poll.
\<close>

section \<open>Heartbeats\<close>

datatype heartbeat_end = HB_Stopped | HB_Revoked instant

text \<open>A renewal that the local deadline overtakes is dropped.\<close>

datatype renewal = Renewal_Dropped | Renewal_Done "durable_error + renewed"

record beat =
  bt_now :: instant
  bt_stop :: bool
  bt_tick :: bool
  bt_renewal :: renewal

datatype heartbeating = Beating instant | Beat_End "heartbeat_failure + heartbeat_end"

definition renew :: "instant \<Rightarrow> renewal \<Rightarrow> heartbeating" where
  "renew lease_deadline r =
     (case (case r of Renewal_Dropped \<Rightarrow> Inl FencedWrite | Renewal_Done result \<Rightarrow> result) of
        Inr (Held deadline) \<Rightarrow> Beating deadline
      | Inr (Revoked deadline) \<Rightarrow> Beat_End (Inr (HB_Revoked deadline))
      | Inl error \<Rightarrow> Beat_End (Inl (from_renewal_error error lease_deadline)))"

fun heartbeat_loop :: "beat list \<Rightarrow> instant \<Rightarrow> heartbeating" where
  "heartbeat_loop [] lease_deadline = Beating lease_deadline"
| "heartbeat_loop (b # bs) lease_deadline =
     (if bt_stop b then Beat_End (Inr HB_Stopped)
      else if bt_now b \<ge> lease_deadline then Beat_End (Inl (LeaseLost lease_deadline))
      else if bt_tick b
      then (case renew lease_deadline (bt_renewal b) of
              Beating deadline \<Rightarrow> heartbeat_loop bs deadline
            | Beat_End e \<Rightarrow> Beat_End e)
      else heartbeat_loop bs lease_deadline)"

section \<open>The execution\<close>

record attempt_execution =
  ae_shutdown_requested :: bool
  ae_forced_shutdown_requested :: bool
  ae_heartbeat_stopped :: bool
  ae_execution_finished :: bool
  ae_timeout_cleanup_pending :: bool
  ae_requested_outcome :: "execution_outcome option"
  ae_child_cancelled :: bool
  ae_heartbeat_stop :: bool
  ae_shutdown_deadline :: instant

text \<open>How the wait for a handler that must stop ends.\<close>

datatype cleanup = Cleanup_Forced | Cleanup_Elapsed | Cleanup_Returned

text \<open>
  What a poll finds: the two cancellation tokens, the two timers, the heartbeat loop and the
  handler; the clock where the turn reads it, and how a cleanup it starts ends.
\<close>

record poll =
  po_forced :: bool
  po_cancelled :: bool
  po_grace_elapsed :: bool
  po_timeout_elapsed :: bool
  po_heartbeat :: "(heartbeat_failure + heartbeat_end) option"
  po_handler :: "(activity_dispatch_error + string) option"
  po_now :: instant
  po_cleanup_now :: instant
  po_cleanup :: cleanup

datatype branch =
  On_Forced
| On_Cancelled
| On_Grace
| On_Timeout
| On_Heartbeat "heartbeat_failure + heartbeat_end"
| On_Handler "activity_dispatch_error + string"

definition select_branch :: "poll \<Rightarrow> attempt_execution \<Rightarrow> branch option" where
  "select_branch p x =
     (if po_forced p \<and> \<not> ae_forced_shutdown_requested x then Some On_Forced
      else if po_cancelled p \<and> \<not> ae_shutdown_requested x then Some On_Cancelled
      else if po_grace_elapsed p \<and>
              (ae_shutdown_requested x \<and> ae_requested_outcome x = None \<or> ae_timeout_cleanup_pending x)
      then Some On_Grace
      else if po_timeout_elapsed p \<and> ae_requested_outcome x = None then Some On_Timeout
      else if po_heartbeat p \<noteq> None \<and> \<not> ae_heartbeat_stopped x then map_option On_Heartbeat (po_heartbeat p)
      else if po_handler p \<noteq> None \<and> \<not> ae_execution_finished x then map_option On_Handler (po_handler p)
      else None)"

definition grace_error :: execution_outcome where
  "grace_error = Outcome_Retryable (ActivityError_retryable ''cancelled'' ''activity worker shutdown grace elapsed'')"

definition timeout_error :: execution_outcome where
  "timeout_error =
     Outcome_Retryable (ActivityError_retryable ''timeout'' ''activity execution exceeded its configured timeout'')"

definition on_grace :: "attempt_execution \<Rightarrow> attempt_execution" where
  "on_grace x =
     x\<lparr>ae_heartbeat_stop := True, ae_timeout_cleanup_pending := False,
       ae_requested_outcome := (case ae_requested_outcome x of None \<Rightarrow> Some grace_error | Some o' \<Rightarrow> Some o')\<rparr>"

definition on_timeout :: "nanos \<Rightarrow> poll \<Rightarrow> attempt_execution \<Rightarrow> attempt_execution" where
  "on_timeout grace p x =
     (let x1 = (if ae_shutdown_requested x then x
                else x\<lparr>ae_shutdown_deadline := po_now p + grace, ae_shutdown_requested := True\<rparr>)
      in x1\<lparr>ae_child_cancelled := True, ae_timeout_cleanup_pending := True,
            ae_requested_outcome := Some timeout_error\<rparr>)"

text \<open>Cleanup of a handler cannot outlive the grace of a shutdown or the last confirmed lease.\<close>

definition cleanup_waits :: "nanos \<Rightarrow> poll \<Rightarrow> instant \<Rightarrow> attempt_execution \<Rightarrow> bool" where
  "cleanup_waits grace p lease_deadline x \<longleftrightarrow>
     \<not> ae_execution_finished x \<and>
     min (if ae_shutdown_requested x then ae_shutdown_deadline x else po_now p + grace) lease_deadline > po_cleanup_now p"

definition on_revoked :: "nanos \<Rightarrow> poll \<Rightarrow> instant \<Rightarrow> attempt_execution \<Rightarrow> attempt_execution" where
  "on_revoked grace p lease_deadline x =
     (let x1 = x\<lparr>ae_child_cancelled := True, ae_heartbeat_stopped := True, ae_timeout_cleanup_pending := False\<rparr>;
          x2 = (if cleanup_waits grace p lease_deadline x1
                then (case po_cleanup p of
                        Cleanup_Forced \<Rightarrow> x1\<lparr>ae_forced_shutdown_requested := True\<rparr>
                      | Cleanup_Elapsed \<Rightarrow> x1
                      | Cleanup_Returned \<Rightarrow> x1\<lparr>ae_execution_finished := True\<rparr>)
                else x1)
      in x2\<lparr>ae_requested_outcome := Some Outcome_Revoked\<rparr>)"

datatype execution_turn = Continue attempt_execution | Return "durable_error + unit" | Break execution_outcome

definition on_heartbeat ::
    "nanos \<Rightarrow> poll \<Rightarrow> heartbeat_failure + heartbeat_end \<Rightarrow> attempt_execution \<Rightarrow> execution_turn" where
  "on_heartbeat grace p result x =
     (case result of
        Inr (HB_Revoked lease_deadline) \<Rightarrow> Continue (on_revoked grace p lease_deadline x)
      | Inr HB_Stopped \<Rightarrow> Continue (x\<lparr>ae_heartbeat_stopped := True\<rparr>)
      | Inl failure \<Rightarrow>
          (case failure of
             LeaseLost _ \<Rightarrow> Return (Inl (into_error failure))
           | Unconfirmed _ lease_deadline \<Rightarrow>
               if ae_execution_finished x \<and> po_now p < lease_deadline
               then Continue (x\<lparr>ae_heartbeat_stopped := True\<rparr>)
               else Return (Inl (into_error failure))))"

definition on_handler ::
    "(activity_dispatch_error \<Rightarrow> string) \<Rightarrow> activity_dispatch_error + string \<Rightarrow> attempt_execution \<Rightarrow> attempt_execution" where
  "on_handler display result x =
     x\<lparr>ae_execution_finished := True, ae_heartbeat_stop := True, ae_timeout_cleanup_pending := False,
       ae_requested_outcome :=
         (if ae_requested_outcome x = None \<and> \<not> ae_forced_shutdown_requested x
          then Some (dispatch_outcome display result) else ae_requested_outcome x)\<rparr>"

definition take_branch ::
    "(activity_dispatch_error \<Rightarrow> string) \<Rightarrow> nanos \<Rightarrow> poll \<Rightarrow> branch \<Rightarrow> attempt_execution \<Rightarrow> execution_turn" where
  "take_branch display grace p b x =
     (case b of
        On_Forced \<Rightarrow> Continue (x\<lparr>ae_child_cancelled := True, ae_heartbeat_stop := True, ae_forced_shutdown_requested := True\<rparr>)
      | On_Cancelled \<Rightarrow> Continue (x\<lparr>ae_child_cancelled := True, ae_shutdown_deadline := po_now p + grace,
                               ae_shutdown_requested := True\<rparr>)
      | On_Grace \<Rightarrow> Continue (on_grace x)
      | On_Timeout \<Rightarrow> Continue (on_timeout grace p x)
      | On_Heartbeat result \<Rightarrow> on_heartbeat grace p result x
      | On_Handler result \<Rightarrow> Continue (on_handler display result x))"

text \<open>The head of the loop: with the heartbeat stopped, a forced shutdown returns and an outcome ends it.\<close>

definition loop_head :: "attempt_execution \<Rightarrow> execution_turn" where
  "loop_head x =
     (if ae_heartbeat_stopped x \<and> ae_forced_shutdown_requested x then Return (Inr ())
      else if ae_heartbeat_stopped x \<and> \<not> ae_timeout_cleanup_pending x
      then (case ae_requested_outcome x of Some outcome \<Rightarrow> Break outcome | None \<Rightarrow> Continue x)
      else Continue x)"

fun execution_loop ::
    "(activity_dispatch_error \<Rightarrow> string) \<Rightarrow> nanos \<Rightarrow> poll list \<Rightarrow> attempt_execution \<Rightarrow> execution_turn" where
  "execution_loop display grace ps x =
     (case loop_head x of
        Continue _ \<Rightarrow>
          (case ps of
             [] \<Rightarrow> Continue x
           | p # rest \<Rightarrow>
               (case select_branch p x of
                  None \<Rightarrow> execution_loop display grace rest x
                | Some b \<Rightarrow>
                    (case take_branch display grace p b x of
                       Continue x' \<Rightarrow> execution_loop display grace rest x'
                     | turn \<Rightarrow> turn)))
      | turn \<Rightarrow> turn)"

declare execution_loop.simps [simp del]

definition heartbeat_every :: "worker_config \<Rightarrow> duration \<Rightarrow> nanos" where
  "heartbeat_every config lease = min (heartbeat_interval config) (max (10 ^ 6 * lease div 3) (10 ^ 6))"

definition execution_start :: "worker_config \<Rightarrow> instant \<Rightarrow> attempt_execution" where
  "execution_start config now =
     \<lparr>ae_shutdown_requested = False, ae_forced_shutdown_requested = False, ae_heartbeat_stopped = False,
      ae_execution_finished = False, ae_timeout_cleanup_pending = False, ae_requested_outcome = None,
      ae_child_cancelled = False, ae_heartbeat_stop = False, ae_shutdown_deadline = now + shutdown_grace config\<rparr>"

text \<open>
  \<open>now\<close> is the instant the execution starts at, \<open>others\<close> what other transactions do to the
  database until it finishes its claim. The result is \<open>None\<close> while the loop still waits.
\<close>

definition execute_claim ::
    "externals \<Rightarrow> (activity_dispatch_error \<Rightarrow> string) \<Rightarrow> worker_config \<Rightarrow> activity_claim \<Rightarrow> instant \<Rightarrow> poll list \<Rightarrow>
     (db \<Rightarrow> db) \<Rightarrow> db \<Rightarrow> (durable_error fault + unit) option \<times> db" where
  "execute_claim E display config claim now polls others s =
     (if clm_lease_deadline claim \<le> now then (Some (Inl (Err FencedWrite)), s)
      else
     (case duration_from_millis (act_lease_duration_millis (clm_row claim)) of
        Inl e \<Rightarrow> (Some (Inl (Err e)), s)
      | Inr lease \<Rightarrow>
     (case claim_attempt_number claim of
        Inl e \<Rightarrow> (Some (Inl (Err e)), s)
      | Inr attempt \<Rightarrow>
     (case duration_from_millis (act_timeout_millis (clm_row claim)) of
        Inl e \<Rightarrow> (Some (Inl (Err e)), s)
      | Inr timeout \<Rightarrow>
     (case execution_loop display (shutdown_grace config) polls (execution_start config now) of
        Continue _ \<Rightarrow> (None, others s)
      | Return (Inl e) \<Rightarrow> (Some (Inl (Err e)), others s)
      | Return (Inr _) \<Rightarrow> (Some (Inr ()), others s)
      | Break outcome \<Rightarrow> (case finish_claim E claim outcome (others s) of (r, s') \<Rightarrow> (Some r, s')))))))"

text \<open>One claim of a topic and its execution.\<close>

definition run_one ::
    "claim_env \<Rightarrow> topic_registry \<Rightarrow> string \<Rightarrow> (activity_dispatch_error \<Rightarrow> string) \<Rightarrow> worker_config \<Rightarrow> instant \<Rightarrow> poll list \<Rightarrow>
     (db \<Rightarrow> db) \<Rightarrow> db \<Rightarrow> (durable_error fault + i64 option) option \<times> db" where
  "run_one V T topic display config now polls others s =
     (case claim_one V T topic s of
        Inl e \<Rightarrow> (Some (Inl e), s)
      | Inr (None, s1) \<Rightarrow> (Some (Inr None), s1)
      | Inr (Some claim, s1) \<Rightarrow>
          (case execute_claim (ce_externals V) display config claim now polls others s1 of
             (None, s2) \<Rightarrow> (None, s2)
           | (Some (Inl e), s2) \<Rightarrow> (Some (Inl e), s2)
           | (Some (Inr _), s2) \<Rightarrow> (Some (Inr (Some (act_id (clm_row claim)))), s2)))"

lemma heartbeat_within_lease: "3 * heartbeat_every config lease \<le> max (10 ^ 6 * lease) (3 * 10 ^ 6)"
  by (simp add: heartbeat_every_def)

section \<open>Every execution ends\<close>

text \<open>The branches an execution takes, in order.\<close>

fun taken ::
    "(activity_dispatch_error \<Rightarrow> string) \<Rightarrow> nanos \<Rightarrow> poll list \<Rightarrow> attempt_execution \<Rightarrow> branch list" where
  "taken display grace ps x =
     (case loop_head x of
        Continue _ \<Rightarrow>
          (case ps of
             [] \<Rightarrow> []
           | p # rest \<Rightarrow>
               (case select_branch p x of
                  None \<Rightarrow> taken display grace rest x
                | Some b \<Rightarrow>
                    b # (case take_branch display grace p b x of
                           Continue x' \<Rightarrow> taken display grace rest x'
                         | _ \<Rightarrow> [])))
      | _ \<Rightarrow> [])"

declare taken.simps [simp del]

lemma execution_induct [case_names ended empty idle again leave]:
  assumes "\<And>x ps. (\<And>y. loop_head x \<noteq> Continue y) \<Longrightarrow> P ps x (loop_head x) []"
    and "\<And>x. loop_head x = Continue x \<Longrightarrow> P [] x (Continue x) []"
    and "\<And>x p ps r bs. loop_head x = Continue x \<Longrightarrow> select_branch p x = None \<Longrightarrow> P ps x r bs \<Longrightarrow> P (p # ps) x r bs"
    and "\<And>x p ps b x' r bs. loop_head x = Continue x \<Longrightarrow> select_branch p x = Some b \<Longrightarrow>
      take_branch display grace p b x = Continue x' \<Longrightarrow> P ps x' r bs \<Longrightarrow> P (p # ps) x r (b # bs)"
    and "\<And>x p ps b r. loop_head x = Continue x \<Longrightarrow> select_branch p x = Some b \<Longrightarrow>
      take_branch display grace p b x = r \<Longrightarrow> (\<And>y. r \<noteq> Continue y) \<Longrightarrow> P (p # ps) x r [b]"
  shows "P ps x (execution_loop display grace ps x) (taken display grace ps x)"
proof (induction ps arbitrary: x)
  case Nil
  show ?case
  proof (cases "loop_head x")
    case (Continue y)
    then have "loop_head x = Continue x" by (simp add: loop_head_def split: if_splits option.splits)
    with assms(2) show ?thesis by (simp add: execution_loop.simps taken.simps)
  qed (use assms(1) [of x "[]"] in \<open>simp_all add: execution_loop.simps taken.simps\<close>)
next
  case (Cons p ps)
  show ?case
  proof (cases "loop_head x")
    case (Continue y)
    then have head: "loop_head x = Continue x" by (simp add: loop_head_def split: if_splits option.splits)
    show ?thesis
    proof (cases "select_branch p x")
      case None
      with head assms(3) [OF head None Cons.IH] show ?thesis by (simp add: execution_loop.simps [of _ _ "p # ps"] taken.simps [of _ _ "p # ps"])
    next
      case (Some b)
      show ?thesis
      proof (cases "take_branch display grace p b x")
        case (Continue x')
        with head Some assms(4) [OF head Some Continue Cons.IH] show ?thesis
          by (simp add: execution_loop.simps [of _ _ "p # ps"] taken.simps [of _ _ "p # ps"])
      qed (use head Some assms(5) [OF head Some] in
          \<open>simp_all add: execution_loop.simps [of _ _ "p # ps"] taken.simps [of _ _ "p # ps"]\<close>)
    qed
  qed (use assms(1) [of x "p # ps"] in \<open>simp_all add: execution_loop.simps taken.simps\<close>)
qed

lemma select_guard:
  "select_branch p x = Some On_Forced \<Longrightarrow> \<not> ae_forced_shutdown_requested x"
  "select_branch p x = Some On_Cancelled \<Longrightarrow> \<not> ae_shutdown_requested x"
  "select_branch p x = Some On_Grace \<Longrightarrow>
     ae_shutdown_requested x \<and> ae_requested_outcome x = None \<or> ae_timeout_cleanup_pending x"
  "select_branch p x = Some On_Timeout \<Longrightarrow> ae_requested_outcome x = None"
  "select_branch p x = Some (On_Heartbeat hb) \<Longrightarrow> \<not> ae_heartbeat_stopped x"
  "select_branch p x = Some (On_Handler result) \<Longrightarrow> \<not> ae_execution_finished x"
  by (auto simp: select_branch_def split: if_splits)

lemma on_revoked_fields [simp]:
  "ae_heartbeat_stopped (on_revoked grace p d x)" "\<not> ae_timeout_cleanup_pending (on_revoked grace p d x)"
  "ae_requested_outcome (on_revoked grace p d x) = Some Outcome_Revoked"
  "ae_shutdown_requested (on_revoked grace p d x) = ae_shutdown_requested x"
  "ae_forced_shutdown_requested x \<Longrightarrow> ae_forced_shutdown_requested (on_revoked grace p d x)"
  "ae_execution_finished x \<Longrightarrow> ae_execution_finished (on_revoked grace p d x)"
  by (simp_all add: on_revoked_def Let_def split: cleanup.split)

lemma on_timeout_fields [simp]:
  "ae_heartbeat_stopped (on_timeout grace p x) = ae_heartbeat_stopped x" "ae_timeout_cleanup_pending (on_timeout grace p x)"
  "ae_requested_outcome (on_timeout grace p x) = Some timeout_error" "ae_shutdown_requested (on_timeout grace p x)"
  "ae_forced_shutdown_requested (on_timeout grace p x) = ae_forced_shutdown_requested x"
  "ae_execution_finished (on_timeout grace p x) = ae_execution_finished x"
  by (simp_all add: on_timeout_def Let_def)

text \<open>A heartbeat that ends leaves the loop, was found revoked, or is only noted as stopped.\<close>

lemma on_heartbeat_cases:
  assumes "on_heartbeat grace p hb x = Continue x'"
  obtains (revoked) d where "hb = Inr (HB_Revoked d)" and "x' = on_revoked grace p d x"
  | (stopped) "x' = x\<lparr>ae_heartbeat_stopped := True\<rparr>"
      and "hb = Inr HB_Stopped \<or> (\<exists>e d. hb = Inl (Unconfirmed e d)) \<and> ae_execution_finished x"
  using assms by (auto simp: on_heartbeat_def split: sum.splits heartbeat_end.splits heartbeat_failure.splits if_splits)

text \<open>What an execution still has to go through.\<close>

definition open_step :: "bool \<Rightarrow> nat" where
  "open_step b = (if b then 1 else 0)"

lemma open_step_simps [simp]: "open_step True = 1" "open_step False = 0"
  by (simp_all add: open_step_def)

definition turns_left :: "attempt_execution \<Rightarrow> nat" where
  "turns_left x =
     open_step (\<not> ae_forced_shutdown_requested x) + open_step (\<not> ae_shutdown_requested x) +
     open_step (\<not> ae_heartbeat_stopped x) + open_step (\<not> ae_execution_finished x) +
     2 * open_step (ae_requested_outcome x = None) + open_step (ae_timeout_cleanup_pending x)"

lemma turn_counts:
  assumes "select_branch p x = Some b" and "take_branch display grace p b x = Continue x'"
  shows "turns_left x' < turns_left x"
proof (cases b)
  case (On_Heartbeat hb)
  note guard = select_guard(5) [OF assms(1) [unfolded On_Heartbeat]]
  from assms(2) On_Heartbeat have "on_heartbeat grace p hb x = Continue x'" by (simp add: take_branch_def)
  then show ?thesis
  proof (cases rule: on_heartbeat_cases)
    case (revoked d)
    have "open_step (\<not> ae_forced_shutdown_requested x') \<le> open_step (\<not> ae_forced_shutdown_requested x)"
      "open_step (\<not> ae_execution_finished x') \<le> open_step (\<not> ae_execution_finished x)"
      by (auto simp: revoked open_step_def)
    with guard revoked show ?thesis by (simp add: turns_left_def)
  next
    case stopped
    with guard show ?thesis by (simp add: turns_left_def)
  qed
next
  case On_Forced
  with assms(2) select_guard(1) [OF assms(1) [unfolded On_Forced]] show ?thesis by (auto simp: turns_left_def take_branch_def)
next
  case On_Cancelled
  with assms(2) select_guard(2) [OF assms(1) [unfolded On_Cancelled]] show ?thesis by (auto simp: turns_left_def take_branch_def)
next
  case On_Grace
  with assms(2) select_guard(3) [OF assms(1) [unfolded On_Grace]] show ?thesis
    by (auto simp: turns_left_def take_branch_def on_grace_def split: option.split)
next
  case On_Timeout
  with assms(2) select_guard(4) [OF assms(1) [unfolded On_Timeout]] show ?thesis by (auto simp: turns_left_def take_branch_def)
next
  case (On_Handler result)
  with assms(2) select_guard(6) [OF assms(1) [unfolded On_Handler]] show ?thesis
    by (auto simp: turns_left_def take_branch_def on_handler_def)
qed

lemma turn_possible: "select_branch p x = Some b \<Longrightarrow> 0 < turns_left x"
  by (auto simp: turns_left_def select_branch_def split: if_splits)

text \<open>A poll that finds the timers elapsed and the heartbeat loop at its end.\<close>

definition poll_ready :: "poll \<Rightarrow> bool" where
  "poll_ready p \<longleftrightarrow> po_grace_elapsed p \<and> po_timeout_elapsed p \<and> po_heartbeat p \<noteq> None"

lemma ready_selects:
  assumes "loop_head x = Continue x" and "poll_ready p"
  shows "select_branch p x \<noteq> None"
  using assms by (auto simp: loop_head_def poll_ready_def select_branch_def split: if_splits option.splits)

lemma turns_bounded:
  "length (taken display grace ps x) \<le> turns_left x \<and>
   (\<forall>y. execution_loop display grace ps x = Continue y \<longrightarrow> length (filter poll_ready ps) \<le> length (taken display grace ps x))"
proof (induction rule: execution_induct)
  case (idle x p ps r bs)
  with ready_selects [OF idle(1), of p] show ?case by auto
next
  case (again x p ps b x' r bs)
  with turn_counts [OF again(2,3)] show ?case by auto
next
  case (leave x p ps b r)
  with turn_possible [OF leave(2)] show ?case by (auto simp: Suc_le_eq)
qed auto

section \<open>What an execution finishes with\<close>

fun first_cause :: "(activity_dispatch_error \<Rightarrow> string) \<Rightarrow> branch list \<Rightarrow> execution_outcome option" where
  "first_cause display [] = None"
| "first_cause display (On_Grace # bs) = Some grace_error"
| "first_cause display (On_Timeout # bs) = Some timeout_error"
| "first_cause display (On_Handler result # bs) = Some (dispatch_outcome display result)"
| "first_cause display (b # bs) = first_cause display bs"

fun is_revoked :: "branch \<Rightarrow> bool" where
  "is_revoked (On_Heartbeat (Inr (HB_Revoked _))) \<longleftrightarrow> True"
| "is_revoked _ \<longleftrightarrow> False"

definition found_revoked :: "branch list \<Rightarrow> bool" where
  "found_revoked bs \<longleftrightarrow> list_ex is_revoked bs"

lemma is_revoked_iff: "is_revoked b \<longleftrightarrow> (\<exists>d. b = On_Heartbeat (Inr (HB_Revoked d)))"
  by (cases b rule: is_revoked.cases) auto

lemma found_revoked_iff: "found_revoked bs \<longleftrightarrow> (\<exists>d. On_Heartbeat (Inr (HB_Revoked d)) \<in> set bs)"
  by (auto simp: found_revoked_def list_ex_iff is_revoked_iff)

definition due_outcome :: "(activity_dispatch_error \<Rightarrow> string) \<Rightarrow> branch list \<Rightarrow> execution_outcome option" where
  "due_outcome display bs = (if found_revoked bs then Some Outcome_Revoked else first_cause display bs)"

text \<open>A heartbeat that lost its lease, or could not renew it while the handler still ran, has no part here.\<close>

definition lease_kept :: "branch list \<Rightarrow> bool" where
  "lease_kept bs \<longleftrightarrow>
     (\<forall>d. On_Heartbeat (Inl (LeaseLost d)) \<notin> set bs) \<and>
     (\<forall>e d. On_Heartbeat (Inl (Unconfirmed e d)) \<in> set bs \<longrightarrow> (\<exists>r. On_Handler r \<in> set bs))"

definition heartbeat_ended :: "branch list \<Rightarrow> bool" where
  "heartbeat_ended bs \<longleftrightarrow> (\<exists>r. On_Heartbeat r \<in> set bs)"

definition follows :: "(activity_dispatch_error \<Rightarrow> string) \<Rightarrow> branch list \<Rightarrow> attempt_execution \<Rightarrow> bool" where
  "follows display hs x \<longleftrightarrow>
     (On_Forced \<in> set hs \<longrightarrow> ae_forced_shutdown_requested x) \<and>
     (\<not> ae_forced_shutdown_requested x \<longrightarrow> ae_requested_outcome x = due_outcome display hs) \<and>
     (ae_heartbeat_stopped x \<longleftrightarrow> heartbeat_ended hs) \<and> lease_kept hs \<and>
     (ae_execution_finished x \<longrightarrow> heartbeat_ended hs \<or> (\<exists>r. On_Handler r \<in> set hs))"

lemma first_cause_append:
  "first_cause display (hs @ [b]) = (case first_cause display hs of None \<Rightarrow> first_cause display [b] | Some o' \<Rightarrow> Some o')"
  by (induction hs rule: first_cause.induct) auto

lemma due_outcome_append:
  "due_outcome display (hs @ [b]) =
     (if found_revoked [b] then Some Outcome_Revoked
      else case due_outcome display hs of None \<Rightarrow> first_cause display [b] | Some o' \<Rightarrow> Some o')"
  by (auto simp: due_outcome_def found_revoked_iff first_cause_append split: option.split)

lemma history_append:
  "heartbeat_ended (hs @ [b]) \<longleftrightarrow> heartbeat_ended hs \<or> heartbeat_ended [b]"
  "lease_kept hs \<Longrightarrow> lease_kept (hs @ [b]) \<longleftrightarrow>
     (\<forall>d. b \<noteq> On_Heartbeat (Inl (LeaseLost d))) \<and>
     ((\<exists>e d. b = On_Heartbeat (Inl (Unconfirmed e d))) \<longrightarrow> (\<exists>r. On_Handler r \<in> set hs))"
  by (auto simp: heartbeat_ended_def lease_kept_def)

lemma execution_follows_step:
  assumes follows: "follows display hs x" and selected: "select_branch p x = Some b"
    and turn: "take_branch display grace p b x = Continue x'"
  shows "follows display (hs @ [b]) x'"
proof (cases b)
  case (On_Heartbeat hb)
  note guard = select_guard(5) [OF selected [unfolded On_Heartbeat]]
  from turn On_Heartbeat have "on_heartbeat grace p hb x = Continue x'" by (simp add: take_branch_def)
  then show ?thesis
  proof (cases rule: on_heartbeat_cases)
    case (revoked d)
    with follows On_Heartbeat show ?thesis
      by (auto simp: follows_def due_outcome_append found_revoked_iff history_append heartbeat_ended_def)
  next
    case stopped
    with follows guard On_Heartbeat show ?thesis
      by (auto simp: follows_def due_outcome_append found_revoked_iff history_append heartbeat_ended_def split: option.split)
  qed
next
  case (On_Handler result)
  with follows turn select_guard(6) [OF selected [unfolded On_Handler]] show ?thesis
    by (auto simp: follows_def take_branch_def on_handler_def due_outcome_append found_revoked_iff history_append
        heartbeat_ended_def split: option.split)
next
  case On_Grace
  with follows turn select_guard(3) [OF selected [unfolded On_Grace]] show ?thesis
    by (auto simp: follows_def take_branch_def on_grace_def due_outcome_append found_revoked_iff history_append
        heartbeat_ended_def split: option.split)
next
  case On_Timeout
  with follows turn select_guard(4) [OF selected [unfolded On_Timeout]] show ?thesis
    by (auto simp: follows_def take_branch_def due_outcome_append found_revoked_iff history_append heartbeat_ended_def)
qed (use follows turn in \<open>auto simp: follows_def take_branch_def due_outcome_append found_revoked_iff history_append
       heartbeat_ended_def split: option.split\<close>)

lemma execution_follows_start: "follows display [] (execution_start config now)"
  by (simp add: follows_def execution_start_def due_outcome_def found_revoked_iff heartbeat_ended_def lease_kept_def)

lemma turns_left_start: "turns_left (execution_start config now) = 6"
  by (simp add: turns_left_def execution_start_def)

lemma loop_head_break:
  "loop_head x = Break outcome \<Longrightarrow>
   ae_heartbeat_stopped x \<and> \<not> ae_forced_shutdown_requested x \<and> ae_requested_outcome x = Some outcome"
  by (auto simp: loop_head_def split: if_splits option.splits)

lemma break_cause:
  "follows display hs x \<Longrightarrow> execution_loop display grace ps x = Break outcome \<Longrightarrow>
   On_Forced \<notin> set (hs @ taken display grace ps x) \<and> heartbeat_ended (hs @ taken display grace ps x) \<and>
   lease_kept (hs @ taken display grace ps x) \<and> due_outcome display (hs @ taken display grace ps x) = Some outcome"
proof (induction arbitrary: hs rule: execution_induct)
  case (ended x ps)
  with loop_head_break [OF ended(3)] show ?case by (auto simp: follows_def)
next
  case (again x p ps b x' r bs)
  from again.IH [OF execution_follows_step [OF again.prems(1) again(2,3)] again.prems(2)] show ?case by simp
next
  case (leave x p ps b r)
  from leave(3) leave.prems(2) have "take_branch display grace p b x = Break outcome" by simp
  then show ?case
    by (auto simp: take_branch_def on_heartbeat_def split: branch.splits sum.splits heartbeat_end.splits
        heartbeat_failure.splits if_splits)
qed simp_all

text \<open>
  C15: an execution writes the outcome of its first cause, once, and only under a lease it kept. Whatever is ready
  in whatever order, what \<open>execute_claim\<close> changes in the database is one finish of its claim,
  after its heartbeats have ended: no forced shutdown was seen, no renewal found the lease lost, and
  one that failed without an answer came after the handler had returned. The
  outcome is a revoke if a heartbeat found one, and otherwise that of the first of these to happen: the
  handler returned, its timeout elapsed, the grace of a shutdown elapsed. A result that
  comes after the timeout is never written.
\<close>

theorem execution_writes_first_cause:
  assumes "execute_claim E display config claim now polls others s = (result, s')"
    and "s' \<noteq> s" and "s' \<noteq> others s"
  shows "\<exists>outcome. let bs = taken display (shutdown_grace config) polls (execution_start config now) in
    due_outcome display bs = Some outcome \<and> heartbeat_ended bs \<and> lease_kept bs \<and> On_Forced \<notin> set bs \<and>
    finish_on_connection E claim outcome (others s) = Inr ((), s')"
proof -
  let ?loop = "execution_loop display (shutdown_grace config) polls (execution_start config now)"
  from assms obtain outcome where loop: "?loop = Break outcome" and "finish_claim E claim outcome (others s) = (the result, s')"
    by (auto simp: execute_claim_def split: if_splits sum.splits execution_turn.splits prod.splits)
  then have "finish_on_connection E claim outcome (others s) = Inr ((), s')"
    using assms(3) by (auto simp: finish_claim_def split: sum.splits if_splits)
  with break_cause [OF execution_follows_start loop] show ?thesis by (auto simp: Let_def)
qed

definition sample_poll :: poll where
  "sample_poll = \<lparr>po_forced = False, po_cancelled = False, po_grace_elapsed = False, po_timeout_elapsed = False,
     po_heartbeat = None, po_handler = None, po_now = 1, po_cleanup_now = 1, po_cleanup = Cleanup_Elapsed\<rparr>"

text \<open>The handler is asked to stop after its timeout and still returns a result.\<close>

definition sample_polls :: "poll list" where
  "sample_polls =
     [sample_poll\<lparr>po_timeout_elapsed := True\<rparr>, sample_poll\<lparr>po_handler := Some (Inr ''{}'')\<rparr>,
      sample_poll\<lparr>po_heartbeat := Some (Inr HB_Stopped)\<rparr>]"

theorem execution_writes_first_cause_witness:
  "let claim = sample_activity_claim\<lparr>clm_lease_deadline := 100\<rparr>;
       (result, s') = execute_claim sample_externals (\<lambda>_. []) WorkerConfig_default claim 0 sample_polls (\<lambda>s. s) sample_attempting
   in map att_provider_result_json (attempts s') = [None] \<and>
      finish_on_connection sample_externals claim timeout_error sample_attempting = Inr ((), s')"
proof -
  let ?claim = "sample_activity_claim\<lparr>clm_lease_deadline := 100\<rparr>"
  let ?run = "execute_claim sample_externals (\<lambda>_. []) WorkerConfig_default ?claim 0 sample_polls (\<lambda>s. s) sample_attempting"
  let ?bs = "taken (\<lambda>_. []) (shutdown_grace WorkerConfig_default) sample_polls (execution_start WorkerConfig_default 0)"
  have run: "map att_provider_result_json (attempts (snd ?run)) = [None]"
    "map att_finished_at (attempts (snd ?run)) \<noteq> map att_finished_at (attempts sample_attempting)"
    "due_outcome (\<lambda>_. []) ?bs = Some timeout_error" by code_simp+
  from run(2) have "snd ?run \<noteq> sample_attempting" by metis
  with execution_writes_first_cause [of sample_externals "\<lambda>_. []" WorkerConfig_default ?claim 0 sample_polls "\<lambda>s. s"
      sample_attempting "fst ?run" "snd ?run"] run(3)
  have "finish_on_connection sample_externals ?claim timeout_error sample_attempting = Inr ((), snd ?run)"
    by (simp add: Let_def)
  with run(1) show ?thesis by (simp add: case_prod_beta)
qed

lemma heartbeat_loop_append:
  "heartbeat_loop (bs @ cs) deadline =
     (case heartbeat_loop bs deadline of Beating deadline' \<Rightarrow> heartbeat_loop cs deadline' | Beat_End e \<Rightarrow> Beat_End e)"
  by (induction bs deadline rule: heartbeat_loop.induct) (auto split: heartbeating.split)

text \<open>
  C16: every execution of an attempt ends. Its loop takes at most six branches, whatever is ready when it is polled;
  and it cannot wait for ever: once it has been polled seven times with its timers elapsed and
  its heartbeat loop at an end, it has returned or finished its claim. The heartbeat
  loop itself ends as soon as it is told to stop or finds its lease over.
\<close>

theorem executions_end:
  shows "length (taken display (shutdown_grace config) polls (execution_start config now)) \<le> 6 \<and>
    (6 < length (filter poll_ready polls) \<longrightarrow> fst (execute_claim E display config claim now polls others s) \<noteq> None) \<and>
    (heartbeat_loop beats deadline = Beating deadline' \<and> (bt_stop b \<or> deadline' \<le> bt_now b) \<longrightarrow>
      (\<exists>e. heartbeat_loop (beats @ [b]) deadline = Beat_End e))"
proof (intro conjI impI)
  let ?x = "execution_start config now" and ?grace = "shutdown_grace config"
  show taken: "length (taken display ?grace polls ?x) \<le> 6"
    using turns_bounded [of display ?grace polls ?x] turns_left_start by simp
  assume ready: "6 < length (filter poll_ready polls)"
  have "execution_loop display ?grace polls ?x \<noteq> Continue y" for y
    using turns_bounded [of display ?grace polls ?x] taken ready by fastforce
  then show "fst (execute_claim E display config claim now polls others s) \<noteq> None"
    by (cases "execution_loop display ?grace polls ?x")
      (auto simp: execute_claim_def split: sum.splits prod.splits)
qed (auto simp: heartbeat_loop_append)

theorem executions_end_witness:
  "let polls = replicate 7 (sample_poll\<lparr>po_grace_elapsed := True, po_timeout_elapsed := True,
         po_heartbeat := Some (Inr HB_Stopped)\<rparr>)
   in fst (execute_claim sample_externals (\<lambda>_. []) WorkerConfig_default sample_activity_claim (- 1) polls (\<lambda>s. s)
        sample_attempting) \<noteq> None \<and>
      (\<exists>e. heartbeat_loop [\<lparr>bt_now = 5, bt_stop = False, bt_tick = True, bt_renewal = Renewal_Done (Inr (Held 20))\<rparr>,
         \<lparr>bt_now = 20, bt_stop = False, bt_tick = True, bt_renewal = Renewal_Dropped\<rparr>] 10 = Beat_End e)"
proof -
  let ?polls = "replicate 7 (sample_poll\<lparr>po_grace_elapsed := True, po_timeout_elapsed := True,
      po_heartbeat := Some (Inr HB_Stopped)\<rparr>)"
  let ?beats = "[\<lparr>bt_now = 5, bt_stop = False, bt_tick = True, bt_renewal = Renewal_Done (Inr (Held 20))\<rparr>]"
  have "length (filter poll_ready ?polls) = 7" by code_simp
  moreover have "heartbeat_loop ?beats 10 = Beating 20" by code_simp
  ultimately show ?thesis
    using executions_end [of "\<lambda>_. []" WorkerConfig_default ?polls "- 1" sample_externals sample_activity_claim "\<lambda>s. s"
        sample_attempting ?beats 10 20 "\<lparr>bt_now = 20, bt_stop = False, bt_tick = True, bt_renewal = Renewal_Dropped\<rparr>"]
    by (simp add: Let_def del: heartbeat_loop.simps replicate.simps)
qed

end
