(* ===== verification/Flow.thy ===== *)
theory Flow
  imports Samples
begin

text \<open>
  Durable-async flows (\<open>src/flow.rs\<close>): a workflow written as straight-line code is run again from
  the top at every activation. A journal of completed steps answers what was asked before;
  the first step it does not answer becomes the next command.

  Flow code is a tree: it returns, or it awaits a step and goes on with the answer. The tree is
  what the user's \<open>async fn\<close> does between two awaits, so a flow of the model is deterministic. A
  typed output is the text it decodes to; the decoder of a request is an argument of it.
\<close>

section \<open>The journal and the errors of flow code\<close>

datatype flow_step_outcome = Step_Succeeded string | Step_Failed string string

record journal_entry =
  je_step_kind :: string
  je_step_version :: "i32 option"
  je_outcome :: flow_step_outcome

type_synonym flow_journal = "journal_entry list"

datatype wf_error =
  WF_Suspended
| WF_ChildFailed string string string
| WF_Definition string
| WF_Domain string string

definition WfError_new :: "string \<Rightarrow> string \<Rightarrow> wf_error" where
  "WfError_new category message = WF_Domain category message"

definition wf_error_of_durable :: "externals \<Rightarrow> durable_error \<Rightarrow> wf_error" where
  "wf_error_of_durable E error = WF_Definition (error_text E error)"

datatype pending_step =
  Pend_Activity activity_command
| Pend_Child child_workflow_command
| Pend_Sleep i64

record wf_ctx =
  cx_workflow_id :: "i64 option"
  cx_steps :: flow_journal
  cx_cursor :: nat
  cx_pending :: "pending_step option"

definition WfCtx_new :: "i64 option \<Rightarrow> flow_journal \<Rightarrow> wf_ctx" where
  "WfCtx_new workflow_id journal =
     \<lparr>cx_workflow_id = workflow_id, cx_steps = journal, cx_cursor = 0, cx_pending = None\<rparr>"

section \<open>Awaiting a step\<close>

text \<open>The text \<open>Option\<close>'s \<open>Debug\<close> gives a version.\<close>

definition debug_version :: "i32 option \<Rightarrow> string" where
  "debug_version v = (case v of None \<Rightarrow> ''None'' | Some n \<Rightarrow> ''Some('' @ dec_int n @ '')'')"

definition replay ::
    "string \<Rightarrow> i32 option \<Rightarrow> wf_ctx \<Rightarrow> (wf_error + flow_step_outcome option) \<times> wf_ctx" where
  "replay step_kind step_version ctx =
     (if cx_pending ctx \<noteq> None then (Inl WF_Suspended, ctx)
      else if length (cx_steps ctx) \<le> cx_cursor ctx then (Inr None, ctx)
      else
        let entry = cx_steps ctx ! cx_cursor ctx; at = dec_int (int (cx_cursor ctx) + 1) in
        if je_step_kind entry \<noteq> step_kind
        then (Inl (WF_Definition (''nondeterministic flow: step '' @ at @ '' requested '' @ step_kind @
               '' but the journal recorded '' @ je_step_kind entry)), ctx)
        else if je_step_version entry \<noteq> step_version
        then (Inl (WF_Definition (''nondeterministic flow: step '' @ at @ '' requested '' @ step_kind @
               '' version '' @ debug_version step_version @ '' but the journal recorded version '' @
               debug_version (je_step_version entry))), ctx)
        else (Inr (Some (je_outcome entry)), ctx\<lparr>cx_cursor := cx_cursor ctx + 1\<rparr>))"

definition auto_operation_key :: "wf_ctx \<Rightarrow> string option" where
  "auto_operation_key ctx =
     map_option (\<lambda>workflow_id. ''wf:'' @ dec_int workflow_id @ '':step:'' @
       dec_int (int (cx_cursor ctx) + 1)) (cx_workflow_id ctx)"

type_synonym decoder = "string \<Rightarrow> string + string"

definition decode_recorded :: "decoder \<Rightarrow> string \<Rightarrow> string \<Rightarrow> wf_error + string" where
  "decode_recorded decode step_kind result_json =
     (case decode result_json of
        Inl error \<Rightarrow> Inl (WF_Definition (''recorded '' @ step_kind @ '' result no longer decodes: '' @ error))
      | Inr output \<Rightarrow> Inr output)"

definition run_step ::
    "externals \<Rightarrow> activity_definition \<Rightarrow> string option \<Rightarrow> decoder \<Rightarrow> string option \<Rightarrow> wf_ctx \<Rightarrow>
     (wf_error + string) \<times> wf_ctx" where
  "run_step E A serialized decode operation_key ctx =
     (let step_kind = ''activity:'' @ ad_kind A in
      case replay step_kind (Some (ad_version A)) ctx of
        (Inl e, ctx') \<Rightarrow> (Inl e, ctx')
      | (Inr (Some (Step_Succeeded result_json)), ctx') \<Rightarrow> (decode_recorded decode step_kind result_json, ctx')
      | (Inr (Some (Step_Failed category message)), ctx') \<Rightarrow>
          (Inl (WF_Definition (''recorded '' @ step_kind @ '' result is a failure ('' @ category @ '': '' @
             message @ ''); activities never journal failures'')), ctx')
      | (Inr None, ctx') \<Rightarrow>
          (case ActivityCommand_new A serialized operation_key of
             Inl error \<Rightarrow> (Inl (WF_Definition (error_text E error)), ctx')
           | Inr command \<Rightarrow> (Inl WF_Suspended, ctx'\<lparr>cx_pending := Some (Pend_Activity command)\<rparr>)))"

definition child_step ::
    "externals \<Rightarrow> string \<Rightarrow> i32 \<Rightarrow> string option \<Rightarrow> string option \<Rightarrow> decoder \<Rightarrow> string option \<Rightarrow> wf_ctx \<Rightarrow>
     (wf_error + string) \<times> wf_ctx" where
  "child_step E kind version input state decode deduplication_key ctx =
     (let step_kind = ''child:'' @ kind in
      case replay step_kind (Some version) ctx of
        (Inl e, ctx') \<Rightarrow> (Inl e, ctx')
      | (Inr (Some (Step_Succeeded result_json)), ctx') \<Rightarrow> (decode_recorded decode step_kind result_json, ctx')
      | (Inr (Some (Step_Failed category message)), ctx') \<Rightarrow>
          (Inl (WF_ChildFailed kind category message), ctx')
      | (Inr None, ctx') \<Rightarrow>
          (case ChildWorkflowCommand_new kind version input state of
             Inl error \<Rightarrow> (Inl (WF_Definition (error_text E error)), ctx')
           | Inr command \<Rightarrow>
               (Inl WF_Suspended, ctx'\<lparr>cx_pending := Some (Pend_Child
                  (case deduplication_key of
                     None \<Rightarrow> command
                   | Some key \<Rightarrow> with_deduplication_key key command))\<rparr>)))"

definition sleep_until_step :: "i64 \<Rightarrow> wf_ctx \<Rightarrow> (wf_error + string) \<times> wf_ctx" where
  "sleep_until_step wake_at_millis ctx =
     (case replay ''timer'' None ctx of
        (Inl e, ctx') \<Rightarrow> (Inl e, ctx')
      | (Inr (Some (Step_Succeeded _)), ctx') \<Rightarrow> (Inr [], ctx')
      | (Inr (Some (Step_Failed category message)), ctx') \<Rightarrow>
          (Inl (WF_Definition (''recorded timer result is a failure ('' @ category @ '': '' @ message @ '')'')), ctx')
      | (Inr None, ctx') \<Rightarrow> (Inl WF_Suspended, ctx'\<lparr>cx_pending := Some (Pend_Sleep wake_at_millis)\<rparr>))"

section \<open>Flow code\<close>

text \<open>The awaits of \<open>WfCtx\<close>: \<open>run\<close>, \<open>run_with_key\<close>, \<open>child\<close> and \<open>child_with_key\<close>, \<open>sleep_until\<close>.\<close>

datatype step_request =
  Req_Run activity_definition "string option" decoder
| Req_Run_With_Key activity_definition "string option" decoder string
| Req_Child string i32 "string option" "string option" decoder "string option"
| Req_Sleep i64

datatype flow_code =
  Flow_Return "wf_error + string"
| Flow_Await step_request "wf_error + string \<Rightarrow> flow_code"

fun await_step :: "externals \<Rightarrow> step_request \<Rightarrow> wf_ctx \<Rightarrow> (wf_error + string) \<times> wf_ctx" where
  "await_step E (Req_Run A serialized decode) ctx =
     run_step E A serialized decode (auto_operation_key ctx) ctx"
| "await_step E (Req_Run_With_Key A serialized decode operation_key) ctx =
     run_step E A serialized decode (Some operation_key) ctx"
| "await_step E (Req_Child kind version input state decode deduplication_key) ctx =
     child_step E kind version input state decode deduplication_key ctx"
| "await_step E (Req_Sleep wake_at_millis) ctx = sleep_until_step wake_at_millis ctx"

primrec run_flow :: "externals \<Rightarrow> flow_code \<Rightarrow> wf_ctx \<Rightarrow> (wf_error + string) \<times> wf_ctx" where
  "run_flow E (Flow_Return result) = (\<lambda>ctx. (result, ctx))"
| "run_flow E (Flow_Await request k) =
     (\<lambda>ctx. case await_step E request ctx of (answer, ctx') \<Rightarrow> run_flow E (k answer) ctx')"

section \<open>One activation\<close>

datatype flow_transition =
  FT_RunActivity flow_journal activity_command
| FT_RunChild flow_journal child_workflow_command
| FT_SleepUntil flow_journal i64
| FT_Complete string

definition ensure_sequence :: "u32 \<Rightarrow> u32 \<Rightarrow> workflow_error + unit" where
  "ensure_sequence actual expected =
     (if actual = expected then Inr ()
      else Inl (WorkflowError_new ''flow'' (''flow received step result '' @ dec_int actual @
             '' but the journal expects '' @ dec_int expected)))"

definition apply_entry ::
    "flow_journal \<Rightarrow> u32 \<Rightarrow> u32 \<Rightarrow> journal_entry \<Rightarrow> workflow_error + flow_journal" where
  "apply_entry journal command_sequence expected entry =
     map_sum id (\<lambda>_. journal @ [entry]) (ensure_sequence command_sequence expected)"

definition apply_event :: "flow_journal \<Rightarrow> workflow_event \<Rightarrow> workflow_error + flow_journal" where
  "apply_event journal event =
     (case u32_try_from (int (length journal) + 1) of
        None \<Rightarrow> Inl (WorkflowError_new ''flow'' ''flow journal length overflow'')
      | Some expected \<Rightarrow>
          (case event of
             Started \<Rightarrow> Inr journal
           | Continued \<Rightarrow> Inr journal
           | ActivitySucceeded command_sequence result \<Rightarrow>
               apply_entry journal command_sequence expected
                 \<lparr>je_step_kind = ''activity:'' @ sr_kind result, je_step_version = Some (sr_version result),
                  je_outcome = Step_Succeeded (sr_output_json result)\<rparr>
           | ChildSucceeded command_sequence result \<Rightarrow>
               apply_entry journal command_sequence expected
                 \<lparr>je_step_kind = ''child:'' @ sr_kind result, je_step_version = Some (sr_version result),
                  je_outcome = Step_Succeeded (sr_output_json result)\<rparr>
           | ChildFailed command_sequence kind version category message \<Rightarrow>
               apply_entry journal command_sequence expected
                 \<lparr>je_step_kind = ''child:'' @ kind, je_step_version = Some version,
                  je_outcome = Step_Failed category message\<rparr>
           | TimerFired command_sequence \<Rightarrow>
               apply_entry journal command_sequence expected
                 \<lparr>je_step_kind = ''timer'', je_step_version = None, je_outcome = Step_Succeeded ''null''\<rparr>
           | _ \<Rightarrow> Inl (WorkflowError_new ''flow'' ''flows do not support approval waits'')))"

definition finish_flow :: "(wf_error + string) \<times> wf_ctx \<Rightarrow> workflow_error + flow_transition" where
  "finish_flow run =
     (case run of
        (Inr output, ctx) \<Rightarrow>
          if cx_cursor ctx \<noteq> length (cx_steps ctx)
          then Inl (WorkflowError_new ''flow_definition'' (''flow completed without replaying '' @
                 dec_int (int (length (cx_steps ctx) - cx_cursor ctx)) @ '' recorded journal step(s)''))
          else Inr (FT_Complete output)
      | (Inl WF_Suspended, ctx) \<Rightarrow>
          (case cx_pending ctx of
             Some (Pend_Activity activity) \<Rightarrow> Inr (FT_RunActivity (cx_steps ctx) activity)
           | Some (Pend_Child child) \<Rightarrow> Inr (FT_RunChild (cx_steps ctx) child)
           | Some (Pend_Sleep wake_at_millis) \<Rightarrow> Inr (FT_SleepUntil (cx_steps ctx) wake_at_millis)
           | None \<Rightarrow> Inl (WorkflowError_new ''flow'' ''flow suspended without a pending step''))
      | (Inl (WF_ChildFailed kind category message), ctx) \<Rightarrow>
          Inl (WorkflowError_new ''child_failed'' (''child workflow '' @ kind @ '' failed: '' @ category @
            '': '' @ message))
      | (Inl (WF_Definition message), ctx) \<Rightarrow> Inl (WorkflowError_new ''flow_definition'' message)
      | (Inl (WF_Domain category message), ctx) \<Rightarrow> Inl (WorkflowError_new category message))"

definition flow_step ::
    "externals \<Rightarrow> flow_code \<Rightarrow> i64 option \<Rightarrow> flow_journal \<Rightarrow> workflow_event \<Rightarrow>
     workflow_error + flow_transition" where
  "flow_step E flow workflow_id journal event =
     (case apply_event journal event of
        Inl e \<Rightarrow> Inl e
      | Inr journal' \<Rightarrow> finish_flow (run_flow E flow (WfCtx_new workflow_id journal')))"

section \<open>Resuming instead of replaying\<close>

text \<open>
  The specification knows no journal: a suspended flow is the code that is left. It is resumed with
  the answer that the event of its pending step brings, and never run again from the top. What
  the code that is left asks for next is a command, its output, or a failure.
\<close>

fun event_answer :: "step_request \<Rightarrow> workflow_event \<Rightarrow> wf_error + string" where
  "event_answer (Req_Run A _ decode) (ActivitySucceeded _ result) =
     (case decode (sr_output_json result) of
        Inr output \<Rightarrow> Inr output
      | Inl error \<Rightarrow> Inl (WF_Definition (''recorded activity:'' @ ad_kind A @ '' result no longer decodes: '' @ error)))"
| "event_answer (Req_Run_With_Key A _ decode _) (ActivitySucceeded _ result) =
     (case decode (sr_output_json result) of
        Inr output \<Rightarrow> Inr output
      | Inl error \<Rightarrow> Inl (WF_Definition (''recorded activity:'' @ ad_kind A @ '' result no longer decodes: '' @ error)))"
| "event_answer (Req_Child kind _ _ _ decode _) (ChildSucceeded _ result) =
     (case decode (sr_output_json result) of
        Inr output \<Rightarrow> Inr output
      | Inl error \<Rightarrow> Inl (WF_Definition (''recorded child:'' @ kind @ '' result no longer decodes: '' @ error)))"
| "event_answer (Req_Child kind _ _ _ _ _) (ChildFailed _ _ _ category message) =
     Inl (WF_ChildFailed kind category message)"
| "event_answer (Req_Sleep _) (TimerFired _) = Inr []"
| "event_answer _ _ = Inl WF_Suspended"

fun feed :: "flow_code \<Rightarrow> workflow_event list \<Rightarrow> flow_code option" where
  "feed f [] = Some f"
| "feed (Flow_Return r) (event # rest) = None"
| "feed (Flow_Await q k) (event # rest) = feed (k (event_answer q event)) rest"

lemma feed_append: "feed f (xs @ ys) = Option.bind (feed f xs) (\<lambda>g. feed g ys)"
  by (induction f xs rule: feed.induct) auto

datatype flow_demand = Demand_Step pending_step | Demand_Complete string

fun demand :: "flow_transition \<Rightarrow> flow_demand" where
  "demand (FT_RunActivity _ c) = Demand_Step (Pend_Activity c)"
| "demand (FT_RunChild _ c) = Demand_Step (Pend_Child c)"
| "demand (FT_SleepUntil _ wake_at_millis) = Demand_Step (Pend_Sleep wake_at_millis)"
| "demand (FT_Complete output) = Demand_Complete output"

fun flow_failure :: "wf_error \<Rightarrow> workflow_error" where
  "flow_failure WF_Suspended = WorkflowError_new ''flow'' ''flow suspended without a pending step''"
| "flow_failure (WF_ChildFailed kind category message) =
     WorkflowError_new ''child_failed'' (''child workflow '' @ kind @ '' failed: '' @ category @ '': '' @ message)"
| "flow_failure (WF_Definition message) = WorkflowError_new ''flow_definition'' message"
| "flow_failure (WF_Domain category message) = WorkflowError_new category message"

text \<open>
  Between the two, \<open>resume\<close> feeds the code with the entries of a journal: the key a step is recorded
  under, and the answer a recorded outcome gives.
\<close>

fun step_key :: "step_request \<Rightarrow> string \<times> i32 option" where
  "step_key (Req_Run A _ _) = (''activity:'' @ ad_kind A, Some (ad_version A))"
| "step_key (Req_Run_With_Key A _ _ _) = (''activity:'' @ ad_kind A, Some (ad_version A))"
| "step_key (Req_Child kind version _ _ _ _) = (''child:'' @ kind, Some version)"
| "step_key (Req_Sleep _) = (''timer'', None)"

definition activity_answer :: "activity_definition \<Rightarrow> decoder \<Rightarrow> flow_step_outcome \<Rightarrow> wf_error + string" where
  "activity_answer A decode outcome =
     (case outcome of
        Step_Succeeded result_json \<Rightarrow> decode_recorded decode (''activity:'' @ ad_kind A) result_json
      | Step_Failed category message \<Rightarrow>
          Inl (WF_Definition (''recorded '' @ (''activity:'' @ ad_kind A) @ '' result is a failure ('' @ category @
            '': '' @ message @ ''); activities never journal failures'')))"

fun answer_of :: "step_request \<Rightarrow> flow_step_outcome \<Rightarrow> wf_error + string" where
  "answer_of (Req_Run A _ decode) outcome = activity_answer A decode outcome"
| "answer_of (Req_Run_With_Key A _ decode _) outcome = activity_answer A decode outcome"
| "answer_of (Req_Child kind _ _ _ decode _) outcome =
     (case outcome of
        Step_Succeeded result_json \<Rightarrow> decode_recorded decode (''child:'' @ kind) result_json
      | Step_Failed category message \<Rightarrow> Inl (WF_ChildFailed kind category message))"
| "answer_of (Req_Sleep _) outcome =
     (case outcome of
        Step_Succeeded _ \<Rightarrow> Inr []
      | Step_Failed category message \<Rightarrow>
          Inl (WF_Definition (''recorded timer result is a failure ('' @ category @ '': '' @ message @ '')'')))"

text \<open>The command of a step that has no result yet, the \<open>n\<close>th of its workflow.\<close>

definition step_operation_key :: "i64 option \<Rightarrow> nat \<Rightarrow> string option" where
  "step_operation_key workflow_id n =
     map_option (\<lambda>i. ''wf:'' @ dec_int i @ '':step:'' @ dec_int (int n)) workflow_id"

fun step_command :: "i64 option \<Rightarrow> nat \<Rightarrow> step_request \<Rightarrow> durable_error + pending_step" where
  "step_command workflow_id n (Req_Run A serialized _) =
     map_sum id Pend_Activity (ActivityCommand_new A serialized (step_operation_key workflow_id n))"
| "step_command workflow_id n (Req_Run_With_Key A serialized _ key) =
     map_sum id Pend_Activity (ActivityCommand_new A serialized (Some key))"
| "step_command workflow_id n (Req_Child kind version input state _ key) =
     map_sum id (\<lambda>c. Pend_Child (case key of None \<Rightarrow> c | Some k \<Rightarrow> with_deduplication_key k c))
       (ChildWorkflowCommand_new kind version input state)"
| "step_command workflow_id n (Req_Sleep wake_at_millis) = Inr (Pend_Sleep wake_at_millis)"

definition next_demand :: "externals \<Rightarrow> i64 option \<Rightarrow> nat \<Rightarrow> flow_code \<Rightarrow> workflow_error + flow_demand" where
  "next_demand E workflow_id n code =
     (case code of
        Flow_Return (Inr output) \<Rightarrow> Inr (Demand_Complete output)
      | Flow_Return (Inl error) \<Rightarrow> Inl (flow_failure error)
      | Flow_Await q k \<Rightarrow>
          (case step_command workflow_id n q of
             Inl error \<Rightarrow> Inl (WorkflowError_new ''flow_definition'' (error_text E error))
           | Inr p \<Rightarrow> Inr (Demand_Step p)))"

fun resume :: "flow_code \<Rightarrow> flow_journal \<Rightarrow> flow_code option" where
  "resume f [] = Some f"
| "resume (Flow_Return r) (e # es) = None"
| "resume (Flow_Await q k) (e # es) =
     (if (je_step_kind e, je_step_version e) = step_key q then resume (k (answer_of q (je_outcome e))) es
      else None)"

lemma resume_append: "resume f (xs @ ys) = Option.bind (resume f xs) (\<lambda>g. resume g ys)"
  by (induction f xs rule: resume.induct) auto

text \<open>Flow code propagates a suspension and an error of its definition, as \<open>?\<close> does.\<close>

primrec propagates :: "flow_code \<Rightarrow> bool" where
  "propagates (Flow_Return r) = True"
| "propagates (Flow_Await q k) =
     (k (Inl WF_Suspended) = Flow_Return (Inl WF_Suspended) \<and>
      (\<forall>m. k (Inl (WF_Definition m)) = Flow_Return (Inl (WF_Definition m))) \<and>
      (\<forall>r. propagates (k r)))"

lemma propagates_resume: "propagates f \<Longrightarrow> resume f js = Some g \<Longrightarrow> propagates g"
  by (induction f js rule: resume.induct) (auto split: if_splits)

section \<open>Replaying is resuming\<close>

lemma replay_hit:
  assumes "cx_pending ctx = None" and "cx_cursor ctx < length (cx_steps ctx)"
    and "cx_steps ctx ! cx_cursor ctx = e"
  shows "replay (je_step_kind e) (je_step_version e) ctx =
    (Inr (Some (je_outcome e)), ctx\<lparr>cx_cursor := cx_cursor ctx + 1\<rparr>)"
  using assms by (simp add: replay_def Let_def)

lemma await_hit:
  assumes "cx_pending ctx = None" and "cx_cursor ctx < length (cx_steps ctx)"
    and "cx_steps ctx ! cx_cursor ctx = e" and "(je_step_kind e, je_step_version e) = step_key q"
  shows "await_step E q ctx = (answer_of q (je_outcome e), ctx\<lparr>cx_cursor := cx_cursor ctx + 1\<rparr>)"
  using replay_hit [OF assms(1-3)] assms(4)
  by (cases q; cases "je_outcome e")
    (simp_all add: run_step_def child_step_def sleep_until_step_def activity_answer_def Let_def)

lemma await_miss:
  assumes "cx_pending ctx = None" and "cx_cursor ctx = length (cx_steps ctx)"
  shows "await_step E q ctx =
    (case step_command (cx_workflow_id ctx) (cx_cursor ctx + 1) q of
       Inl error \<Rightarrow> (Inl (WF_Definition (error_text E error)), ctx)
     | Inr p \<Rightarrow> (Inl WF_Suspended, ctx\<lparr>cx_pending := Some p\<rparr>))"
proof -
  have "replay kind version ctx = (Inr None, ctx)" for kind version using assms by (simp add: replay_def)
  then show ?thesis
    by (cases q) (auto simp: run_step_def child_step_def sleep_until_step_def auto_operation_key_def
        step_operation_key_def Let_def ac_simps split: sum.splits)
qed

lemma drop_cons:
  assumes "drop n xs = e # es"
  shows "n < length xs" and "xs ! n = e" and "es = drop (Suc n) xs"
proof -
  show n: "n < length xs" using assms by (metis drop_all linorder_not_less list.distinct(1))
  show "xs ! n = e" "es = drop (Suc n) xs" using assms Cons_nth_drop_Suc [OF n] by simp_all
qed

lemma run_resumed:
  assumes "cx_pending ctx = None" and "cx_cursor ctx \<le> length (cx_steps ctx)"
    and "resume f (drop (cx_cursor ctx) (cx_steps ctx)) = Some rest"
  shows "run_flow E f ctx = run_flow E rest (ctx\<lparr>cx_cursor := length (cx_steps ctx)\<rparr>)"
  using assms
proof (induction f "drop (cx_cursor ctx) (cx_steps ctx)" arbitrary: ctx rule: resume.induct)
  case (1 f)
  then have "cx_cursor ctx = length (cx_steps ctx)" by simp
  then have "ctx\<lparr>cx_cursor := length (cx_steps ctx)\<rparr> = ctx" by simp
  with 1 show ?case by simp
next
  case (2 r e es)
  then show ?case by (metis option.distinct(1) resume.simps(2))
next
  case (3 q k e es)
  have here: "cx_cursor ctx < length (cx_steps ctx)" "cx_steps ctx ! cx_cursor ctx = e"
    and es: "es = drop (cx_cursor ctx + 1) (cx_steps ctx)"
    using drop_cons [OF 3(2) [symmetric]] by simp_all
  from 3(2,5) have key: "(je_step_kind e, je_step_version e) = step_key q"
    and rest: "resume (k (answer_of q (je_outcome e))) es = Some rest"
    by (metis option.distinct(1) resume.simps(3))+
  show ?case
    using 3(1) [OF key, of "ctx\<lparr>cx_cursor := cx_cursor ctx + 1\<rparr>"] 3(3) here es rest
    by (simp add: await_hit [OF 3(3) here key])
qed

section \<open>The life of a flow\<close>

fun ft_journal :: "flow_transition \<Rightarrow> flow_journal" where
  "ft_journal (FT_RunActivity js _) = js"
| "ft_journal (FT_RunChild js _) = js"
| "ft_journal (FT_SleepUntil js _) = js"
| "ft_journal (FT_Complete _) = []"

text \<open>The event that answers a transition: the result of its command, with the next sequence.\<close>

fun answers :: "flow_transition \<Rightarrow> workflow_event \<Rightarrow> bool" where
  "answers (FT_RunActivity js c) (ActivitySucceeded n r) \<longleftrightarrow>
     n = int (length js) + 1 \<and> sr_kind r = ac_kind c \<and> sr_version r = ac_version c"
| "answers (FT_RunChild js c) (ChildSucceeded n r) \<longleftrightarrow>
     n = int (length js) + 1 \<and> sr_kind r = cc_kind c \<and> sr_version r = cc_version c"
| "answers (FT_RunChild js c) (ChildFailed n kind version category message) \<longleftrightarrow>
     n = int (length js) + 1 \<and> kind = cc_kind c \<and> version = cc_version c"
| "answers (FT_SleepUntil js _) (TimerFired n) \<longleftrightarrow> n = int (length js) + 1"
| "answers _ _ \<longleftrightarrow> False"

text \<open>\<open>flow_active E f i evs t\<close>: started, and then given the answers \<open>evs\<close>, the flow made the transition \<open>t\<close>.\<close>

inductive flow_active :: "externals \<Rightarrow> flow_code \<Rightarrow> i64 option \<Rightarrow> workflow_event list \<Rightarrow> flow_transition \<Rightarrow> bool" for E f i where
  flow_begin: "flow_step E f i [] Started = Inr t \<Longrightarrow> flow_active E f i [] t"
| flow_next: "\<lbrakk>flow_active E f i evs t; answers t event; flow_step E f i (ft_journal t) event = Inr t'\<rbrakk> \<Longrightarrow>
    flow_active E f i (evs @ [event]) t'"

fun lowered :: "flow_journal \<Rightarrow> pending_step \<Rightarrow> flow_transition" where
  "lowered js (Pend_Activity c) = FT_RunActivity js c"
| "lowered js (Pend_Child c) = FT_RunChild js c"
| "lowered js (Pend_Sleep at) = FT_SleepUntil js at"

definition waits_at :: "flow_code \<Rightarrow> i64 option \<Rightarrow> flow_transition \<Rightarrow> step_request \<Rightarrow> (wf_error + string \<Rightarrow> flow_code) \<Rightarrow> bool" where
  "waits_at f i t q k \<longleftrightarrow>
     resume f (ft_journal t) = Some (Flow_Await q k) \<and>
     (\<exists>p. step_command i (length (ft_journal t) + 1) q = Inr p \<and> t = lowered (ft_journal t) p)"

text \<open>What a resumed flow does is what the code that is left demands; one that yields a command is waiting for it.\<close>

lemma resumed_demand:
  assumes "propagates rest"
  shows "map_sum id demand (finish_flow (run_flow E rest
      \<lparr>cx_workflow_id = i, cx_steps = js, cx_cursor = length js, cx_pending = None\<rparr>)) =
    next_demand E i (length js + 1) rest"
proof (cases rest)
  case (Flow_Return r)
  then show ?thesis
    by (cases r; simp add: finish_flow_def next_demand_def split: wf_error.split)
next
  case (Flow_Await q k)
  show ?thesis
  proof (cases "step_command i (length js + 1) q")
    case (Inr p)
    with Flow_Await assms show ?thesis by (cases p) (simp_all add: await_miss finish_flow_def next_demand_def)
  qed (use Flow_Await assms in \<open>simp add: await_miss finish_flow_def next_demand_def\<close>)
qed

lemma resumed_waits:
  assumes "propagates rest" and "resume f js = Some rest"
    and "finish_flow (run_flow E rest \<lparr>cx_workflow_id = i, cx_steps = js, cx_cursor = length js, cx_pending = None\<rparr>) = Inr t"
  shows "(\<exists>out. t = FT_Complete out) \<or> ft_journal t = js \<and> (\<exists>q k. rest = Flow_Await q k \<and> waits_at f i t q k)"
proof (cases rest)
  case (Flow_Return r)
  with assms(3) show ?thesis
    by (auto simp: finish_flow_def split: sum.splits wf_error.splits if_splits)
next
  case (Flow_Await q k)
  show ?thesis
  proof (cases "step_command i (length js + 1) q")
    case (Inl error)
    with Flow_Await assms(1,3) show ?thesis
      by (simp add: await_miss finish_flow_def)
  next
    case (Inr p)
    with Flow_Await assms(1,3) have "t = lowered js p"
      by (cases p) (simp_all add: await_miss finish_flow_def)
    moreover from this have "ft_journal t = js" by (cases p) simp_all
    ultimately show ?thesis using assms(2) Flow_Await Inr by (auto simp: waits_at_def)
  qed
qed

lemma flow_step_resumed:
  assumes "apply_event js event = Inr js'" and "resume f js' = Some rest"
  shows "flow_step E f i js event =
    finish_flow (run_flow E rest \<lparr>cx_workflow_id = i, cx_steps = js', cx_cursor = length js', cx_pending = None\<rparr>)"
  using assms run_resumed [of "WfCtx_new i js'" f rest E]
  by (simp add: flow_step_def WfCtx_new_def)

lemma ActivityCommand_new_key:
  "ActivityCommand_new A serialized key = Inr c \<Longrightarrow> ac_kind c = ad_kind A \<and> ac_version c = ad_version A"
  by (auto simp: ActivityCommand_new_def split: option.splits sum.splits if_splits)

lemma ChildWorkflowCommand_new_key:
  "ChildWorkflowCommand_new kind version input state = Inr c \<Longrightarrow> cc_kind c = kind \<and> cc_version c = version"
  by (auto simp: ChildWorkflowCommand_new_def split: option.splits sum.splits if_splits)

fun pending_key :: "pending_step \<Rightarrow> string \<times> i32 option" where
  "pending_key (Pend_Activity c) = (''activity:'' @ ac_kind c, Some (ac_version c))"
| "pending_key (Pend_Child c) = (''child:'' @ cc_kind c, Some (cc_version c))"
| "pending_key (Pend_Sleep _) = (''timer'', None)"

lemma step_command_key: "step_command i n q = Inr p \<Longrightarrow> pending_key p = step_key q"
proof (induction i n q rule: step_command.induct)
  case (1 i n A serialized d)
  then show ?case by (cases "ActivityCommand_new A serialized (step_operation_key i n)")
      (auto dest: ActivityCommand_new_key)
next
  case (2 i n A serialized d key)
  then show ?case by (cases "ActivityCommand_new A serialized (Some key)") (auto dest: ActivityCommand_new_key)
next
  case (3 i n kind version input state d key)
  then show ?case by (cases "ChildWorkflowCommand_new kind version input state"; cases key)
      (auto simp: with_deduplication_key_def dest: ChildWorkflowCommand_new_key)
qed auto

text \<open>The entry an event appends is the one the waiting step asks for, and it gives the step the answer of the event.\<close>

lemma answer_appends:
  assumes "answers (lowered js p) event" and "in_unsigned 32 (int (length js) + 1)" and "step_command i n q = Inr p"
  obtains e where "apply_event js event = Inr (js @ [e])" and "(je_step_kind e, je_step_version e) = step_key q"
    and "answer_of q (je_outcome e) = event_answer q event"
proof -
  have "\<exists>e. apply_event js event = Inr (js @ [e]) \<and> (je_step_kind e, je_step_version e) = pending_key p \<and>
      answer_of q (je_outcome e) = event_answer q event"
    using assms(1,2) step_command_key [OF assms(3)]
    by (cases q; cases p; cases event)
      (auto simp: apply_event_def apply_entry_def ensure_sequence_def u32_try_from_def activity_answer_def
        decode_recorded_def split: sum.splits)
  with that step_command_key [OF assms(3)] show thesis by metis
qed

text \<open>
  What a flow does is what its suspended code does: whenever a flow that propagates its errors
  waits for a step, replaying its journal leads to that step, with the command the step was given,
  and the events so far lead the specification there too.
\<close>

lemma flow_active_waits:
  assumes "flow_active E f i evs t" and "propagates f"
  shows "(\<exists>out. t = FT_Complete out) \<or>
    (\<exists>q k. waits_at f i t q k \<and> feed f evs = Some (Flow_Await q k) \<and> length (ft_journal t) = length evs)"
  using assms(1)
proof induction
  case (flow_begin t)
  then have "finish_flow (run_flow E f \<lparr>cx_workflow_id = i, cx_steps = [], cx_cursor = length ([] :: flow_journal),
      cx_pending = None\<rparr>) = Inr t"
    using flow_step_resumed [of "[]" Started "[]" f f E i]
    by (simp add: apply_event_def u32_try_from_def in_unsigned_def)
  with assms(2) resumed_waits [of f f "[]" E i t] show ?case by auto
next
  case (flow_next evs t event t')
  then obtain q k p where q: "waits_at f i t q k" "step_command i (length (ft_journal t) + 1) q = Inr p"
      "t = lowered (ft_journal t) p" and fed: "feed f evs = Some (Flow_Await q k)" "length (ft_journal t) = length evs"
    by (cases "\<exists>out. t = FT_Complete out") (auto simp: waits_at_def)
  have bound: "in_unsigned 32 (int (length (ft_journal t)) + 1)"
    using flow_next.hyps(3)
    by (auto simp: flow_step_def apply_event_def u32_try_from_def split: if_splits)
  obtain e where e: "apply_event (ft_journal t) event = Inr (ft_journal t @ [e])"
      "(je_step_kind e, je_step_version e) = step_key q" "answer_of q (je_outcome e) = event_answer q event"
    using answer_appends [OF _ bound q(2)] flow_next.hyps(2) q(3) by metis
  let ?rest = "k (event_answer q event)"
  have rest: "resume f (ft_journal t @ [e]) = Some ?rest"
    using q(1) e(2,3) by (simp add: waits_at_def resume_append)
  have "feed f (evs @ [event]) = Some ?rest" by (simp add: feed_append fed(1))
  moreover have "(\<exists>out. t' = FT_Complete out) \<or>
      ft_journal t' = ft_journal t @ [e] \<and> (\<exists>q' k'. ?rest = Flow_Await q' k' \<and> waits_at f i t' q' k')"
    using resumed_waits [OF propagates_resume [OF assms(2) rest] rest] flow_next.hyps(3)
      flow_step_resumed [OF e(1) rest] by metis
  ultimately show ?case using fed(2) by (metis length_append_singleton)
qed

text \<open>
  C33: replaying a flow is resuming it. The specification keeps the suspended code of a
  flow and feeds it the answer that each event brings, a decoded result, the failure of a child or
  the end of a sleep; it has no journal. The implementation keeps a journal and runs the flow from
  the top at every activation. For a flow that propagates suspensions and definition errors, and
  whatever events answered its steps before, the code fed with those events waits for a step, and the
  activation with the next answer demands exactly what that code demands when it is given that
  answer: the same next command, with the operation key of its position, the same output, or the
  same failure. So no step is asked twice or skipped, and no result reaches another step.
\<close>

theorem flow_replay_is_resumption:
  assumes "flow_active E f i evs t" and "propagates f" and "answers t event"
    and "in_unsigned 32 (int (length evs) + 1)"
  shows "\<exists>q k. feed f evs = Some (Flow_Await q k) \<and>
    map_sum id demand (flow_step E f i (ft_journal t) event) =
      next_demand E i (length evs + 2) (k (event_answer q event))"
proof -
  obtain q k p where q: "waits_at f i t q k" "step_command i (length (ft_journal t) + 1) q = Inr p"
      "t = lowered (ft_journal t) p" and fed: "feed f evs = Some (Flow_Await q k)" "length (ft_journal t) = length evs"
    using flow_active_waits [OF assms(1,2)] assms(3) by (auto simp: waits_at_def)
  obtain e where e: "apply_event (ft_journal t) event = Inr (ft_journal t @ [e])"
      "(je_step_kind e, je_step_version e) = step_key q" "answer_of q (je_outcome e) = event_answer q event"
    using answer_appends [OF _ _ q(2)] assms(3,4) q(3) fed(2) by metis
  have rest: "resume f (ft_journal t @ [e]) = Some (k (event_answer q event))"
    using q(1) e(2,3) by (simp add: waits_at_def resume_append)
  have "map_sum id demand (flow_step E f i (ft_journal t) event) = next_demand E i (length evs + 2) (k (event_answer q event))"
    unfolding flow_step_resumed [OF e(1) rest]
    using resumed_demand [OF propagates_resume [OF assms(2) rest], of E i "ft_journal t @ [e]"] fed(2) by simp
  with fed(1) show ?thesis by blast
qed

definition sample_step :: activity_definition where
  "sample_step = \<lparr>ad_kind = ''charge'', ad_version = 1, ad_topic = ''t'', ad_max_attempts = 3,
     ad_timeout = 1000, ad_lease_duration = 5000, ad_retry_policy = \<lparr>backoff = Fixed 5\<rparr>\<rparr>"

text \<open>A flow that charges, starts a child, and sleeps only if the child failed.\<close>

definition sample_flow :: flow_code where
  "sample_flow = Flow_Await (Req_Run sample_step (Some ''{}'') Inr) (\<lambda>r. case r of
     Inl e \<Rightarrow> Flow_Return (Inl e)
   | Inr charged \<Rightarrow> Flow_Await (Req_Child ''ship'' 1 (Some ''{}'') (Some ''{}'') Inr None) (\<lambda>shipped. case shipped of
       Inl (WF_ChildFailed kind category message) \<Rightarrow> Flow_Await (Req_Sleep 5000) (\<lambda>slept. case slept of
         Inl e \<Rightarrow> Flow_Return (Inl e) | Inr _ \<Rightarrow> Flow_Return (Inr category))
     | Inl e \<Rightarrow> Flow_Return (Inl e)
     | Inr _ \<Rightarrow> Flow_Return (Inr charged)))"

theorem flow_replay_is_resumption_witness:
  "\<exists>t t'. flow_step sample_externals sample_flow (Some 7) [] Started = Inr t \<and>
     flow_step sample_externals sample_flow (Some 7) (ft_journal t)
       (ActivitySucceeded 1 \<lparr>sr_kind = ''charge'', sr_version = 1, sr_output_json = ''9''\<rparr>) = Inr t' \<and>
     map_sum id demand (flow_step sample_externals sample_flow (Some 7) (ft_journal t')
       (ChildFailed 2 ''ship'' 1 ''lost'' ''at sea'')) = Inr (Demand_Step (Pend_Sleep 5000))"
proof -
  let ?E = sample_externals and ?f = sample_flow
  let ?charged = "ActivitySucceeded 1 \<lparr>sr_kind = ''charge'', sr_version = 1, sr_output_json = ''9''\<rparr>"
  let ?lost = "ChildFailed 2 ''ship'' 1 ''lost'' ''at sea''"
  define t where "t = projr (flow_step ?E ?f (Some 7) [] Started)"
  define t' where "t' = projr (flow_step ?E ?f (Some 7) (ft_journal t) ?charged)"
  have start: "flow_step ?E ?f (Some 7) [] Started = Inr t" unfolding t_def by code_simp
  have step: "flow_step ?E ?f (Some 7) (ft_journal t) ?charged = Inr t'" unfolding t'_def t_def by code_simp
  have ans: "answers t ?charged" "answers t' ?lost" unfolding t'_def t_def by code_simp+
  have good: "propagates ?f" by (simp add: sample_flow_def split: sum.split wf_error.split)
  have active: "flow_active ?E ?f (Some 7) [?charged] t'"
    using flow_next [OF flow_begin [OF start] ans(1) step] by simp
  from flow_replay_is_resumption [OF active good ans(2)] obtain q k where
    q: "feed ?f [?charged] = Some (Flow_Await q k)"
      "map_sum id demand (flow_step ?E ?f (Some 7) (ft_journal t') ?lost) = next_demand ?E (Some 7) 3 (k (event_answer q ?lost))"
    by (auto simp: in_unsigned_def numeral_3_eq_3)
  from q(1) have "next_demand ?E (Some 7) 3 (k (event_answer q ?lost)) = Inr (Demand_Step (Pend_Sleep 5000))"
    by (auto simp: sample_flow_def next_demand_def)
  with start step q(2) show ?thesis by auto
qed

end
