(* ===== verification/Task_Restarts.thy ===== *)
theory Task_Restarts
  imports Errors
begin

text \<open>
  When the supervisor restarts a failed task and when it stops the runtime
  (\<open>src/runtime/restart.rs\<close>): a backoff that doubles up to a cap, a budget of restarts within a window,
  and a limit on how long transient database errors may last. A \<open>Duration\<close> is a number of
  nanoseconds, an instant one since an arbitrary origin.
\<close>

section \<open>Policy and state\<close>

datatype task_failure_kind = Transient transience | Fault | Panic

fun tfk_panicked :: "task_failure_kind \<Rightarrow> bool" where
  "tfk_panicked Panic = True"
| "tfk_panicked (Transient _) = False"
| "tfk_panicked Fault = False"

fun tfk_as_str :: "task_failure_kind \<Rightarrow> string" where
  "tfk_as_str (Transient RolledBack) = ''transient_rolled_back''"
| "tfk_as_str (Transient Unavailable) = ''transient_unavailable''"
| "tfk_as_str Fault = ''fault''"
| "tfk_as_str Panic = ''panic''"

text \<open>The durations of \<open>RuntimeConfig\<close> the policy reads.\<close>

record restart_config =
  rcf_restart_backoff :: duration
  rcf_max_restart_backoff :: duration
  rcf_task_healthy_after :: duration
  rcf_max_task_restarts :: u32
  rcf_restart_window :: duration
  rcf_max_transient_outage :: duration

record restart_policy =
  rp_initial_backoff :: duration
  rp_max_backoff :: duration
  rp_healthy_after :: duration
  rp_max_restarts :: u32
  rp_window :: duration
  rp_max_transient_outage :: duration

definition RestartPolicy_new :: "restart_config \<Rightarrow> restart_policy" where
  "RestartPolicy_new config =
     \<lparr>rp_initial_backoff = rcf_restart_backoff config,
      rp_max_backoff = max (rcf_max_restart_backoff config) (rcf_restart_backoff config),
      rp_healthy_after = rcf_task_healthy_after config, rp_max_restarts = rcf_max_task_restarts config,
      rp_window = rcf_restart_window config, rp_max_transient_outage = rcf_max_transient_outage config\<rparr>"

datatype stop_reason =
  BudgetExhausted u32 duration
| TransientOutage duration duration
| Unrestartable

fun stop_reason_as_str :: "stop_reason \<Rightarrow> string" where
  "stop_reason_as_str (BudgetExhausted _ _) = ''restart_budget_exhausted''"
| "stop_reason_as_str (TransientOutage _ _) = ''transient_outage_exceeded''"
| "stop_reason_as_str Unrestartable = ''unrestartable_task_failed''"

datatype restart_decision = Restart_After duration | Stop stop_reason

record restart_budget =
  rb_count :: u32
  rb_window_started :: int

record task_restarts =
  tr_budget :: restart_budget
  tr_backoff :: duration
  tr_outage_started :: "int option"

text \<open>\<open>Duration::MAX\<close>: \<open>u64\<close> seconds and the nanoseconds below one.\<close>

definition DURATION_MAX :: duration where
  "DURATION_MAX = (2 ^ 64 - 1) * 1000000000 + 999999999"

definition saturating_duration_since :: "int \<Rightarrow> int \<Rightarrow> duration" where
  "saturating_duration_since now earlier = min DURATION_MAX (max 0 (now - earlier))"

definition RestartBackoff_advance :: "duration \<Rightarrow> duration \<Rightarrow> duration \<times> duration" where
  "RestartBackoff_advance following cap = (following, min (min DURATION_MAX (following + following)) cap)"

definition RestartBudget_new :: "int \<Rightarrow> restart_budget" where
  "RestartBudget_new now = \<lparr>rb_count = 0, rb_window_started = now\<rparr>"

definition RestartBudget_record ::
    "restart_budget \<Rightarrow> int \<Rightarrow> duration \<Rightarrow> u32 \<Rightarrow> bool \<times> restart_budget" where
  "RestartBudget_record budget now window max_restarts =
     (let opened = (if saturating_duration_since now (rb_window_started budget) > window
                    then \<lparr>rb_count = 0, rb_window_started = now\<rparr> else budget);
          counted = opened\<lparr>rb_count := min (rb_count opened + 1) max_u32\<rparr>
      in (rb_count counted \<le> max_restarts, counted))"

definition TaskRestarts_new :: "int \<Rightarrow> restart_policy \<Rightarrow> task_restarts" where
  "TaskRestarts_new now policy =
     \<lparr>tr_budget = RestartBudget_new now, tr_backoff = rp_initial_backoff policy, tr_outage_started = None\<rparr>"

definition on_failure ::
    "task_restarts \<Rightarrow> int \<Rightarrow> duration \<Rightarrow> task_failure_kind \<Rightarrow> restart_policy \<Rightarrow> restart_decision \<times> task_restarts" where
  "on_failure task now ran_for kind policy =
     (let t = (if ran_for \<ge> rp_healthy_after policy
               then task\<lparr>tr_backoff := rp_initial_backoff policy, tr_outage_started := None\<rparr> else task)
      in case kind of
           Transient _ \<Rightarrow>
             (let started = (case tr_outage_started t of None \<Rightarrow> now | Some i \<Rightarrow> i);
                  t = t\<lparr>tr_outage_started := Some started\<rparr>;
                  lasted = saturating_duration_since now started
              in if lasted > rp_max_transient_outage policy
                 then (Stop (TransientOutage lasted (rp_max_transient_outage policy)), t)
                 else (case RestartBackoff_advance (tr_backoff t) (rp_max_backoff policy) of
                         (delay, following) \<Rightarrow> (Restart_After delay, t\<lparr>tr_backoff := following\<rparr>)))
         | _ \<Rightarrow>
             (case RestartBudget_record (tr_budget t) now (rp_window policy) (rp_max_restarts policy) of
                (allowed, budget) \<Rightarrow>
                  let t = t\<lparr>tr_budget := budget\<rparr> in
                  if \<not> allowed
                  then (Stop (BudgetExhausted (rp_max_restarts policy) (rp_window policy)), t)
                  else (case RestartBackoff_advance (tr_backoff t) (rp_max_backoff policy) of
                          (delay, following) \<Rightarrow> (Restart_After delay, t\<lparr>tr_backoff := following\<rparr>))))"

section \<open>A sequence of failures\<close>

record task_failure =
  tf_at :: int
  tf_ran_for :: duration
  tf_kind :: task_failure_kind

text \<open>The delays of the restarts, as long as the runtime goes on; \<open>None\<close> once it was stopped.\<close>

fun restarted_through ::
    "restart_policy \<Rightarrow> task_restarts \<Rightarrow> task_failure list \<Rightarrow> (duration list \<times> task_restarts) option" where
  "restarted_through policy t [] = Some ([], t)"
| "restarted_through policy t (f # fs) =
     (case on_failure t (tf_at f) (tf_ran_for f) (tf_kind f) policy of
        (Stop _, _) \<Rightarrow> None
      | (Restart_After delay, t') \<Rightarrow>
          map_option (\<lambda>(delays, t''). (delay # delays, t'')) (restarted_through policy t' fs))"

definition is_fault :: "task_failure \<Rightarrow> bool" where
  "is_fault f \<longleftrightarrow> (case tf_kind f of Transient _ \<Rightarrow> False | _ \<Rightarrow> True)"

fun budget_allows :: "restart_policy \<Rightarrow> restart_budget \<Rightarrow> int list \<Rightarrow> bool" where
  "budget_allows policy b [] = True"
| "budget_allows policy b (t # ts) =
     (case RestartBudget_record b t (rp_window policy) (rp_max_restarts policy) of
        (allowed, b') \<Rightarrow> allowed \<and> budget_allows policy b' ts)"

text \<open>Only faults and panics touch the budget.\<close>

lemma on_failure_budget:
  assumes "on_failure t (tf_at f) (tf_ran_for f) (tf_kind f) policy = (Restart_After d, t')"
  shows "if is_fault f
    then RestartBudget_record (tr_budget t) (tf_at f) (rp_window policy) (rp_max_restarts policy) = (True, tr_budget t')
    else tr_budget t' = tr_budget t"
  using assms
  by (cases "tf_kind f")
    (auto simp: on_failure_def is_fault_def Let_def RestartBackoff_advance_def split: if_splits prod.splits)

lemma restarted_budget:
  assumes "restarted_through policy t fs = Some (delays, t')"
  shows "budget_allows policy (tr_budget t) (map tf_at (filter is_fault fs))"
  using assms
proof (induction fs arbitrary: t delays)
  case (Cons f fs)
  then obtain d t1 rest where step: "on_failure t (tf_at f) (tf_ran_for f) (tf_kind f) policy = (Restart_After d, t1)"
    and rest: "restarted_through policy t1 fs = Some (rest, t')"
    by (auto split: prod.splits restart_decision.splits)
  from on_failure_budget [OF step] Cons.IH [OF rest] show ?case by (auto split: if_splits)
qed simp

section \<open>The budget in any window\<close>

definition upto :: "int \<Rightarrow> int list \<Rightarrow> nat" where
  "upto b ts = length (filter (\<lambda>t. t \<le> b) ts)"

lemma since_simps: "\<lbrakk>earlier \<le> now; window < DURATION_MAX\<rbrakk> \<Longrightarrow>
    window < saturating_duration_since now earlier \<longleftrightarrow> earlier + window < now"
  by (auto simp: saturating_duration_since_def min_def max_def)

lemma same_window:
  assumes "budget_allows policy b ts" and "sorted ts" and "\<forall>t\<in>set ts. rb_window_started b \<le> t"
    and "rp_window policy < DURATION_MAX" and "rp_max_restarts policy < max_u32" and "0 \<le> rb_count b"
    and "x \<le> rb_window_started b + rp_window policy"
  shows "upto x ts = 0 \<or> rb_count b + int (upto x ts) \<le> rp_max_restarts policy"
  using assms
proof (induction ts arbitrary: b)
  case (Cons t ts)
  show ?case
  proof (cases "t \<le> x")
    case True
    with Cons.prems have "\<not> rp_window policy < saturating_duration_since t (rb_window_started b)"
      by (simp add: since_simps)
    with Cons.prems(1) have rec: "rb_count b + 1 \<le> rp_max_restarts policy"
      "budget_allows policy (b\<lparr>rb_count := rb_count b + 1\<rparr>) ts"
      using Cons.prems(5) by (auto simp: RestartBudget_record_def Let_def min_def split: if_splits)
    from Cons.IH [OF rec(2)] Cons.prems have "upto x ts = 0 \<or> rb_count b + 1 + int (upto x ts) \<le> rp_max_restarts policy"
      by simp
    with True rec(1) show ?thesis by (auto simp: upto_def)
  next
    case False
    with Cons.prems(2) have "upto x (t # ts) = 0" by (auto simp: upto_def filter_empty_conv)
    then show ?thesis by simp
  qed
qed (simp add: upto_def)

lemma two_windows:
  assumes "budget_allows policy b ts" and "sorted ts" and "\<forall>t\<in>set ts. rb_window_started b \<le> t"
    and "rp_window policy < DURATION_MAX" and "rp_max_restarts policy < max_u32" and "0 \<le> rb_count b"
    and "rb_count b \<le> rp_max_restarts policy" and "\<forall>t\<in>set ts. x \<le> t + rp_window policy"
  shows "rb_count b + int (upto x ts) \<le> 2 * rp_max_restarts policy"
  using assms
proof (induction ts arbitrary: b)
  case (Cons t ts)
  obtain b' where rec: "RestartBudget_record b t (rp_window policy) (rp_max_restarts policy) = (True, b')"
    and rest: "budget_allows policy b' ts"
    using Cons.prems(1) by (auto split: prod.splits)
  show ?case
  proof (cases "rb_window_started b + rp_window policy < t")
    case True
    with rec Cons.prems(3,4) have b': "rb_count b' = 1" "rb_window_started b' = t" "1 \<le> rp_max_restarts policy"
      by (auto simp: RestartBudget_record_def Let_def since_simps max_u32_def)
    have "upto x ts = 0 \<or> rb_count b' + int (upto x ts) \<le> rp_max_restarts policy"
      by (rule same_window [OF rest]) (use Cons.prems b' in auto)
    with b' have "int (upto x (t # ts)) \<le> rp_max_restarts policy" by (auto simp: upto_def)
    with Cons.prems(7) show ?thesis by simp
  next
    case False
    with rec Cons.prems(3,4,5) have b': "rb_count b' = rb_count b + 1" "rb_window_started b' = rb_window_started b"
      "rb_count b + 1 \<le> rp_max_restarts policy"
      by (auto simp: RestartBudget_record_def Let_def since_simps min_def split: if_splits)
    have "rb_count b' + int (upto x ts) \<le> 2 * rp_max_restarts policy"
      by (rule Cons.IH [OF rest]) (use Cons.prems b' in auto)
    with b'(1) show ?thesis by (auto simp: upto_def)
  qed
qed (simp add: upto_def)

lemma budget_in_window:
  assumes "budget_allows policy b ts" and "sorted ts" and "\<forall>t\<in>set ts. rb_window_started b \<le> t"
    and "rp_window policy < DURATION_MAX" and "0 \<le> rp_max_restarts policy" and "rp_max_restarts policy < max_u32"
    and "0 \<le> rb_count b" and "rb_count b \<le> rp_max_restarts policy"
  shows "int (length (filter (\<lambda>t. a \<le> t \<and> t \<le> a + rp_window policy) ts)) \<le> 2 * rp_max_restarts policy"
  using assms
proof (induction ts arbitrary: b)
  case (Cons t ts)
  show ?case
  proof (cases "t < a")
    case True
    obtain b' where rec: "RestartBudget_record b t (rp_window policy) (rp_max_restarts policy) = (True, b')"
      and rest: "budget_allows policy b' ts"
      using Cons.prems(1) by (auto split: prod.splits)
    from rec Cons.prems have "rb_window_started b' \<le> t" "0 \<le> rb_count b'" "rb_count b' \<le> rp_max_restarts policy"
      by (auto simp: RestartBudget_record_def Let_def max_u32_def min_def split: if_splits)
    with Cons.IH [OF rest] Cons.prems True show ?thesis by fastforce
  next
    case False
    with Cons.prems(2) have "filter (\<lambda>t. a \<le> t \<and> t \<le> a + rp_window policy) (t # ts) =
        filter (\<lambda>t. t \<le> a + rp_window policy) (t # ts)"
      by (intro filter_cong) auto
    moreover have "rb_count b + int (upto (a + rp_window policy) (t # ts)) \<le> 2 * rp_max_restarts policy"
      by (rule two_windows) (use Cons.prems False in auto)
    ultimately show ?thesis using Cons.prems(7) by (simp only: upto_def)
  qed
qed simp

text \<open>
  C34: restarts are rationed. A task that starts at \<open>start\<close> and is restarted after every one of a
  sequence of failures had at most twice its budget of faults and panics in any interval as long
  as its window, however they are spread; transient database errors do not spend the budget.
\<close>

theorem restarts_are_rationed:
  assumes "restarted_through policy (TaskRestarts_new start policy) failures = Some (delays, t)"
    and "sorted (map tf_at failures)" and "\<forall>f\<in>set failures. start \<le> tf_at f"
    and "rp_window policy < DURATION_MAX" and "0 \<le> rp_max_restarts policy" and "rp_max_restarts policy < max_u32"
  shows "int (length (filter (\<lambda>f. is_fault f \<and> a \<le> tf_at f \<and> tf_at f \<le> a + rp_window policy) failures))
    \<le> 2 * rp_max_restarts policy"
proof -
  have "sorted (map tf_at (filter is_fault failures))" using assms(2) by (rule sorted_filter)
  moreover have "\<forall>t\<in>set (map tf_at (filter is_fault failures)). start \<le> t" using assms(3) by auto
  ultimately have "int (length (filter (\<lambda>t. a \<le> t \<and> t \<le> a + rp_window policy) (map tf_at (filter is_fault failures))))
      \<le> 2 * rp_max_restarts policy"
    by (intro budget_in_window [OF restarted_budget [OF assms(1)]])
      (use assms(4-6) in \<open>simp_all add: TaskRestarts_new_def RestartBudget_new_def\<close>)
  then show ?thesis by (simp add: filter_map o_def filter_filter conj_ac)
qed

section \<open>The delays\<close>

text \<open>How many failures, the last included, since a run that was healthy.\<close>

fun unhealthy_run :: "restart_policy \<Rightarrow> nat \<Rightarrow> task_failure list \<Rightarrow> nat list" where
  "unhealthy_run policy n [] = []"
| "unhealthy_run policy n (f # fs) =
     (let k = (if tf_ran_for f \<ge> rp_healthy_after policy then 0 else n) in k # unhealthy_run policy (Suc k) fs)"

definition doubled :: "restart_policy \<Rightarrow> nat \<Rightarrow> duration" where
  "doubled policy k = min (rp_max_backoff policy) (rp_initial_backoff policy * 2 ^ k)"

lemma doubled_Suc:
  assumes "0 < rp_initial_backoff policy" and "rp_max_backoff policy \<le> DURATION_MAX"
    and "rp_initial_backoff policy \<le> rp_max_backoff policy"
  shows "snd (RestartBackoff_advance (doubled policy k) (rp_max_backoff policy)) = doubled policy (Suc k)"
proof -
  have "0 < rp_initial_backoff policy * 2 ^ k" using assms(1) by simp
  with assms show ?thesis unfolding RestartBackoff_advance_def doubled_def min_def by auto
qed

text \<open>
  The delay before a restart starts at the configured backoff, doubles with every
  further failure and never exceeds the cap; a run that lasted long enough to count as
  healthy starts it again. The capped, saturating doubling of the code is \<open>initial \<cdot> 2\<^sup>k\<close>
  up to the cap, where \<open>k\<close> counts the failures since the last healthy run.
\<close>

lemma restart_delay_doubles:
  assumes "restarted_through policy (TaskRestarts_new start policy) failures = Some (delays, t)"
    and "policy = RestartPolicy_new config" and "0 < rcf_restart_backoff config"
    and "rcf_restart_backoff config \<le> DURATION_MAX" and "rcf_max_restart_backoff config \<le> DURATION_MAX"
  shows "delays = map (doubled policy) (unhealthy_run policy 0 failures)"
proof -
  have pol: "0 < rp_initial_backoff policy" "rp_max_backoff policy \<le> DURATION_MAX"
    "rp_initial_backoff policy \<le> rp_max_backoff policy"
    using assms(2-5) by (simp_all add: RestartPolicy_new_def)
  have zero: "doubled policy 0 = rp_initial_backoff policy" using pol(3) by (simp add: doubled_def)
  have "delays = map (doubled policy) (unhealthy_run policy n failures)"
    if "restarted_through policy task failures = Some (delays, t)" and "tr_backoff task = doubled policy n" for task n
    using that
  proof (induction failures arbitrary: task n delays)
    case (Cons f fs)
    then obtain d t1 rest where
      step: "on_failure task (tf_at f) (tf_ran_for f) (tf_kind f) policy = (Restart_After d, t1)"
      and rest: "restarted_through policy t1 fs = Some (rest, t)" and delays: "delays = d # rest"
      by (auto split: prod.splits restart_decision.splits)
    define k where "k = (if tf_ran_for f \<ge> rp_healthy_after policy then 0 else n)"
    have "d = doubled policy k \<and> tr_backoff t1 = snd (RestartBackoff_advance (doubled policy k) (rp_max_backoff policy))"
      using step Cons.prems(2) zero
      by (cases "tf_kind f")
        (auto simp: on_failure_def Let_def k_def RestartBackoff_advance_def split: if_splits prod.splits)
    with doubled_Suc [OF pol] Cons.IH [OF rest] delays show ?case by (simp add: k_def Let_def)
  qed simp
  from this [OF assms(1), of 0] zero show ?thesis by (simp add: TaskRestarts_new_def)
qed

definition sample_restart_config :: restart_config where
  "sample_restart_config = \<lparr>rcf_restart_backoff = 10, rcf_max_restart_backoff = 35, rcf_task_healthy_after = 1000,
     rcf_max_task_restarts = 2, rcf_restart_window = 100, rcf_max_transient_outage = 500\<rparr>"

definition sample_failures :: "task_failure list" where
  "sample_failures =
     [\<lparr>tf_at = 10, tf_ran_for = 10, tf_kind = Fault\<rparr>, \<lparr>tf_at = 40, tf_ran_for = 20, tf_kind = Transient Unavailable\<rparr>,
      \<lparr>tf_at = 90, tf_ran_for = 20, tf_kind = Panic\<rparr>, \<lparr>tf_at = 150, tf_ran_for = 20, tf_kind = Fault\<rparr>,
      \<lparr>tf_at = 1200, tf_ran_for = 1010, tf_kind = Fault\<rparr>]"

theorem restarts_are_rationed_witness:
  "int (length (filter (\<lambda>f. is_fault f \<and> 80 \<le> tf_at f \<and> tf_at f \<le> 80 + 100) sample_failures)) \<le> 2 * 2"
proof -
  let ?p = "RestartPolicy_new sample_restart_config"
  obtain delays t where "restarted_through ?p (TaskRestarts_new 0 ?p) sample_failures = Some (delays, t)"
    and "rp_window ?p = 100" "rp_max_restarts ?p = 2"
  proof -
    have "restarted_through ?p (TaskRestarts_new 0 ?p) sample_failures \<noteq> None" "rp_window ?p = 100"
      "rp_max_restarts ?p = 2" by code_simp+
    then show thesis using that by auto
  qed
  from restarts_are_rationed [OF this(1), of 80] this(2,3) show ?thesis
    by (simp add: sample_failures_def DURATION_MAX_def max_u32_def)
qed

end
