(* ===== verification/Execution_Manager.thy ===== *)
theory Execution_Manager
  imports Task_Restarts
begin

text \<open>
  The manager of running activity executions (\<open>ActivityExecutionManager\<close> and
  \<open>collect_activity_executions\<close> of \<open>src/runtime/supervisor.rs\<close>): one task that owns the
  executions of every dispatcher, counts them per topic and per dispatcher, queues one failure
  per dispatcher and keeps the others for the end. Its loop is a fold over the events its
  \<open>select\<close> sees: an execution that ended, a command, or the closed channel. Task ids come from
  tokio, which gives every live task an id of its own.
\<close>

section \<open>Failures\<close>

text \<open>\<open>JoinError\<close> of tokio: a panic or an abort, with its text.\<close>

record join_failure =
  jf_is_panic :: bool
  jf_text :: string

record task_fault =
  rtf_message :: string
  rtf_kind :: task_failure_kind

definition RuntimeTaskFailure_fault :: "string \<Rightarrow> task_fault" where
  "RuntimeTaskFailure_fault message = \<lparr>rtf_message = message, rtf_kind = Fault\<rparr>"

text \<open>\<open>display\<close> is the \<open>Display\<close> text of the error.\<close>

definition RuntimeTaskFailure_from :: "(durable_error \<Rightarrow> string) \<Rightarrow> durable_error \<Rightarrow> task_fault" where
  "RuntimeTaskFailure_from display error =
     \<lparr>rtf_message = display error,
      rtf_kind = (case transience_of error of None \<Rightarrow> Fault | Some t \<Rightarrow> Transient t)\<rparr>"

definition of_join_error :: "join_failure \<Rightarrow> task_failure_kind" where
  "of_join_error error = (if jf_is_panic error then Panic else Fault)"

definition activity_execution_manager_unavailable :: task_fault where
  "activity_execution_manager_unavailable = RuntimeTaskFailure_fault ''activity execution manager is unavailable''"

section \<open>State\<close>

record execution_task =
  et_topic :: string
  et_dispatcher_generation :: nat

record execution_snapshot =
  sn_total :: nat
  sn_active_by_topic :: "string \<rightharpoonup> nat"

record execution_collector =
  ec_executions :: "nat list"
  ec_tasks_by_id :: "nat \<rightharpoonup> execution_task"
  ec_active_by_dispatcher :: "nat \<rightharpoonup> nat"
  ec_failed_dispatchers :: "nat set"
  ec_snapshot :: execution_snapshot
  ec_failures :: "task_fault list"
  ec_supplemental_failures :: "task_fault list"
  ec_shutting_down :: bool
  ec_shutdown_response :: bool
  ec_changes :: u64

definition empty_collector :: execution_collector where
  "empty_collector =
     \<lparr>ec_executions = [], ec_tasks_by_id = Map.empty, ec_active_by_dispatcher = Map.empty,
      ec_failed_dispatchers = {}, ec_snapshot = \<lparr>sn_total = 0, sn_active_by_topic = Map.empty\<rparr>,
      ec_failures = [], ec_supplemental_failures = [], ec_shutting_down = False,
      ec_shutdown_response = False, ec_changes = 0\<rparr>"

text \<open>How an execution ended: its own result, or a panic or abort of its task.\<close>

datatype execution_end = Ended_Ok | Ended_Err durable_error | Ended_Join join_failure

text \<open>
  The future of a spawned execution is the program's; \<open>task_id\<close> is the id tokio gives its
  task. \<open>listening\<close> says whether the sender of a request still waits for the response.
\<close>

datatype execution_command =
  Spawn (spawn_topic: string) (spawn_generation: nat) (spawn_id: nat)
| Snapshot
| TakeFailure bool
| Shutdown

datatype execution_response =
  SpawnResponse "task_fault + unit"
| SnapshotResponse execution_snapshot
| FailureResponse "task_fault option"
| NoResponse

section \<open>Operations\<close>

definition is_panic_fault :: "task_fault \<Rightarrow> bool" where
  "is_panic_fault f = tfk_panicked (rtf_kind f)"

definition take_activity_execution_failure :: "task_fault list \<Rightarrow> task_fault option \<times> task_fault list" where
  "take_activity_execution_failure failures =
     (case failures of
        [] \<Rightarrow> (None, [])
      | failure # rest \<Rightarrow>
          let additional = length rest;
              failure = (if list_ex is_panic_fault rest then failure\<lparr>rtf_kind := Panic\<rparr> else failure);
              failure = (if additional > 0
                then failure\<lparr>rtf_message := rtf_message failure @ ''; '' @ dec_int (int additional) @
                       '' additional activity execution '' @ (if additional = 1 then ''task'' else ''tasks'') @
                       '' failed''\<rparr>
                else failure)
          in (Some failure, []))"

text \<open>\<open>remove\<close> of a \<open>HashMap\<close> and the counters that must not fall below zero.\<close>

definition checked_decrement :: "nat \<Rightarrow> nat option" where
  "checked_decrement n = (if n = 0 then None else Some (n - 1))"

definition note_failure :: "nat \<Rightarrow> task_fault \<Rightarrow> execution_collector \<Rightarrow> execution_collector" where
  "note_failure generation failure c =
     (if generation \<notin> ec_failed_dispatchers c
      then c\<lparr>ec_failed_dispatchers := insert generation (ec_failed_dispatchers c),
             ec_failures := ec_failures c @ [failure]\<rparr>
      else c\<lparr>ec_supplemental_failures := ec_supplemental_failures c @ [failure]\<rparr>)"

definition join_fault :: "join_failure \<Rightarrow> task_fault" where
  "join_fault error =
     \<lparr>rtf_message = ''activity execution task failed: '' @ jf_text error, rtf_kind = of_join_error error\<rparr>"

definition release_group :: "nat \<Rightarrow> execution_collector \<Rightarrow> task_fault + execution_collector" where
  "release_group generation c =
     (case ec_active_by_dispatcher c generation of
        None \<Rightarrow> Inl activity_execution_manager_unavailable
      | Some group_active \<Rightarrow>
          (case checked_decrement group_active of
             None \<Rightarrow> Inl activity_execution_manager_unavailable
           | Some n \<Rightarrow> Inr (c\<lparr>ec_active_by_dispatcher :=
               (if n = 0 then (ec_active_by_dispatcher c)(generation := None)
                else (ec_active_by_dispatcher c)(generation \<mapsto> n))\<rparr>)))"

definition collect_activity_execution_result ::
    "nat \<Rightarrow> execution_end \<Rightarrow> execution_collector \<Rightarrow> task_fault + execution_collector" where
  "collect_activity_execution_result task_id result c =
     (case ec_tasks_by_id c task_id of
        None \<Rightarrow> Inl (RuntimeTaskFailure_fault (''activity execution task '' @ dec_int (int task_id) @ '' had no topic record''))
      | Some task \<Rightarrow>
     (case checked_decrement (sn_total (ec_snapshot c)) of
        None \<Rightarrow> Inl activity_execution_manager_unavailable
      | Some others \<Rightarrow>
     (case sn_active_by_topic (ec_snapshot c) (et_topic task) of
        None \<Rightarrow> Inl (RuntimeTaskFailure_fault (''activity execution topic '' @ et_topic task @ '' had no active count''))
      | Some active \<Rightarrow>
     (case checked_decrement active of
        None \<Rightarrow> Inl activity_execution_manager_unavailable
      | Some remaining \<Rightarrow>
          let c1 = c\<lparr>ec_tasks_by_id := (ec_tasks_by_id c)(task_id := None),
                    ec_snapshot := \<lparr>sn_total = others,
                      sn_active_by_topic = (sn_active_by_topic (ec_snapshot c))(et_topic task \<mapsto> remaining)\<rparr>\<rparr>;
              c2 = (case result of
                      Ended_Join error \<Rightarrow> note_failure (et_dispatcher_generation task) (join_fault error) c1
                    | _ \<Rightarrow> c1)
          in release_group (et_dispatcher_generation task) c2))))"

definition bump_changes :: "execution_collector \<Rightarrow> execution_collector" where
  "bump_changes c = c\<lparr>ec_changes := (ec_changes c + 1) mod 2 ^ 64\<rparr>"

definition count_up :: "'a \<Rightarrow> ('a \<rightharpoonup> nat) \<Rightarrow> 'a \<rightharpoonup> nat" where
  "count_up k m = m(k \<mapsto> (case m k of None \<Rightarrow> 1 | Some n \<Rightarrow> n + 1))"

definition receive_command :: "execution_command \<Rightarrow> execution_collector \<Rightarrow> execution_collector \<times> execution_response" where
  "receive_command command c =
     (case command of
        Spawn topic generation task_id \<Rightarrow>
          if ec_shutting_down c
          then (c, SpawnResponse (Inl (RuntimeTaskFailure_fault ''activity execution manager is shutting down'')))
          else
            (bump_changes (c\<lparr>ec_executions := ec_executions c @ [task_id],
               ec_tasks_by_id := (ec_tasks_by_id c)(task_id \<mapsto>
                 \<lparr>et_topic = topic, et_dispatcher_generation = generation\<rparr>),
               ec_active_by_dispatcher := count_up generation (ec_active_by_dispatcher c),
               ec_snapshot := \<lparr>sn_total = sn_total (ec_snapshot c) + 1,
                 sn_active_by_topic = count_up topic (sn_active_by_topic (ec_snapshot c))\<rparr>\<rparr>),
             SpawnResponse (Inr ()))
      | Snapshot \<Rightarrow> (c, SnapshotResponse (ec_snapshot c))
      | TakeFailure listening \<Rightarrow>
          (case take_activity_execution_failure (ec_failures c) of
             (failure, rest) \<Rightarrow>
               (case failure of
                  Some f \<Rightarrow> if listening then (c\<lparr>ec_failures := rest\<rparr>, FailureResponse failure)
                            else (c\<lparr>ec_failures := f # rest\<rparr>, NoResponse)
                | None \<Rightarrow> (c\<lparr>ec_failures := rest\<rparr>, if listening then FailureResponse None else NoResponse)))
      | Shutdown \<Rightarrow> (c\<lparr>ec_shutting_down := True, ec_shutdown_response := True\<rparr>, NoResponse))"

definition finish_activity_execution_collection :: "task_fault list \<Rightarrow> task_fault + unit" where
  "finish_activity_execution_collection failures =
     (case failures of [] \<Rightarrow> Inr () | first_failure # _ \<Rightarrow> Inl first_failure)"

datatype collector_event = Joined nat execution_end | Received execution_command | Closed

definition collector_step ::
    "collector_event \<Rightarrow> execution_collector \<Rightarrow> task_fault + execution_collector \<times> execution_response" where
  "collector_step event c =
     (case event of
        Joined task_id result \<Rightarrow>
          (case collect_activity_execution_result task_id result
                  (c\<lparr>ec_executions := filter (\<lambda>i. i \<noteq> task_id) (ec_executions c)\<rparr>) of
             Inl f \<Rightarrow> Inl f
           | Inr c' \<Rightarrow> Inr (bump_changes c', NoResponse))
      | Received command \<Rightarrow> Inr (receive_command command c)
      | Closed \<Rightarrow> Inl (RuntimeTaskFailure_fault ''activity execution manager command channel closed''))"

text \<open>
  The loop: it returns when it is shutting down and no execution is left, and waits when no
  event has come yet. The second component is what was answered so far.
\<close>

datatype collecting = Waiting execution_collector | Collected "task_fault + unit"

fun collect_activity_executions ::
    "collector_event list \<Rightarrow> execution_collector \<Rightarrow> collecting \<times> execution_response list" where
  "collect_activity_executions events c =
     (if ec_shutting_down c \<and> ec_executions c = []
      then (Collected (finish_activity_execution_collection (ec_failures c @ ec_supplemental_failures c)), [])
      else
        (case events of
           [] \<Rightarrow> (Waiting c, [])
         | event # rest \<Rightarrow>
             (case collector_step event c of
                Inl f \<Rightarrow> (Collected (Inl f), [])
              | Inr (c', response) \<Rightarrow>
                  (case collect_activity_executions rest c' of (r, responses) \<Rightarrow> (r, response # responses)))))"

declare collect_activity_executions.simps [simp del]


section \<open>The counters are exact\<close>

definition counted :: "('a \<rightharpoonup> nat) \<Rightarrow> 'a \<Rightarrow> nat" where
  "counted m k = (case m k of None \<Rightarrow> 0 | Some n \<Rightarrow> n)"

text \<open>The executions whose record has a given attribute.\<close>

definition running_with :: "(execution_task \<Rightarrow> 'a) \<Rightarrow> execution_collector \<Rightarrow> 'a \<Rightarrow> nat" where
  "running_with f c k = length (filter (\<lambda>i. map_option f (ec_tasks_by_id c i) = Some k) (ec_executions c))"

definition collector_ok :: "execution_collector \<Rightarrow> bool" where
  "collector_ok c \<longleftrightarrow>
     distinct (ec_executions c) \<and> dom (ec_tasks_by_id c) = set (ec_executions c) \<and>
     sn_total (ec_snapshot c) = length (ec_executions c) \<and>
     (\<forall>topic. counted (sn_active_by_topic (ec_snapshot c)) topic = running_with et_topic c topic) \<and>
     (\<forall>g. counted (ec_active_by_dispatcher c) g = running_with et_dispatcher_generation c g) \<and>
     (\<forall>g. ec_active_by_dispatcher c g \<noteq> Some 0)"

text \<open>
  What tokio guarantees of the events: only a running execution ends, and a new task has an
  id no running one has.
\<close>

fun event_ok :: "execution_collector \<Rightarrow> collector_event \<Rightarrow> bool" where
  "event_ok c (Joined i result) \<longleftrightarrow> i \<in> set (ec_executions c)"
| "event_ok c (Received (Spawn topic generation i)) \<longleftrightarrow> i \<notin> set (ec_executions c)"
| "event_ok c (Received command) \<longleftrightarrow> True"
| "event_ok c Closed \<longleftrightarrow> False"

lemma counted_simps [simp]:
  "counted (m(k \<mapsto> n)) j = (if j = k then n else counted m j)"
  "counted (m(k := None)) j = (if j = k then 0 else counted m j)"
  "counted (count_up k m) j = (if j = k then Suc (counted m k) else counted m j)"
  "counted Map.empty j = 0"
  by (auto simp: counted_def count_up_def split: option.split)

lemma checked_decrement_Some [simp]: "checked_decrement n = Some m \<longleftrightarrow> n = Suc m"
  by (cases n) (auto simp: checked_decrement_def)

lemma checked_decrement_Suc [simp]: "checked_decrement (Suc n) = Some n"
  by simp

lemma checked_decrement_None [simp]: "checked_decrement n = None \<longleftrightarrow> n = 0"
  by (simp add: checked_decrement_def)

lemma length_filter_remove:
  assumes "distinct xs" and "x \<in> set xs"
  shows "length (filter (\<lambda>i. i \<noteq> x) xs) = length xs - 1"
    and "length (filter P (filter (\<lambda>i. i \<noteq> x) xs)) = length (filter P xs) - (if P x then 1 else 0)"
proof -
  have remove: "filter (\<lambda>i. i \<noteq> x) xs = remove1 x xs"
    using assms(1) by (simp add: distinct_remove1_removeAll removeAll_filter_not_eq eq_commute)
  show "length (filter (\<lambda>i. i \<noteq> x) xs) = length xs - 1" using assms(2) by (simp add: remove length_remove1)
  show "length (filter P (filter (\<lambda>i. i \<noteq> x) xs)) = length (filter P xs) - (if P x then 1 else 0)"
    using assms(2) by (simp add: remove filter_remove1 length_remove1)
qed

lemma running_spawn:
  assumes "i \<notin> set (ec_executions c)"
  shows "running_with f (c\<lparr>ec_executions := ec_executions c @ [i], ec_tasks_by_id := (ec_tasks_by_id c)(i \<mapsto> t)\<rparr>) k =
    running_with f c k + (if f t = k then 1 else 0)"
proof -
  have "filter (\<lambda>j. map_option f (((ec_tasks_by_id c)(i \<mapsto> t)) j) = Some k) (ec_executions c) =
      filter (\<lambda>j. map_option f (ec_tasks_by_id c j) = Some k) (ec_executions c)"
    using assms by (intro filter_cong) auto
  then show ?thesis by (simp add: running_with_def)
qed

lemma running_join:
  assumes "distinct (ec_executions c)" and "i \<in> set (ec_executions c)" and "ec_tasks_by_id c i = Some t"
  shows "running_with f (c\<lparr>ec_executions := filter (\<lambda>j. j \<noteq> i) (ec_executions c),
      ec_tasks_by_id := (ec_tasks_by_id c)(i := None)\<rparr>) k =
    running_with f c k - (if f t = k then 1 else 0)"
    and "f t = k \<Longrightarrow> 0 < running_with f c k"
proof -
  have "filter (\<lambda>j. map_option f (((ec_tasks_by_id c)(i := None)) j) = Some k) (filter (\<lambda>j. j \<noteq> i) (ec_executions c)) =
      filter (\<lambda>j. map_option f (ec_tasks_by_id c j) = Some k) (filter (\<lambda>j. j \<noteq> i) (ec_executions c))"
    by (intro filter_cong) auto
  then show "running_with f (c\<lparr>ec_executions := filter (\<lambda>j. j \<noteq> i) (ec_executions c),
      ec_tasks_by_id := (ec_tasks_by_id c)(i := None)\<rparr>) k =
    running_with f c k - (if f t = k then 1 else 0)"
    using assms(3) length_filter_remove(2) [OF assms(1,2), of "\<lambda>j. map_option f (ec_tasks_by_id c j) = Some k"]
    by (simp add: running_with_def)
  show "f t = k \<Longrightarrow> 0 < running_with f c k"
    using assms(2,3) by (auto simp: running_with_def filter_empty_conv intro!: length_pos_if_in_set [of i])
qed

lemma empty_collector_ok: "collector_ok empty_collector"
  by (simp add: collector_ok_def empty_collector_def running_with_def)


text \<open>The fields the counters do not read.\<close>

lemma collector_ok_frame [simp]:
  "collector_ok (c\<lparr>ec_failures := fs\<rparr>) = collector_ok c"
  "collector_ok (c\<lparr>ec_shutting_down := b, ec_shutdown_response := b'\<rparr>) = collector_ok c"
  "collector_ok (bump_changes c) = collector_ok c"
  "collector_ok (note_failure g f c) = collector_ok c"
  by (simp_all add: collector_ok_def running_with_def bump_changes_def note_failure_def)

lemma note_failure_fields [simp]:
  "ec_executions (note_failure g f c) = ec_executions c"
  "ec_active_by_dispatcher (note_failure g f c) = ec_active_by_dispatcher c"
  "ec_shutting_down (note_failure g f c) = ec_shutting_down c"
  "note_failure g f (c\<lparr>ec_active_by_dispatcher := m\<rparr>) = (note_failure g f c)\<lparr>ec_active_by_dispatcher := m\<rparr>"
  by (simp_all add: note_failure_def)

lemma running_frame [simp]:
  "running_with f (c\<lparr>ec_snapshot := sn\<rparr>) = running_with f c"
  "running_with f (c\<lparr>ec_active_by_dispatcher := m\<rparr>) = running_with f c"
  by (simp_all add: running_with_def fun_eq_iff)

lemma count_up_positive: "\<forall>j. m j \<noteq> Some 0 \<Longrightarrow> count_up k m j \<noteq> Some 0"
  by (simp add: count_up_def split: option.split)

lemma collector_ok_spawn:
  assumes "collector_ok c" and "i \<notin> set (ec_executions c)"
  shows "collector_ok (c\<lparr>ec_executions := ec_executions c @ [i],
      ec_tasks_by_id := (ec_tasks_by_id c)(i \<mapsto> t),
      ec_active_by_dispatcher := count_up (et_dispatcher_generation t) (ec_active_by_dispatcher c),
      ec_snapshot := \<lparr>sn_total = sn_total (ec_snapshot c) + 1,
        sn_active_by_topic = count_up (et_topic t) (sn_active_by_topic (ec_snapshot c))\<rparr>\<rparr>)"
  using assms by (auto simp: collector_ok_def running_spawn count_up_positive)

text \<open>The record after an execution has ended, with its counts taken back.\<close>

definition joined :: "nat \<Rightarrow> execution_task \<Rightarrow> execution_collector \<Rightarrow> execution_collector" where
  "joined i t c =
     (let group = counted (ec_active_by_dispatcher c) (et_dispatcher_generation t) - 1
      in c\<lparr>ec_executions := filter (\<lambda>j. j \<noteq> i) (ec_executions c), ec_tasks_by_id := (ec_tasks_by_id c)(i := None),
           ec_snapshot := \<lparr>sn_total = sn_total (ec_snapshot c) - 1,
             sn_active_by_topic = (sn_active_by_topic (ec_snapshot c))(et_topic t \<mapsto>
               counted (sn_active_by_topic (ec_snapshot c)) (et_topic t) - 1)\<rparr>,
           ec_active_by_dispatcher := (ec_active_by_dispatcher c)(et_dispatcher_generation t :=
             (if group = 0 then None else Some group))\<rparr>)"

lemma collector_ok_joined:
  assumes ok: "collector_ok c" and "ec_tasks_by_id c i = Some t"
  shows "collector_ok (joined i t c)"
proof -
  have i: "i \<in> set (ec_executions c)" and d: "distinct (ec_executions c)"
    using assms by (auto simp: collector_ok_def)
  show ?thesis
    using ok length_filter_remove(1) [OF d i]
    by (auto simp: collector_ok_def joined_def Let_def running_join(1) [OF d i assms(2)])
qed

lemma collect_result_joined:
  assumes ok: "collector_ok c" and t: "ec_tasks_by_id c i = Some t"
  shows "collect_activity_execution_result i result (c\<lparr>ec_executions := filter (\<lambda>j. j \<noteq> i) (ec_executions c)\<rparr>) =
    Inr (case result of Ended_Join error \<Rightarrow> note_failure (et_dispatcher_generation t) (join_fault error) (joined i t c)
         | _ \<Rightarrow> joined i t c)"
proof -
  have i: "i \<in> set (ec_executions c)" and d: "distinct (ec_executions c)"
    using assms by (auto simp: collector_ok_def)
  have "0 < sn_total (ec_snapshot c)" using ok i by (auto simp: collector_ok_def intro: length_pos_if_in_set)
  then obtain n where n: "sn_total (ec_snapshot c) = Suc n" by (cases "sn_total (ec_snapshot c)") auto
  have "0 < counted (sn_active_by_topic (ec_snapshot c)) (et_topic t)"
    using ok running_join(2) [OF d i t refl, where f = et_topic] by (simp add: collector_ok_def)
  then obtain a where a: "sn_active_by_topic (ec_snapshot c) (et_topic t) = Some (Suc a)"
    by (auto simp: counted_def gr0_conv_Suc split: option.splits)
  have "0 < counted (ec_active_by_dispatcher c) (et_dispatcher_generation t)"
    using ok running_join(2) [OF d i t refl, where f = et_dispatcher_generation] by (simp add: collector_ok_def)
  then obtain g where g: "ec_active_by_dispatcher c (et_dispatcher_generation t) = Some (Suc g)"
    by (auto simp: counted_def gr0_conv_Suc split: option.splits)
  show ?thesis
    by (cases result) (simp_all add: collect_activity_execution_result_def release_group_def joined_def counted_def
        note_failure_def Let_def t n a g)
qed

lemma collector_ok_received:
  assumes "collector_ok c" and "event_ok c (Received command)"
  shows "collector_ok (fst (receive_command command c))"
proof (cases command)
  case (Spawn topic generation i)
  with assms collector_ok_spawn [OF assms(1), of i "\<lparr>et_topic = topic, et_dispatcher_generation = generation\<rparr>"]
  show ?thesis by (simp add: receive_command_def)
qed (use assms in \<open>simp_all add: receive_command_def split: prod.split option.split\<close>)

lemma collector_step_ok:
  assumes "collector_ok c" and "event_ok c event"
  obtains c' response where "collector_step event c = Inr (c', response)" and "collector_ok c'"
proof (cases event)
  case (Joined i result)
  with assms have "i \<in> dom (ec_tasks_by_id c)" by (simp add: collector_ok_def)
  then obtain t where t: "ec_tasks_by_id c i = Some t" by blast
  with assms(1) Joined that show ?thesis
    by (simp add: collector_step_def collect_result_joined collector_ok_joined split: execution_end.split)
next
  case (Received command)
  with assms that [of "fst (receive_command command c)" "snd (receive_command command c)"] show ?thesis
    by (simp add: collector_step_def collector_ok_received)
qed (use assms in simp)


section \<open>Runs\<close>

fun events_ok :: "collector_event list \<Rightarrow> execution_collector \<Rightarrow> bool" where
  "events_ok [] c \<longleftrightarrow> True"
| "events_ok (event # rest) c \<longleftrightarrow>
     ec_shutting_down c \<and> ec_executions c = [] \<or>
     event_ok c event \<and> (case collector_step event c of Inl _ \<Rightarrow> True | Inr (c', _) \<Rightarrow> events_ok rest c')"

lemma collect_returns:
  "ec_shutting_down c \<Longrightarrow> ec_executions c = [] \<Longrightarrow> collect_activity_executions events c =
     (Collected (finish_activity_execution_collection (ec_failures c @ ec_supplemental_failures c)), [])"
  by (subst collect_activity_executions.simps) simp

lemma collect_waits:
  "\<not> (ec_shutting_down c \<and> ec_executions c = []) \<Longrightarrow> collect_activity_executions [] c = (Waiting c, [])"
  by (subst collect_activity_executions.simps) simp

lemma collect_steps:
  "\<not> (ec_shutting_down c \<and> ec_executions c = []) \<Longrightarrow> collector_step event c = Inr (c', response) \<Longrightarrow>
   collect_activity_executions (event # rest) c =
     (fst (collect_activity_executions rest c'), response # snd (collect_activity_executions rest c'))"
  by (subst collect_activity_executions.simps) (auto simp: case_prod_beta)

lemma collect_cases:
  assumes "collector_ok c" and "events_ok events c"
  obtains (returns) "ec_shutting_down c" "ec_executions c = []"
      "collect_activity_executions events c =
         (Collected (finish_activity_execution_collection (ec_failures c @ ec_supplemental_failures c)), [])"
  | (waits) "events = []" "\<not> (ec_shutting_down c \<and> ec_executions c = [])" "collect_activity_executions events c = (Waiting c, [])"
  | (steps) event rest c' response where "events = event # rest" "event_ok c event"
      "\<not> (ec_shutting_down c \<and> ec_executions c = [])"
      "collector_step event c = Inr (c', response)" "collector_ok c'" "events_ok rest c'"
      "collect_activity_executions events c =
         (fst (collect_activity_executions rest c'), response # snd (collect_activity_executions rest c'))"
proof (cases "ec_shutting_down c \<and> ec_executions c = []")
  case True
  then show ?thesis by (intro returns) (simp_all add: collect_returns)
next
  case False
  show ?thesis
  proof (cases events)
    case Nil
    with False show ?thesis by (intro waits) (simp_all add: collect_waits)
  next
    case (Cons event rest)
    with False assms have e: "event_ok c event" by auto
    with assms(1) obtain c' response where step: "collector_step event c = Inr (c', response)" "collector_ok c'"
      by (rule collector_step_ok)
    with Cons False assms e show ?thesis
      by (intro steps [of event rest c' response]) (auto simp: collect_steps [OF False])
  qed
qed

text \<open>Rule induction over a run, with what every step keeps.\<close>

lemma collect_induct [consumes 2, case_names returns waits steps]:
  assumes "collector_ok c" and "events_ok events c"
    and "\<And>c events. collector_ok c \<Longrightarrow> ec_shutting_down c \<Longrightarrow> ec_executions c = [] \<Longrightarrow>
      P c events (Collected (finish_activity_execution_collection (ec_failures c @ ec_supplemental_failures c)), [])"
    and "\<And>c. collector_ok c \<Longrightarrow> \<not> (ec_shutting_down c \<and> ec_executions c = []) \<Longrightarrow> P c [] (Waiting c, [])"
    and "\<And>c event rest c' response r responses. collector_ok c \<Longrightarrow> event_ok c event \<Longrightarrow>
      collector_step event c = Inr (c', response) \<Longrightarrow> P c' rest (r, responses) \<Longrightarrow>
      \<not> (ec_shutting_down c \<and> ec_executions c = []) \<Longrightarrow> P c (event # rest) (r, response # responses)"
  shows "P c events (collect_activity_executions events c)"
  using assms(1,2)
proof (induction events arbitrary: c)
  case Nil
  from Nil.prems show ?case by (cases rule: collect_cases) (use Nil.prems in \<open>simp_all add: assms(3,4)\<close>)
next
  case (Cons e es)
  from Cons.prems show ?case
  proof (cases rule: collect_cases)
    case (steps event rest c' response)
    then have "P c' es (collect_activity_executions es c')" using Cons.IH by simp
    with steps Cons.prems show ?thesis by (auto intro: assms(5))
  qed (use Cons.prems assms(3) in auto)
qed


section \<open>Failures are neither lost nor multiplied\<close>

fun reports_failure :: "execution_response \<Rightarrow> bool" where
  "reports_failure (FailureResponse (Some f)) = True"
| "reports_failure _ = False"

lemma take_failure_panic:
  "take_activity_execution_failure fs = (Some f, rest) \<Longrightarrow> is_panic_fault f \<longleftrightarrow> list_ex is_panic_fault fs"
  by (cases fs) (auto simp: take_activity_execution_failure_def is_panic_fault_def Let_def split: if_splits)

lemma take_failure_cases:
  "take_activity_execution_failure fs = (None, rest) \<longleftrightarrow> fs = [] \<and> rest = []"
  "take_activity_execution_failure fs = (Some f, rest) \<Longrightarrow> rest = [] \<and> fs \<noteq> []"
  by (cases fs; auto simp: take_activity_execution_failure_def Let_def)+

lemma joined_fields [simp]:
  "ec_failures (joined i t c) = ec_failures c" "ec_supplemental_failures (joined i t c) = ec_supplemental_failures c"
  "ec_failed_dispatchers (joined i t c) = ec_failed_dispatchers c" "ec_shutting_down (joined i t c) = ec_shutting_down c"
  "ec_tasks_by_id (joined i t c) = (ec_tasks_by_id c)(i := None)"
  "ec_executions (joined i t c) = filter (\<lambda>j. j \<noteq> i) (ec_executions c)"
  by (simp_all add: joined_def Let_def)

lemma bump_fields [simp]:
  "ec_failures (bump_changes c) = ec_failures c" "ec_supplemental_failures (bump_changes c) = ec_supplemental_failures c"
  "ec_failed_dispatchers (bump_changes c) = ec_failed_dispatchers c" "ec_shutting_down (bump_changes c) = ec_shutting_down c"
  "ec_executions (bump_changes c) = ec_executions c" "ec_tasks_by_id (bump_changes c) = ec_tasks_by_id c"
  by (simp_all add: bump_changes_def)

text \<open>What one step does, by the event.\<close>

lemma step_joined:
  assumes "collector_ok c" and "event_ok c (Joined i result)" and "collector_step (Joined i result) c = Inr (c', response)"
  obtains t where "ec_tasks_by_id c i = Some t" and "response = NoResponse" and
    "c' = bump_changes (case result of
       Ended_Join error \<Rightarrow> note_failure (et_dispatcher_generation t) (join_fault error) (joined i t c) | _ \<Rightarrow> joined i t c)"
proof -
  from assms(1,2) have "i \<in> dom (ec_tasks_by_id c)" by (simp add: collector_ok_def)
  then obtain t where "ec_tasks_by_id c i = Some t" by blast
  with assms that show ?thesis by (simp add: collector_step_def collect_result_joined)
qed

text \<open>
  What the manager owes for the executions that broke. \<open>broken\<close> lists them in order, with the dispatcher
  that started each; the first one of a dispatcher is to be reported to a dispatcher, the later ones are
  kept for the end. A report may stand for a group of them: it is a panic exactly if one
  of them is, and its message starts with that of the first.
\<close>

fun broken :: "(nat \<rightharpoonup> nat) \<Rightarrow> collector_event list \<Rightarrow> (nat \<times> task_fault) list" where
  "broken started [] = []"
| "broken started (Received (Spawn topic generation i) # rest) = broken (started(i \<mapsto> generation)) rest"
| "broken started (Joined i (Ended_Join error) # rest) =
     (the (started i), \<lparr>rtf_message = ''activity execution task failed: '' @ jf_text error,
        rtf_kind = (if jf_is_panic error then Panic else Fault)\<rparr>) # broken started rest"
| "broken started (_ # rest) = broken started rest"

fun first_failures :: "nat set \<Rightarrow> (nat \<times> task_fault) list \<Rightarrow> task_fault list" where
  "first_failures seen [] = []"
| "first_failures seen ((g, f) # rest) =
     (if g \<in> seen then first_failures seen rest else f # first_failures (insert g seen) rest)"

fun later_failures :: "nat set \<Rightarrow> (nat \<times> task_fault) list \<Rightarrow> task_fault list" where
  "later_failures seen [] = []"
| "later_failures seen ((g, f) # rest) =
     (if g \<in> seen then f # later_failures seen rest else later_failures (insert g seen) rest)"

definition represents :: "task_fault list \<Rightarrow> task_fault \<Rightarrow> bool" where
  "represents gs f \<longleftrightarrow> gs \<noteq> [] \<and> (rtf_kind f = Panic \<longleftrightarrow> (\<exists>g \<in> set gs. rtf_kind g = Panic)) \<and>
     (\<exists>suffix. rtf_message f = rtf_message (hd gs) @ suffix)"

fun reported :: "execution_response list \<Rightarrow> task_fault list" where
  "reported [] = []"
| "reported (FailureResponse (Some f) # rest) = f # reported rest"
| "reported (_ # rest) = reported rest"

lemma broken_join:
  "broken started (Joined i (Ended_Join error) # rest) = (the (started i), join_fault error) # broken started rest"
  by (simp add: join_fault_def of_join_error_def)

declare broken.simps(3) [simp del] broken_join [simp]

lemma reported_filter: "length (reported responses) = length (filter reports_failure responses)"
  by (induction responses rule: reported.induct) simp_all

lemma reported_Cons: "reported (response # rest) = reported [response] @ reported rest"
  by (cases response rule: reports_failure.cases) simp_all

lemma take_represents:
  assumes "take_activity_execution_failure fs = (Some f, rest)" and "list_all2 represents groups fs"
  shows "represents (concat groups) f \<and> rest = []"
proof -
  have panic: "is_panic_fault x \<longleftrightarrow> rtf_kind x = Panic" for x
    by (cases "rtf_kind x") (simp_all add: is_panic_fault_def)
  obtain g gs where fs: "fs = g # gs" using assms(1) by (cases fs) (auto simp: take_activity_execution_failure_def)
  with assms(2) obtain h hs where groups: "groups = h # hs" and h: "represents h g" and hs: "list_all2 represents hs gs"
    by (auto simp: list_all2_Cons2)
  from hs have "(\<exists>x \<in> set gs. rtf_kind x = Panic) \<longleftrightarrow> (\<exists>x \<in> set (concat hs). rtf_kind x = Panic)"
    by (induction rule: list_all2_induct) (auto simp: represents_def)
  moreover have "rest = []" "rtf_kind f = Panic \<longleftrightarrow> rtf_kind g = Panic \<or> (\<exists>x \<in> set gs. rtf_kind x = Panic)"
    "\<exists>suffix. rtf_message f = rtf_message g @ suffix"
    using assms(1) by (auto simp: fs take_activity_execution_failure_def Let_def list_ex_iff panic split: if_splits)
  ultimately show ?thesis using h by (auto simp: represents_def groups hd_append)
qed

text \<open>
  \<open>accounts c groups started\<close>: the queue of the manager stands for \<open>groups\<close>, and \<open>started\<close> knows the
  dispatcher of every running execution.
\<close>

definition accounts :: "execution_collector \<Rightarrow> task_fault list list \<Rightarrow> (nat \<rightharpoonup> nat) \<Rightarrow> bool" where
  "accounts c groups started \<longleftrightarrow> list_all2 represents groups (ec_failures c) \<and>
     (\<forall>i \<in> set (ec_executions c). started i = map_option et_dispatcher_generation (ec_tasks_by_id c i))"

definition collected_end :: "task_fault list \<Rightarrow> task_fault + unit" where
  "collected_end failures = (case failures of [] \<Rightarrow> Inr () | f # _ \<Rightarrow> Inl f)"

definition settled_accounts ::
    "task_fault list list \<Rightarrow> task_fault list \<Rightarrow> (nat \<times> task_fault) list \<Rightarrow> nat set \<Rightarrow> execution_response list \<Rightarrow> collecting \<Rightarrow> bool" where
  "settled_accounts groups0 supplemental fs seen responses r \<longleftrightarrow>
     (\<exists>groups queue. concat groups = concat groups0 @ first_failures seen fs \<and>
        list_all2 represents groups (reported responses @ queue) \<and>
        (case r of
           Waiting c \<Rightarrow> ec_failures c = queue \<and> ec_supplemental_failures c = supplemental @ later_failures seen fs
         | Collected result \<Rightarrow> result = collected_end (queue @ supplemental @ later_failures seen fs)))"

lemma step_accounts:
  assumes "collector_ok c" and "event_ok c event" and "collector_step event c = Inr (c', response)"
    and "accounts c groups started"
  obtains groups' started' where "accounts c' groups' started'"
    and "broken started (event # rest) = broken started [event] @ broken started' rest"
    and "reported [response] = [] \<longrightarrow> concat groups' = concat groups @ first_failures (ec_failed_dispatchers c) (broken started [event])"
    and "\<forall>f. reported [response] = [f] \<longrightarrow> represents (concat groups) f \<and> groups' = [] \<and> broken started [event] = []"
    and "ec_supplemental_failures c' =
      ec_supplemental_failures c @ later_failures (ec_failed_dispatchers c) (broken started [event])"
    and "ec_failed_dispatchers c' = ec_failed_dispatchers c \<union> fst ` set (broken started [event])"
proof (cases event)
  case (Joined i result)
  with assms obtain t where t: "ec_tasks_by_id c i = Some t" "response = NoResponse" and
    c': "c' = bump_changes (case result of
       Ended_Join error \<Rightarrow> note_failure (et_dispatcher_generation t) (join_fault error) (joined i t c) | _ \<Rightarrow> joined i t c)"
    by (auto elim: step_joined)
  have i: "started i = Some (et_dispatcher_generation t)" using assms(2,4) Joined t(1) by (simp add: accounts_def)
  show ?thesis
  proof (cases result)
    case (Ended_Join error)
    let ?new = "et_dispatcher_generation t \<notin> ec_failed_dispatchers c"
    have "represents [join_fault error] (join_fault error)" by (simp add: represents_def)
    then have "accounts c' (if ?new then groups @ [[join_fault error]] else groups) started"
      using assms(4) by (auto simp: c' Ended_Join accounts_def note_failure_def list_all2_appendI)
    then show ?thesis
      using that [of "if ?new then groups @ [[join_fault error]] else groups" started]
      by (cases ?new) (auto simp: c' Ended_Join Joined t i note_failure_def)
  next
    case Ended_Ok
    with assms(4) Joined t c' that [of groups started] show ?thesis by (auto simp: accounts_def)
  next
    case (Ended_Err error)
    with assms(4) Joined t c' that [of groups started] show ?thesis by (auto simp: accounts_def)
  qed
next
  case (Received command)
  show ?thesis
  proof (cases command)
    case (Spawn topic generation i)
    with Received assms that [of groups "started(i \<mapsto> generation)"] show ?thesis
      by (auto simp: accounts_def collector_step_def receive_command_def split: if_splits)
  next
    case (TakeFailure listening)
    obtain found rest where took: "take_activity_execution_failure (ec_failures c) = (found, rest)" by fastforce
    show ?thesis
    proof (cases found)
      case None
      with took have "ec_failures c = []" "rest = []" by (simp_all add: take_failure_cases(1))
      with None took TakeFailure Received assms(3,4) that [of groups started] show ?thesis
        by (auto simp: collector_step_def receive_command_def accounts_def split: if_splits)
    next
      case (Some f)
      with took assms(4) have f: "represents (concat groups) f" "rest = []"
        using take_represents by (auto simp: accounts_def)
      with Some took TakeFailure Received assms(3,4) that [of "if listening then [] else [concat groups]" started] show ?thesis
        by (auto simp: collector_step_def receive_command_def accounts_def split: if_splits)
    qed
  next
    case Snapshot
    with Received assms(3,4) show ?thesis
      by (intro that [of groups started]) (auto simp: collector_step_def receive_command_def accounts_def)
  next
    case Shutdown
    with Received assms(3,4) show ?thesis
      by (intro that [of groups started]) (auto simp: collector_step_def receive_command_def accounts_def)
  qed
qed (use assms in simp)

lemma failures_append:
  "first_failures seen (xs @ ys) = first_failures seen xs @ first_failures (seen \<union> fst ` set xs) ys"
  "later_failures seen (xs @ ys) = later_failures seen xs @ later_failures (seen \<union> fst ` set xs) ys"
proof -
  have "insert g seen \<union> A = insert g (seen \<union> A)" "g \<in> seen \<Longrightarrow> insert g (seen \<union> A) = seen \<union> A" for g :: nat and seen A
    by auto
  then show "first_failures seen (xs @ ys) = first_failures seen xs @ first_failures (seen \<union> fst ` set xs) ys"
    "later_failures seen (xs @ ys) = later_failures seen xs @ later_failures (seen \<union> fst ` set xs) ys"
    by (induction xs arbitrary: seen) (auto simp: insert_absorb)
qed

lemma run_accounts:
  assumes "collector_ok c" and "events_ok events c"
  shows "case collect_activity_executions events c of (r, responses) \<Rightarrow> \<forall>groups started. accounts c groups started \<longrightarrow>
    settled_accounts groups (ec_supplemental_failures c) (broken started (take (length responses) events))
      (ec_failed_dispatchers c) responses r"
  using assms
proof (induction rule: collect_induct)
  case (returns c events)
  then show ?case
    by (auto simp: settled_accounts_def accounts_def collected_end_def finish_activity_execution_collection_def)
next
  case (waits c)
  then show ?case by (auto simp: settled_accounts_def accounts_def)
next
  case (steps c event rest c' response r responses)
  show ?case unfolding prod.case
  proof (intro allI impI)
    fix groups started assume "accounts c groups started"
    let ?seen = "ec_failed_dispatchers c" and ?now = "broken started [event]"
      and ?rest = "take (length responses) rest"
    obtain groups' started' where acc: "accounts c' groups' started'"
      and split: "broken started (event # ?rest) = ?now @ broken started' ?rest"
      and quiet: "reported [response] = [] \<longrightarrow> concat groups' = concat groups @ first_failures ?seen ?now"
      and told: "\<forall>f. reported [response] = [f] \<longrightarrow> represents (concat groups) f \<and> groups' = [] \<and> ?now = []"
      and kept: "ec_supplemental_failures c' = ec_supplemental_failures c @ later_failures ?seen ?now"
      and seen: "ec_failed_dispatchers c' = ?seen \<union> fst ` set ?now"
      by (rule step_accounts [OF steps(1-3) \<open>accounts c groups started\<close>, where rest = ?rest]) blast
    from steps.IH [unfolded prod.case, rule_format, OF acc, unfolded settled_accounts_def] obtain gs queue where
      gs: "concat gs = concat groups' @ first_failures (ec_failed_dispatchers c') (broken started' ?rest)"
        "list_all2 represents gs (reported responses @ queue)"
      and r: "case r of
           Waiting d \<Rightarrow> ec_failures d = queue \<and>
             ec_supplemental_failures d = ec_supplemental_failures c' @ later_failures (ec_failed_dispatchers c') (broken started' ?rest)
         | Collected result \<Rightarrow> result = collected_end (queue @ ec_supplemental_failures c' @
             later_failures (ec_failed_dispatchers c') (broken started' ?rest))"
      by blast
    have "\<exists>gs'. concat gs' = concat groups @ first_failures ?seen (?now @ broken started' ?rest) \<and>
        list_all2 represents gs' (reported (response # responses) @ queue)"
    proof (cases "reported [response]")
      case Nil
      with gs quiet show ?thesis by (intro exI [of _ gs]) (simp add: reported_Cons [of response responses] failures_append seen)
    next
      case (Cons f fs)
      then have "reported [response] = [f]" by (cases response rule: reports_failure.cases) simp_all
      with gs told show ?thesis
        by (intro exI [of _ "concat groups # gs"]) (simp add: reported_Cons [of response responses] seen)
    qed
    then show "settled_accounts groups (ec_supplemental_failures c)
        (broken started (take (length (response # responses)) (event # rest))) ?seen (response # responses) r"
      using r unfolding settled_accounts_def by (cases r) (auto simp: split kept seen failures_append)
  qed
qed


text \<open>A dispatcher costs at most one failure, however many of its executions break.\<close>

definition generations :: "execution_collector \<Rightarrow> nat set" where
  "generations c = {et_dispatcher_generation t |i t. ec_tasks_by_id c i = Some t} \<union> ec_failed_dispatchers c"

fun spawned_by :: "collector_event \<Rightarrow> nat set" where
  "spawned_by (Received (Spawn topic generation i)) = {generation}"
| "spawned_by _ = {}"

lemma take_failure_length:
  "take_activity_execution_failure fs = (Some f, rest) \<Longrightarrow> rest = [] \<and> 0 < length fs"
  by (cases fs) (auto simp: take_activity_execution_failure_def Let_def)

lemma generations_frame [simp]:
  "generations (c\<lparr>ec_failures := fs\<rparr>) = generations c"
  "generations (c\<lparr>ec_shutting_down := b, ec_shutdown_response := b'\<rparr>) = generations c"
  by (simp_all add: generations_def)

lemma generations_spawn:
  assumes "ec_tasks_by_id c' = (ec_tasks_by_id c)(i \<mapsto> t)" and "ec_failed_dispatchers c' = ec_failed_dispatchers c"
  shows "generations c' \<subseteq> generations c \<union> {et_dispatcher_generation t}"
  using assms unfolding generations_def by (auto split: if_splits)

lemma step_take_failure:
  assumes "collector_step (Received (TakeFailure listening)) c = Inr (c', response)"
  obtains fs where "c' = c\<lparr>ec_failures := fs\<rparr>"
    and "length fs + (if reports_failure response then 1 else 0) \<le> length (ec_failures c)"
  using assms
  by (cases "ec_failures c")
    (auto simp: collector_step_def receive_command_def take_activity_execution_failure_def Let_def split: if_splits)

lemma failed_step:
  assumes "collector_ok c" and "event_ok c event" and "collector_step event c = Inr (c', response)"
    and "finite (ec_failed_dispatchers c)" and "n + length (ec_failures c) \<le> card (ec_failed_dispatchers c)"
  shows "finite (ec_failed_dispatchers c') \<and> generations c' \<subseteq> generations c \<union> spawned_by event \<and>
    n + (if reports_failure response then 1 else 0) + length (ec_failures c') \<le> card (ec_failed_dispatchers c')"
proof (cases event)
  case (Joined i result)
  with assms obtain t where t: "ec_tasks_by_id c i = Some t" and r: "response = NoResponse" and
    c': "c' = bump_changes (case result of
       Ended_Join error \<Rightarrow> note_failure (et_dispatcher_generation t) (join_fault error) (joined i t c) | _ \<Rightarrow> joined i t c)"
    by (auto elim: step_joined)
  with t assms(4,5) show ?thesis
    by (auto simp: c' r note_failure_def generations_def card_insert_if split: execution_end.splits if_splits)
next
  case (Received command)
  show ?thesis
  proof (cases command)
    case (Spawn topic generation i)
    with Received assms(3-5) generations_spawn [of c' c i "\<lparr>et_topic = topic, et_dispatcher_generation = generation\<rparr>"]
    show ?thesis by (auto simp: collector_step_def receive_command_def split: if_splits)
  next
    case (TakeFailure listening)
    with Received assms(3) obtain fs where "c' = c\<lparr>ec_failures := fs\<rparr>"
      "length fs + (if reports_failure response then 1 else 0) \<le> length (ec_failures c)"
      by (auto elim: step_take_failure)
    with assms(4,5) show ?thesis by auto
  qed (use Received assms(3-5) in \<open>auto simp: collector_step_def receive_command_def\<close>)
qed (use assms in simp)

lemma failed_generations:
  assumes "finite (generations c)"
  shows "card (ec_failed_dispatchers c) \<le> card (generations c \<union> (\<Union>e \<in> set events. spawned_by e))"
proof (rule card_mono)
  have "finite (spawned_by e)" for e by (cases e rule: spawned_by.cases) auto
  with assms show "finite (generations c \<union> (\<Union>e \<in> set events. spawned_by e))" by auto
qed (auto simp: generations_def)

lemma failures_per_dispatcher:
  assumes "collector_ok c" and "events_ok events c"
  shows "case collect_activity_executions events c of (r, responses) \<Rightarrow>
    \<forall>n. finite (ec_failed_dispatchers c) \<longrightarrow> n + length (ec_failures c) \<le> card (ec_failed_dispatchers c) \<longrightarrow>
      finite (generations c) \<longrightarrow>
      n + length (filter reports_failure responses) \<le> card (generations c \<union> \<Union> (set (map spawned_by events)))"
  using assms
proof (induction rule: collect_induct)
  case (steps c event rest c' response r responses)
  show ?case unfolding prod.case
  proof (intro allI impI)
    fix n
    assume fin: "finite (ec_failed_dispatchers c)" and n: "n + length (ec_failures c) \<le> card (ec_failed_dispatchers c)"
      and g: "finite (generations c)"
    let ?m = "n + (if reports_failure response then 1 else 0)"
    have "finite (spawned_by event)" by (cases event rule: spawned_by.cases) auto
    from failed_step [OF steps(1-3) fin n] have c': "finite (ec_failed_dispatchers c')"
      "generations c' \<subseteq> generations c \<union> spawned_by event" "?m + length (ec_failures c') \<le> card (ec_failed_dispatchers c')"
      by auto
    then have "finite (generations c')" using g \<open>finite (spawned_by event)\<close> by (auto dest: finite_subset)
    with steps.IH c' have "?m + length (filter reports_failure responses) \<le> card (generations c' \<union> \<Union> (set (map spawned_by rest)))"
      by auto
    also have "\<dots> \<le> card (generations c \<union> \<Union> (set (map spawned_by (event # rest))))"
    proof (rule card_mono)
      have "finite (spawned_by e)" for e by (cases e rule: spawned_by.cases) auto
      then show "finite (generations c \<union> \<Union> (set (map spawned_by (event # rest))))" using g by auto
    qed (use c'(2) in auto)
    finally show "n + length (filter reports_failure (response # responses)) \<le>
        card (generations c \<union> \<Union> (set (map spawned_by (event # rest))))" by (auto split: if_splits)
  qed
next
  case (returns c events)
  then show ?case by (auto dest: failed_generations [where events = events])
next
  case (waits c)
  then show ?case by (auto dest: failed_generations [where events = "[]"])
qed


section \<open>Shutting down\<close>

fun is_join :: "collector_event \<Rightarrow> bool" where
  "is_join (Joined i result) = True"
| "is_join _ = False"

lemma shutting_down_step:
  assumes "collector_ok c" and "event_ok c event" and "collector_step event c = Inr (c', response)" and "ec_shutting_down c"
  shows "ec_shutting_down c' \<and>
    length (ec_executions c') = length (ec_executions c) - (if is_join event then 1 else 0)"
proof (cases event)
  case (Joined i result)
  with assms obtain t where "c' = bump_changes (case result of
       Ended_Join error \<Rightarrow> note_failure (et_dispatcher_generation t) (join_fault error) (joined i t c) | _ \<Rightarrow> joined i t c)"
    by (auto elim: step_joined)
  moreover from assms Joined have "distinct (ec_executions c)" "i \<in> set (ec_executions c)" by (simp_all add: collector_ok_def)
  ultimately show ?thesis
    using assms(4) Joined by (simp add: length_filter_remove(1) split: execution_end.split)
next
  case (Received command)
  with assms show ?thesis
    by (cases command) (auto simp: collector_step_def receive_command_def split: prod.splits option.splits if_splits)
qed (use assms in simp)

lemma shutdown_returns:
  assumes "collector_ok c" and "events_ok events c"
  shows "ec_shutting_down c \<longrightarrow> length (ec_executions c) \<le> length (filter is_join events) \<longrightarrow>
    (\<exists>result. fst (collect_activity_executions events c) = Collected result)"
  using assms
proof (induction rule: collect_induct)
  case (steps c event rest c' response r responses)
  then show ?case using shutting_down_step [OF steps(1-3)] by (auto split: if_splits)
next
  case (waits c)
  then show ?case by auto
qed simp

section \<open>Properties\<close>

lemma collect_ok:
  assumes "collector_ok c" and "events_ok events c"
  shows "case collect_activity_executions events c of (Waiting c', responses) \<Rightarrow> collector_ok c' | _ \<Rightarrow> True"
  using assms by (induction rule: collect_induct) simp_all

text \<open>
  The failures of a collector are those of its executions: the bookkeeping itself never fails.
\<close>

definition execution_fault :: "task_fault \<Rightarrow> bool" where
  "execution_fault f \<longleftrightarrow> starts_with (rtf_message f) ''activity execution task failed: ''"

lemma execution_fault_iff: "execution_fault f \<longleftrightarrow> (\<exists>t. rtf_message f = ''activity execution task failed: '' @ t)"
proof -
  have "starts_with m p \<longleftrightarrow> (\<exists>t. m = p @ t)" for m p
    by (auto simp: starts_with_def) (metis append_take_drop_id)
  then show ?thesis by (simp add: execution_fault_def)
qed

lemma execution_fault_append: "execution_fault f \<Longrightarrow> execution_fault (f\<lparr>rtf_message := rtf_message f @ t\<rparr>)"
  by (auto simp: execution_fault_iff)

lemma take_execution_fault:
  assumes "\<forall>f \<in> set fs. execution_fault f" and "take_activity_execution_failure fs = (Some f, rest)"
  shows "execution_fault f"
proof (cases fs)
  case (Cons g gs)
  let ?g = "if list_ex is_panic_fault gs then g\<lparr>rtf_kind := Panic\<rparr> else g"
  have "execution_fault ?g" using assms(1) Cons by (simp add: execution_fault_def)
  with assms(2) Cons execution_fault_append [of ?g] show ?thesis
    by (auto simp: take_activity_execution_failure_def Let_def simp del: append_assoc split: if_splits)
qed (use assms(2) in \<open>simp add: take_activity_execution_failure_def\<close>)

lemma execution_faults_step:
  assumes "collector_ok c" and "event_ok c event" and "collector_step event c = Inr (c', response)"
    and "\<forall>f \<in> set (ec_failures c @ ec_supplemental_failures c). execution_fault f"
  shows "\<forall>f \<in> set (ec_failures c' @ ec_supplemental_failures c'). execution_fault f"
proof (cases event)
  case (Joined i result)
  with assms obtain t where "c' = bump_changes (case result of
       Ended_Join error \<Rightarrow> note_failure (et_dispatcher_generation t) (join_fault error) (joined i t c) | _ \<Rightarrow> joined i t c)"
    by (auto elim: step_joined)
  moreover have "execution_fault (join_fault error)" for error
    by (simp add: execution_fault_def join_fault_def starts_with_def)
  ultimately show ?thesis using assms(4) by (auto simp: note_failure_def split: execution_end.splits)
next
  case (Received command)
  show ?thesis
  proof (cases command)
    case (TakeFailure listening)
    obtain found rest where took: "take_activity_execution_failure (ec_failures c) = (found, rest)" by fastforce
    show ?thesis
    proof (cases found)
      case None
      with took have "rest = []" by (simp add: take_failure_cases(1))
      with None TakeFailure Received assms(3,4) show ?thesis
        by (auto simp: collector_step_def receive_command_def took)
    next
      case (Some f)
      with took assms(4) have "execution_fault f" "rest = []"
        by (auto intro: take_execution_fault dest: take_failure_length)
      with took Some TakeFailure Received assms(3,4) show ?thesis
        by (auto simp: collector_step_def receive_command_def split: if_splits)
    qed
  qed (use Received assms(3,4) in \<open>auto simp: collector_step_def receive_command_def split: if_splits\<close>)
qed (use assms in simp)

lemma collected_execution_fault:
  assumes "collector_ok c" and "events_ok events c"
  shows "(\<forall>f \<in> set (ec_failures c @ ec_supplemental_failures c). execution_fault f) \<longrightarrow>
    (\<forall>f. fst (collect_activity_executions events c) = Collected (Inl f) \<longrightarrow> execution_fault f)"
  using assms
proof (induction rule: collect_induct)
  case (returns c events)
  show ?case
  proof (cases "ec_failures c @ ec_supplemental_failures c")
    case (Cons f fs)
    then have "f \<in> set (ec_failures c @ ec_supplemental_failures c)" by simp
    with Cons show ?thesis by (simp add: finish_activity_execution_collection_def)
  qed (simp add: finish_activity_execution_collection_def)
next
  case (steps c event rest c' response r responses)
  from execution_faults_step [OF steps(1-3)] steps.IH show ?case unfolding fst_conv by blast
qed (simp only: fst_conv collecting.distinct, simp)


text \<open>
  The manager always knows what runs. Through any sequence of started, ended and failed
  executions, commands and abandoned requests, its total is the number of running executions,
  its count of a topic the number of running executions of that topic and its count of a
  dispatcher the number that dispatcher started; so the bookkeeping never fails, and when the
  manager does return an error it is that of an execution.
\<close>

lemma execution_counts_are_exact:
  assumes "events_ok events empty_collector"
  shows "case fst (collect_activity_executions events empty_collector) of
      Waiting c \<Rightarrow>
        sn_total (ec_snapshot c) = length (ec_executions c) \<and>
        (\<forall>topic. counted (sn_active_by_topic (ec_snapshot c)) topic = running_with et_topic c topic) \<and>
        (\<forall>g. counted (ec_active_by_dispatcher c) g = running_with et_dispatcher_generation c g)
    | Collected (Inl f) \<Rightarrow> execution_fault f
    | Collected (Inr ()) \<Rightarrow> True"
proof -
  have "\<forall>f \<in> set (ec_failures empty_collector @ ec_supplemental_failures empty_collector). execution_fault f"
    by (simp add: empty_collector_def)
  with collected_execution_fault [OF empty_collector_ok assms] collect_ok [OF empty_collector_ok assms]
  show ?thesis by (auto simp: collector_ok_def case_prod_beta split: collecting.splits sum.splits unit.splits)
qed

definition sample_executions :: "collector_event list" where
  "sample_executions =
     [Received (Spawn ''mail'' 1 7), Received (Spawn ''mail'' 1 8), Received (Spawn ''pay'' 1 9),
      Joined 8 (Ended_Join \<lparr>jf_is_panic = True, jf_text = ''boom''\<rparr>), Received (TakeFailure False),
      Received (TakeFailure True), Joined 9 (Ended_Join \<lparr>jf_is_panic = True, jf_text = ''late''\<rparr>)]"

text \<open>
  C28: the failure of an execution, a panic or an abort, is neither lost nor multiplied. Take the executions
  that broke, in order. The first one of each dispatcher is in exactly one of the
  reports that dispatchers were given or in the queue, whatever requests were abandoned half-way; a report
  or an entry of the queue is a panic exactly if one of the failures it stands for is, and
  carries the message of the first. The later failures of a dispatcher are kept, in order. When the
  manager returns, it returns the first of what the queue and the kept failures still
  hold, and succeeds only if nothing is left; the rest of those is only logged. The
  dispatchers are told of at most one failure for each of them that started executions,
  so that a burst of panics costs one restart.
\<close>

theorem execution_panics_are_reported:
  assumes "events_ok events empty_collector"
    and "collect_activity_executions events empty_collector = (r, responses)"
    and "fs = broken Map.empty (take (length responses) events)"
  shows "(\<exists>groups queue. concat groups = first_failures {} fs \<and>
      list_all2 represents groups (reported responses @ queue) \<and>
      (case r of
         Waiting c \<Rightarrow> ec_failures c = queue \<and> ec_supplemental_failures c = later_failures {} fs
       | Collected result \<Rightarrow>
           result = (case queue @ later_failures {} fs of [] \<Rightarrow> Inr () | f # _ \<Rightarrow> Inl f))) \<and>
    length (reported responses) \<le> card (\<Union>e \<in> set events. spawned_by e)"
proof
  have "accounts empty_collector [] Map.empty" by (simp add: accounts_def empty_collector_def)
  moreover have "ec_supplemental_failures empty_collector = []" "ec_failed_dispatchers empty_collector = {}"
    by (simp_all add: empty_collector_def)
  ultimately have "settled_accounts [] [] fs {} responses r"
    using run_accounts [OF empty_collector_ok assms(1)] by (simp add: assms(2,3))
  then show "\<exists>groups queue. concat groups = first_failures {} fs \<and>
      list_all2 represents groups (reported responses @ queue) \<and>
      (case r of
         Waiting c \<Rightarrow> ec_failures c = queue \<and> ec_supplemental_failures c = later_failures {} fs
       | Collected result \<Rightarrow>
           result = (case queue @ later_failures {} fs of [] \<Rightarrow> Inr () | f # _ \<Rightarrow> Inl f))"
    by (cases r) (simp_all add: settled_accounts_def collected_end_def)
  show "length (reported responses) \<le> card (\<Union>e \<in> set events. spawned_by e)"
    using failures_per_dispatcher [OF empty_collector_ok assms(1)] assms(2)
    by (auto simp: empty_collector_def generations_def reported_filter)
qed

theorem execution_panics_are_reported_witness:
  "let boom = \<lparr>rtf_message = ''activity execution task failed: boom'', rtf_kind = Panic\<rparr>;
       late = \<lparr>rtf_message = ''activity execution task failed: late'', rtf_kind = Panic\<rparr>;
       run = collect_activity_executions (sample_executions @ [Received Shutdown, Joined 7 Ended_Ok]) empty_collector
   in fst run = Collected (Inl late) \<and> (\<exists>f. reported (snd run) = [f] \<and> represents [boom] f)"
proof -
  let ?events = "sample_executions @ [Received Shutdown, Joined 7 Ended_Ok]"
  let ?boom = "\<lparr>rtf_message = ''activity execution task failed: boom'', rtf_kind = Panic\<rparr>"
  let ?late = "\<lparr>rtf_message = ''activity execution task failed: late'', rtf_kind = Panic\<rparr>"
  let ?run = "collect_activity_executions ?events empty_collector"
  have ok: "events_ok ?events empty_collector" by code_simp
  have run: "length (reported (snd ?run)) = 1" "\<not> (case fst ?run of Waiting _ \<Rightarrow> True | _ \<Rightarrow> False)" by code_simp+
  have fs: "broken Map.empty (take (length (snd ?run)) ?events) = [(1, ?boom), (1, ?late)]" by code_simp
  from run(2) obtain result where result: "fst ?run = Collected result" by (auto split: collecting.splits)
  obtain f where f: "reported (snd ?run) = [f]" using run(1) by (auto simp: length_Suc_conv)
  from execution_panics_are_reported [OF ok prod.collapse [symmetric] refl] obtain groups queue where
    groups: "concat groups = [?boom]" "list_all2 represents groups (f # queue)"
    and "result = (case queue @ [?late] of [] \<Rightarrow> Inr () | x # _ \<Rightarrow> Inl x)"
    unfolding fs result f by auto
  moreover have "groups = [[?boom]] \<and> queue = []"
  proof -
    from groups(2) obtain g gs where g: "groups = g # gs" "represents g f" "list_all2 represents gs queue"
      by (auto simp: list_all2_Cons2)
    with groups(1) have "g = [?boom]" "concat gs = []" by (auto simp: represents_def append_eq_Cons_conv)
    moreover from this(2) g(3) have "gs = []" by (cases gs) (auto simp: list_all2_Cons1 represents_def)
    ultimately show ?thesis using g by simp
  qed
  ultimately show ?thesis using result f by (simp add: Let_def)
qed

text \<open>
  A shutdown ends. Once the manager has been told to shut down, it returns as soon as the
  executions it then runs have ended, in whatever order, and whatever commands still arrive:
  none of them starts an execution any more.
\<close>

lemma execution_shutdown_returns:
  assumes "events_ok before empty_collector"
    and "collect_activity_executions before empty_collector = (Waiting c, responses)"
    and "events_ok (Received Shutdown # after) c"
    and "length (ec_executions c) \<le> length (filter is_join after)"
  shows "\<exists>result. fst (collect_activity_executions (Received Shutdown # after) c) = Collected result"
proof -
  from collect_ok [OF empty_collector_ok assms(1)] assms(2) have c: "collector_ok c" by simp
  let ?c = "c\<lparr>ec_shutting_down := True, ec_shutdown_response := True\<rparr>"
  have step: "collector_step (Received Shutdown) c = Inr (?c, NoResponse)"
    by (simp add: collector_step_def receive_command_def)
  show ?thesis
  proof (cases "ec_shutting_down c \<and> ec_executions c = []")
    case True
    then show ?thesis by (simp add: collect_returns)
  next
    case False
    with assms(3) step have "events_ok after ?c" by simp
    with shutdown_returns [of ?c after] c assms(4) show ?thesis by (simp add: collect_steps [OF False step])
  qed
qed

end
