(* ===== verification/Supervisor.thy ===== *)
theory Supervisor
  imports Execution_Manager "HOL-Library.Multiset"
begin

text \<open>
  The supervisor of the engine's tasks (\<open>supervise\<close>, \<open>spawn_child\<close> and
  \<open>RuntimeHandle::shutdown\<close> of \<open>src/runtime/supervisor.rs\<close>): it starts one task per part of the
  engine, restarts a task that stops as the restart policy of that task says, and stops the
  runtime when the policy gives up. Its loop is a fold over what it sees: a task that ended, with
  the instants it reads then, or the cancellation from outside. Ids of tasks come from tokio.
\<close>

section \<open>Tasks\<close>

datatype task_spec =
  TS_ActivityExecutionManager
| TS_Coordinator
| TS_Health
| TS_Timer
| TS_ApprovalExpiry
| TS_Schedule string
| TS_ActivityDispatcher

fun TaskSpec_name :: "task_spec \<Rightarrow> string" where
  "TaskSpec_name TS_ActivityExecutionManager = ''activity-execution-manager''"
| "TaskSpec_name TS_Coordinator = ''coordinator''"
| "TaskSpec_name TS_Health = ''health''"
| "TaskSpec_name TS_Timer = ''timer''"
| "TaskSpec_name TS_ApprovalExpiry = ''approval-expiry''"
| "TaskSpec_name (TS_Schedule key) = ''schedule:'' @ key"
| "TaskSpec_name TS_ActivityDispatcher = ''activity-dispatcher''"

record runtime_task_error =
  rte_task :: string
  rte_message :: string
  rte_panicked :: bool

definition join_error :: "string \<Rightarrow> join_failure \<Rightarrow> runtime_task_error" where
  "join_error task error = \<lparr>rte_task = task, rte_message = jf_text error, rte_panicked = jf_is_panic error\<rparr>"

definition task_error_of :: "task_spec \<Rightarrow> task_fault \<Rightarrow> runtime_task_error" where
  "task_error_of spec error =
     \<lparr>rte_task = TaskSpec_name spec, rte_message = rtf_message error, rte_panicked = tfk_panicked (rtf_kind error)\<rparr>"

record supervised_task =
  st_spec :: task_spec
  st_runs_from :: int

datatype task_end = Task_Ok | Task_Err task_fault | Task_Join join_failure

text \<open>
  \<open>tasks\<close> is the \<open>JoinSet\<close>, \<open>manager_told\<close> whether the shutdown command was sent to the execution
  manager.
\<close>

record supervision =
  sv_tasks :: "nat list"
  sv_task_specs :: "nat \<rightharpoonup> supervised_task"
  sv_cancelled :: bool
  sv_errors :: "runtime_task_error list"
  sv_restarts :: "task_spec \<rightharpoonup> task_restarts"
  sv_manager_told :: bool

text \<open>
  An end of a task: its id and result, the instant of the decision and that of the restart, the id a
  restarted task gets, and what the manager answers if it is told to shut down.
\<close>

record ended_task =
  te_id :: nat
  te_end :: task_end
  te_now :: int
  te_spawned_at :: int
  te_new_id :: nat
  te_manager :: "task_fault + unit"

datatype supervisor_event = Task_Ended ended_task | Cancelled

section \<open>Operations\<close>

definition spawn_child :: "nat \<Rightarrow> int \<Rightarrow> task_spec \<Rightarrow> duration \<Rightarrow> supervision \<Rightarrow> supervision" where
  "spawn_child task_id now spec delay s =
     s\<lparr>sv_tasks := sv_tasks s @ [task_id],
       sv_task_specs := (sv_task_specs s)(task_id \<mapsto> \<lparr>st_spec = spec, st_runs_from = now + delay\<rparr>)\<rparr>"

text \<open>\<open>activity_executions.shutdown()\<close>, whose failure is an error of the manager.\<close>

definition tell_manager :: "task_spec \<Rightarrow> task_fault + unit \<Rightarrow> supervision \<Rightarrow> supervision" where
  "tell_manager spec answer s =
     (if spec = TS_ActivityDispatcher
      then s\<lparr>sv_manager_told := True,
             sv_errors := sv_errors s @ (case answer of
               Inl error \<Rightarrow> [task_error_of TS_ActivityExecutionManager error] | Inr _ \<Rightarrow> [])\<rparr>
      else s)"

definition unsupervised :: "nat \<Rightarrow> supervision \<Rightarrow> supervision" where
  "unsupervised task_id s =
     s\<lparr>sv_errors := sv_errors s @ [\<lparr>rte_task = ''supervisor'',
         rte_message = ''completed task '' @ dec_int (int task_id) @ '' had no supervision record'',
         rte_panicked = False\<rparr>],
       sv_cancelled := True\<rparr>"

definition ended_cancelled :: "ended_task \<Rightarrow> task_spec \<Rightarrow> supervision \<Rightarrow> supervision" where
  "ended_cancelled e spec s =
     tell_manager spec (te_manager e)
       (s\<lparr>sv_errors := sv_errors s @ (case te_end e of
            Task_Join error \<Rightarrow> [join_error (TaskSpec_name spec) error]
          | Task_Err error \<Rightarrow> [task_error_of spec error]
          | Task_Ok \<Rightarrow> [])\<rparr>)"

definition task_failure_of :: "task_spec \<Rightarrow> task_end \<Rightarrow> runtime_task_error \<times> task_failure_kind" where
  "task_failure_of spec result =
     (case result of
        Task_Ok \<Rightarrow> (\<lparr>rte_task = TaskSpec_name spec, rte_message = ''task stopped unexpectedly'', rte_panicked = False\<rparr>, Fault)
      | Task_Err error \<Rightarrow> (task_error_of spec error, rtf_kind error)
      | Task_Join error \<Rightarrow> (join_error (TaskSpec_name spec) error, of_join_error error))"

definition restart_decision_of ::
    "restart_policy \<Rightarrow> ended_task \<Rightarrow> supervised_task \<Rightarrow> supervision \<Rightarrow> restart_decision \<times> supervision" where
  "restart_decision_of policy e task s =
     (let spec = st_spec task; kind = snd (task_failure_of spec (te_end e)) in
      if spec = TS_ActivityExecutionManager then (Stop Unrestartable, s)
      else
        (let restarts = (case sv_restarts s spec of None \<Rightarrow> TaskRestarts_new (te_now e) policy | Some r \<Rightarrow> r)
         in case on_failure restarts (te_now e) (saturating_duration_since (te_now e) (st_runs_from task)) kind policy of
              (decision, restarts') \<Rightarrow> (decision, s\<lparr>sv_restarts := (sv_restarts s)(spec \<mapsto> restarts')\<rparr>)))"

definition ended_running :: "restart_policy \<Rightarrow> ended_task \<Rightarrow> supervised_task \<Rightarrow> supervision \<Rightarrow> supervision" where
  "ended_running policy e task s =
     (let spec = st_spec task; task_error = fst (task_failure_of spec (te_end e)) in
      case restart_decision_of policy e task s of
        (Restart_After delay, s1) \<Rightarrow>
          spawn_child (te_new_id e) (te_spawned_at e) spec delay (s1\<lparr>sv_errors := sv_errors s1 @ [task_error]\<rparr>)
      | (Stop reason, s1) \<Rightarrow>
          tell_manager spec (te_manager e)
            (s1\<lparr>sv_errors := sv_errors s1 @ [task_error], sv_cancelled := True\<rparr>))"

definition task_ended :: "restart_policy \<Rightarrow> ended_task \<Rightarrow> supervision \<Rightarrow> supervision" where
  "task_ended policy e s0 =
     (let s = s0\<lparr>sv_tasks := filter (\<lambda>i. i \<noteq> te_id e) (sv_tasks s0)\<rparr> in
      case sv_task_specs s (te_id e) of
        None \<Rightarrow> unsupervised (te_id e) s
      | Some task \<Rightarrow>
          let s1 = s\<lparr>sv_task_specs := (sv_task_specs s)(te_id e := None)\<rparr> in
          if sv_cancelled s1 then ended_cancelled e (st_spec task) s1 else ended_running policy e task s1)"

definition supervisor_step :: "restart_policy \<Rightarrow> supervisor_event \<Rightarrow> supervision \<Rightarrow> supervision" where
  "supervisor_step policy event s =
     (case event of Task_Ended e \<Rightarrow> task_ended policy e s | Cancelled \<Rightarrow> s\<lparr>sv_cancelled := True\<rparr>)"

text \<open>The tasks of a runtime with the given schedules, in the order they are started.\<close>

definition runtime_specs :: "string list \<Rightarrow> task_spec list" where
  "runtime_specs schedules =
     [TS_ActivityExecutionManager, TS_Coordinator, TS_Health, TS_Timer, TS_ApprovalExpiry] @
     map TS_Schedule schedules @ [TS_ActivityDispatcher]"

fun spawn_all :: "(nat \<times> int \<times> task_spec) list \<Rightarrow> supervision \<Rightarrow> supervision" where
  "spawn_all [] s = s"
| "spawn_all ((task_id, now, spec) # rest) s = spawn_all rest (spawn_child task_id now spec 0 s)"

text \<open>\<open>ids\<close> and \<open>instants\<close> are the task ids and the clock readings of the first spawns.\<close>

definition supervise_start :: "string list \<Rightarrow> nat list \<Rightarrow> int list \<Rightarrow> supervision" where
  "supervise_start schedules ids instants =
     spawn_all (zip ids (zip instants (runtime_specs schedules)))
       \<lparr>sv_tasks = [], sv_task_specs = Map.empty, sv_cancelled = False, sv_errors = [], sv_restarts = Map.empty,
        sv_manager_told = False\<rparr>"

text \<open>The loop ends when no task is left; until then it waits for the next event.\<close>

datatype supervising = Supervising supervision | Supervised "runtime_task_error list"

fun supervise :: "restart_policy \<Rightarrow> supervisor_event list \<Rightarrow> supervision \<Rightarrow> supervising" where
  "supervise policy events s =
     (if sv_tasks s = [] then Supervised (sv_errors s)
      else (case events of [] \<Rightarrow> Supervising s | e # es \<Rightarrow> supervise policy es (supervisor_step policy e s)))"

declare supervise.simps [simp del]

section \<open>Shutting down\<close>

text \<open>
  How the wait for the supervisor ends: its errors, a panic of its task, or the deadline. The
  texts of the deadlines are the \<open>Debug\<close> texts of durations.
\<close>

datatype supervisor_wait = Wait_Joined "runtime_task_error list" | Wait_Failed join_failure | Wait_Elapsed

definition deadline_error :: "string \<Rightarrow> runtime_task_error" where
  "deadline_error deadline =
     \<lparr>rte_task = ''supervisor'', rte_message = ''shutdown deadline elapsed after '' @ deadline, rte_panicked = False\<rparr>"

definition forced_error :: "string \<Rightarrow> runtime_task_error" where
  "forced_error forced =
     \<lparr>rte_task = ''supervisor'', rte_message = ''forced shutdown did not reach a safe point after '' @ forced,
      rte_panicked = False\<rparr>"

definition RuntimeHandle_shutdown ::
    "string \<Rightarrow> string \<Rightarrow> supervisor_wait \<Rightarrow> supervisor_wait \<Rightarrow> runtime_task_error list + unit" where
  "RuntimeHandle_shutdown deadline forced first_wait second_wait =
     (let errors = (case first_wait of
            Wait_Joined errors \<Rightarrow> errors
          | Wait_Failed error \<Rightarrow> [join_error ''supervisor'' error]
          | Wait_Elapsed \<Rightarrow>
              (case second_wait of
                 Wait_Joined errors \<Rightarrow> errors @ [deadline_error deadline]
               | Wait_Failed error \<Rightarrow> [deadline_error deadline, join_error ''supervisor'' error]
               | Wait_Elapsed \<Rightarrow> [deadline_error deadline, forced_error forced]))
      in if errors = [] then Inr () else Inl errors)"


section \<open>What is supervised\<close>

definition running_specs :: "supervision \<Rightarrow> task_spec multiset" where
  "running_specs s = mset (map (\<lambda>i. st_spec (the (sv_task_specs s i))) (sv_tasks s))"

definition supervision_ok :: "task_spec multiset \<Rightarrow> supervision \<Rightarrow> bool" where
  "supervision_ok roster s \<longleftrightarrow>
     distinct (sv_tasks s) \<and> dom (sv_task_specs s) = set (sv_tasks s) \<and> running_specs s \<subseteq># roster \<and>
     (\<not> sv_cancelled s \<longrightarrow> running_specs s = roster) \<and>
     (TS_ActivityExecutionManager \<in># running_specs s \<longrightarrow>
        TS_ActivityDispatcher \<in># running_specs s \<or> sv_manager_told s)"

text \<open>What tokio guarantees: only a running task ends, and a new task has an id of its own.\<close>

fun supervisor_event_ok :: "supervision \<Rightarrow> supervisor_event \<Rightarrow> bool" where
  "supervisor_event_ok s (Task_Ended e) \<longleftrightarrow> te_id e \<in> set (sv_tasks s) \<and> te_new_id e \<notin> set (sv_tasks s)"
| "supervisor_event_ok s Cancelled \<longleftrightarrow> True"

lemma running_specs_frame [simp]:
  "running_specs (s\<lparr>sv_errors := es\<rparr>) = running_specs s" "running_specs (s\<lparr>sv_cancelled := b\<rparr>) = running_specs s"
  "running_specs (s\<lparr>sv_restarts := r\<rparr>) = running_specs s" "running_specs (s\<lparr>sv_manager_told := b\<rparr>) = running_specs s"
  by (simp_all add: running_specs_def)

lemma running_specs_spawn:
  assumes "i \<notin> set (sv_tasks s)"
  shows "running_specs (spawn_child i now spec delay s) = add_mset spec (running_specs s)"
proof -
  have "image_mset (\<lambda>j. st_spec (the (((sv_task_specs s)(i \<mapsto> t)) j))) (mset (sv_tasks s)) =
      image_mset (\<lambda>j. st_spec (the (sv_task_specs s j))) (mset (sv_tasks s))" for t
    using assms by (intro image_mset_cong) auto
  then show ?thesis by (simp add: running_specs_def spawn_child_def fun_upd_same del: fun_upd_apply)
qed

definition without_task :: "nat \<Rightarrow> supervision \<Rightarrow> supervision" where
  "without_task i s =
     s\<lparr>sv_tasks := filter (\<lambda>j. j \<noteq> i) (sv_tasks s), sv_task_specs := (sv_task_specs s)(i := None)\<rparr>"

lemma running_specs_without:
  assumes "distinct (sv_tasks s)" and "i \<in> set (sv_tasks s)" and "sv_task_specs s i = Some t"
  shows "running_specs s = add_mset (st_spec t) (running_specs (without_task i s))"
proof -
  have "filter (\<lambda>j. j \<noteq> i) (sv_tasks s) = remove1 i (sv_tasks s)"
    using assms(1) by (simp add: distinct_remove1_removeAll removeAll_filter_not_eq eq_commute)
  then have tasks: "mset (sv_tasks s) = add_mset i (mset (filter (\<lambda>j. j \<noteq> i) (sv_tasks s)))"
    using assms(2) by simp
  have "image_mset (\<lambda>j. st_spec (the (((sv_task_specs s)(i := None)) j))) (mset (filter (\<lambda>j. j \<noteq> i) (sv_tasks s))) =
      image_mset (\<lambda>j. st_spec (the (sv_task_specs s j))) (mset (filter (\<lambda>j. j \<noteq> i) (sv_tasks s)))"
    by (intro image_mset_cong) auto
  with arg_cong [OF tasks, of "image_mset (\<lambda>j. st_spec (the (sv_task_specs s j)))"] assms(3) show ?thesis
    by (simp add: running_specs_def without_task_def del: fun_upd_apply)
qed

lemma without_task_fields [simp]:
  "sv_tasks (without_task i s) = filter (\<lambda>j. j \<noteq> i) (sv_tasks s)"
  "sv_task_specs (without_task i s) = (sv_task_specs s)(i := None)"
  "sv_cancelled (without_task i s) = sv_cancelled s" "sv_manager_told (without_task i s) = sv_manager_told s"
  "sv_restarts (without_task i s) = sv_restarts s" "sv_errors (without_task i s) = sv_errors s"
  by (simp_all add: without_task_def)

lemma tell_manager_fields [simp]:
  "sv_tasks (tell_manager spec answer s) = sv_tasks s" "sv_task_specs (tell_manager spec answer s) = sv_task_specs s"
  "sv_cancelled (tell_manager spec answer s) = sv_cancelled s" "sv_restarts (tell_manager spec answer s) = sv_restarts s"
  "sv_manager_told (tell_manager spec answer s) \<longleftrightarrow> sv_manager_told s \<or> spec = TS_ActivityDispatcher"
  "running_specs (tell_manager spec answer s) = running_specs s"
  by (auto simp: tell_manager_def running_specs_def)

lemma restart_decision_fields:
  assumes "restart_decision_of policy e task s = (decision, s')"
  shows "sv_tasks s' = sv_tasks s" "sv_task_specs s' = sv_task_specs s" "sv_cancelled s' = sv_cancelled s"
    "sv_manager_told s' = sv_manager_told s" "sv_errors s' = sv_errors s" "running_specs s' = running_specs s"
  using assms by (auto simp: restart_decision_of_def Let_def split: if_splits prod.splits option.splits)

text \<open>A task that ends is out; it comes back under a new id, or the runtime is cancelled.\<close>

lemma task_ended_cases:
  assumes "supervision_ok roster s" and "supervisor_event_ok s (Task_Ended e)"
  obtains t where "sv_task_specs s (te_id e) = Some t"
    and "running_specs s = add_mset (st_spec t) (running_specs (without_task (te_id e) s))"
    and "task_ended policy e s =
      (if sv_cancelled s then ended_cancelled e (st_spec t) (without_task (te_id e) s)
       else ended_running policy e t (without_task (te_id e) s))"
proof -
  from assms have i: "te_id e \<in> set (sv_tasks s)" "distinct (sv_tasks s)" "te_id e \<in> dom (sv_task_specs s)"
    by (simp_all add: supervision_ok_def)
  then obtain t where t: "sv_task_specs s (te_id e) = Some t" by blast
  show ?thesis
  proof (rule that [OF t running_specs_without [OF i(2,1) t]])
    show "task_ended policy e s =
      (if sv_cancelled s then ended_cancelled e (st_spec t) (without_task (te_id e) s)
       else ended_running policy e t (without_task (te_id e) s))"
      by (simp add: task_ended_def t without_task_def Let_def)
  qed
qed


lemma ended_cancelled_fields [simp]:
  "sv_tasks (ended_cancelled e spec s) = sv_tasks s" "sv_task_specs (ended_cancelled e spec s) = sv_task_specs s"
  "sv_cancelled (ended_cancelled e spec s) = sv_cancelled s" "sv_restarts (ended_cancelled e spec s) = sv_restarts s"
  "sv_manager_told (ended_cancelled e spec s) \<longleftrightarrow> sv_manager_told s \<or> spec = TS_ActivityDispatcher"
  "running_specs (ended_cancelled e spec s) = running_specs s"
  by (simp_all add: ended_cancelled_def)

lemma supervision_ok_less:
  assumes "supervision_ok roster s" and "running_specs s = add_mset spec (running_specs s')"
    and "distinct (sv_tasks s')" and "dom (sv_task_specs s') = set (sv_tasks s')" and "sv_cancelled s'"
    and "sv_manager_told s' \<longleftrightarrow> sv_manager_told s \<or> spec = TS_ActivityDispatcher"
  shows "supervision_ok roster s'"
proof -
  from assms(1,2) have "add_mset spec (running_specs s') \<subseteq># roster" by (simp add: supervision_ok_def)
  then have "running_specs s' \<subseteq># roster" by (metis mset_subset_eq_insertD subset_mset.less_imp_le)
  with assms show ?thesis by (simp add: supervision_ok_def) blast
qed

lemma task_ended_ok:
  assumes ok: "supervision_ok roster s" and event: "supervisor_event_ok s (Task_Ended e)"
  shows "supervision_ok roster (task_ended policy e s)"
proof -
  from task_ended_cases [OF ok event, of policy] obtain t
    where t: "running_specs s = add_mset (st_spec t) (running_specs (without_task (te_id e) s))"
      and step: "task_ended policy e s =
        (if sv_cancelled s then ended_cancelled e (st_spec t) (without_task (te_id e) s)
         else ended_running policy e t (without_task (te_id e) s))" by blast
  let ?w = "without_task (te_id e) s"
  have w: "distinct (sv_tasks ?w)" "dom (sv_task_specs ?w) = set (sv_tasks ?w)" "te_new_id e \<notin> set (sv_tasks ?w)"
    using ok event by (auto simp: supervision_ok_def)
  show ?thesis
  proof (cases "sv_cancelled s")
    case True
    then have "task_ended policy e s = ended_cancelled e (st_spec t) ?w" by (simp add: step)
    with True w t show ?thesis by (intro supervision_ok_less [OF ok]) simp_all
  next
    case False
    obtain decision s1 where d: "restart_decision_of policy e t ?w = (decision, s1)" by fastforce
    note f = restart_decision_fields [OF d]
    from ok False have roster: "running_specs s = roster" by (simp add: supervision_ok_def)
    show ?thesis
    proof (cases decision)
      case (Restart_After delay)
      let ?s2 = "s1\<lparr>sv_errors := sv_errors s1 @ [fst (task_failure_of (st_spec t) (te_end e))]\<rparr>"
      have s': "task_ended policy e s = spawn_child (te_new_id e) (te_spawned_at e) (st_spec t) delay ?s2"
        using False Restart_After by (simp add: step ended_running_def d Let_def)
      have "running_specs (task_ended policy e s) = roster"
        using w(3) t roster unfolding s' by (subst running_specs_spawn) (simp_all add: f)
      moreover have "distinct (sv_tasks (task_ended policy e s))" "dom (sv_task_specs (task_ended policy e s)) =
          set (sv_tasks (task_ended policy e s))" "sv_manager_told (task_ended policy e s) = sv_manager_told s"
        using w by (auto simp: s' spawn_child_def f)
      ultimately show ?thesis using ok roster by (auto simp: supervision_ok_def)
    next
      case (Stop reason)
      then have "task_ended policy e s = tell_manager (st_spec t) (te_manager e)
          (s1\<lparr>sv_errors := sv_errors s1 @ [fst (task_failure_of (st_spec t) (te_end e))], sv_cancelled := True\<rparr>)"
        using False by (simp add: step ended_running_def d Let_def)
      with w t show ?thesis by (intro supervision_ok_less [OF ok]) (simp_all add: f)
    qed
  qed
qed


section \<open>Runs\<close>

fun supervisor_events_ok :: "restart_policy \<Rightarrow> supervisor_event list \<Rightarrow> supervision \<Rightarrow> bool" where
  "supervisor_events_ok policy [] s \<longleftrightarrow> True"
| "supervisor_events_ok policy (event # rest) s \<longleftrightarrow>
     supervisor_event_ok s event \<and> supervisor_events_ok policy rest (supervisor_step policy event s)"

fun is_task_end :: "supervisor_event \<Rightarrow> bool" where
  "is_task_end (Task_Ended e) = True"
| "is_task_end Cancelled = False"

lemma supervisor_step_ok:
  assumes "supervision_ok roster s" and "supervisor_event_ok s event"
  shows "supervision_ok roster (supervisor_step policy event s)"
proof (cases event)
  case (Task_Ended e)
  with task_ended_ok [OF assms(1)] assms(2) show ?thesis by (simp add: supervisor_step_def)
qed (use assms(1) in \<open>auto simp: supervisor_step_def supervision_ok_def\<close>)

lemma supervise_done: "sv_tasks s = [] \<Longrightarrow> supervise policy events s = Supervised (sv_errors s)"
  by (subst supervise.simps) simp

lemma supervise_on:
  assumes "sv_tasks s \<noteq> []"
  shows "supervise policy [] s = Supervising s"
    and "supervise policy (event # rest) s = supervise policy rest (supervisor_step policy event s)"
  using assms by (subst supervise.simps, simp)+

lemma supervise_keeps_ok:
  assumes "supervision_ok roster s" and "supervisor_events_ok policy events s"
  shows "case supervise policy events s of Supervising s' \<Rightarrow> supervision_ok roster s' | Supervised _ \<Rightarrow> True"
  using assms
proof (induction events arbitrary: s)
  case (Cons event rest)
  then show ?case
    by (cases "sv_tasks s = []") (auto simp: supervise_done supervise_on intro: supervisor_step_ok)
next
  case Nil
  then show ?case by (cases "sv_tasks s = []") (simp_all add: supervise_done supervise_on)
qed

lemma cancelled_step:
  assumes "supervision_ok roster s" and "supervisor_event_ok s event" and "sv_cancelled s"
  shows "sv_cancelled (supervisor_step policy event s) \<and>
    length (sv_tasks (supervisor_step policy event s)) = length (sv_tasks s) - (if is_task_end event then 1 else 0)"
proof (cases event)
  case (Task_Ended e)
  with assms(2) have ev: "supervisor_event_ok s (Task_Ended e)" by simp
  from task_ended_cases [OF assms(1) this, of policy] obtain t where "task_ended policy e s =
      (if sv_cancelled s then ended_cancelled e (st_spec t) (without_task (te_id e) s)
       else ended_running policy e t (without_task (te_id e) s))" by blast
  with assms(3) Task_Ended have "supervisor_step policy event s = ended_cancelled e (st_spec t) (without_task (te_id e) s)"
    by (simp add: supervisor_step_def)
  moreover from assms Task_Ended have "distinct (sv_tasks s)" "te_id e \<in> set (sv_tasks s)" by (simp_all add: supervision_ok_def)
  ultimately show ?thesis using assms(3) Task_Ended by (simp add: length_filter_remove(1))
qed (use assms in \<open>simp add: supervisor_step_def\<close>)

lemma cancelled_supervise:
  assumes "supervision_ok roster s" and "supervisor_events_ok policy events s" and "sv_cancelled s"
    and "length (sv_tasks s) \<le> length (filter is_task_end events)"
  shows "\<exists>errors. supervise policy events s = Supervised errors"
  using assms
proof (induction events arbitrary: s)
  case (Cons event rest)
  show ?case
  proof (cases "sv_tasks s = []")
    case False
    with Cons.prems have event: "supervisor_event_ok s event" by simp
    note step = cancelled_step [OF Cons.prems(1) event Cons.prems(3), of policy]
    have "length (sv_tasks (supervisor_step policy event s)) \<le> length (filter is_task_end rest)"
      using step Cons.prems(4) by (auto split: if_splits)
    then have "\<exists>errors. supervise policy rest (supervisor_step policy event s) = Supervised errors"
      using step Cons.prems(2) by (intro Cons.IH [OF supervisor_step_ok [OF Cons.prems(1) event]]) simp_all
    with False show ?thesis by (simp add: supervise_on)
  qed (simp add: supervise_done)
qed (simp add: supervise_done)

lemma spawn_all_ok:
  assumes "distinct (sv_tasks s @ map fst xs)" and "dom (sv_task_specs s) = set (sv_tasks s)"
  shows "running_specs (spawn_all xs s) = running_specs s + mset (map (snd \<circ> snd) xs) \<and>
    sv_tasks (spawn_all xs s) = sv_tasks s @ map fst xs \<and>
    dom (sv_task_specs (spawn_all xs s)) = set (sv_tasks (spawn_all xs s)) \<and>
    sv_cancelled (spawn_all xs s) = sv_cancelled s \<and> sv_restarts (spawn_all xs s) = sv_restarts s"
  using assms
proof (induction xs arbitrary: s)
  case (Cons x xs)
  obtain i now spec where x: "x = (i, now, spec)" by (cases x)
  let ?s = "spawn_child i now spec 0 s"
  have "distinct (sv_tasks ?s @ map fst xs)" "dom (sv_task_specs ?s) = set (sv_tasks ?s)"
    "sv_tasks ?s = sv_tasks s @ [i]" "sv_cancelled ?s = sv_cancelled s" "sv_restarts ?s = sv_restarts s"
    using Cons.prems x by (auto simp: spawn_child_def)
  moreover have "running_specs ?s = add_mset spec (running_specs s)"
    using Cons.prems x by (intro running_specs_spawn) auto
  ultimately show ?case using Cons.IH [of ?s] by (simp add: x)
qed simp

lemma supervise_start_ok:
  assumes "distinct ids" and "length ids = length (runtime_specs schedules)" and "length instants = length (runtime_specs schedules)"
  shows "supervision_ok (mset (runtime_specs schedules)) (supervise_start schedules ids instants)"
    and "\<not> sv_cancelled (supervise_start schedules ids instants)"
    and "sv_restarts (supervise_start schedules ids instants) = Map.empty"
proof -
  define specs where "specs = runtime_specs schedules"
  let ?xs = "zip ids (zip instants specs)"
  let ?e = "\<lparr>sv_tasks = [], sv_task_specs = Map.empty, sv_cancelled = False, sv_errors = [], sv_restarts = Map.empty,
    sv_manager_told = False\<rparr>"
  have xs: "map fst ?xs = ids" "map (snd \<circ> snd) ?xs = specs"
    using assms(2,3) unfolding specs_def [symmetric] by (simp_all flip: map_map)
  have "distinct (sv_tasks ?e @ map fst ?xs)" "dom (sv_task_specs ?e) = set (sv_tasks ?e)"
    unfolding xs using assms(1) by simp_all
  note all = spawn_all_ok [OF this, unfolded xs]
  have dispatcher: "TS_ActivityDispatcher \<in> set specs" by (simp add: specs_def runtime_specs_def)
  have start: "supervise_start schedules ids instants = spawn_all ?xs ?e" by (simp add: supervise_start_def specs_def)
  have "running_specs ?e = {#}" by (simp add: running_specs_def)
  with all assms(1) dispatcher show "supervision_ok (mset (runtime_specs schedules)) (supervise_start schedules ids instants)"
    unfolding start specs_def [symmetric] supervision_ok_def by simp
  from all show "\<not> sv_cancelled (supervise_start schedules ids instants)"
    "sv_restarts (supervise_start schedules ids instants) = Map.empty" unfolding start by simp_all
qed

section \<open>Each task follows its own policy\<close>

text \<open>The failures the supervisor decides on, with the task each is of.\<close>

fun failure_log :: "restart_policy \<Rightarrow> supervisor_event list \<Rightarrow> supervision \<Rightarrow> (task_spec \<times> task_failure) list" where
  "failure_log policy [] s = []"
| "failure_log policy (event # rest) s =
     (case event of
        Cancelled \<Rightarrow> []
      | Task_Ended e \<Rightarrow>
          (case sv_task_specs s (te_id e) of
             None \<Rightarrow> []
           | Some task \<Rightarrow> if sv_cancelled s then []
               else [(st_spec task, \<lparr>tf_at = te_now e, tf_ran_for = saturating_duration_since (te_now e) (st_runs_from task),
                 tf_kind = snd (task_failure_of (st_spec task) (te_end e))\<rparr>)])) @
     failure_log policy rest (supervisor_step policy event s)"

definition failures_of :: "task_spec \<Rightarrow> (task_spec \<times> task_failure) list \<Rightarrow> task_failure list" where
  "failures_of spec log = map snd (filter (\<lambda>(t, f). t = spec) log)"

text \<open>The restarts of one task after a sequence of failures; \<open>None\<close> when the policy gave up on it.\<close>

definition restarted :: "restart_policy \<Rightarrow> task_failure list \<Rightarrow> task_restarts option option" where
  "restarted policy fs =
     (case fs of
        [] \<Rightarrow> Some None
      | f # _ \<Rightarrow> map_option (\<lambda>(delays, r). Some r) (restarted_through policy (TaskRestarts_new (tf_at f) policy) fs))"

definition given_up :: "restart_policy \<Rightarrow> (task_spec \<times> task_failure) list \<Rightarrow> bool" where
  "given_up policy log \<longleftrightarrow> failures_of TS_ActivityExecutionManager log \<noteq> [] \<or>
     (\<exists>spec. spec \<noteq> TS_ActivityExecutionManager \<and> restarted policy (failures_of spec log) = None)"

definition follows_policies :: "restart_policy \<Rightarrow> (task_spec \<times> task_failure) list \<Rightarrow> supervision \<Rightarrow> bool" where
  "follows_policies policy log s \<longleftrightarrow>
     (if sv_cancelled s then given_up policy log
      else failures_of TS_ActivityExecutionManager log = [] \<and>
        (\<forall>spec. spec \<noteq> TS_ActivityExecutionManager \<longrightarrow>
           restarted policy (failures_of spec log) = Some (sv_restarts s spec)))"

lemma restarted_through_append:
  "restarted_through policy t (fs @ [f]) =
     (case restarted_through policy t fs of
        None \<Rightarrow> None
      | Some (delays, t') \<Rightarrow>
          (case on_failure t' (tf_at f) (tf_ran_for f) (tf_kind f) policy of
             (Stop _, _) \<Rightarrow> None
           | (Restart_After delay, t'') \<Rightarrow> Some (delays @ [delay], t'')))"
  by (induction fs arbitrary: t) (auto split: prod.splits restart_decision.splits option.splits)

lemma restarted_append:
  assumes "restarted policy fs = Some current"
  shows "restarted policy (fs @ [f]) =
    (case on_failure (case current of None \<Rightarrow> TaskRestarts_new (tf_at f) policy | Some r \<Rightarrow> r)
        (tf_at f) (tf_ran_for f) (tf_kind f) policy of
       (Stop _, _) \<Rightarrow> None
     | (Restart_After delay, r) \<Rightarrow> Some (Some r))"
proof (cases fs)
  case Nil
  with assms show ?thesis by (auto simp: restarted_def split: prod.splits restart_decision.splits)
next
  case (Cons g gs)
  with assms obtain delays r where "restarted_through policy (TaskRestarts_new (tf_at g) policy) fs = Some (delays, r)"
    "current = Some r" by (auto simp: restarted_def)
  with Cons restarted_through_append [of policy "TaskRestarts_new (tf_at g) policy" fs f] show ?thesis
    by (auto simp: restarted_def split: prod.splits restart_decision.splits)
qed

lemma failures_of_append [simp]:
  "failures_of spec (log @ [(t, f)]) = failures_of spec log @ (if t = spec then [f] else [])"
  by (simp add: failures_of_def)


lemma follows_step:
  assumes ok: "supervision_ok roster s" and event: "supervisor_event_ok s (Task_Ended e)"
    and follows: "follows_policies policy log s"
  shows "follows_policies policy (log @ take 1 (failure_log policy [Task_Ended e] s)) (supervisor_step policy (Task_Ended e) s)"
proof -
  from task_ended_cases [OF ok event, of policy] obtain t where t: "sv_task_specs s (te_id e) = Some t"
    and step: "task_ended policy e s =
        (if sv_cancelled s then ended_cancelled e (st_spec t) (without_task (te_id e) s)
         else ended_running policy e t (without_task (te_id e) s))" by blast
  show ?thesis
  proof (cases "sv_cancelled s")
    case True
    with follows t show ?thesis by (simp add: follows_policies_def supervisor_step_def step)
  next
    case False
    define f where "f = \<lparr>tf_at = te_now e, tf_ran_for = saturating_duration_since (te_now e) (st_runs_from t),
      tf_kind = snd (task_failure_of (st_spec t) (te_end e))\<rparr>"
    have f_simps: "tf_at f = te_now e" "tf_ran_for f = saturating_duration_since (te_now e) (st_runs_from t)"
      "tf_kind f = snd (task_failure_of (st_spec t) (te_end e))" by (simp_all add: f_def)
    have log: "log @ take 1 (failure_log policy [Task_Ended e] s) = log @ [(st_spec t, f)]"
      using t False by (simp add: f_def)
    show ?thesis
    proof (cases "st_spec t = TS_ActivityExecutionManager")
      case True
      with False show ?thesis
        unfolding log by (simp add: follows_policies_def given_up_def supervisor_step_def step ended_running_def
            restart_decision_of_def Let_def)
    next
      case other: False
      with False follows have r: "restarted policy (failures_of (st_spec t) log) = Some (sv_restarts s (st_spec t))"
        by (simp add: follows_policies_def)
      obtain decision r' where d: "on_failure (case sv_restarts s (st_spec t) of None \<Rightarrow> TaskRestarts_new (tf_at f) policy | Some r \<Rightarrow> r)
          (tf_at f) (tf_ran_for f) (tf_kind f) policy = (decision, r')" by fastforce
      note more = restarted_append [OF r, of f, unfolded d]
      have decide: "restart_decision_of policy e t (without_task (te_id e) s) =
          (decision, (without_task (te_id e) s)\<lparr>sv_restarts := (sv_restarts s)(st_spec t \<mapsto> r')\<rparr>)"
        using d [unfolded f_simps] other by (simp add: restart_decision_of_def Let_def)
      show ?thesis
      proof (cases decision)
        case (Restart_After delay)
        with False other follows more show ?thesis
          unfolding log by (auto simp: follows_policies_def supervisor_step_def step ended_running_def decide Let_def spawn_child_def)
      next
        case (Stop reason)
        with False other more show ?thesis
          unfolding log by (auto simp: follows_policies_def given_up_def supervisor_step_def step ended_running_def decide Let_def)
      qed
    qed
  qed
qed

lemma failure_log_Cons:
  "failure_log policy (event # rest) s = take 1 (failure_log policy [event] s) @ failure_log policy rest (supervisor_step policy event s)"
  by (cases event) (simp_all split: option.split)

lemma follows_run:
  assumes "supervision_ok roster s" and "supervisor_events_ok policy events s" and "list_all is_task_end events"
    and "follows_policies policy log s"
  shows "follows_policies policy (log @ failure_log policy events s) (fold (supervisor_step policy) events s)"
  using assms
proof (induction events arbitrary: s log)
  case (Cons event rest)
  then obtain e where e: "event = Task_Ended e" "supervisor_event_ok s (Task_Ended e)" by (cases event) auto
  from Cons.IH [OF supervisor_step_ok [OF Cons.prems(1) e(2)] _ _ follows_step [OF Cons.prems(1) e(2) Cons.prems(4)]]
    Cons.prems e(1) show ?case by (subst failure_log_Cons) simp
qed simp


lemma supervise_run_ok:
  assumes "supervision_ok roster s" and "supervisor_events_ok policy events s"
  shows "supervision_ok roster (fold (supervisor_step policy) events s)"
  using assms by (induction events arbitrary: s) (auto intro: supervisor_step_ok)

section \<open>Properties\<close>

text \<open>
  C25: no part of the engine is lost. However its tasks fail, panic or stop, and whenever it is
  cancelled: as long as the runtime is not cancelled, exactly one task runs for each part, with
  every schedule its own; afterwards no task is started that was not there; and whenever the
  execution manager runs, the dispatcher runs too or the manager has been told to shut down,
  so that the supervisor never waits for a manager nobody stops.
\<close>

theorem every_part_is_supervised:
  assumes "distinct ids" and "length ids = length (runtime_specs schedules)"
    and "length instants = length (runtime_specs schedules)"
    and "supervisor_events_ok policy events (supervise_start schedules ids instants)"
    and "supervise policy events (supervise_start schedules ids instants) = Supervising s"
  shows "(if sv_cancelled s then running_specs s \<subseteq># mset (runtime_specs schedules)
      else running_specs s = mset (runtime_specs schedules)) \<and>
    (TS_ActivityExecutionManager \<in># running_specs s \<longrightarrow>
      TS_ActivityDispatcher \<in># running_specs s \<or> sv_manager_told s)"
  using supervise_keeps_ok [OF supervise_start_ok(1) [OF assms(1-3)] assms(4)] assms(5)
  by (simp add: supervision_ok_def)

text \<open>The coordinator panics and is restarted; the runtime is cancelled and its dispatcher returns.\<close>

definition sample_supervision :: supervision where
  "sample_supervision = supervise_start [''daily''] [0, 1, 2, 3, 4, 5, 6] [0, 0, 0, 0, 0, 0, 0]"

definition sample_end :: "nat \<Rightarrow> task_end \<Rightarrow> int \<Rightarrow> supervisor_event" where
  "sample_end i result now = Task_Ended \<lparr>te_id = i, te_end = result, te_now = now, te_spawned_at = now, te_new_id = i + 10,
     te_manager = Inr ()\<rparr>"

definition sample_ends :: "supervisor_event list" where
  "sample_ends = [sample_end 1 (Task_Join \<lparr>jf_is_panic = True, jf_text = ''boom''\<rparr>) 50, Cancelled, sample_end 6 Task_Ok 60]"

theorem every_part_is_supervised_witness:
  "case supervise (RestartPolicy_new sample_restart_config) sample_ends sample_supervision of
     Supervised _ \<Rightarrow> False
   | Supervising s \<Rightarrow> TS_ActivityDispatcher \<in># running_specs s \<or> sv_manager_told s"
proof -
  let ?policy = "RestartPolicy_new sample_restart_config"
  let ?r = "supervise ?policy sample_ends sample_supervision"
  have ok: "supervisor_events_ok ?policy sample_ends sample_supervision" by code_simp
  have run: "case ?r of Supervised _ \<Rightarrow> False | Supervising s \<Rightarrow> TS_ActivityExecutionManager \<in># running_specs s"
    by code_simp
  then obtain s where s: "?r = Supervising s" by (auto split: supervising.splits)
  have "distinct [0, 1, 2, 3, 4, 5, 6 :: nat]" "length [0, 1, 2, 3, 4, 5, 6 :: nat] = length (runtime_specs [''daily''])"
    "length [0, 0, 0, 0, 0, 0, 0 :: int] = length (runtime_specs [''daily''])"
    by (simp_all add: runtime_specs_def)
  from every_part_is_supervised [OF this ok [unfolded sample_supervision_def] s [unfolded sample_supervision_def]] run s
  show ?thesis by simp
qed

text \<open>
  C27: a cancelled runtime stops. Once it is cancelled, by the application or because a task
  was given up, the supervisor starts nothing any more and returns as soon as the tasks that
  still run have ended.
\<close>

theorem cancelled_runtime_stops:
  assumes "distinct ids" and "length ids = length (runtime_specs schedules)"
    and "length instants = length (runtime_specs schedules)"
    and "supervisor_events_ok policy before (supervise_start schedules ids instants)"
    and "s = fold (supervisor_step policy) before (supervise_start schedules ids instants)" and "sv_cancelled s"
    and "supervisor_events_ok policy after s" and "length (sv_tasks s) \<le> length (filter is_task_end after)"
  shows "\<exists>errors. supervise policy after s = Supervised errors"
  using supervise_run_ok [OF supervise_start_ok(1) [OF assms(1-3)] assms(4)] assms(5-8) by (intro cancelled_supervise) simp_all

definition sample_last_ends :: "supervisor_event list" where
  "sample_last_ends = map (\<lambda>i. sample_end i Task_Ok 70) [0, 2, 3, 4, 5, 11]"

theorem cancelled_runtime_stops_witness:
  "\<exists>errors. supervise (RestartPolicy_new sample_restart_config) sample_last_ends
     (fold (supervisor_step (RestartPolicy_new sample_restart_config)) sample_ends sample_supervision) = Supervised errors"
proof -
  let ?policy = "RestartPolicy_new sample_restart_config"
  let ?s = "fold (supervisor_step ?policy) sample_ends sample_supervision"
  have "supervisor_events_ok ?policy sample_ends sample_supervision" "sv_cancelled ?s"
    "supervisor_events_ok ?policy sample_last_ends ?s" "length (sv_tasks ?s) \<le> length (filter is_task_end sample_last_ends)"
    by code_simp+
  then show ?thesis
    unfolding sample_supervision_def
    by (intro cancelled_runtime_stops [of "[0, 1, 2, 3, 4, 5, 6]" "[''daily'']" "[0, 0, 0, 0, 0, 0, 0]" ?policy sample_ends])
      (simp_all add: runtime_specs_def)
qed

text \<open>
  C26: the supervisor is its tasks' restart policies side by side. As long as nobody cancels the
  runtime from outside, it is cancelled exactly when the execution manager ended or one task's
  own sequence of failures, with the instants and run times the supervisor saw, is one its
  restart policy gives up on; the failures of one task never count against another.
\<close>

theorem runtime_gives_up_by_policy:
  assumes "distinct ids" and "length ids = length (runtime_specs schedules)"
    and "length instants = length (runtime_specs schedules)"
    and "supervisor_events_ok policy events (supervise_start schedules ids instants)" and "list_all is_task_end events"
  shows "sv_cancelled (fold (supervisor_step policy) events (supervise_start schedules ids instants)) \<longleftrightarrow>
    given_up policy (failure_log policy events (supervise_start schedules ids instants))"
proof -
  let ?s = "supervise_start schedules ids instants"
  note start = supervise_start_ok [OF assms(1-3)]
  have "follows_policies policy [] ?s"
    using start(2,3) by (simp add: follows_policies_def failures_of_def restarted_def)
  from follows_run [OF start(1) assms(4,5) this] show ?thesis
    by (auto simp: follows_policies_def given_up_def split: if_splits)
qed

theorem runtime_gives_up_by_policy_witness:
  "sv_cancelled (fold (supervisor_step (RestartPolicy_new sample_restart_config)) [sample_end 0 Task_Ok 5] sample_supervision)"
proof -
  let ?policy = "RestartPolicy_new sample_restart_config"
  have "supervisor_events_ok ?policy [sample_end 0 Task_Ok 5] sample_supervision"
    "list_all is_task_end [sample_end 0 Task_Ok 5]"
    "failures_of TS_ActivityExecutionManager (failure_log ?policy [sample_end 0 Task_Ok 5] sample_supervision) \<noteq> []"
    by code_simp+
  then show ?thesis
    unfolding sample_supervision_def
    by (subst runtime_gives_up_by_policy) (simp_all add: runtime_specs_def given_up_def)
qed

end
