(* ===== verification/Readiness.thy ===== *)
theory Readiness
  imports Registry Guarantees
begin

text \<open>
  Readiness (\<open>src/readiness.rs\<close>): before a process serves work it compares what is stored
  with what it has registered. Whatever the stored rows may still need, a definition for every
  workflow that has not ended, for every activity that may still run and for every dead letter
  an operator may retry, and a topic for each of them, has to be registered. The comparison
  reads the tables with five statements outside a transaction: \<open>seen k\<close> is the database that
  its statement number \<open>k\<close> sees.
\<close>

record readiness_report =
  rr_missing_workflows :: "definition_key list"
  rr_missing_activities :: "definition_key list"
  rr_missing_topics :: "string list"

text \<open>\<open>sort\<close> and \<open>dedup\<close>.\<close>

definition sort_dedup :: "'a::linorder list \<Rightarrow> 'a list" where
  "sort_dedup xs = remdups_adj (sort xs)"

definition ReadinessReport_compare ::
    "workflow_registry \<Rightarrow> activity_registry \<Rightarrow> definition_key list \<Rightarrow> definition_key list \<Rightarrow> readiness_report" where
  "ReadinessReport_compare W A required_workflows required_activities =
     \<lparr>rr_missing_workflows = sort_dedup (filter (\<lambda>(kind, version). \<not> registry_contains W kind version) required_workflows),
      rr_missing_activities = sort_dedup (filter (\<lambda>(kind, version). \<not> registry_contains A kind version) required_activities),
      rr_missing_topics = []\<rparr>"

definition stored_workflows :: "db \<Rightarrow> definition_key list" where
  "stored_workflows s =
     remdups (map (\<lambda>r. (wf_kind r, wf_version r)) (filter (\<lambda>r. wf_status r \<notin> set TERMINAL) (workflows s)))"

definition unfinished_activities :: "db \<Rightarrow> activity_row list" where
  "unfinished_activities s = filter (\<lambda>a. act_status a \<in> set NON_TERMINAL) (activities s)"

text \<open>The dead letters a workflow still waits for.\<close>

definition recoverable_dead_letters :: "db \<Rightarrow> activity_row list" where
  "recoverable_dead_letters s =
     filter (\<lambda>a. act_status a = AS_DeadLettered \<and>
       (\<exists>w \<in> set (workflows s). wf_id w = act_workflow_id a \<and> sql_eq (wf_wait_reference_id w) (Some (act_id a)) \<and>
          wf_status w \<in> set DEAD_LETTER_WAITERS \<and> sql_eq (wf_wait_kind w) (Some WK_Activity))) (activities s)"

definition ReadinessReport_query ::
    "workflow_registry \<Rightarrow> activity_registry \<Rightarrow> topic_registry \<Rightarrow> (nat \<Rightarrow> db) \<Rightarrow> readiness_report" where
  "ReadinessReport_query W A T seen =
     (let required_workflows = stored_workflows (seen 0);
          required_activities =
            remdups (map (\<lambda>a. (act_kind a, act_version a)) (unfinished_activities (seen 1))) @
            remdups (map (\<lambda>a. (act_kind a, act_version a)) (recoverable_dead_letters (seen 2)));
          stored_topics =
            remdups (map act_topic (unfinished_activities (seen 3))) @
            remdups (map act_topic (recoverable_dead_letters (seen 4)));
          report = ReadinessReport_compare W A required_workflows required_activities;
          required = required_topics A @ stored_topics
      in report\<lparr>rr_missing_topics := sort_dedup (filter (\<lambda>topic. topic_get T topic = None) required)\<rparr>)"

definition ensure_ready :: "readiness_report \<Rightarrow> durable_error + unit" where
  "ensure_ready report =
     (if rr_missing_workflows report = [] \<and> rr_missing_activities report = [] \<and> rr_missing_topics report = []
      then Inr ()
      else Inl (MissingDefinitions (rr_missing_workflows report) (rr_missing_activities report) (rr_missing_topics report)))"

section \<open>What a ready process can serve\<close>

lemma sort_dedup_set [simp]: "set (sort_dedup xs) = set xs"
  by (simp add: sort_dedup_def)

lemma remdups_adj_strict: "sorted xs \<Longrightarrow> sorted_wrt (<) (remdups_adj xs)"
  by (induction xs rule: remdups_adj.induct) (auto simp: le_less)

lemma sort_dedup_strict: "sorted_wrt (<) (sort_dedup xs)"
  by (simp add: sort_dedup_def remdups_adj_strict)

lemma sort_dedup_Nil: "sort_dedup xs = [] \<longleftrightarrow> xs = []"
  by (metis set_empty sort_dedup_set)

text \<open>
  What the stored rows may still ask of a process, written without the statements of the code:
  a workflow that has not ended, an activity that may still run, and a dead letter that the
  blocked or paused workflow it belongs to waits for.
\<close>

definition may_run :: "activity_row \<Rightarrow> bool" where
  "may_run a \<longleftrightarrow> act_status a = AS_Pending \<or> act_status a = AS_Running \<or> act_status a = AS_Cancelling"

definition waited_dead_letter :: "db \<Rightarrow> activity_row \<Rightarrow> bool" where
  "waited_dead_letter s a \<longleftrightarrow> act_status a = AS_DeadLettered \<and>
     (\<exists>w \<in> set (workflows s). wf_id w = act_workflow_id a \<and> (wf_status w = WS_Blocked \<or> wf_status w = WS_Paused) \<and>
        wf_wait_kind w = Some WK_Activity \<and> wf_wait_reference_id w = Some (act_id a))"

definition workflow_defined :: "workflow_registry \<Rightarrow> workflow_row \<Rightarrow> bool" where
  "workflow_defined W w \<longleftrightarrow> (\<exists>h. find_definition W (wf_kind w) (wf_version w) = Inr h)"

definition activity_defined :: "activity_registry \<Rightarrow> activity_row \<Rightarrow> bool" where
  "activity_defined A a \<longleftrightarrow> (\<exists>h. find_definition A (act_kind a) (act_version a) = Inr h)"

definition topic_defined :: "topic_registry \<Rightarrow> string \<Rightarrow> bool" where
  "topic_defined T topic \<longleftrightarrow> (\<exists>t. topic_get T topic = Some t)"

text \<open>
  \<open>serves W A T seen\<close>: the registries have the definition of every live workflow at the first
  moment, the definition of every activity that may run at the second and of every dead letter
  waited for at the third, and the topics of those at the fourth and the fifth.
\<close>

definition serves :: "workflow_registry \<Rightarrow> activity_registry \<Rightarrow> topic_registry \<Rightarrow> (nat \<Rightarrow> db) \<Rightarrow> bool" where
  "serves W A T seen \<longleftrightarrow>
     (\<forall>w \<in> set (workflows (seen 0)). \<not> ws_is_terminal (wf_status w) \<longrightarrow> workflow_defined W w) \<and>
     (\<forall>a \<in> set (activities (seen 1)). may_run a \<longrightarrow> activity_defined A a) \<and>
     (\<forall>a \<in> set (activities (seen 2)). waited_dead_letter (seen 2) a \<longrightarrow> activity_defined A a) \<and>
     (\<forall>a \<in> set (activities (seen 3)). may_run a \<longrightarrow> topic_defined T (act_topic a)) \<and>
     (\<forall>a \<in> set (activities (seen 4)). waited_dead_letter (seen 4) a \<longrightarrow> topic_defined T (act_topic a)) \<and>
     (\<forall>(k, h) \<in> set A. topic_defined T (ad_topic (ah_definition h)))"

lemma defined_iff:
  "workflow_defined W w \<longleftrightarrow> registry_contains W (wf_kind w) (wf_version w)"
  "activity_defined A a \<longleftrightarrow> registry_contains A (act_kind a) (act_version a)"
  "topic_defined T topic \<longleftrightarrow> topic_get T topic \<noteq> None"
  by (auto simp: workflow_defined_def activity_defined_def topic_defined_def registry_contains_def find_definition_def
      split: option.splits)

lemma unfinished_activities_iff: "a \<in> set (unfinished_activities s) \<longleftrightarrow> a \<in> set (activities s) \<and> may_run a"
  by (auto simp: unfinished_activities_def may_run_def NON_TERMINAL_def)

lemma recoverable_dead_letters_iff:
  "a \<in> set (recoverable_dead_letters s) \<longleftrightarrow> a \<in> set (activities s) \<and> waited_dead_letter s a"
  by (auto simp: recoverable_dead_letters_def waited_dead_letter_def DEAD_LETTER_WAITERS_def sql_eq_def)

lemma missing_sets:
  "set (rr_missing_workflows (ReadinessReport_query W A T seen)) =
     {(wf_kind w, wf_version w) |w. w \<in> set (workflows (seen 0)) \<and> \<not> ws_is_terminal (wf_status w) \<and>
        \<not> workflow_defined W w}"
  "set (rr_missing_activities (ReadinessReport_query W A T seen)) =
     {(act_kind a, act_version a) |a. \<not> activity_defined A a \<and>
        (a \<in> set (activities (seen 1)) \<and> may_run a \<or>
         a \<in> set (activities (seen 2)) \<and> waited_dead_letter (seen 2) a)}"
  "set (rr_missing_topics (ReadinessReport_query W A T seen)) =
     {topic. \<not> topic_defined T topic \<and>
        (topic \<in> (\<lambda>(k, h). ad_topic (ah_definition h)) ` set A \<or>
         (\<exists>a \<in> set (activities (seen 3)). may_run a \<and> topic = act_topic a) \<or>
         (\<exists>a \<in> set (activities (seen 4)). waited_dead_letter (seen 4) a \<and> topic = act_topic a))}"
  by (auto simp: ReadinessReport_query_def ReadinessReport_compare_def Let_def stored_workflows_def
      unfinished_activities_iff recoverable_dead_letters_iff defined_iff required_topics_def
      status_sets_match_predicates image_iff)

lemma ready_iff_serves: "ensure_ready (ReadinessReport_query W A T seen) = Inr () \<longleftrightarrow> serves W A T seen"
proof -
  let ?r = "ReadinessReport_query W A T seen"
  have "ensure_ready ?r = Inr () \<longleftrightarrow> set (rr_missing_workflows ?r) = {} \<and> set (rr_missing_activities ?r) = {} \<and>
      set (rr_missing_topics ?r) = {}"
    by (simp add: ensure_ready_def)
  moreover have "set (rr_missing_workflows ?r) = {} \<longleftrightarrow>
      (\<forall>w \<in> set (workflows (seen 0)). \<not> ws_is_terminal (wf_status w) \<longrightarrow> workflow_defined W w)"
    unfolding missing_sets by auto
  moreover have "set (rr_missing_activities ?r) = {} \<longleftrightarrow>
      (\<forall>a \<in> set (activities (seen 1)). may_run a \<longrightarrow> activity_defined A a) \<and>
      (\<forall>a \<in> set (activities (seen 2)). waited_dead_letter (seen 2) a \<longrightarrow> activity_defined A a)"
    unfolding missing_sets by auto
  moreover have "set (rr_missing_topics ?r) = {} \<longleftrightarrow>
      (\<forall>a \<in> set (activities (seen 3)). may_run a \<longrightarrow> topic_defined T (act_topic a)) \<and>
      (\<forall>a \<in> set (activities (seen 4)). waited_dead_letter (seen 4) a \<longrightarrow> topic_defined T (act_topic a)) \<and>
      (\<forall>(k, h) \<in> set A. topic_defined T (ad_topic (ah_definition h)))"
    unfolding missing_sets by fastforce
  ultimately show ?thesis unfolding serves_def by blast
qed

text \<open>
  A process is ready exactly when its registries serve what its statements saw. Otherwise the
  error names exactly what is missing, each once and in order.
\<close>

lemma readiness_is_exact:
  "(ensure_ready (ReadinessReport_query W A T seen) = Inr () \<longleftrightarrow> serves W A T seen) \<and>
   (\<forall>ws as ts. ensure_ready (ReadinessReport_query W A T seen) = Inl (MissingDefinitions ws as ts) \<longrightarrow>
      sorted_wrt (<) ws \<and> sorted_wrt (<) as \<and> sorted_wrt (<) ts \<and>
      set ws = {(wf_kind w, wf_version w) |w. w \<in> set (workflows (seen 0)) \<and> \<not> ws_is_terminal (wf_status w) \<and>
        \<not> workflow_defined W w} \<and>
      set as = {(act_kind a, act_version a) |a. \<not> activity_defined A a \<and>
        (a \<in> set (activities (seen 1)) \<and> may_run a \<or>
         a \<in> set (activities (seen 2)) \<and> waited_dead_letter (seen 2) a)})"
proof (intro conjI allI impI ready_iff_serves)
  fix ws as ts
  let ?r = "ReadinessReport_query W A T seen"
  assume "ensure_ready ?r = Inl (MissingDefinitions ws as ts)"
  then have r: "ws = rr_missing_workflows ?r" "as = rr_missing_activities ?r" "ts = rr_missing_topics ?r"
    by (auto simp: ensure_ready_def split: if_splits)
  show "sorted_wrt (<) ws" "sorted_wrt (<) as" "sorted_wrt (<) ts"
    by (simp_all add: r ReadinessReport_query_def ReadinessReport_compare_def Let_def sort_dedup_strict)
  show "set ws = {(wf_kind w, wf_version w) |w. w \<in> set (workflows (seen 0)) \<and> \<not> ws_is_terminal (wf_status w) \<and>
        \<not> workflow_defined W w}"
    unfolding r by (rule missing_sets)
  show "set as = {(act_kind a, act_version a) |a. \<not> activity_defined A a \<and>
        (a \<in> set (activities (seen 1)) \<and> may_run a \<or>
         a \<in> set (activities (seen 2)) \<and> waited_dead_letter (seen 2) a)}"
    unfolding r by (rule missing_sets)
qed

section \<open>Work that was stored before the check\<close>

text \<open>
  The statements do not see one moment, but rows only evolve between them: what was stored when
  the first one ran and is unfinished later was unfinished when each of them ran.
\<close>

lemma live_before:
  assumes "db_evolves s t" and "keys_ok s" and "w \<in> set (workflows t)" and "\<not> ws_is_terminal (wf_status w)"
    and "wf_id w \<in> wf_id ` set (workflows s)"
  shows "\<exists>v \<in> set (workflows s). \<not> ws_is_terminal (wf_status v) \<and> workflow_identity v = workflow_identity w"
proof -
  from assms(5) obtain v where v: "v \<in> set (workflows s)" "wf_id v = wf_id w" by auto
  from assms(1) v(1) rows_evolve_mem [of workflow_evolves "workflows s" "workflows t" v] obtain v' where
    v': "v' \<in> set (workflows t)" "workflow_evolves v v'" by (auto simp: db_evolves_def)
  then have "wf_id v' = wf_id w" using v(2) by (simp add: workflow_evolves_def workflow_identity_def)
  moreover have "distinct (map wf_id (workflows t))"
    using db_evolves_keys [OF assms(1,2)] by (simp add: keys_ok_def workflow_keys_ok_def)
  ultimately have "v' = w" using v'(1) assms(3) by (simp add: distinct_map inj_on_def)
  with v v' assms(4) show ?thesis by (auto simp: workflow_evolves_def)
qed

lemma may_run_before:
  assumes "db_evolves s t" and "keys_ok s" and "a \<in> set (activities t)" and "may_run a"
    and "act_id a \<in> act_id ` set (activities s)"
  shows "\<exists>b \<in> set (activities s). may_run b \<and> activity_identity b = activity_identity a"
proof -
  from assms(5) obtain b where b: "b \<in> set (activities s)" "act_id b = act_id a" by auto
  from assms(1) b(1) rows_evolve_mem [of activity_evolves "activities s" "activities t" b] obtain b' where
    b': "b' \<in> set (activities t)" "activity_evolves b b'" by (auto simp: db_evolves_def)
  then have "act_id b' = act_id a" using b(2) by (simp add: activity_evolves_def activity_identity_def)
  moreover have "distinct (map act_id (activities t))"
    using db_evolves_keys [OF assms(1,2)] by (simp add: keys_ok_def activity_keys_ok_def)
  ultimately have "b' = a" using b'(1) assms(3) by (simp add: distinct_map inj_on_def)
  with b'(2) have "activity_identity b = activity_identity a" "may_run a \<Longrightarrow> may_run b"
    by (cases "act_status b"; simp add: activity_evolves_def may_run_def; metis activity_status.distinct)+
  with b(1) assms(4) show ?thesis by blast
qed

lemma stored_workflow_served:
  assumes "serves W A T seen" and "db_evolves (seen 0) t" and "keys_ok (seen 0)"
    and "w \<in> set (workflows t)" and "\<not> ws_is_terminal (wf_status w)"
    and "wf_id w \<in> wf_id ` set (workflows (seen 0))"
  shows "workflow_defined W w"
proof -
  from live_before [OF assms(2-6)] obtain v where "v \<in> set (workflows (seen 0))" "\<not> ws_is_terminal (wf_status v)"
    "workflow_identity v = workflow_identity w" by blast
  with assms(1) show ?thesis by (auto simp: serves_def defined_iff workflow_identity_def)
qed

lemma activity_ids_evolve:
  assumes "db_evolves s t"
  shows "act_id ` set (activities s) \<subseteq> act_id ` set (activities t)"
proof
  fix i assume "i \<in> act_id ` set (activities s)"
  then obtain b where b: "b \<in> set (activities s)" "act_id b = i" by auto
  from assms b(1) rows_evolve_mem [of activity_evolves "activities s" "activities t" b] obtain b' where
    "b' \<in> set (activities t)" "activity_evolves b b'" by (auto simp: db_evolves_def)
  moreover from this have "act_id b' = act_id b" by (simp add: activity_evolves_def activity_identity_def)
  ultimately show "i \<in> act_id ` set (activities t)" using b(2) by (metis image_eqI)
qed

lemma stored_activity_served:
  assumes "serves W A T seen" and "\<And>k. db_evolves (seen k) (seen (Suc k))" and "db_evolves (seen 3) t"
    and "keys_ok (seen 0)" and "a \<in> set (activities t)" and "may_run a"
    and "act_id a \<in> act_id ` set (activities (seen 0))"
  shows "activity_defined A a \<and> topic_defined T (act_topic a)"
proof -
  have later: "db_evolves (seen j) (seen (j + d))" for j d
    by (induction d) (auto intro: evolution.refl evolution.trans assms(2))
  have before: "\<exists>b \<in> set (activities (seen k)). may_run b \<and> activity_identity b = activity_identity a" if "k \<le> 3" for k
  proof (rule may_run_before [OF _ _ assms(5,6)])
    have "db_evolves (seen 0) (seen k)" "db_evolves (seen k) (seen 3)"
      using later [of 0 k] later [of k "3 - k"] that by simp_all
    then show "db_evolves (seen k) t" "keys_ok (seen k)" "act_id a \<in> act_id ` set (activities (seen k))"
      using assms(3,4) activity_ids_evolve [of "seen 0" "seen k"] assms(7)
      by (auto dest: db_evolves_keys intro: evolution.trans)
  qed
  from before [of 1] obtain b where "b \<in> set (activities (seen 1))" "may_run b" "activity_identity b = activity_identity a"
    by auto
  then have "activity_defined A a" using assms(1) by (auto simp: serves_def defined_iff activity_identity_def)
  moreover from before [of 3] obtain c where "c \<in> set (activities (seen 3))" "may_run c"
    "activity_identity c = activity_identity a" by auto
  then have "topic_defined T (act_topic a)" using assms(1) by (auto simp: serves_def activity_identity_def)
  ultimately show ?thesis by blast
qed

end
