(* ===== verification/Cursors.thy ===== *)
theory Cursors
  imports Admin_Control "HOL-Library.Word"
begin

text \<open>
  Pages and cursors of the operator's lists (\<open>src/admin/cursor.rs\<close>, \<open>PageRequest\<close> of
  \<open>src/admin/types.rs\<close> and the cursor readers of \<open>src/admin/query.rs\<close> and
  \<open>src/admin/metrics.rs\<close>). A cursor is the JSON form of a position in base64; both codecs are
  libraries, so they are the parameter \<open>cursor_codec\<close>, and \<open>codec_ok\<close> says what is
  documented of them: reading back what was written gives it.
\<close>

unbundle bit_operations_syntax

section \<open>Page requests\<close>

definition MAX_ADMIN_PAGE_SIZE :: u32 where
  "MAX_ADMIN_PAGE_SIZE = 100"

definition MAX_TIMELINE_PAGE_SIZE :: u32 where
  "MAX_TIMELINE_PAGE_SIZE = 200"

definition DEFAULT_ADMIN_PAGE_SIZE :: u32 where
  "DEFAULT_ADMIN_PAGE_SIZE = 50"

record page_request =
  pr_cursor :: "string option"
  pr_limit :: "u32 option"

definition bounded_limit :: "page_request \<Rightarrow> u32 \<Rightarrow> durable_error + u32" where
  "bounded_limit page maximum =
     (let limit = (case pr_limit page of None \<Rightarrow> DEFAULT_ADMIN_PAGE_SIZE | Some l \<Rightarrow> l) in
      if limit = 0 \<or> limit > maximum
      then Inl (InvalidDefinition (''page limit must contain 1 to '' @ dec_int maximum @ '' entries''))
      else Inr limit)"

record 'a admin_page =
  pg_items :: "'a list"
  pg_next_cursor :: "string option"

section \<open>Cursors\<close>

definition CURSOR_VERSION :: int where
  "CURSOR_VERSION = 1"

definition MAX_CURSOR_BYTES :: nat where
  "MAX_CURSOR_BYTES = 512"

record cursor_position =
  cp_timestamp :: i64
  cp_tie_breaker :: string

record cursor_payload =
  pl_version :: int
  pl_scope :: string
  pl_timestamp :: i64
  pl_tie_breaker :: string

record cursor_codec =
  to_vec :: "cursor_payload \<Rightarrow> string option"
  from_slice :: "string \<Rightarrow> cursor_payload option"
  base64_encode :: "string \<Rightarrow> string"
  base64_decode :: "string \<Rightarrow> string option"

definition invalid_cursor :: "string \<Rightarrow> durable_error" where
  "invalid_cursor message = InvalidCursor message"

definition is_ascii :: "string \<Rightarrow> bool" where
  "is_ascii t = list_all (\<lambda>c. (of_char c :: nat) < 128) t"

definition validate_scope :: "string \<Rightarrow> durable_error + unit" where
  "validate_scope scope =
     (if scope = [] \<or> length scope > 64 \<or> \<not> is_ascii scope
      then Inl (invalid_cursor ''cursor scope is invalid'') else Inr ())"

definition validate_tie_breaker :: "string \<Rightarrow> durable_error + unit" where
  "validate_tie_breaker tie_breaker =
     (if tie_breaker = [] \<or> length tie_breaker > 191
      then Inl (invalid_cursor ''cursor tie breaker is invalid'') else Inr ())"

definition encode_cursor :: "cursor_codec \<Rightarrow> string \<Rightarrow> cursor_position \<Rightarrow> durable_error + string" where
  "encode_cursor K scope position =
     (case validate_scope scope of
        Inl e \<Rightarrow> Inl e
      | Inr _ \<Rightarrow>
          (case validate_tie_breaker (cp_tie_breaker position) of
             Inl e \<Rightarrow> Inl e
           | Inr _ \<Rightarrow>
               (case to_vec K \<lparr>pl_version = CURSOR_VERSION, pl_scope = scope,
                     pl_timestamp = cp_timestamp position, pl_tie_breaker = cp_tie_breaker position\<rparr> of
                  None \<Rightarrow> Inl Serialization
                | Some json \<Rightarrow> Inr (base64_encode K json))))"

definition decode_cursor :: "cursor_codec \<Rightarrow> string \<Rightarrow> string \<Rightarrow> durable_error + cursor_position" where
  "decode_cursor K scope cursor =
     (case validate_scope scope of
        Inl e \<Rightarrow> Inl e
      | Inr _ \<Rightarrow>
          if cursor = [] \<or> length cursor > MAX_CURSOR_BYTES
          then Inl (invalid_cursor ''cursor length is outside the allowed range'')
          else
            (case base64_decode K cursor of
               None \<Rightarrow> Inl (invalid_cursor ''cursor is not valid URL-safe base64'')
             | Some bytes \<Rightarrow>
                 (case from_slice K bytes of
                    None \<Rightarrow> Inl (invalid_cursor ''cursor payload is malformed'')
                  | Some payload \<Rightarrow>
                      if pl_version payload \<noteq> CURSOR_VERSION
                      then Inl (invalid_cursor ''cursor version is not supported'')
                      else if pl_scope payload \<noteq> scope
                      then Inl (invalid_cursor ''cursor belongs to a different collection'')
                      else
                        (case validate_tie_breaker (pl_tie_breaker payload) of
                           Inl e \<Rightarrow> Inl e
                         | Inr _ \<Rightarrow>
                             Inr \<lparr>cp_timestamp = pl_timestamp payload,
                                  cp_tie_breaker = pl_tie_breaker payload\<rparr>))))"

text \<open>FNV-1a over the bytes of a text, with the wrapping multiplication of \<open>u64\<close>.\<close>

definition fnv_step :: "char \<Rightarrow> 64 word \<Rightarrow> 64 word" where
  "fnv_step byte hash = (hash XOR of_char byte) * 0x00000100000001b3"

definition fnv_hash :: "string \<Rightarrow> 64 word" where
  "fnv_hash bytes = fold fnv_step bytes 0xcbf29ce484222325"

definition hex_digit :: "nat \<Rightarrow> char" where
  "hex_digit n = ''0123456789abcdef'' ! n"

definition hex16 :: "64 word \<Rightarrow> string" where
  "hex16 hash = map (\<lambda>i. hex_digit (unat (drop_bit (4 * i) hash AND 15))) (rev [0..<16])"

definition scoped_cursor_scope :: "string \<Rightarrow> string \<Rightarrow> string" where
  "scoped_cursor_scope collection identity = collection @ '':'' @ hex16 (fnv_hash identity)"

section \<open>Reading a position\<close>

text \<open>\<open>str::parse\<close> for \<open>i64\<close> and \<open>u8\<close>.\<close>

definition parse_i64 :: "string \<Rightarrow> i64 option" where
  "parse_i64 t =
     (let (sign, digits) =
        (case t of
           [] \<Rightarrow> (1, [])
         | c # cs \<Rightarrow> if c = CHR ''-'' then (-1, cs) else if c = CHR ''+'' then (1, cs) else (1, t))
      in if digits = [] then None
         else (case digits_value 0 digits of
                 None \<Rightarrow> None
               | Some n \<Rightarrow> if in_signed 64 (sign * n) then Some (sign * n) else None))"

definition parse_u8 :: "string \<Rightarrow> int option" where
  "parse_u8 t =
     (let digits = (case t of [] \<Rightarrow> [] | c # cs \<Rightarrow> if c = CHR ''+'' then cs else t)
      in if digits = [] then None
         else (case digits_value 0 digits of
                 None \<Rightarrow> None
               | Some n \<Rightarrow> if in_unsigned 8 n then Some n else None))"

definition decode_numeric_cursor :: "cursor_codec \<Rightarrow> string \<Rightarrow> string \<Rightarrow> durable_error + i64 \<times> i64" where
  "decode_numeric_cursor K scope cursor =
     (case decode_cursor K scope cursor of
        Inl e \<Rightarrow> Inl e
      | Inr position \<Rightarrow>
          (case parse_i64 (cp_tie_breaker position) of
             None \<Rightarrow> Inl (InvalidCursor ''cursor tie breaker is not numeric'')
           | Some n \<Rightarrow>
               if n \<le> 0 then Inl (InvalidCursor ''cursor tie breaker must be positive'')
               else Inr (cp_timestamp position, n)))"

definition decode_string_cursor :: "cursor_codec \<Rightarrow> string \<Rightarrow> string \<Rightarrow> durable_error + string" where
  "decode_string_cursor K scope cursor =
     (case decode_cursor K scope cursor of
        Inl e \<Rightarrow> Inl e
      | Inr position \<Rightarrow>
          if cp_timestamp position \<noteq> 0 \<or> cp_tie_breaker position = []
          then Inl (InvalidCursor ''string cursor position is invalid'')
          else Inr (cp_tie_breaker position))"

definition encode_string_cursor :: "cursor_codec \<Rightarrow> string \<Rightarrow> string \<Rightarrow> durable_error + string" where
  "encode_string_cursor K scope cursor_value =
     encode_cursor K scope \<lparr>cp_timestamp = 0, cp_tie_breaker = cursor_value\<rparr>"

record timeline_cursor =
  tc_timestamp :: i64
  tc_rank :: int
  tc_id :: i64
  tc_attempt_number :: i32
  tc_sequence :: i32

text \<open>\<open>str::split(':')\<close>.\<close>

fun split_colon :: "string \<Rightarrow> string list" where
  "split_colon [] = [[]]"
| "split_colon (c # cs) =
     (if c = CHR '':'' then [] # split_colon cs
      else (case split_colon cs of [] \<Rightarrow> [[c]] | p # ps \<Rightarrow> (c # p) # ps))"

fun parse_components :: "string list \<Rightarrow> durable_error + i64 list" where
  "parse_components [] = Inr []"
| "parse_components (p # ps) =
     (case parse_i64 p of
        None \<Rightarrow> Inl (InvalidCursor ''timeline cursor component is not numeric'')
      | Some n \<Rightarrow> (case parse_components ps of Inl e \<Rightarrow> Inl e | Inr ns \<Rightarrow> Inr (n # ns)))"

definition expected_components :: "int \<Rightarrow> nat option" where
  "expected_components rank =
     (if rank = 0 \<or> rank = 1 \<or> rank = 4 then Some 1
      else if rank = 2 then Some 2
      else if rank = 3 then Some 3
      else None)"

definition i32_component :: "string \<Rightarrow> i64 list \<Rightarrow> nat \<Rightarrow> durable_error + i32" where
  "i32_component message components i =
     (if i < length components
      then (case i32_try_from (components ! i) of None \<Rightarrow> Inl (InvalidCursor message) | Some n \<Rightarrow> Inr n)
      else Inr 0)"

definition decode_timeline_cursor :: "cursor_codec \<Rightarrow> string \<Rightarrow> string \<Rightarrow> durable_error + timeline_cursor" where
  "decode_timeline_cursor K scope cursor =
     (case decode_cursor K scope cursor of
        Inl e \<Rightarrow> Inl e
      | Inr position \<Rightarrow>
          (case split_colon (cp_tie_breaker position) of
             [] \<Rightarrow> Inl (InvalidCursor ''timeline cursor has no rank'')
           | first # parts \<Rightarrow>
               (case parse_u8 first of
                  None \<Rightarrow> Inl (InvalidCursor ''timeline cursor rank is invalid'')
                | Some rank \<Rightarrow>
                    (case parse_components parts of
                       Inl e \<Rightarrow> Inl e
                     | Inr components \<Rightarrow>
                         (case expected_components rank of
                            None \<Rightarrow> Inl (InvalidCursor ''timeline cursor rank is outside the supported range'')
                          | Some expected \<Rightarrow>
                              if length components \<noteq> expected \<or> (\<exists>n \<in> set components. n \<le> 0)
                              then Inl (InvalidCursor ''timeline cursor has invalid components'')
                              else
                                (case i32_component ''timeline cursor attempt number is outside the supported range''
                                       components 1 of
                                   Inl e \<Rightarrow> Inl e
                                 | Inr attempt_number \<Rightarrow>
                                     (case i32_component ''timeline cursor sequence is outside the supported range''
                                            components 2 of
                                        Inl e \<Rightarrow> Inl e
                                      | Inr sequence \<Rightarrow>
                                          Inr \<lparr>tc_timestamp = cp_timestamp position, tc_rank = rank,
                                               tc_id = components ! 0, tc_attempt_number = attempt_number,
                                               tc_sequence = sequence\<rparr>)))))))"

text \<open>\<open>{component:020}\<close>: zeros between the sign and the digits, to a width of twenty.\<close>

definition zero_pad :: "nat \<Rightarrow> string \<Rightarrow> string" where
  "zero_pad width t = replicate (width - length t) (CHR ''0'') @ t"

definition padded :: "int \<Rightarrow> string" where
  "padded i = (if i < 0 then ''-'' @ zero_pad 19 (dec_nat (nat (- i))) else zero_pad 20 (dec_nat (nat i)))"

fun join_colon :: "string list \<Rightarrow> string" where
  "join_colon [] = []"
| "join_colon [p] = p"
| "join_colon (p # ps) = p @ '':'' @ join_colon ps"

definition timeline_key :: "int \<Rightarrow> i64 list \<Rightarrow> string" where
  "timeline_key rank components = dec_int rank @ '':'' @ join_colon (map padded components)"

section \<open>Decimal texts read back\<close>

lemma digits_value_append:
  "digits_value acc (xs @ ys) = (case digits_value acc xs of None \<Rightarrow> None | Some a \<Rightarrow> digits_value a ys)"
  by (induction xs arbitrary: acc) (auto split: option.splits)

lemma digit_value_char: "k < 10 \<Longrightarrow> digit_value (char_of (48 + k :: nat)) = Some (int k)"
  by (simp add: digit_value_def less_eq_char_def)

lemma digits_value_dec_nat: "digits_value 0 (dec_nat n) = Some (int n)"
proof (induction n rule: dec_nat.induct)
  case (1 n)
  show ?case
  proof (cases "n < 10")
    case False
    with 1 have "digits_value 0 (dec_nat n) = Some (10 * int (n div 10) + int (n mod 10))"
      by (simp add: dec_nat.simps [of n] digits_value_append digit_value_char)
    also have "10 * int (n div 10) + int (n mod 10) = int n" by (simp add: zdiv_int zmod_int)
    finally show ?thesis .
  qed (simp add: dec_nat.simps [of n] digit_value_char)
qed

lemma digits_value_zeros: "digits_value 0 (replicate k (CHR ''0'') @ t) = digits_value 0 t"
proof (induction k)
  case (Suc k)
  moreover have "digit_value (CHR ''0'') = Some 0" by (simp add: digit_value_def)
  ultimately show ?case by simp
qed simp

lemma hd_dec_nat: "hd (dec_nat n) \<notin> {CHR ''-'', CHR ''+''}"
proof -
  obtain k where k: "k < 10" "hd (dec_nat n) = char_of (48 + k :: nat)"
    using dec_nat_digits hd_in_set [OF dec_nat_nonempty [of n]] by blast
  then have "of_char (hd (dec_nat n)) = (48 + k :: nat)" by simp
  moreover have "of_char (CHR ''-'') = (45 :: nat)" "of_char (CHR ''+'') = (43 :: nat)" by simp_all
  ultimately show ?thesis by force
qed

lemma parse_unsigned_text:
  assumes "digits_value 0 t = Some n" and "t \<noteq> []" and "hd t \<notin> {CHR ''-'', CHR ''+''}"
  shows "in_signed 64 n \<Longrightarrow> parse_i64 t = Some n" and "in_unsigned 8 n \<Longrightarrow> parse_u8 t = Some n"
  using assms by (cases t; simp add: parse_i64_def parse_u8_def)+

lemma parse_i64_dec_int:
  assumes "in_signed 64 i"
  shows "parse_i64 (dec_int i) = Some i"
proof (cases "i < 0")
  case True
  with assms show ?thesis by (simp add: dec_int_def parse_i64_def digits_value_dec_nat)
next
  case False
  with assms parse_unsigned_text(1) [OF digits_value_dec_nat dec_nat_nonempty hd_dec_nat, of "nat i"]
  show ?thesis by (simp add: dec_int_def)
qed

lemma parse_u8_dec_int:
  assumes "in_unsigned 8 i"
  shows "parse_u8 (dec_int i) = Some i"
  using assms parse_unsigned_text(2) [OF digits_value_dec_nat dec_nat_nonempty hd_dec_nat, of "nat i"]
  by (simp add: dec_int_def in_unsigned_def)

lemma parse_i64_padded:
  assumes "0 < i" and "in_signed 64 i"
  shows "parse_i64 (padded i) = Some i"
proof -
  let ?t = "zero_pad 20 (dec_nat (nat i))"
  have "hd ?t \<notin> {CHR ''-'', CHR ''+''}" 
    using hd_dec_nat [of "nat i"] by (cases "20 - length (dec_nat (nat i))") (simp_all add: zero_pad_def)
  moreover have "digits_value 0 ?t = Some i" using assms(1)
    by (simp add: zero_pad_def digits_value_zeros digits_value_dec_nat)
  ultimately show ?thesis using assms parse_unsigned_text(1) [of ?t i]
    by (simp add: padded_def zero_pad_def)
qed

lemma padded_no_colon: "CHR '':'' \<notin> set (padded i)"
  using dec_nat_no_sep by (auto simp: padded_def zero_pad_def)

lemma split_colon_append:
  assumes "CHR '':'' \<notin> set p"
  shows "split_colon (p @ '':'' @ t) = p # split_colon t" and "split_colon p = [p]"
  using assms by (induction p) auto

lemma split_join:
  "list_all (\<lambda>p. CHR '':'' \<notin> set p) ps \<Longrightarrow> ps \<noteq> [] \<Longrightarrow> split_colon (join_colon ps) = ps"
proof (induction ps rule: join_colon.induct)
  case (2 p)
  then show ?case by (simp add: split_colon_append)
next
  case (3 p q ps)
  then show ?case using split_colon_append(1) [of p "join_colon (q # ps)"] by simp
qed simp

lemma parse_components_padded:
  "list_all (\<lambda>n. 0 < n \<and> in_signed 64 n) ns \<Longrightarrow> parse_components (map padded ns) = Inr ns"
  by (induction ns) (simp_all add: parse_i64_padded)

lemma dec_nat_length: "n < 10 ^ k \<Longrightarrow> 0 < k \<Longrightarrow> length (dec_nat n) \<le> k"
proof (induction n arbitrary: k rule: dec_nat.induct)
  case (1 n)
  show ?case
  proof (cases "n < 10")
    case False
    then obtain j where j: "k = Suc j" using 1 by (cases k) auto
    with False "1.prems" have "n div 10 < 10 ^ j" "0 < j" by (auto intro: gr0I)
    with "1.IH" [OF False] j False show ?thesis by (simp add: dec_nat.simps [of n])
  qed (use "1.prems" in \<open>simp add: dec_nat.simps [of n]\<close>)
qed

lemma dec_int_tie_breaker:
  assumes "in_signed 64 i"
  shows "validate_tie_breaker (dec_int i) = Inr ()"
proof -
  have "nat \<bar>i\<bar> < 10 ^ 20" using assms by (auto simp: in_signed_def)
  from dec_nat_length [OF this] have "length (dec_nat (nat \<bar>i\<bar>)) \<le> 20" by simp
  then show ?thesis by (cases "i < 0") (auto simp: validate_tie_breaker_def dec_int_def)
qed

lemma decode_numeric_written:
  "decode_cursor K scope t = Inr \<lparr>cp_timestamp = a, cp_tie_breaker = dec_int i\<rparr> \<Longrightarrow> 0 < i \<Longrightarrow> in_signed 64 i \<Longrightarrow>
   decode_numeric_cursor K scope t = Inr (a, i)"
  by (simp add: decode_numeric_cursor_def parse_i64_dec_int)

end
