(* ===== verification/Health.thy ===== *)
theory Health
  imports Readiness Cursors
begin

text \<open>
  Health (\<open>src/observability.rs\<close>): the scan that turns stored rows into alerts, and the
  counters of activations that rolled back without harm, whose transient errors raise an
  alert when one window holds too many of them. The log lines an alert becomes are output only.
\<close>

section \<open>The scanner\<close>

definition MAX_HEALTH_ALERTS_PER_KIND :: u32 where
  "MAX_HEALTH_ALERTS_PER_KIND = 100"

record health_scanner_config =
  hc_stale_after :: duration
  hc_max_alerts_per_kind :: u32

definition HealthScannerConfig_default :: health_scanner_config where
  "HealthScannerConfig_default = \<lparr>hc_stale_after = 5 * 60 * 1000000000, hc_max_alerts_per_kind = 25\<rparr>"

definition HealthScannerConfig_validate :: "health_scanner_config \<Rightarrow> durable_error + unit" where
  "HealthScannerConfig_validate config =
     (if hc_stale_after config = 0 \<or> hc_max_alerts_per_kind config = 0 \<or>
         hc_max_alerts_per_kind config > MAX_HEALTH_ALERTS_PER_KIND
      then Inl (InvalidDefinition (''health scanner bounds require a non-zero stale duration and 1 to '' @
             dec_int MAX_HEALTH_ALERTS_PER_KIND @ '' alerts per kind''))
      else Inr ())"

datatype health_alert =
  MissingWorkflowDefinition string i32
| MissingActivityDefinition string i32
| MissingTopic string
| ActivationExhausted i64 string i32
| ActivityDeadLettered i64 i64 string i32 string
| StaleWorkflow i64 string i32
| StaleActivity i64 i64 string i32 string
| TransientActivationErrors u32 u32 duration

record health_scan_report =
  hr_captured_at :: i64
  hr_alerts :: "health_alert list"

definition readiness_alerts :: "readiness_report \<Rightarrow> nat \<Rightarrow> health_alert list" where
  "readiness_alerts readiness limit =
     map (\<lambda>(kind, version). MissingWorkflowDefinition kind version) (take limit (rr_missing_workflows readiness)) @
     map (\<lambda>(kind, version). MissingActivityDefinition kind version) (take limit (rr_missing_activities readiness)) @
     map MissingTopic (take limit (rr_missing_topics readiness))"

definition effective_root :: "activity_row \<Rightarrow> i64" where
  "effective_root a = (case act_root_activity_id a of Some root \<Rightarrow> root | None \<Rightarrow> act_id a)"

definition resolved_roots :: "i64 list \<Rightarrow> db \<Rightarrow> i64 set" where
  "resolved_roots candidate_roots s =
     (if candidate_roots = [] then {}
      else set (map effective_root (filter (\<lambda>a. act_status a = AS_Succeeded \<and>
        ((\<exists>root \<in> set_option (act_root_activity_id a). root \<in> set candidate_roots) \<or> act_id a \<in> set candidate_roots))
        (activities s))))"

text \<open>The loop over the dead letters, which stops at the limit.\<close>

fun dead_letter_alerts :: "i64 set \<Rightarrow> nat \<Rightarrow> nat \<Rightarrow> activity_row list \<Rightarrow> health_alert list" where
  "dead_letter_alerts resolved limit unresolved [] = []"
| "dead_letter_alerts resolved limit unresolved (a # rest) =
     (if effective_root a \<in> resolved then dead_letter_alerts resolved limit unresolved rest
      else if unresolved \<ge> limit then []
      else ActivityDeadLettered (act_id a) (act_workflow_id a) (act_kind a) (act_version a) (act_topic a) #
           dead_letter_alerts resolved limit (unresolved + 1) rest)"

definition lease_stale :: "db_millis \<Rightarrow> db_millis option \<Rightarrow> bool" where
  "lease_stale stale_before lease_expires_at \<longleftrightarrow> sql_le lease_expires_at stale_before \<or> lease_expires_at = None"

text \<open>A scan reads with ten statements outside a transaction; \<open>seen k\<close> is the database that statement \<open>k\<close> sees.\<close>

definition scan_once ::
    "workflow_registry \<Rightarrow> activity_registry \<Rightarrow> topic_registry \<Rightarrow> health_scanner_config \<Rightarrow> db_millis \<Rightarrow> (nat \<Rightarrow> db) \<Rightarrow>
     durable_error + health_scan_report" where
  "scan_once W A T config captured_at seen =
     (let limit = nat (hc_max_alerts_per_kind config) in
      case i64_try_from (hc_stale_after config div 1000000) of
        None \<Rightarrow> Inl (InvalidDefinition ''health scanner stale duration exceeds the database range'')
      | Some stale_millis \<Rightarrow>
          let stale_before = saturating_minus_millis captured_at stale_millis;
              exhausted = take limit (sort_key wf_id (filter (\<lambda>w. wf_status w = WS_Failed \<and>
                sql_eq (wf_error_category w) (Some ''activation'')) (workflows (seen 5))));
              dead_letters = sort_key act_id (filter (\<lambda>a. act_status a = AS_DeadLettered) (activities (seen 6)));
              resolved = resolved_roots (map effective_root dead_letters) (seen 7);
              stale_workflows = take limit (sort_key wf_id (filter (\<lambda>w. wf_status w = WS_Running \<and>
                lease_stale stale_before (wf_lease_expires_at w)) (workflows (seen 8))));
              stale_activities = take limit (sort_key act_id (filter (\<lambda>a. act_status a \<in> set LEASE_HOLDERS \<and>
                lease_stale stale_before (act_lease_expires_at a)) (activities (seen 9))))
          in Inr \<lparr>hr_captured_at = captured_at,
               hr_alerts =
                 readiness_alerts (ReadinessReport_query W A T seen) limit @
                 map (\<lambda>w. ActivationExhausted (wf_id w) (wf_kind w) (wf_version w)) exhausted @
                 dead_letter_alerts resolved limit 0 dead_letters @
                 map (\<lambda>w. StaleWorkflow (wf_id w) (wf_kind w) (wf_version w)) stale_workflows @
                 map (\<lambda>a. StaleActivity (act_id a) (act_workflow_id a) (act_kind a) (act_version a) (act_topic a))
                   stale_activities\<rparr>)"

text \<open>Which alert a failed schedule raises.\<close>

definition text_contains :: "string \<Rightarrow> string \<Rightarrow> bool" where
  "text_contains t part \<longleftrightarrow> (\<exists>i \<in> set [0..<Suc (length t)]. take (length part) (drop i t) = part)"

definition schedule_alert_kind :: "durable_error \<Rightarrow> string" where
  "schedule_alert_kind error =
     (case error of
        Conflict _ \<Rightarrow> ''schedule_definition_drift''
      | InvalidState message \<Rightarrow>
          if text_contains message ''occurrence scan bound'' then ''schedule_backlog_bound_exhausted''
          else ''schedule_materialization_failed''
      | _ \<Rightarrow> ''schedule_materialization_failed'')"

definition lease_fingerprint :: "string \<Rightarrow> string" where
  "lease_fingerprint token = hex16 (fnv_hash token)"

section \<open>Counters of benign activations\<close>

definition DEFAULT_MAX_TRANSIENT_ACTIVATION_ERRORS :: u32 where
  "DEFAULT_MAX_TRANSIENT_ACTIVATION_ERRORS = 10"

definition DEFAULT_TRANSIENT_ACTIVATION_WINDOW :: duration where
  "DEFAULT_TRANSIENT_ACTIVATION_WINDOW = 5 * 60 * 1000000000"

fun benign_activation_kind_as_str :: "benign_activation_kind \<Rightarrow> string" where
  "benign_activation_kind_as_str FenceMiss = ''fence_miss''"
| "benign_activation_kind_as_str Transient = ''transient''"

record transient_error_window =
  tw_max_errors :: u32
  tw_window :: duration
  tw_count :: u32
  tw_window_started :: "instant option"
  tw_peak_over_limit :: "u32 option"

definition TransientErrorWindow_new :: "u32 \<Rightarrow> duration \<Rightarrow> durable_error + transient_error_window" where
  "TransientErrorWindow_new max_errors window =
     (if max_errors = 0 \<or> window = 0
      then Inl (InvalidDefinition ''transient activation error alerts require a non-zero error limit and window'')
      else Inr \<lparr>tw_max_errors = max_errors, tw_window = window, tw_count = 0, tw_window_started = None,
                tw_peak_over_limit = None\<rparr>)"

definition TransientErrorWindow_record :: "transient_error_window \<Rightarrow> instant \<Rightarrow> transient_error_window" where
  "TransientErrorWindow_record w0 now =
     (let expired = (case tw_window_started w0 of None \<Rightarrow> True | Some started \<Rightarrow> max 0 (now - started) > tw_window w0);
          w1 = (if expired then w0\<lparr>tw_count := 0, tw_window_started := Some now\<rparr> else w0);
          w = w1\<lparr>tw_count := min max_u32 (tw_count w1 + 1)\<rparr>
      in if tw_count w > tw_max_errors w
         then w\<lparr>tw_peak_over_limit := Some (case tw_peak_over_limit w of None \<Rightarrow> tw_count w | Some peak \<Rightarrow> max peak (tw_count w))\<rparr>
         else w)"

definition TransientErrorWindow_take_alert :: "transient_error_window \<Rightarrow> health_alert option \<times> transient_error_window" where
  "TransientErrorWindow_take_alert w =
     (map_option (\<lambda>errors. TransientActivationErrors errors (tw_max_errors w) (tw_window w)) (tw_peak_over_limit w),
      w\<lparr>tw_peak_over_limit := None\<rparr>)"

record activation_counters =
  ac_fence_misses :: "64 word"
  ac_transient_errors :: "64 word"
  ac_transient_window :: transient_error_window

definition ActivationCounters_with_window :: "transient_error_window \<Rightarrow> activation_counters" where
  "ActivationCounters_with_window window =
     \<lparr>ac_fence_misses = 0, ac_transient_errors = 0, ac_transient_window = window\<rparr>"

definition ActivationCounters_new :: "u32 \<Rightarrow> duration \<Rightarrow> durable_error + activation_counters" where
  "ActivationCounters_new max_transient_errors window =
     (case TransientErrorWindow_new max_transient_errors window of
        Inl e \<Rightarrow> Inl e
      | Inr w \<Rightarrow> Inr (ActivationCounters_with_window w))"

definition ActivationCounters_default :: activation_counters where
  "ActivationCounters_default =
     ActivationCounters_with_window
       \<lparr>tw_max_errors = DEFAULT_MAX_TRANSIENT_ACTIVATION_ERRORS, tw_window = DEFAULT_TRANSIENT_ACTIVATION_WINDOW,
        tw_count = 0, tw_window_started = None, tw_peak_over_limit = None\<rparr>"

fun ActivationCounters_get :: "activation_counters \<Rightarrow> benign_activation_kind \<Rightarrow> 64 word" where
  "ActivationCounters_get c FenceMiss = ac_fence_misses c"
| "ActivationCounters_get c Transient = ac_transient_errors c"

fun ActivationCounters_record :: "activation_counters \<Rightarrow> benign_activation_kind \<Rightarrow> instant \<Rightarrow> activation_counters" where
  "ActivationCounters_record c FenceMiss now = c\<lparr>ac_fence_misses := ac_fence_misses c + 1\<rparr>"
| "ActivationCounters_record c Transient now =
     c\<lparr>ac_transient_errors := ac_transient_errors c + 1,
       ac_transient_window := TransientErrorWindow_record (ac_transient_window c) now\<rparr>"

definition take_transient_alert :: "activation_counters \<Rightarrow> health_alert option \<times> activation_counters" where
  "take_transient_alert c =
     (case TransientErrorWindow_take_alert (ac_transient_window c) of
        (alert, window) \<Rightarrow> (alert, c\<lparr>ac_transient_window := window\<rparr>))"

section \<open>What the scan reports\<close>

abbreviation dead_letter_alert :: "activity_row \<Rightarrow> health_alert" where
  "dead_letter_alert a \<equiv> ActivityDeadLettered (act_id a) (act_workflow_id a) (act_kind a) (act_version a) (act_topic a)"

lemma dead_letter_alerts_take:
  "dead_letter_alerts resolved limit n rows =
   map dead_letter_alert (take (limit - n) (filter (\<lambda>a. effective_root a \<notin> resolved) rows))"
proof (induction rows arbitrary: n)
  case (Cons a rows)
  show ?case
  proof (cases "limit \<le> n")
    case True
    with Cons [of n] show ?thesis by simp
  next
    case False
    then have "limit - n = Suc (limit - (n + 1))" by simp
    with False Cons show ?thesis by simp
  qed
qed simp

text \<open>A chain of replacements is resolved when one activity of it succeeded.\<close>

definition chain_resolved :: "db \<Rightarrow> activity_row \<Rightarrow> bool" where
  "chain_resolved s a \<longleftrightarrow> (\<exists>b \<in> set (activities s). act_status b = AS_Succeeded \<and> effective_root b = effective_root a)"

lemma resolved_roots_chain:
  assumes "effective_root a \<in> set roots"
  shows "effective_root a \<in> resolved_roots roots s \<longleftrightarrow> chain_resolved s a"
  using assms by (force simp: resolved_roots_def chain_resolved_def effective_root_def image_iff split: option.splits)

fun is_dead_letter_alert :: "health_alert \<Rightarrow> bool" where
  "is_dead_letter_alert (ActivityDeadLettered _ _ _ _ _) = True"
| "is_dead_letter_alert _ = False"

abbreviation exhausted_alert :: "workflow_row \<Rightarrow> health_alert" where
  "exhausted_alert w \<equiv> ActivationExhausted (wf_id w) (wf_kind w) (wf_version w)"

fun is_exhausted_alert :: "health_alert \<Rightarrow> bool" where
  "is_exhausted_alert (ActivationExhausted _ _ _) = True"
| "is_exhausted_alert _ = False"

text \<open>
  The dead letters a health scan reports are the oldest ones whose chain of retries has no
  success, as many as the configured limit and no more, each once; the workflows it reports as having
  exhausted their activations are the oldest ones too, within the same limit; a scan reports a workflow
  or an activity as stale only while it is leased and its lease ran out before the stale
  bound, or is missing.
\<close>

lemma health_scan_dead_letters:
  assumes "scan_once W A T config captured_at seen = Inr found"
  shows "filter is_dead_letter_alert (hr_alerts found) =
      map dead_letter_alert (take (nat (hc_max_alerts_per_kind config)) (sort_key act_id
        (filter (\<lambda>a. act_status a = AS_DeadLettered \<and> \<not> chain_resolved (seen 7) a) (activities (seen 6))))) \<and>
    filter is_exhausted_alert (hr_alerts found) =
      map exhausted_alert (take (nat (hc_max_alerts_per_kind config)) (sort_key wf_id
        (filter (\<lambda>w. wf_status w = WS_Failed \<and> sql_eq (wf_error_category w) (Some ''activation'')) (workflows (seen 5))))) \<and>
    (\<forall>i kind version. StaleWorkflow i kind version \<in> set (hr_alerts found) \<longrightarrow>
      (\<exists>w \<in> set (workflows (seen 8)). wf_id w = i \<and> wf_status w = WS_Running \<and>
        (\<forall>expiry. wf_lease_expires_at w = Some expiry \<longrightarrow>
           expiry \<le> saturating_minus_millis captured_at (hc_stale_after config div 1000000)))) \<and>
    (\<forall>i j kind version topic. StaleActivity i j kind version topic \<in> set (hr_alerts found) \<longrightarrow>
      (\<exists>a \<in> set (activities (seen 9)). act_id a = i \<and> holds_lease (act_status a) \<and>
        (\<forall>expiry. act_lease_expires_at a = Some expiry \<longrightarrow>
           expiry \<le> saturating_minus_millis captured_at (hc_stale_after config div 1000000))))"
proof -
  let ?limit = "nat (hc_max_alerts_per_kind config)"
    and ?stale = "saturating_minus_millis captured_at (hc_stale_after config div 1000000)"
  let ?dead = "sort_key act_id (filter (\<lambda>a. act_status a = AS_DeadLettered) (activities (seen 6)))"
  let ?stale_w = "take ?limit (sort_key wf_id (filter (\<lambda>w. wf_status w = WS_Running \<and>
    lease_stale ?stale (wf_lease_expires_at w)) (workflows (seen 8))))"
  let ?stale_a = "take ?limit (sort_key act_id (filter (\<lambda>a. act_status a \<in> set LEASE_HOLDERS \<and>
    lease_stale ?stale (act_lease_expires_at a)) (activities (seen 9))))"
  let ?exhausted = "take ?limit (sort_key wf_id (filter (\<lambda>w. wf_status w = WS_Failed \<and>
    sql_eq (wf_error_category w) (Some ''activation'')) (workflows (seen 5))))"
  have alerts: "hr_alerts found = readiness_alerts (ReadinessReport_query W A T seen) ?limit @
      map exhausted_alert ?exhausted @
      dead_letter_alerts (resolved_roots (map effective_root ?dead) (seen 7)) ?limit 0 ?dead @
      map (\<lambda>w. StaleWorkflow (wf_id w) (wf_kind w) (wf_version w)) ?stale_w @
      map (\<lambda>a. StaleActivity (act_id a) (act_workflow_id a) (act_kind a) (act_version a) (act_topic a)) ?stale_a"
    using assms by (auto simp: scan_once_def Let_def i64_try_from_def split: option.splits if_splits)
  have none: "filter is_dead_letter_alert (readiness_alerts r n) = []" "filter is_exhausted_alert (readiness_alerts r n) = []"
    "StaleWorkflow i k v \<notin> set (readiness_alerts r n)" "StaleActivity i j k v t \<notin> set (readiness_alerts r n)"
    for r n i j k v t by (auto simp: readiness_alerts_def filter_empty_conv)
  have "filter (\<lambda>a. effective_root a \<notin> resolved_roots (map effective_root ?dead) (seen 7)) ?dead = filter (\<lambda>a. \<not> chain_resolved (seen 7) a) ?dead"
    by (intro filter_cong refl) (simp add: resolved_roots_chain)
  also have "\<dots> = sort_key act_id (filter (\<lambda>a. act_status a = AS_DeadLettered \<and> \<not> chain_resolved (seen 7) a) (activities (seen 6)))"
    by (simp add: filter_sort conj_commute)
  finally have "filter is_dead_letter_alert (hr_alerts found) = map dead_letter_alert (take ?limit (sort_key act_id
      (filter (\<lambda>a. act_status a = AS_DeadLettered \<and> \<not> chain_resolved (seen 7) a) (activities (seen 6)))))"
    by (simp add: alerts none dead_letter_alerts_take filter_map comp_def)
  moreover have "filter is_exhausted_alert (hr_alerts found) = map exhausted_alert ?exhausted"
    by (simp add: alerts none dead_letter_alerts_take filter_map comp_def)
  moreover have "\<exists>w \<in> set (workflows (seen 8)). wf_id w = i \<and> wf_status w = WS_Running \<and>
      (\<forall>expiry. wf_lease_expires_at w = Some expiry \<longrightarrow> expiry \<le> ?stale)"
    if "StaleWorkflow i k v \<in> set (hr_alerts found)" for i k v
    using that by (auto simp: alerts none dead_letter_alerts_take lease_stale_def sql_le_def dest!: in_set_takeD)
  moreover have "\<exists>a \<in> set (activities (seen 9)). act_id a = i \<and> holds_lease (act_status a) \<and>
      (\<forall>expiry. act_lease_expires_at a = Some expiry \<longrightarrow> expiry \<le> ?stale)"
    if "StaleActivity i j k v t \<in> set (hr_alerts found)" for i j k v t
  proof -
    from that have "\<exists>a \<in> set (activities (seen 9)). act_id a = i \<and> act_status a \<in> set LEASE_HOLDERS \<and>
        lease_stale ?stale (act_lease_expires_at a)"
      by (auto simp: alerts none dead_letter_alerts_take dest!: in_set_takeD)
    moreover have "holds_lease x" if "x \<in> set LEASE_HOLDERS" for x using that status_sets_match_predicates by blast
    moreover have "expiry \<le> ?stale" if "lease_stale ?stale (Some expiry)" for expiry
      using that by (simp add: lease_stale_def sql_le_def)
    ultimately show ?thesis by metis
  qed
  ultimately show ?thesis by blast
qed

section \<open>Bursts of transient errors\<close>

text \<open>The windows of a run: each starts with the first error after the one before ended.\<close>

function error_windows :: "duration \<Rightarrow> instant list \<Rightarrow> instant list list" where
  "error_windows w [] = []"
| "error_windows w (t # ts) =
     (t # takeWhile (\<lambda>u. u - t \<le> w) ts) # error_windows w (dropWhile (\<lambda>u. u - t \<le> w) ts)"
  by pat_completeness auto
termination by (relation "measure (\<lambda>(w, ts). length ts)") (auto intro: le_less_trans [OF length_dropWhile_le])

definition largest_window :: "duration \<Rightarrow> instant list \<Rightarrow> int" where
  "largest_window w ts = fold max (map (\<lambda>ws. int (length ws)) (error_windows w ts)) 0"

lemma error_windows_snoc:
  "error_windows w (ts @ [t]) =
     (if ts = [] then [[t]]
      else let ws = error_windows w ts in
        if t - hd (last ws) \<le> w then butlast ws @ [last ws @ [t]] else ws @ [[t]])"
proof (induction w ts rule: error_windows.induct)
  case (2 w u ts)
  let ?P = "\<lambda>x. x - u \<le> w"
  show ?case
  proof (cases "\<forall>x \<in> set ts. ?P x")
    case True
    then have whole: "takeWhile ?P ts = ts" "dropWhile ?P ts = []" by auto
    have "takeWhile ?P (ts @ [t]) = ts @ takeWhile ?P [t]" "dropWhile ?P (ts @ [t]) = dropWhile ?P [t]"
      using True by (auto simp: takeWhile_append dropWhile_append)
    then show ?thesis by (simp add: whole)
  next
    case False
    then have rest: "dropWhile ?P ts \<noteq> []" by (auto simp: dropWhile_eq_Nil_conv)
    then have "error_windows w (dropWhile ?P ts) \<noteq> []" by (cases "dropWhile ?P ts") auto
    moreover have "takeWhile ?P (ts @ [t]) = takeWhile ?P ts" "dropWhile ?P (ts @ [t]) = dropWhile ?P ts @ [t]"
      using False by (auto simp: takeWhile_append dropWhile_append)
    ultimately show ?thesis using 2 rest by (auto simp: Let_def)
  qed
qed simp

definition window_follows :: "u32 \<Rightarrow> duration \<Rightarrow> instant list \<Rightarrow> transient_error_window \<Rightarrow> bool" where
  "window_follows m w ts state \<longleftrightarrow>
     tw_max_errors state = m \<and> tw_window state = w \<and>
     (if ts = [] then tw_count state = 0 \<and> tw_window_started state = None
      else tw_count state = int (length (last (error_windows w ts))) \<and>
           tw_window_started state = Some (hd (last (error_windows w ts)))) \<and>
     tw_peak_over_limit state = (if largest_window w ts > m then Some (largest_window w ts) else None)"

lemma windows_length: "ws \<in> set (error_windows w ts) \<Longrightarrow> length ws \<le> length ts \<and> ws \<noteq> []"
proof (induction w ts rule: error_windows.induct)
  case (2 w t ts)
  then show ?case
    using length_takeWhile_le [of "\<lambda>u. u - t \<le> w" ts] length_dropWhile_le [of "\<lambda>u. u - t \<le> w" ts] by force
qed simp

lemma largest_window_snoc:
  assumes "ts \<noteq> []"
  shows "largest_window w (ts @ [t]) = max (largest_window w ts) (int (length (last (error_windows w (ts @ [t])))))"
proof -
  let ?ws = "error_windows w ts" and ?largest = "\<lambda>ws. fold max (map (\<lambda>ws. int (length ws)) ws) 0"
  have ne: "?ws \<noteq> []" using assms by (cases ts) auto
  have "?largest ?ws = max (int (length (last ?ws))) (?largest (butlast ?ws))"
    using arg_cong [OF append_butlast_last_id [OF ne, symmetric], of ?largest] by simp
  then show ?thesis by (auto simp: largest_window_def error_windows_snoc assms Let_def)
qed

lemma windows_nonempty: "ts \<noteq> [] \<Longrightarrow> error_windows w ts \<noteq> []"
  by (cases ts) auto

lemma record_follows:
  assumes "window_follows m w ts state" and "0 \<le> w" and "int (length ts) < max_u32"
  shows "window_follows m w (ts @ [t]) (TransientErrorWindow_record state t)"
proof (cases "ts = []")
  case True
  with assms show ?thesis
    by (auto simp: window_follows_def TransientErrorWindow_record_def largest_window_def max_u32_def Let_def)
next
  case False
  let ?ws = "error_windows w ts" and ?ws' = "error_windows w (ts @ [t])"
  have ne: "?ws \<noteq> []" using False by (rule windows_nonempty)
  have len: "int (length (last ?ws)) < max_u32" "last ?ws \<noteq> []"
    using windows_length [of "last ?ws" w ts] ne assms(3) by auto
  define started where "started = hd (last ?ws)"
  have expired: "(case tw_window_started state of None \<Rightarrow> True | Some started \<Rightarrow> max 0 (t - started) > tw_window state) \<longleftrightarrow>
      \<not> t - started \<le> w"
    using assms(1,2) False by (auto simp: window_follows_def started_def)
  have count: "int (length (last ?ws')) = (if t - started \<le> w then int (length (last ?ws)) + 1 else 1)"
    and start: "hd (last ?ws') = (if t - started \<le> w then started else t)"
    using False len(2) by (auto simp: error_windows_snoc started_def Let_def)
  define n where "n = int (length (last ?ws'))"
  define st where "st = (if \<not> t - started \<le> w then state\<lparr>tw_count := 0, tw_window_started := Some t\<rparr> else state)"
  have n: "min max_u32 (tw_count st + 1) = n" "tw_window_started st = Some (hd (last ?ws'))" "tw_max_errors st = m"
      "tw_window st = w" "tw_peak_over_limit st = (if largest_window w ts > m then Some (largest_window w ts) else None)"
    using assms(1) False len(1) count start
    by (auto simp: st_def n_def window_follows_def started_def max_u32_def)
  have "TransientErrorWindow_record state t =
      (let w' = st\<lparr>tw_count := n\<rparr> in
       if n > m then w'\<lparr>tw_peak_over_limit := Some (case tw_peak_over_limit st of None \<Rightarrow> n | Some peak \<Rightarrow> max peak n)\<rparr> else w')"
    unfolding TransientErrorWindow_record_def expired st_def [symmetric] Let_def by (simp add: n(1,3) split: option.split)
  moreover have "largest_window w (ts @ [t]) = max (largest_window w ts) n"
    using largest_window_snoc [OF False] by (simp add: n_def)
  ultimately show ?thesis
    using n by (auto simp: window_follows_def n_def Let_def max_def)
qed

lemma records_follow:
  assumes "window_follows m w [] state" and "0 \<le> w" and "int (length ts) \<le> max_u32"
  shows "window_follows m w ts (fold (\<lambda>t state. TransientErrorWindow_record state t) ts state)"
  using assms(3)
proof (induction ts rule: rev_induct)
  case (snoc t ts)
  then show ?case using record_follows [OF _ assms(2)] by simp
qed (use assms(1) in simp)

text \<open>
  The alert of transient errors is exact. However the errors fall, the next health report
  carries an alert exactly when one window held more errors than the limit, and it names the
  count of the fullest window, even of one that ended before the report; taking the alert
  clears it. Windows are fixed: each starts with the first error after the one before it ended.
\<close>

lemma transient_alert_is_exact:
  assumes "TransientErrorWindow_new m w = Inr fresh" and "0 \<le> m" and "0 \<le> w" and "int (length ts) \<le> max_u32"
    and "final = fold (\<lambda>t state. TransientErrorWindow_record state t) ts fresh"
    and "TransientErrorWindow_take_alert final = (alert, rest)"
  shows "alert = (if \<exists>ws \<in> set (error_windows w ts). int (length ws) > m
      then Some (TransientActivationErrors (Max ((\<lambda>ws. int (length ws)) ` set (error_windows w ts))) m w) else None) \<and>
    fst (TransientErrorWindow_take_alert rest) = None"
proof -
  let ?lens = "(\<lambda>ws. int (length ws)) ` set (error_windows w ts)"
  have "window_follows m w [] fresh"
    using assms(1,2) by (auto simp: TransientErrorWindow_new_def window_follows_def largest_window_def split: if_splits)
  from records_follow [OF this assms(3,4)] assms(5) have f: "window_follows m w ts final" by simp
  have fold: "largest_window w ts = Max (insert 0 ?lens)"
    using Max.set_eq_fold [of 0 "map (\<lambda>ws. int (length ws)) (error_windows w ts)"] by (simp add: largest_window_def)
  have "largest_window w ts > m \<longleftrightarrow> (\<exists>ws \<in> set (error_windows w ts). int (length ws) > m)"
    using assms(2) by (auto simp: fold Max_gr_iff)
  moreover have "largest_window w ts = Max ?lens" if "\<exists>ws \<in> set (error_windows w ts). int (length ws) > m"
  proof -
    from that have "?lens \<noteq> {}" by auto
    moreover from that obtain ws where "ws \<in> set (error_windows w ts)" by blast
    then have "int (length ws) \<le> Max ?lens" by (intro Max_ge) auto
    then have "0 \<le> Max ?lens" by linarith
    ultimately show ?thesis by (simp add: fold)
  qed
  ultimately show ?thesis
    using f assms(6) by (auto simp: TransientErrorWindow_take_alert_def window_follows_def)
qed

end
