(* ===== verification/Runtime.thy ===== *)
theory Runtime
  imports Supervisor Health Schedule_Cursor Topic_Slots Operator_Control
begin

text \<open>
  The runtime that puts the engine together (\<open>DurableRuntime\<close> and \<open>run_task\<close> of
  \<open>src/runtime/supervisor.rs\<close>): its configuration and the checks on it, the work it does before
  the first task starts, and the loop of each task as the decision of one round. A round of a loop
  returns from the task, goes on at once or waits. \<open>mul_f64 base n\<close> stands for
  \<open>base.mul_f64(n / 1000)\<close>, floating point arithmetic of the standard library.
\<close>

section \<open>Configuration\<close>

definition MAX_TEMPORAL_POLL_INTERVAL :: duration where
  "MAX_TEMPORAL_POLL_INTERVAL = 60 * 10 ^ 9"

record runtime_config =
  rc_coordinator :: coordinator_config
  rc_worker :: worker_config
  rc_idle_delay :: duration
  rc_restart_backoff :: duration
  rc_max_restart_backoff :: duration
  rc_task_healthy_after :: duration
  rc_forced_shutdown_timeout :: duration
  rc_max_task_restarts :: u32
  rc_restart_window :: duration
  rc_max_transient_outage :: duration
  rc_max_workers_per_topic :: u32
  rc_health_scan_interval :: duration
  rc_health_stale_after :: duration
  rc_max_health_alerts_per_kind :: u32
  rc_timer_poll_interval :: duration
  rc_approval_expiry_poll_interval :: duration
  rc_schedule_poll_interval :: duration
  rc_max_transient_activation_errors :: u32
  rc_transient_activation_error_window :: duration

definition RuntimeConfig_default :: runtime_config where
  "RuntimeConfig_default =
     \<lparr>rc_coordinator = CoordinatorConfig_default, rc_worker = WorkerConfig_default,
      rc_idle_delay = 2 * 10 ^ 9, rc_restart_backoff = 1 * 10 ^ 9, rc_max_restart_backoff = 60 * 10 ^ 9,
      rc_task_healthy_after = 2 * 60 * 10 ^ 9, rc_forced_shutdown_timeout = 5 * 10 ^ 9,
      rc_max_task_restarts = 8, rc_restart_window = 10 * 60 * 10 ^ 9, rc_max_transient_outage = 15 * 60 * 10 ^ 9,
      rc_max_workers_per_topic = 4, rc_health_scan_interval = 60 * 10 ^ 9, rc_health_stale_after = 5 * 60 * 10 ^ 9,
      rc_max_health_alerts_per_kind = 25, rc_timer_poll_interval = 10 * 10 ^ 9,
      rc_approval_expiry_poll_interval = 10 * 10 ^ 9, rc_schedule_poll_interval = 10 * 10 ^ 9,
      rc_max_transient_activation_errors = DEFAULT_MAX_TRANSIENT_ACTIVATION_ERRORS,
      rc_transient_activation_error_window = DEFAULT_TRANSIENT_ACTIVATION_WINDOW\<rparr>"

definition valid_temporal_poll_interval :: "duration \<Rightarrow> bool" where
  "valid_temporal_poll_interval interval \<longleftrightarrow> interval \<noteq> 0 \<and> interval \<le> MAX_TEMPORAL_POLL_INTERVAL"

text \<open>What \<open>RestartPolicy::new\<close> reads.\<close>

definition restart_config_of :: "runtime_config \<Rightarrow> restart_config" where
  "restart_config_of config =
     \<lparr>rcf_restart_backoff = rc_restart_backoff config, rcf_max_restart_backoff = rc_max_restart_backoff config,
      rcf_task_healthy_after = rc_task_healthy_after config, rcf_max_task_restarts = rc_max_task_restarts config,
      rcf_restart_window = rc_restart_window config, rcf_max_transient_outage = rc_max_transient_outage config\<rparr>"

record durable_runtime =
  rt_workflows :: workflow_registry
  rt_activities :: activity_registry
  rt_topics :: topic_registry
  rt_schedules :: schedule_registry
  rt_runtime_id :: string
  rt_config :: runtime_config
  rt_topic_worker_limits :: "string \<rightharpoonup> u32"
  rt_activation_counters :: activation_counters

definition DurableRuntime_new ::
    "workflow_registry \<Rightarrow> activity_registry \<Rightarrow> topic_registry \<Rightarrow> string \<Rightarrow> runtime_config \<Rightarrow>
     durable_error + durable_runtime" where
  "DurableRuntime_new W A T runtime_id config =
     (if runtime_id = [] \<or> rc_idle_delay config = 0 \<or> rc_restart_backoff config = 0 \<or>
         rc_task_healthy_after config = 0 \<or> rc_max_transient_outage config = 0 \<or>
         rc_forced_shutdown_timeout config = 0 \<or> rc_max_task_restarts config = 0 \<or>
         rc_restart_window config = 0 \<or> rc_max_workers_per_topic config = 0 \<or>
         rc_health_scan_interval config = 0 \<or> rc_health_stale_after config = 0 \<or>
         rc_max_health_alerts_per_kind config = 0 \<or> rc_max_health_alerts_per_kind config > 100 \<or>
         \<not> valid_temporal_poll_interval (rc_timer_poll_interval config) \<or>
         \<not> valid_temporal_poll_interval (rc_approval_expiry_poll_interval config) \<or>
         \<not> valid_temporal_poll_interval (rc_schedule_poll_interval config)
      then Inl (InvalidDefinition ''durable runtime identity and bounds must be non-zero'')
      else
        (case CoordinatorConfig_validate (rc_coordinator config) of
           Inl e \<Rightarrow> Inl e
         | Inr _ \<Rightarrow>
        (case HealthScannerConfig_validate \<lparr>hc_stale_after = rc_health_stale_after config,
                hc_max_alerts_per_kind = rc_max_health_alerts_per_kind config\<rparr> of
           Inl e \<Rightarrow> Inl e
         | Inr _ \<Rightarrow>
        (case ActivationCounters_new (rc_max_transient_activation_errors config)
                (rc_transient_activation_error_window config) of
           Inl e \<Rightarrow> Inl e
         | Inr counters \<Rightarrow>
             Inr \<lparr>rt_workflows = W, rt_activities = A, rt_topics = T, rt_schedules = Map.empty,
                  rt_runtime_id = runtime_id, rt_config = config, rt_topic_worker_limits = Map.empty,
                  rt_activation_counters = counters\<rparr>))))"

definition with_schedules :: "schedule_registry \<Rightarrow> durable_runtime \<Rightarrow> durable_runtime" where
  "with_schedules R runtime = runtime\<lparr>rt_schedules := R\<rparr>"

definition with_topic_worker_limit :: "string \<Rightarrow> u32 \<Rightarrow> durable_runtime \<Rightarrow> durable_error + durable_runtime" where
  "with_topic_worker_limit topic limit runtime =
     (if limit = 0 \<or> topic_get (rt_topics runtime) topic = None
      then Inl (InvalidDefinition ''local worker limit requires a registered topic and non-zero capacity'')
      else Inr (runtime\<lparr>rt_topic_worker_limits := (rt_topic_worker_limits runtime)(topic \<mapsto> limit)\<rparr>))"

section \<open>Before the first task\<close>

text \<open>
  \<open>others k\<close> is what other processes do to the database in the gap number \<open>k\<close> between two
  transactions, or two statements outside a transaction, of this one. \<open>moments\<close> are the databases
  that a sequence of reads sees.
\<close>

primrec moments :: "(nat \<Rightarrow> db \<Rightarrow> db) \<Rightarrow> db \<Rightarrow> nat \<Rightarrow> db" where
  "moments others s 0 = others 0 s"
| "moments others s (Suc k) = others (Suc k) (moments others s k)"

fun reconcile_schedules ::
    "chrono \<Rightarrow> schedule_registry \<Rightarrow> db_millis \<Rightarrow> (nat \<Rightarrow> db \<Rightarrow> db) \<Rightarrow> string list \<Rightarrow> db \<Rightarrow>
     (durable_error fault + unit) \<times> db" where
  "reconcile_schedules K R deployed_at others [] s = (Inr (), s)"
| "reconcile_schedules K R deployed_at others (key # keys) s =
     (case reconcile_state K R key deployed_at s of
        Inl e \<Rightarrow> (Inl e, s)
      | Inr (_, s1) \<Rightarrow> reconcile_schedules K R deployed_at (\<lambda>k. others (Suc k)) keys (others 0 s1))"

definition check_ready :: "durable_runtime \<Rightarrow> (nat \<Rightarrow> db \<Rightarrow> db) \<Rightarrow> db \<Rightarrow> (durable_error fault + unit) \<times> db" where
  "check_ready runtime others s =
     (let seen = moments others s;
          readiness = ReadinessReport_query (rt_workflows runtime) (rt_activities runtime) (rt_topics runtime) seen in
      case database_now_millis (seen 5) of
        Inl e \<Rightarrow> (Inl e, seen 5)
      | Inr (readiness_checked_at, s1) \<Rightarrow>
          (case ensure_ready readiness of Inl e \<Rightarrow> (Inl (Err e), s1) | Inr _ \<Rightarrow> (Inr (), s1)))"

text \<open>
  \<open>keys\<close> are the keys of the registered schedules, in the order of \<open>definitions()\<close>; \<open>seeded\<close> says
  that the topic registry has been seeded before.
\<close>

definition DurableRuntime_spawn ::
    "chrono \<Rightarrow> durable_runtime \<Rightarrow> bool \<Rightarrow> string list \<Rightarrow> (nat \<Rightarrow> db \<Rightarrow> db) \<Rightarrow> db \<Rightarrow> (durable_error fault + unit) \<times> db" where
  "DurableRuntime_spawn K runtime seeded keys others s =
     (let n = length keys in
      case database_now_millis s of
        Inl e \<Rightarrow> (Inl e, s)
      | Inr (deployed_at, s1) \<Rightarrow>
     (case reconcile_schedules K (rt_schedules runtime) deployed_at (\<lambda>k. others (Suc k)) keys (others 0 s1) of
        (Inl e, s2) \<Rightarrow> (Inl e, s2)
      | (Inr _, s2) \<Rightarrow>
     (case seed_locks (rt_topics runtime) seeded (\<lambda>k. others (n + 1 + k)) s2 of
        (Inl e, s3) \<Rightarrow> (Inl e, s3)
      | (Inr _, s3) \<Rightarrow> check_ready runtime (\<lambda>k. others (n + 3 + k)) s3)))"

section \<open>The loops of the tasks\<close>

datatype loop_next = Loop_Return "task_fault + unit" | Loop_Again | Loop_Wait duration

text \<open>
  The coordinator, the timers and the expiry of approvals: one unit of work per round, at once
  again after some, a wait after none.
\<close>

definition work_round ::
    "(durable_error \<Rightarrow> string) \<Rightarrow> bool \<Rightarrow> duration \<Rightarrow> durable_error + 'a option \<Rightarrow> loop_next" where
  "work_round display cancelled interval result =
     (if cancelled then Loop_Return (Inr ())
      else (case result of
              Inl e \<Rightarrow> Loop_Return (Inl (RuntimeTaskFailure_from display e))
            | Inr None \<Rightarrow> Loop_Wait interval
            | Inr (Some _) \<Rightarrow> Loop_Again))"

definition coordinator_round :: "(durable_error \<Rightarrow> string) \<Rightarrow> bool \<Rightarrow> runtime_config \<Rightarrow> durable_error + i64 option \<Rightarrow> loop_next" where
  "coordinator_round display cancelled config activated = work_round display cancelled (rc_idle_delay config) activated"

definition timer_round :: "(durable_error \<Rightarrow> string) \<Rightarrow> bool \<Rightarrow> runtime_config \<Rightarrow> durable_error + i64 option \<Rightarrow> loop_next" where
  "timer_round display cancelled config fired = work_round display cancelled (rc_timer_poll_interval config) fired"

definition approval_expiry_round :: "(durable_error \<Rightarrow> string) \<Rightarrow> bool \<Rightarrow> runtime_config \<Rightarrow> durable_error + i64 option \<Rightarrow> loop_next" where
  "approval_expiry_round display cancelled config expired =
     work_round display cancelled (rc_approval_expiry_poll_interval config) expired"

text \<open>The health task: the report the sink gets, with the transient error alert taken; a panic of the sink is caught.\<close>

definition health_round ::
    "(durable_error \<Rightarrow> string) \<Rightarrow> bool \<Rightarrow> runtime_config \<Rightarrow> durable_error + health_scan_report \<Rightarrow> activation_counters \<Rightarrow>
     loop_next \<times> health_scan_report option \<times> activation_counters" where
  "health_round display cancelled config scanned counters =
     (if cancelled then (Loop_Return (Inr ()), None, counters)
      else (case scanned of
              Inl e \<Rightarrow> (Loop_Return (Inl (RuntimeTaskFailure_from display e)), None, counters)
            | Inr report \<Rightarrow>
                (case take_transient_alert counters of
                   (alert, counters') \<Rightarrow>
                     (Loop_Wait (rc_health_scan_interval config),
                      Some (report\<lparr>hr_alerts := hr_alerts report @ (case alert of None \<Rightarrow> [] | Some a \<Rightarrow> [a])\<rparr>),
                      counters'))))"

definition schedule_error_is_retryable :: "durable_error \<Rightarrow> bool" where
  "schedule_error_is_retryable error =
     (case error of Database _ \<Rightarrow> True | Pool _ \<Rightarrow> True | PoolCheckout _ \<Rightarrow> True | Serialization \<Rightarrow> True | _ \<Rightarrow> False)"

text \<open>
  A schedule: \<open>now\<close> is the result of the clock read after an error. The alert of an error that is
  not retried is the last component.
\<close>

definition schedule_round ::
    "(durable_error \<Rightarrow> string) \<Rightarrow> bool \<Rightarrow> runtime_config \<Rightarrow> schedule_registry \<Rightarrow> string \<Rightarrow>
     durable_error + schedule_report \<Rightarrow> durable_error + db_millis \<Rightarrow> loop_next \<times> string option" where
  "schedule_round display cancelled config R key materialized now =
     (if cancelled then (Loop_Return (Inr ()), None)
      else (case materialized of
              Inr report \<Rightarrow>
                (if srp_inspected report = 0 \<and> srp_started report = 0 \<and> srp_queued report = 0
                 then Loop_Wait (rc_schedule_poll_interval config) else Loop_Again, None)
            | Inl error \<Rightarrow>
                (case now of
                   Inl e \<Rightarrow> (Loop_Return (Inl (RuntimeTaskFailure_from display e)), None)
                 | Inr captured_at \<Rightarrow>
                     (if R key = None
                      then (Loop_Return (Inl (RuntimeTaskFailure_from display (NotFound ''schedule definition'' key))), None)
                      else if schedule_error_is_retryable error
                      then (Loop_Return (Inl (RuntimeTaskFailure_from display error)), Some (schedule_alert_kind error))
                      else (Loop_Wait (rc_schedule_poll_interval config), Some (schedule_alert_kind error))))))"

section \<open>The dispatcher\<close>

definition local_topic_limit :: "string \<Rightarrow> u32 \<Rightarrow> u32 \<Rightarrow> (string \<rightharpoonup> u32) \<Rightarrow> nat" where
  "local_topic_limit topic global_limit default_local_limit overrides =
     nat (min global_limit (case overrides topic of None \<Rightarrow> default_local_limit | Some limit \<Rightarrow> limit))"

definition topic_capacity :: "durable_runtime \<Rightarrow> topic_definition \<Rightarrow> nat" where
  "topic_capacity runtime topic =
     local_topic_limit (td_key topic) (td_max_concurrency topic) (rc_max_workers_per_topic (rt_config runtime))
       (rt_topic_worker_limits runtime)"

definition dispatcher_capacity :: "durable_runtime \<Rightarrow> nat" where
  "dispatcher_capacity runtime = sum_list (map (topic_capacity runtime) (TopicRegistry_definitions (rt_topics runtime)))"

definition local_topic_capacity :: "durable_runtime \<Rightarrow> execution_snapshot \<Rightarrow> (string \<times> nat) list" where
  "local_topic_capacity runtime snapshot =
     map (\<lambda>topic. (td_key topic, topic_capacity runtime topic -
         (case sn_active_by_topic snapshot (td_key topic) of None \<Rightarrow> 0 | Some active \<Rightarrow> active)))
       (TopicRegistry_definitions (rt_topics runtime))"

definition idle_delays :: "duration list" where
  "idle_delays = [1 * 10 ^ 9, 2 * 10 ^ 9, 5 * 10 ^ 9, 10 * 10 ^ 9]"

definition idle_hash :: "string \<Rightarrow> nat" where
  "idle_hash runtime_id = fold (\<lambda>byte hash. (hash * 31 + of_char byte) mod 2 ^ 64) runtime_id 0"

definition jittered_idle_delay :: "(duration \<Rightarrow> nat \<Rightarrow> duration) \<Rightarrow> duration \<Rightarrow> string \<Rightarrow> duration" where
  "jittered_idle_delay mul_f64 base runtime_id = mul_f64 base (900 + idle_hash runtime_id mod 101)"

text \<open>
  One round of the dispatcher: it returns, waits until an execution ends, waits for the idle delay
  (with the count of empty sweeps), or submits the executions of its claims. A sweep never ends with
  \<open>Diverges\<close> (\<open>claim_batch_ends\<close>).
\<close>

datatype dispatch_next =
  Dispatch_Return "task_fault + unit"
| Dispatch_Full
| Dispatch_Idle duration nat
| Dispatch_Spawn "activity_claim list"

definition dispatcher_round ::
    "(durable_error \<Rightarrow> string) \<Rightarrow> (duration \<Rightarrow> nat \<Rightarrow> duration) \<Rightarrow> durable_runtime \<Rightarrow> claim_env \<Rightarrow> (string \<Rightarrow> bool) \<Rightarrow> bool \<Rightarrow>
     task_fault option \<Rightarrow> execution_snapshot \<Rightarrow> nat \<Rightarrow> db \<Rightarrow> dispatch_next \<times> db" where
  "dispatcher_round display mul_f64 runtime V topic_held cancelled pending_failure snapshot empty_sweeps s =
     (if cancelled then (Dispatch_Return (Inr ()), s)
      else (case pending_failure of
              Some failure \<Rightarrow> (Dispatch_Return (Inl failure), s)
            | None \<Rightarrow>
                let available = dispatcher_capacity runtime - sn_total snapshot;
                    idle = Dispatch_Idle (jittered_idle_delay mul_f64
                      (idle_delays ! min empty_sweeps (length idle_delays - 1)) (rt_runtime_id runtime)) (Suc empty_sweeps)
                in if available = 0 then (Dispatch_Full, s)
                   else (case claim_batch V (rt_topics runtime) topic_held available (local_topic_capacity runtime snapshot) s of
                           Inl (Err error) \<Rightarrow>
                             if is_transient error then (idle, s)
                             else (Dispatch_Return (Inl (RuntimeTaskFailure_from display error)), s)
                         | Inl Diverges \<Rightarrow> (Dispatch_Return (Inr ()), s)
                         | Inr (claims, s') \<Rightarrow> if claims = [] then (idle, s') else (Dispatch_Spawn claims, s'))))"

text \<open>The commands the dispatcher sends for its claims; \<open>ids\<close> are the ids of the new tasks.\<close>

definition spawn_commands :: "nat \<Rightarrow> nat list \<Rightarrow> activity_claim list \<Rightarrow> execution_command list" where
  "spawn_commands generation ids claims =
     map2 (\<lambda>i claim. Spawn (act_topic (clm_row claim)) generation i) ids claims"


section \<open>What a sweep claims\<close>

text \<open>A sweep has no loop with a bound: it returns or fails with an error of the engine.\<close>

lemma ends_sum [ends_intros]:
  "(\<And>e. q = Inl e \<Longrightarrow> ends I (m e)) \<Longrightarrow> (\<And>x. q = Inr x \<Longrightarrow> ends I (k x)) \<Longrightarrow>
   ends I (case q of Inl e \<Rightarrow> m e | Inr x \<Rightarrow> k x)"
  by (cases q) auto

lemma ends_insert_attempt [ends_intros]: "ends I (insert_attempt t)"
  by (simp add: ends_def insert_attempt_def)

lemma ends_attempt_statements [ends_intros]:
  "ends (\<lambda>_. True) (append_activity_history row event_type reason now)"
  "ends (\<lambda>_. True) (close_attempt row outcome message now)"
  "ends (\<lambda>_. True) (block_workflow row category message now)"
  unfolding append_activity_history_def close_attempt_def block_workflow_def
  by (intro ends_intros keeps_True)+

lemma ends_settle [ends_intros]:
  "ends (\<lambda>_. True) (settle_expired E w now row)"
  unfolding settle_expired_def expire_running_def settle_revoked_def find_workflow_by_id_def Let_def
  by (cases "act_status row") (auto intro!: ends_intros keeps_True)

lemma ends_reconcile [ends_intros]: "ends (\<lambda>_. True) (reconcile_expired E held topic now)"
proof -
  have one: "ends (\<lambda>_. True) (reconcile_candidate E held topic now c)" for c
    unfolding reconcile_candidate_def by (intro ends_intros keeps_True)
  have "ends (\<lambda>_. True) (reconcile_all E held topic now cs)" for cs
    by (induction cs) (auto intro!: ends_intros one keeps_True)
  then show ?thesis unfolding reconcile_expired_def by (intro ends_intros keeps_True)
qed

lemma ends_claim_locked [ends_intros]: "ends (\<lambda>_. True) (claim_locked_candidate V now c)"
  unfolding claim_locked_candidate_def claim_pending_row_def quarantine_candidate_def lease_activity_def Let_def
  by (intro ends_intros keeps_True)

lemma ends_claim_batch: "ends (\<lambda>_. True) (claim_batch V T topic_held limit capacity)"
proof -
  have while: "ends (\<lambda>_. True) (claim_while V now topic limit wanted claims cs)" for now topic wanted claims cs
    by (induction cs arbitrary: claims) (auto intro!: ends_intros keeps_True)
  have "ends (\<lambda>_. True) (claim_topics V now limit c claims ts)" for now c claims ts
    by (induction ts arbitrary: claims) (auto simp: Let_def intro!: ends_intros while keeps_True)
  then show ?thesis unfolding claim_batch_def by (intro ends_intros keeps_True)
qed

corollary claim_batch_ends: "claim_batch V T topic_held limit capacity s \<noteq> Inl Diverges"
  using endsD [OF ends_claim_batch] by simp

definition claims_of :: "string \<Rightarrow> activity_claim list \<Rightarrow> nat" where
  "claims_of topic claims = length (filter (\<lambda>claim. act_topic (clm_row claim) = topic) claims)"

lemma claim_while_new:
  assumes "claim_while V now topic limit wanted claims cs s = Inr (claims', s')" and "of_topic topic cs s"
  shows "(t \<noteq> topic \<longrightarrow> claims_of t claims' = claims_of t claims) \<and>
    claims_of topic claims' \<le> max wanted (claims_of topic claims)"
  using assms
proof (induction cs arbitrary: s claims)
  case (Cons c cs)
  show ?case
  proof (cases "length claims \<ge> limit \<or> claims_of topic claims \<ge> wanted")
    case True
    with Cons.prems(1) have "claims' = claims" by (auto simp: claims_of_def tx_return_Inr)
    then show ?thesis by simp
  next
    case False
    with Cons.prems(1) obtain u s1 where first: "claim_locked_candidate V now c s = Inr (u, s1)"
      and more: "claim_while V now topic limit wanted
        (case u of None \<Rightarrow> claims | Some claim \<Rightarrow> claims @ [claim]) cs s1 = Inr (claims', s')"
      by (auto simp: claims_of_def tx_bind_Inr)
    note one = claim_locked_slots [OF first Cons.prems(2)]
    let ?claims = "case u of None \<Rightarrow> claims | Some claim \<Rightarrow> claims @ [claim]"
    have n: "claims_of x ?claims = claims_of x claims + (if u = None \<or> x \<noteq> topic then 0 else 1)" for x
      using one(4) by (cases u) (auto simp: claims_of_def)
    from Cons.IH [OF more one(1)] n [of t] n [of topic] False show ?thesis by (cases u) auto
  qed
qed (simp add: tx_return_Inr)

lemma claim_topics_new:
  assumes "claim_topics V now limit capacity claims ts s = Inr (claims', s')" and "keys_ok s" and "distinct (map fst ts)"
  shows "claims_of t claims' \<le> (if t \<in> fst ` set ts then max (capacity t) (claims_of t claims) else claims_of t claims)"
  using assms
proof (induction ts arbitrary: s claims)
  case Nil
  then show ?case by (simp add: tx_return_Inr)
next
  case (Cons tc ts)
  obtain topic cap where tc: "tc = (topic, cap)" by (cases tc)
  from Cons.prems(1) obtain us s1 where
      rec: "reconcile_expired (ce_externals V) (ce_workflow_held V) topic now s = Inr (us, s1)"
    by (auto simp: tc tx_bind_Inr)
  have keys1: "keys_ok s1"
    using guaranteesD [OF evolves_reconcile_expired rec] Cons.prems(2) by (simp add: db_evolves_def)
  let ?w = "slots_wanted cap (in_flight topic us now s1) (capacity topic) limit (length claims)"
  let ?cs = "claim_candidates (ce_definitions V) topic now s1"
  have wanted: "?w \<le> capacity topic" by (simp add: slots_wanted_def)
  from Cons.prems(1) rec consider
      "claim_topics V now limit capacity claims ts s1 = Inr (claims', s')"
    | "claims' = claims"
    | c1 s2 where "claim_while V now topic limit ?w claims ?cs s1 = Inr (c1, s2)"
        "claim_topics V now limit capacity c1 ts s2 = Inr (claims', s')"
    by (cases "?w = 0"; cases "ce_definitions V = []")
      (auto simp: tc Let_def tx_bind_Inr tx_query_Inr tx_return_Inr)
  then show ?case
  proof cases
    case 1
    from Cons.IH [OF 1 keys1] Cons.prems(3) show ?thesis by (cases "t = topic") (auto simp: tc split: if_splits)
  next
    case (3 c1 s2)
    note new = claim_while_new [OF 3(1) of_topic_candidates [OF keys1]]
    have "keys_ok s2" using guaranteesD [OF evolves_claim_while 3(1)] keys1 by (simp add: db_evolves_def)
    from Cons.IH [OF 3(2) this] Cons.prems(3) new [of t] wanted show ?thesis
      by (cases "t = topic") (auto simp: tc split: if_splits)
  qed (auto simp: tc)
qed

lemma claim_batch_new:
  assumes "claim_batch V T topic_held limit local_capacity s = Inr (claims, s')" and "keys_ok s"
    and "distinct (map tl_topic (topic_locks s))"
  shows "claims_of t claims \<le> (case map_of local_capacity t of None \<Rightarrow> 0 | Some c \<Rightarrow> c)"
proof -
  let ?now = "clock s (clock_reads s)" and ?s0 = "s\<lparr>clock_reads := Suc (clock_reads s)\<rparr>"
  let ?capacity = "\<lambda>topic. case map_of local_capacity topic of None \<Rightarrow> 0 | Some c \<Rightarrow> c"
  let ?locked = "map (\<lambda>r. (tl_topic r, tl_max_concurrency r)) (sort_key tl_topic (filter
    (\<lambda>r. tl_topic r \<in> set (map td_key (TopicRegistry_definitions T)) \<and> \<not> topic_held (tl_topic r))
    (topic_locks s)))"
  from assms(1) consider "claims = []" | "claim_topics V ?now limit ?capacity [] ?locked ?s0 = Inr (claims, s')"
    unfolding claim_batch_def
    by (auto simp: tx_bind_Inr tx_query_Inr tx_return_Inr database_now_millis_Inr split: if_split_asm)
  then show ?thesis
  proof cases
    case 2
    have keys: "keys_ok ?s0" using assms(2) by (simp add: keys_ok_def)
    have "distinct (map fst ?locked)"
      using assms(3) by (auto simp: comp_def distinct_map intro: inj_on_subset)
    from claim_topics_new [OF 2 keys this, of t] show ?thesis by (auto simp: claims_of_def split: if_splits)
  qed (simp add: claims_of_def)
qed


section \<open>Local limits\<close>

text \<open>The executions a topic has besides those about to be submitted.\<close>

fun spawns :: "collector_event list \<Rightarrow> execution_command list" where
  "spawns [] = []"
| "spawns (Received (Spawn topic generation i) # evs) = Spawn topic generation i # spawns evs"
| "spawns (_ # evs) = spawns evs"

definition spawns_of :: "string \<Rightarrow> execution_command list \<Rightarrow> nat" where
  "spawns_of topic commands = length (filter (\<lambda>command. spawn_topic command = topic) commands)"

lemma topic_count_step:
  assumes "collector_ok c" and "event_ok c event" and "collector_step event c = Inr (c', response)"
  shows "counted (sn_active_by_topic (ec_snapshot c')) topic \<le>
    counted (sn_active_by_topic (ec_snapshot c)) topic + spawns_of topic (spawns [event])"
proof (cases event)
  case (Joined i result)
  with assms obtain t where "c' = bump_changes (case result of
       Ended_Join error \<Rightarrow> note_failure (et_dispatcher_generation t) (join_fault error) (joined i t c) | _ \<Rightarrow> joined i t c)"
    by (auto elim: step_joined)
  then show ?thesis
    by (auto simp: joined_def bump_changes_def note_failure_def Let_def split: execution_end.splits)
next
  case (Received command)
  show ?thesis
  proof (cases command)
    case (TakeFailure listening)
    with Received assms(3) show ?thesis by (auto elim: step_take_failure)
  qed (use Received assms(3) in \<open>auto simp: collector_step_def receive_command_def bump_changes_def spawns_of_def split: if_splits\<close>)
qed (use assms in simp)

lemma spawns_Cons: "spawns (event # rest) = spawns [event] @ spawns rest"
  by (cases event rule: spawned_by.cases) simp_all

lemma topic_count_run:
  assumes "collector_ok c" and "events_ok evs c"
  shows "case fst (collect_activity_executions evs c) of
      Waiting c' \<Rightarrow> counted (sn_active_by_topic (ec_snapshot c')) topic \<le>
        counted (sn_active_by_topic (ec_snapshot c)) topic + spawns_of topic (spawns evs)
    | Collected _ \<Rightarrow> True"
  using assms
proof (induction rule: collect_induct)
  case (steps c event rest c' response r responses)
  from topic_count_step [OF steps(1-3), of topic] steps.IH show ?case
    by (subst spawns_Cons) (auto simp: spawns_of_def split: collecting.splits)
qed (simp_all add: spawns_of_def)

lemma spawn_commands_of:
  assumes "length ids = length claims"
  shows "spawns_of topic (spawn_commands generation ids claims) = claims_of topic claims"
  using assms by (induction ids claims rule: list_induct2) (auto simp: spawn_commands_def spawns_of_def claims_of_def)

lemma map_of_capacity:
  assumes "distinct (map td_key T)"
  shows "topic \<in> set T \<Longrightarrow> map_of (map (\<lambda>t. (td_key t, f t)) (TopicRegistry_definitions T)) (td_key topic) = Some (f topic)"
    and "k \<notin> td_key ` set T \<Longrightarrow> map_of (map (\<lambda>t. (td_key t, f t)) (TopicRegistry_definitions T)) k = None"
proof -
  have "distinct (map fst (map (\<lambda>t. (td_key t, f t)) (TopicRegistry_definitions T)))"
    using assms by (auto simp: comp_def distinct_map TopicRegistry_definitions_def)
  then show "topic \<in> set T \<Longrightarrow> map_of (map (\<lambda>t. (td_key t, f t)) (TopicRegistry_definitions T)) (td_key topic) = Some (f topic)"
    by (rule map_of_is_SomeI) (auto simp: TopicRegistry_definitions_def)
  show "k \<notin> td_key ` set T \<Longrightarrow> map_of (map (\<lambda>t. (td_key t, f t)) (TopicRegistry_definitions T)) k = None"
    by (auto simp: map_of_eq_None_iff TopicRegistry_definitions_def)
qed

text \<open>
  The executions of every registered topic are within its global limit and within its local
  one, the override of the topic or the default of the configuration.
\<close>

definition within_local_limits :: "durable_runtime \<Rightarrow> execution_collector \<Rightarrow> bool" where
  "within_local_limits runtime c \<longleftrightarrow>
     (\<forall>t \<in> set (rt_topics runtime).
        running_with et_topic c (td_key t) \<le> nat (td_max_concurrency t) \<and>
        running_with et_topic c (td_key t) \<le> nat (case rt_topic_worker_limits runtime (td_key t) of
            None \<Rightarrow> rc_max_workers_per_topic (rt_config runtime) | Some limit \<Rightarrow> limit))"

lemma within_local_limits_iff:
  "within_local_limits runtime c \<longleftrightarrow>
     (\<forall>t \<in> set (rt_topics runtime). running_with et_topic c (td_key t) \<le> topic_capacity runtime t)"
  unfolding within_local_limits_def topic_capacity_def local_topic_limit_def
  by (intro ball_cong refl) (auto simp: min_def split: option.splits)

text \<open>
  C23: the dispatcher never runs more executions of a topic than its local limit allows. One round
  reads the counts of the execution manager, claims from the database and submits its claims; when
  it has done so, and whatever executions ended or requests were served meanwhile, every
  registered topic still has at most as many executions as the smaller of its global and its local
  limit. The claims a round submits are those the database transaction made, within the
  limits the database keeps for all processes.
\<close>

theorem dispatcher_respects_local_limits:
  assumes "collector_ok c" and "within_local_limits runtime c" and "distinct (map td_key (rt_topics runtime))"
    and "keys_ok s" and "distinct (map tl_topic (topic_locks s))"
    and "dispatcher_round display mul_f64 runtime V topic_held False None (ec_snapshot c) sweeps s = (Dispatch_Spawn claims, s')"
    and "events_ok evs c" and "spawns evs = spawn_commands generation ids claims" and "length ids = length claims"
    and "fst (collect_activity_executions evs c) = Waiting c'"
  shows "within_local_limits runtime c'"
  unfolding within_local_limits_iff
proof
  fix t assume t: "t \<in> set (rt_topics runtime)"
  from assms(6) have batch: "claim_batch V (rt_topics runtime) topic_held (dispatcher_capacity runtime - sn_total (ec_snapshot c))
      (local_topic_capacity runtime (ec_snapshot c)) s = Inr (claims, s')"
    by (auto simp: dispatcher_round_def Let_def split: if_splits sum.splits fault.splits prod.splits)
  let ?active = "counted (sn_active_by_topic (ec_snapshot c)) (td_key t)"
  have "claims_of (td_key t) claims \<le> topic_capacity runtime t - ?active"
    using claim_batch_new [OF batch assms(4,5), of "td_key t"] t
    by (simp add: local_topic_capacity_def map_of_capacity(1) [OF assms(3)] counted_def)
  moreover have "?active \<le> topic_capacity runtime t"
    using assms(1,2) t by (simp add: collector_ok_def within_local_limits_iff)
  moreover have "counted (sn_active_by_topic (ec_snapshot c')) (td_key t) \<le> ?active + claims_of (td_key t) claims"
    using topic_count_run [OF assms(1,7), of "td_key t"] assms(10) by (simp add: assms(8) spawn_commands_of [OF assms(9)])
  moreover have "collector_ok c'"
    using collect_ok [OF assms(1,7)] assms(10) by (simp add: case_prod_beta)
  ultimately show "running_with et_topic c' (td_key t) \<le> topic_capacity runtime t" by (simp add: collector_ok_def)
qed


definition sample_runtime :: durable_runtime where
  "sample_runtime = projr (DurableRuntime_new [] [] sample_topics ''r'' RuntimeConfig_default)"

fun spawned_topics :: "dispatch_next \<Rightarrow> string list option" where
  "spawned_topics (Dispatch_Spawn claims) = Some (map (\<lambda>claim. act_topic (clm_row claim)) claims)"
| "spawned_topics _ = None"

lemma spawned_topics_Some:
  assumes "spawned_topics r = Some ts"
  obtains claims where "r = Dispatch_Spawn claims" and "map (\<lambda>claim. act_topic (clm_row claim)) claims = ts"
  using assms by (cases r) auto

lemma prod_fst_eq: "fst p = x \<Longrightarrow> p = (x, snd p)"
  by (cases p) simp

theorem dispatcher_respects_local_limits_witness:
  "case fst (collect_activity_executions [Received (Spawn ''t'' 1 7)] empty_collector) of
     Waiting c \<Rightarrow> within_local_limits sample_runtime c \<and> running_with et_topic c ''t'' = 1
   | Collected _ \<Rightarrow> False"
proof -
  let ?round = "dispatcher_round (\<lambda>_. []) (\<lambda>base n. base) sample_runtime sample_env (\<lambda>_. False) False None
    (ec_snapshot empty_collector) 0 sample_db"
  let ?evs = "[Received (Spawn ''t'' 1 7)]"
  let ?sweep = "claim_batch sample_env sample_topics (\<lambda>_. False) 1 [(''t'', 1)] sample_db"
  have runtime: "rt_topics sample_runtime = sample_topics" "dispatcher_capacity sample_runtime = 1"
    "local_topic_capacity sample_runtime (ec_snapshot empty_collector) = [(''t'', 1)]"
    "sn_total (ec_snapshot empty_collector) = 0" by code_simp+
  have "\<not> isl ?sweep \<and> map (\<lambda>claim. act_topic (clm_row claim)) (fst (projr ?sweep)) = [''t'']" by code_simp
  then have "spawned_topics (fst ?round) = Some [''t'']"
    by (cases ?sweep) (auto simp: dispatcher_round_def runtime)
  then obtain claims where spawned: "fst ?round = Dispatch_Spawn claims"
    and topics: "map (\<lambda>claim. act_topic (clm_row claim)) claims = [''t'']"
    by (rule spawned_topics_Some)
  from spawned have round: "?round = (Dispatch_Spawn claims, snd ?round)" by (rule prod_fst_eq)
  have commands: "spawns ?evs = spawn_commands 1 [7] claims" "length [7 :: nat] = length claims"
    using topics by (auto simp: spawn_commands_def)
  have run: "case fst (collect_activity_executions ?evs empty_collector) of
      Waiting c \<Rightarrow> running_with et_topic c ''t'' = 1 | Collected _ \<Rightarrow> False" by code_simp
  then obtain c' where c': "fst (collect_activity_executions ?evs empty_collector) = Waiting c'" by (auto split: collecting.splits)
  have "within_local_limits sample_runtime empty_collector" "distinct (map td_key (rt_topics sample_runtime))"
    "distinct (map tl_topic (topic_locks sample_db))" "events_ok ?evs empty_collector" by code_simp+
  from dispatcher_respects_local_limits [OF empty_collector_ok this(1,2) sample_keys_ok this(3) round this(4) commands c'] run c'
  show ?thesis by simp
qed

section \<open>The start\<close>

lemma moments_evolve:
  assumes "\<And>k t. db_evolves t (others k t)"
  shows "db_evolves s (moments others s k)" and "j \<le> k \<Longrightarrow> db_evolves (moments others s j) (moments others s k)"
proof -
  show "db_evolves s (moments others s k)"
    by (induction k) (auto intro: assms evolution.trans)
  show "j \<le> k \<Longrightarrow> db_evolves (moments others s j) (moments others s k)"
    by (induction k rule: dec_induct) (auto intro: evolution.refl assms evolution.trans)
qed

lemma moments_locks:
  assumes "\<And>k t. \<exists>new. topic_locks (others k t) = topic_locks t @ new"
  shows "\<exists>new. topic_locks (moments others s k) = topic_locks s @ new"
proof (induction k)
  case (Suc k)
  then show ?case using assms [of "Suc k" "moments others s k"] by auto
qed (use assms in auto)

lemma clock_read_evolves: "db_evolves s (s\<lparr>clock_reads := n\<rparr>)"
  by (simp add: db_evolves_def evolve_refls keys_ok_def)

lemma reconcile_schedules_evolves:
  assumes "reconcile_schedules K R deployed_at others keys s = (r, s')" and "\<And>k t. db_evolves t (others k t)"
  shows "db_evolves s s'"
  using assms
proof (induction K R deployed_at others keys s rule: reconcile_schedules.induct)
  case (2 K R deployed_at others key keys s)
  show ?case
  proof (cases "reconcile_state K R key deployed_at s")
    case (Inr out)
    obtain u s1 where out: "out = (u, s1)" by (cases out)
    from 2(2) Inr out have "reconcile_schedules K R deployed_at (\<lambda>k. others (Suc k)) keys (others 0 s1) = (r, s')" by simp
    from 2(1) [OF Inr out [symmetric] this 2(3)] guaranteesD [OF evolves_reconcile_state(2) Inr [unfolded out]] 2(3) [of s1 0]
    show ?thesis by (blast intro: evolution.trans)
  qed (use 2(2) in \<open>simp add: evolution.refl\<close>)
qed (simp add: evolution.refl)

lemma seed_locks_evolves:
  assumes "seed_locks T seeded others s = (r, s')" and "\<And>k t. db_evolves t (others k t)"
  shows "db_evolves s s'"
proof -
  have insert: "db_evolves t u" if "insert_topic_locks_if_absent rows t = Inr (v, u)" for rows t v u
    using that by (auto simp: insert_topic_locks_if_absent_def db_evolves_def evolve_refls keys_ok_def split: if_splits)
  let ?s1 = "s\<lparr>clock_reads := Suc (clock_reads s)\<rparr>"
  have s1: "db_evolves s ?s1" "db_evolves s (others 0 ?s1)"
    using clock_read_evolves assms(2) by (blast intro: evolution.trans)+
  let ?rows = "collect_results (map (topic_lock_row_of (clock s (clock_reads s))) T)"
  show ?thesis
  proof (cases "seeded \<or> (\<exists>e. ?rows = Inl e) \<or> ?rows = Inr []")
    case True
    then have "s' = s \<or> s' = ?s1"
      using assms(1) by (elim disjE exE) (simp_all add: seed_locks_def seed_locks_once_def split: if_splits)
    with s1 show ?thesis using evolution.refl by blast
  next
    case False
    then obtain rows where rows: "?rows = Inr rows" "rows \<noteq> []" "\<not> seeded" by (cases ?rows) blast+
    show ?thesis
    proof (cases "insert_topic_locks_if_absent (sort_key tl_topic rows) (others 0 ?s1)")
      case (Inl e)
      with assms(1) rows have "s' = others 0 ?s1" by (simp add: seed_locks_def seed_locks_once_def)
      with s1 show ?thesis by simp
    next
      case (Inr out)
      obtain v u where out: "out = (v, u)" by (cases out)
      with Inr have "db_evolves (others 0 ?s1) u" using insert by blast
      moreover have "s' = others 1 u"
        using assms(1) rows Inr out by (simp add: seed_locks_def seed_locks_once_def Let_def split: sum.splits)
      ultimately show ?thesis using s1(2) assms(2) by (blast intro: evolution.trans)
    qed
  qed
qed

text \<open>
  C24: a runtime starts no task unless it can serve what is stored, whatever other processes
  do to the rows while it starts. When \<open>spawn\<close> succeeds, the registries have the definition and the topic
  that each statement of the readiness check asked for at its own moment; every workflow
  and every activity that was stored when the check began and is unfinished when it ends finds
  its definition, and the activity its topic; every topic of a registry that this start seeded has a
  lock row with exactly the registered limit; and the runtime has a restart backoff and a restart
  budget, and polls timers, approvals and schedules at least once a minute. Other processes
  are assumed to do what every transaction of the engine does: they evolve rows and only add
  lock rows. Rows that they add while the check runs are outside of it.
\<close>

theorem runtime_starts_ready:
  assumes "DurableRuntime_new W A T runtime_id config = Inr runtime0" and "runtime = with_schedules R runtime0"
    and "distinct (map td_key T)" and "DurableRuntime_spawn K runtime seeded keys others s = (Inr (), s')"
    and "keys_ok s" and "\<And>k t. db_evolves t (others k t)"
    and "\<And>k t. \<exists>new. topic_locks (others k t) = topic_locks t @ new"
  shows "rc_restart_backoff config \<noteq> 0 \<and> rc_max_task_restarts config \<noteq> 0 \<and>
    list_all (\<lambda>interval. interval \<noteq> 0 \<and> interval \<le> 60 * 10 ^ 9)
      [rc_timer_poll_interval config, rc_approval_expiry_poll_interval config, rc_schedule_poll_interval config] \<and>
    (\<not> seeded \<longrightarrow> (\<forall>d \<in> set T. \<exists>r \<in> set (topic_locks s').
       tl_topic r = td_key d \<and> tl_max_concurrency r = td_max_concurrency d)) \<and>
    (\<exists>n s3 seen. seen = moments (\<lambda>k. others (n + k)) s3 \<and>
       s' = (seen 5)\<lparr>clock_reads := Suc (clock_reads (seen 5))\<rparr> \<and> serves W A T seen \<and>
       (\<forall>w \<in> set (workflows s'). wf_id w \<in> wf_id ` set (workflows (seen 0)) \<longrightarrow>
          ws_is_terminal (wf_status w) \<or> workflow_defined W w) \<and>
       (\<forall>a \<in> set (activities s'). act_id a \<in> act_id ` set (activities (seen 0)) \<longrightarrow>
          may_run a \<longrightarrow> activity_defined A a \<and> topic_defined T (act_topic a)))"
proof -
  from assms(1,2) have rt: "rt_workflows runtime = W" "rt_activities runtime = A" "rt_topics runtime = T"
    and config: "rc_restart_backoff config \<noteq> 0" "rc_max_task_restarts config \<noteq> 0"
      "list_all (\<lambda>interval. interval \<noteq> 0 \<and> interval \<le> 60 * 10 ^ 9)
        [rc_timer_poll_interval config, rc_approval_expiry_poll_interval config, rc_schedule_poll_interval config]"
    by (auto simp: DurableRuntime_new_def with_schedules_def valid_temporal_poll_interval_def
        MAX_TEMPORAL_POLL_INTERVAL_def split: if_splits sum.splits)
  let ?n = "length keys" and ?s1 = "s\<lparr>clock_reads := Suc (clock_reads s)\<rparr>"
  from assms(4) obtain at s2 s3 where
    rec: "reconcile_schedules K (rt_schedules runtime) at (\<lambda>k. others (Suc k)) keys (others 0 ?s1) = (Inr (), s2)"
    and seed: "seed_locks T seeded (\<lambda>k. others (?n + 1 + k)) s2 = (Inr (), s3)"
    and ready: "check_ready runtime (\<lambda>k. others (?n + 3 + k)) s3 = (Inr (), s')"
    by (auto simp: DurableRuntime_spawn_def rt Let_def database_now_millis_Inr split: sum.splits prod.splits)
  define seen where "seen = moments (\<lambda>k. others (?n + 3 + k)) s3"
  note evolve = moments_evolve [where others = "\<lambda>k. others (?n + 3 + k)" and s = s3, OF assms(6), folded seen_def]
  from ready have served: "serves W A T seen" and s': "s' = (seen 5)\<lparr>clock_reads := Suc (clock_reads (seen 5))\<rparr>"
    by (auto simp: check_ready_def rt Let_def database_now_millis_Inr ready_iff_serves [symmetric] seen_def
        split: sum.splits prod.splits)
  have "db_evolves s s3"
    using reconcile_schedules_evolves [OF rec assms(6)] seed_locks_evolves [OF seed assms(6)]
      assms(6) [of ?s1 0] clock_read_evolves [of s] by (blast intro: evolution.trans)
  then have keys: "keys_ok (seen 0)" using assms(5) evolve(1) [of 0] by (blast intro: db_evolves_keys)
  have last: "db_evolves (seen k) s'" if "k \<le> 5" for k
    using evolve(2) [OF that] clock_read_evolves [of "seen 5"] unfolding s' by (rule evolution.trans)
  have "ws_is_terminal (wf_status w) \<or> workflow_defined W w"
    if "w \<in> set (workflows s')" "wf_id w \<in> wf_id ` set (workflows (seen 0))" for w
    using stored_workflow_served [OF served last keys that(1) _ that(2)] by blast
  moreover have "activity_defined A a \<and> topic_defined T (act_topic a)"
    if "a \<in> set (activities s')" "act_id a \<in> act_id ` set (activities (seen 0))" "may_run a" for a
    using stored_activity_served [OF served _ last keys that(1,3,2)] evolve(2) by simp
  moreover have "\<exists>r \<in> set (topic_locks s'). tl_topic r = td_key d \<and> tl_max_concurrency r = td_max_concurrency d"
    if "\<not> seeded" "d \<in> set T" for d
  proof -
    from that(1) seed have "seed_locks_once T (\<lambda>k. others (?n + 1 + k)) s2 = (Inr (), s3)" by (simp add: seed_locks_def)
    from seeded_limits_match_registry [OF this assms(3,7)] that(2) obtain r where
      r: "r \<in> set (topic_locks s3)" "tl_topic r = td_key d" "tl_max_concurrency r = td_max_concurrency d" by blast
    with moments_locks [where others = "\<lambda>k. others (?n + 3 + k)" and s = s3 and k = 5, OF assms(7)] show ?thesis
      by (auto simp: s' seen_def)
  qed
  ultimately show ?thesis using config served s' unfolding seen_def by blast
qed

text \<open>While the runtime of the sample starts, another process ends the child workflow between two statements of the check.\<close>

definition sample_workflows :: workflow_registry where
  "sample_workflows = [((''order'', 1), sample_handler 1), ((''pay'', 1), (sample_handler 1)\<lparr>wh_kind := ''pay''\<rparr>)]"

definition sample_others :: "nat \<Rightarrow> db \<Rightarrow> db" where
  "sample_others k t =
     (if k = 6 then tx_commit (workflow_update (\<lambda>r. wf_id r = 2 \<and> \<not> ws_is_terminal (wf_status r))
        (\<lambda>r. r\<lparr>wf_status := WS_Cancelled\<rparr>)) t else t)"

lemma sample_others_evolve:
  shows "db_evolves t (sample_others k t)" and "topic_locks (sample_others k t) = topic_locks t"
proof -
  let ?m = "workflow_update (\<lambda>r. wf_id r = 2 \<and> \<not> ws_is_terminal (wf_status r)) (\<lambda>r. r\<lparr>wf_status := WS_Cancelled\<rparr>)"
  have m: "guarantees db_evolves ?m"
    by (rule evolves_workflow_update) (simp add: workflow_evolves_def workflow_identity_def)
  show "db_evolves t (sample_others k t)" "topic_locks (sample_others k t) = topic_locks t"
    using guaranteesD [OF m, of t]
    by (auto simp: sample_others_def tx_commit_def tx_simps evolution.refl split: sum.splits prod.splits)
qed

theorem runtime_starts_ready_witness:
  "let r = DurableRuntime_spawn sample_chrono (with_schedules (sample_schedules Allow) (projr (DurableRuntime_new sample_workflows
        sample_handlers sample_topics ''r'' RuntimeConfig_default))) False [''tick''] sample_others
        (sample_db\<lparr>topic_locks := []\<rparr>)
   in fst r = Inr () \<and> map wf_status (workflows (snd r)) = [WS_WaitingChild, WS_Cancelled] \<and>
     (\<exists>l \<in> set (topic_locks (snd r)). tl_topic l = ''t'' \<and> tl_max_concurrency l = 1)"
proof -
  let ?new = "DurableRuntime_new sample_workflows sample_handlers sample_topics ''r'' RuntimeConfig_default"
  let ?s = "sample_db\<lparr>topic_locks := []\<rparr>"
  let ?spawn = "DurableRuntime_spawn sample_chrono (with_schedules (sample_schedules Allow) (projr ?new)) False [''tick''] sample_others ?s"
  have run: "\<not> isl ?new" "fst ?spawn = Inr ()" "map wf_status (workflows (snd ?spawn)) = [WS_WaitingChild, WS_Cancelled]"
    "distinct (map td_key sample_topics)" by code_simp+
  then have "?new = Inr (projr ?new)" "?spawn = (Inr (), snd ?spawn)" by (auto simp: prod_eq_iff)
  moreover have "keys_ok ?s" using sample_keys_ok by (simp add: keys_ok_def)
  ultimately have locks: "\<forall>d \<in> set sample_topics. \<exists>l \<in> set (topic_locks (snd ?spawn)).
      tl_topic l = td_key d \<and> tl_max_concurrency l = td_max_concurrency d"
    using runtime_starts_ready [OF _ refl run(4) _ _ sample_others_evolve(1),
      where W = sample_workflows and A = sample_handlers and runtime_id = "''r''" and config = RuntimeConfig_default
        and K = sample_chrono and seeded = False and s = ?s]
    by (simp add: sample_others_evolve(2))
  with run show ?thesis by (simp add: Let_def sample_topics_def)
qed

end
