(* ===== verification/Keyset.thy ===== *)
theory Keyset
  imports Cursors "HOL-Library.Multiset"
begin

text \<open>
  What the lists of the operator share: a query reads one row more than the page holds, in the
  order of a key, after the position of a cursor, and the page names the position of its last
  row when there is more. The locale \<open>keyset\<close> is the contract of one such list: a position
  that was written reads back, and the filter of the query it gives is the order of the keys.
  From it follows, for every list, that a client that follows the cursors reads every row
  once and in order.
\<close>

section \<open>Cursors that were written\<close>

definition codec_ok :: "cursor_codec \<Rightarrow> bool" where
  "codec_ok K \<longleftrightarrow>
     (\<forall>scope t tie. \<exists>json.
        to_vec K \<lparr>pl_version = CURSOR_VERSION, pl_scope = scope, pl_timestamp = t, pl_tie_breaker = tie\<rparr> = Some json \<and>
        from_slice K json =
          Some \<lparr>pl_version = CURSOR_VERSION, pl_scope = scope, pl_timestamp = t, pl_tie_breaker = tie\<rparr>) \<and>
     (\<forall>bytes. base64_decode K (base64_encode K bytes) = Some bytes)"

definition cursor_fits :: "cursor_codec \<Rightarrow> string \<Rightarrow> cursor_position \<Rightarrow> bool" where
  "cursor_fits K scope position =
     (case encode_cursor K scope position of
        Inl _ \<Rightarrow> True
      | Inr cursor \<Rightarrow> cursor \<noteq> [] \<and> length cursor \<le> MAX_CURSOR_BYTES)"

lemma encode_cursor_total:
  assumes "codec_ok K" and "validate_scope scope = Inr ()" and "validate_tie_breaker (cp_tie_breaker p) = Inr ()"
  shows "\<exists>c. encode_cursor K scope p = Inr c"
proof -
  obtain json where "to_vec K \<lparr>pl_version = CURSOR_VERSION, pl_scope = scope, pl_timestamp = cp_timestamp p,
      pl_tie_breaker = cp_tie_breaker p\<rparr> = Some json"
    using assms(1) unfolding codec_ok_def by blast
  with assms(2,3) show ?thesis by (simp add: encode_cursor_def)
qed

lemma cursor_reads_back:
  assumes "codec_ok K" and "encode_cursor K scope p = Inr c" and "cursor_fits K scope p"
  shows "decode_cursor K scope c = Inr p" and "scope' \<noteq> scope \<Longrightarrow> isl (decode_cursor K scope' c)"
proof -
  let ?payload = "\<lparr>pl_version = CURSOR_VERSION, pl_scope = scope, pl_timestamp = cp_timestamp p,
      pl_tie_breaker = cp_tie_breaker p\<rparr>"
  from assms(1) obtain json where json: "to_vec K ?payload = Some json" "from_slice K json = Some ?payload"
    "base64_decode K (base64_encode K json) = Some json"
    unfolding codec_ok_def by blast
  with assms(2) have v: "validate_scope scope = Inr ()" "validate_tie_breaker (cp_tie_breaker p) = Inr ()"
    "c = base64_encode K json"
    by (auto simp: encode_cursor_def split: sum.splits)
  moreover have "c \<noteq> []" "length c \<le> MAX_CURSOR_BYTES" using assms(2,3) by (simp_all add: cursor_fits_def)
  ultimately show "decode_cursor K scope c = Inr p" "scope' \<noteq> scope \<Longrightarrow> isl (decode_cursor K scope' c)"
    using json by (auto simp: decode_cursor_def split: sum.splits)
qed

section \<open>Pages\<close>

definition next_page_cursor ::
    "cursor_codec \<Rightarrow> string \<Rightarrow> ('r \<Rightarrow> cursor_position) \<Rightarrow> bool \<Rightarrow> 'r list \<Rightarrow> durable_error + string option" where
  "next_page_cursor K scope position has_more rows =
     (if has_more \<and> rows \<noteq> []
      then (case encode_cursor K scope (position (last rows)) of Inl e \<Rightarrow> Inl e | Inr cursor \<Rightarrow> Inr (Some cursor))
      else Inr None)"

text \<open>One page, as every list computes it from the selected rows in their order.\<close>

definition serve_page ::
    "cursor_codec \<Rightarrow> string \<Rightarrow> ('r \<Rightarrow> cursor_position) \<Rightarrow> nat \<Rightarrow> ('r \<Rightarrow> 'a) \<Rightarrow> 'r list \<Rightarrow>
     durable_error + 'a admin_page" where
  "serve_page K scope position limit render selected =
     (case next_page_cursor K scope position (limit < length selected) (take limit selected) of
        Inl e \<Rightarrow> Inl e
      | Inr next \<Rightarrow> Inr \<lparr>pg_items = map render (take limit selected), pg_next_cursor = next\<rparr>)"

text \<open>A client that follows the cursors to the end.\<close>

fun follow :: "nat \<Rightarrow> (string option \<Rightarrow> 'e + 'a admin_page) \<Rightarrow> string option \<Rightarrow> ('e + 'a list) option" where
  "follow 0 serve cursor = None"
| "follow (Suc fuel) serve cursor =
     (case serve cursor of
        Inl e \<Rightarrow> Some (Inl e)
      | Inr page \<Rightarrow>
          (case pg_next_cursor page of
             None \<Rightarrow> Some (Inr (pg_items page))
           | Some next \<Rightarrow>
               (case follow fuel serve (Some next) of
                  None \<Rightarrow> None
                | Some (Inl e) \<Rightarrow> Some (Inl e)
                | Some (Inr items) \<Rightarrow> Some (Inr (pg_items page @ items)))))"

lemma filter_after:
  fixes key :: "'r \<Rightarrow> 'k::linorder"
  assumes "sorted_wrt (<) (map key xs)" and "i < length xs"
  shows "filter (\<lambda>q. key (xs ! i) < key q) xs = drop (Suc i) xs"
  using assms
proof (induction xs arbitrary: i)
  case (Cons x xs)
  show ?case
  proof (cases i)
    case 0
    with Cons.prems have "filter (\<lambda>q. key x < key q) xs = xs" by (simp add: filter_id_conv)
    with 0 show ?thesis by simp
  next
    case (Suc j)
    with Cons.prems have "\<not> key (xs ! j) < key x" by (auto simp: not_less intro: less_imp_le)
    with Cons Suc show ?thesis by simp
  qed
qed simp

lemma sort_key_strict:
  assumes "distinct (map key rows)"
  shows "sorted_wrt (<) (map key (sort_key key rows))"
proof -
  have "distinct (sort_key key rows)" "inj_on key (set (sort_key key rows))"
    using assms by (simp_all add: distinct_map)
  then show ?thesis by (simp add: strict_sorted_iff distinct_map)
qed

locale keyset =
  fixes key :: "'r \<Rightarrow> 'k::linorder"
    and position :: "'r \<Rightarrow> cursor_position"
    and decode :: "cursor_codec \<Rightarrow> string \<Rightarrow> string \<Rightarrow> durable_error + 'c"
    and after :: "'c \<Rightarrow> 'r \<Rightarrow> bool"
    and row_ok :: "'r \<Rightarrow> bool"
  assumes tie_breaker: "row_ok r \<Longrightarrow> validate_tie_breaker (cp_tie_breaker (position r)) = Inr ()"
    and reads: "row_ok r \<Longrightarrow> decode_cursor K scope t = Inr (position r) \<Longrightarrow>
      \<exists>c. decode K scope t = Inr c \<and> (\<forall>q. row_ok q \<longrightarrow> (after c q \<longleftrightarrow> key r < key q))"
begin

definition served where
  "served K scope limit render rows serve \<longleftrightarrow>
     serve None = serve_page K scope position limit render (sort_key key rows) \<and>
     (\<forall>t c. decode K scope t = Inr c \<longrightarrow>
        serve (Some t) = serve_page K scope position limit render (sort_key key (filter (after c) rows)))"

lemma follow_from:
  assumes K: "codec_ok K" "validate_scope scope = Inr ()" and limit: "0 < limit"
    and rows: "\<forall>r \<in> set rows. row_ok r" "distinct (map key rows)"
    and fits: "\<forall>r \<in> set rows. cursor_fits K scope (position r)"
    and serve: "served K scope limit render rows serve"
    and ordered: "ordered = sort_key key rows"
    and start: "i = 0 \<and> t = None \<or>
      (\<exists>c. t = Some c \<and> 0 < i \<and> i \<le> length rows \<and> encode_cursor K scope (position (ordered ! (i - 1))) = Inr c)"
    and fuel: "length rows - i < fuel"
  shows "follow fuel serve t = Some (Inr (map render (drop i ordered)))"
  using start fuel
proof (induction fuel arbitrary: i t)
  case (Suc fuel)
  have len: "length ordered = length rows" by (simp add: ordered)
  have mem: "ordered ! j \<in> set rows" if "j < length rows" for j
    using that len nth_mem [of j ordered] by (simp add: ordered)
  have page: "serve t = serve_page K scope position limit render (drop i ordered)"
    using Suc.prems(1)
  proof (elim disjE exE conjE)
    assume "i = 0" "t = None"
    with serve show ?thesis by (simp add: served_def ordered)
  next
    fix c assume c: "t = Some c" "0 < i" "i \<le> length rows"
      and enc: "encode_cursor K scope (position (ordered ! (i - 1))) = Inr c"
    let ?r = "ordered ! (i - 1)"
    from c(2,3) mem have r: "?r \<in> set rows" by simp
    with cursor_reads_back(1) [OF K(1) enc] fits have "decode_cursor K scope c = Inr (position ?r)" by blast
    with reads rows(1) r obtain d where d: "decode K scope c = Inr d" "\<forall>q. row_ok q \<longrightarrow> (after d q \<longleftrightarrow> key ?r < key q)"
      by blast
    from d(2) rows(1) have "filter (after d) rows = filter (\<lambda>q. key ?r < key q) rows"
      by (intro filter_cong) auto
    then have "sort_key key (filter (after d) rows) = filter (\<lambda>q. key ?r < key q) ordered"
      by (simp add: ordered filter_sort)
    also have "\<dots> = drop i ordered"
      using filter_after [of key ordered "i - 1"] sort_key_strict [OF rows(2)] c(2,3) len by (simp add: ordered)
    finally show ?thesis using serve d(1) c(1) by (simp add: served_def)
  qed
  show ?case
  proof (cases "limit < length rows - i")
    case False
    then show ?thesis by (simp add: page serve_page_def next_page_cursor_def len)
  next
    case True
    let ?last = "ordered ! (i + limit - 1)"
    have more: "limit < length (drop i ordered)" "take limit (drop i ordered) \<noteq> []"
      using True limit len by auto
    have last: "last (take limit (drop i ordered)) = ?last"
      using True limit len more(2) by (simp add: last_conv_nth nth_append)
    have "?last \<in> set rows" using True mem by simp
    with encode_cursor_total [OF K] tie_breaker rows(1) obtain c where c: "encode_cursor K scope (position ?last) = Inr c"
      by blast
    from True limit Suc.IH [of "i + limit" "Some c"] Suc.prems(2) c
    have "follow fuel serve (Some c) = Some (Inr (map render (drop (i + limit) ordered)))" by simp
    moreover have "serve t = Inr \<lparr>pg_items = map render (take limit (drop i ordered)), pg_next_cursor = Some c\<rparr>"
      using more c last by (simp add: page serve_page_def next_page_cursor_def)
    moreover have "drop i ordered = take limit (drop i ordered) @ drop (i + limit) ordered"
      by (metis append_take_drop_id drop_drop add.commute)
    ultimately show ?thesis by (simp flip: map_append)
  qed
qed simp

lemma follow_all:
  assumes "codec_ok K" and "validate_scope scope = Inr ()" and "0 < limit"
    and "\<forall>r \<in> set rows. row_ok r" and "distinct (map key rows)"
    and "\<forall>r \<in> set rows. cursor_fits K scope (position r)"
    and "served K scope limit render rows serve"
  shows "follow (Suc (length rows)) serve None = Some (Inr (map render (sort_key key rows)))"
  using follow_from [OF assms refl, of 0 None "Suc (length rows)"] by (simp del: follow.simps)

end

section \<open>Merging pages\<close>

lemma insort_key_agree:
  "(\<And>y. y \<in> set ys \<Longrightarrow> f x \<le> f y \<longleftrightarrow> g x \<le> g y) \<Longrightarrow> insort_key f x ys = insort_key g x ys"
  by (induction ys) auto

lemma sort_key_agree:
  "(\<And>x y. x \<in> set xs \<Longrightarrow> y \<in> set xs \<Longrightarrow> f x \<le> f y \<longleftrightarrow> g x \<le> g y) \<Longrightarrow> sort_key f xs = sort_key g xs"
proof (induction xs)
  case (Cons x xs)
  then have "sort_key f xs = sort_key g xs" by simp
  moreover have "insort_key f x (sort_key g xs) = insort_key g x (sort_key g xs)"
    using Cons.prems by (intro insort_key_agree) simp
  ultimately show ?case by simp
qed simp

lemma insort_key_map: "insort_key g (h x) (map h ys) = map h (insort_key (\<lambda>x. g (h x)) x ys)"
  by (induction ys) simp_all

lemma sort_key_map: "sort_key g (map h xs) = map h (sort_key (\<lambda>x. g (h x)) xs)"
  by (induction xs) (simp_all add: insort_key_map)

lemma sort_key_same:
  assumes "mset xs = mset ys" and "distinct (map k xs)"
  shows "sort_key k xs = sort_key k ys"
proof -
  have "inj_on k (set xs)" using assms(2) by (simp add: distinct_map)
  moreover have "mset (sort_key k ys) = mset xs" using assms(1) by simp
  ultimately show ?thesis by (metis sort_key_inj_key_eq sorted_sort_key)
qed

text \<open>Rows that are behind at least \<open>m\<close> others do not reach the first \<open>m\<close>.\<close>

lemma take_sort_drop:
  assumes dist: "distinct (map k (as @ bs))"
    and behind: "\<And>b. b \<in> set bs \<Longrightarrow> m \<le> length (filter (\<lambda>a. k a < k b) as)"
  shows "take m (sort_key k (as @ bs)) = take m (sort_key k as)"
proof (cases "bs = []")
  case False
  let ?s = "sort_key k (as @ bs)" and ?P = "\<lambda>x. x \<in> set as"
  have disjoint: "set as \<inter> set bs = {}" using dist by auto
  have strict: "sorted_wrt (<) (map k ?s)" by (rule sort_key_strict [OF dist])
  have "m \<le> length as" using behind False by (metis length_filter_le le_trans last_in_set)
  have early: "?P (?s ! i)" if "i < m" for i
  proof (rule ccontr)
    assume "\<not> ?P (?s ! i)"
    have len: "length ?s = length as + length bs" by simp
    with \<open>m \<le> length as\<close> that have i: "i < length ?s" by simp
    then have "?s ! i \<in> set (as @ bs)" using nth_mem [OF i] by simp
    with \<open>\<not> ?P (?s ! i)\<close> have "?s ! i \<in> set bs" by simp
    from behind [OF this] have "m \<le> length (filter (\<lambda>a. k a < k (?s ! i)) (as @ bs))" by simp
    also have "\<dots> = length (filter (\<lambda>a. k a < k (?s ! i)) ?s)"
      by (simp only: filter_sort length_sort)
    also have "filter (\<lambda>a. k a < k (?s ! i)) ?s = take i ?s"
    proof -
      have "filter (\<lambda>a. k a < k (?s ! i)) (take i ?s) = take i ?s"
        using strict i by (auto simp: filter_id_conv in_set_conv_nth sorted_wrt_iff_nth_less)
      moreover have "filter (\<lambda>a. k a < k (?s ! i)) (drop i ?s) = []"
      proof (simp only: filter_empty_conv, intro ballI)
        fix x assume "x \<in> set (drop i ?s)"
        then obtain j where j: "x = ?s ! (i + j)" "i + j < length ?s" by (auto simp: in_set_conv_nth)
        show "\<not> k x < k (?s ! i)"
        proof (cases "j = 0")
          case False
          then have "k (?s ! i) < k (?s ! (i + j))"
            using sorted_wrt_nth_less [OF strict, of i "i + j"] j(2) by simp
          then show ?thesis by (simp add: j(1) not_less less_imp_le)
        qed (simp add: j(1))
      qed
      ultimately show ?thesis by (metis append_Nil2 append_take_drop_id filter_append)
    qed
    finally show False using that i by simp
  qed
  have "filter ?P ?s = sort_key k (filter ?P (as @ bs))" by (simp add: filter_sort)
  also have "filter ?P (as @ bs) = as" using disjoint by (auto simp: filter_id_conv filter_empty_conv)
  finally have "sort_key k as = filter ?P (take m ?s) @ filter ?P (drop m ?s)"
    by (metis append_take_drop_id filter_append)
  moreover have "filter ?P (take m ?s) = take m ?s" using early by (auto simp: filter_id_conv in_set_conv_nth)
  moreover have "length (take m ?s) = m" using \<open>m \<le> length as\<close> by simp
  ultimately show ?thesis by simp
qed simp

lemma submset_distinct:
  assumes "mset xs \<subseteq># mset ys" and "distinct ys"
  shows "distinct xs"
proof -
  have "count (mset xs) a \<le> count (mset ys) a" for a using assms(1) by (rule mset_subset_eq_count)
  moreover have "count (mset ys) a \<le> 1" for a using assms(2) by (simp add: distinct_count_atmost_1)
  ultimately have "count (mset xs) a \<le> 1" for a using le_trans by blast
  then show ?thesis by (auto simp: distinct_count_atmost_1 le_Suc_eq count_eq_zero_iff)
qed

lemma take_sort_cut:
  assumes dist: "distinct (map k (xs @ ys))"
  shows "take m (sort_key k (take m (sort_key k xs) @ ys)) = take m (sort_key k (xs @ ys))"
proof -
  let ?s = "sort_key k xs"
  have strict: "sorted_wrt (<) (map k ?s)" using dist by (intro sort_key_strict) simp
  have perm: "mset ((take m ?s @ ys) @ drop m ?s) = mset (xs @ ys)"
    using mset_append [of "take m ?s" "drop m ?s"] by (simp add: union_ac del: mset_append)
      (simp add: union_ac)
  have "distinct (map k ((take m ?s @ ys) @ drop m ?s))"
    by (rule submset_distinct [OF _ dist]) (simp only: mset_map perm)
  moreover have "m \<le> length (filter (\<lambda>a. k a < k b) (take m ?s @ ys))" if "b \<in> set (drop m ?s)" for b
  proof -
    from that obtain j where j: "b = ?s ! (m + j)" "m + j < length xs" by (auto simp: in_set_conv_nth)
    then have "filter (\<lambda>a. k a < k b) (take m ?s) = take m ?s"
      using strict by (auto simp: filter_id_conv in_set_conv_nth sorted_wrt_iff_nth_less)
    then show ?thesis using j by simp
  qed
  ultimately have "take m (sort_key k ((take m ?s @ ys) @ drop m ?s)) = take m (sort_key k (take m ?s @ ys))"
    by (rule take_sort_drop)
  with sort_key_same [OF perm [symmetric] dist] show ?thesis by simp
qed

lemma take_sort_cuts:
  assumes "distinct (map k (concat xss @ ys))"
  shows "take m (sort_key k (concat (map (\<lambda>xs. take m (sort_key k xs)) xss) @ ys)) = take m (sort_key k (concat xss @ ys))"
  using assms
proof (induction xss arbitrary: ys)
  case (Cons xs xss)
  let ?cut = "\<lambda>xs. take m (sort_key k xs)" and ?rest = "concat (map (\<lambda>xs. take m (sort_key k xs)) xss)"
  have "mset (?cut zs) \<subseteq># mset zs" for zs
    by (metis append_take_drop_id mset_append mset_sort mset_subset_eq_add_left)
  then have "mset ?rest \<subseteq># mset (concat xss)" by (induction xss) (auto intro: subset_mset.add_mono)
  then have "mset (map k (xs @ ?rest @ ys)) \<subseteq># mset (map k (concat (xs # xss) @ ys))"
    using image_mset_subseteq_mono by fastforce
  then have d: "distinct (map k (xs @ ?rest @ ys))" using Cons.prems by (rule submset_distinct)
  have "take m (sort_key k (?cut xs @ ?rest @ ys)) = take m (sort_key k (xs @ ?rest @ ys))"
    using d by (rule take_sort_cut)
  also have "sort_key k (xs @ ?rest @ ys) = sort_key k (?rest @ xs @ ys)"
    using d by (intro sort_key_same) (simp_all add: union_ac)
  also have "take m \<dots> = take m (sort_key k (concat xss @ xs @ ys))"
    using Cons.prems by (intro Cons.IH, elim submset_distinct [rotated]) (simp add: union_ac)
  also have "sort_key k (concat xss @ xs @ ys) = sort_key k (xs @ concat xss @ ys)"
    using Cons.prems by (intro sort_key_same [symmetric]) (simp_all add: union_ac)
  finally show ?case by simp
qed simp

section \<open>A codec\<close>

text \<open>A codec that counts in strokes: enough to run the lists on.\<close>

definition strokes :: "int \<Rightarrow> string" where
  "strokes n = (if n < 0 then ''-'' else ''+'') @ replicate (nat \<bar>n\<bar>) (CHR ''|'') @ '';''"

definition read_strokes :: "string \<Rightarrow> int \<times> string" where
  "read_strokes t =
     (let body = takeWhile (\<lambda>c. c \<noteq> CHR '';'') t;
          n = int (length body) - 1
      in (if hd body = CHR ''-'' then - n else n, drop (Suc (length body)) t))"

definition sample_codec :: cursor_codec where
  "sample_codec =
     \<lparr>to_vec = (\<lambda>p. Some (strokes (pl_timestamp p) @ strokes (int (length (pl_scope p))) @ pl_scope p @ pl_tie_breaker p)),
      from_slice = (\<lambda>t.
        let (timestamp, rest) = read_strokes t; (scope_length, body) = read_strokes rest
        in Some \<lparr>pl_version = 1, pl_scope = take (nat scope_length) body, pl_timestamp = timestamp,
                 pl_tie_breaker = drop (nat scope_length) body\<rparr>),
      base64_encode = (\<lambda>t. t), base64_decode = Some\<rparr>"

lemma takeWhile_replicate: "P x \<Longrightarrow> \<not> P y \<Longrightarrow> takeWhile P (replicate k x @ y # t) = replicate k x"
  by (induction k) simp_all

lemma read_strokes_back: "read_strokes (strokes n @ t) = (n, t)"
proof -
  let ?sign = "if n < 0 then CHR ''-'' else CHR ''+''"
  have "takeWhile (\<lambda>c. c \<noteq> CHR '';'') (strokes n @ t) = ?sign # replicate (nat \<bar>n\<bar>) (CHR ''|'')"
    by (simp add: strokes_def takeWhile_replicate)
  then show ?thesis by (simp add: read_strokes_def strokes_def Let_def)
qed

lemma sample_codec_ok: "codec_ok sample_codec"
  by (simp add: codec_ok_def sample_codec_def read_strokes_back CURSOR_VERSION_def)

end
