(* ===== verification/Admin_Views.thy ===== *)
theory Admin_Views
  imports Keyset
begin

text \<open>
  What an operator sees of a row (\<open>src/admin/query.rs\<close>, \<open>src/admin/types.rs\<close>): the
  projection a query selects and the summary made of it. A payload appears by its length in a
  list and by its parsed value on a detail page, where \<open>serde_json\<close> is the parameter \<open>json\<close>.
\<close>

section \<open>Summaries\<close>

record 'j json_field_summary =
  jf_present :: bool
  jf_bytes :: int
  jf_value :: "'j option"

definition from_required_json :: "(string \<Rightarrow> string + 'j) \<Rightarrow> string \<Rightarrow> durable_error + 'j json_field_summary" where
  "from_required_json json raw =
     (case json raw of
        Inl error \<Rightarrow> Inl (InvalidState (''persisted JSON is invalid: '' @ error))
      | Inr v \<Rightarrow> Inr \<lparr>jf_present = True, jf_bytes = int (length raw), jf_value = Some v\<rparr>)"

definition from_optional_json ::
    "(string \<Rightarrow> string + 'j) \<Rightarrow> string option \<Rightarrow> durable_error + 'j json_field_summary" where
  "from_optional_json json raw =
     (case raw of
        Some r \<Rightarrow> from_required_json json r
      | None \<Rightarrow> Inr \<lparr>jf_present = False, jf_bytes = 0, jf_value = None\<rparr>)"

definition required_json_summary :: "i64 \<Rightarrow> durable_error + 'j json_field_summary" where
  "required_json_summary bytes =
     (if bytes < 0 then Inl (InvalidState ''negative persisted JSON byte length'')
      else Inr \<lparr>jf_present = True, jf_bytes = bytes, jf_value = None\<rparr>)"

definition optional_json_summary :: "i64 option \<Rightarrow> durable_error + 'j json_field_summary" where
  "optional_json_summary bytes =
     (case bytes of
        Some n \<Rightarrow> required_json_summary n
      | None \<Rightarrow> Inr \<lparr>jf_present = False, jf_bytes = 0, jf_value = None\<rparr>)"

text \<open>\<open>OCTET_LENGTH\<close> of a text column.\<close>

definition octet_length :: "string \<Rightarrow> i64" where
  "octet_length t = int (length t)"

section \<open>What the queries select\<close>

record workflow_projection =
  wp_id :: i64
  wp_kind :: string
  wp_version :: i32
  wp_status :: workflow_status
  wp_wait_kind :: "wait_kind option"
  wp_schedule_run_id :: "i64 option"
  wp_root_workflow_id :: "i64 option"
  wp_restarted_from_workflow_id :: "i64 option"
  wp_input_bytes :: i64
  wp_state_bytes :: i64
  wp_result_bytes :: "i64 option"
  wp_error_category :: "string option"
  wp_error_message :: "string option"
  wp_created_at :: db_millis
  wp_updated_at :: db_millis
  wp_completed_at :: "db_millis option"

record workflow_detail_projection =
  wdp_id :: i64
  wdp_kind :: string
  wdp_version :: i32
  wdp_status :: workflow_status
  wdp_wait_kind :: "wait_kind option"
  wdp_schedule_run_id :: "i64 option"
  wdp_root_workflow_id :: "i64 option"
  wdp_restarted_from_workflow_id :: "i64 option"
  wdp_input_json :: string
  wdp_state_json :: string
  wdp_result_json :: "string option"
  wdp_error_category :: "string option"
  wdp_error_message :: "string option"
  wdp_created_at :: db_millis
  wdp_updated_at :: db_millis
  wdp_completed_at :: "db_millis option"

record activity_projection =
  ap_id :: i64
  ap_workflow_id :: i64
  ap_kind :: string
  ap_version :: i32
  ap_topic :: string
  ap_status :: activity_status
  ap_replacement_number :: i32
  ap_attempt_count :: i32
  ap_max_attempts :: i32
  ap_operation_key :: "string option"
  ap_root_activity_id :: "i64 option"
  ap_replaces_activity_id :: "i64 option"
  ap_payload_bytes :: i64
  ap_provider_result_bytes :: "i64 option"
  ap_last_error_category :: "string option"
  ap_last_error_message :: "string option"
  ap_available_at :: db_millis
  ap_created_at :: db_millis
  ap_updated_at :: db_millis
  ap_completed_at :: "db_millis option"

record activity_detail_projection =
  adp_id :: i64
  adp_workflow_id :: i64
  adp_kind :: string
  adp_version :: i32
  adp_topic :: string
  adp_status :: activity_status
  adp_replacement_number :: i32
  adp_attempt_count :: i32
  adp_max_attempts :: i32
  adp_operation_key :: "string option"
  adp_root_activity_id :: "i64 option"
  adp_replaces_activity_id :: "i64 option"
  adp_payload_json :: string
  adp_provider_result_json :: "string option"
  adp_last_error_category :: "string option"
  adp_last_error_message :: "string option"
  adp_available_at :: db_millis
  adp_created_at :: db_millis
  adp_updated_at :: db_millis
  adp_completed_at :: "db_millis option"

record attempt_projection =
  tp_activity_id :: i64
  tp_attempt_number :: i32
  tp_worker_id :: string
  tp_started_at :: db_millis
  tp_heartbeat_at :: db_millis
  tp_finished_at :: "db_millis option"
  tp_outcome :: "attempt_outcome option"
  tp_error_category :: "string option"
  tp_error_message :: "string option"
  tp_provider_result_bytes :: "i64 option"

record attempt_detail_projection =
  tdp_activity_id :: i64
  tdp_attempt_number :: i32
  tdp_worker_id :: string
  tdp_started_at :: db_millis
  tdp_heartbeat_at :: db_millis
  tdp_finished_at :: "db_millis option"
  tdp_outcome :: "attempt_outcome option"
  tdp_error_category :: "string option"
  tdp_error_message :: "string option"
  tdp_provider_result_json :: "string option"

record approval_projection =
  pp_id :: i64
  pp_workflow_id :: i64
  pp_kind :: string
  pp_version :: i32
  pp_status :: approval_status
  pp_decision_bytes :: "i64 option"
  pp_decided_by :: "i32 option"
  pp_operator_reason :: "string option"
  pp_requested_at :: db_millis
  pp_expires_at :: "db_millis option"
  pp_resolved_at :: "db_millis option"

definition workflow_selection :: "workflow_row \<Rightarrow> workflow_projection" where
  "workflow_selection r =
     \<lparr>wp_id = wf_id r, wp_kind = wf_kind r, wp_version = wf_version r, wp_status = wf_status r,
      wp_wait_kind = wf_wait_kind r, wp_schedule_run_id = wf_schedule_run_id r,
      wp_root_workflow_id = wf_root_workflow_id r,
      wp_restarted_from_workflow_id = wf_restarted_from_workflow_id r,
      wp_input_bytes = octet_length (wf_input_json r),
      wp_state_bytes = octet_length (wf_state_json r),
      wp_result_bytes = map_option octet_length (wf_result_json r),
      wp_error_category = wf_error_category r, wp_error_message = wf_error_message r,
      wp_created_at = wf_created_at r, wp_updated_at = wf_updated_at r,
      wp_completed_at = wf_completed_at r\<rparr>"

definition workflow_detail_selection :: "workflow_row \<Rightarrow> workflow_detail_projection" where
  "workflow_detail_selection r =
     \<lparr>wdp_id = wf_id r, wdp_kind = wf_kind r, wdp_version = wf_version r, wdp_status = wf_status r,
      wdp_wait_kind = wf_wait_kind r, wdp_schedule_run_id = wf_schedule_run_id r,
      wdp_root_workflow_id = wf_root_workflow_id r,
      wdp_restarted_from_workflow_id = wf_restarted_from_workflow_id r,
      wdp_input_json = wf_input_json r, wdp_state_json = wf_state_json r,
      wdp_result_json = wf_result_json r, wdp_error_category = wf_error_category r,
      wdp_error_message = wf_error_message r, wdp_created_at = wf_created_at r,
      wdp_updated_at = wf_updated_at r, wdp_completed_at = wf_completed_at r\<rparr>"

definition activity_selection :: "activity_row \<Rightarrow> activity_projection" where
  "activity_selection r =
     \<lparr>ap_id = act_id r, ap_workflow_id = act_workflow_id r, ap_kind = act_kind r,
      ap_version = act_version r, ap_topic = act_topic r, ap_status = act_status r,
      ap_replacement_number = act_replacement_number r, ap_attempt_count = act_attempt_count r,
      ap_max_attempts = act_max_attempts r, ap_operation_key = act_operation_key r,
      ap_root_activity_id = act_root_activity_id r,
      ap_replaces_activity_id = act_replaces_activity_id r,
      ap_payload_bytes = octet_length (act_payload_json r),
      ap_provider_result_bytes = map_option octet_length (act_provider_result_json r),
      ap_last_error_category = act_last_error_category r,
      ap_last_error_message = act_last_error_message r, ap_available_at = act_available_at r,
      ap_created_at = act_created_at r, ap_updated_at = act_updated_at r,
      ap_completed_at = act_completed_at r\<rparr>"

definition activity_detail_selection :: "activity_row \<Rightarrow> activity_detail_projection" where
  "activity_detail_selection r =
     \<lparr>adp_id = act_id r, adp_workflow_id = act_workflow_id r, adp_kind = act_kind r,
      adp_version = act_version r, adp_topic = act_topic r, adp_status = act_status r,
      adp_replacement_number = act_replacement_number r, adp_attempt_count = act_attempt_count r,
      adp_max_attempts = act_max_attempts r, adp_operation_key = act_operation_key r,
      adp_root_activity_id = act_root_activity_id r,
      adp_replaces_activity_id = act_replaces_activity_id r, adp_payload_json = act_payload_json r,
      adp_provider_result_json = act_provider_result_json r,
      adp_last_error_category = act_last_error_category r,
      adp_last_error_message = act_last_error_message r, adp_available_at = act_available_at r,
      adp_created_at = act_created_at r, adp_updated_at = act_updated_at r,
      adp_completed_at = act_completed_at r\<rparr>"

definition attempt_selection :: "activity_attempt_row \<Rightarrow> attempt_projection" where
  "attempt_selection r =
     \<lparr>tp_activity_id = att_activity_id r, tp_attempt_number = att_attempt_number r,
      tp_worker_id = att_worker_id r, tp_started_at = att_started_at r,
      tp_heartbeat_at = att_heartbeat_at r, tp_finished_at = att_finished_at r,
      tp_outcome = att_outcome r, tp_error_category = att_error_category r,
      tp_error_message = att_error_message r,
      tp_provider_result_bytes = map_option octet_length (att_provider_result_json r)\<rparr>"

definition attempt_detail_selection :: "activity_attempt_row \<Rightarrow> attempt_detail_projection" where
  "attempt_detail_selection r =
     \<lparr>tdp_activity_id = att_activity_id r, tdp_attempt_number = att_attempt_number r,
      tdp_worker_id = att_worker_id r, tdp_started_at = att_started_at r,
      tdp_heartbeat_at = att_heartbeat_at r, tdp_finished_at = att_finished_at r,
      tdp_outcome = att_outcome r, tdp_error_category = att_error_category r,
      tdp_error_message = att_error_message r, tdp_provider_result_json = att_provider_result_json r\<rparr>"

definition approval_selection :: "approval_row \<Rightarrow> approval_projection" where
  "approval_selection r =
     \<lparr>pp_id = apr_id r, pp_workflow_id = apr_workflow_id r, pp_kind = apr_kind r,
      pp_version = apr_version r, pp_status = apr_status r,
      pp_decision_bytes = map_option octet_length (apr_decision_payload_json r),
      pp_decided_by = apr_decided_by r, pp_operator_reason = apr_operator_reason r,
      pp_requested_at = apr_requested_at r, pp_expires_at = apr_expires_at r,
      pp_resolved_at = apr_resolved_at r\<rparr>"

section \<open>Summaries of the rows\<close>

record 'j workflow_summary =
  wsm_id :: i64
  wsm_kind :: string
  wsm_version :: i32
  wsm_status :: string
  wsm_wait_kind :: "string option"
  wsm_schedule_run_id :: "i64 option"
  wsm_root_workflow_id :: "i64 option"
  wsm_restarted_from_workflow_id :: "i64 option"
  wsm_input :: "'j json_field_summary"
  wsm_state :: "'j json_field_summary"
  wsm_result :: "'j json_field_summary"
  wsm_error_category :: "string option"
  wsm_error_message :: "string option"
  wsm_created_at :: db_millis
  wsm_updated_at :: db_millis
  wsm_completed_at :: "db_millis option"

record 'j activity_summary =
  asm_id :: i64
  asm_workflow_id :: i64
  asm_kind :: string
  asm_version :: i32
  asm_topic :: string
  asm_status :: string
  asm_replacement_number :: i32
  asm_attempt_count :: i32
  asm_max_attempts :: i32
  asm_operation_key :: "string option"
  asm_root_activity_id :: "i64 option"
  asm_replaces_activity_id :: "i64 option"
  asm_payload :: "'j json_field_summary"
  asm_provider_result :: "'j json_field_summary"
  asm_error_category :: "string option"
  asm_error_message :: "string option"
  asm_available_at :: db_millis
  asm_created_at :: db_millis
  asm_updated_at :: db_millis
  asm_completed_at :: "db_millis option"

record 'j activity_attempt_summary =
  ats_activity_id :: i64
  ats_attempt_number :: i32
  ats_worker_id :: string
  ats_started_at :: db_millis
  ats_heartbeat_at :: db_millis
  ats_finished_at :: "db_millis option"
  ats_outcome :: "string option"
  ats_error_category :: "string option"
  ats_error_message :: "string option"
  ats_provider_result :: "'j json_field_summary"

record progress_summary =
  prs_activity_id :: i64
  prs_attempt_number :: i32
  prs_sequence :: i32
  prs_code :: string
  prs_description :: string
  prs_completed_units :: "i64 option"
  prs_total_units :: "i64 option"
  prs_severity :: string
  prs_created_at :: db_millis

record 'j approval_summary =
  aps_id :: i64
  aps_workflow_id :: i64
  aps_kind :: string
  aps_version :: i32
  aps_status :: string
  aps_decision :: "'j json_field_summary"
  aps_decided_by :: "i32 option"
  aps_operator_reason :: "string option"
  aps_requested_at :: db_millis
  aps_expires_at :: "db_millis option"
  aps_resolved_at :: "db_millis option"

definition workflow_summary_of :: "workflow_projection \<Rightarrow> durable_error + 'j workflow_summary" where
  "workflow_summary_of row =
     (case required_json_summary (wp_input_bytes row) of
        Inl e \<Rightarrow> Inl e
      | Inr input \<Rightarrow>
        (case required_json_summary (wp_state_bytes row) of
           Inl e \<Rightarrow> Inl e
         | Inr st \<Rightarrow>
           (case optional_json_summary (wp_result_bytes row) of
              Inl e \<Rightarrow> Inl e
            | Inr result \<Rightarrow>
              Inr \<lparr>wsm_id = wp_id row, wsm_kind = wp_kind row, wsm_version = wp_version row,
                   wsm_status = workflow_status_as_str (wp_status row),
                   wsm_wait_kind = map_option wait_kind_as_str (wp_wait_kind row),
                   wsm_schedule_run_id = wp_schedule_run_id row,
                   wsm_root_workflow_id = wp_root_workflow_id row,
                   wsm_restarted_from_workflow_id = wp_restarted_from_workflow_id row, wsm_input = input,
                   wsm_state = st, wsm_result = result, wsm_error_category = wp_error_category row,
                   wsm_error_message = wp_error_message row, wsm_created_at = wp_created_at row,
                   wsm_updated_at = wp_updated_at row, wsm_completed_at = wp_completed_at row\<rparr>)))"

definition workflow_detail_summary :: "(string \<Rightarrow> string + 'j) \<Rightarrow> workflow_detail_projection \<Rightarrow> durable_error + 'j workflow_summary" where
  "workflow_detail_summary json row =
     (case from_required_json json (wdp_input_json row) of
        Inl e \<Rightarrow> Inl e
      | Inr input \<Rightarrow>
        (case from_required_json json (wdp_state_json row) of
           Inl e \<Rightarrow> Inl e
         | Inr st \<Rightarrow>
           (case from_optional_json json (wdp_result_json row) of
              Inl e \<Rightarrow> Inl e
            | Inr result \<Rightarrow>
              Inr \<lparr>wsm_id = wdp_id row, wsm_kind = wdp_kind row, wsm_version = wdp_version row,
                   wsm_status = workflow_status_as_str (wdp_status row),
                   wsm_wait_kind = map_option wait_kind_as_str (wdp_wait_kind row),
                   wsm_schedule_run_id = wdp_schedule_run_id row,
                   wsm_root_workflow_id = wdp_root_workflow_id row,
                   wsm_restarted_from_workflow_id = wdp_restarted_from_workflow_id row, wsm_input = input,
                   wsm_state = st, wsm_result = result, wsm_error_category = wdp_error_category row,
                   wsm_error_message = wdp_error_message row, wsm_created_at = wdp_created_at row,
                   wsm_updated_at = wdp_updated_at row, wsm_completed_at = wdp_completed_at row\<rparr>)))"

definition activity_summary_of :: "activity_projection \<Rightarrow> durable_error + 'j activity_summary" where
  "activity_summary_of row =
     (case required_json_summary (ap_payload_bytes row) of
        Inl e \<Rightarrow> Inl e
      | Inr payload \<Rightarrow>
        (case optional_json_summary (ap_provider_result_bytes row) of
           Inl e \<Rightarrow> Inl e
         | Inr provider_result \<Rightarrow>
           Inr \<lparr>asm_id = ap_id row, asm_workflow_id = ap_workflow_id row, asm_kind = ap_kind row,
                asm_version = ap_version row, asm_topic = ap_topic row,
                asm_status = activity_status_as_str (ap_status row),
                asm_replacement_number = ap_replacement_number row,
                asm_attempt_count = ap_attempt_count row, asm_max_attempts = ap_max_attempts row,
                asm_operation_key = ap_operation_key row, asm_root_activity_id = ap_root_activity_id row,
                asm_replaces_activity_id = ap_replaces_activity_id row, asm_payload = payload,
                asm_provider_result = provider_result, asm_error_category = ap_last_error_category row,
                asm_error_message = ap_last_error_message row,
                asm_available_at = (if ap_available_at row = CONTINUATION_READY_AT_MILLIS then ap_created_at row else ap_available_at row),
                asm_created_at = ap_created_at row, asm_updated_at = ap_updated_at row,
                asm_completed_at = ap_completed_at row\<rparr>))"

definition activity_detail_summary :: "(string \<Rightarrow> string + 'j) \<Rightarrow> activity_detail_projection \<Rightarrow> durable_error + 'j activity_summary" where
  "activity_detail_summary json row =
     (case from_required_json json (adp_payload_json row) of
        Inl e \<Rightarrow> Inl e
      | Inr payload \<Rightarrow>
        (case from_optional_json json (adp_provider_result_json row) of
           Inl e \<Rightarrow> Inl e
         | Inr provider_result \<Rightarrow>
           Inr \<lparr>asm_id = adp_id row, asm_workflow_id = adp_workflow_id row, asm_kind = adp_kind row,
                asm_version = adp_version row, asm_topic = adp_topic row,
                asm_status = activity_status_as_str (adp_status row),
                asm_replacement_number = adp_replacement_number row,
                asm_attempt_count = adp_attempt_count row, asm_max_attempts = adp_max_attempts row,
                asm_operation_key = adp_operation_key row, asm_root_activity_id = adp_root_activity_id row,
                asm_replaces_activity_id = adp_replaces_activity_id row, asm_payload = payload,
                asm_provider_result = provider_result, asm_error_category = adp_last_error_category row,
                asm_error_message = adp_last_error_message row,
                asm_available_at = (if adp_available_at row = CONTINUATION_READY_AT_MILLIS then adp_created_at row else adp_available_at row),
                asm_created_at = adp_created_at row, asm_updated_at = adp_updated_at row,
                asm_completed_at = adp_completed_at row\<rparr>))"

definition attempt_summary_of :: "attempt_projection \<Rightarrow> durable_error + 'j activity_attempt_summary" where
  "attempt_summary_of row =
     (case optional_json_summary (tp_provider_result_bytes row) of
        Inl e \<Rightarrow> Inl e
      | Inr provider_result \<Rightarrow>
        Inr \<lparr>ats_activity_id = tp_activity_id row, ats_attempt_number = tp_attempt_number row,
             ats_worker_id = tp_worker_id row, ats_started_at = tp_started_at row,
             ats_heartbeat_at = tp_heartbeat_at row, ats_finished_at = tp_finished_at row,
             ats_outcome = map_option attempt_outcome_as_str (tp_outcome row),
             ats_error_category = tp_error_category row, ats_error_message = tp_error_message row,
             ats_provider_result = provider_result\<rparr>)"

definition attempt_detail_summary :: "(string \<Rightarrow> string + 'j) \<Rightarrow> attempt_detail_projection \<Rightarrow> durable_error + 'j activity_attempt_summary" where
  "attempt_detail_summary json row =
     (case from_optional_json json (tdp_provider_result_json row) of
        Inl e \<Rightarrow> Inl e
      | Inr provider_result \<Rightarrow>
        Inr \<lparr>ats_activity_id = tdp_activity_id row, ats_attempt_number = tdp_attempt_number row,
             ats_worker_id = tdp_worker_id row, ats_started_at = tdp_started_at row,
             ats_heartbeat_at = tdp_heartbeat_at row, ats_finished_at = tdp_finished_at row,
             ats_outcome = map_option attempt_outcome_as_str (tdp_outcome row),
             ats_error_category = tdp_error_category row, ats_error_message = tdp_error_message row,
             ats_provider_result = provider_result\<rparr>)"

definition approval_summary_of :: "approval_projection \<Rightarrow> durable_error + 'j approval_summary" where
  "approval_summary_of row =
     (case optional_json_summary (pp_decision_bytes row) of
        Inl e \<Rightarrow> Inl e
      | Inr decision \<Rightarrow>
        Inr \<lparr>aps_id = pp_id row, aps_workflow_id = pp_workflow_id row, aps_kind = pp_kind row,
             aps_version = pp_version row, aps_status = approval_status_as_str (pp_status row),
             aps_decision = decision, aps_decided_by = pp_decided_by row,
             aps_operator_reason = pp_operator_reason row, aps_requested_at = pp_requested_at row,
             aps_expires_at = pp_expires_at row, aps_resolved_at = pp_resolved_at row\<rparr>)"

definition progress_summary_of :: "progress_event_row \<Rightarrow> progress_summary" where
  "progress_summary_of row =
     \<lparr>prs_activity_id = prg_activity_id row, prs_attempt_number = prg_attempt_number row, prs_sequence = prg_sequence row,
      prs_code = prg_code row, prs_description = prg_description row, prs_completed_units = prg_completed_units row,
      prs_total_units = prg_total_units row, prs_severity = prg_severity row, prs_created_at = prg_created_at row\<rparr>"

end
