(* ===== verification/Admin_Query.thy ===== *)
theory Admin_Query
  imports Admin_Views
begin

text \<open>
  The operator's lists of workflows and activities and the detail pages
  (\<open>src/admin/query.rs\<close>). A query reads the state and changes nothing. Each list is a
  \<open>keyset\<close>, so that following its cursors reads every selected row once and in order.
\<close>

section \<open>Filters\<close>

record workflow_list_filter =
  wlf_page :: page_request
  wlf_kind :: "string option"
  wlf_version :: "i32 option"
  wlf_status :: "string option"
  wlf_schedule_run_id :: "i64 option"
  wlf_root_workflow_id :: "i64 option"
  wlf_created_after :: "i64 option"
  wlf_created_before :: "i64 option"
  wlf_waiting_approval :: "bool option"

record activity_list_filter =
  alf_page :: page_request
  alf_workflow_id :: "i64 option"
  alf_kind :: "string option"
  alf_version :: "i32 option"
  alf_topic :: "string option"
  alf_status :: "string option"
  alf_created_after :: "i64 option"
  alf_created_before :: "i64 option"

text \<open>A filter that is not set selects every row.\<close>

definition when_set :: "'a option \<Rightarrow> ('a \<Rightarrow> bool) \<Rightarrow> bool" where
  "when_set setting P = (case setting of None \<Rightarrow> True | Some x \<Rightarrow> P x)"

definition validate_time_range :: "i64 option \<Rightarrow> i64 option \<Rightarrow> durable_error + unit" where
  "validate_time_range after before =
     (case (after, before) of
        (Some a, Some b) \<Rightarrow>
          if a \<ge> b then Inl (InvalidDefinition ''createdAfter must precede createdBefore'') else Inr ()
      | _ \<Rightarrow> Inr ())"

definition validate_workflow_filter :: "workflow_list_filter \<Rightarrow> durable_error + unit" where
  "validate_workflow_filter filters =
     (if \<not> when_set (wlf_version filters) (\<lambda>version. version > 0)
      then Inl (InvalidDefinition ''workflow version filter must be positive'')
      else validate_time_range (wlf_created_after filters) (wlf_created_before filters))"

definition validate_activity_filter :: "activity_list_filter \<Rightarrow> durable_error + unit" where
  "validate_activity_filter filters =
     (if \<not> when_set (alf_version filters) (\<lambda>version. version > 0)
      then Inl (InvalidDefinition ''activity version filter must be positive'')
      else validate_time_range (alf_created_after filters) (alf_created_before filters))"

definition workflow_selected :: "workflow_list_filter \<Rightarrow> workflow_row \<Rightarrow> bool" where
  "workflow_selected filters r \<longleftrightarrow>
     when_set (wlf_kind filters) (\<lambda>kind. wf_kind r = kind) \<and>
     when_set (wlf_version filters) (\<lambda>version. wf_version r = version) \<and>
     when_set (wlf_status filters) (\<lambda>status. workflow_status_as_str (wf_status r) = status) \<and>
     when_set (wlf_schedule_run_id filters) (\<lambda>i. sql_eq (wf_schedule_run_id r) (Some i)) \<and>
     when_set (wlf_root_workflow_id filters) (\<lambda>i. sql_eq (wf_root_workflow_id r) (Some i)) \<and>
     when_set (wlf_created_after filters) (\<lambda>t. wf_created_at r \<ge> t) \<and>
     when_set (wlf_created_before filters) (\<lambda>t. wf_created_at r < t) \<and>
     when_set (wlf_waiting_approval filters) (\<lambda>waiting.
       if waiting then sql_eq (wf_wait_kind r) (Some WK_Approval)
       else (case wf_wait_kind r of None \<Rightarrow> True | Some kind \<Rightarrow> kind \<noteq> WK_Approval))"

definition activity_selected :: "activity_list_filter \<Rightarrow> activity_row \<Rightarrow> bool" where
  "activity_selected filters r \<longleftrightarrow>
     when_set (alf_workflow_id filters) (\<lambda>i. act_workflow_id r = i) \<and>
     when_set (alf_kind filters) (\<lambda>kind. act_kind r = kind) \<and>
     when_set (alf_version filters) (\<lambda>version. act_version r = version) \<and>
     when_set (alf_topic filters) (\<lambda>topic. act_topic r = topic) \<and>
     when_set (alf_status filters) (\<lambda>status. activity_status_as_str (act_status r) = status) \<and>
     when_set (alf_created_after filters) (\<lambda>t. act_created_at r \<ge> t) \<and>
     when_set (alf_created_before filters) (\<lambda>t. act_created_at r < t)"

section \<open>Lists\<close>

definition decode_optional :: "(string \<Rightarrow> durable_error + 'c) \<Rightarrow> string option \<Rightarrow> durable_error + 'c option" where
  "decode_optional decode cursor =
     (case cursor of
        None \<Rightarrow> Inr None
      | Some t \<Rightarrow> (case decode t of Inl e \<Rightarrow> Inl e | Inr c \<Rightarrow> Inr (Some c)))"

text \<open>The rows of a newest-first list that come after a position.\<close>

definition older_than :: "i64 \<times> i64 \<Rightarrow> db_millis \<Rightarrow> i64 \<Rightarrow> bool" where
  "older_than position t i = (case position of (timestamp, n) \<Rightarrow> t < timestamp \<or> t = timestamp \<and> i < n)"

definition page_workflows ::
    "cursor_codec \<Rightarrow> workflow_projection list \<Rightarrow> u32 \<Rightarrow> durable_error + 'j workflow_summary admin_page" where
  "page_workflows K rows0 limit =
     (let has_more = length rows0 > nat limit;
          rows = (if has_more then butlast rows0 else rows0)
      in case next_page_cursor K ''workflows''
             (\<lambda>row. \<lparr>cp_timestamp = wp_created_at row, cp_tie_breaker = dec_int (wp_id row)\<rparr>) has_more rows of
           Inl e \<Rightarrow> Inl e
         | Inr next_cursor \<Rightarrow>
             (case collect_results (map workflow_summary_of rows) of
                Inl e \<Rightarrow> Inl e
              | Inr items \<Rightarrow> Inr \<lparr>pg_items = items, pg_next_cursor = next_cursor\<rparr>))"

definition list_workflows ::
    "cursor_codec \<Rightarrow> workflow_list_filter \<Rightarrow> db \<Rightarrow> durable_error + 'j workflow_summary admin_page" where
  "list_workflows K filters s =
     (case bounded_limit (wlf_page filters) MAX_ADMIN_PAGE_SIZE of
        Inl e \<Rightarrow> Inl e
      | Inr limit \<Rightarrow>
          (case validate_workflow_filter filters of
             Inl e \<Rightarrow> Inl e
           | Inr _ \<Rightarrow>
               (case decode_optional (decode_numeric_cursor K ''workflows'') (pr_cursor (wlf_page filters)) of
                  Inl e \<Rightarrow> Inl e
                | Inr cursor \<Rightarrow>
                    page_workflows K
                      (map workflow_selection
                        (take (nat limit + 1)
                          (sort_key (\<lambda>r. (- wf_created_at r, - wf_id r))
                            (filter (\<lambda>r. workflow_selected filters r \<and>
                               when_set cursor (\<lambda>p. older_than p (wf_created_at r) (wf_id r))) (workflows s)))))
                      limit)))"

definition get_workflow :: "(string \<Rightarrow> string + 'j) \<Rightarrow> i64 \<Rightarrow> db \<Rightarrow> durable_error + 'j workflow_summary" where
  "get_workflow json workflow_id s =
     (case workflow_by_id s workflow_id of
        None \<Rightarrow> Inl (not_found ''workflow'' (dec_int workflow_id))
      | Some row \<Rightarrow> workflow_detail_summary json (workflow_detail_selection row))"

definition page_activities ::
    "cursor_codec \<Rightarrow> activity_projection list \<Rightarrow> u32 \<Rightarrow> durable_error + 'j activity_summary admin_page" where
  "page_activities K rows0 limit =
     (let has_more = length rows0 > nat limit;
          rows = (if has_more then butlast rows0 else rows0)
      in case next_page_cursor K ''activities''
             (\<lambda>row. \<lparr>cp_timestamp = ap_created_at row, cp_tie_breaker = dec_int (ap_id row)\<rparr>) has_more rows of
           Inl e \<Rightarrow> Inl e
         | Inr next_cursor \<Rightarrow>
             (case collect_results (map activity_summary_of rows) of
                Inl e \<Rightarrow> Inl e
              | Inr items \<Rightarrow> Inr \<lparr>pg_items = items, pg_next_cursor = next_cursor\<rparr>))"

definition list_activities ::
    "cursor_codec \<Rightarrow> activity_list_filter \<Rightarrow> db \<Rightarrow> durable_error + 'j activity_summary admin_page" where
  "list_activities K filters s =
     (case bounded_limit (alf_page filters) MAX_ADMIN_PAGE_SIZE of
        Inl e \<Rightarrow> Inl e
      | Inr limit \<Rightarrow>
          (case validate_activity_filter filters of
             Inl e \<Rightarrow> Inl e
           | Inr _ \<Rightarrow>
               (case decode_optional (decode_numeric_cursor K ''activities'') (pr_cursor (alf_page filters)) of
                  Inl e \<Rightarrow> Inl e
                | Inr cursor \<Rightarrow>
                    page_activities K
                      (map activity_selection
                        (take (nat limit + 1)
                          (sort_key (\<lambda>r. (- act_created_at r, - act_id r))
                            (filter (\<lambda>r. activity_selected filters r \<and>
                               when_set cursor (\<lambda>p. older_than p (act_created_at r) (act_id r))) (activities s)))))
                      limit)))"

section \<open>One activity\<close>

record activity_detail_request =
  adr_attempt_cursor :: "string option"
  adr_attempt_limit :: "u32 option"
  adr_progress_cursor :: "string option"
  adr_progress_limit :: "u32 option"

record 'j activity_detail =
  ad_activity :: "'j activity_summary"
  ad_attempts :: "'j activity_attempt_summary admin_page"
  ad_progress :: "progress_summary admin_page"

definition attempt_scope :: "i64 \<Rightarrow> string" where
  "attempt_scope activity_id = ''activity_attempts:'' @ dec_int activity_id"

definition progress_scope :: "i64 \<Rightarrow> string" where
  "progress_scope activity_id = ''activity_progress:'' @ dec_int activity_id"

definition decode_attempt_cursor :: "cursor_codec \<Rightarrow> string \<Rightarrow> string \<Rightarrow> durable_error + i32" where
  "decode_attempt_cursor K scope cursor =
     (case decode_numeric_cursor K scope cursor of
        Inl e \<Rightarrow> Inl e
      | Inr (_, attempt) \<Rightarrow>
          (case i32_try_from attempt of
             None \<Rightarrow> Inl (InvalidCursor ''activity attempt cursor exceeds the integer range'')
           | Some n \<Rightarrow> Inr n))"

definition decode_progress_cursor :: "cursor_codec \<Rightarrow> string \<Rightarrow> string \<Rightarrow> durable_error + i32 \<times> i32" where
  "decode_progress_cursor K scope cursor =
     (case decode_numeric_cursor K scope cursor of
        Inl e \<Rightarrow> Inl e
      | Inr (attempt, sequence) \<Rightarrow>
          (case i32_try_from attempt of
             None \<Rightarrow> Inl (InvalidCursor ''progress attempt cursor exceeds the integer range'')
           | Some a \<Rightarrow>
               (case i32_try_from sequence of
                  None \<Rightarrow> Inl (InvalidCursor ''progress sequence cursor exceeds the integer range'')
                | Some n \<Rightarrow> Inr (a, n))))"

definition attempt_position :: "attempt_detail_projection \<Rightarrow> cursor_position" where
  "attempt_position attempt = \<lparr>cp_timestamp = 0, cp_tie_breaker = dec_int (tdp_attempt_number attempt)\<rparr>"

definition progress_position :: "progress_event_row \<Rightarrow> cursor_position" where
  "progress_position entry =
     \<lparr>cp_timestamp = prg_attempt_number entry, cp_tie_breaker = dec_int (prg_sequence entry)\<rparr>"

definition attempt_page ::
    "cursor_codec \<Rightarrow> (string \<Rightarrow> string + 'j) \<Rightarrow> i64 \<Rightarrow> i32 option \<Rightarrow> u32 \<Rightarrow> db \<Rightarrow>
     durable_error + 'j activity_attempt_summary admin_page" where
  "attempt_page K json activity_id attempt_after limit s =
     (let rows0 = map attempt_detail_selection (take (nat limit + 1) (sort_key att_attempt_number
            (filter (\<lambda>r. att_activity_id r = activity_id \<and>
               when_set attempt_after (\<lambda>n. att_attempt_number r > n)) (attempts s))));
          have_more = length rows0 > nat limit;
          rows = take (nat limit) rows0
      in case next_page_cursor K (attempt_scope activity_id) attempt_position have_more rows of
           Inl e \<Rightarrow> Inl e
         | Inr next_cursor \<Rightarrow>
             (case collect_results (map (attempt_detail_summary json) rows) of
                Inl e \<Rightarrow> Inl e
              | Inr items \<Rightarrow> Inr \<lparr>pg_items = items, pg_next_cursor = next_cursor\<rparr>))"

definition progress_page ::
    "cursor_codec \<Rightarrow> i64 \<Rightarrow> (i32 \<times> i32) option \<Rightarrow> u32 \<Rightarrow> db \<Rightarrow> durable_error + progress_summary admin_page" where
  "progress_page K activity_id progress_after limit s =
     (let rows0 = take (nat limit + 1) (sort_key (\<lambda>r. (prg_attempt_number r, prg_sequence r))
            (filter (\<lambda>r. prg_activity_id r = activity_id \<and>
               when_set progress_after (\<lambda>(attempt_number, sequence). prg_attempt_number r > attempt_number \<or>
                 prg_attempt_number r = attempt_number \<and> prg_sequence r > sequence)) (progress_events s)));
          have_more = length rows0 > nat limit;
          rows = take (nat limit) rows0
      in case next_page_cursor K (progress_scope activity_id) progress_position have_more rows of
           Inl e \<Rightarrow> Inl e
         | Inr next_cursor \<Rightarrow>
             Inr \<lparr>pg_items = map progress_summary_of rows, pg_next_cursor = next_cursor\<rparr>)"

definition get_activity ::
    "cursor_codec \<Rightarrow> (string \<Rightarrow> string + 'j) \<Rightarrow> i64 \<Rightarrow> activity_detail_request \<Rightarrow> db \<Rightarrow>
     durable_error + 'j activity_detail" where
  "get_activity K json activity_id request s =
     (case bounded_limit \<lparr>pr_cursor = adr_attempt_cursor request, pr_limit = adr_attempt_limit request\<rparr>
          MAX_ADMIN_PAGE_SIZE of
        Inl e \<Rightarrow> Inl e
      | Inr attempt_limit \<Rightarrow>
     (case bounded_limit \<lparr>pr_cursor = adr_progress_cursor request, pr_limit = adr_progress_limit request\<rparr>
          MAX_ADMIN_PAGE_SIZE of
        Inl e \<Rightarrow> Inl e
      | Inr progress_limit \<Rightarrow>
     (case decode_optional (decode_attempt_cursor K (attempt_scope activity_id)) (adr_attempt_cursor request) of
        Inl e \<Rightarrow> Inl e
      | Inr attempt_after \<Rightarrow>
     (case decode_optional (decode_progress_cursor K (progress_scope activity_id)) (adr_progress_cursor request) of
        Inl e \<Rightarrow> Inl e
      | Inr progress_after \<Rightarrow>
     (case activity_by_id s activity_id of
        None \<Rightarrow> Inl (not_found ''activity'' (dec_int activity_id))
      | Some row \<Rightarrow>
     (case attempt_page K json activity_id attempt_after attempt_limit s of
        Inl e \<Rightarrow> Inl e
      | Inr attempt_list \<Rightarrow>
     (case progress_page K activity_id progress_after progress_limit s of
        Inl e \<Rightarrow> Inl e
      | Inr progress \<Rightarrow>
     (case activity_detail_summary json (activity_detail_selection row) of
        Inl e \<Rightarrow> Inl e
      | Inr activity \<Rightarrow>
          Inr \<lparr>ad_activity = activity, ad_attempts = attempt_list, ad_progress = progress\<rparr>))))))))"

section \<open>The lists are keysets\<close>

lemma newest_first: "older_than (a, i) t j \<longleftrightarrow> (- a, - i) < (- t, - j)"
  by (auto simp: older_than_def)

abbreviation wire_id :: "i64 \<Rightarrow> bool" where
  "wire_id i \<equiv> 0 < i \<and> in_signed 64 i"

abbreviation workflow_position :: "workflow_row \<Rightarrow> cursor_position" where
  "workflow_position r \<equiv> \<lparr>cp_timestamp = wf_created_at r, cp_tie_breaker = dec_int (wf_id r)\<rparr>"

abbreviation activity_position :: "activity_row \<Rightarrow> cursor_position" where
  "activity_position r \<equiv> \<lparr>cp_timestamp = act_created_at r, cp_tie_breaker = dec_int (act_id r)\<rparr>"

interpretation workflow_list: keyset "\<lambda>r. (- wf_created_at r, - wf_id r)" workflow_position decode_numeric_cursor
    "\<lambda>p r. older_than p (wf_created_at r) (wf_id r)" "\<lambda>r. wire_id (wf_id r)"
  by unfold_locales (auto simp: dec_int_tie_breaker newest_first dest!: decode_numeric_written)

interpretation activity_list: keyset "\<lambda>r. (- act_created_at r, - act_id r)" activity_position decode_numeric_cursor
    "\<lambda>p r. older_than p (act_created_at r) (act_id r)" "\<lambda>r. wire_id (act_id r)"
  by unfold_locales (auto simp: dec_int_tie_breaker newest_first dest!: decode_numeric_written)

interpretation attempt_list: keyset att_attempt_number "\<lambda>r. attempt_position (attempt_detail_selection r)"
    decode_attempt_cursor "\<lambda>n r. att_attempt_number r > n"
    "\<lambda>r. 0 < att_attempt_number r \<and> in_signed 32 (att_attempt_number r)"
  by unfold_locales
    (auto simp: attempt_position_def attempt_detail_selection_def decode_attempt_cursor_def i32_try_from_def
       in_signed_def dec_int_tie_breaker dest!: decode_numeric_written)

interpretation progress_list: keyset "\<lambda>r. (prg_attempt_number r, prg_sequence r)" progress_position
    decode_progress_cursor "\<lambda>(a, n) r. prg_attempt_number r > a \<or> prg_attempt_number r = a \<and> prg_sequence r > n"
    "\<lambda>r. in_signed 32 (prg_attempt_number r) \<and> 0 < prg_sequence r \<and> in_signed 32 (prg_sequence r)"
  by unfold_locales
    (auto simp: progress_position_def decode_progress_cursor_def i32_try_from_def in_signed_def dec_int_tie_breaker
       dest!: decode_numeric_written)

section \<open>Following a list to its end\<close>

lemma collect_results_values: "collect_results (map (\<lambda>r. Inr (f r)) rows) = Inr (map f rows)"
  by (induction rows) simp_all

lemma page_cut:
  "(if n < length xs then butlast (map f (take (Suc n) xs)) else map f (take (Suc n) xs)) =
   map f (take n xs)"
  "n < length (map f (take (Suc n) xs)) \<longleftrightarrow> n < length xs"
  by (auto simp: map_butlast [symmetric] butlast_take)

text \<open>What the lists show of a row.\<close>

definition workflow_view :: "workflow_row \<Rightarrow> 'j workflow_summary" where
  "workflow_view r = projr (workflow_summary_of (workflow_selection r))"

definition activity_view :: "activity_row \<Rightarrow> 'j activity_summary" where
  "activity_view r = projr (activity_summary_of (activity_selection r))"

lemma length_summary:
  "required_json_summary (octet_length t) = Inr \<lparr>jf_present = True, jf_bytes = int (length t), jf_value = None\<rparr>"
  "optional_json_summary (map_option octet_length u) =
     Inr \<lparr>jf_present = u \<noteq> None, jf_bytes = (case u of None \<Rightarrow> 0 | Some t \<Rightarrow> int (length t)), jf_value = None\<rparr>"
  by (cases u; simp add: required_json_summary_def optional_json_summary_def octet_length_def)+

lemma views:
  "workflow_summary_of (workflow_selection r) = Inr (workflow_view r)"
  "activity_summary_of (activity_selection a) = Inr (activity_view a)"
  by (simp_all add: workflow_view_def workflow_summary_of_def workflow_selection_def
      activity_view_def activity_summary_of_def activity_selection_def length_summary)

lemma page_of_projections:
  assumes "\<And>r. position' (select r) = position r" and "\<And>r. summary (select r) = Inr (view r)"
  shows "(case next_page_cursor K scope position' b (map select rows) of
       Inl e \<Rightarrow> Inl e
     | Inr next \<Rightarrow>
         (case collect_results (map summary (map select rows)) of
            Inl e \<Rightarrow> Inl e
          | Inr items \<Rightarrow> Inr \<lparr>pg_items = items, pg_next_cursor = next\<rparr>)) =
    (case next_page_cursor K scope position b rows of
       Inl e \<Rightarrow> Inl e
     | Inr next \<Rightarrow> Inr \<lparr>pg_items = map view rows, pg_next_cursor = next\<rparr>)"
proof -
  have "next_page_cursor K scope position' b (map select rows) = next_page_cursor K scope position b rows"
    by (simp add: next_page_cursor_def last_map assms(1))
  moreover have "collect_results (map summary (map select rows)) = Inr (map view rows)"
    by (simp add: collect_results_values comp_def assms(2))
  ultimately show ?thesis by (simp del: map_map split: sum.split)
qed

lemma pages_serve:
  "page_workflows K (map workflow_selection (take (Suc (nat limit)) ws)) limit =
   serve_page K ''workflows'' workflow_position (nat limit) workflow_view ws"
  "page_activities K (map activity_selection (take (Suc (nat limit)) as)) limit =
   serve_page K ''activities'' activity_position (nat limit) activity_view as"
  unfolding page_workflows_def page_activities_def serve_page_def Let_def page_cut
  by (rule page_of_projections, simp add: workflow_selection_def activity_selection_def, rule views)+

section \<open>Complete lists\<close>

lemma workflow_list_served:
  assumes "bounded_limit (wlf_page filters) MAX_ADMIN_PAGE_SIZE = Inr limit" and "validate_workflow_filter filters = Inr ()"
  shows "workflow_list.served K ''workflows'' (nat limit) workflow_view (filter (workflow_selected filters) (workflows s))
    (\<lambda>c. list_workflows K (filters\<lparr>wlf_page := (wlf_page filters)\<lparr>pr_cursor := c\<rparr>\<rparr>) s)"
proof -
  have "bounded_limit ((wlf_page filters)\<lparr>pr_cursor := c\<rparr>) MAX_ADMIN_PAGE_SIZE = Inr limit"
    "validate_workflow_filter (filters\<lparr>wlf_page := page\<rparr>) = Inr ()"
    "workflow_selected (filters\<lparr>wlf_page := page\<rparr>) = workflow_selected filters" for c page
    using assms by (auto simp: bounded_limit_def validate_workflow_filter_def workflow_selected_def split: if_splits)
  then show ?thesis
    unfolding workflow_list.served_def list_workflows_def
    by (auto simp: pages_serve decode_optional_def when_set_def conj_commute simp flip: filter_filter)
qed

lemma activity_list_served:
  assumes "bounded_limit (alf_page filters) MAX_ADMIN_PAGE_SIZE = Inr limit" and "validate_activity_filter filters = Inr ()"
  shows "activity_list.served K ''activities'' (nat limit) activity_view (filter (activity_selected filters) (activities s))
    (\<lambda>c. list_activities K (filters\<lparr>alf_page := (alf_page filters)\<lparr>pr_cursor := c\<rparr>\<rparr>) s)"
proof -
  have "bounded_limit ((alf_page filters)\<lparr>pr_cursor := c\<rparr>) MAX_ADMIN_PAGE_SIZE = Inr limit"
    "validate_activity_filter (filters\<lparr>alf_page := page\<rparr>) = Inr ()"
    "activity_selected (filters\<lparr>alf_page := page\<rparr>) = activity_selected filters" for c page
    using assms by (auto simp: bounded_limit_def validate_activity_filter_def activity_selected_def split: if_splits)
  then show ?thesis
    unfolding activity_list.served_def list_activities_def
    by (auto simp: pages_serve decode_optional_def when_set_def conj_commute simp flip: filter_filter)
qed

lemma bounded_limit_positive: "bounded_limit page maximum = Inr limit \<Longrightarrow> 0 \<le> limit \<Longrightarrow> 0 < nat limit"
  by (auto simp: bounded_limit_def Let_def split: if_splits)

text \<open>
  C35: an operator who follows the cursors of a list reads every selected row exactly once,
  newest first, in at most one page per row and one: no row is skipped or repeated, whatever
  the page size. This holds of the list of workflows and of the list of activities, on a
  state that does not change meanwhile.
\<close>

theorem lists_are_complete:
  assumes K: "codec_ok K"
    and workflows: "distinct (map wf_id (workflows s))"
      "\<forall>r \<in> set (workflows s). wire_id (wf_id r) \<and> cursor_fits K ''workflows'' (workflow_position r)"
      "bounded_limit (wlf_page wfilter) MAX_ADMIN_PAGE_SIZE = Inr wf_limit" "0 \<le> wf_limit"
      "validate_workflow_filter wfilter = Inr ()"
    and activities: "distinct (map act_id (activities s))"
      "\<forall>r \<in> set (activities s). wire_id (act_id r) \<and> cursor_fits K ''activities'' (activity_position r)"
      "bounded_limit (alf_page afilter) MAX_ADMIN_PAGE_SIZE = Inr af_limit" "0 \<le> af_limit"
      "validate_activity_filter afilter = Inr ()"
  shows "follow (Suc (length (filter (workflow_selected wfilter) (workflows s))))
      (\<lambda>c. list_workflows K (wfilter\<lparr>wlf_page := (wlf_page wfilter)\<lparr>pr_cursor := c\<rparr>\<rparr>) s) None =
      Some (Inr (map workflow_view (sort_key (\<lambda>r. (- wf_created_at r, - wf_id r))
        (filter (workflow_selected wfilter) (workflows s))))) \<and>
    follow (Suc (length (filter (activity_selected afilter) (activities s))))
      (\<lambda>c. list_activities K (afilter\<lparr>alf_page := (alf_page afilter)\<lparr>pr_cursor := c\<rparr>\<rparr>) s) None =
      Some (Inr (map activity_view (sort_key (\<lambda>r. (- act_created_at r, - act_id r))
        (filter (activity_selected afilter) (activities s)))))"
proof (intro conjI)
  have "inj_on wf_id (set (workflows s))" "distinct (workflows s)" using workflows(1) by (simp_all add: distinct_map)
  then have "distinct (map (\<lambda>r. (- wf_created_at r, - wf_id r)) (filter (workflow_selected wfilter) (workflows s)))"
    by (auto simp: distinct_map inj_on_def)
  then show "follow (Suc (length (filter (workflow_selected wfilter) (workflows s))))
      (\<lambda>c. list_workflows K (wfilter\<lparr>wlf_page := (wlf_page wfilter)\<lparr>pr_cursor := c\<rparr>\<rparr>) s) None =
      Some (Inr (map workflow_view (sort_key (\<lambda>r. (- wf_created_at r, - wf_id r))
        (filter (workflow_selected wfilter) (workflows s)))))"
    using workflows by (intro workflow_list.follow_all
        [OF K _ bounded_limit_positive [OF workflows(3,4)] _ _ _ workflow_list_served [OF workflows(3,5)]])
      (auto simp: validate_scope_def is_ascii_def)
next
  have "inj_on act_id (set (activities s))" "distinct (activities s)" using activities(1) by (simp_all add: distinct_map)
  then have "distinct (map (\<lambda>r. (- act_created_at r, - act_id r)) (filter (activity_selected afilter) (activities s)))"
    by (auto simp: distinct_map inj_on_def)
  then show "follow (Suc (length (filter (activity_selected afilter) (activities s))))
      (\<lambda>c. list_activities K (afilter\<lparr>alf_page := (alf_page afilter)\<lparr>pr_cursor := c\<rparr>\<rparr>) s) None =
      Some (Inr (map activity_view (sort_key (\<lambda>r. (- act_created_at r, - act_id r))
        (filter (activity_selected afilter) (activities s)))))"
    using activities by (intro activity_list.follow_all
        [OF K _ bounded_limit_positive [OF activities(3,4)] _ _ _ activity_list_served [OF activities(3,5)]])
      (auto simp: validate_scope_def is_ascii_def)
qed

definition sample_workflow_filter :: workflow_list_filter where
  "sample_workflow_filter =
     \<lparr>wlf_page = \<lparr>pr_cursor = None, pr_limit = Some 1\<rparr>, wlf_kind = None, wlf_version = None, wlf_status = None,
      wlf_schedule_run_id = None, wlf_root_workflow_id = None, wlf_created_after = None, wlf_created_before = None,
      wlf_waiting_approval = None\<rparr>"

definition sample_activity_filter :: activity_list_filter where
  "sample_activity_filter =
     \<lparr>alf_page = \<lparr>pr_cursor = None, pr_limit = Some 1\<rparr>, alf_workflow_id = None, alf_kind = None, alf_version = None,
      alf_topic = Some ''t'', alf_status = None, alf_created_after = None, alf_created_before = None\<rparr>"

theorem lists_are_complete_witness:
  "map_option (map_sum id (map (wsm_id :: unit workflow_summary \<Rightarrow> i64))) (follow 3
     (\<lambda>c. list_workflows sample_codec
        (sample_workflow_filter\<lparr>wlf_page := (wlf_page sample_workflow_filter)\<lparr>pr_cursor := c\<rparr>\<rparr>) sample_db) None) =
     Some (Inr [2, 1])"
proof -
  have "distinct (map wf_id (workflows sample_db))" "distinct (map act_id (activities sample_db))"
    "bounded_limit (wlf_page sample_workflow_filter) MAX_ADMIN_PAGE_SIZE = Inr 1"
    "bounded_limit (alf_page sample_activity_filter) MAX_ADMIN_PAGE_SIZE = Inr 1"
    "validate_workflow_filter sample_workflow_filter = Inr ()" "validate_activity_filter sample_activity_filter = Inr ()"
    "\<forall>r \<in> set (workflows sample_db). wire_id (wf_id r) \<and> cursor_fits sample_codec ''workflows'' (workflow_position r)"
    "\<forall>r \<in> set (activities sample_db). wire_id (act_id r) \<and> cursor_fits sample_codec ''activities'' (activity_position r)"
    "filter (workflow_selected sample_workflow_filter) (workflows sample_db) = workflows sample_db"
    "length (workflows sample_db) = 2"
    by code_simp+
  with lists_are_complete [where 'a = unit and 'b = unit, OF sample_codec_ok, of sample_db sample_workflow_filter 1 sample_activity_filter 1]
  have "follow 3 (\<lambda>c. list_workflows sample_codec
        (sample_workflow_filter\<lparr>wlf_page := (wlf_page sample_workflow_filter)\<lparr>pr_cursor := c\<rparr>\<rparr>) sample_db) None =
      Some (Inr (map (workflow_view :: _ \<Rightarrow> unit workflow_summary)
        (sort_key (\<lambda>r. (- wf_created_at r, - wf_id r)) (workflows sample_db))))"
    by (simp add: numeral_3_eq_3 del: follow.simps)
  moreover have "map wsm_id (map workflow_view (sort_key (\<lambda>r. (- wf_created_at r, - wf_id r)) (workflows sample_db)) ::
      unit workflow_summary list) = [2, 1]" by code_simp
  ultimately show ?thesis by (simp del: follow.simps)
qed

end
