(* ===== verification/Admin_Timeline.thy ===== *)
theory Admin_Timeline
  imports Admin_Query
begin

text \<open>
  The timeline of one workflow (\<open>workflow_timeline\<close> of \<open>src/admin/query.rs\<close>): its events,
  its activities with their attempts and progress, and its approvals, merged in the order of
  time. Each of the five queries reads one page and one row after the cursor, and the page is
  the first of what they found together. Ties are broken by a text, the rank of the table and
  the ids padded to a fixed width, so that the order of the texts is the order of the numbers.
\<close>

datatype 'j timeline_entry =
  TE_WorkflowEvent string "string option" "string option" "string option" i64
| TE_Activity "'j activity_summary"
| TE_ActivityAttempt "'j activity_attempt_summary"
| TE_Progress progress_summary
| TE_Approval "'j approval_summary"

record 'j timeline_envelope =
  te_occurred_at :: i64
  te_tie_breaker :: string
  te_entry :: "'j timeline_entry"

section \<open>The position of a cursor in the five queries\<close>

definition apply_numeric_timeline_cursor :: "int \<Rightarrow> timeline_cursor option \<Rightarrow> db_millis \<Rightarrow> i64 \<Rightarrow> bool" where
  "apply_numeric_timeline_cursor source_rank cursor time row_id =
     when_set cursor (\<lambda>c.
       if source_rank < tc_rank c then time > tc_timestamp c
       else if source_rank > tc_rank c then time \<ge> tc_timestamp c
       else time > tc_timestamp c \<or> time = tc_timestamp c \<and> row_id > tc_id c)"

definition apply_attempt_timeline_cursor :: "timeline_cursor option \<Rightarrow> activity_attempt_row \<Rightarrow> bool" where
  "apply_attempt_timeline_cursor cursor r =
     when_set cursor (\<lambda>c.
       if 2 < tc_rank c then att_started_at r > tc_timestamp c
       else if 2 > tc_rank c then att_started_at r \<ge> tc_timestamp c
       else att_started_at r > tc_timestamp c \<or>
         att_started_at r = tc_timestamp c \<and>
           (att_activity_id r > tc_id c \<or>
            att_activity_id r = tc_id c \<and> att_attempt_number r > tc_attempt_number c))"

definition apply_progress_timeline_cursor :: "timeline_cursor option \<Rightarrow> progress_event_row \<Rightarrow> bool" where
  "apply_progress_timeline_cursor cursor r =
     when_set cursor (\<lambda>c.
       if 3 < tc_rank c then prg_created_at r > tc_timestamp c
       else if 3 > tc_rank c then prg_created_at r \<ge> tc_timestamp c
       else prg_created_at r > tc_timestamp c \<or>
         prg_created_at r = tc_timestamp c \<and>
           (prg_activity_id r > tc_id c \<or>
            prg_activity_id r = tc_id c \<and>
              (prg_attempt_number r > tc_attempt_number c \<or>
               prg_attempt_number r = tc_attempt_number c \<and> prg_sequence r > tc_sequence c)))"

section \<open>The five queries\<close>

definition event_envelope :: "workflow_event_row \<Rightarrow> 'j timeline_envelope" where
  "event_envelope r =
     \<lparr>te_occurred_at = ev_created_at r, te_tie_breaker = timeline_key 0 [ev_id r],
      te_entry = TE_WorkflowEvent (ev_event_type r) (ev_actor_type r) (ev_actor_id r) (ev_reason r) (ev_created_at r)\<rparr>"

definition event_entries ::
    "timeline_cursor option \<Rightarrow> nat \<Rightarrow> i64 \<Rightarrow> db \<Rightarrow> 'j timeline_envelope list" where
  "event_entries cursor per_source_limit workflow_id s =
     map event_envelope
       (take per_source_limit (sort_key (\<lambda>r. (ev_created_at r, ev_id r))
         (filter (\<lambda>r. ev_workflow_id r = workflow_id \<and>
            apply_numeric_timeline_cursor 0 cursor (ev_created_at r) (ev_id r)) (events s))))"

definition activity_envelope :: "activity_row \<Rightarrow> durable_error + 'j timeline_envelope" where
  "activity_envelope r =
     (case activity_summary_of (activity_selection r) of
        Inl e \<Rightarrow> Inl e
      | Inr entry \<Rightarrow>
          Inr \<lparr>te_occurred_at = act_created_at r, te_tie_breaker = timeline_key 1 [act_id r],
               te_entry = TE_Activity entry\<rparr>)"

definition activity_entries ::
    "timeline_cursor option \<Rightarrow> nat \<Rightarrow> i64 \<Rightarrow> db \<Rightarrow> durable_error + 'j timeline_envelope list" where
  "activity_entries cursor per_source_limit workflow_id s =
     collect_results (map activity_envelope
       (take per_source_limit (sort_key (\<lambda>r. (act_created_at r, act_id r))
         (filter (\<lambda>r. act_workflow_id r = workflow_id \<and>
            apply_numeric_timeline_cursor 1 cursor (act_created_at r) (act_id r)) (activities s)))))"

text \<open>The join of attempts and of progress with the activities, on their primary key.\<close>

definition of_workflow :: "db \<Rightarrow> i64 \<Rightarrow> i64 \<Rightarrow> bool" where
  "of_workflow s workflow_id activity_id \<longleftrightarrow>
     (\<exists>a \<in> set (activities s). act_id a = activity_id \<and> act_workflow_id a = workflow_id)"

definition attempt_envelope :: "activity_attempt_row \<Rightarrow> durable_error + 'j timeline_envelope" where
  "attempt_envelope r =
     (case attempt_summary_of (attempt_selection r) of
        Inl e \<Rightarrow> Inl e
      | Inr entry \<Rightarrow>
          Inr \<lparr>te_occurred_at = att_started_at r,
               te_tie_breaker = timeline_key 2 [att_activity_id r, att_attempt_number r],
               te_entry = TE_ActivityAttempt entry\<rparr>)"

definition attempt_entries ::
    "timeline_cursor option \<Rightarrow> nat \<Rightarrow> i64 \<Rightarrow> db \<Rightarrow> durable_error + 'j timeline_envelope list" where
  "attempt_entries cursor per_source_limit workflow_id s =
     collect_results (map attempt_envelope
       (take per_source_limit (sort_key (\<lambda>r. (att_started_at r, att_activity_id r, att_attempt_number r))
         (filter (\<lambda>r. of_workflow s workflow_id (att_activity_id r) \<and> apply_attempt_timeline_cursor cursor r)
           (attempts s)))))"

definition progress_envelope :: "progress_event_row \<Rightarrow> 'j timeline_envelope" where
  "progress_envelope r =
     \<lparr>te_occurred_at = prg_created_at r,
      te_tie_breaker = timeline_key 3 [prg_activity_id r, prg_attempt_number r, prg_sequence r],
      te_entry = TE_Progress (progress_summary_of r)\<rparr>"

definition progress_entries ::
    "timeline_cursor option \<Rightarrow> nat \<Rightarrow> i64 \<Rightarrow> db \<Rightarrow> 'j timeline_envelope list" where
  "progress_entries cursor per_source_limit workflow_id s =
     map progress_envelope
       (take per_source_limit
         (sort_key (\<lambda>r. (prg_created_at r, prg_activity_id r, prg_attempt_number r, prg_sequence r))
           (filter (\<lambda>r. of_workflow s workflow_id (prg_activity_id r) \<and> apply_progress_timeline_cursor cursor r)
             (progress_events s))))"

definition approval_envelope :: "approval_row \<Rightarrow> durable_error + 'j timeline_envelope" where
  "approval_envelope r =
     (case approval_summary_of (approval_selection r) of
        Inl e \<Rightarrow> Inl e
      | Inr entry \<Rightarrow>
          Inr \<lparr>te_occurred_at = apr_requested_at r, te_tie_breaker = timeline_key 4 [apr_id r],
               te_entry = TE_Approval entry\<rparr>)"

definition approval_entries ::
    "timeline_cursor option \<Rightarrow> nat \<Rightarrow> i64 \<Rightarrow> db \<Rightarrow> durable_error + 'j timeline_envelope list" where
  "approval_entries cursor per_source_limit workflow_id s =
     collect_results (map approval_envelope
       (take per_source_limit (sort_key (\<lambda>r. (apr_requested_at r, apr_id r))
         (filter (\<lambda>r. apr_workflow_id r = workflow_id \<and>
            apply_numeric_timeline_cursor 4 cursor (apr_requested_at r) (apr_id r)) (approvals s)))))"

section \<open>The page\<close>

definition timeline_scope :: "i64 \<Rightarrow> string" where
  "timeline_scope workflow_id = ''workflow_timeline:'' @ dec_int workflow_id"

definition timeline_position :: "'j timeline_envelope \<Rightarrow> cursor_position" where
  "timeline_position entry = \<lparr>cp_timestamp = te_occurred_at entry, cp_tie_breaker = te_tie_breaker entry\<rparr>"

definition envelope_key :: "'j timeline_envelope \<Rightarrow> i64 \<times> string" where
  "envelope_key entry = (te_occurred_at entry, te_tie_breaker entry)"

definition gather_timeline ::
    "timeline_cursor option \<Rightarrow> nat \<Rightarrow> i64 \<Rightarrow> db \<Rightarrow> durable_error + 'j timeline_envelope list" where
  "gather_timeline cursor per_source_limit workflow_id s =
     (case activity_entries cursor per_source_limit workflow_id s of
        Inl e \<Rightarrow> Inl e
      | Inr activity_part \<Rightarrow>
     (case attempt_entries cursor per_source_limit workflow_id s of
        Inl e \<Rightarrow> Inl e
      | Inr attempt_part \<Rightarrow>
     (case approval_entries cursor per_source_limit workflow_id s of
        Inl e \<Rightarrow> Inl e
      | Inr approval_part \<Rightarrow>
          Inr (event_entries cursor per_source_limit workflow_id s @ activity_part @ attempt_part @
               progress_entries cursor per_source_limit workflow_id s @ approval_part))))"

definition workflow_timeline ::
    "cursor_codec \<Rightarrow> i64 \<Rightarrow> page_request \<Rightarrow> db \<Rightarrow> durable_error + 'j timeline_entry admin_page" where
  "workflow_timeline K workflow_id page s =
     (case bounded_limit page MAX_TIMELINE_PAGE_SIZE of
        Inl e \<Rightarrow> Inl e
      | Inr limit \<Rightarrow>
     (case decode_optional (decode_timeline_cursor K (timeline_scope workflow_id)) (pr_cursor page) of
        Inl e \<Rightarrow> Inl e
      | Inr cursor \<Rightarrow>
     (case workflow_by_id s workflow_id of
        None \<Rightarrow> Inl (not_found ''workflow'' (dec_int workflow_id))
      | Some _ \<Rightarrow>
     (case gather_timeline cursor (nat limit + 1) workflow_id s of
        Inl e \<Rightarrow> Inl e
      | Inr gathered \<Rightarrow>
          let timeline = sort_key envelope_key gathered;
              has_more = length timeline > nat limit;
              shown = take (nat limit) timeline
          in case next_page_cursor K (timeline_scope workflow_id) timeline_position has_more shown of
               Inl e \<Rightarrow> Inl e
             | Inr next_cursor \<Rightarrow> Inr \<lparr>pg_items = map te_entry shown, pg_next_cursor = next_cursor\<rparr>))))"

section \<open>The order of the tie breakers\<close>

fun digits_number :: "string \<Rightarrow> int" where
  "digits_number [] = 0"
| "digits_number (c # cs) = (int (of_char c) - 48) * 10 ^ length cs + digits_number cs"

abbreviation decimal :: "string \<Rightarrow> bool" where
  "decimal t \<equiv> \<forall>c \<in> set t. 48 \<le> (of_char c :: nat) \<and> (of_char c :: nat) \<le> 57"

lemma digits_number_append: "digits_number (xs @ ys) = digits_number xs * 10 ^ length ys + digits_number ys"
  by (induction xs) (simp_all add: algebra_simps power_add)

lemma digits_number_bounds: "decimal t \<Longrightarrow> 0 \<le> digits_number t \<and> digits_number t < 10 ^ length t"
proof (induction t)
  case (Cons c t)
  have d: "0 \<le> int (of_char c) - 48" "int (of_char c) - 48 \<le> 9" using Cons.prems by (simp_all flip: of_nat_le_iff)
  then have "(int (of_char c) - 48) * 10 ^ length t \<le> 9 * 10 ^ length t"
    "0 \<le> (int (of_char c) - 48) * (10 ^ length t :: int)"
    by (intro mult_right_mono mult_nonneg_nonneg; simp)+
  moreover have "0 \<le> digits_number t" "digits_number t < 10 ^ length t" using Cons by auto
  moreover have "(10 :: int) ^ length (c # t) = 10 * 10 ^ length t" by simp
  ultimately show ?case unfolding digits_number.simps by linarith
qed simp

lemma decimal_less:
  assumes "decimal xs" and "decimal ys" and "length xs = length ys"
  shows "xs < ys \<longleftrightarrow> digits_number xs < digits_number ys"
  using assms(3,1,2)
proof (induction xs ys rule: list_induct2)
  case (Cons c cs d ds)
  have b: "0 \<le> digits_number cs" "digits_number cs < 10 ^ length ds" "0 \<le> digits_number ds" "digits_number ds < 10 ^ length ds"
    using Cons digits_number_bounds [of cs] digits_number_bounds [of ds] by auto
  have step: "x * 10 ^ length ds + digits_number u < y * 10 ^ length ds + digits_number v"
    if "x + 1 \<le> y" "digits_number u < 10 ^ length ds" "0 \<le> digits_number v" for x y :: int and u v
  proof -
    have "(x + 1) * 10 ^ length ds \<le> y * 10 ^ length ds" using that(1) by (intro mult_right_mono) auto
    with that(2,3) show ?thesis by (simp add: algebra_simps)
  qed
  consider "(of_char c :: nat) < of_char d" | "c = d" | "(of_char d :: nat) < of_char c"
    by (metis linorder_neqE_nat of_char_eq_iff)
  then show ?case
  proof cases
    case 1
    with step [of "int (of_char c) - 48" "int (of_char d) - 48" cs ds] b Cons.hyps show ?thesis
      by (simp add: less_char_def)
  next
    case 2
    with Cons show ?thesis by simp
  next
    case 3
    with step [of "int (of_char d) - 48" "int (of_char c) - 48" ds cs] b Cons.hyps show ?thesis
      by (auto simp: less_char_def)
  qed
qed simp

lemma decimal_dec_nat: "decimal (dec_nat n)"
  using dec_nat_digits by force

lemma digits_number_dec_nat: "digits_number (dec_nat n) = int n"
proof (induction n rule: dec_nat.induct)
  case (1 n)
  show ?case
  proof (cases "n < 10")
    case False
    with 1 have "digits_number (dec_nat n) = int (n div 10) * 10 + int (n mod 10)"
      by (simp add: dec_nat.simps [of n] digits_number_append)
    then show ?thesis by (simp add: zdiv_int zmod_int)
  qed (simp add: dec_nat.simps [of n])
qed

lemma padded_positive:
  assumes "0 < i" and "in_signed 64 i"
  shows "length (padded i) = 20" and "decimal (padded i)" and "digits_number (padded i) = i"
proof -
  have "nat i < 10 ^ 20" using assms by (simp add: in_signed_def)
  from dec_nat_length [OF this] have len: "length (dec_nat (nat i)) \<le> 20" by simp
  have p: "padded i = zero_pad 20 (dec_nat (nat i))" using assms(1) by (simp add: padded_def)
  have zeros: "digits_number (replicate k (CHR ''0'')) = 0" for k by (induction k) simp_all
  show "length (padded i) = 20" using len by (simp add: p zero_pad_def)
  show "decimal (padded i)" using decimal_dec_nat [of "nat i"] by (auto simp: p zero_pad_def)
  show "digits_number (padded i) = i" using assms(1)
    by (simp add: p zero_pad_def digits_number_append zeros digits_number_dec_nat)
qed

lemma append_less:
  fixes xs ys :: "'a::linorder list"
  assumes "length xs = length ys"
  shows "xs @ us < ys @ vs \<longleftrightarrow> xs < ys \<or> xs = ys \<and> us < vs"
  using assms by (induction xs ys rule: list_induct2) auto

lemma join_padded_less:
  assumes "length ns = length ms" and "list_all wire_id ns" and "list_all wire_id ms"
  shows "join_colon (map padded ns) < join_colon (map padded ms) \<longleftrightarrow> ns < ms"
  using assms
proof (induction ns ms rule: list_induct2)
  case (Cons n ns m ms)
  have "wire_id n" "wire_id m" using Cons.prems by simp_all
  note n = padded_positive [OF conjunct1 [OF this(1)] conjunct2 [OF this(1)]]
    and m = padded_positive [OF conjunct1 [OF this(2)] conjunct2 [OF this(2)]]
  have len: "length (padded n) = length (padded m)" by (simp add: n(1) m(1))
  have less: "padded n < padded m \<longleftrightarrow> n < m" by (simp only: decimal_less [OF n(2) m(2) len] n(3) m(3))
  have eq: "padded n = padded m \<longleftrightarrow> n = m" using n(3) m(3) by metis
  show ?case
  proof (cases ns)
    case Nil
    with Cons.hyps less show ?thesis by simp
  next
    case (Cons n' ns')
    moreover from this \<open>length ns = length ms\<close> obtain m' ms' where "ms = m' # ms'" by (cases ms) auto
    ultimately show ?thesis using Cons.IH Cons.prems less eq append_less [OF len] by auto
  qed
qed simp

text \<open>The components a tie breaker of each rank carries.\<close>

definition tie_ok :: "int \<Rightarrow> i64 list \<Rightarrow> bool" where
  "tie_ok rank ns \<longleftrightarrow> expected_components rank = Some (length ns) \<and> list_all wire_id ns \<and> list_all (in_signed 32) (tl ns)"

definition cursor_components :: "timeline_cursor \<Rightarrow> i64 list" where
  "cursor_components c =
     (if tc_rank c = 2 then [tc_id c, tc_attempt_number c]
      else if tc_rank c = 3 then [tc_id c, tc_attempt_number c, tc_sequence c]
      else [tc_id c])"

lemma tie_ok_rank: "tie_ok rank ns \<Longrightarrow> rank \<in> {0, 1, 2, 3, 4}"
  by (auto simp: tie_ok_def expected_components_def split: if_splits)

lemma rank_text: "rank \<in> {0, 1, 2, 3, 4} \<Longrightarrow> dec_int rank = [char_of (48 + nat rank)]"
  by (auto simp: dec_int_def dec_nat.simps)

lemma timeline_key_less:
  assumes "tie_ok r ns" and "tie_ok q ms"
  shows "timeline_key r ns < timeline_key q ms \<longleftrightarrow> r < q \<or> r = q \<and> ns < ms"
proof -
  have ranks: "r \<in> {0, 1, 2, 3, 4}" "q \<in> {0, 1, 2, 3, 4}" using assms tie_ok_rank by blast+
  then have less: "(char_of (48 + nat r) :: char) < char_of (48 + nat q) \<longleftrightarrow> r < q"
    and eq: "(char_of (48 + nat r) :: char) = char_of (48 + nat q) \<longleftrightarrow> r = q"
    by (auto simp: less_char_def char_of_eq_iff)
  show ?thesis
  proof (cases "r = q")
    case True
    with assms have "length ns = length ms" by (simp add: tie_ok_def)
    with assms True join_padded_less [of ns ms] show ?thesis
      by (simp add: timeline_key_def rank_text [OF ranks(2)] tie_ok_def)
  next
    case False
    with less eq show ?thesis by (simp add: timeline_key_def rank_text [OF ranks(1)] rank_text [OF ranks(2)])
  qed
qed

lemma join_length: "\<forall>p \<in> set ps. length p = 20 \<Longrightarrow> length (join_colon ps) \<le> 21 * length ps"
  by (induction ps rule: join_colon.induct) simp_all

lemma tie_shapes:
  "expected_components rank = Some (length ns) \<Longrightarrow>
   (rank \<in> {0, 1, 4} \<and> (\<exists>x. ns = [x])) \<or> (rank = 2 \<and> (\<exists>x y. ns = [x, y])) \<or> (rank = 3 \<and> (\<exists>x y z. ns = [x, y, z]))"
  by (auto simp: expected_components_def length_Suc_conv Suc_length_conv numeral_eq_Suc split: if_splits)

lemma timeline_key_length: "tie_ok rank ns \<Longrightarrow> validate_tie_breaker (timeline_key rank ns) = Inr ()"
proof -
  assume ok: "tie_ok rank ns"
  have "length (padded n) = 20" if "n \<in> set ns" for n
    using ok that padded_positive(1) by (auto simp: tie_ok_def list_all_iff)
  then have "length (join_colon (map padded ns)) \<le> 21 * length ns" using join_length [of "map padded ns"] by simp
  moreover have "length ns \<le> 3" using ok by (auto simp: tie_ok_def expected_components_def split: if_splits)
  ultimately show ?thesis
    by (simp add: validate_tie_breaker_def timeline_key_def rank_text [OF tie_ok_rank [OF ok]])
qed

lemma decode_timeline_written:
  assumes "decode_cursor K scope t = Inr \<lparr>cp_timestamp = a, cp_tie_breaker = timeline_key rank ns\<rparr>" and ok: "tie_ok rank ns"
  shows "\<exists>c. decode_timeline_cursor K scope t = Inr c \<and> tc_timestamp c = a \<and> tc_rank c = rank \<and> cursor_components c = ns"
proof -
  have len: "expected_components rank = Some (length ns)" and ids: "list_all wire_id ns" and small: "list_all (in_signed 32) (tl ns)"
    using ok by (simp_all add: tie_ok_def)
  from len have ns: "ns \<noteq> []" by (auto simp: expected_components_def split: if_splits)
  have "split_colon (timeline_key rank ns) = dec_int rank # map padded ns"
    using split_join [of "map padded ns"] ns
    by (simp add: timeline_key_def split_colon_append(1) [of _ "join_colon _", simplified] dec_int_no_colon
        padded_no_colon list_all_iff)
  moreover have "parse_u8 (dec_int rank) = Some rank"
    using tie_ok_rank [OF ok] by (intro parse_u8_dec_int) (auto simp: in_unsigned_def)
  moreover have "parse_components (map padded ns) = Inr ns" using ids by (rule parse_components_padded)
  moreover have "\<not> (\<exists>n \<in> set ns. n \<le> 0)" using ids by (auto simp: list_all_iff)
  moreover have comp: "i32_component m ns i = Inr (if i < length ns then ns ! i else 0)" if "0 < i" for m i
  proof -
    have "in_signed 32 (ns ! i)" if "i < length ns"
      using small that \<open>0 < i\<close> by (cases ns; cases i) (auto simp: list_all_iff)
    then show ?thesis by (simp add: i32_component_def i32_try_from_def)
  qed
  ultimately have "decode_timeline_cursor K scope t = Inr \<lparr>tc_timestamp = a, tc_rank = rank, tc_id = ns ! 0,
      tc_attempt_number = (if 1 < length ns then ns ! 1 else 0), tc_sequence = (if 2 < length ns then ns ! 2 else 0)\<rparr>"
    using assms(1) len by (simp add: decode_timeline_cursor_def)
  moreover have "cursor_components \<lparr>tc_timestamp = a, tc_rank = rank, tc_id = ns ! 0,
      tc_attempt_number = (if 1 < length ns then ns ! 1 else 0), tc_sequence = (if 2 < length ns then ns ! 2 else 0)\<rparr> = ns"
    using tie_shapes [OF len] by (auto simp: cursor_components_def)
  ultimately show ?thesis by auto
qed

text \<open>The timeline as a keyset over the merged entries.\<close>

definition envelope_ok :: "'j timeline_envelope \<Rightarrow> bool" where
  "envelope_ok entry \<longleftrightarrow> (\<exists>rank ns. tie_ok rank ns \<and> te_tie_breaker entry = timeline_key rank ns)"

definition cursor_key :: "timeline_cursor \<Rightarrow> i64 \<times> string" where
  "cursor_key c = (tc_timestamp c, timeline_key (tc_rank c) (cursor_components c))"

interpretation timeline_list: keyset envelope_key timeline_position decode_timeline_cursor
    "\<lambda>c entry. cursor_key c < envelope_key entry" envelope_ok
proof unfold_locales
  fix K scope t and r :: "'j timeline_envelope"
  assume "envelope_ok r" and t: "decode_cursor K scope t = Inr (timeline_position r)"
  then obtain rank ns where r: "tie_ok rank ns" "te_tie_breaker r = timeline_key rank ns" by (auto simp: envelope_ok_def)
  with t decode_timeline_written [of K scope t "te_occurred_at r" rank ns] obtain c
    where c: "decode_timeline_cursor K scope t = Inr c" "tc_timestamp c = te_occurred_at r" "tc_rank c = rank"
      "cursor_components c = ns"
    by (auto simp: timeline_position_def)
  then have "cursor_key c = envelope_key r" using r by (simp add: cursor_key_def envelope_key_def)
  with c(1) show "\<exists>c. decode_timeline_cursor K scope t = Inr c \<and>
      (\<forall>q. envelope_ok q \<longrightarrow> (cursor_key c < envelope_key q) = (envelope_key r < envelope_key q))" by auto
qed (auto simp: envelope_ok_def timeline_position_def timeline_key_length)

section \<open>Every cursor that is accepted is a position\<close>

lemma parse_i64_range: "parse_i64 t = Some n \<Longrightarrow> in_signed 64 n"
  by (auto simp: parse_i64_def Let_def split: prod.splits if_splits option.splits)

lemma parse_components_range: "parse_components ps = Inr ns \<Longrightarrow> list_all (in_signed 64) ns"
  by (induction ps arbitrary: ns) (auto simp: parse_i64_range split: option.splits sum.splits)

lemma i32_component_Inr:
  "i32_component m ns i = Inr n \<longleftrightarrow> (if i < length ns then n = ns ! i \<and> in_signed 32 n else n = 0)"
  by (auto simp: i32_component_def i32_try_from_def)

lemma decode_timeline_position:
  assumes "decode_timeline_cursor K scope t = Inr c"
  shows "tie_ok (tc_rank c) (cursor_components c)"
proof -
  from assms obtain rank ns where len: "expected_components rank = Some (length ns)"
    and ids: "list_all (in_signed 64) ns" "\<not> (\<exists>n \<in> set ns. n \<le> 0)"
    and small: "if 1 < length ns then tc_attempt_number c = ns ! 1 \<and> in_signed 32 (ns ! 1) else tc_attempt_number c = 0"
      "if 2 < length ns then tc_sequence c = ns ! 2 \<and> in_signed 32 (ns ! 2) else tc_sequence c = 0"
    and c: "tc_rank c = rank" "tc_id c = ns ! 0"
    by (auto simp: decode_timeline_cursor_def i32_component_Inr split: sum.splits list.splits option.splits if_splits
        dest!: parse_components_range)
  show ?thesis
    using tie_shapes [OF len] ids small c
    by (auto simp: tie_ok_def cursor_components_def expected_components_def)
qed

section \<open>What the five queries find\<close>

text \<open>Every entry of the timeline of a workflow, table by table.\<close>

definition timeline_parts :: "db \<Rightarrow> i64 \<Rightarrow> 'j timeline_envelope list list" where
  "timeline_parts s i =
     [map event_envelope (filter (\<lambda>r. ev_workflow_id r = i) (events s)),
      map (projr \<circ> activity_envelope) (filter (\<lambda>r. act_workflow_id r = i) (activities s)),
      map (projr \<circ> attempt_envelope) (filter (\<lambda>r. of_workflow s i (att_activity_id r)) (attempts s)),
      map progress_envelope (filter (\<lambda>r. of_workflow s i (prg_activity_id r)) (progress_events s)),
      map (projr \<circ> approval_envelope) (filter (\<lambda>r. apr_workflow_id r = i) (approvals s))]"

text \<open>The ids of the rows are positive and unique, as identity columns and primary keys are.\<close>

definition timeline_ids_ok :: "db \<Rightarrow> bool" where
  "timeline_ids_ok s \<longleftrightarrow>
     distinct (map ev_id (events s)) \<and> (\<forall>r \<in> set (events s). wire_id (ev_id r)) \<and>
     distinct (map act_id (activities s)) \<and> (\<forall>r \<in> set (activities s). wire_id (act_id r)) \<and>
     distinct (map (\<lambda>r. (att_activity_id r, att_attempt_number r)) (attempts s)) \<and>
     (\<forall>r \<in> set (attempts s). wire_id (att_activity_id r) \<and> 0 < att_attempt_number r \<and> in_signed 32 (att_attempt_number r)) \<and>
     distinct (map (\<lambda>r. (prg_activity_id r, prg_attempt_number r, prg_sequence r)) (progress_events s)) \<and>
     (\<forall>r \<in> set (progress_events s). wire_id (prg_activity_id r) \<and> 0 < prg_attempt_number r \<and>
        in_signed 32 (prg_attempt_number r) \<and> 0 < prg_sequence r \<and> in_signed 32 (prg_sequence r)) \<and>
     distinct (map apr_id (approvals s)) \<and> (\<forall>r \<in> set (approvals s). wire_id (apr_id r))"

lemma in_signed_32_64: "in_signed 32 n \<Longrightarrow> in_signed 64 n"
  by (simp add: in_signed_def)

lemma row_ties:
  assumes "timeline_ids_ok s"
  shows "r \<in> set (events s) \<Longrightarrow> tie_ok 0 [ev_id r]" and "a \<in> set (activities s) \<Longrightarrow> tie_ok 1 [act_id a]"
    and "t \<in> set (attempts s) \<Longrightarrow> tie_ok 2 [att_activity_id t, att_attempt_number t]"
    and "p \<in> set (progress_events s) \<Longrightarrow> tie_ok 3 [prg_activity_id p, prg_attempt_number p, prg_sequence p]"
    and "v \<in> set (approvals s) \<Longrightarrow> tie_ok 4 [apr_id v]"
  using assms by (auto simp: timeline_ids_ok_def tie_ok_def expected_components_def in_signed_32_64)

lemma timeline_key_le:
  "tie_ok r ns \<Longrightarrow> tie_ok r ms \<Longrightarrow> timeline_key r ns \<le> timeline_key r ms \<longleftrightarrow> ns \<le> ms"
  using timeline_key_less [of r ms r ns] by (simp add: not_less [symmetric])

lemma timeline_key_inj: "tie_ok r ns \<Longrightarrow> tie_ok q ms \<Longrightarrow> timeline_key r ns = timeline_key q ms \<longleftrightarrow> r = q \<and> ns = ms"
  using timeline_key_less [of r ns q ms] timeline_key_less [of q ms r ns] by (metis less_irrefl linorder_less_linear)

lemma envelope_values:
  "activity_envelope a = Inr (projr (activity_envelope a))" "attempt_envelope t = Inr (projr (attempt_envelope t))"
  "approval_envelope v = Inr (projr (approval_envelope v))"
  by (simp_all add: activity_envelope_def views attempt_envelope_def attempt_summary_of_def attempt_selection_def
      approval_envelope_def approval_summary_of_def approval_selection_def length_summary)

lemma envelope_keys:
  "envelope_key (event_envelope e) = (ev_created_at e, timeline_key 0 [ev_id e])"
  "envelope_key (projr (activity_envelope a)) = (act_created_at a, timeline_key 1 [act_id a])"
  "envelope_key (projr (attempt_envelope t)) = (att_started_at t, timeline_key 2 [att_activity_id t, att_attempt_number t])"
  "envelope_key (progress_envelope p) =
     (prg_created_at p, timeline_key 3 [prg_activity_id p, prg_attempt_number p, prg_sequence p])"
  "envelope_key (projr (approval_envelope v)) = (apr_requested_at v, timeline_key 4 [apr_id v])"
  by (simp_all add: envelope_key_def event_envelope_def activity_envelope_def views attempt_envelope_def
      attempt_summary_of_def attempt_selection_def progress_envelope_def approval_envelope_def approval_summary_of_def
      approval_selection_def length_summary)

text \<open>One query: cut after the merge order, not before it.\<close>

lemma source_page:
  assumes "\<And>r q. r \<in> set T \<Longrightarrow> q \<in> set T \<Longrightarrow> key r \<le> key q \<longleftrightarrow> envelope_key (env r) \<le> envelope_key (env q)"
    and "\<And>r. r \<in> set T \<Longrightarrow> after r \<longleftrightarrow> selected (env r)"
  shows "map env (take m (sort_key key (filter (\<lambda>r. sel r \<and> after r) T))) =
    take m (sort_key envelope_key (filter selected (map env (filter sel T))))"
proof -
  have "filter (\<lambda>r. sel r \<and> after r) T = filter (\<lambda>r. selected (env r)) (filter sel T)"
    using assms(2) by (auto intro: filter_cong)
  moreover have "sort_key key (filter (\<lambda>r. selected (env r)) (filter sel T)) =
      sort_key (\<lambda>r. envelope_key (env r)) (filter (\<lambda>r. selected (env r)) (filter sel T))"
    using assms(1) by (intro sort_key_agree) auto
  ultimately show ?thesis by (simp add: filter_map sort_key_map take_map comp_def)
qed

abbreviation behind_cursor :: "timeline_cursor option \<Rightarrow> 'j timeline_envelope \<Rightarrow> bool" where
  "behind_cursor cursor entry \<equiv> when_set cursor (\<lambda>c. cursor_key c < envelope_key entry)"

lemma cursor_before:
  assumes "tie_ok (tc_rank c) (cursor_components c)" and "tie_ok rank ns"
  shows "cursor_key c < (t, timeline_key rank ns) \<longleftrightarrow>
    tc_timestamp c < t \<or> tc_timestamp c = t \<and> (tc_rank c < rank \<or> tc_rank c = rank \<and> cursor_components c < ns)"
  by (auto simp: cursor_key_def timeline_key_less [OF assms])

lemma sources_behind:
  assumes ids: "timeline_ids_ok s" and cursor: "when_set cursor (\<lambda>c. tie_ok (tc_rank c) (cursor_components c))"
  shows "e \<in> set (events s) \<Longrightarrow>
      apply_numeric_timeline_cursor 0 cursor (ev_created_at e) (ev_id e) \<longleftrightarrow> behind_cursor cursor (event_envelope e)"
    and "a \<in> set (activities s) \<Longrightarrow>
      apply_numeric_timeline_cursor 1 cursor (act_created_at a) (act_id a) \<longleftrightarrow>
      behind_cursor cursor (projr (activity_envelope a))"
    and "t \<in> set (attempts s) \<Longrightarrow>
      apply_attempt_timeline_cursor cursor t \<longleftrightarrow> behind_cursor cursor (projr (attempt_envelope t))"
    and "p \<in> set (progress_events s) \<Longrightarrow>
      apply_progress_timeline_cursor cursor p \<longleftrightarrow> behind_cursor cursor (progress_envelope p)"
    and "v \<in> set (approvals s) \<Longrightarrow>
      apply_numeric_timeline_cursor 4 cursor (apr_requested_at v) (apr_id v) \<longleftrightarrow>
      behind_cursor cursor (projr (approval_envelope v))"
  using cursor
  by (cases cursor; auto simp: when_set_def apply_numeric_timeline_cursor_def apply_attempt_timeline_cursor_def
      apply_progress_timeline_cursor_def envelope_keys cursor_before row_ties [OF ids] cursor_components_def)+

lemma sources_ordered:
  assumes "timeline_ids_ok s"
  shows "e \<in> set (events s) \<Longrightarrow> e' \<in> set (events s) \<Longrightarrow>
      (ev_created_at e, ev_id e) \<le> (ev_created_at e', ev_id e') \<longleftrightarrow>
      envelope_key (event_envelope e) \<le> envelope_key (event_envelope e')"
    and "a \<in> set (activities s) \<Longrightarrow> a' \<in> set (activities s) \<Longrightarrow>
      (act_created_at a, act_id a) \<le> (act_created_at a', act_id a') \<longleftrightarrow>
      envelope_key (projr (activity_envelope a)) \<le> envelope_key (projr (activity_envelope a'))"
    and "t \<in> set (attempts s) \<Longrightarrow> t' \<in> set (attempts s) \<Longrightarrow>
      (att_started_at t, att_activity_id t, att_attempt_number t) \<le> (att_started_at t', att_activity_id t', att_attempt_number t') \<longleftrightarrow>
      envelope_key (projr (attempt_envelope t)) \<le> envelope_key (projr (attempt_envelope t'))"
    and "p \<in> set (progress_events s) \<Longrightarrow> p' \<in> set (progress_events s) \<Longrightarrow>
      (prg_created_at p, prg_activity_id p, prg_attempt_number p, prg_sequence p) \<le>
        (prg_created_at p', prg_activity_id p', prg_attempt_number p', prg_sequence p') \<longleftrightarrow>
      envelope_key (progress_envelope p) \<le> envelope_key (progress_envelope p')"
    and "v \<in> set (approvals s) \<Longrightarrow> v' \<in> set (approvals s) \<Longrightarrow>
      (apr_requested_at v, apr_id v) \<le> (apr_requested_at v', apr_id v') \<longleftrightarrow>
      envelope_key (projr (approval_envelope v)) \<le> envelope_key (projr (approval_envelope v'))"
  by (auto simp: envelope_keys timeline_key_le row_ties [OF assms])

lemma gather_parts:
  assumes "timeline_ids_ok s" and "when_set cursor (\<lambda>c. tie_ok (tc_rank c) (cursor_components c))"
  shows "gather_timeline cursor m i s =
    Inr (concat (map (\<lambda>part. take m (sort_key envelope_key (filter (behind_cursor cursor) part)))
      (timeline_parts s i :: 'j timeline_envelope list list)))"
proof -
  note behind = sources_behind [OF assms] and ordered = sources_ordered [OF assms(1)]
  have "(event_entries cursor m i s :: 'j timeline_envelope list) = take m (sort_key envelope_key (filter (behind_cursor cursor)
      (map event_envelope (filter (\<lambda>r. ev_workflow_id r = i) (events s)))))"
    unfolding event_entries_def by (intro source_page ordered(1) behind(1))
  moreover have "(activity_entries cursor m i s :: durable_error + 'j timeline_envelope list) = Inr (take m (sort_key envelope_key (filter (behind_cursor cursor)
      (map (projr \<circ> activity_envelope) (filter (\<lambda>r. act_workflow_id r = i) (activities s))))))"
    unfolding activity_entries_def comp_def
    by (subst envelope_values(1) [abs_def], subst collect_results_values, rule arg_cong [where f = Inr])
      (intro source_page ordered(2) behind(2))
  moreover have "(attempt_entries cursor m i s :: durable_error + 'j timeline_envelope list) = Inr (take m (sort_key envelope_key (filter (behind_cursor cursor)
      (map (projr \<circ> attempt_envelope) (filter (\<lambda>r. of_workflow s i (att_activity_id r)) (attempts s))))))"
    unfolding attempt_entries_def comp_def
    by (subst envelope_values(2) [abs_def], subst collect_results_values, rule arg_cong [where f = Inr])
      (intro source_page ordered(3) behind(3))
  moreover have "(progress_entries cursor m i s :: 'j timeline_envelope list) = take m (sort_key envelope_key (filter (behind_cursor cursor)
      (map progress_envelope (filter (\<lambda>r. of_workflow s i (prg_activity_id r)) (progress_events s)))))"
    unfolding progress_entries_def by (intro source_page ordered(4) behind(4))
  moreover have "(approval_entries cursor m i s :: durable_error + 'j timeline_envelope list) = Inr (take m (sort_key envelope_key (filter (behind_cursor cursor)
      (map (projr \<circ> approval_envelope) (filter (\<lambda>r. apr_workflow_id r = i) (approvals s))))))"
    unfolding approval_entries_def comp_def
    by (subst envelope_values(3) [abs_def], subst collect_results_values, rule arg_cong [where f = Inr])
      (intro source_page ordered(5) behind(5))
  ultimately show ?thesis by (simp add: gather_timeline_def timeline_parts_def)
qed

lemma distinct_ties:
  "distinct (map (\<lambda>r. (k, [f r])) xs) = distinct (map f xs)"
  "distinct (map (\<lambda>r. (k, [f r, g r])) xs) = distinct (map (\<lambda>r. (f r, g r)) xs)"
  "distinct (map (\<lambda>r. (k, [f r, g r, h r])) xs) = distinct (map (\<lambda>r. (f r, g r, h r)) xs)"
  by (simp_all add: distinct_map inj_on_def)

lemma timeline_keys_distinct:
  assumes "timeline_ids_ok s"
  shows "distinct (map envelope_key (concat (timeline_parts s i) :: 'j timeline_envelope list))"
proof -
  let ?ties = "map (\<lambda>r. (0 :: int, [ev_id r])) (events s) @ map (\<lambda>r. (1, [act_id r])) (activities s) @
    map (\<lambda>r. (2, [att_activity_id r, att_attempt_number r])) (attempts s) @
    map (\<lambda>r. (3, [prg_activity_id r, prg_attempt_number r, prg_sequence r])) (progress_events s) @
    map (\<lambda>r. (4, [apr_id r])) (approvals s)"
  have "\<forall>(rank, ns) \<in> set ?ties. tie_ok rank ns" using row_ties [OF assms] by auto
  then have "inj_on (\<lambda>(rank, ns). timeline_key rank ns) (set ?ties)"
    by (intro inj_onI) (auto simp: timeline_key_inj split: prod.splits)
  moreover have "distinct ?ties" unfolding distinct_append distinct_ties using assms by (auto simp: timeline_ids_ok_def)
  ultimately have all: "distinct (map (\<lambda>(rank, ns). timeline_key rank ns) ?ties)" by (intro distinct_map [THEN iffD2] conjI)
  have "mset (map snd (map envelope_key (concat (timeline_parts s i) :: 'j timeline_envelope list))) \<subseteq># mset (map (\<lambda>(rank, ns). timeline_key rank ns) ?ties)"
    by (simp add: timeline_parts_def envelope_keys comp_def) 
      (intro subset_mset.add_mono image_mset_subseteq_mono; simp add: multiset_filter_subset)
  from submset_distinct [OF this all] show ?thesis by (simp only: distinct_map [of snd])
qed

lemma serve_page_take:
  assumes "take (Suc n) xs = take (Suc n) ys"
  shows "serve_page K scope position n render xs = serve_page K scope position n render ys"
proof -
  have "take n xs = take n ys" using arg_cong [OF assms, of "take n"] by simp
  moreover have "n < length xs \<longleftrightarrow> n < length ys" using arg_cong [OF assms, of length] by simp linarith
  ultimately show ?thesis by (simp add: serve_page_def split: sum.split)
qed

lemma timeline_served:
  assumes ids: "timeline_ids_ok s" and row: "workflow_by_id s i = Some row"
    and limit: "bounded_limit page MAX_TIMELINE_PAGE_SIZE = Inr limit"
  shows "timeline_list.served K (timeline_scope i) (nat limit) te_entry
    (concat (timeline_parts s i) :: 'j timeline_envelope list) (\<lambda>c. workflow_timeline K i (page\<lparr>pr_cursor := c\<rparr>) s)"
proof -
  let ?n = "nat limit" and ?parts = "timeline_parts s i :: 'j timeline_envelope list list"
  have limit': "bounded_limit (page\<lparr>pr_cursor := c\<rparr>) MAX_TIMELINE_PAGE_SIZE = Inr limit" for c
    using limit by (simp add: bounded_limit_def)
  have page: "(case gather_timeline cursor (Suc ?n) i s of
        Inl e \<Rightarrow> Inl e
      | Inr gathered \<Rightarrow>
          let timeline = sort_key envelope_key gathered;
              has_more = length timeline > ?n;
              shown = take ?n timeline
          in case next_page_cursor K (timeline_scope i) timeline_position has_more shown of
               Inl e \<Rightarrow> Inl e
             | Inr next_cursor \<Rightarrow> Inr \<lparr>pg_items = map te_entry shown, pg_next_cursor = next_cursor\<rparr>) =
      serve_page K (timeline_scope i) timeline_position ?n te_entry
        (sort_key envelope_key (filter (behind_cursor cursor) (concat ?parts)))"
    if cursor: "when_set cursor (\<lambda>c. tie_ok (tc_rank c) (cursor_components c))" for cursor
  proof -
    let ?found = "map (filter (behind_cursor cursor)) ?parts"
    have whole: "concat ?found = filter (behind_cursor cursor) (concat ?parts)" by (simp add: filter_concat)
    have "distinct (map envelope_key (concat ?found @ []))"
      unfolding whole using timeline_keys_distinct [where 'j = 'j, OF ids, of i] by (simp add: distinct_map_filter)
    from take_sort_cuts [OF this, of "Suc ?n"]
    have "take (Suc ?n) (sort_key envelope_key (concat (map (\<lambda>part. take (Suc ?n)
          (sort_key envelope_key (filter (behind_cursor cursor) part))) ?parts))) =
        take (Suc ?n) (sort_key envelope_key (filter (behind_cursor cursor) (concat ?parts)))"
      by (simp add: comp_def flip: whole)
    from serve_page_take [OF this] show ?thesis
      by (simp add: gather_parts [OF ids cursor] serve_page_def Let_def)
  qed
  show ?thesis
    unfolding timeline_list.served_def workflow_timeline_def
    using page [of None] page [of "Some _"] decode_timeline_position
    by (auto simp: limit' row decode_optional_def when_set_def simp del: length_sort)
qed

lemma scope_with_id:
  assumes "is_ascii prefix" and "length prefix \<le> 44" and "wire_id i"
  shows "validate_scope (prefix @ dec_int i) = Inr ()"
proof -
  have i: "dec_int i = dec_nat (nat i)" "nat i < 10 ^ 20"
    using assms(3) by (simp_all add: dec_int_def in_signed_def nat_less_iff)
  have "length (dec_nat (nat i)) \<le> 20" using dec_nat_length [OF i(2)] by simp
  moreover have "is_ascii (dec_nat (nat i))" using decimal_dec_nat [of "nat i"] by (auto simp: is_ascii_def list_all_iff)
  ultimately show ?thesis using assms(1,2) by (simp add: validate_scope_def i(1) is_ascii_def)
qed

lemma envelope_ok_key: "envelope_ok e \<longleftrightarrow> (\<exists>rank ns. tie_ok rank ns \<and> snd (envelope_key e) = timeline_key rank ns)"
  by (simp add: envelope_ok_def envelope_key_def)

lemma parts_ok:
  assumes "timeline_ids_ok s" and "entry \<in> set (concat (timeline_parts s i))"
  shows "envelope_ok entry"
  using assms(2) row_ties [OF assms(1)] unfolding envelope_ok_key
  by (simp add: timeline_parts_def) (elim disjE imageE; simp add: envelope_keys; blast)

text \<open>
  C37: the timeline of a workflow is the merge of its five tables. An operator who follows the
  cursors, with any page size, reads every event, activity, attempt, progress report and
  approval of the workflow exactly once, in the order of time; at equal times events come
  first, then activities, attempts, progress and approvals, each by its ids as numbers. This
  although each page reads only one page of each table, and although ties are compared as
  texts.
\<close>

theorem timeline_is_complete:
  assumes "codec_ok K" and "timeline_ids_ok s" and "workflow_by_id s i = Some row" and "wire_id i"
    and "bounded_limit page MAX_TIMELINE_PAGE_SIZE = Inr limit" and "0 \<le> limit"
    and "entries = concat (timeline_parts s i)"
    and "\<forall>entry \<in> set entries. cursor_fits K (timeline_scope i) (timeline_position entry)"
  shows "follow (Suc (length entries)) (\<lambda>c. workflow_timeline K i (page\<lparr>pr_cursor := c\<rparr>) s) None =
    Some (Inr (map te_entry (sort_key envelope_key entries)))"
proof -
  have "validate_scope (timeline_scope i) = Inr ()"
    unfolding timeline_scope_def by (rule scope_with_id) (use assms(4) in \<open>simp_all add: is_ascii_def\<close>)
  moreover have "\<forall>entry \<in> set entries. envelope_ok entry" using parts_ok [OF assms(2)] assms(7) by blast
  ultimately show ?thesis
    using assms timeline_keys_distinct [OF assms(2)] timeline_served [OF assms(2,3,5)]
    by (intro timeline_list.follow_all [OF assms(1) _ bounded_limit_positive [OF assms(5,6)]]) auto
qed

theorem timeline_is_complete_witness:
  "map_option (map_sum id (map (\<lambda>entry :: unit timeline_entry. case entry of TE_Activity a \<Rightarrow> asm_id a | _ \<Rightarrow> 0)))
     (follow 3 (\<lambda>c. workflow_timeline sample_codec 2 \<lparr>pr_cursor = c, pr_limit = Some 1\<rparr> sample_db) None) =
   Some (Inr [0, 1])"
proof -
  let ?page = "\<lparr>pr_cursor = None, pr_limit = Some 1\<rparr>"
    and ?entries = "concat (timeline_parts sample_db 2) :: unit timeline_envelope list"
  have "timeline_ids_ok sample_db" "workflow_by_id sample_db 2 = Some sample_child" "wire_id 2"
    "bounded_limit ?page MAX_TIMELINE_PAGE_SIZE = Inr 1" "length ?entries = 2"
    "\<forall>entry \<in> set ?entries. cursor_fits sample_codec (timeline_scope 2) (timeline_position entry)"
    by code_simp+
  with timeline_is_complete [OF sample_codec_ok, of sample_db 2 sample_child ?page 1 ?entries]
  have "follow 3 (\<lambda>c. workflow_timeline sample_codec 2 \<lparr>pr_cursor = c, pr_limit = Some 1\<rparr> sample_db) None =
      Some (Inr (map te_entry (sort_key envelope_key ?entries)))"
    by (simp add: numeral_3_eq_3 del: follow.simps)
  moreover have "map (\<lambda>entry. case entry of TE_Activity a \<Rightarrow> asm_id a | _ \<Rightarrow> 0)
      (map te_entry (sort_key envelope_key ?entries)) = [0, 1]" by code_simp
  ultimately show ?thesis by (simp del: follow.simps)
qed

end
