(* ===== verification/Topic_Metrics.thy ===== *)
theory Topic_Metrics
  imports Admin_Query Health
begin

text \<open>
  The load of the activity topics (\<open>list_topic_metrics\<close> of \<open>src/admin/metrics.rs\<close>): how many
  activities of a topic run, could run, wait for a retry or are dead, how long the oldest of
  them waits, and how many were completed in each of the last twenty-four hours. A grouped
  query that is looked up by topic is the function of the topic it computes; a count is the
  length of a list, so that its conversion from \<open>i64\<close> cannot fail.
  The queries run outside a transaction: each reads a database of its own, \<open>seen k\<close>.
\<close>

section \<open>Hours\<close>

definition HOUR_MILLIS :: i64 where
  "HOUR_MILLIS = 3600000"

definition HOURLY_BUCKET_COUNT :: nat where
  "HOURLY_BUCKET_COUNT = 24"

definition RESOLVED_ROOT_IN_CHUNK :: nat where
  "RESOLVED_ROOT_IN_CHUNK = 10000"

record hourly_window =
  hw_first_hour :: i64
  hw_exclusive_end :: i64

definition hour_bucket_start :: "i64 \<Rightarrow> i64" where
  "hour_bucket_start timestamp = (timestamp div HOUR_MILLIS) * HOUR_MILLIS"

definition hourly_window_at :: "db_millis \<Rightarrow> hourly_window" where
  "hourly_window_at now =
     \<lparr>hw_first_hour = hour_bucket_start now - (int HOURLY_BUCKET_COUNT - 1) * HOUR_MILLIS,
      hw_exclusive_end = saturating_add 64 now 1\<rparr>"

definition hour_bucket_bounds :: "hourly_window \<Rightarrow> nat \<Rightarrow> i64 \<times> i64" where
  "hour_bucket_bounds window index =
     (let starts_at = hw_first_hour window + int index * HOUR_MILLIS
      in (starts_at, min (saturating_add 64 starts_at HOUR_MILLIS) (hw_exclusive_end window)))"

record hourly_throughput_bucket =
  hb_starts_at :: i64
  hb_completed_count :: u64

definition empty_hourly_throughput :: "hourly_window \<Rightarrow> hourly_throughput_bucket list" where
  "empty_hourly_throughput window =
     map (\<lambda>index. \<lparr>hb_starts_at = hw_first_hour window + int index * HOUR_MILLIS, hb_completed_count = 0\<rparr>)
       [0..<HOURLY_BUCKET_COUNT]"

definition age :: "db_millis \<Rightarrow> i64 option \<Rightarrow> u64 option" where
  "age now timestamp = map_option (\<lambda>t. case u64_try_from (saturating_sub 64 now t) of None \<Rightarrow> 0 | Some n \<Rightarrow> n) timestamp"

definition validate_now :: "db_millis \<Rightarrow> durable_error + unit" where
  "validate_now now = (if now < 0 then Inl (InvalidDefinition ''captured time cannot be negative'') else Inr ())"

section \<open>Resolved chains\<close>

text \<open>\<open>slice::chunks\<close>.\<close>

function chunks :: "nat \<Rightarrow> 'a list \<Rightarrow> 'a list list" where
  "chunks n xs = (if n = 0 \<or> xs = [] then [] else take n xs # chunks n (drop n xs))"
  by pat_completeness auto
termination by (relation "measure (\<lambda>(n, xs). length xs)") auto

declare chunks.simps [simp del]

text \<open>One query a chunk: query \<open>j\<close> reads the database \<open>seen j\<close>.\<close>

definition load_resolved_activity_roots :: "i64 list \<Rightarrow> (nat \<Rightarrow> db) \<Rightarrow> i64 set" where
  "load_resolved_activity_roots candidate_roots seen =
     set (concat (map (\<lambda>(j, chunk). map effective_root (filter (\<lambda>a. act_status a = AS_Succeeded \<and>
       ((\<exists>root \<in> set_option (act_root_activity_id a). root \<in> set chunk) \<or> act_id a \<in> set chunk)) (activities (seen j))))
       (enumerate 0 (chunks RESOLVED_ROOT_IN_CHUNK candidate_roots))))"

section \<open>Metrics of a topic\<close>

record topic_metrics =
  tm_topic :: string
  tm_max_concurrency :: u32
  tm_configured_max_concurrency :: u32
  tm_configuration_mismatch :: bool
  tm_active_count :: u64
  tm_available_capacity :: u32
  tm_ready_count :: u64
  tm_retry_scheduled_count :: u64
  tm_dead_letter_count :: u64
  tm_oldest_ready_age_millis :: "u64 option"
  tm_oldest_active_age_millis :: "u64 option"
  tm_hourly_throughput :: "hourly_throughput_bucket list"
  tm_captured_at :: i64

definition persisted_caps :: "string list \<Rightarrow> db \<Rightarrow> durable_error + (string \<times> u32) list" where
  "persisted_caps keys s =
     collect_results (map (\<lambda>r. case u32_try_from (tl_max_concurrency r) of
         None \<Rightarrow> Inl (InvalidState (''activity topic '' @ tl_topic r @ '' has invalid persisted concurrency limit '' @
             dec_int (tl_max_concurrency r)))
       | Some cap \<Rightarrow> Inr (tl_topic r, cap)) (filter (\<lambda>r. tl_topic r \<in> set keys) (topic_locks s)))"

definition slot_held :: "db_millis \<Rightarrow> activity_row \<Rightarrow> bool" where
  "slot_held now a \<longleftrightarrow> act_status a \<in> set SLOT_HOLDERS \<and> sql_gt (act_lease_expires_at a) now"

definition topic_active_count :: "db_millis \<Rightarrow> db \<Rightarrow> string \<Rightarrow> u64" where
  "topic_active_count now s topic = int (length (filter (\<lambda>a. act_topic a = topic \<and> slot_held now a) (activities s)))"

definition awaited_activity :: "db \<Rightarrow> activity_row \<Rightarrow> bool" where
  "awaited_activity s a \<longleftrightarrow>
     (\<exists>w \<in> set (workflows s). wf_id w = act_workflow_id a \<and> wf_status w = WS_WaitingActivity \<and>
        sql_eq (wf_wait_reference_id w) (Some (act_id a)))"

definition ready_activities :: "db_millis \<Rightarrow> db \<Rightarrow> string \<Rightarrow> activity_row list" where
  "ready_activities now s topic =
     filter (\<lambda>a. act_topic a = topic \<and> act_status a = AS_Pending \<and> act_available_at a \<le> now \<and> awaited_activity s a)
       (activities s)"

definition retry_count :: "db_millis \<Rightarrow> db \<Rightarrow> string \<Rightarrow> u64" where
  "retry_count now s topic =
     int (length (filter (\<lambda>a. act_topic a = topic \<and> act_status a = AS_Pending \<and> act_available_at a > now \<and>
       act_attempt_count a > 0 \<and> awaited_activity s a) (activities s)))"

text \<open>\<open>MIN\<close> of a group.\<close>

definition sql_min :: "int list \<Rightarrow> int option" where
  "sql_min xs = (case xs of [] \<Rightarrow> None | y # ys \<Rightarrow> Some (fold min ys y))"

definition oldest_ready :: "db_millis \<Rightarrow> db \<Rightarrow> string \<Rightarrow> db_millis option" where
  "oldest_ready now s topic =
     sql_min (map (\<lambda>a. if act_available_at a = CONTINUATION_READY_AT_MILLIS then act_created_at a else act_available_at a)
       (ready_activities now s topic))"

definition oldest_active :: "db_millis \<Rightarrow> db \<Rightarrow> string \<Rightarrow> db_millis option" where
  "oldest_active now s topic =
     sql_min (map (\<lambda>(a, t). att_started_at t)
       (filter (\<lambda>(a, t). att_activity_id t = act_id a \<and> att_attempt_number t = act_attempt_count a \<and>
          act_topic a = topic \<and> slot_held now a) (List.product (activities s) (attempts s))))"

definition dead_letter_candidates :: "string list \<Rightarrow> db \<Rightarrow> activity_row list" where
  "dead_letter_candidates keys s =
     filter (\<lambda>a. act_topic a \<in> set keys \<and> act_status a = AS_DeadLettered \<and>
       (\<exists>w \<in> set (workflows s). wf_id w = act_workflow_id a \<and> wf_status w \<notin> set TERMINAL)) (activities s)"

definition dead_letter_count :: "string list \<Rightarrow> db \<Rightarrow> (nat \<Rightarrow> db) \<Rightarrow> string \<Rightarrow> u64" where
  "dead_letter_count keys s seen topic =
     (let candidates = dead_letter_candidates keys s;
          resolved = load_resolved_activity_roots (sort_dedup (map effective_root candidates)) seen
      in int (length (filter (\<lambda>a. act_topic a = topic \<and> effective_root a \<notin> resolved) candidates)))"

definition completed_in :: "i64 \<times> i64 \<Rightarrow> db \<Rightarrow> string \<Rightarrow> u64" where
  "completed_in bounds s topic =
     (case bounds of (starts_at, ends_at) \<Rightarrow>
        int (length (filter (\<lambda>a. act_topic a = topic \<and>
          (case act_completed_at a of None \<Rightarrow> False | Some t \<Rightarrow> starts_at \<le> t \<and> t < ends_at)) (activities s))))"

definition hourly_throughput :: "hourly_window \<Rightarrow> (nat \<Rightarrow> db) \<Rightarrow> string \<Rightarrow> hourly_throughput_bucket list" where
  "hourly_throughput window seen topic =
     map2 (\<lambda>index bucket. bucket\<lparr>hb_completed_count := completed_in (hour_bucket_bounds window index) (seen index) topic\<rparr>)
       [0..<HOURLY_BUCKET_COUNT] (empty_hourly_throughput window)"

text \<open>
  The reads, by number: 0 the stored limits, 1 the slots in use, 2 the dead letters, 3 the ready
  activities, 4 the retries, 5 the oldest attempts, 6 to 29 the hours; from 30 on the chunks of the
  roots of the dead letters, which run between 2 and 3.
\<close>

definition topic_metrics_item ::
    "string list \<Rightarrow> (string \<times> u32) list \<Rightarrow> db_millis \<Rightarrow> (nat \<Rightarrow> db) \<Rightarrow> topic_definition \<Rightarrow> topic_metrics" where
  "topic_metrics_item keys caps now seen definition =
     (let topic = td_key definition;
          persisted = map_of (rev caps) topic;
          max_concurrency = (case persisted of None \<Rightarrow> td_max_concurrency definition | Some cap \<Rightarrow> cap);
          active = topic_active_count now (seen 1) topic
      in \<lparr>tm_topic = topic, tm_max_concurrency = max_concurrency,
          tm_configured_max_concurrency = td_max_concurrency definition,
          tm_configuration_mismatch = (persisted \<noteq> Some (td_max_concurrency definition)),
          tm_active_count = active,
          tm_available_capacity = max 0 (max_concurrency - (case u32_try_from active of None \<Rightarrow> max_u32 | Some n \<Rightarrow> n)),
          tm_ready_count = int (length (ready_activities now (seen 3) topic)),
          tm_retry_scheduled_count = retry_count now (seen 4) topic,
          tm_dead_letter_count = dead_letter_count keys (seen 2) (\<lambda>j. seen (30 + j)) topic,
          tm_oldest_ready_age_millis = age now (oldest_ready now (seen 3) topic),
          tm_oldest_active_age_millis = age now (oldest_active now (seen 5) topic),
          tm_hourly_throughput = hourly_throughput (hourly_window_at now) (\<lambda>i. seen (6 + i)) topic,
          tm_captured_at = now\<rparr>)"

definition load_topic_metrics ::
    "topic_definition list \<Rightarrow> db_millis \<Rightarrow> (nat \<Rightarrow> db) \<Rightarrow> durable_error + topic_metrics list" where
  "load_topic_metrics definitions now seen =
     (if definitions = [] then Inr []
      else
        let keys = map td_key definitions in
        case persisted_caps keys (seen 0) of
          Inl e \<Rightarrow> Inl e
        | Inr caps \<Rightarrow> Inr (map (topic_metrics_item keys caps now seen) definitions))"

definition list_topic_metrics_at ::
    "cursor_codec \<Rightarrow> topic_registry \<Rightarrow> page_request \<Rightarrow> db_millis \<Rightarrow> (nat \<Rightarrow> db) \<Rightarrow> durable_error + topic_metrics admin_page" where
  "list_topic_metrics_at K topics page now seen =
     (case validate_now now of
        Inl e \<Rightarrow> Inl e
      | Inr _ \<Rightarrow>
     (case bounded_limit page MAX_ADMIN_PAGE_SIZE of
        Inl e \<Rightarrow> Inl e
      | Inr limit \<Rightarrow>
     (case decode_optional (decode_string_cursor K ''topics'') (pr_cursor page) of
        Inl e \<Rightarrow> Inl e
      | Inr after \<Rightarrow>
          let definitions0 = filter (\<lambda>d. when_set after (\<lambda>a. td_key d > a)) (TopicRegistry_definitions topics);
              has_more = length definitions0 > nat limit;
              definitions = take (nat limit) definitions0
          in case next_page_cursor K ''topics'' (\<lambda>d. \<lparr>cp_timestamp = 0, cp_tie_breaker = td_key d\<rparr>) has_more definitions of
               Inl e \<Rightarrow> Inl e
             | Inr next_cursor \<Rightarrow>
                 (case load_topic_metrics definitions now seen of
                    Inl e \<Rightarrow> Inl e
                  | Inr items \<Rightarrow> Inr \<lparr>pg_items = items, pg_next_cursor = next_cursor\<rparr>))))"

definition list_topic_metrics ::
    "cursor_codec \<Rightarrow> topic_registry \<Rightarrow> page_request \<Rightarrow> (nat \<Rightarrow> db) \<Rightarrow> topic_metrics admin_page dtx" where
  "list_topic_metrics K topics page seen =
     tx_bind database_now_millis (\<lambda>now. tx_lift (list_topic_metrics_at K topics page now seen))"

section \<open>Exactness\<close>

lemma chunks_concat: "0 < n \<Longrightarrow> concat (chunks n xs) = xs"
  by (induction n xs rule: chunks.induct) (subst chunks.simps, auto)

lemma chunks_length: "length (chunks n xs) \<le> length xs"
proof (induction n xs rule: chunks.induct)
  case (1 n xs)
  show ?case
  proof (cases "n = 0 \<or> xs = []")
    case False
    with 1 have "length (chunks n (drop n xs)) \<le> length xs - n" by simp
    moreover from False have "length (chunks n xs) = Suc (length (chunks n (drop n xs)))"
      by (simp add: chunks.simps [of n xs])
    moreover from False have "0 < n" "0 < length xs" by auto
    ultimately show ?thesis by linarith
  qed (simp add: chunks.simps)
qed

text \<open>
  Some query decides about the chain of a candidate: the one that finds it resolved, or else
  the one of its chunk.
\<close>

lemma in_indexed_image:
  assumes "\<And>j b. H j b \<Longrightarrow> j < n"
  shows "x \<in> (\<Union>j < n. f ` {b. H j b}) \<longleftrightarrow> (\<exists>j b. H j b \<and> f b = x)"
  using assms by auto

lemma load_resolved_chain:
  assumes "effective_root a \<in> set roots"
  shows "\<exists>j < length roots. effective_root a \<in> load_resolved_activity_roots roots seen \<longleftrightarrow> chain_resolved (seen j) a"
proof -
  let ?chunks = "chunks RESOLVED_ROOT_IN_CHUNK roots"
  let ?hit = "\<lambda>j b. j < length ?chunks \<and> b \<in> set (activities (seen j)) \<and> act_status b = AS_Succeeded \<and>
    ((\<exists>root \<in> set_option (act_root_activity_id b). root \<in> set (?chunks ! j)) \<or> act_id b \<in> set (?chunks ! j))"
  have loaded: "effective_root a \<in> load_resolved_activity_roots roots seen \<longleftrightarrow>
      (\<exists>j b. ?hit j b \<and> effective_root b = effective_root a)"
  proof -
    have "set (enumerate 0 ?chunks) = (\<lambda>j. (j, ?chunks ! j)) ` {..<length ?chunks}"
      by (auto simp: in_set_enumerate_eq)
    then have "load_resolved_activity_roots roots seen =
        (\<Union>j < length ?chunks. effective_root ` {b. ?hit j b})"
      by (simp add: load_resolved_activity_roots_def image_image)
    then show ?thesis by (simp only:) (rule in_indexed_image, blast)
  qed
  have "concat ?chunks = roots" by (rule chunks_concat) (simp add: RESOLVED_ROOT_IN_CHUNK_def)
  with assms obtain i where i: "i < length ?chunks" "effective_root a \<in> set (?chunks ! i)"
    by (metis (no_types, lifting) UN_E in_set_conv_nth set_concat)
  show ?thesis
  proof (cases "\<exists>j b. ?hit j b \<and> effective_root b = effective_root a")
    case True
    then obtain j b where "?hit j b" "effective_root b = effective_root a" by blast
    with loaded chunks_length [of RESOLVED_ROOT_IN_CHUNK roots] show ?thesis
      by (intro exI [of _ j]) (auto simp: chain_resolved_def)
  next
    case False
    have "\<not> chain_resolved (seen i) a"
    proof
      assume "chain_resolved (seen i) a"
      then obtain b where "b \<in> set (activities (seen i))" "act_status b = AS_Succeeded" "effective_root b = effective_root a"
        by (auto simp: chain_resolved_def)
      with i have "?hit i b" by (auto simp: effective_root_def split: option.splits)
      with False \<open>effective_root b = effective_root a\<close> show False by blast
    qed
    with i loaded False chunks_length [of RESOLVED_ROOT_IN_CHUNK roots] show ?thesis by (intro exI [of _ i]) auto
  qed
qed

lemma bucket_bounds:
  assumes "0 \<le> now" and "now < max_signed 64"
  shows "hour_bucket_bounds (hourly_window_at now) i =
    (hw_first_hour (hourly_window_at now) + int i * HOUR_MILLIS,
     min (hw_first_hour (hourly_window_at now) + int (Suc i) * HOUR_MILLIS) (now + 1))"
proof -
  have "hw_exclusive_end (hourly_window_at now) = now + 1"
    using assms by (simp add: hourly_window_at_def saturating_add_def clamp_signed_def min_signed_def max_signed_def)
  moreover have "min (saturating_add 64 x HOUR_MILLIS) (now + 1) = min (x + HOUR_MILLIS) (now + 1)"
    if "- max_signed 64 - 1 \<le> x + HOUR_MILLIS" for x
    using that assms by (auto simp: saturating_add_def clamp_signed_def min_signed_def max_signed_def)
  moreover have "- max_signed 64 - 1 \<le> hw_first_hour (hourly_window_at now) + int i * HOUR_MILLIS + HOUR_MILLIS"
  proof -
    have "0 \<le> hour_bucket_start now" using assms(1) by (simp add: hour_bucket_start_def HOUR_MILLIS_def)
    then show ?thesis by (simp add: hourly_window_at_def HOURLY_BUCKET_COUNT_def HOUR_MILLIS_def max_signed_def)
  qed
  ultimately show ?thesis by (simp add: hour_bucket_bounds_def Let_def algebra_simps)
qed

lemma hours_cover:
  assumes "0 \<le> now" and "now < max_signed 64"
  defines "first \<equiv> hw_first_hour (hourly_window_at now)"
  shows "(\<exists>i < 24. first + int i * HOUR_MILLIS \<le> t \<and> t < min (first + int (Suc i) * HOUR_MILLIS) (now + 1)) \<longleftrightarrow>
      first \<le> t \<and> t \<le> now"
    and "first + int i * HOUR_MILLIS \<le> t \<Longrightarrow> t < min (first + int (Suc i) * HOUR_MILLIS) (now + 1) \<Longrightarrow>
      i = nat ((t - first) div HOUR_MILLIS)"
proof -
  have "now div HOUR_MILLIS * HOUR_MILLIS \<le> now" "now < now div HOUR_MILLIS * HOUR_MILLIS + HOUR_MILLIS"
    using div_mult_mod_eq [of now HOUR_MILLIS] pos_mod_sign [of HOUR_MILLIS now] pos_mod_bound [of HOUR_MILLIS now]
    by (simp_all add: HOUR_MILLIS_def)
  then have first: "first + 23 * HOUR_MILLIS \<le> now" "now < first + 24 * HOUR_MILLIS"
    by (simp_all add: first_def hourly_window_at_def hour_bucket_start_def HOURLY_BUCKET_COUNT_def)
  show bucket: "i = nat ((t - first) div HOUR_MILLIS)"
    if "first + int i * HOUR_MILLIS \<le> t" "t < min (first + int (Suc i) * HOUR_MILLIS) (now + 1)" for i
  proof -
    define r where "r = t - first - int i * HOUR_MILLIS"
    with that have "0 \<le> r" "r < HOUR_MILLIS" "t - first = int i * HOUR_MILLIS + r"
      by (simp_all add: algebra_simps)
    then have "(t - first) div HOUR_MILLIS = int i" by (simp add: HOUR_MILLIS_def)
    then show ?thesis by simp
  qed
  show "(\<exists>i < 24. first + int i * HOUR_MILLIS \<le> t \<and> t < min (first + int (Suc i) * HOUR_MILLIS) (now + 1)) \<longleftrightarrow>
      first \<le> t \<and> t \<le> now"
  proof
    assume t: "first \<le> t \<and> t \<le> now"
    let ?i = "nat ((t - first) div HOUR_MILLIS)"
    have i: "int ?i = (t - first) div HOUR_MILLIS" using t by (simp add: HOUR_MILLIS_def)
    have "(t - first) div HOUR_MILLIS < 24" using t first by (auto simp: HOUR_MILLIS_def)
    then have "?i < 24" by simp
    moreover have "first + int ?i * HOUR_MILLIS \<le> t" "t < first + int (Suc ?i) * HOUR_MILLIS"
      using t unfolding of_nat_Suc i by (simp_all add: HOUR_MILLIS_def)
    ultimately show "\<exists>i < 24. first + int i * HOUR_MILLIS \<le> t \<and> t < min (first + int (Suc i) * HOUR_MILLIS) (now + 1)"
      using t by auto
  qed (auto simp: HOUR_MILLIS_def)
qed

lemma sum_filters:
  fixes n :: nat
  assumes "\<And>x i. x \<in> set xs \<Longrightarrow> i < n \<Longrightarrow> P i x \<Longrightarrow> i = f x"
  shows "(\<Sum>i < n. length (filter (P i) xs)) = length (filter (\<lambda>x. \<exists>i < n. P i x) xs)"
  using assms
proof (induction xs)
  case (Cons x xs)
  have "(\<Sum>i < n. (if P i x then 1 else 0) :: nat) = (if \<exists>i < n. P i x then 1 else 0)"
  proof (cases "\<exists>i < n. P i x")
    case True
    with Cons.prems [of x] have fx: "f x < n" "P (f x) x" by force+
    then have "P i x \<longleftrightarrow> i = f x" if "i < n" for i using Cons.prems [of x i] that by auto
    then have "(\<Sum>i < n. (if P i x then 1 else 0) :: nat) = (\<Sum>i < n. if i = f x then 1 else 0)"
      by (intro sum.cong) auto
    with fx True show ?thesis by simp
  qed simp
  moreover have "(\<Sum>i < n. length (filter (P i) xs)) = length (filter (\<lambda>x. \<exists>i < n. P i x) xs)"
    using Cons by simp
  moreover have "length (filter (P i) (x # xs)) = (if P i x then 1 else 0) + length (filter (P i) xs)" for i by simp
  ultimately show ?case by (simp only: sum.distrib) simp
qed simp

section \<open>What is counted\<close>

text \<open>What a metrics item reports of its topic, read off the tables.\<close>

definition slots_in_use :: "db_millis \<Rightarrow> db \<Rightarrow> string \<Rightarrow> activity_row list" where
  "slots_in_use now s topic =
     filter (\<lambda>a. act_topic a = topic \<and> (act_status a = AS_Running \<or> act_status a = AS_Cancelling) \<and>
       (\<exists>expiry \<in> set_option (act_lease_expires_at a). now < expiry)) (activities s)"

definition overrun_slots :: "i64 list \<Rightarrow> db_millis \<Rightarrow> db \<Rightarrow> string \<Rightarrow> activity_row list" where
  "overrun_slots unsettled now s topic =
     filter (\<lambda>a. act_topic a = topic \<and> (act_status a = AS_Running \<or> act_status a = AS_Cancelling) \<and>
       \<not> (\<exists>expiry \<in> set_option (act_lease_expires_at a). now < expiry) \<and> act_id a \<in> set unsettled) (activities s)"

definition waiting_activities :: "db \<Rightarrow> string \<Rightarrow> activity_row list" where
  "waiting_activities s topic =
     filter (\<lambda>a. act_topic a = topic \<and> act_status a = AS_Pending \<and>
       (\<exists>w \<in> set (workflows s). waits_for_activity (act_workflow_id a) (act_id a) w)) (activities s)"

definition waiting_since :: "activity_row \<Rightarrow> db_millis" where
  "waiting_since a = (if act_available_at a = CONTINUATION_READY_AT_MILLIS then act_created_at a else act_available_at a)"

definition attempt_starts :: "db \<Rightarrow> activity_row list \<Rightarrow> db_millis set" where
  "attempt_starts s rows = (\<Union>a \<in> set rows.
     att_started_at ` {t \<in> set (attempts s). att_activity_id t = act_id a \<and> att_attempt_number t = act_attempt_count a})"

definition oldest_age :: "db_millis \<Rightarrow> db_millis set \<Rightarrow> u64 option" where
  "oldest_age now since = (if since = {} then None else Some (max 0 (min (max_signed 64) (now - Min since))))"

definition open_dead_letters :: "db \<Rightarrow> (activity_row \<Rightarrow> db) \<Rightarrow> string \<Rightarrow> activity_row list" where
  "open_dead_letters s at_root topic =
     filter (\<lambda>a. act_topic a = topic \<and> act_status a = AS_DeadLettered \<and> \<not> chain_resolved (at_root a) a \<and>
       (\<exists>w \<in> set (workflows s). wf_id w = act_workflow_id a \<and> \<not> ws_is_terminal (wf_status w))) (activities s)"

definition completed_between :: "i64 \<Rightarrow> i64 \<Rightarrow> db \<Rightarrow> string \<Rightarrow> activity_row list" where
  "completed_between lo hi s topic =
     filter (\<lambda>a. act_topic a = topic \<and> (\<exists>t \<in> set_option (act_completed_at a). lo \<le> t \<and> t < hi)) (activities s)"

lemma active_count_slots: "topic_active_count now s topic = int (length (slots_in_use now s topic))"
  by (auto simp: topic_active_count_def slots_in_use_def slot_held_def SLOT_HOLDERS_def sql_gt_def
      intro!: arg_cong [where f = length] filter_cong split: option.splits)

lemma length_filter_disjoint:
  assumes "\<And>x. P x \<longleftrightarrow> Q x \<or> R x" and "\<And>x. \<not> (Q x \<and> R x)"
  shows "length (filter P xs) = length (filter Q xs) + length (filter R xs)"
  using assms by (induction xs) auto

lemma in_flight_slots:
  "in_flight topic unsettled now s = length (slots_in_use now s topic) + length (overrun_slots unsettled now s topic)"
  unfolding in_flight_def slots_in_use_def overrun_slots_def
  by (rule length_filter_disjoint) (auto simp: SLOT_HOLDERS_def sql_gt_def split: option.splits)

lemma awaited_waits:
  "awaited_activity s a \<longleftrightarrow> (\<exists>w \<in> set (workflows s). waits_for_activity (act_workflow_id a) (act_id a) w)"
  by (auto simp: awaited_activity_def waits_for_activity_def sql_eq_def)

lemma ready_waiting:
  "ready_activities now s topic = filter (\<lambda>a. act_available_at a \<le> now) (waiting_activities s topic)"
  by (auto simp: ready_activities_def waiting_activities_def awaited_waits intro!: filter_cong)

lemma retry_waiting:
  "retry_count now s topic =
     int (length (filter (\<lambda>a. now < act_available_at a \<and> 0 < act_attempt_count a) (waiting_activities s topic)))"
  by (auto simp: retry_count_def waiting_activities_def awaited_waits intro!: arg_cong [where f = length] filter_cong)

lemma sql_min_Min: "sql_min xs = (if xs = [] then None else Some (Min (set xs)))"
  by (cases xs) (simp_all only: sql_min_def list.case Min.set_eq_fold if_True if_False list.distinct simp_thms)

lemma age_oldest: "age now (sql_min xs) = oldest_age now (set xs)"
  by (auto simp: age_def sql_min_Min oldest_age_def u64_try_from_def in_unsigned_def saturating_sub_def clamp_signed_def
      min_signed_def max_signed_def)

lemma oldest_ready_age:
  "age now (oldest_ready now s topic) =
     oldest_age now (waiting_since ` set (filter (\<lambda>a. act_available_at a \<le> now) (waiting_activities s topic)))"
  unfolding oldest_ready_def age_oldest ready_waiting set_map waiting_since_def [abs_def] ..

lemma oldest_active_age: "age now (oldest_active now s topic) = oldest_age now (attempt_starts s (slots_in_use now s topic))"
proof -
  have "set (map (\<lambda>(a, t). att_started_at t)
       (filter (\<lambda>(a, t). att_activity_id t = act_id a \<and> att_attempt_number t = act_attempt_count a \<and>
          act_topic a = topic \<and> slot_held now a) (List.product (activities s) (attempts s)))) =
      attempt_starts s (slots_in_use now s topic)"
    by (force simp: attempt_starts_def slots_in_use_def slot_held_def SLOT_HOLDERS_def sql_gt_def split: option.splits)
  then show ?thesis by (simp only: oldest_active_def age_oldest)
qed

lemma throughput_bucket:
  assumes "0 \<le> now" and "now < max_signed 64" and "i < 24"
  defines "opens \<equiv> (now div 3600000 - 23 + int i) * 3600000"
  shows "hourly_throughput (hourly_window_at now) seen topic ! i =
    \<lparr>hb_starts_at = opens,
     hb_completed_count = int (length (completed_between opens (min (opens + 3600000) (now + 1)) (seen i) topic))\<rparr>"
proof -
  have first: "hw_first_hour (hourly_window_at now) + int i * HOUR_MILLIS = opens"
    "hw_first_hour (hourly_window_at now) + int (Suc i) * HOUR_MILLIS = opens + 3600000"
    by (simp_all add: hourly_window_at_def hour_bucket_start_def HOUR_MILLIS_def HOURLY_BUCKET_COUNT_def opens_def algebra_simps)
  have "completed_in (hour_bucket_bounds (hourly_window_at now) i) (seen i) topic =
      int (length (completed_between opens (min (opens + 3600000) (now + 1)) (seen i) topic))"
    unfolding bucket_bounds [OF assms(1,2)] first
    by (auto simp: completed_in_def completed_between_def intro!: arg_cong [where f = length] filter_cong split: option.splits)
  with assms(3) first(1) show ?thesis
    by (simp add: hourly_throughput_def empty_hourly_throughput_def HOURLY_BUCKET_COUNT_def del: upt_rec_numeral)
qed

lemma throughput_length: "length (hourly_throughput window seen topic) = 24"
  by (simp add: hourly_throughput_def empty_hourly_throughput_def HOURLY_BUCKET_COUNT_def)

lemma throughput_total:
  assumes "0 \<le> now" and "now < max_signed 64" and "\<forall>i < 24. seen i = s"
  shows "sum_list (map hb_completed_count (hourly_throughput (hourly_window_at now) seen topic)) =
    int (length (completed_between ((now div 3600000 - 23) * 3600000) (now + 1) s topic))"
proof -
  let ?first = "hw_first_hour (hourly_window_at now)"
  have first: "?first = (now div 3600000 - 23) * 3600000"
    by (simp add: hourly_window_at_def hour_bucket_start_def HOUR_MILLIS_def HOURLY_BUCKET_COUNT_def)
  have start: "(now div 3600000 - 23 + int i) * 3600000 = ?first + int i * HOUR_MILLIS"
    "?first + int i * HOUR_MILLIS + 3600000 = ?first + int (Suc i) * HOUR_MILLIS" for i
    by (simp_all add: first HOUR_MILLIS_def algebra_simps)
  let ?in = "\<lambda>i a. act_topic a = topic \<and> (\<exists>t \<in> set_option (act_completed_at a).
    ?first + int i * HOUR_MILLIS \<le> t \<and> t < min (?first + int (Suc i) * HOUR_MILLIS) (now + 1))"
  let ?bucket = "\<lambda>a. nat ((the (act_completed_at a) - ?first) div HOUR_MILLIS)"
  have "sum_list (map hb_completed_count (hourly_throughput (hourly_window_at now) seen topic)) =
      (\<Sum>i < 24. int (length (filter (?in i) (activities s))))"
    unfolding sum_list_sum_nth atLeast0LessThan length_map throughput_length
  proof (intro sum.cong refl)
    fix i :: nat
    assume "i \<in> {..<24}"
    with assms(3) have "i < 24" "seen i = s" by auto
    then show "map hb_completed_count (hourly_throughput (hourly_window_at now) seen topic) ! i =
        int (length (filter (?in i) (activities s)))"
      by (simp only: nth_map throughput_length throughput_bucket [OF assms(1,2)] hourly_throughput_bucket.select_convs
          completed_between_def start)
  qed
  also have "\<dots> = int (\<Sum>i < 24. length (filter (?in i) (activities s)))" by simp
  also have "(\<Sum>i < 24. length (filter (?in i) (activities s))) = length (filter (\<lambda>a. \<exists>i < 24. ?in i a) (activities s))"
    by (rule sum_filters [where f = ?bucket]) (auto intro!: hours_cover(2) [OF assms(1,2)])
  also have "filter (\<lambda>a. \<exists>i < 24. ?in i a) (activities s) = completed_between ?first (now + 1) s topic"
  proof -
    have eq: "(\<exists>i < 24. ?in i a) \<longleftrightarrow> act_topic a = topic \<and> (\<exists>t \<in> set_option (act_completed_at a). ?first \<le> t \<and> t < now + 1)" for a
      using hours_cover(1) [OF assms(1,2), of "the (act_completed_at a)"] by (cases "act_completed_at a") auto
    show ?thesis unfolding completed_between_def by (intro filter_cong [OF refl]) (rule eq)
  qed
  finally show ?thesis by (simp only: first)
qed

lemma sort_dedup_length: "length (sort_dedup xs) \<le> length xs"
  by (metis length_sort remdups_adj_length sort_dedup_def)

lemma dead_letter_count_exact:
  assumes "topic \<in> set keys"
  shows "\<exists>read. (\<forall>a \<in> set (activities s). read a < length (activities s)) \<and>
    dead_letter_count keys s seen topic = int (length (open_dead_letters s (\<lambda>a. seen (read a)) topic))"
proof -
  let ?dead = "dead_letter_candidates keys s"
  let ?roots = "sort_dedup (map effective_root ?dead)"
  have few: "length ?roots \<le> length (activities s)"
    using sort_dedup_length [of "map effective_root ?dead"] length_filter_le [of _ "activities s"]
    by (auto simp: dead_letter_candidates_def intro: le_trans)
  have "\<forall>a \<in> set (activities s). \<exists>j < length (activities s). a \<in> set ?dead \<longrightarrow>
      (effective_root a \<in> load_resolved_activity_roots ?roots seen \<longleftrightarrow> chain_resolved (seen j) a)"
  proof
    fix a
    assume "a \<in> set (activities s)"
    then have "0 < length (activities s)" by auto
    moreover have "\<exists>j < length (activities s).
        effective_root a \<in> load_resolved_activity_roots ?roots seen \<longleftrightarrow> chain_resolved (seen j) a" if "a \<in> set ?dead"
      using that load_resolved_chain [of a ?roots seen] few by simp (meson less_le_trans)
    ultimately show "\<exists>j < length (activities s). a \<in> set ?dead \<longrightarrow>
        (effective_root a \<in> load_resolved_activity_roots ?roots seen \<longleftrightarrow> chain_resolved (seen j) a)"
      by blast
  qed
  then obtain read where read: "\<forall>a \<in> set (activities s). read a < length (activities s) \<and> (a \<in> set ?dead \<longrightarrow>
      (effective_root a \<in> load_resolved_activity_roots ?roots seen \<longleftrightarrow> chain_resolved (seen (read a)) a))"
    by metis
  moreover have "filter (\<lambda>a. act_topic a = topic \<and> effective_root a \<notin> load_resolved_activity_roots ?roots seen) ?dead =
      filter (\<lambda>a. act_topic a = topic \<and> \<not> chain_resolved (seen (read a)) a) ?dead"
    using read by (intro filter_cong) (auto simp: dead_letter_candidates_def)
  moreover have "\<dots> = open_dead_letters s (\<lambda>a. seen (read a)) topic"
    using assms by (auto simp: dead_letter_candidates_def open_dead_letters_def TERMINAL_def ws_is_terminal_iff intro!: filter_cong)
  ultimately show ?thesis by (auto simp: dead_letter_count_def Let_def)
qed

text \<open>The limit of a topic is the stored one, if there is one.\<close>

lemma map_of_rev_distinct: "distinct (map fst xs) \<Longrightarrow> map_of (rev xs) = map_of xs"
  by (rule map_of_eqI) (auto simp: rev_map [symmetric])

lemma stored_limit:
  assumes "persisted_caps keys s = Inr caps" and "distinct (map tl_topic (topic_locks s))" and "topic \<in> set keys"
  shows "map_of (rev caps) topic = map_of (map (\<lambda>r. (tl_topic r, tl_max_concurrency r)) (topic_locks s)) topic"
    and "map_of (rev caps) topic = Some cap \<Longrightarrow> cap \<le> max_u32"
proof -
  let ?rows = "filter (\<lambda>r. tl_topic r \<in> set keys) (topic_locks s)"
  let ?read = "\<lambda>r. case u32_try_from (tl_max_concurrency r) of
         None \<Rightarrow> Inl (InvalidState (''activity topic '' @ tl_topic r @ '' has invalid persisted concurrency limit '' @
             dec_int (tl_max_concurrency r)))
       | Some cap \<Rightarrow> Inr (tl_topic r, cap)"
  from collect_results_Inr [OF assms(1) [unfolded persisted_caps_def]] have "map ?read ?rows = map Inr caps" .
  then have "\<forall>r \<in> set ?rows. \<exists>c. ?read r = Inr c" by (metis (no_types, lifting) in_set_conv_nth length_map nth_map)
  then have fits: "\<forall>r \<in> set ?rows. u32_try_from (tl_max_concurrency r) = Some (tl_max_concurrency r) \<and> tl_max_concurrency r \<le> max_u32"
    by (fastforce simp: u32_try_from_def in_unsigned_def max_u32_def split: if_splits)
  then have "map ?read ?rows = map Inr (map (\<lambda>r. (tl_topic r, tl_max_concurrency r)) ?rows)" by auto
  with \<open>map ?read ?rows = map Inr caps\<close> have caps: "caps = map (\<lambda>r. (tl_topic r, tl_max_concurrency r)) ?rows"
    by (metis (no_types, lifting) inj_map_eq_map inj_Inr)
  from assms(2) have rev: "map_of (rev caps) = map_of caps"
    by (intro map_of_rev_distinct) (simp add: caps comp_def distinct_map_filter)
  have "map_of (map (\<lambda>r. (tl_topic r, tl_max_concurrency r)) (filter (\<lambda>r. tl_topic r \<in> set keys) rows)) topic =
      map_of (map (\<lambda>r. (tl_topic r, tl_max_concurrency r)) rows) topic" for rows
    using assms(3) by (induction rows) auto
  with caps rev show "map_of (rev caps) topic = map_of (map (\<lambda>r. (tl_topic r, tl_max_concurrency r)) (topic_locks s)) topic" by simp
  show "cap \<le> max_u32" if "map_of (rev caps) topic = Some cap"
    using that fits rev map_of_SomeD [of caps topic cap] by (auto simp: caps)
qed

lemma claim_candidates_ready:
  "length (claim_candidates definitions topic now s) =
     min 32 (length (filter (\<lambda>a. (act_kind a, act_version a) \<in> set definitions \<and> act_available_at a \<le> now)
       (waiting_activities s topic)))"
proof -
  have "filter (\<lambda>a. (act_kind a, act_version a) \<in> set definitions \<and> act_topic a = topic \<and>
            act_status a = AS_Pending \<and> act_available_at a \<le> now \<and>
            (\<exists>w \<in> set (workflows s). waits_for_activity (act_workflow_id a) (act_id a) w)) (activities s) =
      filter (\<lambda>a. (act_kind a, act_version a) \<in> set definitions \<and> act_available_at a \<le> now) (waiting_activities s topic)"
    unfolding waiting_activities_def filter_filter by (intro filter_cong refl) blast
  then show ?thesis by (simp add: claim_candidates_def CLAIM_CANDIDATE_SCAN_LIMIT_def)
qed

lemma metrics_item:
  assumes "list_topic_metrics_at K topics page now seen = Inr p" and "m \<in> set (pg_items p)"
  obtains d keys caps where "0 \<le> now" and "d \<in> set topics" and "td_key d \<in> set keys"
    and "persisted_caps keys (seen 0) = Inr caps" and "m = topic_metrics_item keys caps now seen d"
proof -
  from assms(1) obtain after limit where now: "0 \<le> now"
      and ds: "load_topic_metrics (take limit (filter (\<lambda>d. when_set after (\<lambda>a. td_key d > a)) (TopicRegistry_definitions topics)))
        now seen = Inr (pg_items p)" (is "load_topic_metrics ?ds now seen = _")
    by (auto simp: list_topic_metrics_at_def validate_now_def Let_def split: if_splits sum.splits)
  have member: "d \<in> set topics" if "d \<in> set ?ds" for d
    using that by (auto simp: TopicRegistry_definitions_def dest: in_set_takeD)
  from ds assms(2) obtain d caps where "d \<in> set ?ds" "persisted_caps (map td_key ?ds) (seen 0) = Inr caps"
      "m = topic_metrics_item (map td_key ?ds) caps now seen d"
    unfolding load_topic_metrics_def by (auto simp: Let_def dest!: sym [of _ "pg_items p"] split: if_splits sum.splits)
  with now member that [of d "map td_key ?ds" caps] show thesis by simp
qed

lemma available_capacity:
  assumes "0 \<le> active" and "limit \<le> max_u32"
  shows "max 0 (limit - (case u32_try_from active of None \<Rightarrow> max_u32 | Some n \<Rightarrow> n)) = max 0 (limit - active)"
  using assms by (auto simp: u32_try_from_def in_unsigned_def max_u32_def)

text \<open>
  C38: What the dashboard shows of a topic is what the tables hold. The queries run outside a
  transaction: each field of a metrics item is exact for the moment \<open>seen k\<close> at which its query ran.
  The limit is the stored one, or the configured one if none is stored, and a difference is flagged.
  Active are the slot holders with a live lease: what the worker's capacity check counts, less the
  executions this worker has not settled and whose lease has run out, which only the worker knows.
  The available capacity is what the limit leaves. Ready and scheduled for a retry are the pending
  activities their workflow waits for, due or not due after an attempt, and a scan of a
  worker that knows the definitions finds the ready ones, thirty-two at most. Dead letters are
  those of unfinished workflows no success of the same chain has resolved. The ages are those of
  the oldest ready activity and of the oldest running attempt. The twenty-four buckets are the
  hours up to the current one in order, each with the completions of its hour up to the captured
  instant, and together, read from one database, with every completion of the window once.
\<close>

theorem topic_metrics_are_exact:
  assumes returned: "list_topic_metrics_at K topics page now seen = Inr p" "m \<in> set (pg_items p)"
    and range: "now < max_signed 64" "\<forall>d \<in> set topics. td_max_concurrency d \<le> max_u32"
    and one_lock: "distinct (map tl_topic (topic_locks (seen 0)))"
  shows "(\<exists>d \<in> set topics. td_key d = tm_topic m \<and> td_max_concurrency d = tm_configured_max_concurrency m) \<and>
    tm_captured_at m = now \<and>
    (case map_of (map (\<lambda>r. (tl_topic r, tl_max_concurrency r)) (topic_locks (seen 0))) (tm_topic m) of
       None \<Rightarrow> tm_max_concurrency m = tm_configured_max_concurrency m \<and> tm_configuration_mismatch m
     | Some cap \<Rightarrow> tm_max_concurrency m = cap \<and> (tm_configuration_mismatch m \<longleftrightarrow> cap \<noteq> tm_configured_max_concurrency m)) \<and>
    tm_active_count m = int (length (slots_in_use now (seen 1) (tm_topic m))) \<and>
    int (in_flight (tm_topic m) unsettled now (seen 1)) =
      tm_active_count m + int (length (overrun_slots unsettled now (seen 1) (tm_topic m))) \<and>
    tm_available_capacity m = max 0 (tm_max_concurrency m - tm_active_count m) \<and>
    (let ready = filter (\<lambda>a. act_available_at a \<le> now) (waiting_activities (seen 3) (tm_topic m)) in
      tm_ready_count m = int (length ready) \<and> tm_oldest_ready_age_millis m = oldest_age now (waiting_since ` set ready)) \<and>
    ((\<forall>a \<in> set (activities (seen 3)). (act_kind a, act_version a) \<in> set definitions) \<longrightarrow>
      int (length (claim_candidates definitions (tm_topic m) now (seen 3))) = min 32 (tm_ready_count m)) \<and>
    tm_retry_scheduled_count m = int (length (filter (\<lambda>a. now < act_available_at a \<and> 0 < act_attempt_count a)
      (waiting_activities (seen 4) (tm_topic m)))) \<and>
    tm_oldest_active_age_millis m = oldest_age now (attempt_starts (seen 5) (slots_in_use now (seen 5) (tm_topic m))) \<and>
    (\<exists>read. (\<forall>a \<in> set (activities (seen 2)). read a < length (activities (seen 2))) \<and> tm_dead_letter_count m = int (length (open_dead_letters (seen 2) (\<lambda>a. seen (30 + read a)) (tm_topic m)))) \<and>
    length (tm_hourly_throughput m) = 24 \<and>
    (\<forall>i < 24. let opens = (now div 3600000 - 23 + int i) * 3600000 in tm_hourly_throughput m ! i =
      \<lparr>hb_starts_at = opens, hb_completed_count = int (length
         (completed_between opens (min (opens + 3600000) (now + 1)) (seen (6 + i)) (tm_topic m)))\<rparr>) \<and>
    ((\<forall>i < 24. seen (6 + i) = s) \<longrightarrow> sum_list (map hb_completed_count (tm_hourly_throughput m)) =
      int (length (completed_between ((now div 3600000 - 23) * 3600000) (now + 1) s (tm_topic m))))"
proof -
  from metrics_item [OF returned] obtain d keys caps where now: "0 \<le> now" and d: "d \<in> set topics" "td_key d \<in> set keys"
    and caps: "persisted_caps keys (seen 0) = Inr caps" and m: "m = topic_metrics_item keys caps now seen d" .
  note limit = stored_limit [OF caps one_lock d(2)]
  have "tm_max_concurrency m \<le> max_u32"
    using limit(2) range(2) d(1) by (auto simp: m topic_metrics_item_def Let_def split: option.splits)
  then have "tm_available_capacity m = max 0 (tm_max_concurrency m - tm_active_count m)"
    unfolding m topic_metrics_item_def Let_def topic_metrics.select_convs by (intro available_capacity) (simp_all add: topic_active_count_def)
  moreover have "filter (\<lambda>a. (act_kind a, act_version a) \<in> set definitions \<and> act_available_at a \<le> now)
      (waiting_activities (seen 3) (td_key d)) = filter (\<lambda>a. act_available_at a \<le> now) (waiting_activities (seen 3) (td_key d))"
    if "\<forall>a \<in> set (activities (seen 3)). (act_kind a, act_version a) \<in> set definitions"
    using that by (intro filter_cong refl) (auto simp: waiting_activities_def)
  moreover have fields: "tm_topic m = td_key d" "tm_captured_at m = now" "tm_configured_max_concurrency m = td_max_concurrency d"
    "tm_active_count m = int (length (slots_in_use now (seen 1) (td_key d)))"
    "tm_max_concurrency m = (case map_of (rev caps) (td_key d) of None \<Rightarrow> td_max_concurrency d | Some cap \<Rightarrow> cap)"
    "tm_configuration_mismatch m \<longleftrightarrow> map_of (rev caps) (td_key d) \<noteq> Some (td_max_concurrency d)"
    "tm_ready_count m = int (length (ready_activities now (seen 3) (td_key d)))"
    "tm_retry_scheduled_count m = retry_count now (seen 4) (td_key d)"
    "tm_dead_letter_count m = dead_letter_count keys (seen 2) (\<lambda>j. seen (30 + j)) (td_key d)"
    "tm_oldest_ready_age_millis m = age now (oldest_ready now (seen 3) (td_key d))"
    "tm_oldest_active_age_millis m = age now (oldest_active now (seen 5) (td_key d))"
    "tm_hourly_throughput m = hourly_throughput (hourly_window_at now) (\<lambda>i. seen (6 + i)) (td_key d)"
    by (simp_all add: m topic_metrics_item_def Let_def active_count_slots)
  moreover have "\<exists>read. (\<forall>a \<in> set (activities (seen 2)). read a < length (activities (seen 2))) \<and>
      tm_dead_letter_count m = int (length (open_dead_letters (seen 2) (\<lambda>a. seen (30 + read a)) (td_key d)))"
    using dead_letter_count_exact [OF d(2), of "seen 2" "\<lambda>j. seen (30 + j)"] unfolding fields by blast
  moreover note throughput_bucket [OF now range(1), of _ "\<lambda>i. seen (6 + i)" "td_key d"]
    throughput_total [OF now range(1), of "\<lambda>i. seen (6 + i)" s "td_key d"]
  ultimately show ?thesis
    unfolding fields(1)
    using d(1) by (auto simp: limit(1) in_flight_slots claim_candidates_ready ready_waiting retry_waiting oldest_ready_age
        oldest_active_age throughput_length Let_def of_nat_min split: option.splits)
qed

text \<open>
  A topic with a stored limit of three and a configured one of one. While the metrics are read
  the replacement of the dead letter six succeeds.
\<close>

definition sample_load :: db where
  "sample_load = sample_db\<lparr>activities := [sample_activity,
     sample_activity\<lparr>act_id := 2, act_status := AS_DeadLettered\<rparr>,
     sample_activity\<lparr>act_id := 3, act_status := AS_Running, act_lease_expires_at := Some 9000000\<rparr>,
     sample_activity\<lparr>act_id := 4, act_status := AS_Succeeded, act_completed_at := Some 3599999\<rparr>,
     sample_activity\<lparr>act_id := 5, act_status := AS_Succeeded, act_completed_at := Some 3600000\<rparr>,
     sample_activity\<lparr>act_id := 6, act_status := AS_DeadLettered\<rparr>,
     sample_activity\<lparr>act_id := 7, act_status := AS_Running, act_lease_expires_at := Some 90\<rparr>],
     topic_locks := [\<lparr>tl_topic = ''t'', tl_max_concurrency = 3, tl_updated_at = 0\<rparr>]\<rparr>"

definition sample_reads :: "nat \<Rightarrow> db" where
  "sample_reads k = (if k < 30 then sample_load else sample_load\<lparr>activities := activities sample_load @
     [sample_activity\<lparr>act_id := 8, act_root_activity_id := Some 6, act_status := AS_Succeeded\<rparr>]\<rparr>)"

theorem topic_metrics_are_exact_witness:
  "(case list_topic_metrics_at sample_codec [\<lparr>td_key = ''t'', td_max_concurrency = 1\<rparr>] \<lparr>pr_cursor = None, pr_limit = Some 5\<rparr>
       3700000 sample_reads of
      Inl _ \<Rightarrow> False
    | Inr p \<Rightarrow> let m = hd (pg_items p) in
        tm_max_concurrency m = 3 \<and> tm_configuration_mismatch m \<and> tm_active_count m = 1 \<and> tm_available_capacity m = 2 \<and>
        tm_ready_count m = 1 \<and> tm_dead_letter_count m = 1 \<and> tm_oldest_ready_age_millis m = Some 3699990 \<and>
        hb_completed_count (tm_hourly_throughput m ! 22) = 1 \<and>
        tm_hourly_throughput m ! 23 = \<lparr>hb_starts_at = 3600000, hb_completed_count = 1\<rparr> \<and>
        sum_list (map hb_completed_count (tm_hourly_throughput m)) = 2)"
proof -
  let ?topics = "[\<lparr>td_key = ''t'', td_max_concurrency = 1\<rparr>]"
  let ?r = "list_topic_metrics_at sample_codec ?topics \<lparr>pr_cursor = None, pr_limit = Some 5\<rparr> 3700000 sample_reads"
  define m where "m = topic_metrics_item [''t''] [(''t'', 3)] 3700000 sample_reads \<lparr>td_key = ''t'', td_max_concurrency = 1\<rparr>"
  have "persisted_caps [''t''] (sample_reads 0) = Inr [(''t'', 3)]" by code_simp
  then have run: "?r = Inr \<lparr>pg_items = [m], pg_next_cursor = None\<rparr>"
    by (simp add: list_topic_metrics_at_def load_topic_metrics_def validate_now_def bounded_limit_def MAX_ADMIN_PAGE_SIZE_def
        TopicRegistry_definitions_def next_page_cursor_def decode_optional_def when_set_def m_def)
  have topic: "tm_topic m = ''t''" "tm_configured_max_concurrency m = 1"
    by (simp_all add: m_def topic_metrics_item_def Let_def)
  have given: "(3700000 :: int) < max_signed 64" "\<forall>d \<in> set ?topics. td_max_concurrency d \<le> max_u32"
    "distinct (map tl_topic (topic_locks (sample_reads 0)))"
    by code_simp+
  have "m \<in> set (pg_items \<lparr>pg_items = [m], pg_next_cursor = None\<rparr>)" by simp
  note exact = topic_metrics_are_exact [OF run this given, of "[7]" "[(''charge'', 1)]" sample_load, unfolded topic]
  have roots: "sample_reads (30 + k) = sample_reads 30" for k by (simp add: sample_reads_def)
  have rows: "map_of (map (\<lambda>r. (tl_topic r, tl_max_concurrency r)) (topic_locks (sample_reads 0))) ''t'' = Some 3"
    "length (slots_in_use 3700000 (sample_reads 1) ''t'') = 1" "length (overrun_slots [7] 3700000 (sample_reads 1) ''t'') = 1"
    "map waiting_since (filter (\<lambda>a. act_available_at a \<le> 3700000) (waiting_activities (sample_reads 3) ''t'')) = [10]"
    "length (open_dead_letters (sample_reads 2) (\<lambda>_. sample_reads 30) ''t'') = 1"
    "length (completed_between 0 3600000 (sample_reads 28) ''t'') = 1"
    "length (completed_between 3600000 3700001 (sample_reads 29) ''t'') = 1"
    "length (completed_between ((1 - 23) * 3600000) 3700001 sample_load ''t'') = 2"
    by code_simp+
  have "tm_max_concurrency m = 3 \<and> tm_configuration_mismatch m \<and> tm_active_count m = 1 \<and> tm_available_capacity m = 2"
    using exact by (simp add: rows del: One_nat_def)
  moreover have "tm_ready_count m = 1 \<and> tm_oldest_ready_age_millis m = Some 3699990"
  proof -
    let ?ready = "filter (\<lambda>a. act_available_at a \<le> 3700000) (waiting_activities (sample_reads 3) ''t'')"
    have "tm_ready_count m = int (length ?ready)"
      "tm_oldest_ready_age_millis m = oldest_age 3700000 (waiting_since ` set ?ready)"
      using exact unfolding Let_def by blast+
    moreover have "length ?ready = 1" "waiting_since ` set ?ready = {10}"
      using arg_cong [OF rows(4), of length] arg_cong [OF rows(4), of set] by (simp_all del: set_filter)
    moreover have "oldest_age 3700000 {10} = Some 3699990" by (simp add: oldest_age_def max_signed_def)
    ultimately show ?thesis by (simp only: of_nat_1 simp_thms)
  qed
  moreover have "tm_dead_letter_count m = 1" using exact by (auto simp: roots rows(5))
  moreover have "tm_hourly_throughput m ! i = \<lparr>hb_starts_at = (int i - 22) * 3600000, hb_completed_count = int (length
      (completed_between ((int i - 22) * 3600000) (min ((int i - 22) * 3600000 + 3600000) 3700001) (sample_reads (6 + i)) ''t''))\<rparr>"
    if "i < 24" for i
    using exact that by (simp add: Let_def)
  note this [of 22] this [of 23]
  moreover have "sum_list (map hb_completed_count (tm_hourly_throughput m)) = 2"
    using exact rows(8) by (simp add: sample_reads_def)
  ultimately have "tm_max_concurrency m = 3 \<and> tm_configuration_mismatch m \<and> tm_active_count m = 1 \<and> tm_available_capacity m = 2 \<and>
        tm_ready_count m = 1 \<and> tm_dead_letter_count m = 1 \<and> tm_oldest_ready_age_millis m = Some 3699990 \<and>
        hb_completed_count (tm_hourly_throughput m ! 22) = 1 \<and>
        tm_hourly_throughput m ! 23 = \<lparr>hb_starts_at = 3600000, hb_completed_count = 1\<rparr> \<and>
        sum_list (map hb_completed_count (tm_hourly_throughput m)) = 2"
    using rows(6,7) by simp
  then show ?thesis by (simp add: run Let_def)
qed

end
