(* ===== verification/Admin_Lists.thy ===== *)
theory Admin_Lists
  imports Topic_Metrics Schedules
begin

text \<open>
  The operator's lists of schedules, of the runs of a schedule and of approvals
  (\<open>src/admin/metrics.rs\<close>). The list of schedules merges what this process has registered with
  what the database stores: the process compares keys by their bytes, the database by the collation
  of the column, which is the parameter \<open>rank\<close>, the sort key of a text.
\<close>

section \<open>Summaries\<close>

record schedule_state_summary =
  sss_definition_fingerprint :: string
  sss_definition_version :: i32
  sss_next_local_occurrence :: string
  sss_next_occurrence_at :: i64
  sss_last_materialized_at :: "i64 option"
  sss_paused_at :: "i64 option"
  sss_paused_by :: "i32 option"
  sss_pause_reason :: "string option"
  sss_created_at :: i64
  sss_updated_at :: i64

datatype schedule_health_issue = MissingState | UnregisteredState | DefinitionMismatch i32 i32

record schedule_run_projection =
  srj_id :: i64
  srj_schedule_key :: string
  srj_local_occurrence :: string
  srj_scheduled_for :: db_millis
  srj_materialized_at :: db_millis
  srj_status :: schedule_run_status
  srj_reason :: "string option"
  srj_actor_id :: "i32 option"
  srj_workflow_id :: "i64 option"
  srj_created_at :: db_millis
  srj_workflow_status :: "workflow_status option"
  srj_workflow_completed_at :: "db_millis option"

record schedule_run_summary =
  srs_id :: i64
  srs_schedule_key :: string
  srs_local_occurrence :: string
  srs_scheduled_for :: i64
  srs_materialized_at :: i64
  srs_status :: string
  srs_reason :: "string option"
  srs_actor_id :: "i32 option"
  srs_workflow_id :: "i64 option"
  srs_workflow_status :: "string option"
  srs_workflow_completed_at :: "i64 option"
  srs_created_at :: i64

record schedule_summary =
  ssm_key :: string
  ssm_registered_version :: "i32 option"
  ssm_registered_fingerprint :: "string option"
  ssm_cron :: "string option"
  ssm_timezone :: "string option"
  ssm_misfire :: "misfire_policy option"
  ssm_overlap :: "overlap_policy option"
  ssm_misfire_grace_millis :: "i64 option"
  ssm_state :: "schedule_state_summary option"
  ssm_active_overlap_count :: u64
  ssm_skipped_count :: u64
  ssm_coalesced_count :: u64
  ssm_last_run :: "schedule_run_summary option"
  ssm_recent_runs :: "schedule_run_summary list"
  ssm_health_issues :: "schedule_health_issue list"

definition MAX_RECENT_SCHEDULE_RUNS :: u32 where
  "MAX_RECENT_SCHEDULE_RUNS = 20"

definition schedule_state_summary_of :: "schedule_state_row \<Rightarrow> schedule_state_summary" where
  "schedule_state_summary_of row =
     \<lparr>sss_definition_fingerprint = sch_definition_fingerprint row, sss_definition_version = sch_definition_version row,
      sss_next_local_occurrence = sch_next_local_occurrence row, sss_next_occurrence_at = sch_next_occurrence_at row,
      sss_last_materialized_at = sch_last_materialized_at row, sss_paused_at = sch_paused_at row,
      sss_paused_by = sch_paused_by row, sss_pause_reason = sch_pause_reason row,
      sss_created_at = sch_created_at row, sss_updated_at = sch_updated_at row\<rparr>"

definition schedule_run_summary_of :: "schedule_run_projection \<Rightarrow> durable_error + schedule_run_summary" where
  "schedule_run_summary_of row =
     Inr \<lparr>srs_id = srj_id row, srs_schedule_key = srj_schedule_key row, srs_local_occurrence = srj_local_occurrence row,
      srs_scheduled_for = srj_scheduled_for row, srs_materialized_at = srj_materialized_at row,
      srs_status = schedule_run_status_as_str (srj_status row), srs_reason = srj_reason row,
      srs_actor_id = srj_actor_id row, srs_workflow_id = srj_workflow_id row,
      srs_workflow_status = map_option workflow_status_as_str (srj_workflow_status row),
      srs_workflow_completed_at = srj_workflow_completed_at row, srs_created_at = srj_created_at row\<rparr>"

definition nonnegative_count :: "i64 \<Rightarrow> durable_error + u64" where
  "nonnegative_count n = (if n < 0 then Inl (InvalidState ''negative aggregate count'') else Inr n)"

section \<open>Runs of a schedule\<close>

text \<open>The columns of a run and of the workflow its \<open>LEFT JOIN\<close> finds.\<close>

definition schedule_run_selection :: "db \<Rightarrow> schedule_run_row \<Rightarrow> schedule_run_projection" where
  "schedule_run_selection s r =
     (let workflow = Option.bind (run_workflow_id r) (workflow_by_id s) in
      \<lparr>srj_id = run_id r, srj_schedule_key = run_schedule_key r, srj_local_occurrence = run_local_occurrence r,
       srj_scheduled_for = run_scheduled_for r, srj_materialized_at = run_materialized_at r, srj_status = run_status r,
       srj_reason = run_reason r, srj_actor_id = run_actor_id r, srj_workflow_id = run_workflow_id r,
       srj_created_at = run_created_at r, srj_workflow_status = map_option wf_status workflow,
       srj_workflow_completed_at = Option.bind workflow wf_completed_at\<rparr>)"

definition load_schedule_runs ::
    "string \<Rightarrow> (i64 \<times> i64) option \<Rightarrow> u32 \<Rightarrow> db \<Rightarrow> durable_error + schedule_run_summary list" where
  "load_schedule_runs schedule_key cursor limit s =
     collect_results (map schedule_run_summary_of (map (schedule_run_selection s) (take (nat limit)
       (sort_key (\<lambda>r. (- run_scheduled_for r, - run_id r))
         (filter (\<lambda>r. run_schedule_key r = schedule_key \<and>
            when_set cursor (\<lambda>p. older_than p (run_scheduled_for r) (run_id r))) (schedule_runs s))))))"

definition list_schedule_runs ::
    "cursor_codec \<Rightarrow> string \<Rightarrow> page_request \<Rightarrow> db \<Rightarrow> durable_error + schedule_run_summary admin_page" where
  "list_schedule_runs K schedule_key page s =
     (case bounded_limit page MAX_ADMIN_PAGE_SIZE of
        Inl e \<Rightarrow> Inl e
      | Inr limit \<Rightarrow>
     (let scope = scoped_cursor_scope ''schedule_runs'' schedule_key in
      case decode_optional (decode_numeric_cursor K scope) (pr_cursor page) of
        Inl e \<Rightarrow> Inl e
      | Inr cursor \<Rightarrow>
          if schedule_state_by_key s schedule_key = None then Inl (not_found ''schedule'' schedule_key)
          else
     (case load_schedule_runs schedule_key cursor (limit + 1) s of
        Inl e \<Rightarrow> Inl e
      | Inr rows0 \<Rightarrow>
          let has_more = length rows0 > nat limit; rows = take (nat limit) rows0 in
          case next_page_cursor K scope
                 (\<lambda>run. \<lparr>cp_timestamp = srs_scheduled_for run, cp_tie_breaker = dec_int (srs_id run)\<rparr>) has_more rows of
            Inl e \<Rightarrow> Inl e
          | Inr next_cursor \<Rightarrow> Inr \<lparr>pg_items = rows, pg_next_cursor = next_cursor\<rparr>)))"

definition schedule_counts :: "string \<Rightarrow> db \<Rightarrow> durable_error + u64 \<times> u64 \<times> u64" where
  "schedule_counts schedule_key s =
     (let of_key = filter (\<lambda>r. run_schedule_key r = schedule_key) (schedule_runs s);
          active = int (length (concat (map (\<lambda>w. filter (\<lambda>r. wf_schedule_run_id w = Some (run_id r)) of_key)
            (filter (\<lambda>w. wf_status w \<notin> set TERMINAL) (workflows s)))));
          skipped = int (length (filter (\<lambda>r. run_status r = SR_Skipped) of_key));
          coalesced = int (length (filter (\<lambda>r. run_status r = SR_Coalesced) of_key))
      in case nonnegative_count active of
           Inl e \<Rightarrow> Inl e
         | Inr a \<Rightarrow>
        (case nonnegative_count skipped of
           Inl e \<Rightarrow> Inl e
         | Inr k \<Rightarrow>
        (case nonnegative_count coalesced of Inl e \<Rightarrow> Inl e | Inr c \<Rightarrow> Inr (a, k, c))))"

section \<open>Schedules\<close>

definition schedule_health_issues ::
    "schedule_metadata option \<Rightarrow> schedule_state_row option \<Rightarrow> schedule_health_issue list" where
  "schedule_health_issues definition state =
     (case (definition, state) of
        (Some _, None) \<Rightarrow> [MissingState]
      | (None, Some _) \<Rightarrow> [UnregisteredState]
      | (Some d, Some r) \<Rightarrow>
          if sm_version d \<noteq> sch_definition_version r \<or> sm_fingerprint d \<noteq> sch_definition_fingerprint r
          then [DefinitionMismatch (sm_version d) (sch_definition_version r)] else []
      | (None, None) \<Rightarrow> [])"

definition schedule_item :: "schedule_registry \<Rightarrow> u32 \<Rightarrow> db \<Rightarrow> string \<Rightarrow> durable_error + schedule_summary" where
  "schedule_item R recent_run_limit s key =
     (let definition = map_option rs_metadata (R key); state = schedule_state_by_key s key in
      case load_schedule_runs key None recent_run_limit s of
        Inl e \<Rightarrow> Inl e
      | Inr recent_runs \<Rightarrow>
     (case schedule_counts key s of
        Inl e \<Rightarrow> Inl e
      | Inr (active, skipped, coalesced) \<Rightarrow>
          Inr \<lparr>ssm_key = key, ssm_registered_version = map_option sm_version definition,
               ssm_registered_fingerprint = map_option sm_fingerprint definition,
               ssm_cron = map_option sm_cron definition, ssm_timezone = map_option sm_timezone definition,
               ssm_misfire = map_option sm_misfire definition, ssm_overlap = map_option sm_overlap definition,
               ssm_misfire_grace_millis = map_option sm_misfire_grace_millis definition,
               ssm_state = map_option schedule_state_summary_of state,
               ssm_active_overlap_count = active, ssm_skipped_count = skipped, ssm_coalesced_count = coalesced,
               ssm_last_run = (case recent_runs of [] \<Rightarrow> None | run # _ \<Rightarrow> Some run),
               ssm_recent_runs = recent_runs,
               ssm_health_issues = schedule_health_issues definition state\<rparr>))"

text \<open>\<open>registered\<close> are the keys of \<open>definitions()\<close>.\<close>

definition list_schedules ::
    "(string \<Rightarrow> 'k::linorder) \<Rightarrow> cursor_codec \<Rightarrow> schedule_registry \<Rightarrow> string list \<Rightarrow> page_request \<Rightarrow> u32 \<Rightarrow> db \<Rightarrow>
     durable_error + schedule_summary admin_page" where
  "list_schedules rank K R registered page recent_run_limit s =
     (if recent_run_limit = 0 \<or> recent_run_limit > MAX_RECENT_SCHEDULE_RUNS
      then Inl (InvalidDefinition (''recent schedule run limit must contain 1 to '' @ dec_int MAX_RECENT_SCHEDULE_RUNS @ '' entries''))
      else
     (case bounded_limit page MAX_ADMIN_PAGE_SIZE of
        Inl e \<Rightarrow> Inl e
      | Inr limit \<Rightarrow>
     (case decode_optional (decode_string_cursor K ''schedules'') (pr_cursor page) of
        Inl e \<Rightarrow> Inl e
      | Inr after \<Rightarrow>
          let persisted_keys = take (nat limit + 1) (sort_key rank
                (filter (\<lambda>k. when_set after (\<lambda>a. rank k > rank a)) (map sch_schedule_key (schedule_states s))));
              keys0 = sort_dedup (filter (\<lambda>k. when_set after (\<lambda>a. k > a)) registered @ persisted_keys);
              has_more = length keys0 > nat limit;
              keys = take (nat limit) keys0
          in case next_page_cursor K ''schedules'' (\<lambda>k. \<lparr>cp_timestamp = 0, cp_tie_breaker = k\<rparr>) has_more keys of
               Inl e \<Rightarrow> Inl e
             | Inr next_cursor \<Rightarrow>
                 (case collect_results (map (schedule_item R recent_run_limit s) keys) of
                    Inl e \<Rightarrow> Inl e
                  | Inr items \<Rightarrow> Inr \<lparr>pg_items = items, pg_next_cursor = next_cursor\<rparr>))))"

section \<open>Approvals\<close>

record approval_list_filter =
  plf_page :: page_request
  plf_workflow_id :: "i64 option"
  plf_kind :: "string option"
  plf_version :: "i32 option"
  plf_status :: "string option"
  plf_requested_after :: "i64 option"
  plf_requested_before :: "i64 option"

definition validate_approval_filter :: "approval_list_filter \<Rightarrow> durable_error + unit" where
  "validate_approval_filter filters =
     (if \<not> when_set (plf_version filters) (\<lambda>version. version > 0)
      then Inl (InvalidDefinition ''approval version filter must be positive'')
      else (case (plf_requested_after filters, plf_requested_before filters) of
              (Some after, Some before) \<Rightarrow>
                if after \<ge> before then Inl (InvalidDefinition ''requestedAfter must precede requestedBefore'') else Inr ()
            | _ \<Rightarrow> Inr ()))"

text \<open>A pending approval past its expiry counts as expired, before and after the expiry is materialized.\<close>

definition approval_status_selected :: "db_millis \<Rightarrow> string \<Rightarrow> approval_row \<Rightarrow> bool" where
  "approval_status_selected now status r =
     (case approval_status_try_from status of
        Inr AP_Expired \<Rightarrow> apr_status r = AP_Expired \<or> apr_status r = AP_Pending \<and> sql_le (apr_expires_at r) now
      | Inr AP_Pending \<Rightarrow> apr_status r = AP_Pending \<and> (apr_expires_at r = None \<or> sql_gt (apr_expires_at r) now)
      | Inr other \<Rightarrow> apr_status r = other
      | Inl _ \<Rightarrow> approval_status_as_str (apr_status r) = status)"

definition approval_selected :: "approval_list_filter \<Rightarrow> db_millis \<Rightarrow> approval_row \<Rightarrow> bool" where
  "approval_selected filters now r \<longleftrightarrow>
     when_set (plf_workflow_id filters) (\<lambda>i. apr_workflow_id r = i) \<and>
     when_set (plf_kind filters) (\<lambda>kind. apr_kind r = kind) \<and>
     when_set (plf_version filters) (\<lambda>version. apr_version r = version) \<and>
     when_set (plf_status filters) (\<lambda>status. approval_status_selected now status r) \<and>
     when_set (plf_requested_after filters) (\<lambda>after. apr_requested_at r \<ge> after) \<and>
     when_set (plf_requested_before filters) (\<lambda>before. apr_requested_at r < before)"

definition effective_status :: "db_millis \<Rightarrow> approval_status \<Rightarrow> db_millis option \<Rightarrow> approval_status" where
  "effective_status now status expires_at =
     (if status = AP_Pending \<and> (case expires_at of None \<Rightarrow> False | Some expiry \<Rightarrow> expiry \<le> now)
      then AP_Expired else status)"

definition json_summary :: "i64 option \<Rightarrow> durable_error + 'j json_field_summary" where
  "json_summary bytes =
     (case bytes of
        Some n \<Rightarrow>
          if n < 0 then Inl (InvalidState ''negative persisted JSON byte length'')
          else Inr \<lparr>jf_present = True, jf_bytes = n, jf_value = None\<rparr>
      | None \<Rightarrow> Inr \<lparr>jf_present = False, jf_bytes = 0, jf_value = None\<rparr>)"

definition approval_summary_at :: "db_millis \<Rightarrow> approval_projection \<Rightarrow> durable_error + 'j approval_summary" where
  "approval_summary_at now row =
     (case json_summary (pp_decision_bytes row) of
        Inl e \<Rightarrow> Inl e
      | Inr decision \<Rightarrow>
        Inr \<lparr>aps_id = pp_id row, aps_workflow_id = pp_workflow_id row, aps_kind = pp_kind row,
             aps_version = pp_version row,
             aps_status = approval_status_as_str (effective_status now (pp_status row) (pp_expires_at row)),
             aps_decision = decision, aps_decided_by = pp_decided_by row,
             aps_operator_reason = pp_operator_reason row, aps_requested_at = pp_requested_at row,
             aps_expires_at = pp_expires_at row, aps_resolved_at = pp_resolved_at row\<rparr>)"

definition list_approvals_at ::
    "cursor_codec \<Rightarrow> approval_list_filter \<Rightarrow> db_millis \<Rightarrow> db \<Rightarrow> durable_error + 'j approval_summary admin_page" where
  "list_approvals_at K filters now s =
     (case validate_now now of
        Inl e \<Rightarrow> Inl e
      | Inr _ \<Rightarrow>
     (case validate_approval_filter filters of
        Inl e \<Rightarrow> Inl e
      | Inr _ \<Rightarrow>
     (case bounded_limit (plf_page filters) MAX_ADMIN_PAGE_SIZE of
        Inl e \<Rightarrow> Inl e
      | Inr limit \<Rightarrow>
     (case decode_optional (decode_numeric_cursor K ''approvals'') (pr_cursor (plf_page filters)) of
        Inl e \<Rightarrow> Inl e
      | Inr cursor \<Rightarrow>
          let rows0 = map approval_selection (take (nat limit + 1)
                (sort_key (\<lambda>r. (- apr_requested_at r, - apr_id r))
                  (filter (\<lambda>r. approval_selected filters now r \<and>
                     when_set cursor (\<lambda>p. older_than p (apr_requested_at r) (apr_id r))) (approvals s))));
              has_more = length rows0 > nat limit;
              rows = take (nat limit) rows0
          in case next_page_cursor K ''approvals''
                 (\<lambda>row. \<lparr>cp_timestamp = pp_requested_at row, cp_tie_breaker = dec_int (pp_id row)\<rparr>) has_more rows of
               Inl e \<Rightarrow> Inl e
             | Inr next_cursor \<Rightarrow>
                 (case collect_results (map (approval_summary_at now) rows) of
                    Inl e \<Rightarrow> Inl e
                  | Inr items \<Rightarrow> Inr \<lparr>pg_items = items, pg_next_cursor = next_cursor\<rparr>)))))"

definition list_approvals :: "cursor_codec \<Rightarrow> approval_list_filter \<Rightarrow> 'j approval_summary admin_page dtx" where
  "list_approvals K filters =
     tx_bind database_now_millis (\<lambda>now.
     tx_bind (tx_query (list_approvals_at K filters now)) tx_lift)"

section \<open>The lists are keysets\<close>

abbreviation run_position :: "schedule_run_row \<Rightarrow> cursor_position" where
  "run_position r \<equiv> \<lparr>cp_timestamp = run_scheduled_for r, cp_tie_breaker = dec_int (run_id r)\<rparr>"

abbreviation approval_position :: "approval_row \<Rightarrow> cursor_position" where
  "approval_position r \<equiv> \<lparr>cp_timestamp = apr_requested_at r, cp_tie_breaker = dec_int (apr_id r)\<rparr>"

abbreviation key_position :: "string \<Rightarrow> cursor_position" where
  "key_position k \<equiv> \<lparr>cp_timestamp = 0, cp_tie_breaker = k\<rparr>"

interpretation run_list: keyset "\<lambda>r. (- run_scheduled_for r, - run_id r)" run_position decode_numeric_cursor
    "\<lambda>p r. older_than p (run_scheduled_for r) (run_id r)" "\<lambda>r. wire_id (run_id r)"
  by unfold_locales (auto simp: dec_int_tie_breaker newest_first dest!: decode_numeric_written)

interpretation approval_list: keyset "\<lambda>r. (- apr_requested_at r, - apr_id r)" approval_position decode_numeric_cursor
    "\<lambda>p r. older_than p (apr_requested_at r) (apr_id r)" "\<lambda>r. wire_id (apr_id r)"
  by unfold_locales (auto simp: dec_int_tie_breaker newest_first dest!: decode_numeric_written)

interpretation schedule_list: keyset "\<lambda>k. k" key_position decode_string_cursor "\<lambda>a k. k > a"
    "\<lambda>k. k \<noteq> [] \<and> length k \<le> 191"
  by unfold_locales (auto simp: validate_tie_breaker_def decode_string_cursor_def)

section \<open>Merging registered and stored keys\<close>

lemma sort_dedup_unique:
  assumes "distinct xs" and "set xs = set ys"
  shows "sort_dedup ys = sort xs"
proof (rule sorted_distinct_set_unique)
  show "sorted (sort_dedup ys)" "distinct (sort_dedup ys)"
    using sort_dedup_strict [of ys] by (auto simp: strict_sorted_iff)
qed (use assms in auto)

text \<open>The first keys of the union are among the registered ones and the first stored ones.\<close>

lemma merged_keys:
  assumes "distinct as" and "distinct bs"
  shows "take m (sort_dedup (as @ take m (sort bs))) = take m (sort_dedup (as @ bs))"
proof -
  let ?new = "filter (\<lambda>b. b \<notin> set as)"
  let ?b1 = "take m (sort bs)" and ?b2 = "drop m (sort bs)"
  have b: "set ?b1 \<union> set ?b2 = set bs" by (metis append_take_drop_id set_append set_sort)
  have "distinct (?b1 @ ?b2)" using assms(2) by (simp add: append_take_drop_id)
  then have d: "distinct ?b1" "distinct ?b2" "set ?b1 \<inter> set ?b2 = {}" unfolding distinct_append by blast+
  then have "distinct (map (\<lambda>k. k) ((as @ ?new ?b1) @ ?new ?b2))" using assms(1) by auto
  moreover have "m \<le> length (filter (\<lambda>a. a < b) (as @ ?new ?b1))" if "b \<in> set (?new ?b2)" for b
  proof -
    from that obtain j where j: "b = sort bs ! (m + j)" "m + j < length bs" by (auto simp: in_set_conv_nth)
    have strict: "sorted_wrt (<) (sort bs)" using assms(2) by (simp add: strict_sorted_iff)
    have "\<forall>a \<in> set ?b1. a < b"
      using strict j by (auto simp: in_set_conv_nth sorted_wrt_iff_nth_less)
    then have "set ?b1 \<subseteq> set (filter (\<lambda>a. a < b) (as @ ?new ?b1))" by auto
    then have "card (set ?b1) \<le> card (set (filter (\<lambda>a. a < b) (as @ ?new ?b1)))" by (intro card_mono) auto
    also have "\<dots> \<le> length (filter (\<lambda>a. a < b) (as @ ?new ?b1))" by (rule card_length)
    finally show ?thesis using d(1) j(2) by (simp add: distinct_card)
  qed
  ultimately have "take m (sort ((as @ ?new ?b1) @ ?new ?b2)) = take m (sort (as @ ?new ?b1))"
    using take_sort_drop [of "\<lambda>k. k"] by blast
  moreover have "sort_dedup (as @ bs) = sort ((as @ ?new ?b1) @ ?new ?b2)"
    using assms(1) d b by (intro sort_dedup_unique) auto
  moreover have "sort_dedup (as @ ?b1) = sort (as @ ?new ?b1)"
    using assms(1) d by (intro sort_dedup_unique) auto
  ultimately show ?thesis by simp
qed

lemma serve_cut:
  assumes "take (Suc n) xs = take (Suc n) ys"
  shows "serve_page K scope position n render xs = serve_page K scope position n render ys"
proof -
  have "n < length xs \<longleftrightarrow> n < length ys" using arg_cong [OF assms, of length] by (auto simp: min_def split: if_splits)
  moreover have "take n xs = take n ys" using arg_cong [OF assms, of "take n"] by simp
  ultimately show ?thesis by (simp only: serve_page_def)
qed

section \<open>Following the lists to their end\<close>

definition run_view :: "db \<Rightarrow> schedule_run_row \<Rightarrow> schedule_run_summary" where
  "run_view s r = projr (schedule_run_summary_of (schedule_run_selection s r))"

definition schedule_view :: "schedule_registry \<Rightarrow> u32 \<Rightarrow> db \<Rightarrow> string \<Rightarrow> schedule_summary" where
  "schedule_view R recent_run_limit s key = projr (schedule_item R recent_run_limit s key)"

definition approval_view :: "db_millis \<Rightarrow> approval_row \<Rightarrow> 'j approval_summary" where
  "approval_view now r = projr (approval_summary_at now (approval_selection r))"

lemma run_view: "schedule_run_summary_of (schedule_run_selection s r) = Inr (run_view s r)"
  by (simp add: run_view_def schedule_run_summary_of_def)

lemma run_view_position:
  "srs_scheduled_for (run_view s r) = run_scheduled_for r" "srs_id (run_view s r) = run_id r"
  by (simp_all add: run_view_def schedule_run_summary_of_def schedule_run_selection_def Let_def)

lemma load_schedule_runs_view:
  "load_schedule_runs key cursor limit s = Inr (map (run_view s) (take (nat limit)
     (sort_key (\<lambda>r. (- run_scheduled_for r, - run_id r))
       (filter (\<lambda>r. run_schedule_key r = key \<and> when_set cursor (\<lambda>p. older_than p (run_scheduled_for r) (run_id r)))
         (schedule_runs s)))))"
  by (simp add: load_schedule_runs_def comp_def run_view collect_results_values)

lemma schedule_view: "schedule_item R recent_run_limit s key = Inr (schedule_view R recent_run_limit s key)"
  by (simp add: schedule_view_def schedule_item_def load_schedule_runs_view schedule_counts_def nonnegative_count_def Let_def)

lemma schedule_rows:
  "collect_results (map (schedule_item R recent_run_limit s) keys) = Inr (map (schedule_view R recent_run_limit s) keys)"
  by (induction keys) (simp_all add: schedule_view)

lemma json_summary_length:
  "json_summary (map_option octet_length u) =
     Inr \<lparr>jf_present = u \<noteq> None, jf_bytes = (case u of None \<Rightarrow> 0 | Some t \<Rightarrow> int (length t)), jf_value = None\<rparr>"
  by (cases u) (simp_all add: json_summary_def octet_length_def)

lemma approval_view: "approval_summary_at now (approval_selection r) = Inr (approval_view now r)"
  by (simp add: approval_view_def approval_summary_at_def approval_selection_def json_summary_length)

lemma approval_rows:
  "collect_results (map (approval_summary_at now) (map approval_selection rows)) = Inr (map (approval_view now) rows)"
  by (simp add: comp_def approval_view collect_results_values)

lemma page_cut_take:
  "take n (map f (take (Suc n) xs)) = map f (take n xs)" "n < length (map f (take (Suc n) xs)) \<longleftrightarrow> n < length xs"
  by (auto simp: take_map)

lemma run_list_served:
  assumes "bounded_limit page MAX_ADMIN_PAGE_SIZE = Inr limit" and "0 \<le> limit" and "schedule_state_by_key s key \<noteq> None"
  shows "run_list.served K (scoped_cursor_scope ''schedule_runs'' key) (nat limit) (run_view s)
    (filter (\<lambda>r. run_schedule_key r = key) (schedule_runs s))
    (\<lambda>c. list_schedule_runs K key (page\<lparr>pr_cursor := c\<rparr>) s)"
proof -
  have "bounded_limit (page\<lparr>pr_cursor := c\<rparr>) MAX_ADMIN_PAGE_SIZE = Inr limit" for c
    using assms(1) by (simp add: bounded_limit_def)
  moreover have "nat (limit + 1) = Suc (nat limit)" using assms(2) by simp
  moreover have "next_page_cursor K scope (\<lambda>run. \<lparr>cp_timestamp = srs_scheduled_for run, cp_tie_breaker = dec_int (srs_id run)\<rparr>)
      b (map (run_view s) rows) = next_page_cursor K scope run_position b rows" for scope b rows
    by (simp add: next_page_cursor_def last_map run_view_position)
  ultimately show ?thesis using assms(3)
    unfolding run_list.served_def list_schedule_runs_def
    by (auto simp: load_schedule_runs_view Let_def page_cut_take serve_page_def decode_optional_def when_set_def
        conj_commute simp del: take_map length_map length_take simp flip: filter_filter split: sum.split)
qed

lemma approval_list_served:
  assumes "bounded_limit (plf_page filters) MAX_ADMIN_PAGE_SIZE = Inr limit" and "validate_approval_filter filters = Inr ()"
    and "validate_now now = Inr ()"
  shows "approval_list.served K ''approvals'' (nat limit) (approval_view now)
    (filter (approval_selected filters now) (approvals s))
    (\<lambda>c. list_approvals_at K (filters\<lparr>plf_page := (plf_page filters)\<lparr>pr_cursor := c\<rparr>\<rparr>) now s)"
proof -
  have "bounded_limit ((plf_page filters)\<lparr>pr_cursor := c\<rparr>) MAX_ADMIN_PAGE_SIZE = Inr limit"
    "validate_approval_filter (filters\<lparr>plf_page := page\<rparr>) = Inr ()"
    "approval_selected (filters\<lparr>plf_page := page\<rparr>) = approval_selected filters" for c page
    using assms by (auto simp: bounded_limit_def validate_approval_filter_def approval_selected_def fun_eq_iff split: if_splits option.splits)
  moreover have "next_page_cursor K scope (\<lambda>row. \<lparr>cp_timestamp = pp_requested_at row, cp_tie_breaker = dec_int (pp_id row)\<rparr>)
      b (map approval_selection rows) = next_page_cursor K scope approval_position b rows" for scope b rows
    by (simp add: next_page_cursor_def last_map approval_selection_def)
  ultimately show ?thesis using assms(3)
    unfolding approval_list.served_def list_approvals_at_def
    by (auto simp: Let_def approval_rows page_cut_take serve_page_def decode_optional_def when_set_def
        conj_commute simp del: take_map length_map length_take map_map simp flip: filter_filter split: sum.split)
qed

lemma schedule_list_served:
  assumes "bounded_limit page MAX_ADMIN_PAGE_SIZE = Inr limit" and "0 \<le> limit"
    and "0 < recent" "recent \<le> MAX_RECENT_SCHEDULE_RUNS"
    and "distinct registered" and "distinct (map sch_schedule_key (schedule_states s))"
    and rank: "\<And>x y. rank x < rank y \<longleftrightarrow> x < y"
  shows "schedule_list.served K ''schedules'' (nat limit) (schedule_view R recent s)
    (sort_dedup (registered @ map sch_schedule_key (schedule_states s)))
    (\<lambda>c. list_schedules rank K R registered (page\<lparr>pr_cursor := c\<rparr>) recent s)"
proof -
  let ?stored = "map sch_schedule_key (schedule_states s)" and ?all = "sort_dedup (registered @ map sch_schedule_key (schedule_states s))"
  have limit: "bounded_limit (page\<lparr>pr_cursor := c\<rparr>) MAX_ADMIN_PAGE_SIZE = Inr limit" for c
    using assms(1) by (simp add: bounded_limit_def)
  have byte_order: "sort_key rank ks = sort ks" for ks
    by (rule sort_key_agree) (simp add: rank flip: not_less)
  have keys: "serve_page K ''schedules'' key_position (nat limit) (schedule_view R recent s)
      (sort_dedup (filter P registered @ take (Suc (nat limit)) (sort (filter P ?stored)))) =
    serve_page K ''schedules'' key_position (nat limit) (schedule_view R recent s) (sort (filter P ?all))" for P
  proof (rule serve_cut)
    have "sort_dedup (filter P registered @ filter P ?stored) = sort (filter P ?all)"
      using sort_dedup_strict [of "registered @ ?stored"] by (intro sort_dedup_unique) (auto simp: strict_sorted_iff)
    then show "take (Suc (nat limit)) (sort_dedup (filter P registered @ take (Suc (nat limit)) (sort (filter P ?stored)))) =
      take (Suc (nat limit)) (sort (filter P ?all))"
      using merged_keys [of "filter P registered" "filter P ?stored"] assms(5,6) by simp
  qed
  have page: "list_schedules rank K R registered (page\<lparr>pr_cursor := c\<rparr>) recent s =
    serve_page K ''schedules'' key_position (nat limit) (schedule_view R recent s) (sort (filter P ?all))"
    if "decode_optional (decode_string_cursor K ''schedules'') c = Inr after" "P = (\<lambda>k. when_set after (\<lambda>a. k > a))" for c after P
  proof -
    have "list_schedules rank K R registered (page\<lparr>pr_cursor := c\<rparr>) recent s =
      serve_page K ''schedules'' key_position (nat limit) (schedule_view R recent s)
        (sort_dedup (filter P registered @ take (Suc (nat limit)) (sort (filter P ?stored))))"
      using that assms(3,4)
      by (simp add: list_schedules_def limit byte_order rank Let_def serve_page_def schedule_rows
          split: sum.split)
    also note keys
    finally show ?thesis .
  qed
  show ?thesis
    unfolding schedule_list.served_def
    by (auto simp: page decode_optional_def when_set_def)
qed

lemma hex16_ascii: "is_ascii (hex16 h)" "length (hex16 h) = 16"
proof -
  have "list_all (\<lambda>n. is_ascii [hex_digit n]) [0..<16]" by code_simp
  then have "is_ascii [hex_digit n]" if "n < 16" for n using that by (simp add: list_all_iff)
  moreover have "unat (drop_bit k h AND 15) < 16" for k
    using word_and_le1 [of "drop_bit k h" 15] by (simp add: word_le_nat_alt)
  ultimately show "is_ascii (hex16 h)" by (simp add: hex16_def is_ascii_def list_all_iff)
qed (simp add: hex16_def)

lemma run_scope_ok: "validate_scope (scoped_cursor_scope ''schedule_runs'' key) = Inr ()"
  using hex16_ascii [of "fnv_hash key"] by (simp add: validate_scope_def scoped_cursor_scope_def is_ascii_def)

text \<open>
  What an approval is shown as, and which approvals a filter asks for: every given field agrees, and
  the status is the one that is shown.
\<close>

definition shown_status :: "db_millis \<Rightarrow> approval_row \<Rightarrow> string" where
  "shown_status now r =
     (case apr_status r of
        AP_Pending \<Rightarrow> if \<exists>expiry \<in> set_option (apr_expires_at r). expiry \<le> now then ''expired'' else ''pending''
      | AP_Resolved \<Rightarrow> ''resolved''
      | AP_Expired \<Rightarrow> ''expired''
      | AP_Cancelled \<Rightarrow> ''cancelled'')"

definition approval_matches :: "approval_list_filter \<Rightarrow> db_millis \<Rightarrow> approval_row \<Rightarrow> bool" where
  "approval_matches filters now r \<longleftrightarrow>
     (\<forall>i \<in> set_option (plf_workflow_id filters). apr_workflow_id r = i) \<and>
     (\<forall>kind \<in> set_option (plf_kind filters). apr_kind r = kind) \<and>
     (\<forall>version \<in> set_option (plf_version filters). apr_version r = version) \<and>
     (\<forall>status \<in> set_option (plf_status filters). shown_status now r = status) \<and>
     (\<forall>t \<in> set_option (plf_requested_after filters). t \<le> apr_requested_at r) \<and>
     (\<forall>t \<in> set_option (plf_requested_before filters). apr_requested_at r < t)"

lemma shown_status_effective:
  "shown_status now r = approval_status_as_str (effective_status now (apr_status r) (apr_expires_at r))"
  by (cases "apr_status r"; cases "apr_expires_at r") (auto simp: shown_status_def effective_status_def)

lemma approval_status_shown: "approval_status_selected now status r \<longleftrightarrow> shown_status now r = status"
proof (cases "approval_status_try_from status")
  case (Inl e)
  then have "approval_status_as_str st \<noteq> status" for st
    by (cases st) (auto simp: approval_status_try_from_def status_try_from_def approval_status_ALL_def)
  with Inl show ?thesis by (simp add: approval_status_selected_def shown_status_effective)
next
  case (Inr st)
  then have "status = approval_status_as_str st" by (simp add: approval_status_try_from_def approval_status.parse_Inr)
  with Inr show ?thesis
    by (cases st; cases "apr_status r"; cases "apr_expires_at r")
      (auto simp: approval_status_selected_def shown_status_def sql_le_def sql_gt_def)
qed

lemma approval_selected_matches: "approval_selected filters now = approval_matches filters now"
  by (rule ext) (auto simp: approval_selected_def approval_matches_def when_set_def approval_status_shown split: option.splits)

lemma distinct_newest:
  assumes "distinct (map key rows)"
  shows "distinct (map (\<lambda>r. (- time r :: int, - key r :: int)) (filter P rows))"
  using assms by (auto simp: distinct_map inj_on_def)

text \<open>
  C36: the operator sees every schedule, every run of a schedule and every approval exactly once. The list of
  schedules merges the registered and the stored keys: following its cursors gives their
  union in order, each with the state, runs and counts of its key, as long as the
  database orders keys by their bytes. Following the cursors of the runs of a schedule, or of a
  filtered list of approvals, gives the rows asked for, newest first, and no other.
  An approval is asked for if it agrees with every given field of the filter, and its status is
  the one it is shown with: a pending approval past its expiry is listed as expired and not
  as pending. The lists are those of a database that does not change while their pages are read.
\<close>

theorem schedule_and_approval_lists_complete:
  assumes K: "codec_ok K"
    and schedules: "distinct registered" "distinct (map sch_schedule_key (schedule_states s))"
      "\<forall>k \<in> set registered \<union> sch_schedule_key ` set (schedule_states s).
         k \<noteq> [] \<and> length k \<le> 191 \<and> cursor_fits K ''schedules'' (key_position k)"
      "\<forall>x y. rank x < rank y \<longleftrightarrow> x < y"
      "bounded_limit page MAX_ADMIN_PAGE_SIZE = Inr limit" "0 \<le> limit" "0 < recent" "recent \<le> MAX_RECENT_SCHEDULE_RUNS"
    and runs: "distinct (map run_id (schedule_runs s))" "schedule_state_by_key s key \<noteq> None"
      "\<forall>r \<in> set (schedule_runs s). wire_id (run_id r) \<and>
         cursor_fits K (scoped_cursor_scope ''schedule_runs'' key) (run_position r)"
    and approvals: "distinct (map apr_id (approvals s))"
      "\<forall>r \<in> set (approvals s). wire_id (apr_id r) \<and> cursor_fits K ''approvals'' (approval_position r)"
      "validate_now now = Inr ()" "validate_approval_filter filters = Inr ()" "plf_page filters = page"
  shows "let keys = sort_dedup (registered @ map sch_schedule_key (schedule_states s));
      of_key = filter (\<lambda>r. run_schedule_key r = key) (schedule_runs s);
      asked = filter (approval_matches filters now) (approvals s) in
    follow (Suc (length keys)) (\<lambda>c. list_schedules rank K R registered (page\<lparr>pr_cursor := c\<rparr>) recent s) None =
      Some (Inr (map (schedule_view R recent s) keys)) \<and>
    follow (Suc (length of_key)) (\<lambda>c. list_schedule_runs K key (page\<lparr>pr_cursor := c\<rparr>) s) None =
      Some (Inr (map (run_view s) (sort_key (\<lambda>r. (- run_scheduled_for r, - run_id r)) of_key))) \<and>
    follow (Suc (length asked))
      (\<lambda>c. list_approvals_at K (filters\<lparr>plf_page := (plf_page filters)\<lparr>pr_cursor := c\<rparr>\<rparr>) now s) None =
      Some (Inr (map (approval_view now :: approval_row \<Rightarrow> 'j approval_summary)
        (sort_key (\<lambda>r. (- apr_requested_at r, - apr_id r)) asked))) \<and>
    (\<forall>r \<in> set asked. aps_status (approval_view now r :: 'j approval_summary) = shown_status now r)"
proof -
  note positive = bounded_limit_positive [OF schedules(5,6)]
  let ?keys = "sort_dedup (registered @ map sch_schedule_key (schedule_states s))"
  have "sorted ?keys" "distinct ?keys" using sort_dedup_strict by (auto simp: strict_sorted_iff)
  with schedules(3) schedule_list.follow_all [OF K _ positive _ _ _
      schedule_list_served [OF schedules(5-8,1,2), of rank K R]] schedules(4)
  have "follow (Suc (length ?keys)) (\<lambda>c. list_schedules rank K R registered (page\<lparr>pr_cursor := c\<rparr>) recent s) None =
      Some (Inr (map (schedule_view R recent s) ?keys))"
    by (auto simp: validate_scope_def is_ascii_def sorted_sort_id simp del: follow.simps)
  moreover have "follow (Suc (length (filter (\<lambda>r. run_schedule_key r = key) (schedule_runs s))))
      (\<lambda>c. list_schedule_runs K key (page\<lparr>pr_cursor := c\<rparr>) s) None =
    Some (Inr (map (run_view s) (sort_key (\<lambda>r. (- run_scheduled_for r, - run_id r))
      (filter (\<lambda>r. run_schedule_key r = key) (schedule_runs s)))))"
    using runs(3) by (intro run_list.follow_all [OF K run_scope_ok positive _ distinct_newest [OF runs(1)] _
        run_list_served [OF schedules(5,6) runs(2)]]) auto
  moreover have "follow (Suc (length (filter (approval_selected filters now) (approvals s))))
      (\<lambda>c. list_approvals_at K (filters\<lparr>plf_page := (plf_page filters)\<lparr>pr_cursor := c\<rparr>\<rparr>) now s) None =
    Some (Inr (map (approval_view now :: approval_row \<Rightarrow> 'j approval_summary) (sort_key (\<lambda>r. (- apr_requested_at r, - apr_id r))
      (filter (approval_selected filters now) (approvals s)))))"
    using approvals(2,5) schedules(5) by (intro approval_list.follow_all [OF K _ positive _ distinct_newest [OF approvals(1)] _
        approval_list_served [OF _ approvals(4,3)]]) (auto simp: validate_scope_def is_ascii_def)
  moreover have "aps_status (approval_view now r :: 'j approval_summary) = shown_status now r" for r
    by (simp add: approval_view_def approval_summary_at_def approval_selection_def json_summary_length shown_status_effective)
  ultimately show ?thesis by (simp add: Let_def approval_selected_matches del: follow.simps)
qed

definition sample_state :: "string \<Rightarrow> schedule_state_row" where
  "sample_state key =
     \<lparr>sch_schedule_key = key, sch_definition_fingerprint = ''f'', sch_definition_version = 1, sch_next_local_occurrence = ''o'',
      sch_next_occurrence_at = 0, sch_last_materialized_at = None, sch_paused_at = None, sch_paused_by = None,
      sch_pause_reason = None, sch_created_at = 0, sch_updated_at = 0\<rparr>"

definition sample_listed :: db where
  "sample_listed = sample_db\<lparr>schedule_states := [sample_state ''a_x'', sample_state ''a1''],
     approvals := [sample_approval\<lparr>apr_expires_at := Some 5\<rparr>, sample_approval\<lparr>apr_id := 2, apr_expires_at := Some 6\<rparr>,
       sample_approval\<lparr>apr_id := 3, apr_status := AP_Expired\<rparr>]\<rparr>"

definition sample_approval_filter :: approval_list_filter where
  "sample_approval_filter =
     \<lparr>plf_page = \<lparr>pr_cursor = None, pr_limit = Some 1\<rparr>, plf_workflow_id = None, plf_kind = None, plf_version = None,
      plf_status = Some ''expired'', plf_requested_after = None, plf_requested_before = None\<rparr>"

theorem schedule_and_approval_lists_complete_witness:
  "map_option (map_sum id (map ssm_key)) (follow 3 (\<lambda>c. list_schedules (\<lambda>k. k) sample_codec Map.empty []
     \<lparr>pr_cursor = c, pr_limit = Some 1\<rparr> 1 sample_listed) None) = Some (Inr [''a1'', ''a_x'']) \<and>
   map_option (map_sum id (map (\<lambda>a. (aps_id a, aps_status a))))
     (follow 3 (\<lambda>c. list_approvals_at sample_codec (sample_approval_filter\<lparr>plf_page := \<lparr>pr_cursor = c, pr_limit = Some 1\<rparr>\<rparr>)
       5 sample_listed :: durable_error + unit approval_summary admin_page) None) =
   Some (Inr [(3, ''expired''), (1, ''expired'')])"
proof -
  let ?page = "\<lparr>pr_cursor = None, pr_limit = Some 1\<rparr>"
  have "distinct (map sch_schedule_key (schedule_states sample_listed))"
    "\<forall>k \<in> set [] \<union> sch_schedule_key ` set (schedule_states sample_listed).
       k \<noteq> [] \<and> length k \<le> 191 \<and> cursor_fits sample_codec ''schedules'' (key_position k)"
    "bounded_limit ?page MAX_ADMIN_PAGE_SIZE = Inr 1" "1 \<le> MAX_RECENT_SCHEDULE_RUNS"
    "distinct (map run_id (schedule_runs sample_listed))" "schedule_state_by_key sample_listed ''a1'' \<noteq> None"
    "\<forall>r \<in> set (schedule_runs sample_listed). wire_id (run_id r) \<and>
       cursor_fits sample_codec (scoped_cursor_scope ''schedule_runs'' ''a1'') (run_position r)"
    "distinct (map apr_id (approvals sample_listed))"
    "\<forall>r \<in> set (approvals sample_listed). wire_id (apr_id r) \<and> cursor_fits sample_codec ''approvals'' (approval_position r)"
    "validate_now 5 = Inr ()" "validate_approval_filter sample_approval_filter = Inr ()"
    "plf_page sample_approval_filter = ?page"
    by code_simp+
  note complete = schedule_and_approval_lists_complete [where rank = "\<lambda>k. k" and 'j = unit and R = Map.empty and registered = "[]",
      OF sample_codec_ok _ this(1,2) _ this(3) _ _ this(4-12)]
  let ?asked = "filter (approval_matches sample_approval_filter 5) (approvals sample_listed)"
  have "sort_dedup ([] @ map sch_schedule_key (schedule_states sample_listed)) = [''a1'', ''a_x'']" by code_simp
  moreover have asked: "length ?asked = 2"
    "map (\<lambda>a. (aps_id a, aps_status a)) (map (approval_view 5 :: approval_row \<Rightarrow> unit approval_summary)
       (sort_key (\<lambda>r. (- apr_requested_at r, - apr_id r)) ?asked)) = [(3, ''expired''), (1, ''expired'')]"
    by code_simp+
  moreover have "plf_page sample_approval_filter\<lparr>pr_cursor := c\<rparr> = \<lparr>pr_cursor = c, pr_limit = Some 1\<rparr>" for c
    by (simp add: sample_approval_filter_def)
  moreover have "map ssm_key (map (schedule_view Map.empty 1 sample_listed) [''a1'', ''a_x'']) = [''a1'', ''a_x'']" by code_simp
  ultimately show ?thesis
    using complete by (simp add: Let_def numeral_3_eq_3 del: follow.simps)
qed

text \<open>
  The order of the database matters. Under a collation that puts the underscore before the digits, as
  linguistic collations do and as no comparison of bytes does, a schedule that is stored but
  not registered in this process is on no page: the page breaks in the order of the
  bytes and the next query resumes in the order of the collation.
\<close>

definition underscore_first :: "string \<Rightarrow> nat list" where
  "underscore_first k = map (\<lambda>c. if c = CHR ''_'' then 0 else Suc (of_char c)) k"

lemma schedule_list_skips_under_collation:
  "inj underscore_first \<and> map sch_schedule_key (schedule_states sample_listed) = [''a_x'', ''a1''] \<and>
   map_option (map_sum id (map ssm_key)) (follow 3 (\<lambda>c. list_schedules underscore_first sample_codec Map.empty []
     \<lparr>pr_cursor = c, pr_limit = Some 1\<rparr> 1 sample_listed) None) = Some (Inr [''a1''])"
proof (intro conjI)
  show "inj underscore_first"
    unfolding underscore_first_def by (auto simp: inj_def inj_on_def split: if_splits intro!: list.inj_map [THEN injD])
qed code_simp+

end
