(* ===== verification/Progress.thy ===== *)
theory Progress
  imports Topic_Slots
begin

text \<open>
  Progress reports (\<open>src/progress.rs\<close>): the handler of a running attempt writes numbered
  events of its own, at most a hundred per attempt, and only while its lease holds.
\<close>

definition MAX_PROGRESS_EVENTS_PER_ATTEMPT :: i32 where
  "MAX_PROGRESS_EVENTS_PER_ATTEMPT = 100"

definition MAX_PROGRESS_DESCRIPTION_BYTES :: int where
  "MAX_PROGRESS_DESCRIPTION_BYTES = 2048"

datatype progress_severity = PS_Info | PS_Warning | PS_Error

fun progress_severity_as_str :: "progress_severity \<Rightarrow> string" where
  "progress_severity_as_str PS_Info = ''info''"
| "progress_severity_as_str PS_Warning = ''warning''"
| "progress_severity_as_str PS_Error = ''error''"

record progress_event =
  pe_code :: string
  pe_description :: string
  pe_completed_units :: "i64 option"
  pe_total_units :: "i64 option"
  pe_severity :: progress_severity
  pe_metadata_json :: "string option"

definition ProgressEvent_new :: "string \<Rightarrow> string \<Rightarrow> progress_event" where
  "ProgressEvent_new code description =
     \<lparr>pe_code = code, pe_description = description, pe_completed_units = None, pe_total_units = None,
      pe_severity = PS_Info, pe_metadata_json = None\<rparr>"

datatype progress_report_outcome = PO_Persisted u32 | PO_LimitReached

record progress_reporter =
  rp_activity_id :: i64
  rp_attempt_number :: i32
  rp_lease_token :: string

text \<open>\<open>serde_json\<close> tells whether a text is JSON: the parameter \<open>is_json\<close>.\<close>

definition validate_metadata :: "(string \<Rightarrow> bool) \<Rightarrow> string option \<Rightarrow> durable_error + unit" where
  "validate_metadata is_json metadata_json =
     (case metadata_json of
        None \<Rightarrow> Inr ()
      | Some metadata \<Rightarrow>
          (case ensure_size ''progress metadata'' metadata MAX_EVENT_METADATA_BYTES of
             Inl e \<Rightarrow> Inl e
           | Inr _ \<Rightarrow> if is_json metadata then Inr () else Inl Serialization))"

definition validate_event :: "(string \<Rightarrow> bool) \<Rightarrow> progress_event \<Rightarrow> durable_error + unit" where
  "validate_event is_json event =
     (if pe_code event = [] \<or> length (pe_code event) > 64 \<or>
         \<not> list_all (\<lambda>c. (of_char c :: nat) < 128) (pe_code event)
      then Inl (InvalidDefinition ''progress code must be 1-64 ASCII bytes'')
      else
        (case ensure_size ''progress description'' (pe_description event) MAX_PROGRESS_DESCRIPTION_BYTES of
           Inl e \<Rightarrow> Inl e
         | Inr _ \<Rightarrow>
             (case validate_metadata is_json (pe_metadata_json event) of
                Inl e \<Rightarrow> Inl e
              | Inr _ \<Rightarrow>
                  let has_negative_units =
                        (case pe_completed_units event of None \<Rightarrow> False | Some units \<Rightarrow> units < 0) \<or>
                        (case pe_total_units event of None \<Rightarrow> False | Some units \<Rightarrow> units < 0);
                      completed_exceeds_total =
                        (case (pe_completed_units event, pe_total_units event) of
                           (Some done_units, Some all_units) \<Rightarrow> done_units > all_units | _ \<Rightarrow> False)
                  in if has_negative_units \<or> completed_exceeds_total
                     then Inl (InvalidDefinition ''progress units must satisfy 0 <= completed <= total'')
                     else Inr ())))"

section \<open>Writing a report\<close>

text \<open>
  The table: its primary key, the attempt it belongs to, and the bounds the schema checks.
\<close>

definition insert_progress :: "progress_event_row \<Rightarrow> unit dtx" where
  "insert_progress row = (\<lambda>s.
     if \<exists>q \<in> set (progress_events s). (prg_activity_id q, prg_attempt_number q, prg_sequence q) =
          (prg_activity_id row, prg_attempt_number row, prg_sequence row)
     then Inl (Err (unique_violation ''durable_progress_event_pkey''))
     else if \<not> (\<exists>t \<in> set (attempts s). att_activity_id t = prg_activity_id row \<and>
          att_attempt_number t = prg_attempt_number row)
     then Inl (Err (foreign_key_violation ''fk_durable_progress_attempt''))
     else if prg_sequence row \<le> 0 \<or> prg_sequence row > 100 \<or> prg_description_bytes row > 2048
     then Inl (Err (check_violation ''durable_progress_event''))
     else Inr ((), s\<lparr>progress_events := progress_events s @ [row]\<rparr>))"

definition progress_of :: "db \<Rightarrow> i64 \<Rightarrow> i32 \<Rightarrow> progress_event_row list" where
  "progress_of s activity_id attempt_number =
     filter (\<lambda>r. prg_activity_id r = activity_id \<and> prg_attempt_number r = attempt_number) (progress_events s)"

definition last_sequence :: "db \<Rightarrow> i64 \<Rightarrow> i32 \<Rightarrow> i32" where
  "last_sequence s activity_id attempt_number =
     (case map prg_sequence (progress_of s activity_id attempt_number) of [] \<Rightarrow> 0 | n # ns \<Rightarrow> fold max ns n)"

definition reporting_activity :: "progress_reporter \<Rightarrow> activity_row \<Rightarrow> bool" where
  "reporting_activity reporter a \<longleftrightarrow>
     act_id a = rp_activity_id reporter \<and> act_status a = AS_Running \<and>
     act_attempt_count a = rp_attempt_number reporter \<and> act_lease_token a = Some (rp_lease_token reporter)"

definition report_locked :: "progress_reporter \<Rightarrow> progress_event \<Rightarrow> progress_report_outcome dtx" where
  "report_locked reporter event =
     tx_bind (tx_query (\<lambda>s. find (reporting_activity reporter) (activities s))) (\<lambda>found.
     tx_seq (tx_require (found \<noteq> None) FencedWrite)
     (tx_bind (tx_query (\<lambda>s. last_sequence s (rp_activity_id reporter) (rp_attempt_number reporter))) (\<lambda>last.
      if last \<ge> MAX_PROGRESS_EVENTS_PER_ATTEMPT then tx_return PO_LimitReached
      else
        tx_bind (tx_some (InvalidState ''progress sequence overflow'') (checked_add 32 last 1)) (\<lambda>sequence.
        tx_bind (tx_some (InvalidState ''progress description length overflow'')
          (i32_try_from (int (length (pe_description event))))) (\<lambda>description_bytes.
        tx_bind database_now_millis (\<lambda>now.
        tx_seq (insert_progress
          \<lparr>prg_activity_id = rp_activity_id reporter, prg_attempt_number = rp_attempt_number reporter,
           prg_sequence = sequence, prg_code = pe_code event, prg_description = pe_description event,
           prg_description_bytes = description_bytes, prg_completed_units = pe_completed_units event,
           prg_total_units = pe_total_units event, prg_severity = progress_severity_as_str (pe_severity event),
           prg_metadata_json = pe_metadata_json event, prg_created_at = now\<rparr>)
        (tx_bind (tx_some (InvalidState ''negative progress sequence'') (u32_try_from sequence)) (\<lambda>n.
         tx_return (PO_Persisted n)))))))))"

definition report :: "(string \<Rightarrow> bool) \<Rightarrow> progress_reporter \<Rightarrow> progress_event \<Rightarrow> progress_report_outcome dtx" where
  "report is_json reporter event =
     tx_seq (tx_lift (validate_event is_json event)) (report_locked reporter event)"

section \<open>Numbering\<close>

definition progress_ok :: "db \<Rightarrow> bool" where
  "progress_ok s \<longleftrightarrow>
     (\<forall>a k. \<exists>n \<le> 100. map prg_sequence (progress_of s a k) = [1..int n])"

lemma fold_max_upto: "fold max [i..j] (i - 1) = (if i \<le> j then j else i - 1 :: int)"
proof (induction "nat (j - i + 1)" arbitrary: i)
  case (Suc m)
  then have "i \<le> j" by simp
  with Suc.hyps(1) [of "i + 1"] Suc.hyps(2) show ?case by (simp add: upto_rec1)
qed simp

lemma last_sequence_upto:
  assumes "map prg_sequence (progress_of s a k) = [1..int n]"
  shows "last_sequence s a k = int n"
proof (cases n)
  case (Suc m)
  then have "[1..int n] = 1 # [2..int n]" by (simp add: upto_rec1)
  with assms fold_max_upto [of 2 "int n"] Suc show ?thesis by (simp add: last_sequence_def)
qed (use assms in \<open>simp add: last_sequence_def\<close>)

text \<open>
  C39: the progress of an attempt is numbered from one without a gap, and there are at most a
  hundred reports of it. A report is written only under the lease of a running attempt, and
  then it is the next of its attempt with the text it was given; at a hundred the reporter
  is told so and nothing is written. No other attempt's progress changes.
\<close>

theorem progress_is_numbered:
  assumes "progress_ok s" and "report is_json reporter event s = Inr (outcome, s')"
    and "a = rp_activity_id reporter" and "k = rp_attempt_number reporter"
  shows "progress_ok s' \<and> (\<exists>r \<in> set (activities s). reporting_activity reporter r) \<and>
    (\<forall>b j. (b, j) \<noteq> (a, k) \<longrightarrow> progress_of s' b j = progress_of s b j) \<and>
    (case outcome of
       PO_LimitReached \<Rightarrow> progress_of s' a k = progress_of s a k \<and> length (progress_of s a k) = 100
     | PO_Persisted n \<Rightarrow>
         n = int (length (progress_of s a k)) + 1 \<and> n \<le> 100 \<and>
         (\<exists>row. progress_of s' a k = progress_of s a k @ [row] \<and> prg_sequence row = n \<and>
            prg_description row = pe_description event))"
proof -
  let ?f = "find (reporting_activity reporter) (activities s)"
  from assms(1) obtain n where n: "n \<le> 100" "map prg_sequence (progress_of s a k) = [1..int n]"
    unfolding progress_ok_def by blast
  have "length (map prg_sequence (progress_of s a k)) = n" unfolding n(2) by simp
  then have len: "length (progress_of s a k) = n" by simp
  have last: "last_sequence s a k = int n" using n(2) by (rule last_sequence_upto)
  have found: "\<exists>r \<in> set (activities s). reporting_activity reporter r"
    using assms(2) find_None [of "reporting_activity reporter" "activities s"]
    by (auto simp: report_def report_locked_def tx_simps)
  show ?thesis
  proof (cases "n = 100")
    case True
    then have "outcome = PO_LimitReached" "s' = s"
      using assms(2-4) last by (auto simp: report_def report_locked_def tx_simps MAX_PROGRESS_EVENTS_PER_ATTEMPT_def)
    with True assms(1) len found show ?thesis by simp
  next
    case False
    then obtain row where row: "outcome = PO_Persisted (int n + 1)"
      "progress_events s' = progress_events s @ [row]"
      "prg_activity_id row = a" "prg_attempt_number row = k" "prg_sequence row = int n + 1"
      "prg_description row = pe_description event"
      using assms(2-4) last n(1)
      by (auto simp: report_def report_locked_def insert_progress_def tx_simps MAX_PROGRESS_EVENTS_PER_ATTEMPT_def
          checked_add_Some u32_try_from_Some split: if_splits)
    then have here: "progress_of s' a k = progress_of s a k @ [row]"
      and others: "(b, j) \<noteq> (a, k) \<Longrightarrow> progress_of s' b j = progress_of s b j" for b j
      by (auto simp: progress_of_def)
    have "[1..int n] @ [int n + 1] = [1..int (Suc n)]" by (simp add: upto_rec2 add.commute)
    with here row n have "map prg_sequence (progress_of s' a k) = [1..int (Suc n)]" by simp
    moreover have "Suc n \<le> 100" using False n(1) by simp
    ultimately have "\<exists>m \<le> 100. map prg_sequence (progress_of s' b j) = [1..int m]" for b j
      using assms(1) others unfolding progress_ok_def by (cases "(b, j) = (a, k)") (blast, simp)
    then have "progress_ok s'" by (simp add: progress_ok_def)
    with row here others len False n(1) found show ?thesis by auto
  qed
qed

definition sample_reporting :: db where
  "sample_reporting = sample_db
     \<lparr>activities := [sample_activity\<lparr>act_status := AS_Running, act_attempt_count := 1, act_lease_token := Some ''k''\<rparr>],
      attempts := [\<lparr>att_activity_id = 1, att_attempt_number = 1, att_worker_id = ''w'', att_lease_token = ''k'',
        att_started_at = 20, att_heartbeat_at = 20, att_finished_at = None, att_outcome = None,
        att_error_category = None, att_error_message = None, att_provider_result_json = None\<rparr>]\<rparr>"

theorem progress_is_numbered_witness:
  "map prg_sequence (progress_of (snd (projr (report (\<lambda>_. True)
      \<lparr>rp_activity_id = 1, rp_attempt_number = 1, rp_lease_token = ''k''\<rparr>
      (ProgressEvent_new ''half'' ''half way'') sample_reporting))) 1 1) = [1]"
proof -
  let ?r = "\<lparr>rp_activity_id = 1, rp_attempt_number = 1, rp_lease_token = ''k''\<rparr>"
  let ?m = "report (\<lambda>_. True) ?r (ProgressEvent_new ''half'' ''half way'') sample_reporting"
  have "progress_ok sample_reporting"
    by (auto simp: progress_ok_def progress_of_def sample_reporting_def sample_defs intro!: exI [of _ 0])
  moreover have "\<not> isl ?m" "fst (projr ?m) = PO_Persisted 1" "progress_of sample_reporting 1 1 = []" by code_simp+
  ultimately show ?thesis
    using progress_is_numbered [OF _ returned [of ?m], of 1 1] by auto
qed

end
