(* ===== verification/Mysql_Dialect.thy ===== *)
theory Mysql_Dialect
  imports Health Store
begin

text \<open>
  The MySQL dialect (\<open>src/dialect/mysql.rs\<close>). The development models the statements as PostgreSQL runs
  them; this theory models what MySQL does differently and shows that the engine cannot
  tell: the insert of a workflow, which asks for the last insert id instead of the returned row, and
  the classification of errors by their texts.
\<close>

section \<open>Inserting a workflow\<close>

text \<open>
  \<open>INSERT ... ON DUPLICATE KEY UPDATE id = id + LAST_INSERT_ID(0)\<close>: a row that collides with any
  unique key is updated to itself and leaves the insert id of the connection at zero; otherwise the
  insert id is the new one. The result is the insert id and the state.
\<close>

definition upsert_workflow :: "workflow_row \<Rightarrow> i64 dtx" where
  "upsert_workflow row = (\<lambda>s.
     if wf_version row \<le> 0 \<or> wf_state_version row \<le> 0
     then Inl (Err (check_violation ''durable_workflow''))
     else if \<exists>r \<in> set (workflows s).
               wf_kind r = wf_kind row \<and> sql_eq (wf_deduplication_key r) (wf_deduplication_key row) \<or>
               sql_eq (wf_restarted_from_workflow_id r) (wf_restarted_from_workflow_id row)
     then Inr (0, s)
     else if \<not> (workflow_reference_ok s (wf_root_workflow_id row) \<and>
                workflow_reference_ok s (wf_restarted_from_workflow_id row) \<and>
                workflow_reference_ok s (wf_parent_workflow_id row))
     then Inl (Err (foreign_key_violation ''durable_workflow''))
     else Inr (next_workflow_id s,
               s\<lparr>workflows := workflows s @ [row\<lparr>wf_id := next_workflow_id s\<rparr>],
                 next_workflow_id := next_workflow_id s + 1\<rparr>))"

definition mysql_insert_workflow :: "workflow_row \<Rightarrow> workflow_insert dtx" where
  "mysql_insert_workflow row =
     tx_bind (upsert_workflow row) (\<lambda>last_id.
     if last_id > 0 then tx_return (Inserted last_id)
     else if wf_deduplication_key row \<noteq> None then tx_return DeduplicationConflict
     else tx_fail (restart_conflict (wf_restarted_from_workflow_id row)))"

lemma mysql_insert_alike:
  assumes "0 < next_workflow_id s"
    and "wf_deduplication_key row = None \<or> wf_restarted_from_workflow_id row = None"
  shows "mysql_insert_workflow row s = insert_workflow row s"
  using assms by (auto simp: mysql_insert_workflow_def upsert_workflow_def insert_workflow_def tx_eval sql_eq_def)

text \<open>
  No start has both keys, so both dialects insert, find the duplicate or refuse a second
  successor alike, and leave the same rows.
\<close>

lemma mysql_starts_alike:
  assumes "0 < next_workflow_id s"
  shows "mysql_insert_workflow (new_workflow_row kind version input state available
      (so_deduplication_key options) run (so_root_workflow_id options) (so_restarted_from_workflow_id options) parent seq now) s =
    insert_workflow (new_workflow_row kind version input state available
      (so_deduplication_key options) run (so_root_workflow_id options) (so_restarted_from_workflow_id options) parent seq now) s"
  using assms by (intro mysql_insert_alike)
    (simp_all add: new_workflow_row_def so_deduplication_key_def so_restarted_from_workflow_id_def split: start_lineage.split)

section \<open>Classifying errors\<close>

definition ROLLED_BACK_PREFIXES :: "string list" where
  "ROLLED_BACK_PREFIXES = [''Deadlock found when trying to get lock'', ''Lock wait timeout exceeded'']"

definition UNAVAILABLE_MARKERS :: "string list" where
  "UNAVAILABLE_MARKERS =
     [''connection to the server is closed'', ''server shutdown in progress'', ''normal shutdown'',
      ''is running with the --read-only option'', ''is running with the --super-read-only option'',
      ''server has gone away'', ''lost connection to mysql server'', ''primary is not serving'',
      ''code = unavailable'', ''connection refused'']"

definition to_ascii_lowercase :: "string \<Rightarrow> string" where
  "to_ascii_lowercase t =
     map (\<lambda>c. if 65 \<le> (of_char c :: nat) \<and> (of_char c :: nat) \<le> 90 then char_of (of_char c + 32 :: nat) else c) t"

definition mysql_error_transience :: "database_error_kind \<Rightarrow> string \<Rightarrow> transience option" where
  "mysql_error_transience kind message =
     (case kind of
        SerializationFailure \<Rightarrow> Some RolledBack
      | ClosedConnection \<Rightarrow> Some Unavailable
      | UnableToSendCommand \<Rightarrow> Some Unavailable
      | ReadOnlyTransaction \<Rightarrow> Some Unavailable
      | _ \<Rightarrow>
          (if list_ex (starts_with message) ROLLED_BACK_PREFIXES then Some RolledBack
           else
             (let io_error = starts_with message ''Input/output error: '' \<and> \<not> text_contains message ''TLS error'';
                  lowercase = to_ascii_lowercase message
              in if io_error \<or> list_ex (text_contains lowercase) UNAVAILABLE_MARKERS then Some Unavailable else None)))"

text \<open>
  A retry is licensed only by an answer of the server that the transaction was rolled back: never by a lost
  connection, on either server.
\<close>

lemma rolled_back_by_answer:
  assumes "kind \<in> {ClosedConnection, UnableToSendCommand, ReadOnlyTransaction}"
  shows "mysql_error_transience kind message \<noteq> Some RolledBack" "database_error_transience kind message \<noteq> Some RolledBack"
  using assms by (auto simp: mysql_error_transience_def database_error_transience_def)

lemma mysql_texts:
  "list_all (\<lambda>t. mysql_error_transience UnknownKind t = Some RolledBack)
     [''Deadlock found when trying to get lock; try restarting transaction'',
      ''Lock wait timeout exceeded; try restarting transaction'']"
  "list_all (\<lambda>t. mysql_error_transience UnknownKind t = Some Unavailable)
     [''primary is not serving, there may be a reparent operation in progress'',
      ''Input/output error: Input/output error: Connection refused (os error 111)'', ''MySQL server has gone away'']"
  "list_all (\<lambda>t. mysql_error_transience UnknownKind t = None)
     [''Unknown column nope in field list'', ''Input/output error: TLS error: invalid peer certificate'']"
  by code_simp+

end
