(* ===== verification/Spec2Isabelle.thy ===== *)
theory Spec2Isabelle
  imports Engine Attempt_Execution Flow Runtime Admin_Timeline Admin_Lists Progress Mysql_Dialect
begin

text \<open>
  A verification development of \<open>durable-workflows\<close>, an embedded durable-execution engine: workflows,
  activities and approvals are rows of a relational database, and any number of
  processes advance them by short transactions. Paths below are under
  \<open>src/durable-workflows/src/\<close> unless they start with another directory.

  \<^bold>\<open>The program and its parts.\<close>
  An application starts workflows through the store (\<open>store.rs\<close>). A coordinator
  (\<open>runtime/coordinator.rs\<close>) leases one ready workflow, runs its step function on the next event and commits
  the transition it returns: a continuation, a result, or a wait for a timer, an approval,
  an activity or a child workflow. Activity workers (\<open>runtime/activity_worker.rs\<close>) claim activities of
  a topic within its concurrency limit, run their handlers under a lease they renew, and
  finish them. Timers and approval expiries (\<open>runtime/temporal.rs\<close>) and schedules
  (\<open>schedule.rs\<close>, \<open>runtime/schedule_materializer.rs\<close>) become events and workflows. Operators pause, resume,
  cancel, retry, restart and decide (\<open>admin/control.rs\<close>) and read lists, timelines and metrics
  (\<open>admin/query.rs\<close>, \<open>admin/metrics.rs\<close>). A supervisor (\<open>runtime/supervisor.rs\<close>) runs all of it in one
  process and restarts what fails (\<open>runtime/restart.rs\<close>).

  \<^bold>\<open>How it is modelled.\<close>
  \<^item> The database is the record \<open>db\<close> of \<open>Rows\<close>: the tables as lists of rows in insertion order, the id counters
    and the clock readings. A transaction is a function of type \<open>'a dtx\<close>, from a state to an
    error or to a result and the new state; an error is the rollback. Row locks are the
    atomicity of a transaction, \<open>SKIP LOCKED\<close> is a predicate argument that says which
    rows others hold, and a call of several transactions takes a function \<open>others\<close> for what happens between
    them. A call whose statements run outside a transaction (the start of a runtime, the readiness check, the
    health scan, the topic metrics) takes what happens before statement \<open>k\<close>, \<open>others k\<close>, or what
    it sees, \<open>seen k\<close>. A page of a list or of a timeline is one read, and that following
    its cursors is complete is shown for tables that do not change meanwhile.
    Unique keys, checks and foreign keys are conditions of the inserts.
  \<^item> Columns \<open>i32\<close>, \<open>i64\<close>, \<open>u32\<close> are integers with the checked, saturating or wrapping arithmetic of the source
    written out; hashes are \<open>64 word\<close>. Text is the list of its bytes.
  \<^item> Code outside the repository is a parameter: serde JSON, SHA-256, base64, chrono, the cron and
    time zone libraries, floating point scaling of a \<open>Duration\<close>, \<open>Display\<close> and \<open>Debug\<close> texts, lease tokens, tokio task ids and
    instants, the collation of the database, and the user's step functions and handlers.
    What is assumed of one is a named hypothesis (\<open>codec_ok\<close>, \<open>chrono_ok\<close>, \<open>cron_ok\<close>), satisfied by
    the samples the witnesses run on.
  \<^item> Loops over rows are structural recursion. Loops whose end depends on the data (restart chains,
    cascades, paged scans, ancestor walks, calendars) carry fuel computed from the state and
    end in \<open>Diverges\<close> when it runs out; \<open>store_loops_end\<close>, \<open>coordinator_loops_end\<close> and \<open>claim_batch_ends\<close>
    show that it does not: the fuel is the number of rows the loop can still
    visit, and each round visits a new one. Loops around \<open>select\<close> are folds over the events they see.

  \<^bold>\<open>Theories\<close>, in the order of their dependencies:
  \<^item> \<open>Durable_Prelude\<close>: integers, text, the transaction type with its laws, the predicates \<open>keeps\<close> (an invariant),
    \<open>guarantees\<close> (a relation between old and new state), \<open>ends\<close> and \<open>rejects\<close> with the collections of rules that
    carry most proofs, and SQL updates and comparisons.
  \<^item> \<open>Errors\<close> (\<open>error.rs\<close>, \<open>clock.rs\<close>, \<open>dialect/postgres.rs\<close>), \<open>Status\<close> (\<open>persistence/mod.rs\<close>; the locale \<open>status_codec\<close>
    for every enum stored as text), \<open>Policy\<close> (\<open>policy.rs\<close>), \<open>Transition\<close> (\<open>transition.rs\<close>), \<open>Rows\<close>
    (\<open>persistence/models.rs\<close>), \<open>Persistence\<close> (\<open>persistence/*.rs\<close>): data and shared operations, with
    the round trips of the status columns and of the wait columns.
  \<^item> \<open>Guarantees\<close>: what every transaction promises, \<open>db_evolves\<close> (nothing is deleted or rewritten) and the row
    invariant \<open>rows_ok\<close>; each component proves it of its operations.
  \<^item> \<open>Store\<close>, \<open>Cascade\<close> (\<open>store.rs\<close>): starts, deduplication, restart chains, cancellation of owned descendants; their loops end and
    the cascade reaches every owned generation. \<open>Samples\<close>: small databases for the witnesses.
  \<^item> \<open>Coordinator\<close>: claim, activation, commit of every transition, failures; fencing of stale
    claims, the effect of a commit, recovery of expired leases only.
  \<^item> \<open>Topics\<close>, \<open>Activity_Worker\<close>, \<open>Topic_Slots\<close>, \<open>Attempt_Execution\<close>: topics and their lock rows, claims, reconciliation, renewal
    and finish; concurrency limits, lost leases, revoked attempts; the loop that runs
    one attempt, which ends and writes the outcome of its first cause.
  \<^item> \<open>Registry\<close> (\<open>registry.rs\<close>), \<open>Temporal\<close>, \<open>Admin_Control\<close>, \<open>Operator_Control\<close>: registries, timers, operator controls and what they promise;
    a restart settles what a live source owned, level by level.
  \<^item> \<open>Schedule_Calendar\<close>, \<open>Schedule_Plan\<close>, \<open>Schedules\<close>, \<open>Schedule_Cursor\<close>, \<open>Schedule_Overlap\<close>: occurrences in local time, the misfire plan,
    reconciliation and the tick; the cursor stays ahead of every run through releases with other definitions,
    and a schedule that allows no overlap starts nothing beside an active run (locales \<open>occurrence_starter\<close> and \<open>schedule_handlers\<close>, the contract of a schedule's handler).
  \<^item> \<open>Deliveries\<close>, \<open>Attempts\<close>, \<open>Engine\<close>: the engine as one transition system \<open>engine_step\<close> whose runs interleave
    all transactions; its invariant by induction over the runs, with the delivery log and the
    coupling of attempts and leases.
  \<^item> \<open>Flow\<close> (\<open>flow.rs\<close>): flows as straight-line code replayed over a journal; replay refines a
    specification without a journal, which feeds the suspended code the answer of each event.
  \<^item> \<open>Cursors\<close>, \<open>Keyset\<close>, \<open>Admin_Views\<close>, \<open>Admin_Query\<close>, \<open>Admin_Timeline\<close>, \<open>Topic_Metrics\<close>, \<open>Admin_Lists\<close>: opaque cursors and the locale
    \<open>keyset\<close>, the contract of a paged list, interpreted on every list; following the
    cursors gives the whole list once and in order. The fields of the topic metrics are the
    counts of the tables at the moments of their queries, and approvals are listed by the status they show.
  \<^item> \<open>Progress\<close> (\<open>progress.rs\<close>), \<open>Readiness\<close> (\<open>readiness.rs\<close>), \<open>Health\<close> (\<open>observability.rs\<close>): progress reports,
    what a process must have registered, health alerts and error counters.
  \<^item> \<open>Task_Restarts\<close>, \<open>Execution_Manager\<close>, \<open>Supervisor\<close>, \<open>Runtime\<close>: the restart policy of one task, the manager of running executions,
    the supervision of all tasks, and the runtime with one round of every task
    loop; rationed restarts, no lost task, every failed execution accounted for, shutdown, local limits,
    and definitions for stored work at the start, whatever other processes do meanwhile.
  \<^item> \<open>Mysql_Dialect\<close>: where MySQL differs from the PostgreSQL statements of the model, and that
    starts cannot tell.

  This theory holds the properties that span components: the invariant of the whole engine, the
  permanence of history and the delivery of events once and in order.

  \<^bold>\<open>Not modelled.\<close>
  \<^item> \<open>tx.rs\<close>, \<open>pool.rs\<close>: lock witnesses in types and connection plumbing; they have no behaviour beyond the
    atomicity every transaction has here.
  \<^item> \<open>trace/\<close> and \<open>src/tools/durable-trace\<close>: recording of transactions for a model checker, compiled out of the engine, and the
    generator of its input. \<open>src/durable-workflows-macros\<close>: code generation over token streams.
  \<^item> Channels, cancellation tokens, timers and task spawning of tokio beyond the events they give;
    spans, metrics and log records; the typed wrappers of the registries around serde; lengths of
    \<open>VARCHAR\<close> columns; the builders that set one field of a configuration.
\<close>

section \<open>Properties of the whole engine\<close>

text \<open>
  C1: the invariant of the engine. In every state that any interleaving of the engine's
  transactions reaches from an empty database: primary and unique keys hold; a workflow
  holds a lease exactly while it runs and names what it waits for while it waits
  (S1, S7); the events it must consume are numbered without a gap up to at most one past
  the last it consumed (S5); an activity never counts more attempts than it may make, and
  it holds a lease exactly while one attempt of it is open, which is then the only one
  (S9, S11, S12).
\<close>

theorem engine_invariant:
  assumes "engine_reachable g" and "s = eg_db g"
  shows "keys_ok s \<and>
    (\<forall>w \<in> set (workflows s). workflow_row_ok w \<and>
       (\<exists>n \<in> {wf_delivered_event_sequence w, wf_delivered_event_sequence w + 1}. deliveries s (wf_id w) = {1..n})) \<and>
    (\<forall>a \<in> set (activities s). activity_row_ok a \<and>
       (holds_lease (act_status a) \<longleftrightarrow>
        (\<exists>!t. t \<in> set (attempts s) \<and> att_activity_id t = act_id a \<and> att_finished_at t = None)))"
proof -
  from reachable_ok [OF assms(1)] have ok: "keys_ok s" "rows_ok s" "attempts_ok s" "log_ok (lease_of ` set (eg_claims g)) {} s"
    by (simp_all add: engine_ok_def assms(2))
  have "workflow_row_ok w \<and>
       (\<exists>n \<in> {wf_delivered_event_sequence w, wf_delivered_event_sequence w + 1}. deliveries s (wf_id w) = {1..n})"
    if "w \<in> set (workflows s)" for w
    using ok that by (auto simp: log_ok_def gapless_def rows_ok_def all_workflows_def list_all_iff)
  moreover have "activity_row_ok a \<and> (holds_lease (act_status a) \<longleftrightarrow>
        (\<exists>!t. t \<in> set (attempts s) \<and> att_activity_id t = act_id a \<and> att_finished_at t = None))"
    if "a \<in> set (activities s)" for a
    using ok that open_attempt_unique [OF ok(3) _ that]
    by (auto simp: rows_ok_def all_activities_def list_all_iff keys_ok_def)
  ultimately show ?thesis using ok(1) by blast
qed

theorem engine_invariant_witness:
  "deliveries (eg_db run_engine) 1 = {1..1} \<and> map wf_delivered_event_sequence (workflows (eg_db run_engine)) = [0]"
proof -
  let ?w = "hd (workflows (eg_db run_engine))"
  have "?w \<in> set (workflows (eg_db run_engine))" by code_simp
  moreover have w: "wf_delivered_event_sequence ?w = 0" "wf_id ?w = 1" by code_simp+
  moreover have "run_event \<in> set (events (eg_db run_engine))" "ev_workflow_id run_event = 1"
    "ev_delivery_sequence run_event = Some 1" by code_simp+
  then have "deliveries (eg_db run_engine) 1 \<noteq> {}" by (force simp: deliveries_def)
  ultimately have "deliveries (eg_db run_engine) 1 = {1..1}"
    using engine_invariant [OF run_engine_reachable refl] by auto
  moreover have "map wf_delivered_event_sequence (workflows (eg_db run_engine)) = [0]" by code_simp
  ultimately show ?thesis by blast
qed

text \<open>
  C2: history is permanent. Whatever transactions run, in whatever order: a workflow that
  ended keeps every column for ever (S6), an event of the log is never changed or removed
  and new ones come after it, and so do a finished attempt and a decided approval (S20);
  an activity that succeeded or was cancelled never changes again (S14).
\<close>

theorem history_is_permanent:
  assumes "engine_step\<^sup>*\<^sup>* g g'" and "s = eg_db g" and "s' = eg_db g'"
  shows "(\<forall>w \<in> set (workflows s). ws_is_terminal (wf_status w) \<longrightarrow> w \<in> set (workflows s')) \<and>
    (\<exists>new. events s' = events s @ new) \<and>
    (\<forall>t \<in> set (attempts s). att_finished_at t \<noteq> None \<longrightarrow> t \<in> set (attempts s')) \<and>
    (\<forall>p \<in> set (approvals s). apr_status p \<noteq> AP_Pending \<longrightarrow> p \<in> set (approvals s')) \<and>
    (\<forall>a \<in> set (activities s). act_status a \<in> {AS_Succeeded, AS_Cancelled} \<longrightarrow> a \<in> set (activities s'))"
proof -
  from steps_evolve [OF assms(1)] have ev: "db_evolves s s'" by (simp add: assms(2,3))
  have "take (length (events s)) (events s') = events s"
    using ev by (auto simp: db_evolves_def rows_evolve_def list_eq_iff_nth_eq)
  then have "events s' = events s @ drop (length (events s)) (events s')" by (metis append_take_drop_id)
  moreover have "w \<in> set (workflows s')" if "w \<in> set (workflows s)" "ws_is_terminal (wf_status w)" for w
    using that ev rows_evolve_mem [of workflow_evolves] by (force simp: db_evolves_def workflow_evolves_def)
  moreover have "t \<in> set (attempts s')" if "t \<in> set (attempts s)" "att_finished_at t \<noteq> None" for t
    using that ev rows_evolve_mem [of attempt_evolves] by (force simp: db_evolves_def attempt_evolves_def)
  moreover have "p \<in> set (approvals s')" if "p \<in> set (approvals s)" "apr_status p \<noteq> AP_Pending" for p
    using that ev rows_evolve_mem [of approval_evolves] by (force simp: db_evolves_def approval_evolves_def)
  moreover have "a \<in> set (activities s')" if "a \<in> set (activities s)" "act_status a \<in> {AS_Succeeded, AS_Cancelled}" for a
    using that ev rows_evolve_mem [of activity_evolves] by (force simp: db_evolves_def activity_evolves_def)
  ultimately show ?thesis by blast
qed

theorem history_is_permanent_witness:
  "\<exists>new. events (eg_db run_done) = events (eg_db run_engine) @ new"
  using history_is_permanent [OF r_into_rtranclp [of engine_step, OF run_engine_step] refl refl] by blast

text \<open>
  C3: events are delivered exactly once and in order (S2, S4, S5). Take any reachable state
  and any activation in progress, however old its claim, its event and the state it read
  them from. If its commit succeeds, the event it consumes is the one directly after the
  last event the workflow consumed, and after the commit the workflow counts exactly that
  one more; so no event is skipped, and none is consumed twice.
\<close>

theorem events_delivered_once_in_order:
  assumes "engine_reachable g" and "(claim, event) \<in> set (eg_activations g)"
    and "commit_on_connection E config claim event transition (eg_db g) = Inr (u, s')"
    and "w \<in> set (workflows (eg_db g))" and "wf_id w = wf_id (cl_row claim)"
  shows "ev_workflow_id event = wf_id w \<and>
    ev_delivery_sequence event = Some (wf_delivered_event_sequence w + 1) \<and>
    (\<exists>w' \<in> set (workflows s'). wf_id w' = wf_id w \<and>
       wf_delivered_event_sequence w' = wf_delivered_event_sequence w + 1)"
proof -
  let ?s = "eg_db g" and ?n = "wf_delivered_event_sequence (cl_row claim)"
  have ok: "engine_ok g" using assms(1) by (rule reachable_ok)
  have "\<not> claim_stale claim ?s" using rejectsD [OF rejects_stale_commit] assms(3) by blast
  then obtain r where r: "r \<in> set (workflows ?s)" "fenced_workflow claim r" by (auto simp: claim_stale_def)
  have "inj_on wf_id (set (workflows ?s))" using ok by (simp add: engine_ok_def log_ok_def distinct_map)
  from inj_onD [OF this _ r(1) assms(4)] r(2) assms(5) have "r = w" by (simp add: fenced_workflow_def)
  moreover from ok assms(2) have "lease_of claim \<in> lease_of ` set (eg_claims g)" "ev_workflow_id event = wf_id (cl_row claim)"
    by (auto simp: engine_ok_def activation_ok_def)
  moreover from ok r this(1) have "wf_delivered_event_sequence r = ?n"
    by (auto simp: engine_ok_def log_ok_def leases_known_def fenced_workflow_def)
  moreover from rows_evolve_mem [OF _ assms(4)] guaranteesD [OF evolves_commit_on_connection assms(3)]
  obtain w' where "w' \<in> set (workflows s')" "workflow_evolves w w'" by (auto simp: db_evolves_def)
  moreover from this assms(5) commit_log(1) [OF ok assms(2,3)]
  have "wf_id w' = wf_id w" "wf_delivered_event_sequence w' = ?n + 1"
    by (auto simp: log_ok_def workflow_evolves_def workflow_identity_def)
  ultimately show ?thesis using commit_log(2) [OF ok assms(2,3)] assms(5) by auto
qed

theorem events_delivered_once_in_order_witness:
  "ev_delivery_sequence run_event = Some 1 \<and>
   list_ex (\<lambda>w. wf_status w = WS_Succeeded \<and> wf_delivered_event_sequence w = 1) (workflows (eg_db run_done))"
proof -
  let ?w = "hd (workflows (eg_db run_engine))"
  have w: "?w \<in> set (workflows (eg_db run_engine))" "wf_id ?w = wf_id (cl_row run_claimed)"
    "wf_delivered_event_sequence ?w = 0" by code_simp+
  have "\<not> isl (run_commit (eg_db run_engine))" by code_simp
  from returned [OF this]
  have "commit_on_connection sample_externals CoordinatorConfig_default run_claimed run_event (Complete ''{}'')
      (eg_db run_engine) = Inr (fst (projr (run_commit (eg_db run_engine))), snd (projr (run_commit (eg_db run_engine))))"
    by (simp add: run_commit_def)
  from events_delivered_once_in_order [OF run_engine_reachable _ this w(1,2)]
  have "ev_delivery_sequence run_event = Some 1" using w(3) by (simp add: run_engine_def)
  moreover have "list_ex (\<lambda>w. wf_status w = WS_Succeeded \<and> wf_delivered_event_sequence w = 1)
      (workflows (eg_db run_done))" by code_simp
  ultimately show ?thesis by blast
qed

end
